(* ===== verification/MR_Prelude.thy ===== *)
theory MR_Prelude
  imports Complex_Main "HOL-Library.AList" "HOL-Library.Char_ord" "HOL-Library.List_Lexorder"
begin

text \<open>
  The prelude of the development: what every component of \<^verbatim>\<open>src/mind_runtime\<close>
  uses of Python. It holds the exceptions as values (\<open>py_error\<close>, \<open>result\<close>), the
  checks of a validator (\<open>raise_first\<close>, \<open>guarded\<close>), operations on mutable state
  that may raise after some of their writes (\<open>prog\<close> and its combinators), the string
  operations the code uses (\<open>strip\<close>, \<open>show_int\<close>), timestamps, and the rules on them
  that the component theories share.

  Conventions. A Python dict is an association list in insertion order: \<open>map_of\<close> reads it,
  \<open>AList.update\<close> is item assignment (it keeps the position of an existing key, as dict does),
  \<open>AList.delete\<close> is \<^verbatim>\<open>del\<close>. Strings are character lists over the code points
  below 256. Static types replace the \<^verbatim>\<open>isinstance\<close> checks of the source: a value of the
  wrong Python type has no counterpart. Floats that the modelled code only stores and compares are
  rationals, which is exact for finite floats. An error carries the fixed text of its message;
  interpolated values are kept only where they are plain strings.
\<close>

named_theorems preserve_rules

section \<open>Exceptions as values\<close>

datatype py_error =
    ValueError string
  | KeyError string
  | TypeError string
  | AssertionError string
  | IntegrityError string
  | RuntimeError string
  | OverflowError string

type_synonym 'a result = "py_error + 'a"

abbreviation is_ok :: "'a result \<Rightarrow> bool" where
  "is_ok r \<equiv> \<not> isl r"

text \<open>
  A validator is a sequence of \<^verbatim>\<open>if cond: raise error\<close> statements: the first condition
  that holds decides which error is raised.
\<close>

fun raise_first :: "(bool \<times> py_error) list \<Rightarrow> py_error option" where
  "raise_first [] = None"
| "raise_first ((c, e) # cs) = (if c then Some e else raise_first cs)"

definition guarded :: "(bool \<times> py_error) list \<Rightarrow> 'a \<Rightarrow> 'a result" where
  "guarded cs x = (case raise_first cs of Some e \<Rightarrow> Inl e | None \<Rightarrow> Inr x)"

definition all_clear :: "(bool \<times> py_error) list \<Rightarrow> bool" where
  "all_clear cs \<longleftrightarrow> list_all (\<lambda>(c, e). \<not> c) cs"

lemma raise_first_append:
  "raise_first (xs @ ys) = (case raise_first xs of Some e \<Rightarrow> Some e | None \<Rightarrow> raise_first ys)"
  by (induction xs) auto

lemma raise_first_None_iff: "raise_first cs = None \<longleftrightarrow> all_clear cs"
proof (induction cs)
  case Nil
  show ?case by (simp add: all_clear_def)
next
  case (Cons x cs)
  then show ?case by (cases x) (simp add: all_clear_def)
qed

lemma all_clear_simps [simp]:
  "all_clear []"
  "all_clear ((c, e) # cs) \<longleftrightarrow> \<not> c \<and> all_clear cs"
  "all_clear (xs @ ys) \<longleftrightarrow> all_clear xs \<and> all_clear ys"
  by (auto simp: all_clear_def)

lemma all_clear_map [simp]:
  "all_clear (map (\<lambda>x. (p x, e x)) xs) \<longleftrightarrow> list_all (\<lambda>x. \<not> p x) xs"
  by (induction xs) auto

lemma guarded_Inr_iff: "guarded cs x = Inr y \<longleftrightarrow> all_clear cs \<and> y = x"
  by (auto simp: guarded_def raise_first_None_iff [symmetric] split: option.splits)

lemma guarded_ok_iff: "is_ok (guarded cs x) \<longleftrightarrow> all_clear cs"
  by (auto simp: guarded_def raise_first_None_iff [symmetric] split: option.splits)

lemma guarded_clear: "all_clear cs \<Longrightarrow> guarded cs x = Inr x"
  by (simp add: guarded_Inr_iff)

lemma guarded_Inr_eq: "guarded cs x = Inr y \<Longrightarrow> y = x"
  by (simp add: guarded_Inr_iff)

definition bindR :: "'a result \<Rightarrow> ('a \<Rightarrow> 'b result) \<Rightarrow> 'b result" where
  "bindR r f = (case r of Inl e \<Rightarrow> Inl e | Inr x \<Rightarrow> f x)"

lemma bindR_simps [simp]: "bindR (Inl e) f = Inl e" "bindR (Inr x) f = f x"
  by (simp_all add: bindR_def)

lemma bindR_Inr_iff: "bindR r f = Inr y \<longleftrightarrow> (\<exists>x. r = Inr x \<and> f x = Inr y)"
  by (cases r) auto

fun mapR :: "('a \<Rightarrow> 'b result) \<Rightarrow> 'a list \<Rightarrow> 'b list result" where
  "mapR f [] = Inr []"
| "mapR f (x # xs) = bindR (f x) (\<lambda>y. bindR (mapR f xs) (\<lambda>ys. Inr (y # ys)))"

lemma mapR_all_ok: "(\<And>x. x \<in> set xs \<Longrightarrow> f x = Inr (g x)) \<Longrightarrow> mapR f xs = Inr (map g xs)"
  by (induction xs) auto

section \<open>Mutable state with exceptions\<close>

text \<open>
  An operation on an object's state returns or raises, and in both cases leaves a state
  behind: a Python exception does not undo the writes made before it.
\<close>

type_synonym ('s, 'a) prog = "'s \<Rightarrow> 'a result \<times> 's"

definition returnP :: "'a \<Rightarrow> ('s, 'a) prog" where
  "returnP x = (\<lambda>s. (Inr x, s))"

definition raiseP :: "py_error \<Rightarrow> ('s, 'a) prog" where
  "raiseP e = (\<lambda>s. (Inl e, s))"

definition bindP :: "('s, 'a) prog \<Rightarrow> ('a \<Rightarrow> ('s, 'b) prog) \<Rightarrow> ('s, 'b) prog" where
  "bindP m f = (\<lambda>s. case m s of (Inl e, t) \<Rightarrow> (Inl e, t) | (Inr x, t) \<Rightarrow> f x t)"

definition thenP :: "('s, 'a) prog \<Rightarrow> ('s, 'b) prog \<Rightarrow> ('s, 'b) prog" where
  "thenP m k = bindP m (\<lambda>_. k)"

definition liftP :: "'a result \<Rightarrow> ('s, 'a) prog" where
  "liftP r = (\<lambda>s. (r, s))"

definition readP :: "('s \<Rightarrow> 'a result) \<Rightarrow> ('s, 'a) prog" where
  "readP f = (\<lambda>s. (f s, s))"

definition writeP :: "('s \<Rightarrow> 's) \<Rightarrow> ('s, unit) prog" where
  "writeP f = (\<lambda>s. (Inr (), f s))"

fun eachP :: "('a \<Rightarrow> ('s, 'b) prog) \<Rightarrow> 'a list \<Rightarrow> ('s, 'b list) prog" where
  "eachP f [] = returnP []"
| "eachP f (x # xs) = bindP (f x) (\<lambda>y. bindP (eachP f xs) (\<lambda>ys. returnP (y # ys)))"

lemma prog_simps [simp]:
  "returnP x s = (Inr x, s)"
  "raiseP e s = (Inl e, s)"
  "liftP r s = (r, s)"
  "readP f s = (f s, s)"
  "writeP g s = (Inr (), g s)"
  by (simp_all add: returnP_def raiseP_def liftP_def readP_def writeP_def)

lemma bindP_apply: "bindP m f s = (case m s of (Inl e, t) \<Rightarrow> (Inl e, t) | (Inr x, t) \<Rightarrow> f x t)"
  by (simp add: bindP_def)

lemma bindP_return [simp]: "m s = (Inr x, t) \<Longrightarrow> bindP m f s = f x t"
  by (simp add: bindP_def)

lemma bindP_raise [simp]: "m s = (Inl e, t) \<Longrightarrow> bindP m f s = (Inl e, t)"
  by (simp add: bindP_def)

lemma thenP_return [simp]: "m s = (Inr x, t) \<Longrightarrow> thenP m k s = k t"
  by (simp add: thenP_def)

lemma thenP_raise [simp]: "m s = (Inl e, t) \<Longrightarrow> thenP m k s = (Inl e, t)"
  by (simp add: thenP_def)

lemma bindP_Inr_E:
  assumes "bindP m f s = (Inr y, u)"
  obtains x t where "m s = (Inr x, t)" and "f x t = (Inr y, u)"
  using assms by (auto simp: bindP_def split: prod.splits sum.splits)

lemma thenP_Inr_E:
  assumes "thenP m k s = (Inr y, u)"
  obtains x t where "m s = (Inr x, t)" and "k t = (Inr y, u)"
  using assms by (auto simp: thenP_def elim: bindP_Inr_E)

definition preserves :: "('s \<Rightarrow> bool) \<Rightarrow> ('s, 'a) prog \<Rightarrow> bool" where
  "preserves I m \<longleftrightarrow> (\<forall>s. I s \<longrightarrow> I (snd (m s)))"

lemma preservesI: "(\<And>s. I s \<Longrightarrow> I (snd (m s))) \<Longrightarrow> preserves I m"
  by (simp add: preserves_def)

lemma preservesD: "preserves I m \<Longrightarrow> I s \<Longrightarrow> I (snd (m s))"
  by (simp add: preserves_def)

lemma preservesD': "preserves I m \<Longrightarrow> I s \<Longrightarrow> m s = (r, t) \<Longrightarrow> I t"
  using preservesD by fastforce

lemma preserves_pure [preserve_rules]:
  "preserves I (returnP x)" "preserves I (raiseP e)" "preserves I (liftP r)" "preserves I (readP f)"
  by (simp_all add: preserves_def)

lemma preserves_bindP [preserve_rules]:
  "preserves I m \<Longrightarrow> (\<And>x. preserves I (f x)) \<Longrightarrow> preserves I (bindP m f)"
  unfolding preserves_def bindP_def
  by (force split: prod.splits sum.splits)

lemma preserves_thenP [preserve_rules]:
  "preserves I m \<Longrightarrow> preserves I k \<Longrightarrow> preserves I (thenP m k)"
  by (simp add: thenP_def preserves_bindP)

lemma preserves_writeP: "(\<And>s. I s \<Longrightarrow> I (f s)) \<Longrightarrow> preserves I (writeP f)"
  by (simp add: preserves_def)

lemma preserves_eachP [preserve_rules]: "(\<And>x. preserves I (f x)) \<Longrightarrow> preserves I (eachP f xs)"
  by (induction xs) (auto intro: preserve_rules)

lemma preserves_if [preserve_rules]:
  "(c \<Longrightarrow> preserves I m) \<Longrightarrow> (\<not> c \<Longrightarrow> preserves I k) \<Longrightarrow> preserves I (if c then m else k)"
  by simp

lemma eachP_length: "eachP f xs s = (Inr ys, t) \<Longrightarrow> length ys = length xs"
  by (induction xs arbitrary: s ys) (auto elim!: bindP_Inr_E)

text \<open>
  Total correctness of a program on mutable state: from every state with \<open>P\<close> it returns, and the
  result and the state it leaves satisfy \<open>Q\<close>.
\<close>

definition total_prog :: "('s \<Rightarrow> bool) \<Rightarrow> ('s, 'a) prog \<Rightarrow> ('a \<Rightarrow> 's \<Rightarrow> bool) \<Rightarrow> bool" where
  "total_prog P m Q \<longleftrightarrow> (\<forall>s. P s \<longrightarrow> (\<exists>x t. m s = (Inr x, t) \<and> Q x t))"

lemma totalI: "(\<And>s. P s \<Longrightarrow> \<exists>x t. m s = (Inr x, t) \<and> Q x t) \<Longrightarrow> total_prog P m Q"
  by (simp add: total_prog_def)

lemma totalD: "total_prog P m Q \<Longrightarrow> P s \<Longrightarrow> \<exists>x t. m s = (Inr x, t) \<and> Q x t"
  by (simp add: total_prog_def)

lemma total_return: "(\<And>s. P s \<Longrightarrow> Q x s) \<Longrightarrow> total_prog P (returnP x) Q"
  by (simp add: total_prog_def)

lemma total_bindP: "total_prog P m R \<Longrightarrow> (\<And>x. total_prog (R x) (f x) Q) \<Longrightarrow> total_prog P (bindP m f) Q"
  unfolding total_prog_def by (metis bindP_return)

lemma total_thenP: "total_prog P m (\<lambda>_. R) \<Longrightarrow> total_prog R k Q \<Longrightarrow> total_prog P (thenP m k) Q"
  unfolding thenP_def by (rule total_bindP)

lemma total_weaken: "total_prog P' m Q' \<Longrightarrow> (\<And>s. P s \<Longrightarrow> P' s) \<Longrightarrow> (\<And>x s. Q' x s \<Longrightarrow> Q x s) \<Longrightarrow> total_prog P m Q"
  unfolding total_prog_def by meson

lemma total_given: "(b \<Longrightarrow> total_prog P m Q) \<Longrightarrow> total_prog (\<lambda>s. b \<and> P s) m Q"
  by (cases b) (simp_all add: total_prog_def)

text \<open>
  Two programs agree under a relation of their states: from related states they give the same result,
  an exception included, and leave related states.
\<close>

definition agree :: "('s \<Rightarrow> 't \<Rightarrow> bool) \<Rightarrow> ('s, 'a) prog \<Rightarrow> ('t, 'a) prog \<Rightarrow> bool" where
  "agree R m k \<longleftrightarrow> (\<forall>s t. R s t \<longrightarrow> fst (m s) = fst (k t) \<and> R (snd (m s)) (snd (k t)))"

lemma agreeI: "(\<And>s t. R s t \<Longrightarrow> fst (m s) = fst (k t) \<and> R (snd (m s)) (snd (k t))) \<Longrightarrow> agree R m k"
  by (simp add: agree_def)

lemma agreeD: "agree R m k \<Longrightarrow> R s t \<Longrightarrow> fst (m s) = fst (k t) \<and> R (snd (m s)) (snd (k t))"
  by (simp add: agree_def)

lemma agree_pure: "agree R (returnP x) (returnP x)" "agree R (raiseP e) (raiseP e)" "agree R (liftP r) (liftP r)"
  by (simp_all add: agree_def)

lemma agree_readP: "(\<And>s t. R s t \<Longrightarrow> f s = g t) \<Longrightarrow> agree R (readP f) (readP g)"
  by (simp add: agree_def)

lemma agree_bindP:
  assumes "agree R m k" and "\<And>x. agree R (f x) (g x)"
  shows "agree R (bindP m f) (bindP k g)"
proof (rule agreeI)
  fix s t
  assume "R s t"
  from agreeD [OF assms(1) this] agreeD [OF assms(2)]
  show "fst (bindP m f s) = fst (bindP k g t) \<and> R (snd (bindP m f s)) (snd (bindP k g t))"
    by (cases "m s"; cases "k t"; cases "fst (m s)") (auto simp: bindP_def)
qed

lemma agree_thenP: "agree R m k \<Longrightarrow> agree R m' k' \<Longrightarrow> agree R (thenP m m') (thenP k k')"
  by (simp add: thenP_def agree_bindP)

lemma agree_eachP: "(\<And>x. agree R (f x) (g x)) \<Longrightarrow> agree R (eachP f xs) (eachP g xs)"
  by (induction xs) (auto intro!: agree_bindP agree_pure)

lemma agree_if: "agree R m k \<Longrightarrow> agree R m' k' \<Longrightarrow> agree R (if c then m else m') (if c then k else k')"
  by simp

lemmas agree_rules = agree_pure agree_readP agree_bindP agree_thenP agree_eachP agree_if

text \<open>\<^verbatim>\<open>try: m except Exception\<close> as a value: the program returns what \<open>m\<close> returned or raised.\<close>

definition attemptP :: "('s, 'a) prog \<Rightarrow> ('s, 'a result) prog" where
  "attemptP m = (\<lambda>s. case m s of (r, t) \<Rightarrow> (Inr r, t))"

text \<open>
  The integers an SQLite column can hold. The driver refuses to bind another one, before it runs the
  statement.
\<close>

definition int64 :: "int \<Rightarrow> bool" where
  "int64 i \<longleftrightarrow> - (2 ^ 63) \<le> i \<and> i < 2 ^ 63"

abbreviation sqlite_overflow :: py_error where
  "sqlite_overflow \<equiv> OverflowError ''Python int too large to convert to SQLite INTEGER''"

section \<open>Strings\<close>

text \<open>The code points below 256 for which \<^verbatim>\<open>str.isspace\<close> holds.\<close>

definition is_space :: "char \<Rightarrow> bool" where
  "is_space c \<longleftrightarrow> c \<in> set [CHR 0x09, CHR 0x0A, CHR 0x0B, CHR 0x0C, CHR 0x0D, CHR 0x1C, CHR 0x1D,
     CHR 0x1E, CHR 0x1F, CHR 0x20, CHR 0x85, CHR 0xA0]"

definition strip :: "string \<Rightarrow> string" where
  "strip s = rev (dropWhile is_space (rev (dropWhile is_space s)))"

lemma strip_eq_Nil_iff: "strip s = [] \<longleftrightarrow> list_all is_space s"
proof -
  have "strip s = [] \<longleftrightarrow> (\<forall>x \<in> set (dropWhile is_space s). is_space x)"
    by (simp add: strip_def dropWhile_eq_Nil_conv)
  also have "\<dots> \<longleftrightarrow> dropWhile is_space s = []"
    by (metis dropWhile_eq_Nil_conv hd_dropWhile hd_in_set empty_iff list.set(1))
  finally show ?thesis by (simp add: dropWhile_eq_Nil_conv list_all_iff)
qed

lemma strip_Nil [simp]: "strip [] = []"
  by (simp add: strip_def)

lemma strip_non_space: "c \<in> set s \<Longrightarrow> \<not> is_space c \<Longrightarrow> strip s \<noteq> []"
  by (auto simp: strip_eq_Nil_iff list_all_iff)

lemma strip_append_iff: "strip (xs @ ys) = [] \<longleftrightarrow> strip xs = [] \<and> strip ys = []"
  by (simp add: strip_eq_Nil_iff)

lemma strip_nonempty_imp: "strip s \<noteq> [] \<Longrightarrow> s \<noteq> []"
  by auto

text \<open>Decimal rendering, as an f-string renders an int.\<close>

definition digit :: "nat \<Rightarrow> char" where
  "digit n = ''0123456789'' ! n"

fun show_nat :: "nat \<Rightarrow> string" where
  "show_nat n = (if n < 10 then [digit n] else show_nat (n div 10) @ [digit (n mod 10)])"

declare show_nat.simps [simp del]

definition show_int :: "int \<Rightarrow> string" where
  "show_int i = (if i < 0 then CHR ''-'' # show_nat (nat (- i)) else show_nat (nat i))"

definition digit_val :: "char \<Rightarrow> nat" where
  "digit_val c = of_char c - 48"

definition read_nat :: "string \<Rightarrow> nat" where
  "read_nat s = foldl (\<lambda>a c. 10 * a + digit_val c) 0 s"

lemma less_10_cases:
  assumes "(n::nat) < 10"
  obtains "n = 0" | "n = 1" | "n = 2" | "n = 3" | "n = 4" | "n = 5" | "n = 6" | "n = 7" | "n = 8" | "n = 9"
  using assms that by (auto simp: eval_nat_numeral less_Suc_eq)

lemma digit_val_digit: "n < 10 \<Longrightarrow> digit_val (digit n) = n"
  by (elim less_10_cases) (simp_all add: digit_def digit_val_def)

lemma digit_not_special: "n < 10 \<Longrightarrow> \<not> is_space (digit n) \<and> digit n \<noteq> CHR ''-'' \<and> digit n \<noteq> CHR ''v''"
  by (elim less_10_cases) (simp_all add: digit_def is_space_def)

lemma read_show_nat: "read_nat (show_nat n) = n"
proof (induction n rule: show_nat.induct)
  case (1 n)
  show ?case
  proof (cases "n < 10")
    case True
    then show ?thesis by (simp add: show_nat.simps [of n] read_nat_def digit_val_digit)
  next
    case False
    with 1 have "read_nat (show_nat (n div 10)) = n div 10" by simp
    with False show ?thesis
      by (simp add: show_nat.simps [of n] read_nat_def digit_val_digit)
  qed
qed

lemma show_nat_inject [simp]: "show_nat m = show_nat n \<longleftrightarrow> m = n"
  by (metis read_show_nat)

lemma show_nat_chars: "c \<in> set (show_nat n) \<Longrightarrow> \<not> is_space c \<and> c \<noteq> CHR ''-'' \<and> c \<noteq> CHR ''v''"
proof (induction n rule: show_nat.induct)
  case (1 n)
  then show ?case
    by (cases "n < 10") (auto simp: show_nat.simps [of n] digit_not_special)
qed

lemma show_nat_nonempty [simp]: "show_nat n \<noteq> []"
  by (subst show_nat.simps) simp

lemma show_int_inject [simp]: "show_int a = show_int b \<longleftrightarrow> a = b"
proof -
  have neg: "show_nat n \<noteq> CHR ''-'' # t" for n t
    using show_nat_chars [of "CHR ''-''" n] by auto
  then show ?thesis by (auto simp: show_int_def neg neg [symmetric])
qed

lemma show_int_nonempty [simp]: "show_int i \<noteq> []"
  by (simp add: show_int_def)

lemma strip_show_int [simp]: "strip (show_int i) \<noteq> []"
proof -
  obtain c where c: "c \<in> set (show_nat (nat \<bar>i\<bar>))" by (meson show_nat_nonempty list.set_sel(1))
  then have "\<not> is_space c" by (simp add: show_nat_chars)
  moreover have "c \<in> set (show_int i)" using c by (cases "i < 0") (simp_all add: show_int_def)
  ultimately show ?thesis by (simp add: strip_non_space)
qed

lemma show_int_no_v: "CHR ''v'' \<notin> set (show_int i)"
  using show_nat_chars by (auto simp: show_int_def)

text \<open>An identifier that ends in \<open>v<number>\<close> determines its stem and its number.\<close>

lemma versioned_id_inject:
  assumes "a @ CHR ''v'' # show_int i = b @ CHR ''v'' # show_int j"
  shows "a = b \<and> i = j"
proof -
  have split: "takeWhile (\<lambda>c. c \<noteq> CHR ''v'') (rev (x @ CHR ''v'' # show_int k)) = rev (show_int k)"
    for x k
  proof -
    have "takeWhile (\<lambda>c. c \<noteq> CHR ''v'') (rev (show_int k) @ CHR ''v'' # rev x) =
        rev (show_int k) @ takeWhile (\<lambda>c. c \<noteq> CHR ''v'') (CHR ''v'' # rev x)"
      using show_int_no_v [of k] by (intro takeWhile_append2) auto
    then show ?thesis by simp
  qed
  from assms split [of a i] split [of b j] have "show_int i = show_int j" by simp
  with assms show ?thesis by simp
qed

section \<open>Enumerations\<close>

text \<open>
  A \<^verbatim>\<open>StrEnum\<close> called on a string: the member with that value, or \<^verbatim>\<open>ValueError\<close>.
\<close>

definition enum_of :: "('a \<Rightarrow> string) \<Rightarrow> 'a list \<Rightarrow> string \<Rightarrow> string \<Rightarrow> 'a result" where
  "enum_of val members name text = (case find (\<lambda>m. val m = text) members of
     Some m \<Rightarrow> Inr m | None \<Rightarrow> Inl (ValueError (''not a valid '' @ name)))"

lemma enum_of_val: "inj_on val (set ms) \<Longrightarrow> m \<in> set ms \<Longrightarrow> enum_of val ms nm (val m) = Inr m"
proof -
  assume inj: "inj_on val (set ms)" and m: "m \<in> set ms"
  have "find (\<lambda>x. val x = val m) ms = Some m"
    using inj m by (induction ms) (auto simp: inj_on_def)
  then show ?thesis by (simp add: enum_of_def)
qed

lemma enum_of_Inr: "enum_of val ms nm text = Inr m \<Longrightarrow> val m = text \<and> m \<in> set ms"
  by (auto simp: enum_of_def find_Some_iff split: option.splits)

section \<open>Timestamps\<close>

text \<open>
  A \<^verbatim>\<open>datetime\<close>: naive, or aware with the instant it denotes (microseconds since the epoch)
  and its UTC offset. Text columns that hold \<^verbatim>\<open>isoformat()\<close> hold the timestamp itself.
  The code compares timestamps only after the contract check that both are aware UTC.
\<close>

datatype datetime = Naive int | Aware int int

fun dt_instant :: "datetime \<Rightarrow> int" where
  "dt_instant (Naive t) = t"
| "dt_instant (Aware t off) = t"

fun is_aware_utc :: "datetime \<Rightarrow> bool" where
  "is_aware_utc (Naive t) = False"
| "is_aware_utc (Aware t off) = (off = 0)"

definition dt_le :: "datetime \<Rightarrow> datetime \<Rightarrow> bool" where
  "dt_le a b \<longleftrightarrow> dt_instant a \<le> dt_instant b"

definition dt_less :: "datetime \<Rightarrow> datetime \<Rightarrow> bool" where
  "dt_less a b \<longleftrightarrow> dt_instant a < dt_instant b"

fun dt_plus :: "datetime \<Rightarrow> int \<Rightarrow> datetime" where
  "dt_plus (Naive t) d = Naive (t + d)"
| "dt_plus (Aware t off) d = Aware (t + d) off"

abbreviation utc :: "int \<Rightarrow> datetime" where
  "utc t \<equiv> Aware t 0"

lemma is_aware_utc_iff: "is_aware_utc d \<longleftrightarrow> d = utc (dt_instant d)"
  by (cases d) auto

lemma dt_instant_inject: "is_aware_utc a \<Longrightarrow> is_aware_utc b \<Longrightarrow> dt_instant a = dt_instant b \<longleftrightarrow> a = b"
  by (metis is_aware_utc_iff)

lemma dt_plus_simps [simp]:
  "dt_instant (dt_plus d k) = dt_instant d + k"
  "is_aware_utc (dt_plus d k) = is_aware_utc d"
  by (cases d; simp)+

text \<open>
  Where the code compares timestamps it has not checked, a naive and an aware one cannot be compared.
  Adding a duration (in microseconds) leaves the range of \<^verbatim>\<open>datetime\<close>, years 1 to 9999, or not.
\<close>

fun comparable :: "datetime \<Rightarrow> datetime \<Rightarrow> bool" where
  "comparable (Naive a) (Naive b) = True"
| "comparable (Aware a i) (Aware b j) = True"
| "comparable _ _ = False"

definition compare_dt :: "(datetime \<Rightarrow> datetime \<Rightarrow> bool) \<Rightarrow> datetime \<Rightarrow> datetime \<Rightarrow> bool result" where
  "compare_dt test a b = (if comparable a b then Inr (test a b)
     else Inl (TypeError ''can't compare offset-naive and offset-aware datetimes''))"

definition datetime_min :: int where "datetime_min = -62135596800000000"

definition datetime_max :: int where "datetime_max = 253402300799999999"

definition dt_add :: "datetime \<Rightarrow> int \<Rightarrow> datetime result" where
  "dt_add d k = (if datetime_min \<le> dt_instant d + k \<and> dt_instant d + k \<le> datetime_max
     then Inr (dt_plus d k) else Inl (OverflowError ''date value out of range''))"

lemma compare_dt_aware [simp]:
  "is_aware_utc a \<Longrightarrow> is_aware_utc b \<Longrightarrow> compare_dt test a b = Inr (test a b)"
  by (cases a; cases b) (simp_all add: compare_dt_def)

lemma dt_add_Inr: "dt_add d k = Inr e \<Longrightarrow> e = dt_plus d k"
  by (simp add: dt_add_def split: if_splits)

section \<open>Dictionaries and tables\<close>

lemma map_of_update [simp]: "map_of (AList.update k v xs) j = (if j = k then Some v else map_of xs j)"
  by (simp add: update_conv')

lemma map_of_delete [simp]: "map_of (AList.delete k xs) j = (if j = k then None else map_of xs j)"
  by (simp add: delete_conv')

lemma find_map_update:
  assumes "\<And>r. key (f r) = key r"
  shows "find (\<lambda>r. key r = k) (map (\<lambda>r. if key r = k then f r else r) rows) =
    map_option f (find (\<lambda>r. key r = k) rows)"
  using assms by (induction rows) auto

lemma find_map_other:
  assumes "\<And>r. key (f r) = key r" and "k \<noteq> j"
  shows "find (\<lambda>r. key r = j) (map (\<lambda>r. if key r = k then f r else r) rows) =
    find (\<lambda>r. key r = j) rows"
  using assms by (induction rows) auto

lemma find_append: "find p (xs @ ys) = (case find p xs of None \<Rightarrow> find p ys | Some x \<Rightarrow> Some x)"
  by (induction xs) auto

lemma find_SomeD: "find P xs = Some x \<Longrightarrow> x \<in> set xs \<and> P x"
  by (induction xs) (auto split: if_splits)

lemma find_key_Some: "find (\<lambda>r. key r = k) rows = Some r \<Longrightarrow> r \<in> set rows \<and> key r = k"
  by (auto simp: find_Some_iff)

lemma map_key_update: "(\<And>r. key (f r) = key r) \<Longrightarrow>
  map key (map (\<lambda>r. if key r = k then f r else r) rows) = map key rows"
  by (induction rows) auto

lemma find_distinct_key:
  "distinct (map key rows) \<Longrightarrow> r \<in> set rows \<Longrightarrow> find (\<lambda>x. key x = key r) rows = Some r"
  by (induction rows) (auto simp: image_iff)

lemma sort_key_sorted: "sorted (map f xs) \<Longrightarrow> sort_key f xs = xs"
  by (induction xs) (auto simp: insort_is_Cons)

end
