(* ===== verification/MR_Contracts.thy ===== *)
theory MR_Contracts
  imports MR_Prelude
begin

text \<open>
  The identity contracts of \<^verbatim>\<open>contracts/scope.py\<close> and \<^verbatim>\<open>contracts/common.py\<close>: scopes with
  their fail-closed field rules, authority and ownership declarations, synchronization identities,
  and the validators every frozen dataclass calls from \<^verbatim>\<open>__post_init__\<close>. A dataclass is a record
  plus its list of checks; \<open>X_valid\<close> says that the checks pass and \<open>mk_X\<close> is the constructor that
  raises otherwise. The last section is the scope part of every SQLite row.
\<close>

section \<open>Shared validators\<close>

definition non_empty :: "string \<Rightarrow> bool" where
  "non_empty value \<longleftrightarrow> strip value \<noteq> []"

definition require_non_empty :: "string \<Rightarrow> string \<Rightarrow> bool \<times> py_error" where
  "require_non_empty value field_name =
     (\<not> non_empty value, ValueError (field_name @ '' must be non-empty''))"

definition require_aware_utc :: "datetime \<Rightarrow> string \<Rightarrow> bool \<times> py_error" where
  "require_aware_utc value field_name =
     (\<not> is_aware_utc value, ValueError (field_name @ '' must be aware UTC''))"

lemma require_checks [simp]:
  "all_clear (require_non_empty v f # cs) \<longleftrightarrow> non_empty v \<and> all_clear cs"
  "all_clear (require_aware_utc t f # cs) \<longleftrightarrow> is_aware_utc t \<and> all_clear cs"
  by (simp_all add: require_non_empty_def require_aware_utc_def)

lemma require_map_checks [simp]:
  "all_clear (map (\<lambda>r. require_non_empty r f) rs) \<longleftrightarrow> list_all non_empty rs"
  "all_clear (map (\<lambda>t. require_aware_utc t f) ts) \<longleftrightarrow> list_all is_aware_utc ts"
  by (simp_all add: require_non_empty_def require_aware_utc_def)

lemma non_empty_not_Nil: "non_empty s \<Longrightarrow> s \<noteq> []"
  by (auto simp: non_empty_def)

lemma non_empty_append: "non_empty (xs @ ys) \<longleftrightarrow> non_empty xs \<or> non_empty ys"
  by (simp add: non_empty_def strip_append_iff)

lemma non_empty_Cons: "non_empty (c # s) \<longleftrightarrow> \<not> is_space c \<or> non_empty s"
  by (simp add: non_empty_def strip_eq_Nil_iff)

lemma non_empty_Nil [simp]: "\<not> non_empty []"
  by (simp add: non_empty_def)

lemmas non_empty_eval = non_empty_append non_empty_Cons is_space_def

section \<open>Scopes\<close>

datatype scope_domain = USER | AGENT | RELATIONSHIP | INTERACTION | WORLD

fun scope_domain_value :: "scope_domain \<Rightarrow> string" where
  "scope_domain_value USER = ''user''"
| "scope_domain_value AGENT = ''agent''"
| "scope_domain_value RELATIONSHIP = ''relationship''"
| "scope_domain_value INTERACTION = ''interaction''"
| "scope_domain_value WORLD = ''world''"

record scope =
  sc_domain :: scope_domain
  sc_user_id :: "string option"
  sc_agent_id :: "string option"
  sc_persona_id :: "string option"
  sc_relationship_id :: "string option"
  sc_world_id :: "string option"
  sc_interaction_id :: "string option"

definition scope_identity :: "scope \<Rightarrow> (string \<times> string option) list" where
  "scope_identity s =
     [(''user_id'', sc_user_id s), (''agent_id'', sc_agent_id s), (''persona_id'', sc_persona_id s),
      (''relationship_id'', sc_relationship_id s), (''world_id'', sc_world_id s),
      (''interaction_id'', sc_interaction_id s)]"

fun required_scope_fields :: "scope_domain \<Rightarrow> string list" where
  "required_scope_fields USER = [''user_id'']"
| "required_scope_fields AGENT = [''agent_id'', ''persona_id'']"
| "required_scope_fields RELATIONSHIP = [''relationship_id'', ''persona_id'']"
| "required_scope_fields INTERACTION = [''interaction_id'']"
| "required_scope_fields WORLD = [''world_id'']"

definition is_non_empty :: "string option \<Rightarrow> bool" where
  "is_non_empty v = (case v of None \<Rightarrow> False | Some s \<Rightarrow> strip s \<noteq> [])"

definition scope_checks :: "scope \<Rightarrow> (bool \<times> py_error) list" where
  "scope_checks s = map (\<lambda>(field_name, value).
     if field_name \<in> set (required_scope_fields (sc_domain s))
     then (\<not> is_non_empty value,
           ValueError (scope_domain_value (sc_domain s) @ '' scope requires non-empty '' @ field_name))
     else (value \<noteq> None,
           ValueError (scope_domain_value (sc_domain s) @ '' scope forbids '' @ field_name)))
     (scope_identity s)"

definition scope_valid :: "scope \<Rightarrow> bool" where
  "scope_valid s \<longleftrightarrow> all_clear (scope_checks s)"

definition mk_scope :: "scope \<Rightarrow> scope result" where
  "mk_scope s = guarded (scope_checks s) s"

definition user_scope :: "string \<Rightarrow> scope" where
  "user_scope u = \<lparr>sc_domain = USER, sc_user_id = Some u, sc_agent_id = None, sc_persona_id = None,
     sc_relationship_id = None, sc_world_id = None, sc_interaction_id = None\<rparr>"

lemma mk_scope_Inr_iff: "mk_scope s = Inr t \<longleftrightarrow> scope_valid s \<and> t = s"
  by (simp add: mk_scope_def guarded_Inr_iff scope_valid_def)

lemma scope_valid_cases:
  "scope_valid s \<longleftrightarrow>
    (case sc_domain s of
      USER \<Rightarrow> is_non_empty (sc_user_id s) \<and> sc_agent_id s = None \<and> sc_persona_id s = None \<and>
        sc_relationship_id s = None \<and> sc_world_id s = None \<and> sc_interaction_id s = None
    | AGENT \<Rightarrow> sc_user_id s = None \<and> is_non_empty (sc_agent_id s) \<and> is_non_empty (sc_persona_id s) \<and>
        sc_relationship_id s = None \<and> sc_world_id s = None \<and> sc_interaction_id s = None
    | RELATIONSHIP \<Rightarrow> sc_user_id s = None \<and> sc_agent_id s = None \<and> is_non_empty (sc_persona_id s) \<and>
        is_non_empty (sc_relationship_id s) \<and> sc_world_id s = None \<and> sc_interaction_id s = None
    | INTERACTION \<Rightarrow> sc_user_id s = None \<and> sc_agent_id s = None \<and> sc_persona_id s = None \<and>
        sc_relationship_id s = None \<and> sc_world_id s = None \<and> is_non_empty (sc_interaction_id s)
    | WORLD \<Rightarrow> sc_user_id s = None \<and> sc_agent_id s = None \<and> sc_persona_id s = None \<and>
        sc_relationship_id s = None \<and> is_non_empty (sc_world_id s) \<and> sc_interaction_id s = None)"
  by (cases "sc_domain s") (simp_all add: scope_valid_def scope_checks_def scope_identity_def)

lemma user_scope_valid [simp]: "scope_valid (user_scope u) \<longleftrightarrow> strip u \<noteq> []"
  by (simp add: scope_valid_cases user_scope_def is_non_empty_def)

section \<open>Authority and ownership\<close>

datatype authority_level = NONE | ASSERTED | OBSERVED | VERIFIED | SYSTEM

record authority =
  au_scope :: scope
  au_level :: authority_level
  au_source_id :: "string option"

definition authority_checks :: "authority \<Rightarrow> (bool \<times> py_error) list" where
  "authority_checks a =
     (if au_level a = NONE
      then [(au_source_id a \<noteq> None, ValueError ''NONE forbids source_id'')]
      else [(\<not> is_non_empty (au_source_id a), ValueError ''level requires non-empty source_id'')])"

datatype write_policy = READ_ONLY | SINGLE_WRITER | AUTHORIZED_WRITER

record ownership =
  ow_scope :: scope
  ow_write_policy :: write_policy
  ow_owner_runtime_id :: "string option"
  ow_owner_persona_id :: "string option"

definition ownership_checks :: "ownership \<Rightarrow> (bool \<times> py_error) list" where
  "ownership_checks w =
     [(if sc_domain (ow_scope w) \<in> {AGENT, RELATIONSHIP}
       then (ow_owner_persona_id w \<noteq> sc_persona_id (ow_scope w),
             ValueError ''owner_persona_id must match scope.persona_id'')
       else (ow_owner_persona_id w \<noteq> None, ValueError ''scope forbids owner_persona_id'')),
      (ow_write_policy w \<noteq> READ_ONLY \<and> \<not> is_non_empty (ow_owner_runtime_id w),
       ValueError ''write policy requires non-empty owner_runtime_id''),
      (ow_owner_runtime_id w \<noteq> None \<and> \<not> is_non_empty (ow_owner_runtime_id w),
       ValueError ''non-empty owner_runtime_id required'')]"

section \<open>Synchronization identity\<close>

record sync_fields =
  sf_scope :: scope
  sf_origin_runtime_id :: string
  sf_object_id :: string
  sf_version :: int
  sf_idempotency_key :: string

definition mk_sync :: "scope \<Rightarrow> string \<Rightarrow> string \<Rightarrow> int \<Rightarrow> string \<Rightarrow> sync_fields" where
  "mk_sync sc origin obj version key = \<lparr>sf_scope = sc, sf_origin_runtime_id = origin,
     sf_object_id = obj, sf_version = version, sf_idempotency_key = key\<rparr>"

lemma mk_sync_simps [simp]:
  "sf_scope (mk_sync sc og ob v k) = sc"
  "sf_origin_runtime_id (mk_sync sc og ob v k) = og"
  "sf_object_id (mk_sync sc og ob v k) = ob"
  "sf_version (mk_sync sc og ob v k) = v"
  "sf_idempotency_key (mk_sync sc og ob v k) = k"
  by (simp_all add: mk_sync_def)

lemma mk_sync_collapse: "mk_sync (sf_scope s) (sf_origin_runtime_id s) (sf_object_id s) (sf_version s)
    (sf_idempotency_key s) = s"
  by (simp add: mk_sync_def)

definition validate_sync_fields ::
  "sync_fields \<Rightarrow> scope \<Rightarrow> string \<Rightarrow> string \<Rightarrow> int option \<Rightarrow> (bool \<times> py_error) list" where
  "validate_sync_fields sync sc origin_runtime_id object_id expected_version =
     [(sf_scope sync \<noteq> sc, ValueError ''sync.scope must match scope''),
      (sf_origin_runtime_id sync \<noteq> origin_runtime_id,
       ValueError ''sync.origin_runtime_id must match origin_runtime_id''),
      (sf_object_id sync \<noteq> object_id, ValueError ''sync.object_id must match object id''),
      require_non_empty (sf_origin_runtime_id sync) ''sync.origin_runtime_id'',
      require_non_empty (sf_object_id sync) ''sync.object_id'',
      require_non_empty (sf_idempotency_key sync) ''sync.idempotency_key'',
      (sf_version sync < 1, ValueError ''sync.version must be at least 1''),
      (case expected_version of None \<Rightarrow> False | Some v \<Rightarrow> sf_version sync \<noteq> v,
       ValueError ''sync.version must match version'')]"

lemma validate_sync_clear [simp]:
  "all_clear (validate_sync_fields sync sc origin obj ev) \<longleftrightarrow>
     sf_scope sync = sc \<and> sf_origin_runtime_id sync = origin \<and> sf_object_id sync = obj \<and>
     non_empty origin \<and> non_empty obj \<and> non_empty (sf_idempotency_key sync) \<and>
     1 \<le> sf_version sync \<and> (ev = None \<or> ev = Some (sf_version sync))"
  by (auto simp: validate_sync_fields_def split: option.splits)

lemma sync_eq_mk:
  "sf_scope s = sc \<Longrightarrow> sf_origin_runtime_id s = og \<Longrightarrow> sf_object_id s = ob \<Longrightarrow>
    mk_sync sc og ob (sf_version s) (sf_idempotency_key s) = s"
  by (simp add: mk_sync_def)

section \<open>The scope columns of a row\<close>

type_synonym scope_columns = "string list"

definition text_or_empty :: "string option \<Rightarrow> string" where
  "text_or_empty v = (case v of None \<Rightarrow> '''' | Some s \<Rightarrow> s)"

definition scope_values :: "scope \<Rightarrow> scope_columns" where
  "scope_values s =
     [scope_domain_value (sc_domain s), text_or_empty (sc_user_id s), text_or_empty (sc_agent_id s),
      text_or_empty (sc_persona_id s), text_or_empty (sc_relationship_id s),
      text_or_empty (sc_world_id s), text_or_empty (sc_interaction_id s)]"

definition scope_domain_of :: "string \<Rightarrow> scope_domain result" where
  "scope_domain_of text =
     enum_of scope_domain_value [USER, AGENT, RELATIONSHIP, INTERACTION, WORLD] ''ScopeDomain'' text"

definition column_value :: "string \<Rightarrow> string option" where
  "column_value v = (if v = '''' then None else Some v)"

fun scope_from_columns :: "scope_columns \<Rightarrow> scope result" where
  "scope_from_columns [domain, user, agent, persona, relationship, world, interaction] =
     bindR (scope_domain_of domain) (\<lambda>d. mk_scope
       \<lparr>sc_domain = d, sc_user_id = column_value user, sc_agent_id = column_value agent,
        sc_persona_id = column_value persona, sc_relationship_id = column_value relationship,
        sc_world_id = column_value world, sc_interaction_id = column_value interaction\<rparr>)"
| "scope_from_columns _ = Inl (KeyError ''scope column'')"

lemma scope_domain_of_value [simp]: "scope_domain_of (scope_domain_value d) = Inr d"
  by (cases d) (simp_all add: scope_domain_of_def enum_of_def)

lemma column_value_text: "v \<noteq> Some '''' \<Longrightarrow> column_value (text_or_empty v) = v"
  by (auto simp: column_value_def text_or_empty_def split: option.splits)

lemma is_non_empty_not_empty: "is_non_empty v \<Longrightarrow> v \<noteq> Some '''' \<and> v \<noteq> None"
  by (auto simp: is_non_empty_def split: option.splits)

lemma scope_collapse:
  "\<lparr>sc_domain = sc_domain s, sc_user_id = sc_user_id s, sc_agent_id = sc_agent_id s,
     sc_persona_id = sc_persona_id s, sc_relationship_id = sc_relationship_id s,
     sc_world_id = sc_world_id s, sc_interaction_id = sc_interaction_id s\<rparr> = s"
  by simp

lemma scope_valid_no_empty:
  "scope_valid s \<Longrightarrow> sc_user_id s \<noteq> Some '''' \<and> sc_agent_id s \<noteq> Some '''' \<and>
     sc_persona_id s \<noteq> Some '''' \<and> sc_relationship_id s \<noteq> Some '''' \<and>
     sc_world_id s \<noteq> Some '''' \<and> sc_interaction_id s \<noteq> Some ''''"
  by (cases "sc_domain s") (auto simp: scope_valid_cases dest: is_non_empty_not_empty)

lemma scope_round_trip: "scope_valid s \<Longrightarrow> scope_from_columns (scope_values s) = Inr s"
  using scope_valid_no_empty [of s]
  by (simp add: scope_values_def column_value_text mk_scope_Inr_iff scope_collapse)

lemma scope_values_inject: "scope_valid s \<Longrightarrow> scope_valid t \<Longrightarrow> scope_values s = scope_values t \<longleftrightarrow> s = t"
  by (metis scope_round_trip sum.inject(2))

lemma scope_from_columns_valid: "scope_from_columns cs = Inr s \<Longrightarrow> scope_valid s \<and> scope_values s = cs"
proof (induction cs rule: scope_from_columns.induct)
  case (1 domain user agent persona relationship world interaction)
  then obtain d where d: "scope_domain_of domain = Inr d" by (auto simp: bindR_Inr_iff)
  then have "scope_domain_value d = domain"
    by (auto simp: scope_domain_of_def dest: enum_of_Inr)
  with 1 d show ?case
    by (auto simp: mk_scope_Inr_iff scope_values_def column_value_def text_or_empty_def)
qed auto

end
