(* ===== verification/Delivery_State.thy ===== *)
theory Delivery_State
  imports MR_Contracts
begin

text \<open>
  The delivery lifecycle state machine of \<^verbatim>\<open>delivery/state.py\<close> and the retry policy of
  \<^verbatim>\<open>delivery/retry.py\<close>: the transition table with its guard \<open>validate_transition\<close>, the
  terminal states, and the decision \<open>compute_retry_decision\<close> makes from a state, the attempts
  already spent and the budget. The table is also given as a step relation, so that what a
  request can still become is a statement about its reachable states.
\<close>

section \<open>Lifecycle states and transitions\<close>

datatype lifecycle_state = PENDING | IN_FLIGHT | ACCEPTED | REJECTED | FAILED_RETRYABLE | UNKNOWN

fun lifecycle_value :: "lifecycle_state \<Rightarrow> string" where
  "lifecycle_value PENDING = ''pending''"
| "lifecycle_value IN_FLIGHT = ''in_flight''"
| "lifecycle_value ACCEPTED = ''accepted''"
| "lifecycle_value REJECTED = ''rejected''"
| "lifecycle_value FAILED_RETRYABLE = ''failed_retryable''"
| "lifecycle_value UNKNOWN = ''unknown''"

definition lifecycle_of :: "string \<Rightarrow> lifecycle_state result" where
  "lifecycle_of text = enum_of lifecycle_value
     [PENDING, IN_FLIGHT, ACCEPTED, REJECTED, FAILED_RETRYABLE, UNKNOWN] ''DeliveryLifecycleState'' text"

lemma lifecycle_of_value [simp]: "lifecycle_of (lifecycle_value s) = Inr s"
  by (cases s) (simp_all add: lifecycle_of_def enum_of_def)

lemma lifecycle_value_inject [simp]: "lifecycle_value s = lifecycle_value t \<longleftrightarrow> s = t"
  by (metis lifecycle_of_value sum.inject(2))

declare lifecycle_value.simps [simp del]

fun allowed_transitions :: "lifecycle_state \<Rightarrow> lifecycle_state list" where
  "allowed_transitions PENDING = [IN_FLIGHT, FAILED_RETRYABLE, UNKNOWN]"
| "allowed_transitions IN_FLIGHT = [ACCEPTED, REJECTED, FAILED_RETRYABLE, UNKNOWN]"
| "allowed_transitions ACCEPTED = []"
| "allowed_transitions REJECTED = []"
| "allowed_transitions FAILED_RETRYABLE = [PENDING, REJECTED]"
| "allowed_transitions UNKNOWN = [ACCEPTED, REJECTED, FAILED_RETRYABLE, PENDING]"

definition validate_transition :: "lifecycle_state \<Rightarrow> lifecycle_state \<Rightarrow> unit result" where
  "validate_transition from_state to_state =
     (if from_state = to_state then Inr ()
      else if to_state \<notin> set (allowed_transitions from_state)
      then Inl (ValueError ''illegal delivery lifecycle transition'')
      else Inr ())"

definition is_terminal :: "lifecycle_state \<Rightarrow> bool" where
  "is_terminal state \<longleftrightarrow> state \<in> set [ACCEPTED, REJECTED]"

text \<open>One legal move of a persisted request, and what a request can become.\<close>

inductive lifecycle_step :: "lifecycle_state \<Rightarrow> lifecycle_state \<Rightarrow> bool" where
  move: "validate_transition s t = Inr () \<Longrightarrow> lifecycle_step s t"

inductive lifecycle_reach :: "lifecycle_state \<Rightarrow> lifecycle_state \<Rightarrow> bool" for s where
  here: "lifecycle_reach s s"
| more: "lifecycle_reach s t \<Longrightarrow> lifecycle_step t u \<Longrightarrow> lifecycle_reach s u"

inductive_simps lifecycle_step_iff: "lifecycle_step s t"

lemma validate_transition_iff:
  "validate_transition s t = Inr () \<longleftrightarrow> s = t \<or> t \<in> set (allowed_transitions s)"
  by (simp add: validate_transition_def)

lemma terminal_no_moves: "is_terminal s \<longleftrightarrow> allowed_transitions s = []"
  by (cases s) (simp_all add: is_terminal_def)

lemma terminal_step: "is_terminal s \<Longrightarrow> lifecycle_step s t \<Longrightarrow> t = s"
  by (simp add: lifecycle_step_iff validate_transition_iff terminal_no_moves)

lemma lifecycle_reach_trans: "lifecycle_reach t u \<Longrightarrow> lifecycle_reach s t \<Longrightarrow> lifecycle_reach s u"
  by (induction rule: lifecycle_reach.induct) (auto intro: lifecycle_reach.more)

lemma reach_step: "t \<in> set (allowed_transitions s) \<Longrightarrow> lifecycle_reach s t"
  by (meson lifecycle_reach.here lifecycle_reach.more move validate_transition_iff)

lemmas reach_steps = reach_step [of IN_FLIGHT PENDING] reach_step [of ACCEPTED IN_FLIGHT]
  reach_step [of REJECTED IN_FLIGHT] reach_step [of FAILED_RETRYABLE IN_FLIGHT]
  reach_step [of UNKNOWN IN_FLIGHT] reach_step [of PENDING FAILED_RETRYABLE]
  reach_step [of PENDING UNKNOWN]

lemma pending_reaches_all: "lifecycle_reach PENDING t"
proof -
  have "lifecycle_reach IN_FLIGHT t" if "t \<noteq> PENDING"
    using that by (cases t) (auto simp: reach_steps intro: lifecycle_reach.here)
  then show ?thesis
    using reach_steps by (cases "t = PENDING") (auto intro: lifecycle_reach.here lifecycle_reach_trans)
qed

lemma non_terminal_reaches_pending: "\<not> is_terminal s \<Longrightarrow> lifecycle_reach s PENDING"
proof (cases s)
  case IN_FLIGHT
  have "lifecycle_reach IN_FLIGHT UNKNOWN" "lifecycle_reach UNKNOWN PENDING"
    by (simp_all add: reach_steps)
  with IN_FLIGHT show ?thesis by (blast intro: lifecycle_reach_trans)
qed (auto simp: reach_steps is_terminal_def intro: lifecycle_reach.here)

text \<open>
  The lifecycle table makes ACCEPTED and REJECTED, and only them, absorbing: a sequence of
  transitions that \<open>validate_transition\<close> accepts leads from a terminal state nowhere but to itself,
  and from every other state it can still lead to every state of the machine.
\<close>

theorem terminal_states_absorbing:
  "lifecycle_reach s t \<longleftrightarrow> s = t \<or> is_terminal s = False"
proof (cases "is_terminal s")
  case True
  have "lifecycle_reach s t \<Longrightarrow> t = s"
    by (induction rule: lifecycle_reach.induct) (use True terminal_step in auto)
  with True show ?thesis by (auto intro: lifecycle_reach.here)
next
  case False
  then show ?thesis
    by (blast intro: lifecycle_reach_trans pending_reaches_all non_terminal_reaches_pending)
qed

section \<open>Retry policy\<close>

datatype retry_kind = CAN_RETRY | DO_NOT_RETRY | RECONCILE_FIRST

record retry_decision =
  rd_kind :: retry_kind
  rd_reason_code :: string

definition decide_retry :: "retry_kind \<Rightarrow> string \<Rightarrow> retry_decision" where
  "decide_retry k r = \<lparr>rd_kind = k, rd_reason_code = r\<rparr>"

definition compute_retry_decision :: "lifecycle_state \<Rightarrow> int \<Rightarrow> int \<Rightarrow> retry_decision result" where
  "compute_retry_decision state attempt_count retry_budget =
     (if attempt_count < 0 then Inl (ValueError ''attempt_count must be a non-negative integer'')
      else if retry_budget < 0 then Inl (ValueError ''retry_budget must be a non-negative integer'')
      else if state = ACCEPTED then Inr (decide_retry DO_NOT_RETRY ''accepted_terminal'')
      else if state = REJECTED then Inr (decide_retry DO_NOT_RETRY ''rejected_terminal'')
      else if state = PENDING then
        (if attempt_count \<ge> retry_budget then Inr (decide_retry DO_NOT_RETRY ''budget_exhausted'')
         else Inr (decide_retry CAN_RETRY ''fresh_request''))
      else if state = FAILED_RETRYABLE then
        (if attempt_count \<ge> retry_budget then Inr (decide_retry DO_NOT_RETRY ''budget_exhausted'')
         else Inr (decide_retry CAN_RETRY ''transient_failure''))
      else if state = IN_FLIGHT then Inr (decide_retry RECONCILE_FIRST ''in_flight_owner_is_live'')
      else Inr (decide_retry RECONCILE_FIRST ''outcome_unknown''))"

lemma decide_retry_simps [simp]:
  "rd_kind (decide_retry k r) = k" "rd_reason_code (decide_retry k r) = r"
  by (simp_all add: decide_retry_def)

lemma retry_total: "0 \<le> n \<Longrightarrow> 0 \<le> b \<Longrightarrow> \<exists>d. compute_retry_decision s n b = Inr d"
  by (cases s) (simp_all add: compute_retry_decision_def)

lemma retry_kind_cases:
  assumes "compute_retry_decision s n b = Inr d"
  shows "rd_kind d = RECONCILE_FIRST \<longleftrightarrow> s = IN_FLIGHT \<or> s = UNKNOWN"
    and "rd_kind d = CAN_RETRY \<longleftrightarrow> (s = PENDING \<or> s = FAILED_RETRYABLE) \<and> n < b"
    and "rd_kind d = DO_NOT_RETRY \<longleftrightarrow> is_terminal s \<or> ((s = PENDING \<or> s = FAILED_RETRYABLE) \<and> b \<le> n)"
  using assms
  by (cases s; auto simp: compute_retry_decision_def is_terminal_def split: if_splits)+

text \<open>
  The retry policy never retries blindly. A decision exists for every state with non-negative
  counts, and it is CAN_RETRY exactly for PENDING and FAILED_RETRYABLE requests with budget left,
  RECONCILE_FIRST exactly for requests whose outcome is open (IN_FLIGHT, UNKNOWN), whatever the
  budget, and DO_NOT_RETRY in all other cases.
\<close>

theorem retry_policy_sound:
  assumes "0 \<le> attempts" and "0 \<le> budget"
  obtains d where "compute_retry_decision state attempts budget = Inr d"
    and "rd_kind d = CAN_RETRY \<longleftrightarrow> (state = PENDING \<or> state = FAILED_RETRYABLE) \<and> attempts < budget"
    and "rd_kind d = RECONCILE_FIRST \<longleftrightarrow> state = IN_FLIGHT \<or> state = UNKNOWN"
    and "rd_kind d = DO_NOT_RETRY \<longleftrightarrow>
      is_terminal state \<or> ((state = PENDING \<or> state = FAILED_RETRYABLE) \<and> budget \<le> attempts)"
  using retry_total [OF assms, of state] retry_kind_cases [of state attempts budget] by blast

theorem retry_policy_sound_witness:
  "\<exists>d. compute_retry_decision UNKNOWN 0 3 = Inr d \<and> rd_kind d = RECONCILE_FIRST"
  by (rule retry_policy_sound [of 0 3 UNKNOWN]) auto

end
