(* ===== verification/Delivery_Contracts.thy ===== *)
theory Delivery_Contracts
  imports Delivery_State "HOL-Library.Product_Lexorder"
begin

text \<open>
  The typed delivery contracts: \<open>DeliveryStatus\<close> and \<open>DeliveryReceipt\<close> of
  \<^verbatim>\<open>contracts/checkpoint.py\<close>, and from \<^verbatim>\<open>delivery/__init__.py\<close> the outbound request with its
  Surface handoff provenance, the in-memory request and receipt stores, the deterministic
  in-memory carrier, and the identifiers derived from a turn. SHA-256 (\<^verbatim>\<open>hashlib\<close>) is the
  parameter \<open>digest\<close> of the definitions that compare envelope digests.
\<close>

type_synonym bytes = "char list"
type_synonym hash = "bytes \<Rightarrow> string"

section \<open>Receipts\<close>

datatype delivery_status = UNSENT | SENT | STATUS_UNKNOWN

fun delivery_status_value :: "delivery_status \<Rightarrow> string" where
  "delivery_status_value UNSENT = ''unsent''"
| "delivery_status_value SENT = ''sent''"
| "delivery_status_value STATUS_UNKNOWN = ''unknown''"

definition delivery_status_of :: "string \<Rightarrow> delivery_status result" where
  "delivery_status_of text =
     enum_of delivery_status_value [UNSENT, SENT, STATUS_UNKNOWN] ''DeliveryStatus'' text"

lemma delivery_status_of_value [simp]: "delivery_status_of (delivery_status_value s) = Inr s"
  by (cases s) (simp_all add: delivery_status_of_def enum_of_def)

record delivery_receipt =
  dr_receipt_id :: string
  dr_scope :: scope
  dr_origin_runtime_id :: string
  dr_message_id :: string
  dr_delivery_status :: delivery_status
  dr_delivered_at :: "datetime option"
  dr_sync :: sync_fields

definition delivery_receipt_checks :: "delivery_receipt \<Rightarrow> (bool \<times> py_error) list" where
  "delivery_receipt_checks r =
     [require_non_empty (dr_receipt_id r) ''receipt_id'',
      require_non_empty (dr_origin_runtime_id r) ''origin_runtime_id'',
      require_non_empty (dr_message_id r) ''message_id''] @
     (case dr_delivered_at r of None \<Rightarrow> [] | Some t \<Rightarrow> [require_aware_utc t ''delivered_at'']) @
     validate_sync_fields (dr_sync r) (dr_scope r) (dr_origin_runtime_id r) (dr_receipt_id r) None"

definition delivery_receipt_valid :: "delivery_receipt \<Rightarrow> bool" where
  "delivery_receipt_valid r \<longleftrightarrow> scope_valid (dr_scope r) \<and> all_clear (delivery_receipt_checks r)"

definition mk_delivery_receipt :: "delivery_receipt \<Rightarrow> delivery_receipt result" where
  "mk_delivery_receipt r = guarded (delivery_receipt_checks r) r"

lemma delivery_receipt_valid_iff:
  "delivery_receipt_valid r \<longleftrightarrow>
    scope_valid (dr_scope r) \<and> non_empty (dr_receipt_id r) \<and> non_empty (dr_origin_runtime_id r) \<and>
    non_empty (dr_message_id r) \<and> (\<forall>t. dr_delivered_at r = Some t \<longrightarrow> is_aware_utc t) \<and>
    sf_scope (dr_sync r) = dr_scope r \<and> sf_origin_runtime_id (dr_sync r) = dr_origin_runtime_id r \<and>
    sf_object_id (dr_sync r) = dr_receipt_id r \<and> non_empty (sf_idempotency_key (dr_sync r)) \<and>
    1 \<le> sf_version (dr_sync r)"
  by (auto simp: delivery_receipt_valid_def delivery_receipt_checks_def split: option.splits)

section \<open>Requests\<close>

record surface_handoff =
  sh_context_id :: string
  sh_intent_id :: string
  sh_action_type :: string
  sh_policy_id :: string
  sh_policy_constraints :: "string list"
  sh_controls_id :: string
  sh_recipe_ref :: string
  sh_expression_map_ref :: string
  sh_qualitative_guidance :: "(string \<times> string) list"
  sh_intent_surface_use_ref :: string
  sh_render_id :: string
  sh_logical_attempt_id :: string
  sh_envelope_digest :: string

definition surface_handoff_checks :: "surface_handoff \<Rightarrow> (bool \<times> py_error) list" where
  "surface_handoff_checks h =
     [require_non_empty (sh_context_id h) ''context_id'',
      require_non_empty (sh_intent_id h) ''intent_id'',
      require_non_empty (sh_action_type h) ''action_type'',
      require_non_empty (sh_policy_id h) ''policy_id'',
      require_non_empty (sh_controls_id h) ''controls_id'',
      require_non_empty (sh_recipe_ref h) ''recipe_ref'',
      require_non_empty (sh_expression_map_ref h) ''expression_map_ref'',
      require_non_empty (sh_intent_surface_use_ref h) ''intent_surface_use_ref'',
      require_non_empty (sh_render_id h) ''render_id'',
      require_non_empty (sh_logical_attempt_id h) ''logical_attempt_id'',
      require_non_empty (sh_envelope_digest h) ''envelope_digest'',
      (list_ex (\<lambda>v. v = '''') (sh_policy_constraints h) \<or>
       list_ex (\<lambda>(k, v). k = '''' \<or> v = '''') (sh_qualitative_guidance h),
       ValueError ''Surface handoff evidence must use immutable typed tuples''),
      (sort (sh_qualitative_guidance h) \<noteq> sh_qualitative_guidance h,
       ValueError ''qualitative guidance must be canonically sorted''),
      (set (map fst (sh_qualitative_guidance h)) \<noteq> {''directness'', ''warmth'', ''restraint''},
       ValueError ''Surface handoff requires exact expression guidance''),
      (list_ex (\<lambda>(k, v). v \<notin> {''low'', ''moderate'', ''high''}) (sh_qualitative_guidance h),
       ValueError ''Surface guidance must be qualitative bands''),
      (\<not> distinct (sh_policy_constraints h), ValueError ''Policy constraints must be unique'')]"

definition surface_handoff_valid :: "surface_handoff \<Rightarrow> bool" where
  "surface_handoff_valid h \<longleftrightarrow> all_clear (surface_handoff_checks h)"

definition mk_surface_handoff :: "surface_handoff \<Rightarrow> surface_handoff result" where
  "mk_surface_handoff h = guarded (surface_handoff_checks h) h"

record delivery_request =
  rq_request_id :: string
  rq_message_id :: string
  rq_scope :: scope
  rq_origin_runtime_id :: string
  rq_channel :: string
  rq_target :: string
  rq_action_type :: string
  rq_payload_bytes :: bytes
  rq_created_at :: datetime
  rq_sync :: sync_fields
  rq_surface_handoff :: "surface_handoff option"

definition delivery_request_checks :: "hash \<Rightarrow> delivery_request \<Rightarrow> (bool \<times> py_error) list" where
  "delivery_request_checks digest q =
     [require_non_empty (rq_request_id q) ''request_id'',
      require_non_empty (rq_message_id q) ''message_id'',
      require_non_empty (rq_origin_runtime_id q) ''origin_runtime_id'',
      require_non_empty (rq_channel q) ''channel'',
      require_non_empty (rq_target q) ''target'',
      (rq_payload_bytes q = [], ValueError ''payload_bytes must not be empty''),
      require_aware_utc (rq_created_at q) ''created_at''] @
     validate_sync_fields (rq_sync q) (rq_scope q) (rq_origin_runtime_id q) (rq_request_id q) None @
     [(case rq_surface_handoff q of None \<Rightarrow> False | Some h \<Rightarrow>
         sh_action_type h \<noteq> rq_action_type q \<or> sh_envelope_digest h \<noteq> digest (rq_payload_bytes q),
       ValueError ''Surface handoff must match DeliveryRequest action'')]"

definition delivery_request_valid :: "hash \<Rightarrow> delivery_request \<Rightarrow> bool" where
  "delivery_request_valid digest q \<longleftrightarrow> scope_valid (rq_scope q) \<and>
     (case rq_surface_handoff q of None \<Rightarrow> True | Some h \<Rightarrow> surface_handoff_valid h) \<and>
     all_clear (delivery_request_checks digest q)"

definition mk_delivery_request :: "hash \<Rightarrow> delivery_request \<Rightarrow> delivery_request result" where
  "mk_delivery_request digest q = guarded (delivery_request_checks digest q) q"

lemma delivery_request_valid_iff:
  "delivery_request_valid digest q \<longleftrightarrow>
    scope_valid (rq_scope q) \<and> non_empty (rq_request_id q) \<and> non_empty (rq_message_id q) \<and>
    non_empty (rq_origin_runtime_id q) \<and> non_empty (rq_channel q) \<and> non_empty (rq_target q) \<and>
    rq_payload_bytes q \<noteq> [] \<and> is_aware_utc (rq_created_at q) \<and>
    sf_scope (rq_sync q) = rq_scope q \<and> sf_origin_runtime_id (rq_sync q) = rq_origin_runtime_id q \<and>
    sf_object_id (rq_sync q) = rq_request_id q \<and> non_empty (sf_idempotency_key (rq_sync q)) \<and>
    1 \<le> sf_version (rq_sync q) \<and>
    (\<forall>h. rq_surface_handoff q = Some h \<longrightarrow> surface_handoff_valid h \<and>
       sh_action_type h = rq_action_type q \<and> sh_envelope_digest h = digest (rq_payload_bytes q))"
  by (auto simp: delivery_request_valid_def delivery_request_checks_def split: option.splits)

lemma mk_delivery_request_valid: "delivery_request_valid digest q \<Longrightarrow> mk_delivery_request digest q = Inr q"
  by (simp add: mk_delivery_request_def delivery_request_valid_def guarded_clear)

section \<open>The in-memory stores\<close>

type_synonym request_store = "(string \<times> delivery_request) list"

definition request_store_record :: "delivery_request \<Rightarrow> (request_store, unit) prog" where
  "request_store_record q = (\<lambda>s. case map_of s (rq_request_id q) of
      Some existing \<Rightarrow>
        if existing \<noteq> q then (Inl (ValueError ''durable request id collision''), s)
        else (Inr (), AList.update (rq_request_id q) q s)
    | None \<Rightarrow> (Inr (), AList.update (rq_request_id q) q s))"

definition request_store_get :: "string \<Rightarrow> request_store \<Rightarrow> delivery_request option" where
  "request_store_get i s = map_of s i"

definition request_store_all :: "request_store \<Rightarrow> delivery_request list" where
  "request_store_all s = map snd s"

record receipt_store =
  rs_records :: "(string \<times> delivery_receipt) list"
  rs_by_message :: "(string \<times> delivery_receipt list) list"

definition receipt_store_record :: "delivery_receipt \<Rightarrow> (receipt_store, unit) prog" where
  "receipt_store_record r = (\<lambda>s.
     if (case map_of (rs_records s) (dr_receipt_id r) of None \<Rightarrow> False | Some e \<Rightarrow> e \<noteq> r)
     then (Inl (ValueError ''durable receipt id collision''), s)
     else (Inr (), s\<lparr>rs_records := AList.update (dr_receipt_id r) r (rs_records s),
       rs_by_message := AList.update (dr_message_id r)
         ((case map_of (rs_by_message s) (dr_message_id r) of None \<Rightarrow> [] | Some rs \<Rightarrow> rs) @ [r])
         (rs_by_message s)\<rparr>))"

definition receipt_store_get :: "string \<Rightarrow> receipt_store \<Rightarrow> delivery_receipt option" where
  "receipt_store_get i s = map_of (rs_records s) i"

definition receipt_store_by_message_id :: "string \<Rightarrow> receipt_store \<Rightarrow> delivery_receipt list" where
  "receipt_store_by_message_id m s =
     (case map_of (rs_by_message s) m of None \<Rightarrow> [] | Some rs \<Rightarrow> rs)"

section \<open>The deterministic in-memory carrier\<close>

record carrier =
  ca_seen_request_ids :: "string list"
  ca_seen_message_ids :: "(string \<times> string) list"
  ca_sent :: nat
  ca_fail_after :: "nat option"

definition new_carrier :: "nat option \<Rightarrow> carrier" where
  "new_carrier fail_after = \<lparr>ca_seen_request_ids = [], ca_seen_message_ids = [], ca_sent = 0,
     ca_fail_after = fail_after\<rparr>"

definition build_receipt :: "delivery_request \<Rightarrow> delivery_status \<Rightarrow> delivery_receipt result" where
  "build_receipt q status = mk_delivery_receipt
     \<lparr>dr_receipt_id = ''recpt-'' @ rq_request_id q, dr_scope = rq_scope q,
      dr_origin_runtime_id = rq_origin_runtime_id q, dr_message_id = rq_message_id q,
      dr_delivery_status = status,
      dr_delivered_at = (if status = SENT then Some (rq_created_at q) else None),
      dr_sync = mk_sync (rq_scope q) (rq_origin_runtime_id q) (''recpt-'' @ rq_request_id q) 1
        (''idem-recpt-'' @ rq_request_id q)\<rparr>"

definition carrier_deliver :: "delivery_request \<Rightarrow> (carrier, delivery_receipt) prog" where
  "carrier_deliver q = (\<lambda>c.
     if rq_request_id q \<in> set (ca_seen_request_ids c) then (build_receipt q SENT, c)
     else
       let seen = c\<lparr>ca_seen_request_ids := rq_request_id q # ca_seen_request_ids c,
             ca_seen_message_ids := (case map_of (ca_seen_message_ids c) (rq_message_id q) of
                 None \<Rightarrow> AList.update (rq_message_id q) (rq_request_id q) (ca_seen_message_ids c)
               | Some _ \<Rightarrow> ca_seen_message_ids c)\<rparr>
       in if (case ca_fail_after c of None \<Rightarrow> False | Some n \<Rightarrow> n \<le> ca_sent c)
          then (build_receipt q STATUS_UNKNOWN, seen)
          else (build_receipt q SENT, seen\<lparr>ca_sent := ca_sent c + 1\<rparr>))"

section \<open>Derived identifiers\<close>

definition make_request_id :: "scope \<Rightarrow> string \<Rightarrow> string \<Rightarrow> string result" where
  "make_request_id sc action_intent_id idempotency_key =
     (if idempotency_key = '''' then Inl (ValueError ''idempotency_key must be non-empty'')
      else Inr (''deliv-'' @ scope_domain_value (sc_domain sc) @ ''-'' @ action_intent_id @ ''-'' @
        idempotency_key))"

definition make_message_id :: "string \<Rightarrow> string" where
  "make_message_id request_id = ''msg-'' @ request_id"

lemma build_receipt_ok:
  assumes "delivery_request_valid digest q"
  obtains r where "build_receipt q st = Inr r" "delivery_receipt_valid r" "dr_delivery_status r = st"
    "dr_receipt_id r = ''recpt-'' @ rq_request_id q" "dr_message_id r = rq_message_id q"
    "sf_version (dr_sync r) = 1"
proof -
  let ?r = "\<lparr>dr_receipt_id = ''recpt-'' @ rq_request_id q, dr_scope = rq_scope q,
      dr_origin_runtime_id = rq_origin_runtime_id q, dr_message_id = rq_message_id q,
      dr_delivery_status = st,
      dr_delivered_at = (if st = SENT then Some (rq_created_at q) else None),
      dr_sync = mk_sync (rq_scope q) (rq_origin_runtime_id q) (''recpt-'' @ rq_request_id q) 1
        (''idem-recpt-'' @ rq_request_id q)\<rparr>"
  have v: "delivery_receipt_valid ?r"
    using assms by (auto simp: delivery_receipt_valid_iff delivery_request_valid_iff non_empty_eval)
  then have "build_receipt q st = Inr ?r"
    by (simp add: build_receipt_def mk_delivery_receipt_def delivery_receipt_valid_def guarded_clear)
  from that [OF this v] show thesis by simp
qed

text \<open>What the carrier counts: the requests it handed over, never more than \<open>fail_after\<close>.\<close>

definition carrier_inv :: "carrier \<Rightarrow> bool" where
  "carrier_inv c \<longleftrightarrow> distinct (ca_seen_request_ids c) \<and> ca_sent c \<le> length (ca_seen_request_ids c) \<and>
     (\<forall>n. ca_fail_after c = Some n \<longrightarrow> ca_sent c \<le> n)"

lemma carrier_inv_new [simp]: "carrier_inv (new_carrier f)"
  by (simp add: carrier_inv_def new_carrier_def)

lemma carrier_deliver_inv: "preserves carrier_inv (carrier_deliver q)"
  by (rule preservesI)
    (auto simp: carrier_deliver_def carrier_inv_def Let_def split: option.splits if_splits)

end
