(* ===== verification/Json_Value.thy ===== *)
theory Json_Value
  imports MR_Prelude
begin

text \<open>
  JSON columns. The stores write \<^verbatim>\<open>json.dumps(x)\<close> and read \<^verbatim>\<open>json.loads(text)\<close>; a JSON text
  column is modelled by the value its text denotes, and a text that is not JSON by \<open>None\<close>. An object is a dict, an association list with distinct keys. A string that is \<^verbatim>\<open>isoformat()\<close> of a
  timestamp is \<open>JTime\<close>.
\<close>

datatype json =
    JNull
  | JBool bool
  | JInt int
  | JNum rat
  | JStr string
  | JTime datetime
  | JList "json list"
  | JObj "(string \<times> json) list"

type_synonym json_text = "json option"

definition json_loads :: "json_text \<Rightarrow> json result" where
  "json_loads t = (case t of None \<Rightarrow> Inl (ValueError ''JSONDecodeError'') | Some j \<Rightarrow> Inr j)"

lemma json_loads_Some [simp]: "json_loads (Some j) = Inr j"
  by (simp add: json_loads_def)

fun as_string :: "json \<Rightarrow> string option" where
  "as_string (JStr s) = Some s"
| "as_string _ = None"

fun as_list :: "json \<Rightarrow> json list option" where
  "as_list (JList xs) = Some xs"
| "as_list _ = None"

text \<open>\<^verbatim>\<open>data[key]\<close> on a parsed object.\<close>

definition obj_get :: "(string \<times> json) list \<Rightarrow> string \<Rightarrow> json result" where
  "obj_get obj key = (case map_of obj key of None \<Rightarrow> Inl (KeyError key) | Some v \<Rightarrow> Inr v)"

text \<open>A list all of whose entries are strings.\<close>

definition all_strings :: "json list \<Rightarrow> string list option" where
  "all_strings js = (if list_all (\<lambda>j. as_string j \<noteq> None) js
     then Some (map (\<lambda>j. case as_string j of Some s \<Rightarrow> s | None \<Rightarrow> '''') js) else None)"

lemma all_strings_JStr [simp]: "all_strings (map JStr ss) = Some ss"
  by (simp add: all_strings_def list_all_iff comp_def)

text \<open>\<^verbatim>\<open>tuple(x)\<close> of a parsed value: the entries of a list, the characters of a string, the keys of an object.\<close>

fun py_iter :: "json \<Rightarrow> json list option" where
  "py_iter (JList xs) = Some xs"
| "py_iter (JStr s) = Some (map (\<lambda>c. JStr [c]) s)"
| "py_iter (JObj obj) = Some (map (\<lambda>(k, v). JStr k) obj)"
| "py_iter _ = None"

definition text_field :: "(string \<times> json) list \<Rightarrow> string \<Rightarrow> string option" where
  "text_field obj key = Option.bind (map_of obj key) as_string"

definition texts_field :: "(string \<times> json) list \<Rightarrow> string \<Rightarrow> string list option" where
  "texts_field obj key = Option.bind (map_of obj key) (\<lambda>j. Option.bind (py_iter j) all_strings)"

fun all_some :: "'a option list \<Rightarrow> 'a list option" where
  "all_some [] = Some []"
| "all_some (x # xs) = Option.bind x (\<lambda>y. Option.bind (all_some xs) (\<lambda>ys. Some (y # ys)))"

lemma all_some_map_Some [simp]: "all_some (map (\<lambda>x. Some (f x)) xs) = Some (map f xs)"
  by (induction xs) auto

end
