(* ===== verification/Delivery_Rows.thy ===== *)
theory Delivery_Rows
  imports Delivery_Contracts Json_Value
begin

text \<open>
  The row formats of \<^verbatim>\<open>delivery/persistence.py\<close>: how a request, a receipt and an attempt are
  written to their tables and read back, and the checks a reopened file's rows must pass. A column
  that holds \<^verbatim>\<open>json.dumps\<close> text is a \<open>json_text\<close>; a nullable column is an option. The reader's
  \<^verbatim>\<open>str()\<close> and \<^verbatim>\<open>int()\<close> coercions are modelled on the JSON types the reopen check lets through
  and on the scalar types next to them.
\<close>

section \<open>Columns\<close>

record request_row =
  rw_request_id :: string
  rw_message_id :: string
  rw_scope :: scope_columns
  rw_origin_runtime_id :: string
  rw_channel :: string
  rw_target :: string
  rw_action_type :: string
  rw_payload_bytes :: bytes
  rw_surface_handoff :: "json_text option"
  rw_created_at :: datetime
  rw_sync :: json_text
  rw_lifecycle_state :: string
  rw_attempt_count :: int
  rw_last_attempt_at :: "datetime option"
  rw_last_reconcile_at :: "datetime option"
  rw_last_provider_receipt_ref :: "string option"
  rw_sync_version :: int

record receipt_row =
  rc_receipt_id :: string
  rc_request_id :: string
  rc_message_id :: string
  rc_scope :: scope_columns
  rc_origin_runtime_id :: string
  rc_delivery_status :: string
  rc_delivered_at :: "datetime option"
  rc_provider_receipt_ref :: "string option"
  rc_provider_message_ref :: "string option"
  rc_sync :: json_text
  rc_attempt :: int
  rc_sync_version :: int

record attempt_row =
  at_attempt_id :: string
  at_request_id :: string
  at_attempt :: int
  at_started_at :: datetime
  at_ended_at :: "datetime option"
  at_outcome :: string
  at_provider_receipt_ref :: "string option"
  at_reason_codes :: json_text

section \<open>The sync column\<close>

definition sync_keys :: "string list" where
  "sync_keys = [''scope'', ''origin_runtime_id'', ''object_id'', ''version'', ''idempotency_key'']"

definition sync_to_json :: "string \<Rightarrow> string \<Rightarrow> string \<Rightarrow> int \<Rightarrow> string \<Rightarrow> json_text" where
  "sync_to_json domain origin object_id version key = Some (JObj
     [(''idempotency_key'', JStr key), (''object_id'', JStr object_id),
      (''origin_runtime_id'', JStr origin), (''scope'', JStr domain), (''version'', JInt version)])"

fun py_str :: "json \<Rightarrow> string result" where
  "py_str (JStr s) = Inr s"
| "py_str (JInt i) = Inr (show_int i)"
| "py_str (JBool b) = Inr (if b then ''True'' else ''False'')"
| "py_str JNull = Inr ''None''"
| "py_str _ = Inl (TypeError ''not a scalar'')"

fun py_int :: "json \<Rightarrow> int result" where
  "py_int (JInt i) = Inr i"
| "py_int (JBool b) = Inr (if b then 1 else 0)"
| "py_int _ = Inl (ValueError ''not an integer'')"

definition sync_from_json :: "scope \<Rightarrow> json_text \<Rightarrow> sync_fields result" where
  "sync_from_json sc raw = bindR (json_loads raw) (\<lambda>j. case j of
      JObj obj \<Rightarrow>
        if \<exists>k \<in> set sync_keys. map_of obj k = None
        then Inl (ValueError ''sync row missing required keys'')
        else
          bindR (bindR (obj_get obj ''origin_runtime_id'') py_str) (\<lambda>origin.
          bindR (bindR (obj_get obj ''object_id'') py_str) (\<lambda>object_id.
          bindR (bindR (obj_get obj ''version'') py_int) (\<lambda>version.
          bindR (bindR (obj_get obj ''idempotency_key'') py_str) (\<lambda>key.
          Inr (mk_sync sc origin object_id version key)))))
    | _ \<Rightarrow> Inl (ValueError ''sync row is not a JSON object''))"

definition non_empty_text :: "json option \<Rightarrow> bool" where
  "non_empty_text v = (case v of Some (JStr s) \<Rightarrow> s \<noteq> [] | _ \<Rightarrow> False)"

definition is_json_int :: "json option \<Rightarrow> bool" where
  "is_json_int v = (case v of Some (JInt i) \<Rightarrow> True | _ \<Rightarrow> False)"

definition validate_sync_payload :: "json_text \<Rightarrow> unit result" where
  "validate_sync_payload raw = (case raw of
      None \<Rightarrow> Inl (ValueError ''row has malformed sync JSON'')
    | Some (JObj obj) \<Rightarrow> guarded
        [(\<exists>k \<in> set sync_keys. map_of obj k = None, ValueError ''sync missing required keys''),
         (\<not> non_empty_text (map_of obj ''scope''), ValueError ''sync.scope must be a non-empty string''),
         (\<not> is_json_int (map_of obj ''version''), ValueError ''sync.version must be an integer''),
         (\<not> non_empty_text (map_of obj ''origin_runtime_id''),
          ValueError ''sync.origin_runtime_id must be a non-empty string''),
         (\<not> non_empty_text (map_of obj ''object_id''),
          ValueError ''sync.object_id must be a non-empty string''),
         (\<not> non_empty_text (map_of obj ''idempotency_key''),
          ValueError ''sync.idempotency_key must be a non-empty string'')] ()
    | Some _ \<Rightarrow> Inl (ValueError ''row sync must be a JSON object''))"

lemma sync_json_round_trip:
  "sync_from_json sc (sync_to_json d origin obj v k) = Inr (mk_sync sc origin obj v k)"
  by (simp add: sync_from_json_def sync_to_json_def sync_keys_def obj_get_def)

lemma sync_json_payload_ok:
  "d \<noteq> [] \<Longrightarrow> origin \<noteq> [] \<Longrightarrow> obj \<noteq> [] \<Longrightarrow> k \<noteq> [] \<Longrightarrow>
    validate_sync_payload (sync_to_json d origin obj v k) = Inr ()"
  by (simp add: validate_sync_payload_def sync_to_json_def sync_keys_def guarded_def
      non_empty_text_def is_json_int_def)

section \<open>The Surface handoff column\<close>

definition surface_handoff_to_json :: "surface_handoff option \<Rightarrow> json_text option" where
  "surface_handoff_to_json v = (case v of None \<Rightarrow> None | Some h \<Rightarrow> Some (Some (JObj
     [(''action_type'', JStr (sh_action_type h)),
      (''context_id'', JStr (sh_context_id h)),
      (''controls_id'', JStr (sh_controls_id h)),
      (''envelope_digest'', JStr (sh_envelope_digest h)),
      (''expression_map_ref'', JStr (sh_expression_map_ref h)),
      (''intent_id'', JStr (sh_intent_id h)),
      (''intent_surface_use_ref'', JStr (sh_intent_surface_use_ref h)),
      (''logical_attempt_id'', JStr (sh_logical_attempt_id h)),
      (''policy_constraints'', JList (map JStr (sh_policy_constraints h))),
      (''policy_id'', JStr (sh_policy_id h)),
      (''qualitative_guidance'',
        JList (map (\<lambda>(k, v). JList [JStr k, JStr v]) (sh_qualitative_guidance h))),
      (''recipe_ref'', JStr (sh_recipe_ref h)),
      (''render_id'', JStr (sh_render_id h))])))"

fun pair_of :: "string list option \<Rightarrow> (string \<times> string) option" where
  "pair_of (Some [k, v]) = Some (k, v)"
| "pair_of _ = None"

definition pairs_field :: "(string \<times> json) list \<Rightarrow> string \<Rightarrow> (string \<times> string) list option" where
  "pairs_field obj key = Option.bind (map_of obj key) (\<lambda>j. Option.bind (py_iter j)
     (\<lambda>ps. all_some (map (\<lambda>p. pair_of (Option.bind (py_iter p) all_strings)) ps)))"

definition handoff_of_obj :: "(string \<times> json) list \<Rightarrow> surface_handoff option" where
  "handoff_of_obj obj =
     Option.bind (text_field obj ''context_id'') (\<lambda>context_id.
     Option.bind (text_field obj ''intent_id'') (\<lambda>intent_id.
     Option.bind (text_field obj ''action_type'') (\<lambda>action_type.
     Option.bind (text_field obj ''policy_id'') (\<lambda>policy_id.
     Option.bind (texts_field obj ''policy_constraints'') (\<lambda>policy_constraints.
     Option.bind (text_field obj ''controls_id'') (\<lambda>controls_id.
     Option.bind (text_field obj ''recipe_ref'') (\<lambda>recipe_ref.
     Option.bind (text_field obj ''expression_map_ref'') (\<lambda>expression_map_ref.
     Option.bind (pairs_field obj ''qualitative_guidance'') (\<lambda>qualitative_guidance.
     Option.bind (text_field obj ''intent_surface_use_ref'') (\<lambda>intent_surface_use_ref.
     Option.bind (text_field obj ''render_id'') (\<lambda>render_id.
     Option.bind (text_field obj ''logical_attempt_id'') (\<lambda>logical_attempt_id.
     Option.bind (text_field obj ''envelope_digest'') (\<lambda>envelope_digest.
       Some \<lparr>sh_context_id = context_id, sh_intent_id = intent_id, sh_action_type = action_type,
         sh_policy_id = policy_id, sh_policy_constraints = policy_constraints,
         sh_controls_id = controls_id, sh_recipe_ref = recipe_ref,
         sh_expression_map_ref = expression_map_ref, sh_qualitative_guidance = qualitative_guidance,
         sh_intent_surface_use_ref = intent_surface_use_ref, sh_render_id = render_id,
         sh_logical_attempt_id = logical_attempt_id, sh_envelope_digest = envelope_digest\<rparr>)))))))))))))"

text \<open>Every failure on the way, a missing key, a wrong type or a failed check, becomes one ValueError.\<close>

definition surface_handoff_from_json :: "json_text option \<Rightarrow> surface_handoff option result" where
  "surface_handoff_from_json raw = (case raw of
      None \<Rightarrow> Inr None
    | Some (Some (JObj obj)) \<Rightarrow>
        (case handoff_of_obj obj of
           None \<Rightarrow> Inl (ValueError ''invalid durable Surface handoff provenance'')
         | Some h \<Rightarrow> (case mk_surface_handoff h of
             Inl e \<Rightarrow> Inl (ValueError ''invalid durable Surface handoff provenance'')
           | Inr h \<Rightarrow> Inr (Some h)))
    | Some _ \<Rightarrow> Inl (ValueError ''invalid durable Surface handoff provenance''))"

lemma handoff_pairs [simp]:
  "all_some (map (\<lambda>p. pair_of (Option.bind (py_iter p) all_strings))
     (map (\<lambda>(k, v). JList [JStr k, JStr v]) g)) = Some g"
proof -
  have "pair_of (Option.bind (py_iter (JList [JStr k, JStr v])) all_strings) = Some (k, v)" for k v
    by (simp add: all_strings_def)
  then show ?thesis by (induction g) (auto simp del: py_iter.simps)
qed

lemma handoff_collapse:
  "\<lparr>sh_context_id = sh_context_id h, sh_intent_id = sh_intent_id h,
     sh_action_type = sh_action_type h, sh_policy_id = sh_policy_id h,
     sh_policy_constraints = sh_policy_constraints h, sh_controls_id = sh_controls_id h,
     sh_recipe_ref = sh_recipe_ref h, sh_expression_map_ref = sh_expression_map_ref h,
     sh_qualitative_guidance = sh_qualitative_guidance h,
     sh_intent_surface_use_ref = sh_intent_surface_use_ref h, sh_render_id = sh_render_id h,
     sh_logical_attempt_id = sh_logical_attempt_id h, sh_envelope_digest = sh_envelope_digest h\<rparr> = h"
  by simp

lemma handoff_round_trip:
  "(\<forall>h. v = Some h \<longrightarrow> surface_handoff_valid h) \<Longrightarrow>
    surface_handoff_from_json (surface_handoff_to_json v) = Inr v"
proof (cases v)
  case (Some h)
  assume "\<forall>h. v = Some h \<longrightarrow> surface_handoff_valid h"
  with Some have "mk_surface_handoff h = Inr h"
    by (simp add: mk_surface_handoff_def surface_handoff_valid_def guarded_clear)
  with Some show ?thesis
    by (simp add: surface_handoff_from_json_def surface_handoff_to_json_def handoff_of_obj_def
        text_field_def texts_field_def pairs_field_def handoff_collapse del: map_map list.map)
qed (simp add: surface_handoff_from_json_def surface_handoff_to_json_def)

section \<open>Requests\<close>

definition request_to_row :: "delivery_request \<Rightarrow> lifecycle_state \<Rightarrow> request_row" where
  "request_to_row q state = \<lparr>
     rw_request_id = rq_request_id q,
     rw_message_id = rq_message_id q,
     rw_scope = scope_values (rq_scope q),
     rw_origin_runtime_id = rq_origin_runtime_id q,
     rw_channel = rq_channel q,
     rw_target = rq_target q,
     rw_action_type = rq_action_type q,
     rw_payload_bytes = rq_payload_bytes q,
     rw_surface_handoff = surface_handoff_to_json (rq_surface_handoff q),
     rw_created_at = rq_created_at q,
     rw_sync = sync_to_json (scope_domain_value (sc_domain (rq_scope q))) (rq_origin_runtime_id q)
       (rq_request_id q) (sf_version (rq_sync q)) (sf_idempotency_key (rq_sync q)),
     rw_lifecycle_state = lifecycle_value state,
     rw_attempt_count = 0,
     rw_last_attempt_at = None,
     rw_last_reconcile_at = None,
     rw_last_provider_receipt_ref = None,
     rw_sync_version = sf_version (rq_sync q)\<rparr>"

definition parse_required_dt :: "datetime \<Rightarrow> datetime result" where
  "parse_required_dt t = guarded [require_aware_utc t ''stored timestamp''] t"

definition request_from_row :: "hash \<Rightarrow> request_row \<Rightarrow> delivery_request result" where
  "request_from_row digest r =
     bindR (scope_from_columns (rw_scope r)) (\<lambda>sc.
     bindR (sync_from_json sc (rw_sync r)) (\<lambda>sync.
     bindR (parse_required_dt (rw_created_at r)) (\<lambda>created_at.
     bindR (surface_handoff_from_json (rw_surface_handoff r)) (\<lambda>handoff.
     mk_delivery_request digest \<lparr>
       rq_request_id = rw_request_id r, rq_message_id = rw_message_id r, rq_scope = sc,
       rq_origin_runtime_id = rw_origin_runtime_id r, rq_channel = rw_channel r,
       rq_target = rw_target r, rq_action_type = rw_action_type r,
       rq_payload_bytes = rw_payload_bytes r, rq_created_at = created_at, rq_sync = sync,
       rq_surface_handoff = handoff\<rparr>))))"

text \<open>The columns that a request's identity lives in; the recovery metadata is the rest.\<close>

definition same_request_columns :: "request_row \<Rightarrow> request_row \<Rightarrow> bool" where
  "same_request_columns r s \<longleftrightarrow> rw_request_id r = rw_request_id s \<and> rw_message_id r = rw_message_id s \<and>
     rw_scope r = rw_scope s \<and> rw_origin_runtime_id r = rw_origin_runtime_id s \<and>
     rw_channel r = rw_channel s \<and> rw_target r = rw_target s \<and> rw_action_type r = rw_action_type s \<and>
     rw_payload_bytes r = rw_payload_bytes s \<and> rw_surface_handoff r = rw_surface_handoff s \<and>
     rw_created_at r = rw_created_at s \<and> rw_sync r = rw_sync s"

lemma request_from_same_columns:
  "same_request_columns r s \<Longrightarrow> request_from_row digest r = request_from_row digest s"
  by (simp add: request_from_row_def same_request_columns_def)

lemma request_collapse:
  "sf_scope (rq_sync q) = rq_scope q \<Longrightarrow> sf_origin_runtime_id (rq_sync q) = rq_origin_runtime_id q \<Longrightarrow>
   sf_object_id (rq_sync q) = rq_request_id q \<Longrightarrow>
   \<lparr>rq_request_id = rq_request_id q, rq_message_id = rq_message_id q, rq_scope = rq_scope q,
     rq_origin_runtime_id = rq_origin_runtime_id q, rq_channel = rq_channel q,
     rq_target = rq_target q, rq_action_type = rq_action_type q, rq_payload_bytes = rq_payload_bytes q,
     rq_created_at = rq_created_at q,
     rq_sync = mk_sync (rq_scope q) (rq_origin_runtime_id q) (rq_request_id q)
       (sf_version (rq_sync q)) (sf_idempotency_key (rq_sync q)),
     rq_surface_handoff = rq_surface_handoff q\<rparr> = q"
  by (simp add: sync_eq_mk)

lemma request_row_reads_back:
  assumes "delivery_request_valid digest q"
  shows "request_from_row digest (request_to_row q st) = Inr q"
  using assms
  by (simp add: request_from_row_def request_to_row_def delivery_request_valid_iff scope_round_trip
      sync_json_round_trip handoff_round_trip parse_required_dt_def guarded_clear request_collapse
      mk_delivery_request_valid)

lemma request_from_row_valid:
  assumes "request_from_row digest r = Inr q"
  shows "delivery_request_valid digest q" and "rq_request_id q = rw_request_id r"
    and "rq_surface_handoff q = None \<longleftrightarrow> rw_surface_handoff r = None"
proof -
  from assms obtain sc sync handoff where
    sc: "scope_from_columns (rw_scope r) = Inr sc" and
    h: "surface_handoff_from_json (rw_surface_handoff r) = Inr handoff" and
    q: "mk_delivery_request digest \<lparr>
       rq_request_id = rw_request_id r, rq_message_id = rw_message_id r, rq_scope = sc,
       rq_origin_runtime_id = rw_origin_runtime_id r, rq_channel = rw_channel r,
       rq_target = rw_target r, rq_action_type = rw_action_type r,
       rq_payload_bytes = rw_payload_bytes r, rq_created_at = rw_created_at r, rq_sync = sync,
       rq_surface_handoff = handoff\<rparr> = Inr q"
    by (auto simp: request_from_row_def bindR_Inr_iff parse_required_dt_def guarded_Inr_iff)
  from h have h': "handoff = None \<longleftrightarrow> rw_surface_handoff r = None"
    and hv: "\<And>x. handoff = Some x \<Longrightarrow> surface_handoff_valid x"
    by (auto simp: surface_handoff_from_json_def mk_surface_handoff_def surface_handoff_valid_def
        guarded_Inr_iff dest!: sym [of "Some _"] split: option.splits json.splits sum.splits)
  from q have eq: "q = \<lparr>rq_request_id = rw_request_id r, rq_message_id = rw_message_id r, rq_scope = sc,
       rq_origin_runtime_id = rw_origin_runtime_id r, rq_channel = rw_channel r,
       rq_target = rw_target r, rq_action_type = rw_action_type r,
       rq_payload_bytes = rw_payload_bytes r, rq_created_at = rw_created_at r, rq_sync = sync,
       rq_surface_handoff = handoff\<rparr>" and cl: "all_clear (delivery_request_checks digest q)"
    by (auto simp: mk_delivery_request_def guarded_Inr_iff)
  from eq h' show "rq_request_id q = rw_request_id r"
    "rq_surface_handoff q = None \<longleftrightarrow> rw_surface_handoff r = None" by simp_all
  have "scope_valid (rq_scope q)" using sc eq by (simp add: scope_from_columns_valid)
  moreover have "case rq_surface_handoff q of None \<Rightarrow> True | Some h \<Rightarrow> surface_handoff_valid h"
    using eq hv by (simp split: option.split)
  ultimately show "delivery_request_valid digest q" using cl by (simp add: delivery_request_valid_def)
qed

section \<open>Receipts\<close>

definition receipt_to_row ::
  "delivery_receipt \<Rightarrow> string \<Rightarrow> string option \<Rightarrow> string option \<Rightarrow> int \<Rightarrow> receipt_row" where
  "receipt_to_row r request_id provider_receipt_ref provider_message_ref attempt = \<lparr>
     rc_receipt_id = dr_receipt_id r,
     rc_request_id = request_id,
     rc_message_id = dr_message_id r,
     rc_scope = scope_values (dr_scope r),
     rc_origin_runtime_id = dr_origin_runtime_id r,
     rc_delivery_status = delivery_status_value (dr_delivery_status r),
     rc_delivered_at = dr_delivered_at r,
     rc_provider_receipt_ref = provider_receipt_ref,
     rc_provider_message_ref = provider_message_ref,
     rc_sync = sync_to_json (scope_domain_value (sc_domain (dr_scope r))) (dr_origin_runtime_id r)
       (dr_receipt_id r) (sf_version (dr_sync r)) (sf_idempotency_key (dr_sync r)),
     rc_attempt = attempt,
     rc_sync_version = sf_version (dr_sync r)\<rparr>"

definition receipt_from_row :: "receipt_row \<Rightarrow> delivery_receipt result" where
  "receipt_from_row r =
     bindR (scope_from_columns (rc_scope r)) (\<lambda>sc.
     bindR (sync_from_json sc (rc_sync r)) (\<lambda>sync.
     bindR (delivery_status_of (rc_delivery_status r)) (\<lambda>status.
     mk_delivery_receipt \<lparr>
       dr_receipt_id = rc_receipt_id r, dr_scope = sc,
       dr_origin_runtime_id = rc_origin_runtime_id r, dr_message_id = rc_message_id r,
       dr_delivery_status = status, dr_delivered_at = rc_delivered_at r, dr_sync = sync\<rparr>)))"

lemma receipt_row_reads_back:
  assumes "delivery_receipt_valid r"
  shows "receipt_from_row (receipt_to_row r i pr pm n) = Inr r"
proof -
  have "\<lparr>dr_receipt_id = dr_receipt_id r, dr_scope = dr_scope r,
       dr_origin_runtime_id = dr_origin_runtime_id r, dr_message_id = dr_message_id r,
       dr_delivery_status = dr_delivery_status r, dr_delivered_at = dr_delivered_at r,
       dr_sync = mk_sync (dr_scope r) (dr_origin_runtime_id r) (dr_receipt_id r)
         (sf_version (dr_sync r)) (sf_idempotency_key (dr_sync r))\<rparr> = r"
    using assms by (simp add: delivery_receipt_valid_iff sync_eq_mk)
  moreover have "mk_delivery_receipt r = Inr r" and "scope_valid (dr_scope r)"
    using assms by (simp_all add: mk_delivery_receipt_def delivery_receipt_valid_def guarded_clear)
  ultimately show ?thesis
    by (simp add: receipt_from_row_def receipt_to_row_def scope_round_trip sync_json_round_trip)
qed

section \<open>Attempts\<close>

record durable_attempt =
  da_attempt_id :: string
  da_request_id :: string
  da_attempt :: int
  da_started_at :: datetime
  da_ended_at :: "datetime option"
  da_outcome :: lifecycle_state
  da_provider_receipt_ref :: "string option"
  da_reason_codes :: "string list"

definition attempt_to_row :: "durable_attempt \<Rightarrow> attempt_row" where
  "attempt_to_row a = \<lparr>
     at_attempt_id = da_attempt_id a,
     at_request_id = da_request_id a,
     at_attempt = da_attempt a,
     at_started_at = da_started_at a,
     at_ended_at = da_ended_at a,
     at_outcome = lifecycle_value (da_outcome a),
     at_provider_receipt_ref = da_provider_receipt_ref a,
     at_reason_codes = Some (JList (map JStr (da_reason_codes a)))\<rparr>"

definition attempt_from_row :: "attempt_row \<Rightarrow> durable_attempt result" where
  "attempt_from_row r = bindR (json_loads (at_reason_codes r)) (\<lambda>raw. case as_list raw of
      None \<Rightarrow> Inl (ValueError ''delivery_attempts row reason_codes is not a JSON array'')
    | Some entries \<Rightarrow>
        bindR (mapR py_str entries) (\<lambda>codes.
        bindR (parse_required_dt (at_started_at r)) (\<lambda>started_at.
        bindR (lifecycle_of (at_outcome r)) (\<lambda>outcome.
        Inr \<lparr>da_attempt_id = at_attempt_id r, da_request_id = at_request_id r,
          da_attempt = at_attempt r, da_started_at = started_at, da_ended_at = at_ended_at r,
          da_outcome = outcome, da_provider_receipt_ref = at_provider_receipt_ref r,
          da_reason_codes = codes\<rparr>))))"

lemma mapR_py_str [simp]: "mapR py_str (map JStr ss) = Inr ss"
  by (induction ss) auto

lemma attempt_row_reads_back:
  "is_aware_utc (da_started_at a) \<Longrightarrow> attempt_from_row (attempt_to_row a) = Inr a"
  by (simp add: attempt_from_row_def attempt_to_row_def parse_required_dt_def guarded_clear)

text \<open>
  C27. Persisted delivery records survive the process: a valid request, a valid receipt and a valid
  attempt are read back from their rows unchanged, whatever the initial lifecycle state, the provider
  references and the attempt number stored beside them.
\<close>

theorem delivery_rows_round_trip:
  assumes "delivery_request_valid digest q" and "delivery_receipt_valid r" and "is_aware_utc (da_started_at a)"
  shows "request_from_row digest (request_to_row q st) = Inr q \<and>
    receipt_from_row (receipt_to_row r i pr pm n) = Inr r \<and>
    attempt_from_row (attempt_to_row a) = Inr a"
  using assms request_row_reads_back receipt_row_reads_back attempt_row_reads_back by blast

definition sample_handoff :: "string \<Rightarrow> surface_handoff" where
  "sample_handoff dg = \<lparr>sh_context_id = ''ctx'', sh_intent_id = ''i1'', sh_action_type = ''send_photo'',
     sh_policy_id = ''p1'', sh_policy_constraints = [''quiet''], sh_controls_id = ''c1'',
     sh_recipe_ref = ''r1'', sh_expression_map_ref = ''m1'',
     sh_qualitative_guidance = [(''directness'', ''low''), (''restraint'', ''high''), (''warmth'', ''low'')],
     sh_intent_surface_use_ref = ''u1'', sh_render_id = ''n1'', sh_logical_attempt_id = ''l1'',
     sh_envelope_digest = dg\<rparr>"

definition sample_request :: "string \<Rightarrow> surface_handoff option \<Rightarrow> delivery_request" where
  "sample_request i h = \<lparr>rq_request_id = i, rq_message_id = ''msg'', rq_scope = user_scope ''u1'',
     rq_origin_runtime_id = ''rt'', rq_channel = ''chat'', rq_target = ''bob'',
     rq_action_type = ''send_photo'', rq_payload_bytes = ''hi'', rq_created_at = utc 5,
     rq_sync = mk_sync (user_scope ''u1'') ''rt'' i 1 ''k'', rq_surface_handoff = h\<rparr>"

lemma sample_handoff_valid: "surface_handoff_valid (sample_handoff ''d'')"
  by (simp add: surface_handoff_valid_def surface_handoff_checks_def sample_handoff_def non_empty_eval
      insert_commute)

lemma sample_request_valid:
  "non_empty i \<Longrightarrow> delivery_request_valid (\<lambda>b. ''d'') (sample_request i None)"
  "non_empty i \<Longrightarrow> delivery_request_valid (\<lambda>b. ''d'') (sample_request i (Some (sample_handoff ''d'')))"
  using sample_handoff_valid
  by (simp_all add: delivery_request_valid_iff sample_request_def non_empty_eval strip_eq_Nil_iff)
    (simp_all add: sample_handoff_def)

theorem delivery_rows_round_trip_witness:
  "request_from_row (\<lambda>b. ''d'') (request_to_row (sample_request ''q1'' (Some (sample_handoff ''d''))) PENDING) =
    Inr (sample_request ''q1'' (Some (sample_handoff ''d'')))"
proof -
  have v: "delivery_request_valid (\<lambda>b. ''d'') (sample_request ''q1'' None)"
    by (simp add: sample_request_valid non_empty_eval)
  obtain r where r: "delivery_receipt_valid r"
    by (rule build_receipt_ok [OF v])
  let ?a = "\<lparr>da_attempt_id = ''a'', da_request_id = ''q1'', da_attempt = 1, da_started_at = utc 0,
    da_ended_at = None, da_outcome = IN_FLIGHT, da_provider_receipt_ref = None, da_reason_codes = []\<rparr>"
  have "delivery_request_valid (\<lambda>b. ''d'') (sample_request ''q1'' (Some (sample_handoff ''d'')))"
    by (simp add: sample_request_valid non_empty_eval)
  from delivery_rows_round_trip [OF this r, of ?a PENDING] show ?thesis by simp
qed

end
