(* ===== verification/Kill_Switch.thy ===== *)
theory Kill_Switch
  imports MR_Contracts Json_Value
begin

text \<open>
  The durable kill switch of \<^verbatim>\<open>delivery/kill_switch.py\<close>: a single row with a state label and two
  JSON block maps, the operations that rewrite it, and \<open>decide\<close>, the consult a caller makes before
  an outbound call. The abstract switch is a flag and two sets; the operations on the row refine
  the operations on it.
\<close>

section \<open>The row\<close>

datatype kill_level = ON | OFF | OFF_CHANNEL | OFF_TARGET

fun kill_level_value :: "kill_level \<Rightarrow> string" where
  "kill_level_value ON = ''on''"
| "kill_level_value OFF = ''off''"
| "kill_level_value OFF_CHANNEL = ''off_channel''"
| "kill_level_value OFF_TARGET = ''off_target''"

definition all_levels :: "string list" where
  "all_levels = map kill_level_value [ON, OFF, OFF_CHANNEL, OFF_TARGET]"

type_synonym block_map = "(string \<times> string) list"

record kill_row =
  ks_state :: string
  ks_channel_blocks :: json_text
  ks_target_blocks :: json_text
  ks_updated_at :: datetime

text \<open>The table holds at most the row with id 1.\<close>

type_synonym kill_table = "kill_row option"

definition ensure_kill_switch_schema :: "datetime \<Rightarrow> kill_table \<Rightarrow> kill_table" where
  "ensure_kill_switch_schema now table = (case table of
      None \<Rightarrow> Some \<lparr>ks_state = kill_level_value ON, ks_channel_blocks = Some (JObj []),
        ks_target_blocks = Some (JObj []), ks_updated_at = now\<rparr>
    | Some r \<Rightarrow> Some r)"

definition validate_state :: "string \<Rightarrow> string result" where
  "validate_state state = (if state \<notin> set all_levels
     then Inl (ValueError ''kill_switch state must be a level'') else Inr state)"

fun block_entries :: "string \<Rightarrow> (string \<times> json) list \<Rightarrow> block_map result" where
  "block_entries field_name [] = Inr []"
| "block_entries field_name ((key, value) # rest) =
     (if key = '''' then Inl (ValueError (field_name @ '' keys must be non-empty strings''))
      else case as_string value of
        None \<Rightarrow> Inl (ValueError (field_name @ '' values must be strings''))
      | Some reason \<Rightarrow> bindR (block_entries field_name rest) (\<lambda>out. Inr ((key, reason) # out)))"

definition validate_block_map :: "json_text \<Rightarrow> string \<Rightarrow> block_map result" where
  "validate_block_map raw field_name = (case raw of
      None \<Rightarrow> Inl (ValueError (field_name @ '' must be a valid JSON object''))
    | Some (JObj entries) \<Rightarrow> block_entries field_name entries
    | Some _ \<Rightarrow> Inl (ValueError (field_name @ '' must be a JSON object'')))"

definition dump_blocks :: "block_map \<Rightarrow> json_text" where
  "dump_blocks m = Some (JObj (map (\<lambda>(k, v). (k, JStr v)) (sort_key fst m)))"

definition compute_state :: "string \<Rightarrow> block_map \<Rightarrow> block_map \<Rightarrow> string" where
  "compute_state current channel_blocks target_blocks =
     (if current = kill_level_value OFF then kill_level_value OFF
      else if target_blocks \<noteq> [] then kill_level_value OFF_TARGET
      else if channel_blocks \<noteq> [] then kill_level_value OFF_CHANNEL
      else kill_level_value ON)"

definition read_row :: "kill_table \<Rightarrow> (string \<times> block_map \<times> block_map) result" where
  "read_row table = (case table of
      None \<Rightarrow> Inl (ValueError ''kill switch row missing'')
    | Some r \<Rightarrow>
        bindR (validate_state (ks_state r)) (\<lambda>state.
        bindR (validate_block_map (ks_channel_blocks r) ''channel_blocks'') (\<lambda>ch.
        bindR (validate_block_map (ks_target_blocks r) ''target_blocks'') (\<lambda>tg.
        Inr (state, ch, tg)))))"

section \<open>Operations\<close>

definition set_global :: "bool \<Rightarrow> datetime \<Rightarrow> (kill_table, unit) prog" where
  "set_global on updated_at = writeP (map_option (\<lambda>r.
     r\<lparr>ks_state := kill_level_value (if on then ON else OFF), ks_updated_at := updated_at\<rparr>))"

datatype block_column = Channel_Blocks | Target_Blocks

definition write_blocks ::
  "string \<Rightarrow> block_map \<Rightarrow> block_map \<Rightarrow> datetime \<Rightarrow> (kill_table, unit) prog" where
  "write_blocks state ch tg updated_at = writeP (map_option (\<lambda>r.
     r\<lparr>ks_channel_blocks := dump_blocks ch, ks_target_blocks := dump_blocks tg,
       ks_state := compute_state state ch tg, ks_updated_at := updated_at\<rparr>))"

definition set_block :: "block_column \<Rightarrow> string \<Rightarrow> string \<Rightarrow> datetime \<Rightarrow> (kill_table, unit) prog" where
  "set_block column key reason updated_at = bindP (readP read_row) (\<lambda>(state, ch, tg).
     case column of
       Channel_Blocks \<Rightarrow> write_blocks state (AList.update key reason ch) tg updated_at
     | Target_Blocks \<Rightarrow> write_blocks state ch (AList.update key reason tg) updated_at)"

definition unset_block :: "block_column \<Rightarrow> string \<Rightarrow> datetime \<Rightarrow> (kill_table, unit) prog" where
  "unset_block column key updated_at = bindP (readP read_row) (\<lambda>(state, ch, tg).
     case column of
       Channel_Blocks \<Rightarrow> write_blocks state (filter (\<lambda>(k, v). k \<noteq> key) ch) tg updated_at
     | Target_Blocks \<Rightarrow> write_blocks state ch (filter (\<lambda>(k, v). k \<noteq> key) tg) updated_at)"

definition block_channel :: "string \<Rightarrow> string \<Rightarrow> datetime \<Rightarrow> (kill_table, unit) prog" where
  "block_channel channel reason updated_at =
     (if channel = '''' then raiseP (ValueError ''channel must be non-empty'')
      else if reason = '''' then raiseP (ValueError ''reason must be non-empty'')
      else set_block Channel_Blocks channel reason updated_at)"

definition unblock_channel :: "string \<Rightarrow> datetime \<Rightarrow> (kill_table, unit) prog" where
  "unblock_channel channel updated_at = unset_block Channel_Blocks channel updated_at"

definition block_target :: "string \<Rightarrow> string \<Rightarrow> datetime \<Rightarrow> (kill_table, unit) prog" where
  "block_target target reason updated_at =
     (if target = '''' then raiseP (ValueError ''target must be non-empty'')
      else if reason = '''' then raiseP (ValueError ''reason must be non-empty'')
      else set_block Target_Blocks target reason updated_at)"

definition unblock_target :: "string \<Rightarrow> datetime \<Rightarrow> (kill_table, unit) prog" where
  "unblock_target target updated_at = unset_block Target_Blocks target updated_at"

record kill_decision =
  kd_allowed :: bool
  kd_reason_code :: string

definition kill_decide :: "string \<Rightarrow> string \<Rightarrow> kill_table \<Rightarrow> kill_decision result" where
  "kill_decide channel target table =
     (if channel = '''' then Inl (ValueError ''channel must be non-empty'')
      else if target = '''' then Inl (ValueError ''target must be non-empty'')
      else bindR (read_row table) (\<lambda>(state, ch, tg).
        if state = kill_level_value OFF
        then Inr \<lparr>kd_allowed = False, kd_reason_code = ''global_off''\<rparr>
        else if channel \<in> fst ` set ch
        then Inr \<lparr>kd_allowed = False, kd_reason_code = ''channel_off:'' @ channel\<rparr>
        else if target \<in> fst ` set tg
        then Inr \<lparr>kd_allowed = False, kd_reason_code = ''target_off:'' @ target\<rparr>
        else Inr \<lparr>kd_allowed = True, kd_reason_code = ''on''\<rparr>))"

section \<open>The abstract switch\<close>

record kill_spec =
  sp_global_off :: bool
  sp_channels :: "string set"
  sp_targets :: "string set"

definition kill_abs :: "kill_table \<Rightarrow> kill_spec" where
  "kill_abs table = (case read_row table of
      Inl e \<Rightarrow> \<lparr>sp_global_off = True, sp_channels = {}, sp_targets = {}\<rparr>
    | Inr (state, ch, tg) \<Rightarrow> \<lparr>sp_global_off = (state = kill_level_value OFF),
        sp_channels = fst ` set ch, sp_targets = fst ` set tg\<rparr>)"

definition kill_wf :: "kill_table \<Rightarrow> bool" where
  "kill_wf table \<longleftrightarrow> is_ok (read_row table)"

datatype kill_op =
    Set_Global bool
  | Block_Channel string string
  | Unblock_Channel string
  | Block_Target string string
  | Unblock_Target string

fun kill_run :: "kill_op \<Rightarrow> datetime \<Rightarrow> (kill_table, unit) prog" where
  "kill_run (Set_Global on) tm = set_global on tm"
| "kill_run (Block_Channel c r) tm = block_channel c r tm"
| "kill_run (Unblock_Channel c) tm = unblock_channel c tm"
| "kill_run (Block_Target g r) tm = block_target g r tm"
| "kill_run (Unblock_Target g) tm = unblock_target g tm"

fun kill_op_ok :: "kill_op \<Rightarrow> bool" where
  "kill_op_ok (Block_Channel c r) \<longleftrightarrow> c \<noteq> '''' \<and> r \<noteq> ''''"
| "kill_op_ok (Block_Target g r) \<longleftrightarrow> g \<noteq> '''' \<and> r \<noteq> ''''"
| "kill_op_ok _ \<longleftrightarrow> True"

fun kill_spec_op :: "kill_op \<Rightarrow> kill_spec \<Rightarrow> kill_spec" where
  "kill_spec_op (Set_Global on) s = s\<lparr>sp_global_off := \<not> on\<rparr>"
| "kill_spec_op (Block_Channel c r) s = s\<lparr>sp_channels := insert c (sp_channels s)\<rparr>"
| "kill_spec_op (Unblock_Channel c) s = s\<lparr>sp_channels := sp_channels s - {c}\<rparr>"
| "kill_spec_op (Block_Target g r) s = s\<lparr>sp_targets := insert g (sp_targets s)\<rparr>"
| "kill_spec_op (Unblock_Target g) s = s\<lparr>sp_targets := sp_targets s - {g}\<rparr>"

definition kill_spec_allows :: "kill_spec \<Rightarrow> string \<Rightarrow> string \<Rightarrow> bool" where
  "kill_spec_allows s channel target \<longleftrightarrow>
     \<not> sp_global_off s \<and> channel \<notin> sp_channels s \<and> target \<notin> sp_targets s"

section \<open>Reading back what was written\<close>

lemma kill_level_value_inject [simp]: "kill_level_value a = kill_level_value b \<longleftrightarrow> a = b"
  by (cases a; cases b) simp_all

lemma level_mem [simp]: "kill_level_value l \<in> set all_levels"
  by (cases l) (simp_all add: all_levels_def)

lemma block_entries_dump:
  "\<forall>k \<in> fst ` set m. k \<noteq> '''' \<Longrightarrow> block_entries f (map (\<lambda>(k, v). (k, JStr v)) m) = Inr m"
  by (induction m) auto

lemma validate_dump: "'''' \<notin> fst ` set m \<Longrightarrow> validate_block_map (dump_blocks m) f = Inr (sort_key fst m)"
proof -
  assume "[] \<notin> fst ` set m"
  then have "\<forall>k \<in> fst ` set (sort_key fst m). k \<noteq> []" by (metis set_sort)
  from block_entries_dump [OF this] show ?thesis by (simp add: validate_block_map_def dump_blocks_def)
qed

lemma block_entries_keys: "block_entries f es = Inr m \<Longrightarrow> '''' \<notin> fst ` set m"
proof (induction es arbitrary: m)
  case (Cons e es)
  obtain key val where e: "e = (key, val)" by (cases e)
  from Cons.prems e obtain reason out where "key \<noteq> ''''" "block_entries f es = Inr out"
    "m = (key, reason) # out"
    by (auto simp: bindR_Inr_iff split: if_splits option.splits)
  with Cons.IH [of out] show ?case by simp
qed simp

lemma validate_keys: "validate_block_map raw f = Inr m \<Longrightarrow> '''' \<notin> fst ` set m"
  unfolding validate_block_map_def
  by (split option.splits json.splits; auto dest: block_entries_keys split: option.splits json.splits)

lemma read_row_Inr:
  assumes "read_row t = Inr (st, ch, tg)"
  obtains r where "t = Some r" "ks_state r = st" "validate_state st = Inr st"
    "validate_block_map (ks_channel_blocks r) ''channel_blocks'' = Inr ch"
    "validate_block_map (ks_target_blocks r) ''target_blocks'' = Inr tg"
    "'''' \<notin> fst ` set ch" "'''' \<notin> fst ` set tg"
proof -
  from assms obtain r where r: "t = Some r" "ks_state r = st" "validate_state st = Inr st"
    and ch: "validate_block_map (ks_channel_blocks r) ''channel_blocks'' = Inr ch"
    and tg: "validate_block_map (ks_target_blocks r) ''target_blocks'' = Inr tg"
    by (auto simp: read_row_def bindR_Inr_iff validate_state_def split: option.splits if_splits)
  from that [OF r ch tg validate_keys [OF ch] validate_keys [OF tg]] show thesis .
qed

lemma read_row_Some:
  "read_row (Some r) =
    bindR (validate_state (ks_state r)) (\<lambda>state.
    bindR (validate_block_map (ks_channel_blocks r) ''channel_blocks'') (\<lambda>ch.
    bindR (validate_block_map (ks_target_blocks r) ''target_blocks'') (\<lambda>tg. Inr (state, ch, tg))))"
  by (simp add: read_row_def)

lemma validate_compute [simp]: "validate_state (compute_state st ch tg) = Inr (compute_state st ch tg)"
  by (simp add: validate_state_def compute_state_def del: kill_level_value.simps)

lemma compute_state_off [simp]: "compute_state st ch tg = kill_level_value OFF \<longleftrightarrow> st = kill_level_value OFF"
  by (simp add: compute_state_def del: kill_level_value.simps)

lemma write_blocks_read:
  assumes "t = Some r" and "'''' \<notin> fst ` set ch" and "'''' \<notin> fst ` set tg"
  shows "\<exists>t'. write_blocks st ch tg tm t = (Inr (), t') \<and>
    read_row t' = Inr (compute_state st ch tg, sort_key fst ch, sort_key fst tg)"
  using assms by (simp add: write_blocks_def read_row_Some validate_dump)

lemma update_keys: "fst ` set (AList.update k v xs) = insert k (fst ` set xs)"
  using dom_update [of k v xs] by (simp add: dom_map_of_conv_image_fst)

lemma remove_keys: "fst ` {x \<in> set xs. case x of (k, v) \<Rightarrow> k \<noteq> key} = fst ` set xs - {key}"
  by force

section \<open>Correctness\<close>

declare kill_level_value.simps [simp del]

lemma kill_decide_spec:
  assumes "kill_wf t" and "c \<noteq> ''''" and "g \<noteq> ''''"
  shows "\<exists>d. kill_decide c g t = Inr d \<and> (kd_allowed d \<longleftrightarrow> kill_spec_allows (kill_abs t) c g)"
proof -
  obtain st ch tg where rr: "read_row t = Inr (st, ch, tg)"
    using assms(1) by (cases "read_row t") (auto simp: kill_wf_def)
  with assms(2,3) show ?thesis
    by (simp add: kill_decide_def kill_abs_def kill_spec_allows_def)
qed

lemma kill_abs_read: "read_row t = Inr (st, ch, tg) \<Longrightarrow> kill_wf t \<and>
    kill_abs t = \<lparr>sp_global_off = (st = kill_level_value OFF), sp_channels = fst ` set ch,
      sp_targets = fst ` set tg\<rparr>"
  by (simp add: kill_abs_def kill_wf_def)

lemma kill_run_refines:
  assumes "kill_wf t" and "kill_op_ok oper"
  shows "\<exists>t'. kill_run oper tm t = (Inr (), t') \<and> kill_wf t' \<and> kill_abs t' = kill_spec_op oper (kill_abs t)"
proof -
  obtain st ch tg where rr: "read_row t = Inr (st, ch, tg)"
    using assms(1) by (cases "read_row t") (auto simp: kill_wf_def)
  obtain r where r: "t = Some r" "'''' \<notin> fst ` set ch" "'''' \<notin> fst ` set tg"
    "validate_block_map (ks_channel_blocks r) ''channel_blocks'' = Inr ch"
    "validate_block_map (ks_target_blocks r) ''target_blocks'' = Inr tg"
    using rr by (rule read_row_Inr)
  have b: "bindP (readP read_row) f t = f (st, ch, tg) t" for f :: "_ \<Rightarrow> (kill_table, unit) prog"
    using rr by (simp add: bindP_def)
  have w: "\<exists>t'. write_blocks st c g tm t = (Inr (), t') \<and> kill_wf t' \<and>
      kill_abs t' = \<lparr>sp_global_off = (st = kill_level_value OFF), sp_channels = fst ` set c,
        sp_targets = fst ` set g\<rparr>"
    if "'''' \<notin> fst ` set c" "'''' \<notin> fst ` set g" for c g
    using write_blocks_read [OF r(1) that, of st tm] kill_abs_read by fastforce
  note a = kill_abs_read [OF rr]
  show ?thesis
  proof (cases oper)
    case (Set_Global on)
    have "read_row (snd (set_global on tm t)) = Inr (kill_level_value (if on then ON else OFF), ch, tg)"
      using r by (simp add: set_global_def read_row_Some validate_state_def)
    from kill_abs_read [OF this] Set_Global a show ?thesis by (simp add: set_global_def)
  next
    case (Block_Channel c x)
    with assms(2) have "c \<noteq> []" "[] \<noteq> c" "x \<noteq> []" by auto
    with Block_Channel r(2,3) w [of "AList.update c x ch" tg] a show ?thesis
      by (simp add: block_channel_def set_block_def b update_keys)
  next
    case (Unblock_Channel c)
    with r(2,3) w [of "filter (\<lambda>(k, v). k \<noteq> c) ch" tg] a show ?thesis
      by (simp add: unblock_channel_def unset_block_def b remove_keys)
  next
    case (Block_Target c x)
    with assms(2) have "c \<noteq> []" "[] \<noteq> c" "x \<noteq> []" by auto
    with Block_Target r(2,3) w [of ch "AList.update c x tg"] a show ?thesis
      by (simp add: block_target_def set_block_def b update_keys)
  next
    case (Unblock_Target c)
    with r(2,3) w [of ch "filter (\<lambda>(k, v). k \<noteq> c) tg"] a show ?thesis
      by (simp add: unblock_target_def unset_block_def b remove_keys)
  qed
qed

text \<open>A history of operations, each with its timestamp; reopening the file changes nothing.\<close>

fun kill_history :: "(kill_op \<times> datetime) list \<Rightarrow> kill_table \<Rightarrow> kill_table" where
  "kill_history [] t = t"
| "kill_history ((oper, tm) # rest) t =
     kill_history rest (ensure_kill_switch_schema tm (snd (kill_run oper tm t)))"

lemma ensure_wf [simp]: "kill_wf t \<Longrightarrow> ensure_kill_switch_schema tm t = t"
  by (auto simp: kill_wf_def read_row_def ensure_kill_switch_schema_def split: option.splits)

lemma kill_history_refines:
  "kill_wf t \<Longrightarrow> list_all (\<lambda>(oper, tm). kill_op_ok oper) h \<Longrightarrow>
    kill_wf (kill_history h t) \<and> kill_abs (kill_history h t) = fold (\<lambda>(oper, tm). kill_spec_op oper) h (kill_abs t)"
proof (induction h arbitrary: t)
  case Nil
  then show ?case by simp
next
  case (Cons x h)
  obtain oper tm where x: "x = (oper, tm)" by (cases x)
  with Cons.prems kill_run_refines [of t oper tm] obtain t' where
    "kill_run oper tm t = (Inr (), t')" "kill_wf t'" "kill_abs t' = kill_spec_op oper (kill_abs t)"
    by auto
  with Cons x show ?case by simp
qed

lemma fresh_table:
  "kill_wf (ensure_kill_switch_schema tm None) \<and> kill_abs (ensure_kill_switch_schema tm None) =
     \<lparr>sp_global_off = False, sp_channels = {}, sp_targets = {}\<rparr>"
  by (simp add: ensure_kill_switch_schema_def kill_wf_def kill_abs_def read_row_def
      validate_state_def validate_block_map_def)

text \<open>
  C26. The durable row refines the abstract switch: after any history of well-formed operations on a
  new table, with the table reopened after each of them, the consult never raises and allows a
  (channel, target) pair exactly when the abstract switch built from the same history does: the
  global flag is not off, the channel is not blocked and the target is not blocked.
\<close>

theorem kill_switch_refines:
  assumes "list_all (\<lambda>(oper, tm). kill_op_ok oper) h" and "c \<noteq> ''''" and "g \<noteq> ''''"
  shows "\<exists>d. kill_decide c g (kill_history h (ensure_kill_switch_schema at0 None)) = Inr d \<and>
    (kd_allowed d \<longleftrightarrow> kill_spec_allows (fold (\<lambda>(oper, tm). kill_spec_op oper) h
       \<lparr>sp_global_off = False, sp_channels = {}, sp_targets = {}\<rparr>) c g)"
proof -
  let ?t = "kill_history h (ensure_kill_switch_schema at0 None)"
  have "kill_wf ?t" and a: "kill_abs ?t = fold (\<lambda>(oper, tm). kill_spec_op oper) h
      \<lparr>sp_global_off = False, sp_channels = {}, sp_targets = {}\<rparr>"
    using kill_history_refines [OF _ assms(1), of "ensure_kill_switch_schema at0 None"]
      fresh_table [of at0] by simp_all
  from kill_decide_spec [OF this(1) assms(2,3)] a show ?thesis by simp
qed

theorem kill_switch_refines_witness:
  "\<exists>d. kill_decide ''sms'' ''bob'' (kill_history
      [(Block_Channel ''sms'' ''spam'', utc 1), (Set_Global False, utc 2), (Set_Global True, utc 3)]
      (ensure_kill_switch_schema (utc 0) None)) = Inr d \<and> \<not> kd_allowed d"
  using kill_switch_refines [of "[(Block_Channel ''sms'' ''spam'', utc 1), (Set_Global False, utc 2),
      (Set_Global True, utc 3)]" "''sms''" "''bob''" "utc 0"]
  by (simp add: kill_spec_allows_def)

definition label_agrees :: "kill_table \<Rightarrow> bool" where
  "label_agrees table = (case read_row table of
     Inl e \<Rightarrow> False | Inr (state, ch, tg) \<Rightarrow> compute_state state ch tg = state)"

lemma write_blocks_label:
  assumes "t = Some r" and "'''' \<notin> fst ` set ch" and "'''' \<notin> fst ` set tg"
  shows "label_agrees (snd (write_blocks st ch tg tm t))"
proof -
  have "sort_key fst ch = [] \<longleftrightarrow> ch = []" "sort_key fst tg = [] \<longleftrightarrow> tg = []"
    by (metis length_0_conv length_sort)+
  with write_blocks_read [OF assms, of st tm] show ?thesis
    by (auto simp: label_agrees_def compute_state_def)
qed

text \<open>
  Every write of the block maps leaves the stored label in agreement with them, but \<open>set_global\<close> does
  not recompute it: turning the global switch on over a blocked channel leaves the label \<open>on\<close>.
\<close>

theorem set_global_label_disagrees:
  "let t = kill_history [(Block_Channel ''sms'' ''spam'', utc 1)] (ensure_kill_switch_schema (utc 0) None)
   in label_agrees t \<and> \<not> label_agrees (kill_history [(Set_Global True, utc 2)] t)"
  by (simp add: Let_def ensure_kill_switch_schema_def block_channel_def set_block_def write_blocks_def
      bindP_def read_row_def validate_state_def all_levels_def validate_block_map_def set_global_def
      label_agrees_def dump_blocks_def compute_state_def kill_level_value.simps)

end
