(* ===== verification/Delivery_Backend.thy ===== *)
theory Delivery_Backend
  imports Delivery_Rows Kill_Switch
begin

text \<open>
  \<^verbatim>\<open>SqliteDeliveryBackend\<close> of \<^verbatim>\<open>delivery/persistence.py\<close>: the four tables of one file, the reopen
  check of the constructor, and every operation that reads or writes them. Rows are kept in rowid
  order; a \<open>PRIMARY KEY\<close> is a key no two rows share, which is part of the invariant. A step
  relation over the writing operations carries what holds along every history of a file.
\<close>

section \<open>The file\<close>

record delivery_db =
  db_requests :: "request_row list"
  db_receipts :: "receipt_row list"
  db_attempts :: "attempt_row list"
  db_kill_switch :: kill_table

definition empty_delivery_db :: delivery_db where
  "empty_delivery_db = \<lparr>db_requests = [], db_receipts = [], db_attempts = [], db_kill_switch = None\<rparr>"

definition find_request :: "string \<Rightarrow> delivery_db \<Rightarrow> request_row option" where
  "find_request i db = find (\<lambda>r. rw_request_id r = i) (db_requests db)"

definition find_receipt :: "string \<Rightarrow> delivery_db \<Rightarrow> receipt_row option" where
  "find_receipt i db = find (\<lambda>r. rc_receipt_id r = i) (db_receipts db)"

definition find_attempt :: "string \<Rightarrow> delivery_db \<Rightarrow> attempt_row option" where
  "find_attempt i db = find (\<lambda>r. at_attempt_id r = i) (db_attempts db)"

definition update_request :: "string \<Rightarrow> (request_row \<Rightarrow> request_row) \<Rightarrow> delivery_db \<Rightarrow> delivery_db" where
  "update_request i f db =
     db\<lparr>db_requests := map (\<lambda>r. if rw_request_id r = i then f r else r) (db_requests db)\<rparr>"

definition check_request_row :: "request_row \<Rightarrow> unit result" where
  "check_request_row r = (case lifecycle_of (rw_lifecycle_state r) of
      Inl e \<Rightarrow> Inl (ValueError ''delivery_requests row has unknown lifecycle_state'')
    | Inr _ \<Rightarrow> validate_sync_payload (rw_sync r))"

definition check_receipt_row :: "receipt_row \<Rightarrow> unit result" where
  "check_receipt_row r = (case delivery_status_of (rc_delivery_status r) of
      Inl e \<Rightarrow> Inl (ValueError ''delivery_receipts row has unknown delivery_status'')
    | Inr _ \<Rightarrow> validate_sync_payload (rc_sync r))"

definition check_attempt_row :: "attempt_row \<Rightarrow> unit result" where
  "check_attempt_row r = (case lifecycle_of (at_outcome r) of
      Inl e \<Rightarrow> Inl (ValueError ''delivery_attempts row has unknown outcome'')
    | Inr _ \<Rightarrow> (case at_reason_codes r of
        None \<Rightarrow> Inl (ValueError ''delivery_attempts row has malformed reason_codes JSON'')
      | Some j \<Rightarrow> if as_list j = None
          then Inl (ValueError ''delivery_attempts row reason_codes must be a JSON array'')
          else Inr ()))"

text \<open>The constructor: create what is missing, then fail closed on the first bad row.\<close>

definition open_backend :: "datetime \<Rightarrow> delivery_db \<Rightarrow> delivery_db result" where
  "open_backend now db =
     bindR (mapR check_request_row (db_requests db)) (\<lambda>_.
     bindR (mapR check_receipt_row (db_receipts db)) (\<lambda>_.
     bindR (mapR check_attempt_row (db_attempts db)) (\<lambda>_.
     Inr (db\<lparr>db_kill_switch := ensure_kill_switch_schema now (db_kill_switch db)\<rparr>))))"

section \<open>Requests\<close>

definition record_request ::
  "hash \<Rightarrow> delivery_request \<Rightarrow> lifecycle_state \<Rightarrow> (delivery_db, bool) prog" where
  "record_request digest q state = (\<lambda>db. case find_request (rq_request_id q) db of
      Some existing \<Rightarrow>
        (case request_from_row digest existing of
           Inl e \<Rightarrow> (Inl e, db)
         | Inr current \<Rightarrow>
             if current = q then (Inr False, db)
             else (Inl (ValueError ''durable delivery request id collision''), db))
    | None \<Rightarrow>
        if \<not> int64 (sf_version (rq_sync q)) then (Inl sqlite_overflow, db)
        else (Inr True, db\<lparr>db_requests := db_requests db @ [request_to_row q state]\<rparr>))"

record durable_request =
  du_request :: delivery_request
  du_lifecycle_state :: lifecycle_state
  du_attempt_count :: int
  du_last_attempt_at :: "datetime option"
  du_last_reconcile_at :: "datetime option"
  du_last_provider_receipt_ref :: "string option"

definition durable_from_row :: "hash \<Rightarrow> request_row \<Rightarrow> durable_request result" where
  "durable_from_row digest r =
     bindR (request_from_row digest r) (\<lambda>q.
     bindR (lifecycle_of (rw_lifecycle_state r)) (\<lambda>state.
     Inr \<lparr>du_request = q, du_lifecycle_state = state, du_attempt_count = rw_attempt_count r,
       du_last_attempt_at = rw_last_attempt_at r, du_last_reconcile_at = rw_last_reconcile_at r,
       du_last_provider_receipt_ref = rw_last_provider_receipt_ref r\<rparr>))"

definition get_durable_request :: "hash \<Rightarrow> string \<Rightarrow> delivery_db \<Rightarrow> durable_request option result" where
  "get_durable_request digest i db = (case find_request i db of
      None \<Rightarrow> Inr None
    | Some r \<Rightarrow> bindR (durable_from_row digest r) (\<lambda>d. Inr (Some d)))"

definition set_lifecycle_state :: "string \<Rightarrow> lifecycle_state \<Rightarrow> datetime \<Rightarrow> (delivery_db, unit) prog" where
  "set_lifecycle_state i new_state tm = (\<lambda>db.
     if \<not> is_aware_utc tm then (Inl (ValueError ''at must be aware UTC''), db)
     else case find_request i db of
       None \<Rightarrow> (Inl (ValueError ''unknown delivery request''), db)
     | Some r \<Rightarrow>
         (case bindR (lifecycle_of (rw_lifecycle_state r)) (\<lambda>cur. validate_transition cur new_state) of
            Inl e \<Rightarrow> (Inl e, db)
          | Inr _ \<Rightarrow>
              (Inr (), update_request i (\<lambda>r. r\<lparr>rw_lifecycle_state := lifecycle_value new_state\<rparr>) db)))"

definition increment_attempt :: "string \<Rightarrow> datetime \<Rightarrow> (delivery_db, int) prog" where
  "increment_attempt i tm = (\<lambda>db.
     if \<not> is_aware_utc tm then (Inl (ValueError ''at must be aware UTC''), db)
     else case find_request i db of
       None \<Rightarrow> (Inl (ValueError ''unknown delivery request''), db)
     | Some r \<Rightarrow> let new_count = rw_attempt_count r + 1 in
         if \<not> int64 new_count then (Inl sqlite_overflow, db)
         else (Inr new_count,
          update_request i (\<lambda>r. r\<lparr>rw_attempt_count := new_count, rw_last_attempt_at := Some tm\<rparr>) db))"

definition record_reconcile :: "string \<Rightarrow> datetime \<Rightarrow> (delivery_db, unit) prog" where
  "record_reconcile i tm = (\<lambda>db.
     if \<not> is_aware_utc tm then (Inl (ValueError ''at must be aware UTC''), db)
     else case find_request i db of
       None \<Rightarrow> (Inl (ValueError ''unknown delivery request''), db)
     | Some r \<Rightarrow> (Inr (), update_request i (\<lambda>r. r\<lparr>rw_last_reconcile_at := Some tm\<rparr>) db))"

definition record_provider_receipt_ref :: "string \<Rightarrow> string \<Rightarrow> (delivery_db, unit) prog" where
  "record_provider_receipt_ref i provider_receipt_ref = (\<lambda>db.
     if provider_receipt_ref = '''' then (Inl (ValueError ''provider_receipt_ref must be non-empty''), db)
     else case find_request i db of
       None \<Rightarrow> (Inl (ValueError ''unknown delivery request''), db)
     | Some r \<Rightarrow> (Inr (), update_request i
         (\<lambda>r. r\<lparr>rw_last_provider_receipt_ref := Some provider_receipt_ref\<rparr>) db))"

definition unfinished_requests :: "hash \<Rightarrow> delivery_db \<Rightarrow> durable_request list result" where
  "unfinished_requests digest db = mapR (durable_from_row digest)
     (sort_key rw_request_id
       (filter (\<lambda>r. rw_lifecycle_state r \<notin> {lifecycle_value ACCEPTED, lifecycle_value REJECTED})
         (db_requests db)))"

section \<open>Receipts\<close>

definition record_receipt ::
  "delivery_receipt \<Rightarrow> string \<Rightarrow> string option \<Rightarrow> string option \<Rightarrow> int \<Rightarrow> (delivery_db, bool) prog" where
  "record_receipt r request_id provider_receipt_ref provider_message_ref attempt = (\<lambda>db.
     if request_id = '''' then (Inl (ValueError ''request_id must be non-empty''), db)
     else if attempt < 1 then (Inl (ValueError ''attempt must be a positive integer''), db)
     else case find_receipt (dr_receipt_id r) db of
       Some existing \<Rightarrow>
         (case receipt_from_row existing of
            Inl e \<Rightarrow> (Inl e, db)
          | Inr current \<Rightarrow>
              if current = r \<and> rc_request_id existing = request_id \<and>
                 rc_provider_receipt_ref existing = provider_receipt_ref \<and>
                 rc_provider_message_ref existing = provider_message_ref \<and>
                 rc_attempt existing = attempt
              then (Inr False, db)
              else (Inl (ValueError ''durable delivery receipt id collision''), db))
     | None \<Rightarrow>
         if \<not> (int64 attempt \<and> int64 (sf_version (dr_sync r))) then (Inl sqlite_overflow, db)
         else (Inr True, db\<lparr>db_receipts := db_receipts db @
           [receipt_to_row r request_id provider_receipt_ref provider_message_ref attempt]\<rparr>))"

record durable_receipt =
  de_receipt :: delivery_receipt
  de_request_id :: string
  de_provider_receipt_ref :: "string option"
  de_provider_message_ref :: "string option"
  de_attempt :: int

definition get_durable_receipt :: "string \<Rightarrow> delivery_db \<Rightarrow> durable_receipt option result" where
  "get_durable_receipt i db = (case find_receipt i db of
      None \<Rightarrow> Inr None
    | Some row \<Rightarrow> bindR (receipt_from_row row) (\<lambda>r. Inr (Some
        \<lparr>de_receipt = r, de_request_id = rc_request_id row,
         de_provider_receipt_ref = rc_provider_receipt_ref row,
         de_provider_message_ref = rc_provider_message_ref row, de_attempt = rc_attempt row\<rparr>)))"

section \<open>Attempts\<close>

definition attempt_checks :: "durable_attempt \<Rightarrow> (bool \<times> py_error) list" where
  "attempt_checks a =
     [(da_attempt_id a = '''', ValueError ''attempt_id must be non-empty''),
      (da_request_id a = '''', ValueError ''request_id must be non-empty''),
      (da_attempt a < 1, ValueError ''attempt must be a positive integer''),
      require_aware_utc (da_started_at a) ''started_at''] @
     (case da_ended_at a of None \<Rightarrow> [] | Some t \<Rightarrow> [require_aware_utc t ''ended_at'']) @
     map (\<lambda>code. (code = '''', ValueError ''reason_codes entries must be non-empty strings''))
       (da_reason_codes a)"

definition record_attempt :: "durable_attempt \<Rightarrow> (delivery_db, bool) prog" where
  "record_attempt a = (\<lambda>db. case raise_first (attempt_checks a) of
      Some e \<Rightarrow> (Inl e, db)
    | None \<Rightarrow> (case find_request (da_request_id a) db of
        None \<Rightarrow> (Inl (ValueError ''unknown delivery request''), db)
      | Some parent \<Rightarrow> (case find_attempt (da_attempt_id a) db of
          Some existing \<Rightarrow>
            if rw_surface_handoff parent = None then (Inr False, db)
            else (case json_loads (at_reason_codes existing) of
                Inl e \<Rightarrow> (Inl e, db)
              | Inr j \<Rightarrow> (case as_list j of
                  None \<Rightarrow> (Inl (ValueError ''durable delivery attempt has malformed reason codes''), db)
                | Some codes \<Rightarrow>
                    if at_request_id existing = da_request_id a \<and> at_attempt existing = da_attempt a \<and>
                       at_started_at existing = da_started_at a \<and> at_ended_at existing = da_ended_at a \<and>
                       at_outcome existing = lifecycle_value (da_outcome a) \<and>
                       at_provider_receipt_ref existing = da_provider_receipt_ref a \<and>
                       codes = map JStr (da_reason_codes a)
                    then (Inr False, db)
                    else (Inl (ValueError
                      ''durable delivery attempt id collision with different evidence''), db)))
        | None \<Rightarrow>
            if \<not> int64 (da_attempt a) then (Inl sqlite_overflow, db)
            else (Inr True, db\<lparr>db_attempts := db_attempts db @ [attempt_to_row a]\<rparr>))))"

definition get_attempt :: "string \<Rightarrow> delivery_db \<Rightarrow> durable_attempt option result" where
  "get_attempt i db = (case find_attempt i db of
      None \<Rightarrow> Inr None
    | Some row \<Rightarrow> bindR (attempt_from_row row) (\<lambda>a. Inr (Some a)))"

definition attempts_for_request :: "string \<Rightarrow> delivery_db \<Rightarrow> durable_attempt list result" where
  "attempts_for_request i db = mapR attempt_from_row
     (sort_key (\<lambda>r. (at_attempt r, at_attempt_id r))
       (filter (\<lambda>r. at_request_id r = i) (db_attempts db)))"

section \<open>The invariant of a file\<close>

definition row_fine :: "hash \<Rightarrow> request_row \<Rightarrow> bool" where
  "row_fine digest r \<longleftrightarrow> is_ok (request_from_row digest r) \<and> is_ok (lifecycle_of (rw_lifecycle_state r)) \<and>
     0 \<le> rw_attempt_count r \<and> validate_sync_payload (rw_sync r) = Inr ()"

definition db_inv :: "hash \<Rightarrow> delivery_db \<Rightarrow> bool" where
  "db_inv digest db \<longleftrightarrow>
     distinct (map rw_request_id (db_requests db)) \<and> list_all (row_fine digest) (db_requests db) \<and>
     distinct (map rc_receipt_id (db_receipts db)) \<and>
     list_all (\<lambda>r. check_receipt_row r = Inr () \<and> is_ok (receipt_from_row r)) (db_receipts db) \<and>
     distinct (map at_attempt_id (db_attempts db)) \<and>
     list_all (\<lambda>r. check_attempt_row r = Inr () \<and> find_request (at_request_id r) db \<noteq> None) (db_attempts db) \<and>
     kill_wf (db_kill_switch db)"

text \<open>What a later version of a row, or of a file, may differ in.\<close>

definition row_le :: "request_row \<Rightarrow> request_row \<Rightarrow> bool" where
  "row_le r r' \<longleftrightarrow> same_request_columns r r' \<and> rw_attempt_count r \<le> rw_attempt_count r' \<and>
     (\<exists>s s'. lifecycle_of (rw_lifecycle_state r) = Inr s \<and> lifecycle_of (rw_lifecycle_state r') = Inr s' \<and>
        lifecycle_reach s s')"

definition db_le :: "delivery_db \<Rightarrow> delivery_db \<Rightarrow> bool" where
  "db_le db db' \<longleftrightarrow> (\<forall>i r. find_request i db = Some r \<longrightarrow> (\<exists>r'. find_request i db' = Some r' \<and> row_le r r'))"

lemma row_fine_le: "row_fine digest r \<Longrightarrow> row_le r r' \<Longrightarrow> row_fine digest r'"
  using request_from_same_columns [of r r' digest] by (auto simp: row_fine_def row_le_def same_request_columns_def)

lemma row_le_refl: "row_fine digest r \<Longrightarrow> row_le r r"
  by (cases "lifecycle_of (rw_lifecycle_state r)")
    (auto simp: row_fine_def row_le_def same_request_columns_def intro: lifecycle_reach.here)

lemma row_le_trans: "row_le a b \<Longrightarrow> row_le b c \<Longrightarrow> row_le a c"
  by (auto simp: row_le_def same_request_columns_def intro: lifecycle_reach_trans)

lemma find_request_row: "db_inv digest db \<Longrightarrow> find_request i db = Some r \<Longrightarrow> row_fine digest r \<and> rw_request_id r = i"
  using find_key_Some [of rw_request_id i] by (auto simp: db_inv_def find_request_def list_all_iff)

lemma db_le_refl: "db_inv digest db \<Longrightarrow> db_le db db"
  using find_request_row row_le_refl by (fastforce simp: db_le_def)

lemma db_le_trans: "db_le a b \<Longrightarrow> db_le b c \<Longrightarrow> db_le a c"
  unfolding db_le_def using row_le_trans by meson

lemma db_le_same_requests: "db_inv digest db \<Longrightarrow> db_requests db' = db_requests db \<Longrightarrow> db_le db db'"
  using db_le_refl [of digest db] by (simp add: db_le_def find_request_def)

section \<open>Operations keep the invariant\<close>

lemma find_update_request:
  assumes "\<And>x. rw_request_id (f x) = rw_request_id x"
  shows "find_request j (update_request i f db) =
    (if j = i then map_option f (find_request i db) else find_request j db)"
  using find_map_update [of rw_request_id f i] find_map_other [of rw_request_id f i j] assms
  by (simp add: find_request_def update_request_def)

lemma update_row_step:
  assumes inv: "db_inv digest db" and r: "find_request i db = Some r"
    and key: "\<And>x. rw_request_id (f x) = rw_request_id x" and le: "row_le r (f r)"
  shows "db_inv digest (update_request i f db) \<and> db_le db (update_request i f db)"
proof
  have uniq: "x = r" if "x \<in> set (db_requests db)" "rw_request_id x = i" for x
  proof -
    have "distinct (map rw_request_id (db_requests db))" using inv by (simp add: db_inv_def)
    from find_distinct_key [OF this that(1)] that(2) r show ?thesis by (simp add: find_request_def)
  qed
  have "row_fine digest (f r)" using find_request_row [OF inv r] le row_fine_le by blast
  then have "list_all (row_fine digest) (db_requests (update_request i f db))"
    using inv uniq by (auto simp: update_request_def list_all_iff db_inv_def)
  moreover have "map rw_request_id (db_requests (update_request i f db)) = map rw_request_id (db_requests db)"
    using map_key_update [of rw_request_id f i, OF key] by (simp add: update_request_def)
  moreover have "find_request j (update_request i f db) \<noteq> None \<longleftrightarrow> find_request j db \<noteq> None" for j
    using find_update_request [of f, OF key] by auto
  moreover have "db_receipts (update_request i f db) = db_receipts db"
    "db_attempts (update_request i f db) = db_attempts db"
    "db_kill_switch (update_request i f db) = db_kill_switch db"
    by (simp_all add: update_request_def)
  ultimately show "db_inv digest (update_request i f db)"
    using inv by (simp add: db_inv_def)
  have "row_le x x" if "find_request j db = Some x" for j x
    using find_request_row [OF inv that] row_le_refl by blast
  then show "db_le db (update_request i f db)"
    using le r find_update_request [of f, OF key] by (auto simp: db_le_def)
qed

lemma row_le_metadata:
  assumes "row_fine digest r" and "same_request_columns r r'" and "rw_attempt_count r \<le> rw_attempt_count r'"
    and "rw_lifecycle_state r' = rw_lifecycle_state r"
  shows "row_le r r'"
  using assms by (cases "lifecycle_of (rw_lifecycle_state r)")
    (auto simp: row_fine_def row_le_def intro: lifecycle_reach.here)

definition db_grows :: "hash \<Rightarrow> delivery_db \<Rightarrow> delivery_db \<Rightarrow> bool" where
  "db_grows digest db db' \<longleftrightarrow> (db_inv digest db \<longrightarrow> db_inv digest db' \<and> db_le db db')"

lemma db_grows_refl [intro]: "db_grows digest db db"
  by (simp add: db_grows_def db_le_refl)

lemma db_grows_trans: "db_grows digest a b \<Longrightarrow> db_grows digest b c \<Longrightarrow> db_grows digest a c"
  by (auto simp: db_grows_def intro: db_le_trans)

lemma grows_metadata:
  assumes "find_request i db = Some r" and "\<And>x. rw_request_id (f x) = rw_request_id x"
    and "\<And>x. same_request_columns x (f x)" and "rw_attempt_count r \<le> rw_attempt_count (f r)"
    and "rw_lifecycle_state (f r) = rw_lifecycle_state r"
  shows "db_grows digest db (update_request i f db)"
  unfolding db_grows_def
proof
  assume inv: "db_inv digest db"
  have "row_le r (f r)" using row_le_metadata assms find_request_row [OF inv assms(1)] by blast
  with inv assms show "db_inv digest (update_request i f db) \<and> db_le db (update_request i f db)"
    using update_row_step by blast
qed

lemma increment_attempt_grows: "db_grows digest db (snd (increment_attempt i tm db))"
  by (auto simp: increment_attempt_def same_request_columns_def Let_def
      split: option.splits intro!: grows_metadata)

lemma record_reconcile_grows: "db_grows digest db (snd (record_reconcile i tm db))"
  by (auto simp: record_reconcile_def same_request_columns_def split: option.splits intro!: grows_metadata)

lemma record_ref_grows: "db_grows digest db (snd (record_provider_receipt_ref i ref db))"
  by (auto simp: record_provider_receipt_ref_def same_request_columns_def
      split: option.splits intro!: grows_metadata)

lemma set_lifecycle_grows: "db_grows digest db (snd (set_lifecycle_state i new tm db))"
proof -
  let ?f = "\<lambda>r. r\<lparr>rw_lifecycle_state := lifecycle_value new\<rparr>"
  have "db_grows digest db (update_request i ?f db)"
    if r: "find_request i db = Some r" and cur: "lifecycle_of (rw_lifecycle_state r) = Inr cur"
      and v: "validate_transition cur new = Inr ()" for r cur
  proof -
    have "row_le r (?f r)" using cur v lifecycle_reach.more [OF lifecycle_reach.here move]
      by (auto simp: row_le_def same_request_columns_def)
    with r show ?thesis unfolding db_grows_def using update_row_step [of digest db i r ?f] by simp
  qed
  then show ?thesis
    by (cases "find_request i db")
      (auto simp: set_lifecycle_state_def bindR_def split: sum.splits)
qed


lemma scope_domain_value_nonempty [simp]: "scope_domain_value d \<noteq> []"
  by (cases d) simp_all

lemma new_request_fine:
  assumes "delivery_request_valid digest q"
  shows "row_fine digest (request_to_row q st)"
proof -
  have "validate_sync_payload (rw_sync (request_to_row q st)) = Inr ()"
    using assms by (auto simp: request_to_row_def delivery_request_valid_iff non_empty_not_Nil
        intro!: sync_json_payload_ok)
  then show ?thesis using request_row_reads_back [OF assms, of st]
    by (simp add: row_fine_def) (simp add: request_to_row_def)
qed

lemma request_to_row_simps [simp]:
  "rw_request_id (request_to_row q st) = rq_request_id q"
  "rw_lifecycle_state (request_to_row q st) = lifecycle_value st"
  "rw_attempt_count (request_to_row q st) = 0"
  "rw_last_attempt_at (request_to_row q st) = None"
  "rw_last_reconcile_at (request_to_row q st) = None"
  "rw_last_provider_receipt_ref (request_to_row q st) = None"
  by (simp_all add: request_to_row_def)

lemma find_None_key: "find (\<lambda>r. key r = k) rows = None \<longleftrightarrow> k \<notin> key ` set rows"
  by (auto simp: find_None_iff)

lemma record_request_grows:
  assumes v: "delivery_request_valid digest q"
  shows "db_grows digest db (snd (record_request digest q st db))"
proof (cases "find_request (rq_request_id q) db")
  case (Some r)
  then show ?thesis by (auto simp: record_request_def split: sum.splits)
next
  case None
  let ?db = "db\<lparr>db_requests := db_requests db @ [request_to_row q st]\<rparr>"
  have find: "find_request j ?db = (case find_request j db of
      None \<Rightarrow> if j = rq_request_id q then Some (request_to_row q st) else None | Some r \<Rightarrow> Some r)" for j
    by (simp add: find_request_def find_append split: option.split)
  have "db_inv digest ?db" if inv: "db_inv digest db"
  proof -
    have "rq_request_id q \<notin> rw_request_id ` set (db_requests db)"
      using None by (simp add: find_request_def find_None_key)
    moreover have "find_request j ?db \<noteq> None" if "find_request j db \<noteq> None" for j
      using that by (auto simp: find)
    ultimately show ?thesis
      using inv new_request_fine [OF v, of st]
      by (simp add: db_inv_def list_all_iff)
  qed
  moreover have "db_le db ?db" if "db_inv digest db"
    using find_request_row [OF that] row_le_refl by (fastforce simp: db_le_def find)
  ultimately show ?thesis using None by (simp add: record_request_def db_grows_def db_le_refl)
qed

lemma new_receipt_checked:
  assumes "delivery_receipt_valid r"
  shows "check_receipt_row (receipt_to_row r i pr pm n) = Inr ()"
proof -
  have "validate_sync_payload (rc_sync (receipt_to_row r i pr pm n)) = Inr ()"
    using assms by (auto simp: receipt_to_row_def delivery_receipt_valid_iff non_empty_not_Nil
        intro!: sync_json_payload_ok)
  moreover have "rc_delivery_status (receipt_to_row r i pr pm n) = delivery_status_value (dr_delivery_status r)"
    by (simp add: receipt_to_row_def)
  ultimately show ?thesis by (simp add: check_receipt_row_def)
qed

lemma grows_receipts:
  assumes "check_receipt_row r = Inr ()" and "is_ok (receipt_from_row r)"
    and "find_receipt (rc_receipt_id r) db = None"
  shows "db_grows digest db (db\<lparr>db_receipts := db_receipts db @ [r]\<rparr>)"
  using assms db_le_same_requests [of digest db "db\<lparr>db_receipts := db_receipts db @ [r]\<rparr>"]
  by (auto simp: db_grows_def db_inv_def find_receipt_def find_None_key find_request_def)

lemma record_receipt_grows:
  assumes "delivery_receipt_valid r"
  shows "db_grows digest db (snd (record_receipt r i pr pm n db))"
proof -
  have "rc_receipt_id (receipt_to_row r i pr pm n) = dr_receipt_id r" by (simp add: receipt_to_row_def)
  then show ?thesis
    using grows_receipts [OF new_receipt_checked [OF assms], of i pr pm n db digest]
      receipt_row_reads_back [OF assms, of i pr pm n]
    by (auto simp: record_receipt_def split: option.splits sum.splits)
qed

lemma grows_attempts:
  assumes "check_attempt_row r = Inr ()" and "find_attempt (at_attempt_id r) db = None"
    and "find_request (at_request_id r) db \<noteq> None"
  shows "db_grows digest db (db\<lparr>db_attempts := db_attempts db @ [r]\<rparr>)"
  using assms db_le_same_requests [of digest db "db\<lparr>db_attempts := db_attempts db @ [r]\<rparr>"]
  by (auto simp: db_grows_def db_inv_def find_attempt_def find_None_key find_request_def list_all_iff)

lemma record_attempt_grows: "db_grows digest db (snd (record_attempt a db))"
proof -
  have c: "check_attempt_row (attempt_to_row a) = Inr ()" "at_attempt_id (attempt_to_row a) = da_attempt_id a"
    "at_request_id (attempt_to_row a) = da_request_id a"
    by (simp_all add: check_attempt_row_def attempt_to_row_def)
  show ?thesis
    using grows_attempts [OF c(1), of db digest] c(2,3)
    by (auto simp: record_attempt_def split: option.splits sum.splits)
qed

lemma kill_op_grows:
  assumes "kill_op_ok oper"
  shows "db_grows digest db (db\<lparr>db_kill_switch := snd (kill_run oper tm (db_kill_switch db))\<rparr>)"
proof -
  have "kill_wf (snd (kill_run oper tm t))" if "kill_wf t" for t
    using kill_run_refines [OF that assms, of tm] by auto
  then show ?thesis
    using db_le_same_requests [of digest db "db\<lparr>db_kill_switch := snd (kill_run oper tm (db_kill_switch db))\<rparr>"]
    by (auto simp: db_grows_def db_inv_def find_request_def)
qed

lemma mapR_checks: "list_all (\<lambda>r. f r = Inr ()) rows \<Longrightarrow> mapR f rows = Inr (map (\<lambda>_. ()) rows)"
  by (rule mapR_all_ok) (simp add: list_all_iff)

lemma open_backend_inv:
  assumes "db_inv digest db"
  shows "open_backend tm db = Inr db"
proof -
  have "check_request_row r = Inr ()" if "row_fine digest r" for r
    using that by (cases "lifecycle_of (rw_lifecycle_state r)") (simp_all add: row_fine_def check_request_row_def)
  then have "list_all (\<lambda>r. check_request_row r = Inr ()) (db_requests db)"
    using assms by (auto simp: db_inv_def list_all_iff)
  moreover have "list_all (\<lambda>r. check_attempt_row r = Inr ()) (db_attempts db)"
    "list_all (\<lambda>r. check_receipt_row r = Inr ()) (db_receipts db)"
    using assms by (simp_all add: db_inv_def list_all_iff)
  ultimately show ?thesis
    using assms by (simp add: open_backend_def mapR_checks db_inv_def)
qed

lemma open_backend_grows: "open_backend tm db = Inr db' \<Longrightarrow> db_grows digest db db'"
  unfolding db_grows_def using open_backend_inv [of digest db tm] db_le_refl [of digest db] by auto

lemma open_new_backend: "\<exists>db. open_backend tm empty_delivery_db = Inr db \<and> db_inv digest db"
  using fresh_table [of tm] by (simp add: open_backend_def empty_delivery_db_def db_inv_def)


section \<open>Histories of a file\<close>

inductive backend_step :: "hash \<Rightarrow> delivery_db \<Rightarrow> delivery_db \<Rightarrow> bool" for digest where
  request: "delivery_request_valid digest q \<Longrightarrow> record_request digest q st db = (a, db') \<Longrightarrow>
    backend_step digest db db'"
| lifecycle: "set_lifecycle_state i st tm db = (b, db') \<Longrightarrow> backend_step digest db db'"
| increment: "increment_attempt i tm db = (c, db') \<Longrightarrow> backend_step digest db db'"
| reconcile: "record_reconcile i tm db = (b, db') \<Longrightarrow> backend_step digest db db'"
| provider_ref: "record_provider_receipt_ref i ref db = (b, db') \<Longrightarrow> backend_step digest db db'"
| receipt: "delivery_receipt_valid r \<Longrightarrow> record_receipt r i pr pm n db = (a, db') \<Longrightarrow>
    backend_step digest db db'"
| attempt: "record_attempt t db = (a, db') \<Longrightarrow> backend_step digest db db'"
| kill: "kill_op_ok oper \<Longrightarrow>
    backend_step digest db (db\<lparr>db_kill_switch := snd (kill_run oper tm (db_kill_switch db))\<rparr>)"
| reopen: "open_backend tm db = Inr db' \<Longrightarrow> backend_step digest db db'"

inductive backend_reach :: "hash \<Rightarrow> delivery_db \<Rightarrow> delivery_db \<Rightarrow> bool" for digest where
  none: "backend_reach digest db db"
| more: "backend_reach digest db db' \<Longrightarrow> backend_step digest db' db'' \<Longrightarrow> backend_reach digest db db''"

definition delivery_file :: "hash \<Rightarrow> delivery_db \<Rightarrow> bool" where
  "delivery_file digest db \<longleftrightarrow>
     (\<exists>tm db0. open_backend tm empty_delivery_db = Inr db0 \<and> backend_reach digest db0 db)"

lemma backend_step_grows: "backend_step digest db db' \<Longrightarrow> db_grows digest db db'"
proof (induction rule: backend_step.induct)
  case (request q st db a db')
  then show ?case using record_request_grows [of digest q db st] by simp
next
  case (lifecycle i st tm db b db')
  then show ?case using set_lifecycle_grows [of digest db i st tm] by simp
next
  case (increment i tm db c db')
  then show ?case using increment_attempt_grows [of digest db i tm] by simp
next
  case (reconcile i tm db b db')
  then show ?case using record_reconcile_grows [of digest db i tm] by simp
next
  case (provider_ref i ref db b db')
  then show ?case using record_ref_grows [of digest db i ref] by simp
next
  case (receipt r i pr pm n db a db')
  then show ?case using record_receipt_grows [of r digest db i pr pm n] by simp
next
  case (attempt t db a db')
  then show ?case using record_attempt_grows [of digest db t] by simp
qed (simp_all add: kill_op_grows open_backend_grows)

lemma backend_reach_grows: "backend_reach digest db db' \<Longrightarrow> db_grows digest db db'"
  by (induction rule: backend_reach.induct) (auto intro: db_grows_trans backend_step_grows)

lemma delivery_file_inv: "delivery_file digest db \<Longrightarrow> db_inv digest db"
  using open_new_backend backend_reach_grows open_backend_grows
  by (auto simp: delivery_file_def db_grows_def) (metis Inr_inject open_new_backend)

lemma delivery_file_reach: "delivery_file digest db \<Longrightarrow> backend_reach digest db db' \<Longrightarrow> delivery_file digest db'"
proof -
  have "backend_reach digest b c \<Longrightarrow> backend_reach digest a b \<Longrightarrow> backend_reach digest a c" for a b c
    by (induction rule: backend_reach.induct) (auto intro: backend_reach.more)
  then show "delivery_file digest db \<Longrightarrow> backend_reach digest db db' \<Longrightarrow> delivery_file digest db'"
    unfolding delivery_file_def by blast
qed

text \<open>A fine row reads back as a durable request.\<close>

lemma durable_row:
  assumes "row_fine digest r"
  obtains d where "durable_from_row digest r = Inr d" "request_from_row digest r = Inr (du_request d)"
    "lifecycle_of (rw_lifecycle_state r) = Inr (du_lifecycle_state d)"
    "du_attempt_count d = rw_attempt_count r" "rq_request_id (du_request d) = rw_request_id r"
    "delivery_request_valid digest (du_request d)"
proof -
  from assms obtain q s where q: "request_from_row digest r = Inr q" and s: "lifecycle_of (rw_lifecycle_state r) = Inr s"
    by (auto simp: row_fine_def isl_def) (metis sum.exhaust)
  note request_from_row_valid [OF q]
  moreover have "durable_from_row digest r = Inr \<lparr>du_request = q, du_lifecycle_state = s,
      du_attempt_count = rw_attempt_count r, du_last_attempt_at = rw_last_attempt_at r,
      du_last_reconcile_at = rw_last_reconcile_at r,
      du_last_provider_receipt_ref = rw_last_provider_receipt_ref r\<rparr>" (is "_ = Inr ?d")
    using q s by (simp add: durable_from_row_def)
  ultimately show thesis using q s that [of ?d] by simp
qed

lemma get_durable_iff:
  assumes "db_inv digest db"
  shows "get_durable_request digest i db = Inr (Some d) \<longleftrightarrow>
    (\<exists>r. find_request i db = Some r \<and> durable_from_row digest r = Inr d)"
  by (auto simp: get_durable_request_def bindR_Inr_iff split: option.splits)

lemma get_durable_total: "db_inv digest db \<Longrightarrow>
  (case get_durable_request digest i db of Inl e \<Rightarrow> False | Inr None \<Rightarrow> find_request i db = None
   | Inr (Some d) \<Rightarrow> find_request i db \<noteq> None)"
  by (cases "find_request i db")
    (auto simp: get_durable_request_def dest!: find_request_row elim!: durable_row)

lemma durable_le:
  assumes "row_le r r'" and d: "durable_from_row digest r = Inr d" and fine: "row_fine digest r"
  shows "\<exists>d'. durable_from_row digest r' = Inr d' \<and> du_request d' = du_request d \<and>
    lifecycle_reach (du_lifecycle_state d) (du_lifecycle_state d') \<and> du_attempt_count d \<le> du_attempt_count d'"
proof -
  have "row_fine digest r'" using assms row_fine_le by blast
  then obtain d' where "durable_from_row digest r' = Inr d'"
    "request_from_row digest r' = Inr (du_request d')"
    "lifecycle_of (rw_lifecycle_state r') = Inr (du_lifecycle_state d')"
    "du_attempt_count d' = rw_attempt_count r'"
    by (rule durable_row)
  moreover obtain e where "durable_from_row digest r = Inr e"
    "request_from_row digest r = Inr (du_request e)"
    "lifecycle_of (rw_lifecycle_state r) = Inr (du_lifecycle_state e)"
    "du_attempt_count e = rw_attempt_count r"
    using fine by (rule durable_row)
  ultimately show ?thesis
    using assms(1) d request_from_same_columns [of r r' digest] by (auto simp: row_le_def)
qed

lemma terminal_reach: "lifecycle_reach s t \<Longrightarrow> is_terminal s \<Longrightarrow> t = s"
  by (induction rule: lifecycle_reach.induct) (auto dest: terminal_step)

lemma db_le_durable:
  assumes "db_inv digest db" and "db_le db db'" and "get_durable_request digest i db = Inr (Some d)"
  shows "\<exists>d'. get_durable_request digest i db' = Inr (Some d') \<and> du_request d' = du_request d \<and>
    lifecycle_reach (du_lifecycle_state d) (du_lifecycle_state d') \<and> du_attempt_count d \<le> du_attempt_count d'"
proof -
  from assms get_durable_iff obtain r where r: "find_request i db = Some r" "durable_from_row digest r = Inr d"
    by blast
  with assms(2) obtain r' where r': "find_request i db' = Some r'" "row_le r r'"
    by (auto simp: db_le_def)
  from durable_le [OF r'(2) r(2)] find_request_row [OF assms(1) r(1)] obtain d' where
    "durable_from_row digest r' = Inr d'" "du_request d' = du_request d"
    "lifecycle_reach (du_lifecycle_state d) (du_lifecycle_state d')" "du_attempt_count d \<le> du_attempt_count d'"
    by blast
  with r' show ?thesis by (auto simp: get_durable_request_def)
qed

text \<open>
  C6. Durability across the whole life of a delivery file. Along any history of recorded requests,
  lifecycle moves, attempts, receipts, reconciliations, kill-switch changes and reopenings, each of
  which may fail, the file can be reopened, a recorded request is still there with the same content,
  its lifecycle state is one the transition table leads to, a terminal state is never left, and its
  attempt counter never goes down.
\<close>

theorem delivery_history_durable:
  assumes "delivery_file digest db" and "backend_reach digest db db'"
    and "get_durable_request digest i db = Inr (Some d)"
  shows "open_backend tm db' = Inr db' \<and>
    (\<exists>d'. get_durable_request digest i db' = Inr (Some d') \<and> du_request d' = du_request d \<and>
       lifecycle_reach (du_lifecycle_state d) (du_lifecycle_state d') \<and>
       (is_terminal (du_lifecycle_state d) \<longrightarrow> du_lifecycle_state d' = du_lifecycle_state d) \<and>
       du_attempt_count d \<le> du_attempt_count d')"
proof
  have "db_inv digest db'" using assms delivery_file_reach delivery_file_inv by blast
  then show "open_backend tm db' = Inr db'" by (rule open_backend_inv)
next
  have inv: "db_inv digest db" using assms(1) by (rule delivery_file_inv)
  with backend_reach_grows [OF assms(2)] have "db_le db db'" by (simp add: db_grows_def)
  from db_le_durable [OF inv this assms(3)] terminal_reach show
    "\<exists>d'. get_durable_request digest i db' = Inr (Some d') \<and> du_request d' = du_request d \<and>
       lifecycle_reach (du_lifecycle_state d) (du_lifecycle_state d') \<and>
       (is_terminal (du_lifecycle_state d) \<longrightarrow> du_lifecycle_state d' = du_lifecycle_state d) \<and>
       du_attempt_count d \<le> du_attempt_count d'"
    by blast
qed


text \<open>A small file with one plain request and one Surface handoff.\<close>

definition new_file :: delivery_db where
  "new_file = empty_delivery_db\<lparr>db_kill_switch := ensure_kill_switch_schema (utc 0) None\<rparr>"

definition sample_file :: delivery_db where
  "sample_file = new_file\<lparr>db_requests := [request_to_row (sample_request ''q1'' None) PENDING,
     request_to_row (sample_request ''q2'' (Some (sample_handoff ''d''))) PENDING]\<rparr>"

lemma new_file_opens: "open_backend (utc 0) empty_delivery_db = Inr new_file"
  by (simp add: open_backend_def empty_delivery_db_def new_file_def)

lemma sample_requests_ok:
  "delivery_request_valid (\<lambda>b. ''d'') (sample_request ''q1'' None)"
  "delivery_request_valid (\<lambda>b. ''d'') (sample_request ''q2'' (Some (sample_handoff ''d'')))"
  by (simp_all add: sample_request_valid non_empty_eval)

lemma sample_request_fits: "int64 (sf_version (rq_sync (sample_request i h)))"
  by (simp add: sample_request_def mk_sync_def int64_def)

lemma sample_file_is_file: "delivery_file (\<lambda>b. ''d'') sample_file"
proof -
  let ?q1 = "sample_request ''q1'' None" and ?q2 = "sample_request ''q2'' (Some (sample_handoff ''d''))"
  let ?m = "new_file\<lparr>db_requests := [request_to_row ?q1 PENDING]\<rparr>"
  have "record_request (\<lambda>b. ''d'') ?q1 PENDING new_file = (Inr True, ?m)"
    by (simp add: record_request_def find_request_def new_file_def empty_delivery_db_def sample_request_fits)
  then have "backend_step (\<lambda>b. ''d'') new_file ?m" using sample_requests_ok by (blast intro: request)
  moreover have "rq_request_id ?q1 \<noteq> rq_request_id ?q2" by (simp add: sample_request_def)
  then have "record_request (\<lambda>b. ''d'') ?q2 PENDING ?m = (Inr True, sample_file)"
    by (simp add: record_request_def find_request_def sample_file_def sample_request_fits)
  then have "backend_step (\<lambda>b. ''d'') ?m sample_file" using sample_requests_ok by (blast intro: request)
  ultimately have "backend_reach (\<lambda>b. ''d'') new_file sample_file"
    by (blast intro: backend_reach.intros)
  then show ?thesis using new_file_opens by (auto simp: delivery_file_def)
qed

lemma sample_file_get:
  "get_durable_request (\<lambda>b. ''d'') ''q1'' sample_file = Inr (Some
    \<lparr>du_request = sample_request ''q1'' None, du_lifecycle_state = PENDING, du_attempt_count = 0,
     du_last_attempt_at = None, du_last_reconcile_at = None, du_last_provider_receipt_ref = None\<rparr>)"
proof -
  have "find_request ''q1'' sample_file = Some (request_to_row (sample_request ''q1'' None) PENDING)"
    by (simp add: find_request_def sample_file_def sample_request_def)
  then show ?thesis
    using request_row_reads_back [OF sample_requests_ok(1), of PENDING]
    by (simp add: get_durable_request_def durable_from_row_def)
qed

theorem delivery_history_durable_witness:
  "\<exists>d. get_durable_request (\<lambda>b. ''d'') ''q1''
      (snd (set_lifecycle_state ''q1'' IN_FLIGHT (utc 9) sample_file)) = Inr (Some d) \<and>
    du_request d = sample_request ''q1'' None \<and> 0 \<le> du_attempt_count d"
proof -
  let ?db = "snd (set_lifecycle_state ''q1'' IN_FLIGHT (utc 9) sample_file)"
  have "backend_step (\<lambda>b. ''d'') sample_file ?db" by (rule lifecycle) (rule surjective_pairing)
  then have "backend_reach (\<lambda>b. ''d'') sample_file ?db" by (blast intro: backend_reach.intros)
  from delivery_history_durable [OF sample_file_is_file this sample_file_get, of "utc 0"]
  show ?thesis by auto
qed

text \<open>
  C24. Recording a request is idempotent and fails closed. On a file in its invariant: a new
  request is appended and read back in the state it was recorded with, with no attempts, unless its
  sync version does not fit the column, which raises and writes nothing; the same request again is a
  no-op; a different request under a recorded id is refused and nothing is written.
\<close>

theorem record_request_outcomes:
  assumes "db_inv digest db" and "delivery_request_valid digest q"
  shows "case get_durable_request digest (rq_request_id q) db of
      Inl e \<Rightarrow> False
    | Inr None \<Rightarrow> if \<not> int64 (sf_version (rq_sync q))
        then record_request digest q st db = (Inl sqlite_overflow, db)
        else (\<exists>db' d. record_request digest q st db = (Inr True, db') \<and>
        get_durable_request digest (rq_request_id q) db' = Inr (Some d) \<and> du_request d = q \<and>
        du_lifecycle_state d = st \<and> du_attempt_count d = 0 \<and> db_requests db' \<noteq> db_requests db)
    | Inr (Some d) \<Rightarrow> record_request digest q st db =
        (if du_request d = q then Inr False
         else Inl (ValueError ''durable delivery request id collision''), db)"
proof (cases "find_request (rq_request_id q) db")
  case (Some r)
  with assms(1) find_request_row obtain d where
    "durable_from_row digest r = Inr d" "request_from_row digest r = Inr (du_request d)"
    by (meson durable_row)
  with Some show ?thesis by (simp add: get_durable_request_def record_request_def)
next
  case None
  let ?db = "db\<lparr>db_requests := db_requests db @ [request_to_row q st]\<rparr>"
  have "find_request (rq_request_id q) ?db = Some (request_to_row q st)"
    using None by (simp add: find_request_def find_append)
  with None request_row_reads_back [OF assms(2), of st] show ?thesis
    by (simp add: record_request_def get_durable_request_def durable_from_row_def)
qed

theorem record_request_outcomes_witness:
  "record_request (\<lambda>b. ''d'') (sample_request ''q1'' None) PENDING sample_file = (Inr False, sample_file)"
proof -
  have "rq_request_id (sample_request ''q1'' None) = ''q1''" by (simp add: sample_request_def)
  with record_request_outcomes [OF delivery_file_inv [OF sample_file_is_file] sample_requests_ok(1), of PENDING]
  show ?thesis by (simp add: sample_file_get)
qed

text \<open>
  C25. A lifecycle move is exactly as legal as the table says. For a recorded request the call returns
  iff the timestamp is aware UTC and the table allows the move; then the request reads back in the new
  state with everything else unchanged and no other request is touched; otherwise it raises and
  the file is unchanged.
\<close>

theorem set_lifecycle_outcomes:
  assumes "db_inv digest db" and "get_durable_request digest i db = Inr (Some d)"
  shows "if is_aware_utc tm \<and> validate_transition (du_lifecycle_state d) new = Inr ()
    then \<exists>db'. set_lifecycle_state i new tm db = (Inr (), db') \<and>
      get_durable_request digest i db' = Inr (Some (d\<lparr>du_lifecycle_state := new\<rparr>)) \<and>
      (\<forall>j. j \<noteq> i \<longrightarrow> get_durable_request digest j db' = get_durable_request digest j db)
    else \<exists>e. set_lifecycle_state i new tm db = (Inl e, db)"
proof -
  from assms get_durable_iff obtain r where r: "find_request i db = Some r" "durable_from_row digest r = Inr d"
    by blast
  let ?f = "\<lambda>r. r\<lparr>rw_lifecycle_state := lifecycle_value new\<rparr>"
  have "request_from_row digest (?f r) = request_from_row digest r"
    by (rule request_from_same_columns) (simp add: same_request_columns_def)
  with r have "durable_from_row digest (?f r) = Inr (d\<lparr>du_lifecycle_state := new\<rparr>)"
    by (auto simp: durable_from_row_def bindR_Inr_iff)
  moreover from r have "lifecycle_of (rw_lifecycle_state r) = Inr (du_lifecycle_state d)"
    by (auto simp: durable_from_row_def bindR_Inr_iff)
  moreover have "find_request j (update_request i ?f db) =
      (if j = i then map_option ?f (find_request i db) else find_request j db)" for j
    by (rule find_update_request) simp
  ultimately show ?thesis
    using r by (auto simp: set_lifecycle_state_def get_durable_request_def split: sum.splits)
qed

theorem set_lifecycle_outcomes_witness:
  "\<exists>e. set_lifecycle_state ''q1'' ACCEPTED (utc 1) sample_file = (Inl e, sample_file)"
  using set_lifecycle_outcomes [OF delivery_file_inv [OF sample_file_is_file] sample_file_get, of "utc 1" ACCEPTED]
  by (simp add: validate_transition_def)


section \<open>The backlog\<close>

lemma mapR_fine:
  assumes "list_all (row_fine digest) rows"
  shows "\<exists>ds. mapR (durable_from_row digest) rows = Inr ds \<and>
    list_all2 (\<lambda>r d. durable_from_row digest r = Inr d) rows ds"
  using assms
proof (induction rows)
  case (Cons r rows)
  then obtain d ds where "durable_from_row digest r = Inr d" "mapR (durable_from_row digest) rows = Inr ds"
    "list_all2 (\<lambda>r d. durable_from_row digest r = Inr d) rows ds"
    by (auto elim: durable_row)
  then show ?case by auto
qed simp

lemma durable_from_row_fields:
  "durable_from_row digest r = Inr d \<Longrightarrow> rq_request_id (du_request d) = rw_request_id r \<and>
    rw_lifecycle_state r = lifecycle_value (du_lifecycle_state d)"
  using request_from_row_valid(2) enum_of_Inr
  by (fastforce simp: durable_from_row_def bindR_Inr_iff lifecycle_of_def)

lemma durable_ids: "list_all2 (\<lambda>r d. durable_from_row digest r = Inr d) rows ds \<Longrightarrow>
    map (\<lambda>d. rq_request_id (du_request d)) ds = map rw_request_id rows"
  by (induction rule: list_all2_induct) (auto dest: durable_from_row_fields)

lemma durable_members: "list_all2 (\<lambda>r d. durable_from_row digest r = Inr d) rows ds \<Longrightarrow>
    d \<in> set ds \<longleftrightarrow> (\<exists>r \<in> set rows. durable_from_row digest r = Inr d)"
  by (induction rule: list_all2_induct) auto

lemma unfinished_row: "durable_from_row digest r = Inr d \<Longrightarrow>
    rw_lifecycle_state r \<notin> {lifecycle_value ACCEPTED, lifecycle_value REJECTED} \<longleftrightarrow>
      \<not> is_terminal (du_lifecycle_state d)"
  by (auto dest!: durable_from_row_fields simp: is_terminal_def)

lemma unfinished_spec:
  assumes inv: "db_inv digest db"
  shows "\<exists>ds. unfinished_requests digest db = Inr ds \<and>
    sorted (map (\<lambda>d. rq_request_id (du_request d)) ds) \<and>
    distinct (map (\<lambda>d. rq_request_id (du_request d)) ds) \<and>
    (\<forall>d. d \<in> set ds \<longleftrightarrow> get_durable_request digest (rq_request_id (du_request d)) db = Inr (Some d) \<and>
       \<not> is_terminal (du_lifecycle_state d))"
proof -
  let ?open = "\<lambda>r. rw_lifecycle_state r \<notin> {lifecycle_value ACCEPTED, lifecycle_value REJECTED}"
  let ?rows = "sort_key rw_request_id (filter ?open (db_requests db))"
  have "list_all (row_fine digest) ?rows" using inv by (simp add: db_inv_def list_all_iff)
  then obtain ds where ds: "mapR (durable_from_row digest) ?rows = Inr ds"
    "list_all2 (\<lambda>r d. durable_from_row digest r = Inr d) ?rows ds" using mapR_fine by blast
  have ids: "map (\<lambda>d. rq_request_id (du_request d)) ds = map rw_request_id ?rows"
    using durable_ids [OF ds(2)] .
  have dist: "distinct (map rw_request_id (db_requests db))" using inv by (simp add: db_inv_def)
  then have "distinct (map rw_request_id ?rows)"
    by (simp add: distinct_map inj_on_def)
  moreover have "d \<in> set ds \<longleftrightarrow> get_durable_request digest (rq_request_id (du_request d)) db = Inr (Some d) \<and>
      \<not> is_terminal (du_lifecycle_state d)" for d
  proof -
    have find: "find_request (rw_request_id r) db = Some r" if "r \<in> set (db_requests db)" for r
      using find_distinct_key [OF dist that] by (simp add: find_request_def)
    have mem: "r \<in> set (db_requests db)" if "find_request i db = Some r" for r i
      using that find_key_Some [of rw_request_id i "db_requests db" r] by (simp add: find_request_def)
    have "d \<in> set ds \<longleftrightarrow> (\<exists>r \<in> set (db_requests db). durable_from_row digest r = Inr d \<and>
        \<not> is_terminal (du_lifecycle_state d))"
      using unfinished_row by (auto simp: durable_members [OF ds(2)])
    then show ?thesis
      using get_durable_iff [OF inv, of "rq_request_id (du_request d)" d] find mem durable_from_row_fields
      by (metis (no_types, lifting))
  qed
  ultimately show ?thesis
    using ds(1) ids by (auto simp: unfinished_requests_def)
qed

text \<open>
  Restart discovery misses nothing. On every delivery file \<open>unfinished_requests\<close> returns, without
  raising, the recorded requests that are not terminal, each exactly once and in the order of their
  request ids, each with the content and state stored for it.
\<close>

theorem unfinished_requests_complete:
  assumes "delivery_file digest db"
  obtains ds where "unfinished_requests digest db = Inr ds"
    and "sorted (map (\<lambda>d. rq_request_id (du_request d)) ds)"
    and "distinct (map (\<lambda>d. rq_request_id (du_request d)) ds)"
    and "\<And>d. d \<in> set ds \<longleftrightarrow> get_durable_request digest (rq_request_id (du_request d)) db = Inr (Some d) \<and>
       \<not> is_terminal (du_lifecycle_state d)"
  using unfinished_spec [OF delivery_file_inv [OF assms]] by blast

theorem unfinished_requests_complete_witness:
  "\<exists>ds d. unfinished_requests (\<lambda>b. ''d'') sample_file = Inr ds \<and> d \<in> set ds \<and>
    du_request d = sample_request ''q1'' None"
proof (rule unfinished_requests_complete [OF sample_file_is_file])
  fix ds
  assume u: "unfinished_requests (\<lambda>b. ''d'') sample_file = Inr ds"
    and m: "\<And>d. d \<in> set ds \<longleftrightarrow> get_durable_request (\<lambda>b. ''d'') (rq_request_id (du_request d)) sample_file = Inr (Some d) \<and>
       \<not> is_terminal (du_lifecycle_state d)"
  have "rq_request_id (sample_request ''q1'' None) = ''q1''" by (simp add: sample_request_def)
  with m [of "\<lparr>du_request = sample_request ''q1'' None, du_lifecycle_state = PENDING,
      du_attempt_count = 0, du_last_attempt_at = None, du_last_reconcile_at = None,
      du_last_provider_receipt_ref = None\<rparr>"] sample_file_get u
  show ?thesis by (auto simp: is_terminal_def)
qed


end
