(* ===== verification/Delivery_Daemon.thy ===== *)
theory Delivery_Daemon
  imports Delivery_Backend "HOL-Library.Sublist"
begin

text \<open>
  \<^verbatim>\<open>delivery/reconcile.py\<close> and \<^verbatim>\<open>delivery/daemon.py\<close>: the reconciliation results, the level-0
  reconciler, and one recovery pass over the backlog of a delivery file. The carrier and the
  reconciler are parameters: programs on the state \<open>'o\<close> of everything outside the file. The clock is
  a sequence of timestamps, read once per call of \<^verbatim>\<open>self.now()\<close>. The locale \<open>delivery_world\<close> is the
  contract of the two protocols \<^verbatim>\<open>DeliveryPort\<close> and \<^verbatim>\<open>DeliveryReconciler\<close>.
\<close>

section \<open>Reconciliation\<close>

datatype reconciliation =
    Resolved_Accept string "string option"
  | Resolved_Retryable string
  | Resolved_Reject string
  | Resolved_Not_Found string
  | Resolved_Unknown string

definition noop_reconcile :: "delivery_request \<Rightarrow> ('o, reconciliation) prog" where
  "noop_reconcile q = returnP (Resolved_Unknown ''noop_reconciler_level_0'')"

section \<open>The pass\<close>

record daemon_outcome =
  do_request_id :: string
  do_decision_kind :: retry_kind
  do_final_state :: lifecycle_state
  do_attempt :: int
  do_reason_code :: string
  do_provider_receipt_ref :: "string option"

record 'o daemon_pass =
  dp_digest :: hash
  dp_deliver :: "delivery_request \<Rightarrow> ('o, delivery_receipt) prog"
  dp_reconcile :: "delivery_request \<Rightarrow> ('o, reconciliation) prog"
  dp_retry_budget :: int
  dp_now :: "nat \<Rightarrow> datetime"

record 'o daemon_world =
  dw_db :: delivery_db
  dw_outside :: 'o
  dw_clock :: nat

definition on_db :: "(delivery_db, 'a) prog \<Rightarrow> ('o daemon_world, 'a) prog" where
  "on_db m = (\<lambda>w. case m (dw_db w) of (r, db) \<Rightarrow> (r, w\<lparr>dw_db := db\<rparr>))"

definition on_outside :: "('o, 'a) prog \<Rightarrow> ('o daemon_world, 'a) prog" where
  "on_outside m = (\<lambda>w. case m (dw_outside w) of (r, out) \<Rightarrow> (r, w\<lparr>dw_outside := out\<rparr>))"

definition read_clock :: "'o daemon_pass \<Rightarrow> ('o daemon_world, datetime) prog" where
  "read_clock p = (\<lambda>w. (Inr (dp_now p (dw_clock w)), w\<lparr>dw_clock := dw_clock w + 1\<rparr>))"

text \<open>\<^verbatim>\<open>try: m except ValueError: pass\<close>.\<close>

definition ignore_value_error :: "('s, 'a) prog \<Rightarrow> ('s, unit) prog" where
  "ignore_value_error m = (\<lambda>s. case m s of
      (Inr x, t) \<Rightarrow> (Inr (), t)
    | (Inl (ValueError e), t) \<Rightarrow> (Inr (), t)
    | (Inl e, t) \<Rightarrow> (Inl e, t))"

fun py_error_text :: "py_error \<Rightarrow> string" where
  "py_error_text (ValueError m) = m"
| "py_error_text (KeyError m) = CHR 0x27 # m @ [CHR 0x27]"
| "py_error_text (TypeError m) = m"
| "py_error_text (AssertionError m) = m"
| "py_error_text (IntegrityError m) = m"
| "py_error_text (RuntimeError m) = m"
| "py_error_text (OverflowError m) = m"

fun apply_reconcile ::
  "delivery_request \<Rightarrow> reconciliation \<Rightarrow> (delivery_db, lifecycle_state option \<times> string \<times> string option) prog" where
  "apply_reconcile q (Resolved_Accept ref m) = thenP (record_provider_receipt_ref (rq_request_id q) ref)
     (returnP (Some ACCEPTED, ''reconcile_accept'', Some ref))"
| "apply_reconcile q (Resolved_Retryable r) = returnP (Some FAILED_RETRYABLE, ''reconcile_retryable'', None)"
| "apply_reconcile q (Resolved_Reject r) = returnP (Some REJECTED, ''reconcile_reject'', None)"
| "apply_reconcile q (Resolved_Not_Found r) = returnP (Some FAILED_RETRYABLE, ''reconcile_not_found'', None)"
| "apply_reconcile q (Resolved_Unknown r) = returnP (None, r, None)"

definition apply_receipt ::
  "delivery_request \<Rightarrow> delivery_receipt \<Rightarrow> int \<Rightarrow> (delivery_db, lifecycle_state \<times> string \<times> string option) prog" where
  "apply_receipt q receipt attempt = (case dr_delivery_status receipt of
      SENT \<Rightarrow>
        let provider_ref = (if dr_delivered_at receipt = None then None
              else Some (''sent:'' @ dr_receipt_id receipt))
        in thenP
          (ignore_value_error (record_receipt receipt (rq_request_id q) provider_ref None attempt))
          (returnP (ACCEPTED, ''carrier_sent'', provider_ref))
    | UNSENT \<Rightarrow> returnP (REJECTED, ''carrier_unsent'', None)
    | STATUS_UNKNOWN \<Rightarrow> returnP (UNKNOWN, ''carrier_unknown'', None))"

text \<open>One call on the file with \<^verbatim>\<open>at=self.now()\<close>.\<close>

definition at_now :: "'o daemon_pass \<Rightarrow> (datetime \<Rightarrow> (delivery_db, 'a) prog) \<Rightarrow> ('o daemon_world, 'a) prog" where
  "at_now p m = bindP (read_clock p) (\<lambda>tm. on_db (m tm))"

definition outcome_of ::
  "durable_request \<Rightarrow> retry_kind \<Rightarrow> lifecycle_state \<Rightarrow> int \<Rightarrow> string \<Rightarrow> string option \<Rightarrow> daemon_outcome" where
  "outcome_of row kind state attempt reason ref =
     \<lparr>do_request_id = rq_request_id (du_request row), do_decision_kind = kind, do_final_state = state,
      do_attempt = attempt, do_reason_code = reason, do_provider_receipt_ref = ref\<rparr>"

definition reconcile_one ::
  "'o daemon_pass \<Rightarrow> durable_request \<Rightarrow> retry_kind \<Rightarrow> ('o daemon_world, daemon_outcome) prog" where
  "reconcile_one p row kind = (let q = du_request row; i = rq_request_id q; n = du_attempt_count row in
     bindP (on_outside (dp_reconcile p q)) (\<lambda>result.
     thenP (at_now p (record_reconcile i)) (
     bindP (at_now p (\<lambda>_. apply_reconcile q result)) (\<lambda>(state, reason, ref).
     case state of
       Some new_state \<Rightarrow>
         thenP (at_now p (set_lifecycle_state i new_state))
           (returnP (outcome_of row kind new_state n reason ref))
     | None \<Rightarrow> returnP (outcome_of row kind (du_lifecycle_state row) n reason ref)))))"

definition retry_attempt_id :: "string \<Rightarrow> int \<Rightarrow> string" where
  "retry_attempt_id i n = ''att-'' @ i @ ''-'' @ show_int n"

text \<open>The outcome record of an attempt: two more readings of the clock.\<close>

definition close_attempt ::
  "'o daemon_pass \<Rightarrow> string \<Rightarrow> int \<Rightarrow> lifecycle_state \<Rightarrow> string option \<Rightarrow> string list \<Rightarrow> ('o daemon_world, bool) prog" where
  "close_attempt p i n state ref codes =
     bindP (read_clock p) (\<lambda>t0. bindP (read_clock p) (\<lambda>t1. on_db (record_attempt
       \<lparr>da_attempt_id = retry_attempt_id i n, da_request_id = i, da_attempt = n, da_started_at = t0,
        da_ended_at = Some t1, da_outcome = state, da_provider_receipt_ref = ref, da_reason_codes = codes\<rparr>)))"

definition open_attempt :: "'o daemon_pass \<Rightarrow> durable_request \<Rightarrow> ('o daemon_world, int) prog" where
  "open_attempt p row = (let i = rq_request_id (du_request row) in
     thenP (if du_lifecycle_state row = FAILED_RETRYABLE then at_now p (set_lifecycle_state i PENDING)
            else returnP ()) (
     thenP (at_now p (set_lifecycle_state i IN_FLIGHT)) (
     bindP (at_now p (increment_attempt i)) (\<lambda>n.
     thenP (at_now p (\<lambda>tm. record_attempt
       \<lparr>da_attempt_id = retry_attempt_id i n, da_request_id = i, da_attempt = n, da_started_at = tm,
        da_ended_at = None, da_outcome = IN_FLIGHT, da_provider_receipt_ref = None,
        da_reason_codes = [''daemon_retry'']\<rparr>))
     (returnP n)))))"

definition retry_one ::
  "'o daemon_pass \<Rightarrow> durable_request \<Rightarrow> retry_kind \<Rightarrow> ('o daemon_world, daemon_outcome) prog" where
  "retry_one p row kind = (let q = du_request row; i = rq_request_id q in
     bindP (open_attempt p row) (\<lambda>n.
     bindP (attemptP (on_outside (dp_deliver p q))) (\<lambda>answer. case answer of
       Inl e \<Rightarrow>
         thenP (at_now p (set_lifecycle_state i UNKNOWN)) (
         thenP (close_attempt p i n UNKNOWN None [''port_raised'', take 64 (py_error_text e)])
         (returnP (outcome_of row kind UNKNOWN n ''port_raised'' (du_last_provider_receipt_ref row))))
     | Inr receipt \<Rightarrow>
         bindP (at_now p (\<lambda>_. apply_receipt q receipt n)) (\<lambda>(new_state, reason, ref).
         thenP (at_now p (set_lifecycle_state i new_state)) (
         thenP (close_attempt p i n new_state ref [reason])
         (returnP (outcome_of row kind new_state n reason ref)))))))"

definition drive_one :: "'o daemon_pass \<Rightarrow> durable_request \<Rightarrow> ('o daemon_world, daemon_outcome) prog" where
  "drive_one p row = (let state = du_lifecycle_state row; n = du_attempt_count row in
     if rq_surface_handoff (du_request row) \<noteq> None
     then returnP (outcome_of row DO_NOT_RETRY state n ''surface_body_handoff_owned''
       (du_last_provider_receipt_ref row))
     else bindP (liftP (compute_retry_decision state n (dp_retry_budget p))) (\<lambda>decision.
       if rd_kind decision = DO_NOT_RETRY
       then returnP (outcome_of row DO_NOT_RETRY state n (rd_reason_code decision)
         (du_last_provider_receipt_ref row))
       else if rd_kind decision = RECONCILE_FIRST then reconcile_one p row (rd_kind decision)
       else if state \<in> {FAILED_RETRYABLE, PENDING, UNKNOWN} then retry_one p row (rd_kind decision)
       else raiseP (AssertionError ''unreachable daemon branch'')))"

definition daemon_run :: "'o daemon_pass \<Rightarrow> ('o daemon_world, daemon_outcome list) prog" where
  "daemon_run p = bindP (on_db (readP (unfinished_requests (dp_digest p)))) (eachP (drive_one p))"

section \<open>A pass is a history of the file\<close>

definition file_steps :: "hash \<Rightarrow> ('o daemon_world, 'a) prog \<Rightarrow> bool" where
  "file_steps digest m \<longleftrightarrow> (\<forall>w. backend_reach digest (dw_db w) (dw_db (snd (m w))))"

lemma backend_reach_trans:
  "backend_reach digest b c \<Longrightarrow> backend_reach digest a b \<Longrightarrow> backend_reach digest a c"
  by (induction rule: backend_reach.induct) (auto intro: backend_reach.more)

lemma reach_one: "backend_step digest db db' \<Longrightarrow> backend_reach digest db db'"
  by (blast intro: backend_reach.intros)

lemma steps_pure [preserve_rules]:
  "file_steps digest (returnP x)" "file_steps digest (raiseP e)" "file_steps digest (liftP r)"
  "file_steps digest (read_clock p)" "file_steps digest (on_outside m')"
  by (auto simp: file_steps_def read_clock_def on_outside_def split: prod.split intro: backend_reach.none)

lemma steps_on_db: "(\<And>db. backend_reach digest db (snd (m db))) \<Longrightarrow> file_steps digest (on_db m)"
  by (simp add: file_steps_def on_db_def split: prod.split) (metis prod.sel(2))

lemma steps_bind_post:
  assumes "file_steps digest m" and "\<And>w x t. m w = (Inr x, t) \<Longrightarrow> file_steps digest (f x)"
  shows "file_steps digest (bindP m f)"
  unfolding file_steps_def
proof
  fix w
  obtain r t where m: "m w = (r, t)" by (cases "m w")
  with assms(1) have "backend_reach digest (dw_db w) (dw_db t)"
    by (simp add: file_steps_def) (metis prod.sel(2))
  moreover have "backend_reach digest (dw_db t) (dw_db (snd (f x t)))" if "r = Inr x" for x
    using assms(2) m that by (simp add: file_steps_def)
  ultimately show "backend_reach digest (dw_db w) (dw_db (snd (bindP m f w)))"
    using m by (cases r) (auto elim: backend_reach_trans [rotated])
qed

lemma steps_bindP [preserve_rules]:
  "file_steps digest m \<Longrightarrow> (\<And>x. file_steps digest (f x)) \<Longrightarrow> file_steps digest (bindP m f)"
  by (rule steps_bind_post)

lemma steps_thenP [preserve_rules]:
  "file_steps digest m \<Longrightarrow> file_steps digest k \<Longrightarrow> file_steps digest (thenP m k)"
  by (simp add: thenP_def steps_bindP)

lemma steps_attempt [preserve_rules]: "file_steps digest m \<Longrightarrow> file_steps digest (attemptP m)"
  by (auto simp: file_steps_def attemptP_def split: prod.split) (metis prod.sel(2))

lemma steps_if [preserve_rules]:
  "file_steps digest m \<Longrightarrow> file_steps digest k \<Longrightarrow> file_steps digest (if c then m else k)"
  by simp

lemma steps_eachP: "(\<And>x. x \<in> set xs \<Longrightarrow> file_steps digest (f x)) \<Longrightarrow> file_steps digest (eachP f xs)"
  by (induction xs) (auto intro!: preserve_rules)

lemma steps_at_now: "(\<And>tm db. backend_reach digest db (snd (m tm db))) \<Longrightarrow> file_steps digest (at_now p m)"
  unfolding at_now_def by (intro preserve_rules steps_on_db)

lemma file_ops [preserve_rules]:
  "file_steps digest (at_now p (set_lifecycle_state i st))"
  "file_steps digest (at_now p (increment_attempt i))"
  "file_steps digest (at_now p (record_reconcile i))"
  "file_steps digest (at_now p (\<lambda>tm. record_attempt (a tm)))"
  "file_steps digest (on_db (record_attempt b))"
  by (intro steps_at_now steps_on_db reach_one;
      rule lifecycle increment reconcile attempt; rule surjective_pairing)+

lemma snd_then_return: "snd (thenP m (returnP x) s) = snd (m s)"
  by (auto simp: thenP_def bindP_def split: prod.split sum.split)

lemma steps_apply_reconcile [preserve_rules]:
  "file_steps digest (at_now p (\<lambda>_. apply_reconcile q result))"
proof (rule steps_at_now)
  fix db
  have "backend_reach digest db (snd (record_provider_receipt_ref (rq_request_id q) ref db))" for ref
    by (rule reach_one) (rule provider_ref, rule surjective_pairing)
  then show "backend_reach digest db (snd (apply_reconcile q result db))"
    by (cases result) (simp_all add: snd_then_return backend_reach.none)
qed

lemma steps_apply_receipt:
  assumes "delivery_receipt_valid r"
  shows "file_steps digest (at_now p (\<lambda>_. apply_receipt q r n))"
proof (rule steps_at_now)
  fix db
  have ig: "snd (ignore_value_error m s) = snd (m s)" for m :: "(delivery_db, bool) prog" and s
    by (auto simp: ignore_value_error_def split: prod.split sum.split py_error.split)
  have "backend_reach digest db (snd (record_receipt r i ref m n db))" for i ref m
    by (rule reach_one) (rule receipt [OF assms], rule surjective_pairing)
  then have "backend_reach digest db (snd (ignore_value_error (record_receipt r i ref m n) db))" for i ref m
    by (simp add: ig)
  then show "backend_reach digest db (snd (apply_receipt q r n db))"
    by (cases "dr_delivery_status r")
      (simp_all add: apply_receipt_def Let_def snd_then_return backend_reach.none)
qed


definition receipts_valid :: "'o daemon_pass \<Rightarrow> bool" where
  "receipts_valid p \<longleftrightarrow>
     (\<forall>q out r out'. delivery_request_valid (dp_digest p) q \<longrightarrow> dp_deliver p q out = (Inr r, out') \<longrightarrow>
        delivery_receipt_valid r)"

lemma steps_open_attempt: "file_steps digest (open_attempt p row)"
  unfolding open_attempt_def Let_def by (intro preserve_rules)

lemma steps_close_attempt: "file_steps digest (close_attempt p i n st ref codes)"
  unfolding close_attempt_def by (intro preserve_rules)

lemma steps_reconcile_one: "file_steps digest (reconcile_one p row k)"
  unfolding reconcile_one_def Let_def
  by (intro preserve_rules; simp split: prod.split option.split add: preserve_rules)

lemma steps_retry_one:
  assumes "receipts_valid p" and "delivery_request_valid (dp_digest p) (du_request row)"
  shows "file_steps digest (retry_one p row k)"
  unfolding retry_one_def Let_def
proof (rule steps_bindP [OF steps_open_attempt])
  fix n
  let ?q = "du_request row"
  show "file_steps digest (bindP (attemptP (on_outside (dp_deliver p ?q))) (\<lambda>answer. case answer of
       Inl e \<Rightarrow>
         thenP (at_now p (set_lifecycle_state (rq_request_id ?q) UNKNOWN)) (
         thenP (close_attempt p (rq_request_id ?q) n UNKNOWN None [''port_raised'', take 64 (py_error_text e)])
         (returnP (outcome_of row k UNKNOWN n ''port_raised'' (du_last_provider_receipt_ref row))))
     | Inr receipt \<Rightarrow>
         bindP (at_now p (\<lambda>_. apply_receipt ?q receipt n)) (\<lambda>(new_state, reason, ref).
         thenP (at_now p (set_lifecycle_state (rq_request_id ?q) new_state)) (
         thenP (close_attempt p (rq_request_id ?q) n new_state ref [reason])
         (returnP (outcome_of row k new_state n reason ref))))))"
  proof (rule steps_bind_post)
    show "file_steps digest (attemptP (on_outside (dp_deliver p ?q)))" by (intro preserve_rules)
  next
    fix w answer t
    assume "attemptP (on_outside (dp_deliver p ?q)) w = (Inr answer, t)"
    then have "delivery_receipt_valid r" if "answer = Inr r" for r
      using assms that by (auto simp: attemptP_def on_outside_def receipts_valid_def split: prod.splits)
    then show "file_steps digest (case answer of
       Inl e \<Rightarrow>
         thenP (at_now p (set_lifecycle_state (rq_request_id ?q) UNKNOWN)) (
         thenP (close_attempt p (rq_request_id ?q) n UNKNOWN None [''port_raised'', take 64 (py_error_text e)])
         (returnP (outcome_of row k UNKNOWN n ''port_raised'' (du_last_provider_receipt_ref row))))
     | Inr receipt \<Rightarrow>
         bindP (at_now p (\<lambda>_. apply_receipt ?q receipt n)) (\<lambda>(new_state, reason, ref).
         thenP (at_now p (set_lifecycle_state (rq_request_id ?q) new_state)) (
         thenP (close_attempt p (rq_request_id ?q) n new_state ref [reason])
         (returnP (outcome_of row k new_state n reason ref)))))"
      by (auto split: sum.split prod.split
          intro!: preserve_rules steps_close_attempt steps_apply_receipt)
  qed
qed

lemma steps_drive_one:
  "receipts_valid p \<Longrightarrow> delivery_request_valid (dp_digest p) (du_request row) \<Longrightarrow>
    file_steps digest (drive_one p row)"
  unfolding drive_one_def Let_def
  by (intro preserve_rules steps_reconcile_one steps_retry_one)

lemma durable_from_row_valid: "durable_from_row digest r = Inr d \<Longrightarrow> delivery_request_valid digest (du_request d)"
  using request_from_row_valid(1) by (fastforce simp: durable_from_row_def bindR_Inr_iff)

lemma mapR_members: "mapR f xs = Inr ys \<Longrightarrow> y \<in> set ys \<Longrightarrow> \<exists>x \<in> set xs. f x = Inr y"
  by (induction xs arbitrary: ys) (auto simp: bindR_Inr_iff)

lemma unfinished_valid:
  "unfinished_requests digest db = Inr rows \<Longrightarrow> d \<in> set rows \<Longrightarrow> delivery_request_valid digest (du_request d)"
  unfolding unfinished_requests_def by (auto dest!: mapR_members durable_from_row_valid)

lemma steps_daemon_run:
  assumes "receipts_valid p"
  shows "file_steps digest (daemon_run p)"
  unfolding daemon_run_def
proof (rule steps_bind_post)
  show "file_steps digest (on_db (readP (unfinished_requests (dp_digest p))))"
    by (rule steps_on_db) (simp add: backend_reach.none)
next
  fix w rows t
  assume "on_db (readP (unfinished_requests (dp_digest p))) w = (Inr rows, t)"
  then have "unfinished_requests (dp_digest p) (dw_db w) = Inr rows" by (auto simp: on_db_def)
  with assms show "file_steps digest (eachP (drive_one p) rows)"
    by (intro steps_eachP steps_drive_one unfinished_valid) auto
qed

text \<open>Whatever the carrier and the reconciler answer, a pass is a history of backend operations.\<close>

lemma pass_reach: "receipts_valid p \<Longrightarrow> backend_reach digest (dw_db w) (dw_db (snd (daemon_run p w)))"
  using steps_daemon_run [of p digest] by (simp add: file_steps_def)

section \<open>The contract of the outside world\<close>

abbreviation storable_receipt :: "delivery_receipt \<Rightarrow> bool" where
  "storable_receipt r \<equiv> delivery_receipt_valid r \<and> int64 (sf_version (dr_sync r))"

text \<open>
  What the docstrings of the two protocols promise: a delivery of a valid request answers with a valid
  receipt, or raises with a message; a reconciliation does not raise, and an acceptance carries a
  provider reference. \<open>good\<close> is an invariant of the carrier's own state. The version of a receipt fits
  the column it is stored in: the pass catches only \<^verbatim>\<open>ValueError\<close> there.
\<close>

locale delivery_world =
  fixes digest :: hash
    and deliver :: "delivery_request \<Rightarrow> ('o, delivery_receipt) prog"
    and reconcile :: "delivery_request \<Rightarrow> ('o, reconciliation) prog"
    and good :: "'o \<Rightarrow> bool"
  assumes deliver_answers: "good out \<Longrightarrow> delivery_request_valid digest q \<Longrightarrow> deliver q out = (a, out') \<Longrightarrow>
      good out' \<and> (case a of Inl e \<Rightarrow> py_error_text e \<noteq> [] | Inr r \<Rightarrow> storable_receipt r)"
    and reconcile_answers: "good out \<Longrightarrow> delivery_request_valid digest q \<Longrightarrow> \<exists>res out'.
      reconcile q out = (Inr res, out') \<and> good out' \<and> (\<forall>ref m. res = Resolved_Accept ref m \<longrightarrow> ref \<noteq> [])"

lemma carrier_receipts:
  assumes "carrier_inv out" and "delivery_request_valid digest q" and "carrier_deliver q out = (a, out')"
  shows "carrier_inv out' \<and> (case a of Inl e \<Rightarrow> py_error_text e \<noteq> [] | Inr r \<Rightarrow> storable_receipt r)"
proof
  show "carrier_inv out'" using preservesD' [OF carrier_deliver_inv assms(1,3)] .
next
  obtain st where "build_receipt q st = a"
    using assms(3) by (auto simp: carrier_deliver_def Let_def split: if_splits)
  with build_receipt_ok [OF assms(2), of st] have "\<exists>r. a = Inr r \<and> delivery_receipt_valid r \<and> sf_version (dr_sync r) = 1"
    by metis
  then show "case a of Inl e \<Rightarrow> py_error_text e \<noteq> [] | Inr r \<Rightarrow> storable_receipt r" by (auto simp: int64_def)
qed

interpretation carrier_noop: delivery_world digest carrier_deliver noop_reconcile carrier_inv
  by unfold_locales (auto simp: noop_reconcile_def dest: carrier_receipts)

section \<open>What one request's row goes through\<close>

text \<open>
  The file holds request \<open>q\<close> under \<open>i\<close> in state \<open>s\<close> after \<open>n\<close> attempts, and every other request is as in
  the file \<open>base\<close>.
\<close>

definition row_holds ::
  "hash \<Rightarrow> delivery_db \<Rightarrow> string \<Rightarrow> delivery_request \<Rightarrow> lifecycle_state \<Rightarrow> int \<Rightarrow> delivery_db \<Rightarrow> bool" where
  "row_holds digest base i q s n db \<longleftrightarrow> db_inv digest db \<and>
     (\<exists>r. find_request i db = Some r \<and> request_from_row digest r = Inr q \<and>
        lifecycle_of (rw_lifecycle_state r) = Inr s \<and> rw_attempt_count r = n) \<and>
     (\<forall>j. j \<noteq> i \<longrightarrow> find_request j db = find_request j base)"

lemma row_holds_update:
  assumes h: "row_holds digest base i q s n db" and inv: "db_inv digest (update_request i f db)"
    and key: "\<And>x. rw_request_id (f x) = rw_request_id x" and same: "\<And>x. same_request_columns x (f x)"
    and new: "\<And>r. find_request i db = Some r \<Longrightarrow>
      lifecycle_of (rw_lifecycle_state (f r)) = Inr s' \<and> rw_attempt_count (f r) = n'"
  shows "row_holds digest base i q s' n' (update_request i f db)"
proof -
  have "request_from_row digest (f r) = request_from_row digest r" for r
    using request_from_same_columns [OF same [of r], of digest] by simp
  with h inv new find_update_request [of f, OF key] show ?thesis
    by (auto simp: row_holds_def)
qed

lemma row_holds_same_requests:
  assumes "row_holds digest base i q s n db" and "db_grows digest db db'"
    and "db_requests db' = db_requests db"
  shows "row_holds digest base i q s n db'"
  using assms by (simp add: row_holds_def db_grows_def find_request_def)

lemma row_set_lifecycle:
  assumes h: "row_holds digest base i q s n db" and "is_aware_utc tm" and "validate_transition s new = Inr ()"
  shows "\<exists>db'. set_lifecycle_state i new tm db = (Inr (), db') \<and> row_holds digest base i q new n db'"
proof -
  let ?db = "update_request i (\<lambda>r. r\<lparr>rw_lifecycle_state := lifecycle_value new\<rparr>) db"
  have eq: "set_lifecycle_state i new tm db = (Inr (), ?db)"
    using assms by (auto simp: row_holds_def set_lifecycle_state_def)
  then have "db_inv digest ?db"
    using set_lifecycle_grows [of digest db i new tm] h by (simp add: db_grows_def row_holds_def)
  with h have "row_holds digest base i q new n ?db"
    by (rule row_holds_update) (use h in \<open>auto simp: same_request_columns_def row_holds_def\<close>)
  with eq show ?thesis by blast
qed

lemma row_increment:
  assumes h: "row_holds digest base i q s n db" and "is_aware_utc tm" and "int64 (n + 1)"
  shows "\<exists>db'. increment_attempt i tm db = (Inr (n + 1), db') \<and> row_holds digest base i q s (n + 1) db'"
proof -
  let ?db = "update_request i (\<lambda>r. r\<lparr>rw_attempt_count := n + 1, rw_last_attempt_at := Some tm\<rparr>) db"
  have eq: "increment_attempt i tm db = (Inr (n + 1), ?db)"
    using assms by (auto simp: row_holds_def increment_attempt_def Let_def)
  then have "db_inv digest ?db"
    using increment_attempt_grows [of digest db i tm] h by (simp add: db_grows_def row_holds_def)
  with h have "row_holds digest base i q s (n + 1) ?db"
    by (rule row_holds_update) (use h in \<open>auto simp: same_request_columns_def row_holds_def\<close>)
  with eq show ?thesis by blast
qed

lemma row_reconcile:
  assumes h: "row_holds digest base i q s n db" and "is_aware_utc tm"
  shows "\<exists>db'. record_reconcile i tm db = (Inr (), db') \<and> row_holds digest base i q s n db'"
proof -
  let ?db = "update_request i (\<lambda>r. r\<lparr>rw_last_reconcile_at := Some tm\<rparr>) db"
  have eq: "record_reconcile i tm db = (Inr (), ?db)"
    using assms by (auto simp: row_holds_def record_reconcile_def)
  then have "db_inv digest ?db"
    using record_reconcile_grows [of digest db i tm] h by (simp add: db_grows_def row_holds_def)
  with h have "row_holds digest base i q s n ?db"
    by (rule row_holds_update) (use h in \<open>auto simp: same_request_columns_def row_holds_def\<close>)
  with eq show ?thesis by blast
qed

lemma row_provider_ref:
  assumes h: "row_holds digest base i q s n db" and "ref \<noteq> []"
  shows "\<exists>db'. record_provider_receipt_ref i ref db = (Inr (), db') \<and> row_holds digest base i q s n db'"
proof -
  let ?db = "update_request i (\<lambda>r. r\<lparr>rw_last_provider_receipt_ref := Some ref\<rparr>) db"
  have eq: "record_provider_receipt_ref i ref db = (Inr (), ?db)"
    using assms by (auto simp: row_holds_def record_provider_receipt_ref_def)
  then have "db_inv digest ?db"
    using record_ref_grows [of digest db i ref] h by (simp add: db_grows_def row_holds_def)
  with h have "row_holds digest base i q s n ?db"
    by (rule row_holds_update) (use h in \<open>auto simp: same_request_columns_def row_holds_def\<close>)
  with eq show ?thesis by blast
qed

lemma row_attempt:
  assumes h: "row_holds digest base i q s n db" and "rq_surface_handoff q = None"
    and a: "all_clear (attempt_checks a)" and i: "da_request_id a = i" and "int64 (da_attempt a)"
  shows "\<exists>b db'. record_attempt a db = (Inr b, db') \<and> row_holds digest base i q s n db'"
proof -
  from h obtain r where r: "find_request i db = Some r" "request_from_row digest r = Inr q"
    by (auto simp: row_holds_def)
  with assms request_from_row_valid(3) [OF r(2)] have "rw_surface_handoff r = None" by simp
  then obtain b db' where eq: "record_attempt a db = (Inr b, db')" and "db_requests db' = db_requests db"
    using r i a assms(5) by (cases "find_attempt (da_attempt_id a) db")
      (auto simp: record_attempt_def raise_first_None_iff [symmetric])
  moreover have "db_grows digest db db'" using record_attempt_grows [of digest db a] eq by simp
  ultimately show ?thesis using row_holds_same_requests [OF h] by blast
qed

lemma record_receipt_errors:
  assumes "db_inv digest db" and "int64 n" and "int64 (sf_version (dr_sync r))"
    and "record_receipt r i pr pm n db = (Inl e, db')"
  shows "\<exists>m. e = ValueError m"
proof -
  have "is_ok (receipt_from_row x)" if "find_receipt j db = Some x" for j x
    using assms(1) find_key_Some [of rc_receipt_id j "db_receipts db" x] that
    by (simp add: db_inv_def find_receipt_def list_all_iff)
  with assms(2-4) show ?thesis
    by (fastforce simp: record_receipt_def split: if_splits option.splits sum.splits)
qed

lemma row_receipt:
  assumes h: "row_holds digest base i q s n db" and v: "delivery_receipt_valid r"
    and fits: "int64 k" "int64 (sf_version (dr_sync r))"
  shows "\<exists>db'. ignore_value_error (record_receipt r j pr pm k) db = (Inr (), db') \<and>
    row_holds digest base i q s n db'"
proof -
  obtain a db' where m: "record_receipt r j pr pm k db = (a, db')" by (cases "record_receipt r j pr pm k db")
  have "db_grows digest db db'" using record_receipt_grows [OF v, of digest db j pr pm k] m by simp
  moreover have "db_requests db' = db_requests db"
    using m by (auto simp: record_receipt_def split: if_splits option.splits sum.splits)
  ultimately have "row_holds digest base i q s n db'" using row_holds_same_requests [OF h] by blast
  moreover have "db_inv digest db" using h by (simp add: row_holds_def)
  then have "ignore_value_error (record_receipt r j pr pm k) db = (Inr (), db')"
    using m record_receipt_errors [of digest db k r j pr pm] fits by (cases a) (auto simp: ignore_value_error_def)
  ultimately show ?thesis by blast
qed


definition stands ::
  "hash \<Rightarrow> ('o \<Rightarrow> bool) \<Rightarrow> delivery_db \<Rightarrow> string \<Rightarrow> delivery_request \<Rightarrow> lifecycle_state \<Rightarrow> int \<Rightarrow>
    'o daemon_world \<Rightarrow> bool" where
  "stands digest good base i q s n w \<longleftrightarrow>
     row_holds digest base i q s n (dw_db w) \<and> good (dw_outside w)"

definition clock_utc :: "'o daemon_pass \<Rightarrow> bool" where
  "clock_utc p \<longleftrightarrow> (\<forall>n. is_aware_utc (dp_now p n))"

lemma total_at_now:
  assumes "clock_utc p"
    and "\<And>tm db. is_aware_utc tm \<Longrightarrow> row_holds digest base i q s n db \<Longrightarrow>
      \<exists>x db'. m tm db = (Inr x, db') \<and> R x \<and> row_holds digest base i q s' n' db'"
  shows "total_prog (stands digest good base i q s n) (at_now p m)
    (\<lambda>x w. R x \<and> stands digest good base i q s' n' w)"
proof (rule totalI)
  fix w
  assume "stands digest good base i q s n w"
  with assms(2) [of "dp_now p (dw_clock w)" "dw_db w"] assms(1)
  obtain x db' where "m (dp_now p (dw_clock w)) (dw_db w) = (Inr x, db')" "R x"
    "row_holds digest base i q s' n' db'" "good (dw_outside w)"
    by (auto simp: stands_def clock_utc_def)
  then show "\<exists>x t. at_now p m w = (Inr x, t) \<and> R x \<and> stands digest good base i q s' n' t"
    by (simp add: at_now_def bindP_def read_clock_def on_db_def stands_def)
qed

lemma total_at_now_unit:
  assumes "clock_utc p"
    and "\<And>tm db. is_aware_utc tm \<Longrightarrow> row_holds digest base i q s n db \<Longrightarrow>
      \<exists>x db'. m tm db = (Inr x, db') \<and> row_holds digest base i q s' n' db'"
  shows "total_prog (stands digest good base i q s n) (at_now p m) (\<lambda>_. stands digest good base i q s' n')"
  by (rule total_weaken [OF total_at_now [OF assms(1), where R = "\<lambda>_. True"]]) (use assms(2) in blast)+

lemma total_set_lifecycle:
  assumes "clock_utc p" and "validate_transition s new = Inr ()"
  shows "total_prog (stands digest good base i q s n) (at_now p (set_lifecycle_state i new))
    (\<lambda>_. stands digest good base i q new n)"
  using row_set_lifecycle [OF _ _ assms(2)] by (intro total_at_now_unit [OF assms(1)]) blast

lemma total_increment:
  assumes "clock_utc p" and "int64 (n + 1)"
  shows "total_prog (stands digest good base i q s n) (at_now p (increment_attempt i))
    (\<lambda>m w. m = n + 1 \<and> stands digest good base i q s (n + 1) w)"
  using row_increment [OF _ _ assms(2)] by (intro total_at_now [OF assms(1)]) blast

lemma total_reconcile_mark:
  assumes "clock_utc p"
  shows "total_prog (stands digest good base i q s n) (at_now p (record_reconcile i))
    (\<lambda>_. stands digest good base i q s n)"
  using row_reconcile by (intro total_at_now_unit [OF assms]) blast

lemma retry_attempt_id_nonempty [simp]: "retry_attempt_id i n \<noteq> []"
  by (simp add: retry_attempt_id_def)

lemma total_open_record:
  assumes "clock_utc p" and "rq_surface_handoff q = None" and "i \<noteq> []" and "1 \<le> n" and "int64 n"
  shows "total_prog (stands digest good base i q s n) (at_now p (\<lambda>tm. record_attempt
       \<lparr>da_attempt_id = retry_attempt_id i n, da_request_id = i, da_attempt = n, da_started_at = tm,
        da_ended_at = None, da_outcome = IN_FLIGHT, da_provider_receipt_ref = None,
        da_reason_codes = [''daemon_retry'']\<rparr>))
    (\<lambda>_. stands digest good base i q s n)"
  using assms(3-5)
  by (intro total_at_now_unit [OF assms(1)] row_attempt [OF _ assms(2)]) (auto simp: attempt_checks_def)

lemma total_close_attempt:
  assumes "clock_utc p" and "rq_surface_handoff q = None" and "i \<noteq> []" and "1 \<le> n" and "[] \<notin> set codes"
    and "int64 n"
  shows "total_prog (stands digest good base i q s n) (close_attempt p i n st ref codes)
    (\<lambda>_. stands digest good base i q s n)"
proof (rule totalI)
  fix w
  assume w: "stands digest good base i q s n w"
  let ?a = "\<lparr>da_attempt_id = retry_attempt_id i n, da_request_id = i, da_attempt = n,
    da_started_at = dp_now p (dw_clock w), da_ended_at = Some (dp_now p (dw_clock w + 1)),
    da_outcome = st, da_provider_receipt_ref = ref, da_reason_codes = codes\<rparr>"
  have "all_clear (attempt_checks ?a)"
    using assms by (auto simp: attempt_checks_def clock_utc_def list_all_iff)
  moreover have "row_holds digest base i q s n (dw_db w)" using w by (simp add: stands_def)
  ultimately obtain b db' where
    "record_attempt ?a (dw_db w) = (Inr b, db')" "row_holds digest base i q s n db'"
    using row_attempt [OF _ assms(2), of digest base i s n "dw_db w" ?a] assms(6) by auto
  with w show "\<exists>x t. close_attempt p i n st ref codes w = (Inr x, t) \<and> stands digest good base i q s n t"
    by (simp add: close_attempt_def bindP_def read_clock_def on_db_def stands_def)
qed

lemma total_open_attempt:
  assumes c: "clock_utc p" and q: "rq_surface_handoff q = None" and i: "i \<noteq> []" and n: "0 \<le> n" "int64 (n + 1)"
    and row: "du_request row = q" "rq_request_id q = i" "du_lifecycle_state row = s"
    and s: "s = PENDING \<or> s = FAILED_RETRYABLE"
  shows "total_prog (stands digest good base i q s n) (open_attempt p row)
    (\<lambda>m w. m = n + 1 \<and> stands digest good base i q IN_FLIGHT (n + 1) w)"
  unfolding open_attempt_def Let_def row
proof (rule total_thenP)
  show "total_prog (stands digest good base i q s n)
      (if s = FAILED_RETRYABLE then at_now p (set_lifecycle_state i PENDING) else returnP ())
      (\<lambda>_. stands digest good base i q PENDING n)"
    using total_set_lifecycle [OF c] s by (auto simp: validate_transition_def intro: total_return)
next
  show "total_prog (stands digest good base i q PENDING n)
     (thenP (at_now p (set_lifecycle_state i IN_FLIGHT)) (
     bindP (at_now p (increment_attempt i)) (\<lambda>n.
     thenP (at_now p (\<lambda>tm. record_attempt
       \<lparr>da_attempt_id = retry_attempt_id i n, da_request_id = i, da_attempt = n, da_started_at = tm,
        da_ended_at = None, da_outcome = IN_FLIGHT, da_provider_receipt_ref = None,
        da_reason_codes = [''daemon_retry'']\<rparr>))
     (returnP n))))
     (\<lambda>m w. m = n + 1 \<and> stands digest good base i q IN_FLIGHT (n + 1) w)"
  proof (rule total_thenP [OF total_set_lifecycle [OF c]], simp add: validate_transition_def,
      rule total_bindP [OF total_increment [OF c n(2)]])
    fix m
    show "total_prog (\<lambda>w. m = n + 1 \<and> stands digest good base i q IN_FLIGHT (n + 1) w)
       (thenP (at_now p (\<lambda>tm. record_attempt
         \<lparr>da_attempt_id = retry_attempt_id i m, da_request_id = i, da_attempt = m, da_started_at = tm,
          da_ended_at = None, da_outcome = IN_FLIGHT, da_provider_receipt_ref = None,
          da_reason_codes = [''daemon_retry'']\<rparr>))
       (returnP m))
       (\<lambda>m w. m = n + 1 \<and> stands digest good base i q IN_FLIGHT (n + 1) w)"
    proof (rule total_given)
      assume m: "m = n + 1"
      show "total_prog (stands digest good base i q IN_FLIGHT (n + 1))
         (thenP (at_now p (\<lambda>tm. record_attempt
           \<lparr>da_attempt_id = retry_attempt_id i m, da_request_id = i, da_attempt = m, da_started_at = tm,
            da_ended_at = None, da_outcome = IN_FLIGHT, da_provider_receipt_ref = None,
            da_reason_codes = [''daemon_retry'']\<rparr>))
         (returnP m))
         (\<lambda>m w. m = n + 1 \<and> stands digest good base i q IN_FLIGHT (n + 1) w)"
        unfolding m
        by (rule total_thenP [OF total_open_record [OF c q i]]) (use n in \<open>auto intro: total_return\<close>)
    qed
  qed
qed

lemma total_apply_receipt:
  assumes "clock_utc p" and "delivery_receipt_valid r" and "int64 k" and "int64 (sf_version (dr_sync r))"
  shows "total_prog (stands digest good base i q IN_FLIGHT n) (at_now p (\<lambda>_. apply_receipt q r k))
    (\<lambda>(st, reason, ref) w. (st \<in> {ACCEPTED, REJECTED, UNKNOWN} \<and> reason \<noteq> []) \<and>
       stands digest good base i q IN_FLIGHT n w)"
proof -
  have "\<exists>x db'. apply_receipt q r k db = (Inr x, db') \<and>
      (case x of (st, reason, ref) \<Rightarrow> st \<in> {ACCEPTED, REJECTED, UNKNOWN} \<and> reason \<noteq> []) \<and>
      row_holds digest base i q IN_FLIGHT n db'"
    if h: "row_holds digest base i q IN_FLIGHT n db" for db
  proof (cases "dr_delivery_status r")
    case SENT
    let ?ref = "if dr_delivered_at r = None then None else Some (''sent:'' @ dr_receipt_id r)"
    obtain db' where "ignore_value_error (record_receipt r (rq_request_id q) ?ref None k) db = (Inr (), db')"
      "row_holds digest base i q IN_FLIGHT n db'"
      using row_receipt [OF h assms(2-4)] by blast
    with SENT show ?thesis by (simp add: apply_receipt_def Let_def)
  qed (use h in \<open>simp_all add: apply_receipt_def validate_transition_def\<close>)
  then have "total_prog (stands digest good base i q IN_FLIGHT n) (at_now p (\<lambda>_. apply_receipt q r k))
    (\<lambda>x w. (case x of (st, reason, ref) \<Rightarrow> st \<in> {ACCEPTED, REJECTED, UNKNOWN} \<and> reason \<noteq> []) \<and>
       stands digest good base i q IN_FLIGHT n w)"
    by (intro total_at_now [OF assms(1)]) blast
  then show ?thesis by (rule total_weaken) auto
qed


definition daemon_of ::
  "hash \<Rightarrow> (delivery_request \<Rightarrow> ('o, delivery_receipt) prog) \<Rightarrow>
    (delivery_request \<Rightarrow> ('o, reconciliation) prog) \<Rightarrow> 'o daemon_pass \<Rightarrow> bool" where
  "daemon_of digest deliver reconcile p \<longleftrightarrow> dp_digest p = digest \<and> dp_deliver p = deliver \<and>
     dp_reconcile p = reconcile \<and> clock_utc p \<and> 0 \<le> dp_retry_budget p \<and> int64 (dp_retry_budget p)"

text \<open>Which rows a pass hands to the carrier, which it reconciles, and what it reports for each.\<close>

definition may_resend :: "int \<Rightarrow> durable_request \<Rightarrow> bool" where
  "may_resend budget row \<longleftrightarrow> rq_surface_handoff (du_request row) = None \<and>
     du_lifecycle_state row \<in> {PENDING, FAILED_RETRYABLE} \<and> du_attempt_count row < budget"

definition must_reconcile :: "durable_request \<Rightarrow> bool" where
  "must_reconcile row \<longleftrightarrow> rq_surface_handoff (du_request row) = None \<and>
     du_lifecycle_state row \<in> {IN_FLIGHT, UNKNOWN}"

definition drive_spec :: "int \<Rightarrow> durable_request \<Rightarrow> daemon_outcome \<Rightarrow> bool" where
  "drive_spec budget row res \<longleftrightarrow>
     do_request_id res = rq_request_id (du_request row) \<and>
     do_decision_kind res = (if may_resend budget row then CAN_RETRY
        else if must_reconcile row then RECONCILE_FIRST else DO_NOT_RETRY) \<and>
     (case do_decision_kind res of
        CAN_RETRY \<Rightarrow> do_final_state res \<in> {ACCEPTED, REJECTED, UNKNOWN}
      | RECONCILE_FIRST \<Rightarrow>
          do_final_state res \<in> {du_lifecycle_state row, ACCEPTED, REJECTED, FAILED_RETRYABLE}
      | DO_NOT_RETRY \<Rightarrow> do_final_state res = du_lifecycle_state row) \<and>
     do_attempt res = du_attempt_count row + (if may_resend budget row then 1 else 0)"

lemma outcome_of_simps [simp]:
  "do_request_id (outcome_of row k s n reason ref) = rq_request_id (du_request row)"
  "do_decision_kind (outcome_of row k s n reason ref) = k"
  "do_final_state (outcome_of row k s n reason ref) = s"
  "do_attempt (outcome_of row k s n reason ref) = n"
  by (simp_all add: outcome_of_def)

lemma total_outside:
  assumes "\<And>out. good out \<Longrightarrow> \<exists>x out'. m out = (Inr x, out') \<and> R x \<and> good out'"
  shows "total_prog (stands digest good base i q s n) (on_outside m) (\<lambda>x w. R x \<and> stands digest good base i q s n w)"
proof (rule totalI)
  fix w
  assume w: "stands digest good base i q s n w"
  with assms obtain x out' where "m (dw_outside w) = (Inr x, out')" "R x" "good out'"
    by (fastforce simp: stands_def)
  with w show "\<exists>x t. on_outside m w = (Inr x, t) \<and> R x \<and> stands digest good base i q s n t"
    by (simp add: on_outside_def stands_def)
qed

context delivery_world
begin

lemma total_apply_reconcile:
  assumes "clock_utc p" and s: "s \<in> {IN_FLIGHT, UNKNOWN}" and i: "rq_request_id q = i"
    and res: "\<forall>ref m. res = Resolved_Accept ref m \<longrightarrow> ref \<noteq> []"
  shows "total_prog (stands digest good base i q s n) (at_now p (\<lambda>_. apply_reconcile q res))
    (\<lambda>x w. (\<forall>st. fst x = Some st \<longrightarrow> st \<in> {ACCEPTED, REJECTED, FAILED_RETRYABLE} \<and>
       validate_transition s st = Inr ()) \<and> stands digest good base i q s n w)"
proof (rule total_at_now [OF assms(1)])
  fix tm db
  assume h: "row_holds digest base i q s n db"
  show "\<exists>x db'. apply_reconcile q res db = (Inr x, db') \<and>
      (\<forall>st. fst x = Some st \<longrightarrow> st \<in> {ACCEPTED, REJECTED, FAILED_RETRYABLE} \<and>
         validate_transition s st = Inr ()) \<and> row_holds digest base i q s n db'"
  proof (cases res)
    case (Resolved_Accept ref m)
    with res row_provider_ref [OF h, of ref] obtain db' where
      "record_provider_receipt_ref i ref db = (Inr (), db')" "row_holds digest base i q s n db'" by auto
    with Resolved_Accept s i show ?thesis by (auto simp: validate_transition_def)
  qed (use h s in \<open>auto simp: validate_transition_def\<close>)
qed

lemma total_reconcile_one:
  assumes p: "daemon_of digest deliver reconcile p" and v: "delivery_request_valid digest q"
    and row: "du_request row = q" "rq_request_id q = i" "du_lifecycle_state row = s" "du_attempt_count row = n"
    and s: "s \<in> {IN_FLIGHT, UNKNOWN}" and q: "rq_surface_handoff q = None"
  shows "total_prog (stands digest good base i q s n) (reconcile_one p row RECONCILE_FIRST)
    (\<lambda>res w. drive_spec budget row res \<and> stands digest good base i q (do_final_state res) (do_attempt res) w)"
proof -
  have c: "clock_utc p" using p by (simp add: daemon_of_def)
  have "total_prog (stands digest good base i q s n) (on_outside (dp_reconcile p q))
    (\<lambda>res w. (\<forall>ref m. res = Resolved_Accept ref m \<longrightarrow> ref \<noteq> []) \<and> stands digest good base i q s n w)"
    using reconcile_answers [OF _ v] p by (intro total_outside) (fastforce simp: daemon_of_def)
  then show ?thesis
    unfolding reconcile_one_def Let_def row
  proof (rule total_bindP, intro total_given total_thenP [OF total_reconcile_mark [OF c]])
    fix res
    assume "\<forall>ref m. res = Resolved_Accept ref m \<longrightarrow> ref \<noteq> []"
    then show "total_prog (stands digest good base i q s n)
       (bindP (at_now p (\<lambda>_. apply_reconcile q res)) (\<lambda>(state, reason, ref).
          case state of
            Some new_state \<Rightarrow> thenP (at_now p (set_lifecycle_state i new_state))
              (returnP (outcome_of row RECONCILE_FIRST new_state n reason ref))
          | None \<Rightarrow> returnP (outcome_of row RECONCILE_FIRST s n reason ref)))
       (\<lambda>res w. drive_spec budget row res \<and> stands digest good base i q (do_final_state res) (do_attempt res) w)"
    proof (rule total_bindP [OF total_apply_reconcile [OF c s row(2)]], intro total_given)
      fix x :: "lifecycle_state option \<times> string \<times> string option"
      assume x: "\<forall>st. fst x = Some st \<longrightarrow> st \<in> {ACCEPTED, REJECTED, FAILED_RETRYABLE} \<and>
        validate_transition s st = Inr ()"
      have spec: "drive_spec budget row (outcome_of row RECONCILE_FIRST st n reason ref)"
        if "st \<in> {s, ACCEPTED, REJECTED, FAILED_RETRYABLE}" for st reason ref
        using row s q that by (auto simp: drive_spec_def may_resend_def must_reconcile_def)
      have move: "total_prog (stands digest good base i q s n)
          (thenP (at_now p (set_lifecycle_state i st)) (returnP (outcome_of row RECONCILE_FIRST st n reason ref)))
          (\<lambda>res w. drive_spec budget row res \<and> stands digest good base i q (do_final_state res) (do_attempt res) w)"
        if "st \<in> {ACCEPTED, REJECTED, FAILED_RETRYABLE}" "validate_transition s st = Inr ()" for st reason ref
        using spec that(1) by (intro total_thenP [OF total_set_lifecycle [OF c that(2)]] total_return) simp
      show "total_prog (stands digest good base i q s n)
       ((\<lambda>(state, reason, ref). case state of
            Some new_state \<Rightarrow> thenP (at_now p (set_lifecycle_state i new_state))
              (returnP (outcome_of row RECONCILE_FIRST new_state n reason ref))
          | None \<Rightarrow> returnP (outcome_of row RECONCILE_FIRST s n reason ref)) x)
       (\<lambda>res w. drive_spec budget row res \<and> stands digest good base i q (do_final_state res) (do_attempt res) w)"
        using x spec by (auto split: prod.split option.split intro!: total_return move)
    qed
  qed
qed

end

context delivery_world
begin

lemma total_retry_one:
  assumes p: "daemon_of digest deliver reconcile p" and v: "delivery_request_valid digest q"
    and row: "du_request row = q" "rq_request_id q = i" "du_lifecycle_state row = s" "du_attempt_count row = n"
    and s: "s = PENDING \<or> s = FAILED_RETRYABLE" and q: "rq_surface_handoff q = None"
    and n: "0 \<le> n" "n < budget" "int64 budget"
  shows "total_prog (stands digest good base i q s n) (retry_one p row CAN_RETRY)
    (\<lambda>res w. drive_spec budget row res \<and> stands digest good base i q (do_final_state res) (do_attempt res) w)"
    (is "total_prog _ _ ?Q")
proof -
  have c: "clock_utc p" using p by (simp add: daemon_of_def)
  have i: "i \<noteq> []" using v row non_empty_not_Nil by (auto simp: delivery_request_valid_iff)
  have n1: "1 \<le> n + 1" "int64 (n + 1)" using n by (simp_all add: int64_def)
  let ?in = "stands digest good base i q IN_FLIGHT (n + 1)"
  have settle: "total_prog ?in (thenP (at_now p (set_lifecycle_state i st))
      (thenP (close_attempt p i (n + 1) st ref codes) (returnP (outcome_of row CAN_RETRY st (n + 1) reason ref')))) ?Q"
    if "st \<in> {ACCEPTED, REJECTED, UNKNOWN}" "[] \<notin> set codes" for st ref codes reason ref'
  proof (intro total_thenP [OF total_set_lifecycle [OF c]] total_thenP [OF total_close_attempt [OF c q i n1(1) _ n1(2)]])
    show "validate_transition IN_FLIGHT st = Inr ()" using that by (auto simp: validate_transition_def)
    show "[] \<notin> set codes" using that by simp
    show "total_prog (stands digest good base i q st (n + 1))
        (returnP (outcome_of row CAN_RETRY st (n + 1) reason ref')) ?Q"
      using that row s q n by (intro total_return) (auto simp: drive_spec_def may_resend_def)
  qed
  have answer: "total_prog ?in (attemptP (on_outside (dp_deliver p q)))
      (\<lambda>a w. (case a of Inl e \<Rightarrow> py_error_text e \<noteq> [] | Inr r \<Rightarrow> storable_receipt r) \<and> ?in w)"
  proof (rule totalI)
    fix w
    assume w: "?in w"
    obtain a out' where "deliver q (dw_outside w) = (a, out')" by (cases "deliver q (dw_outside w)")
    with deliver_answers [OF _ v this] p w show "\<exists>x t. attemptP (on_outside (dp_deliver p q)) w = (Inr x, t) \<and>
        (case x of Inl e \<Rightarrow> py_error_text e \<noteq> [] | Inr r \<Rightarrow> storable_receipt r) \<and> ?in t"
      by (simp add: attemptP_def on_outside_def stands_def daemon_of_def)
  qed
  show ?thesis
    unfolding retry_one_def Let_def row
  proof (rule total_bindP [OF total_open_attempt [OF c q i n(1) n1(2) row(1,2,3) s]], rule total_given, simp only:,
      rule total_bindP [OF answer], rule total_given)
    fix a :: "delivery_receipt result"
    assume a: "case a of Inl e \<Rightarrow> py_error_text e \<noteq> [] | Inr r \<Rightarrow> storable_receipt r"
    show "total_prog ?in (case a of
       Inl e \<Rightarrow>
         thenP (at_now p (set_lifecycle_state i UNKNOWN)) (
         thenP (close_attempt p i (n + 1) UNKNOWN None [''port_raised'', take 64 (py_error_text e)])
         (returnP (outcome_of row CAN_RETRY UNKNOWN (n + 1) ''port_raised'' (du_last_provider_receipt_ref row))))
     | Inr receipt \<Rightarrow>
         bindP (at_now p (\<lambda>_. apply_receipt q receipt (n + 1))) (\<lambda>(new_state, reason, ref).
         thenP (at_now p (set_lifecycle_state i new_state)) (
         thenP (close_attempt p i (n + 1) new_state ref [reason])
         (returnP (outcome_of row CAN_RETRY new_state (n + 1) reason ref))))) ?Q"
    proof (cases a)
      case (Inl e)
      with a show ?thesis by (auto intro: settle)
    next
      case (Inr r)
      with a have r: "delivery_receipt_valid r" "int64 (sf_version (dr_sync r))" by simp_all
      have "total_prog ?in (bindP (at_now p (\<lambda>_. apply_receipt q r (n + 1))) (\<lambda>(new_state, reason, ref).
         thenP (at_now p (set_lifecycle_state i new_state)) (
         thenP (close_attempt p i (n + 1) new_state ref [reason])
         (returnP (outcome_of row CAN_RETRY new_state (n + 1) reason ref))))) ?Q"
        by (rule total_bindP [OF total_apply_receipt [OF c r(1) n1(2) r(2)]])
          (auto simp: case_prod_beta intro!: total_given settle)
      with Inr show ?thesis by simp
    qed
  qed
qed

lemma total_drive_one:
  assumes p: "daemon_of digest deliver reconcile p" and v: "delivery_request_valid digest q"
    and row: "du_request row = q" "rq_request_id q = i" "du_lifecycle_state row = s" "du_attempt_count row = n"
    and n: "0 \<le> n"
  shows "total_prog (stands digest good base i q s n) (drive_one p row)
    (\<lambda>res w. drive_spec (dp_retry_budget p) row res \<and>
       stands digest good base i q (do_final_state res) (do_attempt res) w)" (is "total_prog ?P _ ?Q")
proof (cases "rq_surface_handoff q = None")
  case False
  then show ?thesis using row by (auto simp: drive_one_def Let_def drive_spec_def may_resend_def must_reconcile_def
        intro!: total_return)
next
  case True
  obtain d where d: "compute_retry_decision s n (dp_retry_budget p) = Inr d"
    using retry_total [OF n] p by (auto simp: daemon_of_def)
  note kinds = retry_kind_cases [OF d]
  have run: "drive_one p row = (if rd_kind d = DO_NOT_RETRY
       then returnP (outcome_of row DO_NOT_RETRY s n (rd_reason_code d) (du_last_provider_receipt_ref row))
       else if rd_kind d = RECONCILE_FIRST then reconcile_one p row RECONCILE_FIRST
       else retry_one p row CAN_RETRY)"
  proof (cases "rd_kind d")
    case CAN_RETRY
    with kinds have "s = PENDING \<or> s = FAILED_RETRYABLE" by simp
    with CAN_RETRY row d True show ?thesis by (auto simp: drive_one_def bindP_def fun_eq_iff)
  qed (use row d True in \<open>simp_all add: drive_one_def bindP_def fun_eq_iff\<close>)
  show ?thesis
  proof (cases "rd_kind d")
    case CAN_RETRY
    moreover have "int64 (dp_retry_budget p)" using p by (simp add: daemon_of_def)
    ultimately show ?thesis using kinds run total_retry_one [OF p v row _ True n] by simp
  next
    case DO_NOT_RETRY
    with run row kinds show ?thesis
      by (auto simp: drive_spec_def may_resend_def must_reconcile_def is_terminal_def intro!: total_return)
  next
    case RECONCILE_FIRST
    with kinds run total_reconcile_one [OF p v row _ True] show ?thesis by simp
  qed
qed

end


definition settled :: "hash \<Rightarrow> delivery_db \<Rightarrow> durable_request \<Rightarrow> daemon_outcome \<Rightarrow> bool" where
  "settled digest db row res \<longleftrightarrow>
     (\<exists>d. get_durable_request digest (rq_request_id (du_request row)) db = Inr (Some d) \<and>
        du_request d = du_request row \<and> du_lifecycle_state d = do_final_state res \<and>
        du_attempt_count d = do_attempt res)"

definition held :: "hash \<Rightarrow> delivery_db \<Rightarrow> durable_request \<Rightarrow> bool" where
  "held digest db row \<longleftrightarrow>
     (\<exists>r. find_request (rq_request_id (du_request row)) db = Some r \<and> durable_from_row digest r = Inr row)"

lemma row_holds_settled:
  assumes "row_holds digest base (rq_request_id (du_request row)) (du_request row) (do_final_state res) (do_attempt res) db"
  shows "settled digest db row res"
proof -
  from assms obtain r where "find_request (rq_request_id (du_request row)) db = Some r"
    "request_from_row digest r = Inr (du_request row)"
    "lifecycle_of (rw_lifecycle_state r) = Inr (do_final_state res)" "rw_attempt_count r = do_attempt res"
    by (auto simp: row_holds_def)
  then show ?thesis by (simp add: settled_def get_durable_request_def durable_from_row_def)
qed

lemma held_row_holds:
  assumes "db_inv digest db" and "held digest db row"
  shows "row_holds digest db (rq_request_id (du_request row)) (du_request row) (du_lifecycle_state row)
      (du_attempt_count row) db"
    and "delivery_request_valid digest (du_request row)" and "0 \<le> du_attempt_count row"
  using assms find_request_row [OF assms(1)] durable_from_row_valid
  by (fastforce simp: held_def row_holds_def row_fine_def durable_from_row_def bindR_Inr_iff)+

lemma settled_frame:
  "find_request (rq_request_id (du_request row)) db' = find_request (rq_request_id (du_request row)) db \<Longrightarrow>
    settled digest db' row res = settled digest db row res"
  by (simp add: settled_def get_durable_request_def)

lemma held_frame:
  "find_request (rq_request_id (du_request row)) db' = find_request (rq_request_id (du_request row)) db \<Longrightarrow>
    held digest db' row = held digest db row"
  by (simp add: held_def)

lemma unfinished_held:
  assumes inv: "db_inv digest db"
  obtains rows where "unfinished_requests digest db = Inr rows" "list_all (held digest db) rows"
    "distinct (map (\<lambda>d. rq_request_id (du_request d)) rows)"
proof -
  from unfinished_spec [OF inv] obtain rows where rows: "unfinished_requests digest db = Inr rows"
    "distinct (map (\<lambda>d. rq_request_id (du_request d)) rows)"
    "\<forall>d. d \<in> set rows \<longleftrightarrow> get_durable_request digest (rq_request_id (du_request d)) db = Inr (Some d) \<and>
       \<not> is_terminal (du_lifecycle_state d)" by blast
  then have "list_all (held digest db) rows"
    using get_durable_iff [OF inv] by (simp add: list_all_iff held_def)
  with that rows show thesis by blast
qed

context delivery_world
begin

lemma pass_over_rows:
  assumes p: "daemon_of digest deliver reconcile p"
  shows "db_inv digest (dw_db w) \<Longrightarrow> good (dw_outside w) \<Longrightarrow> list_all (held digest (dw_db w)) rows \<Longrightarrow>
    distinct (map (\<lambda>d. rq_request_id (du_request d)) rows) \<Longrightarrow>
    \<exists>outs w'. eachP (drive_one p) rows w = (Inr outs, w') \<and> db_inv digest (dw_db w') \<and> good (dw_outside w') \<and>
      list_all2 (\<lambda>row res. drive_spec (dp_retry_budget p) row res \<and> settled digest (dw_db w') row res) rows outs \<and>
      (\<forall>j. j \<notin> (\<lambda>d. rq_request_id (du_request d)) ` set rows \<longrightarrow> find_request j (dw_db w') = find_request j (dw_db w))"
proof (induction rows arbitrary: w)
  case Nil
  then show ?case by simp
next
  case (Cons row rows)
  let ?i = "rq_request_id (du_request row)"
  have held: "held digest (dw_db w) row" using Cons.prems by simp
  note row = held_row_holds [OF Cons.prems(1) held]
  have "stands digest good (dw_db w) ?i (du_request row) (du_lifecycle_state row) (du_attempt_count row) w"
    using row Cons.prems by (simp add: stands_def)
  with total_drive_one [OF p row(2) refl refl refl refl row(3), of "dw_db w"] obtain res w1 where
    run: "drive_one p row w = (Inr res, w1)" and spec: "drive_spec (dp_retry_budget p) row res" and
    st: "stands digest good (dw_db w) ?i (du_request row) (do_final_state res) (do_attempt res) w1"
    by (blast dest: totalD)
  have frame1: "find_request j (dw_db w1) = find_request j (dw_db w)" if "j \<noteq> ?i" for j
    using st that by (simp add: stands_def row_holds_def)
  have "rq_request_id (du_request d) \<noteq> ?i" if "d \<in> set rows" for d
    using Cons.prems(4) that by (auto simp: image_iff)
  then have "list_all (held digest (dw_db w1)) rows"
    using Cons.prems(3) held_frame [OF frame1] by (simp add: list_all_iff)
  with Cons.IH [of w1] Cons.prems st obtain outs w' where
    rest: "eachP (drive_one p) rows w1 = (Inr outs, w')" "db_inv digest (dw_db w')" "good (dw_outside w')"
      "list_all2 (\<lambda>row res. drive_spec (dp_retry_budget p) row res \<and> settled digest (dw_db w') row res) rows outs"
    and frame2: "\<forall>j. j \<notin> (\<lambda>d. rq_request_id (du_request d)) ` set rows \<longrightarrow>
      find_request j (dw_db w') = find_request j (dw_db w1)"
    by (auto simp: stands_def row_holds_def)
  have "settled digest (dw_db w1) row res"
    using st unfolding stands_def by (blast intro: row_holds_settled)
  then have "settled digest (dw_db w') row res"
    using frame2 Cons.prems settled_frame [of row "dw_db w'" "dw_db w1"] by simp
  with run rest spec frame1 frame2 show ?case by (auto simp: bindP_def)
qed

lemma pass_settles:
  assumes "daemon_of digest deliver reconcile p" and "db_inv digest (dw_db w)" and "good (dw_outside w)"
  shows "\<exists>rows outs w'. unfinished_requests digest (dw_db w) = Inr rows \<and> daemon_run p w = (Inr outs, w') \<and>
    list_all2 (\<lambda>row res. drive_spec (dp_retry_budget p) row res \<and> settled digest (dw_db w') row res) rows outs"
proof -
  obtain rows where rows: "unfinished_requests digest (dw_db w) = Inr rows"
    "list_all (held digest (dw_db w)) rows" "distinct (map (\<lambda>d. rq_request_id (du_request d)) rows)"
    using unfinished_held [OF assms(2)] by blast
  then have "daemon_run p w = eachP (drive_one p) rows w"
    using assms(1) by (simp add: daemon_run_def bindP_def on_db_def daemon_of_def)
  with rows pass_over_rows [OF assms rows(2,3)] show ?thesis by auto
qed

end

section \<open>No blind resend\<close>

text \<open>A carrier seen through the log of the requests handed to it.\<close>

definition logged :: "(delivery_request \<Rightarrow> ('o, delivery_receipt) prog) \<Rightarrow>
    delivery_request \<Rightarrow> (delivery_request list \<times> 'o, delivery_receipt) prog" where
  "logged deliver q = (\<lambda>(log, out). case deliver q out of (a, out') \<Rightarrow> (a, (log @ [q], out')))"

definition unlogged :: "(delivery_request \<Rightarrow> ('o, reconciliation) prog) \<Rightarrow>
    delivery_request \<Rightarrow> (delivery_request list \<times> 'o, reconciliation) prog" where
  "unlogged reconcile q = (\<lambda>(log, out). case reconcile q out of (a, out') \<Rightarrow> (a, (log, out')))"

definition sends :: "delivery_request list \<Rightarrow> ((delivery_request list \<times> 'o) daemon_world, 'a) prog \<Rightarrow> bool" where
  "sends qs m \<longleftrightarrow> (\<forall>w. \<exists>sent. fst (dw_outside (snd (m w))) = fst (dw_outside w) @ sent \<and> prefix sent qs \<and>
     (is_ok (fst (m w)) \<longrightarrow> sent = qs))"

lemma sends_bindP:
  assumes "sends xs m" and "\<And>x. sends ys (f x)"
  shows "sends (xs @ ys) (bindP m f)"
  unfolding sends_def
proof
  fix w
  obtain r t where m: "m w = (r, t)" by (cases "m w")
  from assms(1) m obtain sent where sent: "fst (dw_outside t) = fst (dw_outside w) @ sent" "prefix sent xs"
    "is_ok r \<longrightarrow> sent = xs" unfolding sends_def by (metis fst_conv snd_conv)
  show "\<exists>sent. fst (dw_outside (snd (bindP m f w))) = fst (dw_outside w) @ sent \<and> prefix sent (xs @ ys) \<and>
     (is_ok (fst (bindP m f w)) \<longrightarrow> sent = xs @ ys)"
  proof (cases r)
    case (Inl e)
    with m sent show ?thesis by auto
  next
    case (Inr x)
    from assms(2) [of x] obtain sent' where "fst (dw_outside (snd (f x t))) = fst (dw_outside t) @ sent'"
      "prefix sent' ys" "is_ok (fst (f x t)) \<longrightarrow> sent' = ys" unfolding sends_def by blast
    with m sent Inr show ?thesis by simp
  qed
qed

lemma sends_none_bindP: "sends [] m \<Longrightarrow> (\<And>x. sends ys (f x)) \<Longrightarrow> sends ys (bindP m f)"
  using sends_bindP [of "[]" m ys f] by simp

lemma sends_none_thenP: "sends [] m \<Longrightarrow> sends ys k \<Longrightarrow> sends ys (thenP m k)"
  by (simp add: thenP_def sends_none_bindP)

lemma sends_last_bindP: "sends xs m \<Longrightarrow> (\<And>x. sends [] (f x)) \<Longrightarrow> sends xs (bindP m f)"
  using sends_bindP [of xs m "[]" f] by simp

lemma sends_pure:
  "sends [] (returnP x)" "sends [] (liftP r)" "sends qs (raiseP e)" "sends [] (on_db m)" "sends [] (read_clock p)"
  by (auto simp: sends_def on_db_def read_clock_def split: prod.split)

lemma sends_at_now: "sends [] (at_now p m)"
  unfolding at_now_def by (intro sends_none_bindP sends_pure)

lemmas sends_rules = sends_none_bindP sends_none_thenP sends_pure sends_at_now

lemma sends_eachP: "(\<And>x. x \<in> set xs \<Longrightarrow> sends (g x) (f x)) \<Longrightarrow> sends (concat (map g xs)) (eachP f xs)"
  by (induction xs) (simp_all add: sends_pure sends_bindP sends_last_bindP)

lemma sends_outside:
  "sends [] (on_outside (unlogged reconcile q))" "sends [q] (attemptP (on_outside (logged deliver q)))"
  by (auto simp: sends_def on_outside_def unlogged_def logged_def attemptP_def split: prod.split)


lemma sends_open_attempt: "sends [] (open_attempt p row)"
  unfolding open_attempt_def Let_def by (intro sends_rules) (simp add: sends_rules)

lemma sends_settle: "sends [] (thenP (at_now p m) (thenP (close_attempt p i n st ref codes) (returnP x)))"
  unfolding close_attempt_def by (intro sends_rules)

lemma sends_drive_one:
  assumes "dp_deliver p = logged deliver" and "dp_reconcile p = unlogged reconcile"
  shows "sends (if may_resend (dp_retry_budget p) row then [du_request row] else []) (drive_one p row)"
proof (cases "rq_surface_handoff (du_request row) = None")
  case False
  then show ?thesis by (auto simp: drive_one_def Let_def may_resend_def sends_pure)
next
  case True
  show ?thesis
  proof (cases "compute_retry_decision (du_lifecycle_state row) (du_attempt_count row) (dp_retry_budget p)")
    case (Inl e)
    then have "drive_one p row = raiseP e"
      using True by (simp add: drive_one_def Let_def bindP_def fun_eq_iff)
    then show ?thesis by (simp add: sends_pure)
  next
    case (Inr d)
    have "sends [] (reconcile_one p row (rd_kind d))"
      unfolding reconcile_one_def Let_def assms(2)
      by (intro sends_rules sends_outside) (auto split: prod.split option.split intro!: sends_rules)
    moreover have "sends [du_request row] (retry_one p row (rd_kind d))"
      unfolding retry_one_def Let_def assms(1)
      by (intro sends_none_bindP [OF sends_open_attempt] sends_last_bindP [OF sends_outside(2)])
        (auto split: sum.split prod.split intro!: sends_none_bindP sends_at_now sends_settle)
    moreover have "rd_kind d = CAN_RETRY \<longleftrightarrow> may_resend (dp_retry_budget p) row"
      using True retry_kind_cases(2) [OF Inr] by (simp add: may_resend_def)
    moreover have "drive_one p row =
        (if rd_kind d = DO_NOT_RETRY then returnP (outcome_of row DO_NOT_RETRY (du_lifecycle_state row)
            (du_attempt_count row) (rd_reason_code d) (du_last_provider_receipt_ref row))
         else if rd_kind d = RECONCILE_FIRST then reconcile_one p row (rd_kind d)
         else if du_lifecycle_state row \<in> {FAILED_RETRYABLE, PENDING, UNKNOWN} then retry_one p row (rd_kind d)
         else raiseP (AssertionError ''unreachable daemon branch''))"
      using True Inr by (simp add: drive_one_def Let_def bindP_def fun_eq_iff)
    ultimately show ?thesis
      by (cases "rd_kind d") (auto simp: sends_pure may_resend_def)
  qed
qed

lemma pass_sends:
  assumes "dp_deliver p = logged deliver" and "dp_reconcile p = unlogged reconcile"
    and "unfinished_requests (dp_digest p) (dw_db w) = Inr rows"
  shows "\<exists>sent. fst (dw_outside (snd (daemon_run p w))) = fst (dw_outside w) @ sent \<and>
    prefix sent (map du_request (filter (may_resend (dp_retry_budget p)) rows)) \<and>
    (is_ok (fst (daemon_run p w)) \<longrightarrow> sent = map du_request (filter (may_resend (dp_retry_budget p)) rows))"
proof -
  let ?g = "\<lambda>row. if may_resend (dp_retry_budget p) row then [du_request row] else []"
  have "concat (map ?g rows) = map du_request (filter (may_resend (dp_retry_budget p)) rows)"
    by (induction rows) auto
  moreover have "sends (concat (map ?g rows)) (eachP (drive_one p) rows)"
    using sends_drive_one [OF assms(1,2)] by (rule sends_eachP)
  moreover have "daemon_run p w = eachP (drive_one p) rows w"
    using assms(3) by (simp add: daemon_run_def bindP_def on_db_def)
  ultimately show ?thesis by (simp add: sends_def)
qed


definition logged_pass :: "int \<Rightarrow> (delivery_request list \<times> carrier) daemon_pass" where
  "logged_pass budget = \<lparr>dp_digest = (\<lambda>b. ''d''), dp_deliver = logged carrier_deliver,
     dp_reconcile = unlogged noop_reconcile, dp_retry_budget = budget, dp_now = (\<lambda>n. utc (int n))\<rparr>"

lemma sample_file_unfinished:
  "unfinished_requests (\<lambda>b. ''d'') (sample_file\<lparr>db_requests :=
      [request_to_row (sample_request ''q1'' None) IN_FLIGHT]\<rparr>) = Inr
    [\<lparr>du_request = sample_request ''q1'' None, du_lifecycle_state = IN_FLIGHT, du_attempt_count = 0,
     du_last_attempt_at = None, du_last_reconcile_at = None, du_last_provider_receipt_ref = None\<rparr>]"
  using request_row_reads_back [OF sample_requests_ok(1), of IN_FLIGHT]
  by (simp add: unfinished_requests_def durable_from_row_def)



definition sample_world :: "(delivery_request list \<times> carrier) daemon_world" where
  "sample_world = \<lparr>dw_db = sample_file, dw_outside = ([], new_carrier None), dw_clock = 0\<rparr>"

lemma logged_pass_ok:
  "0 \<le> budget \<Longrightarrow> int64 budget \<Longrightarrow>
    daemon_of (\<lambda>b. ''d'') (logged carrier_deliver) (unlogged noop_reconcile) (logged_pass budget)"
  by (simp add: daemon_of_def logged_pass_def clock_utc_def)

lemma logged_world:
  assumes "delivery_world digest deliver reconcile good"
  shows "delivery_world digest (logged deliver) (unlogged reconcile) (\<lambda>out. good (snd out))"
proof unfold_locales
  fix out q a out'
  assume "good (snd out)" "delivery_request_valid digest q" "logged deliver q out = (a, out')"
  then show "good (snd out') \<and> (case a of Inl e \<Rightarrow> py_error_text e \<noteq> [] | Inr r \<Rightarrow> storable_receipt r)"
    using delivery_world.deliver_answers [OF assms] by (fastforce simp: logged_def split: prod.splits)
next
  fix out :: "delivery_request list \<times> 'a" and q
  assume "good (snd out)" "delivery_request_valid digest q"
  then show "\<exists>res out'. unlogged reconcile q out = (Inr res, out') \<and> good (snd out') \<and>
      (\<forall>ref m. res = Resolved_Accept ref m \<longrightarrow> ref \<noteq> [])"
    using delivery_world.reconcile_answers [OF assms, of "snd out" q]
    by (auto simp: unlogged_def split: prod.split)
qed



section \<open>What the pass leaves out\<close>

text \<open>
  The record that closes an attempt has the id of the record that opened it, so it is not written:
  the attempt row of a plain request keeps the outcome IN_FLIGHT, no end time and no provider reference.
\<close>

lemma attempt_outcome_dropped:
  assumes "raise_first (attempt_checks a) = None" and "find_request (da_request_id a) db = Some r"
    and "rw_surface_handoff r = None" and "find_attempt (da_attempt_id a) db = Some existing"
  shows "record_attempt a db = (Inr False, db)"
  using assms by (simp add: record_attempt_def)

end
