(* ===== verification/Delivery_Switch.thy ===== *)
theory Delivery_Switch
  imports Delivery_Daemon
begin

text \<open>
  What \<^verbatim>\<open>delivery/daemon.py\<close> does not read: the kill switch of the file. A non-interference
  argument over the operations of the file, up to a whole recovery pass.
\<close>

text \<open>
  Two passes that start from files differing only in the kill-switch table, next to the same outside
  world: \<open>blind m\<close> says that \<open>m\<close> answers the same from both, and leaves two worlds that differ in
  nothing else.
\<close>

definition with_switch :: "kill_table \<Rightarrow> 'o daemon_world \<Rightarrow> 'o daemon_world" where
  "with_switch t w = w\<lparr>dw_db := (dw_db w)\<lparr>db_kill_switch := t\<rparr>\<rparr>"

abbreviation blind :: "kill_table \<Rightarrow> ('o daemon_world, 'a) prog \<Rightarrow> bool" where
  "blind t m \<equiv> agree (\<lambda>w v. v = with_switch t w) m m"

abbreviation blind_file :: "kill_table \<Rightarrow> (delivery_db, 'a) prog \<Rightarrow> bool" where
  "blind_file t m \<equiv> agree (\<lambda>db db'. db' = db\<lparr>db_kill_switch := t\<rparr>) m m"

named_theorems blind_rules

lemma blind_iff: "blind t m \<longleftrightarrow>
    (\<forall>w. fst (m (with_switch t w)) = fst (m w) \<and> snd (m (with_switch t w)) = with_switch t (snd (m w)))"
  by (auto simp: agree_def)

lemma blind_file_iff: "blind_file t m \<longleftrightarrow>
    (\<forall>db. fst (m (db\<lparr>db_kill_switch := t\<rparr>)) = fst (m db) \<and>
       snd (m (db\<lparr>db_kill_switch := t\<rparr>)) = (snd (m db))\<lparr>db_kill_switch := t\<rparr>)"
  by (auto simp: agree_def)

lemma on_db_iff: "on_db m w = (fst (m (dw_db w)), w\<lparr>dw_db := snd (m (dw_db w))\<rparr>)"
  by (simp add: on_db_def case_prod_beta)

lemma blind_on_db: "blind_file t m \<Longrightarrow> blind t (on_db m)"
  unfolding blind_iff blind_file_iff by (simp add: on_db_iff with_switch_def)

lemma blind_outside [blind_rules]: "blind t (on_outside m)" "blind t (read_clock p)"
  unfolding blind_iff by (simp_all add: on_outside_def read_clock_def with_switch_def case_prod_beta)

lemma attemptP_iff: "attemptP m w = (Inr (fst (m w)), snd (m w))"
  by (simp add: attemptP_def case_prod_beta)

lemma blind_attempt: "blind t m \<Longrightarrow> blind t (attemptP m)"
  by (simp add: blind_iff attemptP_iff)

lemma ignore_iff: "ignore_value_error m s =
    (case fst (m s) of Inl e \<Rightarrow> if (\<exists>x. e = ValueError x) then Inr () else Inl e | Inr x \<Rightarrow> Inr (), snd (m s))"
  by (cases "m s"; cases "fst (m s)") (auto simp: ignore_value_error_def split: py_error.split)

lemma blind_ignore: "blind_file t m \<Longrightarrow> blind_file t (ignore_value_error m)"
  by (simp add: blind_file_iff ignore_iff)

lemma blind_at_now: "(\<And>tm. blind_file t (m tm)) \<Longrightarrow> blind t (at_now p m)"
  unfolding at_now_def by (intro agree_bindP blind_outside blind_on_db)

lemma find_with_switch [simp]:
  "find_request i (db\<lparr>db_kill_switch := t\<rparr>) = find_request i db"
  "find_receipt i (db\<lparr>db_kill_switch := t\<rparr>) = find_receipt i db"
  "find_attempt i (db\<lparr>db_kill_switch := t\<rparr>) = find_attempt i db"
  "update_request i f (db\<lparr>db_kill_switch := t\<rparr>) = (update_request i f db)\<lparr>db_kill_switch := t\<rparr>"
  by (simp_all add: find_request_def find_receipt_def find_attempt_def update_request_def)

lemma blind_lifecycle [blind_rules]: "blind_file t (set_lifecycle_state i st tm)"
  by (simp add: blind_file_iff set_lifecycle_state_def split: option.split sum.split)

lemma blind_increment [blind_rules]: "blind_file t (increment_attempt i tm)"
  by (simp add: blind_file_iff increment_attempt_def Let_def split: option.split)

lemma blind_file_ops [blind_rules]:
  "blind_file t (record_reconcile i tm)" "blind_file t (record_provider_receipt_ref i ref)"
  "blind_file t (readP (unfinished_requests digest))"
  by (simp_all add: blind_file_iff record_reconcile_def record_provider_receipt_ref_def unfinished_requests_def
      split: option.split)

lemma blind_record_receipt [blind_rules]: "blind_file t (record_receipt r i pr pm n)"
  by (simp add: blind_file_iff record_receipt_def split: option.split sum.split)

lemma blind_record_attempt [blind_rules]: "blind_file t (record_attempt a)"
  unfolding blind_file_iff
proof
  fix db
  show "fst (record_attempt a (db\<lparr>db_kill_switch := t\<rparr>)) = fst (record_attempt a db) \<and>
      snd (record_attempt a (db\<lparr>db_kill_switch := t\<rparr>)) = (snd (record_attempt a db))\<lparr>db_kill_switch := t\<rparr>"
    by (cases "raise_first (attempt_checks a)"; cases "find_request (da_request_id a) db";
        cases "find_attempt (da_attempt_id a) db")
      (auto simp: record_attempt_def split: sum.split option.split)
qed

lemma blind_reconcile_one: "blind t (reconcile_one p row k)"
proof -
  have "blind_file t (apply_reconcile q result)" for q result
    by (cases result) (auto intro!: agree_rules blind_rules)
  then show ?thesis
    unfolding reconcile_one_def Let_def
    by (auto split: prod.split option.split intro!: agree_rules blind_rules blind_at_now)
qed

lemma blind_retry_one: "blind t (retry_one p row k)"
proof -
  have "blind_file t (apply_receipt q receipt n)" for q receipt n
    unfolding apply_receipt_def Let_def
    by (auto split: delivery_status.split intro!: agree_rules blind_rules blind_ignore)
  moreover have "blind t (open_attempt p row)"
    unfolding open_attempt_def Let_def by (intro agree_rules blind_rules blind_at_now)
  moreover have "blind t (close_attempt p i n st ref codes)" for i n st ref codes
    unfolding close_attempt_def by (intro agree_rules blind_rules blind_on_db)
  ultimately show ?thesis
    unfolding retry_one_def Let_def
    by (auto split: sum.split prod.split intro!: agree_rules blind_rules blind_at_now blind_attempt)
qed

lemma blind_daemon_run: "blind t (daemon_run p)"
proof -
  have "blind t (drive_one p row)" for row
    unfolding drive_one_def Let_def by (intro agree_rules blind_reconcile_one blind_retry_one)
  then show ?thesis
    unfolding daemon_run_def by (intro agree_rules blind_on_db blind_rules)
qed


text \<open>So with the global switch off, when the consult denies the request's channel and target, a
  pending request is still handed to the carrier.\<close>

definition off_world :: "(delivery_request list \<times> carrier) daemon_world" where
  "off_world = \<lparr>dw_db = sample_file\<lparr>db_requests := [request_to_row (sample_request ''q1'' None) PENDING],
      db_kill_switch := snd (set_global False (utc 1) (db_kill_switch sample_file))\<rparr>,
     dw_outside = ([], new_carrier None), dw_clock = 0\<rparr>"

lemma pending_unfinished:
  "unfinished_requests (\<lambda>b. ''d'') (dw_db off_world) = Inr
    [\<lparr>du_request = sample_request ''q1'' None, du_lifecycle_state = PENDING, du_attempt_count = 0,
     du_last_attempt_at = None, du_last_reconcile_at = None, du_last_provider_receipt_ref = None\<rparr>]"
  using request_row_reads_back [OF sample_requests_ok(1), of PENDING]
  by (simp add: unfinished_requests_def durable_from_row_def off_world_def)

lemma switched_off_still_sends:
  "kill_decide ''chat'' ''bob'' (db_kill_switch (dw_db off_world)) =
     Inr \<lparr>kd_allowed = False, kd_reason_code = ''global_off''\<rparr> \<and>
   fst (dw_outside (snd (daemon_run (logged_pass 3) off_world))) = [sample_request ''q1'' None]"
proof
  show "kill_decide ''chat'' ''bob'' (db_kill_switch (dw_db off_world)) =
     Inr \<lparr>kd_allowed = False, kd_reason_code = ''global_off''\<rparr>"
    by (simp add: kill_decide_def off_world_def sample_file_def new_file_def ensure_kill_switch_schema_def
        set_global_def read_row_def validate_state_def validate_block_map_def)
next
  have "kill_wf (db_kill_switch (dw_db off_world))"
    by (simp add: off_world_def sample_file_def new_file_def ensure_kill_switch_schema_def kill_wf_def
        set_global_def read_row_def validate_state_def validate_block_map_def)
  moreover have "row_fine (\<lambda>b. ''d'') (request_to_row (sample_request ''q1'' None) PENDING)"
    by (rule new_request_fine [OF sample_requests_ok(1)])
  ultimately have inv: "db_inv (\<lambda>b. ''d'') (dw_db off_world)"
    by (simp add: db_inv_def off_world_def sample_file_def new_file_def empty_delivery_db_def)
  have p: "daemon_of (\<lambda>b. ''d'') (logged carrier_deliver) (unlogged noop_reconcile) (logged_pass 3)"
    by (rule logged_pass_ok) (simp_all add: int64_def)
  have good: "carrier_inv (snd (dw_outside off_world))" by (simp add: off_world_def)
  have "is_ok (fst (daemon_run (logged_pass 3) off_world))"
    using delivery_world.pass_settles [OF logged_world [OF carrier_noop.delivery_world_axioms] p inv good] by auto
  moreover have "is_ok (fst (daemon_run (logged_pass 3) off_world)) \<Longrightarrow>
      fst (dw_outside (snd (daemon_run (logged_pass 3) off_world))) = [sample_request ''q1'' None]"
  proof -
    assume ok: "is_ok (fst (daemon_run (logged_pass 3) off_world))"
    have q: "rq_surface_handoff (sample_request ''q1'' None) = None" by (simp add: sample_request_def)
    have "fst (dw_outside off_world) = []" by (simp add: off_world_def)
    with pass_sends [of "logged_pass 3" carrier_deliver noop_reconcile off_world] pending_unfinished q ok
    show ?thesis by (simp add: logged_pass_def may_resend_def)
  qed
  ultimately show "fst (dw_outside (snd (daemon_run (logged_pass 3) off_world))) = [sample_request ''q1'' None]"
    by blast
qed

end
