(* ===== verification/Intent_Contracts.thy ===== *)
theory Intent_Contracts
  imports MR_Contracts Json_Value
begin

text \<open>
  The typed Intent contracts of \<^verbatim>\<open>contracts/intent.py\<close>: intents with their schedule and the evidence
  of their score, transitions, wakes and wake signals, each with the checks of its
  \<^verbatim>\<open>__post_init__\<close>. Strengths, scores and amounts are rationals.
\<close>

section \<open>Enumerations\<close>

datatype intent_status = CANDIDATE | DEFERRED | ALLOWED | BLOCKED | EXPIRED | COMPLETED | SUPERSEDED

fun intent_status_value :: "intent_status \<Rightarrow> string" where
  "intent_status_value CANDIDATE = ''candidate''"
| "intent_status_value DEFERRED = ''deferred''"
| "intent_status_value ALLOWED = ''allowed''"
| "intent_status_value BLOCKED = ''blocked''"
| "intent_status_value EXPIRED = ''expired''"
| "intent_status_value COMPLETED = ''completed''"
| "intent_status_value SUPERSEDED = ''superseded''"

definition intent_status_of :: "string \<Rightarrow> intent_status result" where
  "intent_status_of text = enum_of intent_status_value
     [CANDIDATE, DEFERRED, ALLOWED, BLOCKED, EXPIRED, COMPLETED, SUPERSEDED] ''IntentStatus'' text"

lemma intent_status_of_value [simp]: "intent_status_of (intent_status_value s) = Inr s"
  by (cases s) (simp_all add: intent_status_of_def enum_of_def)

datatype reconsideration_policy = ON_DUE | ON_CONTEXT_CHANGE | MANUAL | NEVER

fun reconsideration_value :: "reconsideration_policy \<Rightarrow> string" where
  "reconsideration_value ON_DUE = ''on_due''"
| "reconsideration_value ON_CONTEXT_CHANGE = ''on_context_change''"
| "reconsideration_value MANUAL = ''manual''"
| "reconsideration_value NEVER = ''never''"

definition reconsideration_of :: "string \<Rightarrow> reconsideration_policy result" where
  "reconsideration_of text =
     enum_of reconsideration_value [ON_DUE, ON_CONTEXT_CHANGE, MANUAL, NEVER] ''ReconsiderationPolicy'' text"

lemma reconsideration_of_value [simp]: "reconsideration_of (reconsideration_value r) = Inr r"
  by (cases r) (simp_all add: reconsideration_of_def enum_of_def)

section \<open>Score evidence\<close>

record score_contribution =
  co_source_kind :: string
  co_source_ref :: string
  co_amount :: rat

definition contribution_checks :: "score_contribution \<Rightarrow> (bool \<times> py_error) list" where
  "contribution_checks c =
     [require_non_empty (co_source_kind c) ''source_kind'', require_non_empty (co_source_ref c) ''source_ref'']"

definition mk_contribution :: "score_contribution \<Rightarrow> score_contribution result" where
  "mk_contribution c = guarded (contribution_checks c) c"

record score_trace =
  st_trace_id :: string
  st_scope :: scope
  st_rule_id :: string
  st_intent_id :: string
  st_contributions :: "score_contribution list"
  st_unclamped_score :: rat
  st_final_strength :: rat
  st_admitted :: bool
  st_reason_codes :: "string list"
  st_created_at :: datetime
  st_surface_controls_ref :: "string option"
  st_surface_dependency_digest :: "string option"
  st_overlap_validation_ref :: "string option"
  st_surface_weights :: "(string \<times> rat) list"
  st_surface_recipe_ref :: "string option"
  st_ruleset_ref :: "string option"

definition optional_non_empty :: "string option \<Rightarrow> string \<Rightarrow> (bool \<times> py_error) list" where
  "optional_non_empty v name = (case v of None \<Rightarrow> [] | Some s \<Rightarrow> [require_non_empty s name])"

definition score_trace_checks :: "score_trace \<Rightarrow> (bool \<times> py_error) list" where
  "score_trace_checks t =
     [require_non_empty (st_trace_id t) ''trace_id'',
      require_non_empty (st_rule_id t) ''rule_id'',
      require_non_empty (st_intent_id t) ''intent_id'',
      (\<not> (0 \<le> st_final_strength t \<and> st_final_strength t \<le> 1), ValueError ''final_strength must be in [0, 1]'')] @
     map (\<lambda>code. require_non_empty code ''reason_codes entries'') (st_reason_codes t) @
     [require_aware_utc (st_created_at t) ''created_at''] @
     optional_non_empty (st_surface_controls_ref t) ''surface_controls_ref'' @
     optional_non_empty (st_surface_dependency_digest t) ''surface_dependency_digest'' @
     optional_non_empty (st_overlap_validation_ref t) ''overlap_validation_ref''"

definition mk_score_trace :: "score_trace \<Rightarrow> score_trace result" where
  "mk_score_trace t = guarded (score_trace_checks t) t"

definition score_trace_valid :: "score_trace \<Rightarrow> bool" where
  "score_trace_valid t \<longleftrightarrow> all_clear (score_trace_checks t) \<and>
     list_all (\<lambda>c. all_clear (contribution_checks c)) (st_contributions t)"

section \<open>Intents\<close>

record intent =
  in_intent_id :: string
  in_scope :: scope
  in_origin_runtime_id :: string
  in_kind :: string
  in_strength :: rat
  in_earliest_at :: "datetime option"
  in_due_at :: "datetime option"
  in_expires_at :: "datetime option"
  in_reconsideration_policy :: reconsideration_policy
  in_cause_refs :: "string list"
  in_state_refs :: "string list"
  in_status :: intent_status
  in_sync :: sync_fields
  in_surface_use :: "score_trace option"

definition intent_schedule :: "intent \<Rightarrow> datetime list" where
  "intent_schedule i = map the (filter (\<lambda>v. v \<noteq> None) [in_earliest_at i, in_due_at i, in_expires_at i])"

definition intent_checks :: "intent \<Rightarrow> (bool \<times> py_error) list" where
  "intent_checks i =
     [require_non_empty (in_intent_id i) ''intent_id'',
      require_non_empty (in_origin_runtime_id i) ''origin_runtime_id'',
      require_non_empty (in_kind i) ''kind'',
      (\<not> (0 \<le> in_strength i \<and> in_strength i \<le> 1), ValueError ''strength must be in [0, 1]'')] @
     map (\<lambda>v. require_aware_utc v ''intent schedule timestamps'') (intent_schedule i) @
     [(sort_key dt_instant (intent_schedule i) \<noteq> intent_schedule i,
       ValueError ''intent schedule must be earliest_at <= due_at <= expires_at'')] @
     map (\<lambda>r. require_non_empty r ''cause_refs entries'') (in_cause_refs i) @
     map (\<lambda>r. require_non_empty r ''state_refs entries'') (in_state_refs i) @
     validate_sync_fields (in_sync i) (in_scope i) (in_origin_runtime_id i) (in_intent_id i) None @
     [(case in_surface_use i of None \<Rightarrow> False | Some t \<Rightarrow>
         \<not> st_admitted t \<or> st_intent_id t \<noteq> in_intent_id i \<or> st_scope t \<noteq> in_scope i \<or>
         st_surface_controls_ref t = None,
       ValueError ''Intent Surface-use evidence must match admitted Intent'')]"

definition mk_intent :: "intent \<Rightarrow> intent result" where
  "mk_intent i = guarded (intent_checks i) i"

definition intent_valid :: "intent \<Rightarrow> bool" where
  "intent_valid i \<longleftrightarrow> scope_valid (in_scope i) \<and> all_clear (intent_checks i) \<and>
     (case in_surface_use i of None \<Rightarrow> True | Some t \<Rightarrow> score_trace_valid t)"

lemma intent_checks_clear:
  "all_clear (intent_checks i) \<longleftrightarrow>
    non_empty (in_intent_id i) \<and> non_empty (in_origin_runtime_id i) \<and> non_empty (in_kind i) \<and>
    0 \<le> in_strength i \<and> in_strength i \<le> 1 \<and> list_all is_aware_utc (intent_schedule i) \<and>
    sort_key dt_instant (intent_schedule i) = intent_schedule i \<and>
    list_all non_empty (in_cause_refs i) \<and> list_all non_empty (in_state_refs i) \<and>
    sf_scope (in_sync i) = in_scope i \<and> sf_origin_runtime_id (in_sync i) = in_origin_runtime_id i \<and>
    sf_object_id (in_sync i) = in_intent_id i \<and> non_empty (sf_idempotency_key (in_sync i)) \<and>
    1 \<le> sf_version (in_sync i) \<and>
    (\<forall>t. in_surface_use i = Some t \<longrightarrow> st_admitted t \<and> st_intent_id t = in_intent_id i \<and>
       st_scope t = in_scope i \<and> st_surface_controls_ref t \<noteq> None)"
  by (auto simp: intent_checks_def split: option.splits)

section \<open>Transitions and wakes\<close>

record intent_transition =
  tr_transition_id :: string
  tr_scope :: scope
  tr_origin_runtime_id :: string
  tr_intent_id :: string
  tr_from_status :: intent_status
  tr_to_status :: intent_status
  tr_reason_codes :: "string list"
  tr_occurred_at :: datetime
  tr_version :: int
  tr_sync :: sync_fields

definition transition_checks :: "intent_transition \<Rightarrow> (bool \<times> py_error) list" where
  "transition_checks t =
     [require_non_empty (tr_transition_id t) ''transition_id'',
      require_non_empty (tr_origin_runtime_id t) ''origin_runtime_id'',
      require_non_empty (tr_intent_id t) ''intent_id'',
      (tr_from_status t = tr_to_status t, ValueError ''intent transition statuses must differ''),
      (tr_version t < 2, ValueError ''intent transition version must be at least 2'')] @
     map (\<lambda>code. require_non_empty code ''reason_codes entries'') (tr_reason_codes t) @
     [require_aware_utc (tr_occurred_at t) ''occurred_at''] @
     validate_sync_fields (tr_sync t) (tr_scope t) (tr_origin_runtime_id t) (tr_transition_id t) None @
     [(sf_version (tr_sync t) \<noteq> tr_version t, ValueError ''sync.version must match intent transition version'')]"

definition mk_transition :: "intent_transition \<Rightarrow> intent_transition result" where
  "mk_transition t = guarded (transition_checks t) t"

definition transition_valid :: "intent_transition \<Rightarrow> bool" where
  "transition_valid t \<longleftrightarrow> scope_valid (tr_scope t) \<and> all_clear (transition_checks t)"

lemma transition_checks_clear:
  "all_clear (transition_checks t) \<longleftrightarrow>
    non_empty (tr_transition_id t) \<and> non_empty (tr_origin_runtime_id t) \<and> non_empty (tr_intent_id t) \<and>
    tr_from_status t \<noteq> tr_to_status t \<and> 2 \<le> tr_version t \<and> list_all non_empty (tr_reason_codes t) \<and>
    is_aware_utc (tr_occurred_at t) \<and> sf_scope (tr_sync t) = tr_scope t \<and>
    sf_origin_runtime_id (tr_sync t) = tr_origin_runtime_id t \<and>
    sf_object_id (tr_sync t) = tr_transition_id t \<and> non_empty (sf_idempotency_key (tr_sync t)) \<and>
    sf_version (tr_sync t) = tr_version t"
  by (auto simp: transition_checks_def)

record intent_wake =
  wk_wake_id :: string
  wk_scope :: scope
  wk_intent_id :: string
  wk_reason :: string
  wk_woken_at :: datetime
  wk_intent_version :: int

definition wake_checks :: "intent_wake \<Rightarrow> (bool \<times> py_error) list" where
  "wake_checks w =
     [require_non_empty (wk_wake_id w) ''wake_id'', require_non_empty (wk_intent_id w) ''intent_id'',
      require_non_empty (wk_reason w) ''reason'',
      (wk_intent_version w < 1, ValueError ''intent_version must be at least 1''),
      require_aware_utc (wk_woken_at w) ''woken_at'']"

definition mk_wake :: "intent_wake \<Rightarrow> intent_wake result" where
  "mk_wake w = guarded (wake_checks w) w"

record wake_signal =
  ws_wake_id :: string
  ws_runtime_id :: string
  ws_scope :: scope
  ws_intent_id :: string
  ws_action_type :: string
  ws_policy_decision_ref :: string
  ws_interaction_id :: string
  ws_woken_at :: datetime
  ws_reason :: string
  ws_intent_version :: int

definition wake_signal_checks :: "wake_signal \<Rightarrow> (bool \<times> py_error) list" where
  "wake_signal_checks w =
     [require_non_empty (ws_wake_id w) ''wake_id'', require_non_empty (ws_runtime_id w) ''runtime_id'',
      require_non_empty (ws_intent_id w) ''intent_id'', require_non_empty (ws_action_type w) ''action_type'',
      require_non_empty (ws_policy_decision_ref w) ''policy_decision_ref'',
      require_non_empty (ws_interaction_id w) ''interaction_id'',
      (ws_intent_version w < 1, ValueError ''intent_version must be at least 1''),
      require_aware_utc (ws_woken_at w) ''woken_at'']"

definition to_intent_wake :: "wake_signal \<Rightarrow> intent_wake result" where
  "to_intent_wake w = mk_wake \<lparr>wk_wake_id = ws_wake_id w, wk_scope = ws_scope w,
     wk_intent_id = ws_intent_id w, wk_reason = ws_reason w, wk_woken_at = ws_woken_at w,
     wk_intent_version = ws_intent_version w\<rparr>"

section \<open>Engine results\<close>

record engine_result =
  er_candidates :: "intent list"
  er_traces :: "score_trace list"

text \<open>\<^verbatim>\<open>traces_by_intent\<close>: the last trace of an intent wins.\<close>

definition trace_by_intent :: "score_trace list \<Rightarrow> string \<Rightarrow> score_trace option" where
  "trace_by_intent traces i = map_of (rev (map (\<lambda>t. (st_intent_id t, t)) traces)) i"

definition engine_result_checks :: "engine_result \<Rightarrow> (bool \<times> py_error) list" where
  "engine_result_checks e =
     [(\<not> distinct (map in_intent_id (er_candidates e)), ValueError ''candidate intent ids must be unique''),
      (list_ex (\<lambda>c. trace_by_intent (er_traces e) (in_intent_id c) = None) (er_candidates e),
       ValueError ''every candidate must have an intent score trace'')] @
     concat (map (\<lambda>c. case trace_by_intent (er_traces e) (in_intent_id c) of
         None \<Rightarrow> []
       | Some t \<Rightarrow>
           [(\<not> st_admitted t, ValueError ''candidate intent score trace must be admitted''),
            (st_scope t \<noteq> in_scope c, ValueError ''candidate and intent score trace scope must match''),
            (st_final_strength t \<noteq> in_strength c,
             ValueError ''candidate and intent score trace strength must match'')]) (er_candidates e))"

definition mk_engine_result :: "engine_result \<Rightarrow> engine_result result" where
  "mk_engine_result e = guarded (engine_result_checks e) e"

end
