(* ===== verification/Intent_Ledger.thy ===== *)
theory Intent_Ledger
  imports Intent_Contracts
begin

text \<open>
  The \<^verbatim>\<open>IntentBackend\<close> protocol of \<^verbatim>\<open>intents/persistence.py\<close>: the operations a backend offers, the
  check that both backends run before they append a version, an abstract append-only ledger with the
  same operations, and the locale \<open>intent_store\<close> that states what a backend promises: every operation
  returns what the ledger returns and leaves a state that stands for the ledger's.
\<close>

section \<open>The protocol\<close>

record 's intent_backend =
  ib_append_initial :: "intent \<Rightarrow> ('s, intent) prog"
  ib_apply_transition :: "intent \<Rightarrow> intent \<Rightarrow> intent_transition \<Rightarrow> ('s, intent) prog"
  ib_current :: "scope \<Rightarrow> 's \<Rightarrow> intent list result"
  ib_history :: "scope \<Rightarrow> string \<Rightarrow> 's \<Rightarrow> intent list result"
  ib_transitions :: "scope \<Rightarrow> string \<Rightarrow> 's \<Rightarrow> intent_transition list result"

abbreviation in_version :: "intent \<Rightarrow> int" where
  "in_version i \<equiv> sf_version (in_sync i)"

abbreviation in_key :: "intent \<Rightarrow> string" where
  "in_key i \<equiv> sf_idempotency_key (in_sync i)"

definition restamp :: "intent \<Rightarrow> intent_status \<Rightarrow> sync_fields \<Rightarrow> intent" where
  "restamp i status sync = i\<lparr>in_status := status, in_sync := sync\<rparr>"

definition transition_shape_checks ::
  "intent \<Rightarrow> intent \<Rightarrow> intent_transition \<Rightarrow> intent option \<Rightarrow> (bool \<times> py_error) list" where
  "transition_shape_checks before after t current =
     [(current \<noteq> Some before, ValueError ''transition before version is not current''),
      (in_scope after \<noteq> in_scope before \<or> in_intent_id after \<noteq> in_intent_id before,
       ValueError ''transition cannot change Intent identity''),
      (in_origin_runtime_id after \<noteq> in_origin_runtime_id before,
       ValueError ''transition cannot change Intent origin''),
      (in_version after \<noteq> in_version before + 1,
       ValueError ''transition must increment Intent version by one''),
      (after \<noteq> restamp before (in_status after) (in_sync after),
       ValueError ''transition cannot change immutable Intent facts''),
      (tr_scope t \<noteq> in_scope before \<or> tr_origin_runtime_id t \<noteq> in_origin_runtime_id before \<or>
       tr_intent_id t \<noteq> in_intent_id before \<or> tr_from_status t \<noteq> in_status before \<or>
       tr_to_status t \<noteq> in_status after \<or> tr_version t \<noteq> in_version after,
       ValueError ''IntentTransition must describe before and after versions''),
      (sf_idempotency_key (tr_sync t) \<noteq> in_key after,
       ValueError ''Intent and transition idempotency keys must match'')]"

text \<open>The two refusals of \<open>append_initial\<close> on an intent that is already there.\<close>

definition admission_replay :: "intent \<Rightarrow> intent \<Rightarrow> intent result" where
  "admission_replay existing i =
     (if in_key existing = in_key i
      then if existing = i then Inr existing
           else Inl (ValueError ''conflicting admission idempotency replay'')
      else Inl (ValueError ''Intent already admitted with conflicting identity''))"

definition initial_check :: "intent \<Rightarrow> bool \<times> py_error" where
  "initial_check i = (in_status i \<noteq> CANDIDATE \<or> in_version i \<noteq> 1,
     ValueError ''initial Intent must be a version-one candidate'')"

section \<open>The ledger\<close>

type_synonym intent_key = "scope \<times> string"

type_synonym intent_ledger = "intent_key \<rightharpoonup> intent list \<times> intent_transition list"

definition key_of :: "intent \<Rightarrow> intent_key" where
  "key_of i = (in_scope i, in_intent_id i)"

definition ledger_append :: "intent \<Rightarrow> (intent_ledger, intent) prog" where
  "ledger_append i = (\<lambda>L.
     if fst (initial_check i) then (Inl (snd (initial_check i)), L)
     else case L (key_of i) of
       Some (h, ts) \<Rightarrow> (admission_replay (hd h) i, L)
     | None \<Rightarrow> (Inr i, L(key_of i \<mapsto> ([i], []))))"

definition ledger_apply :: "intent \<Rightarrow> intent \<Rightarrow> intent_transition \<Rightarrow> (intent_ledger, intent) prog" where
  "ledger_apply before after t = (\<lambda>L. case L (key_of before) of
       None \<Rightarrow> (Inl (KeyError ''missing Intent''), L)
     | Some (h, ts) \<Rightarrow>
         (case find (\<lambda>x. in_key x = in_key after) h of
            Some replay \<Rightarrow>
              if replay = after \<and> find (\<lambda>u. tr_version u = in_version replay) ts = Some t
              then (Inr replay, L)
              else (Inl (ValueError ''conflicting transition idempotency replay''), L)
          | None \<Rightarrow>
              (case raise_first (transition_shape_checks before after t (Some (last h))) of
                 Some e \<Rightarrow> (Inl e, L)
               | None \<Rightarrow> (Inr after, L(key_of before \<mapsto> (h @ [after], ts @ [t]))))))"

text \<open>One entry: the versions in order, each one a restamped first version, and what led to it.\<close>

definition canonical_transition_id :: "string \<Rightarrow> int \<Rightarrow> string" where
  "canonical_transition_id i v = ''intent-transition-'' @ i @ ''-v'' @ show_int v"

definition steps_ok :: "intent list \<Rightarrow> intent_transition list \<Rightarrow> bool" where
  "steps_ok h ts \<longleftrightarrow> length h = Suc (length ts) \<and>
     (\<forall>k < length ts. tr_from_status (ts ! k) = in_status (h ! k) \<and>
        tr_to_status (ts ! k) = in_status (h ! Suc k) \<and> tr_version (ts ! k) = int (k + 2) \<and>
        transition_valid (ts ! k) \<and>
        tr_transition_id (ts ! k) = canonical_transition_id (tr_intent_id (ts ! k)) (tr_version (ts ! k)))"

definition entry_wf :: "intent_key \<Rightarrow> intent list \<Rightarrow> intent_transition list \<Rightarrow> bool" where
  "entry_wf k h ts \<longleftrightarrow> h \<noteq> [] \<and> in_status (hd h) = CANDIDATE \<and>
     (\<forall>j < length h. in_version (h ! j) = int (j + 1)) \<and> distinct (map in_key h) \<and>
     (\<forall>x \<in> set h. intent_valid x \<and> key_of x = k \<and> x = restamp (hd h) (in_status x) (in_sync x)) \<and>
     (\<forall>t \<in> set ts. (tr_scope t, tr_intent_id t) = k) \<and> steps_ok h ts"

definition ledger_wf :: "intent_ledger \<Rightarrow> bool" where
  "ledger_wf L \<longleftrightarrow> (\<forall>k h ts. L k = Some (h, ts) \<longrightarrow> entry_wf k h ts)"

lemma transition_shape_clear:
  "all_clear (transition_shape_checks before after t current) \<longleftrightarrow>
    current = Some before \<and> in_scope after = in_scope before \<and> in_intent_id after = in_intent_id before \<and>
    in_origin_runtime_id after = in_origin_runtime_id before \<and> in_version after = in_version before + 1 \<and>
    after = restamp before (in_status after) (in_sync after) \<and> tr_scope t = in_scope before \<and>
    tr_origin_runtime_id t = in_origin_runtime_id before \<and> tr_intent_id t = in_intent_id before \<and>
    tr_from_status t = in_status before \<and> tr_to_status t = in_status after \<and>
    tr_version t = in_version after \<and> sf_idempotency_key (tr_sync t) = in_key after"
  by (simp add: transition_shape_checks_def) blast

lemma restamp_restamp [simp]: "restamp (restamp i s y) s' y' = restamp i s' y'"
  by (simp add: restamp_def)

lemma restamp_same [simp]: "restamp i (in_status i) (in_sync i) = i"
  by (simp add: restamp_def)

lemma steps_ok_member:
  "steps_ok h ts \<Longrightarrow> t \<in> set ts \<Longrightarrow> transition_valid t \<and>
    tr_transition_id t = canonical_transition_id (tr_intent_id t) (tr_version t)"
  by (auto simp: steps_ok_def in_set_conv_nth)

lemma entry_steps: "entry_wf k h ts \<Longrightarrow> steps_ok h ts"
  by (simp add: entry_wf_def)

lemma entry_member: "entry_wf k h ts \<Longrightarrow> x \<in> set h \<Longrightarrow> intent_valid x \<and> key_of x = k"
  unfolding entry_wf_def by blast

lemma entry_last_version: "entry_wf k h ts \<Longrightarrow> in_version (last h) = int (length h)"
  by (cases "length h") (simp_all add: entry_wf_def last_conv_nth)

lemma entry_initial:
  assumes "intent_valid i" and "\<not> fst (initial_check i)"
  shows "entry_wf (key_of i) [i] []"
  using assms by (auto simp: entry_wf_def initial_check_def steps_ok_def restamp_def)

lemma entry_extend:
  assumes wf: "entry_wf k h ts" and v: "intent_valid after" "transition_valid t"
    and c: "tr_transition_id t = canonical_transition_id (tr_intent_id t) (tr_version t)"
    and key: "find (\<lambda>x. in_key x = in_key after) h = None"
    and shape: "all_clear (transition_shape_checks (last h) after t (Some (last h)))"
  shows "entry_wf k (h @ [after]) (ts @ [t])"
proof -
  have h: "h \<noteq> []" and len: "length h = Suc (length ts)" using wf by (simp_all add: entry_wf_def steps_ok_def)
  have l: "last h \<in> set h" using h by simp
  have vl: "in_version (last h) = int (length h)"
    using wf h len by (simp add: entry_wf_def last_conv_nth)
  have kl: "key_of (last h) = k" and rl: "last h = restamp (hd h) (in_status (last h)) (in_sync (last h))"
    using wf l by (auto simp: entry_wf_def)
  note shape = shape [unfolded transition_shape_clear]
  have "after = restamp (last h) (in_status after) (in_sync after)" using shape by simp
  then have ra: "after = restamp (hd h) (in_status after) (in_sync after)"
    using rl restamp_restamp by metis
  have ka: "key_of after = k" using kl shape by (simp add: key_of_def)
  have steps: "steps_ok (h @ [after]) (ts @ [t])"
    using wf len shape v c vl h by (auto simp: entry_wf_def steps_ok_def nth_append less_Suc_eq last_conv_nth)
  have vers: "\<forall>j < length (h @ [after]). in_version ((h @ [after]) ! j) = int (j + 1)"
    using wf shape vl by (auto simp: entry_wf_def nth_append less_Suc_eq)
  have "in_key after \<notin> in_key ` set h"
    using key by (force simp: find_None_iff)
  moreover have "(tr_scope t, tr_intent_id t) = k" using shape kl by (simp add: key_of_def)
  ultimately show ?thesis
    using wf h v ka ra steps vers by (auto simp: entry_wf_def)
qed

lemma ledger_append_wf:
  assumes "ledger_wf L" and "intent_valid i" and "ledger_append i L = (r, L')"
  shows "ledger_wf L'"
  using assms entry_initial [of i]
  by (auto simp: ledger_append_def ledger_wf_def split: if_splits option.splits)

lemma ledger_apply_wf:
  assumes "ledger_wf L" and "intent_valid after" and "transition_valid t"
    and "tr_transition_id t = canonical_transition_id (tr_intent_id t) (tr_version t)"
    and "ledger_apply before after t L = (r, L')"
  shows "ledger_wf L'"
proof (cases "L (key_of before)")
  case None
  with assms show ?thesis by (simp add: ledger_apply_def)
next
  case (Some p)
  obtain h ts where p: "p = (h, ts)" by (cases p)
  have e: "entry_wf (key_of before) h ts" using assms(1) Some p unfolding ledger_wf_def by blast
  have "entry_wf (key_of before) (h @ [after]) (ts @ [t])"
    if "find (\<lambda>x. in_key x = in_key after) h = None"
      and s: "all_clear (transition_shape_checks before after t (Some (last h)))"
  proof -
    have "before = last h" using s by (simp add: transition_shape_clear)
    with entry_extend [OF e assms(2,3,4) that(1)] s show ?thesis by simp
  qed
  with assms Some p show ?thesis
    by (auto simp: ledger_apply_def ledger_wf_def raise_first_None_iff split: option.splits if_splits)
qed

section \<open>What a backend promises\<close>

locale intent_store =
  fixes ops :: "'s intent_backend"
    and inv :: "'s \<Rightarrow> bool"
    and ledger :: "'s \<Rightarrow> intent_ledger"
  assumes ledger_ok: "inv s \<Longrightarrow> ledger_wf (ledger s)"
    and append_refines: "inv s \<Longrightarrow> intent_valid i \<Longrightarrow> ib_append_initial ops i s = (r, s') \<Longrightarrow>
      inv s' \<and> ledger_append i (ledger s) = (r, ledger s')"
    and apply_refines: "inv s \<Longrightarrow> intent_valid after \<Longrightarrow> transition_valid t \<Longrightarrow>
      tr_transition_id t = canonical_transition_id (tr_intent_id t) (tr_version t) \<Longrightarrow>
      key_of after = key_of before \<Longrightarrow> ledger s (key_of before) \<noteq> None \<Longrightarrow>
      ib_apply_transition ops before after t s = (r, s') \<Longrightarrow>
      inv s' \<and> ledger_apply before after t (ledger s) = (r, ledger s')"
    and current_reads: "inv s \<Longrightarrow> scope_valid sc \<Longrightarrow> \<exists>xs. ib_current ops sc s = Inr xs \<and>
      sorted (map in_intent_id xs) \<and> distinct (map in_intent_id xs) \<and>
      (\<forall>x. x \<in> set xs \<longleftrightarrow> (\<exists>h ts. ledger s (sc, in_intent_id x) = Some (h, ts) \<and> x = last h))"
    and history_reads: "inv s \<Longrightarrow> scope_valid sc \<Longrightarrow> ib_history ops sc ident s =
      (case ledger s (sc, ident) of None \<Rightarrow> Inl (KeyError ''missing Intent'') | Some (h, ts) \<Rightarrow> Inr h)"
    and transitions_reads: "inv s \<Longrightarrow> scope_valid sc \<Longrightarrow> ib_transitions ops sc ident s =
      (case ledger s (sc, ident) of None \<Rightarrow> Inl (KeyError ''missing Intent'') | Some (h, ts) \<Rightarrow> Inr ts)"


end
