(* ===== verification/Intent_Memory.thy ===== *)
theory Intent_Memory
  imports Intent_Ledger
begin

text \<open>
  \<^verbatim>\<open>InMemoryIntentBackend\<close> of \<^verbatim>\<open>intents/persistence.py\<close>: three dictionaries replaced together by one
  assignment, shown to be an \<open>intent_store\<close>.
\<close>

record memory_snapshot =
  ms_current :: "(intent_key \<times> intent) list"
  ms_history :: "(intent_key \<times> intent list) list"
  ms_transitions :: "(intent_key \<times> intent_transition list) list"

definition empty_memory :: memory_snapshot where
  "empty_memory = \<lparr>ms_current = [], ms_history = [], ms_transitions = []\<rparr>"

definition memory_append_initial :: "intent \<Rightarrow> (memory_snapshot, intent) prog" where
  "memory_append_initial i = (\<lambda>m. let key = (in_scope i, in_intent_id i) in
     if in_status i \<noteq> CANDIDATE \<or> in_version i \<noteq> 1
     then (Inl (ValueError ''initial Intent must be a version-one candidate''), m)
     else case map_of (ms_history m) key of
       Some existing_history \<Rightarrow> (admission_replay (hd existing_history) i, m)
     | None \<Rightarrow> (Inr i, \<lparr>ms_current = AList.update key i (ms_current m),
          ms_history = AList.update key [i] (ms_history m),
          ms_transitions = AList.update key [] (ms_transitions m)\<rparr>))"

definition memory_apply_transition ::
  "intent \<Rightarrow> intent \<Rightarrow> intent_transition \<Rightarrow> (memory_snapshot, intent) prog" where
  "memory_apply_transition before after t = (\<lambda>m. let key = (in_scope before, in_intent_id before) in
     case map_of (ms_history m) key of
       None \<Rightarrow> (Inl (KeyError ''missing Intent''), m)
     | Some history \<Rightarrow>
        (case map_of (ms_transitions m) key of
           None \<Rightarrow> (Inl (KeyError ''key''), m)
         | Some existing_transitions \<Rightarrow>
            (case find (\<lambda>x. in_key x = in_key after) history of
               Some replay \<Rightarrow>
                 if replay = after \<and>
                    find (\<lambda>u. tr_version u = in_version replay) existing_transitions = Some t
                 then (Inr replay, m)
                 else (Inl (ValueError ''conflicting transition idempotency replay''), m)
             | None \<Rightarrow>
                (case raise_first (transition_shape_checks before after t (map_of (ms_current m) key)) of
                   Some e \<Rightarrow> (Inl e, m)
                 | None \<Rightarrow> (Inr after, \<lparr>ms_current = AList.update key after (ms_current m),
                     ms_history = AList.update key (history @ [after]) (ms_history m),
                     ms_transitions = AList.update key (existing_transitions @ [t]) (ms_transitions m)\<rparr>)))))"

definition memory_current :: "scope \<Rightarrow> memory_snapshot \<Rightarrow> intent list result" where
  "memory_current sc m = Inr (map snd (filter (\<lambda>((intent_scope, intent_id), i). intent_scope = sc)
     (sort_key (\<lambda>((intent_scope, intent_id), i). intent_id) (ms_current m))))"

definition memory_history :: "scope \<Rightarrow> string \<Rightarrow> memory_snapshot \<Rightarrow> intent list result" where
  "memory_history sc i m = (case map_of (ms_history m) (sc, i) of
     None \<Rightarrow> Inl (KeyError ''missing Intent'') | Some h \<Rightarrow> Inr h)"

definition memory_transitions :: "scope \<Rightarrow> string \<Rightarrow> memory_snapshot \<Rightarrow> intent_transition list result" where
  "memory_transitions sc i m = (case map_of (ms_transitions m) (sc, i) of
     None \<Rightarrow> Inl (KeyError ''missing Intent'') | Some ts \<Rightarrow> Inr ts)"

definition memory_backend :: "memory_snapshot intent_backend" where
  "memory_backend = \<lparr>ib_append_initial = memory_append_initial,
     ib_apply_transition = memory_apply_transition, ib_current = memory_current,
     ib_history = memory_history, ib_transitions = memory_transitions\<rparr>"

section \<open>The ledger it stands for\<close>

definition memory_ledger :: "memory_snapshot \<Rightarrow> intent_ledger" where
  "memory_ledger m = (\<lambda>k. case map_of (ms_history m) k of None \<Rightarrow> None
     | Some h \<Rightarrow> Some (h, the (map_of (ms_transitions m) k)))"

definition memory_inv :: "memory_snapshot \<Rightarrow> bool" where
  "memory_inv m \<longleftrightarrow> ledger_wf (memory_ledger m) \<and> distinct (map fst (ms_current m)) \<and>
     (\<forall>k. map_of (ms_current m) k = map_option last (map_of (ms_history m) k)) \<and>
     (\<forall>k. map_of (ms_transitions m) k = None \<longleftrightarrow> map_of (ms_history m) k = None)"

lemma memory_inv_empty: "memory_inv empty_memory"
  by (simp add: memory_inv_def empty_memory_def memory_ledger_def ledger_wf_def)

lemma memory_append_refines:
  assumes inv: "memory_inv m" and v: "intent_valid i" and run: "memory_append_initial i m = (r, m')"
  shows "memory_inv m' \<and> ledger_append i (memory_ledger m) = (r, memory_ledger m')"
proof -
  have ref: "ledger_append i (memory_ledger m) = (r, memory_ledger m')"
    using run by (auto simp: memory_append_initial_def ledger_append_def initial_check_def Let_def
        memory_ledger_def key_of_def fun_eq_iff split: if_splits option.splits)
  moreover have "ledger_wf (memory_ledger m')"
    using ledger_append_wf [OF _ v ref] inv by (simp add: memory_inv_def)
  ultimately show ?thesis
    using run inv by (auto simp: memory_append_initial_def memory_inv_def Let_def distinct_update
        split: if_splits option.splits)
qed

lemma memory_apply_refines:
  assumes inv: "memory_inv m" and v: "intent_valid after" "transition_valid t"
    and c: "tr_transition_id t = canonical_transition_id (tr_intent_id t) (tr_version t)"
    and run: "memory_apply_transition before after t m = (r, m')"
  shows "memory_inv m' \<and> ledger_apply before after t (memory_ledger m) = (r, memory_ledger m')"
proof -
  have ref: "ledger_apply before after t (memory_ledger m) = (r, memory_ledger m')"
    using run inv by (auto simp: memory_apply_transition_def ledger_apply_def Let_def memory_inv_def
        memory_ledger_def key_of_def fun_eq_iff split: if_splits option.splits)
  moreover have "ledger_wf (memory_ledger m')"
    using ledger_apply_wf [OF _ v c ref] inv by (simp add: memory_inv_def)
  ultimately show ?thesis
    using run inv by (auto simp: memory_apply_transition_def memory_inv_def Let_def distinct_update
        split: if_splits option.splits)
qed

lemma memory_current_reads:
  assumes inv: "memory_inv m"
  shows "\<exists>xs. memory_current sc m = Inr xs \<and> sorted (map in_intent_id xs) \<and> distinct (map in_intent_id xs) \<and>
    (\<forall>x. x \<in> set xs \<longleftrightarrow> (\<exists>h ts. memory_ledger m (sc, in_intent_id x) = Some (h, ts) \<and> x = last h))"
proof -
  let ?key = "\<lambda>((intent_scope::scope, intent_id::string), i::intent). intent_id"
  let ?kept = "filter (\<lambda>((intent_scope, intent_id), i). intent_scope = sc) (sort_key ?key (ms_current m))"
  have dist: "distinct (map fst (ms_current m))" using inv by (simp add: memory_inv_def)
  have entry: "in_intent_id x = i \<and> in_scope x = s" if "((s, i), x) \<in> set (ms_current m)" for s i x
  proof -
    from map_of_is_SomeI [OF dist that] have "map_of (ms_current m) (s, i) = Some x" .
    moreover have "map_of (ms_current m) (s, i) = map_option last (map_of (ms_history m) (s, i))"
      using inv by (simp add: memory_inv_def)
    ultimately obtain h where h: "map_of (ms_history m) (s, i) = Some h" "x = last h" by auto
    then have "entry_wf (s, i) h (the (map_of (ms_transitions m) (s, i)))"
      using inv by (simp add: memory_inv_def ledger_wf_def memory_ledger_def)
    with h have "key_of x = (s, i)" by (simp add: entry_wf_def)
    then show ?thesis by (simp add: key_of_def)
  qed
  have ids: "map in_intent_id (map snd ?kept) = map ?key ?kept"
    using entry by auto
  have "sorted (map ?key (sort_key ?key (ms_current m)))" by simp
  then have "sorted (map ?key ?kept)" by (rule sorted_filter)
  moreover have "distinct (map ?key ?kept)"
  proof -
    have "distinct (map fst (sort_key ?key (ms_current m)))"
      using inv by (simp add: memory_inv_def distinct_map)
    then have "distinct (map fst ?kept)" by (rule distinct_map_filter)
    then show ?thesis by (auto simp: distinct_map inj_on_def)
  qed
  moreover have "x \<in> set (map snd ?kept) \<longleftrightarrow>
      (\<exists>h ts. memory_ledger m (sc, in_intent_id x) = Some (h, ts) \<and> x = last h)" for x
  proof -
    have "x \<in> set (map snd ?kept) \<longleftrightarrow> ((sc, in_intent_id x), x) \<in> set (ms_current m)"
      using entry by (force simp: image_iff)
    also have "\<dots> \<longleftrightarrow> map_of (ms_current m) (sc, in_intent_id x) = Some x"
      by (rule map_of_eq_Some_iff [OF dist, symmetric])
    also have "\<dots> \<longleftrightarrow> map_option last (map_of (ms_history m) (sc, in_intent_id x)) = Some x"
      using inv unfolding memory_inv_def by metis
    finally show ?thesis
      by (auto simp: memory_ledger_def split: option.splits)
  qed
  ultimately have "sorted (map in_intent_id (map snd ?kept)) \<and> distinct (map in_intent_id (map snd ?kept)) \<and>
      (\<forall>x. x \<in> set (map snd ?kept) \<longleftrightarrow>
        (\<exists>h ts. memory_ledger m (sc, in_intent_id x) = Some (h, ts) \<and> x = last h))"
    unfolding ids by blast
  then show ?thesis unfolding memory_current_def by blast
qed

interpretation mem: intent_store memory_backend memory_inv memory_ledger
proof (unfold_locales, simp_all only: memory_backend_def intent_backend.simps)
  fix m sc ident
  assume inv: "memory_inv m"
  show "ledger_wf (memory_ledger m)" using inv by (simp add: memory_inv_def)
  show "\<exists>xs. memory_current sc m = Inr xs \<and> sorted (map in_intent_id xs) \<and> distinct (map in_intent_id xs) \<and>
    (\<forall>x. (x \<in> set xs) = (\<exists>h ts. memory_ledger m (sc, in_intent_id x) = Some (h, ts) \<and> x = last h))"
    using memory_current_reads [OF inv] .
  show "memory_history sc ident m = (case memory_ledger m (sc, ident) of
      None \<Rightarrow> Inl (KeyError ''missing Intent'') | Some (h, ts) \<Rightarrow> Inr h)"
    by (simp add: memory_history_def memory_ledger_def split: option.split)
  have "map_of (ms_transitions m) (sc, ident) = None \<longleftrightarrow> map_of (ms_history m) (sc, ident) = None"
    using inv by (simp add: memory_inv_def)
  then show "memory_transitions sc ident m = (case memory_ledger m (sc, ident) of
      None \<Rightarrow> Inl (KeyError ''missing Intent'') | Some (h, ts) \<Rightarrow> Inr ts)"
    by (auto simp: memory_transitions_def memory_ledger_def split: option.split)
qed (auto dest: memory_append_refines memory_apply_refines)

end
