(* ===== verification/Intent_Sqlite.thy ===== *)
theory Intent_Sqlite
  imports Intent_Ledger "HOL-Library.Product_Lexorder"
begin

text \<open>
  \<^verbatim>\<open>SqliteIntentBackend\<close> of \<^verbatim>\<open>intents/persistence.py\<close>: the two append-only tables with their key
  constraints, the row formats, and every operation, shown to be an \<open>intent_store\<close>. A list column is
  the JSON list its text denotes; rows are in insertion order; a \<^verbatim>\<open>with self._conn\<close> block is one step
  that happens entirely or, when a constraint is violated, not at all.
\<close>

section \<open>Rows\<close>

record intent_row =
  ir_scope :: scope_columns
  ir_intent_id :: string
  ir_version :: int
  ir_origin_runtime_id :: string
  ir_kind :: string
  ir_strength :: rat
  ir_earliest_at :: "datetime option"
  ir_due_at :: "datetime option"
  ir_expires_at :: "datetime option"
  ir_reconsideration_policy :: string
  ir_cause_refs :: json_text
  ir_state_refs :: json_text
  ir_status :: string
  ir_sync_idem_key :: string
  ir_surface_use :: "json_text option"

record transition_row =
  xr_scope :: scope_columns
  xr_transition_id :: string
  xr_origin_runtime_id :: string
  xr_intent_id :: string
  xr_from_status :: string
  xr_to_status :: string
  xr_reason_codes :: json_text
  xr_occurred_at :: "datetime option"
  xr_version :: int
  xr_sync_idem_key :: string

definition refs_to_json :: "string list \<Rightarrow> json_text" where
  "refs_to_json vs = Some (JList (map JStr vs))"

definition refs_from_json :: "json_text \<Rightarrow> string list result" where
  "refs_from_json t = bindR (json_loads t) (\<lambda>j.
     case Option.bind (as_list j) all_strings of
       None \<Rightarrow> Inl (ValueError ''stored reference list is invalid'')
     | Some vs \<Rightarrow> Inr vs)"

lemma refs_round_trip [simp]: "refs_from_json (refs_to_json vs) = Inr vs"
  by (simp add: refs_from_json_def refs_to_json_def)

section \<open>The Surface-use column\<close>

definition optional_json :: "string option \<Rightarrow> json" where
  "optional_json v = (case v of None \<Rightarrow> JNull | Some s \<Rightarrow> JStr s)"

definition surface_use_to_json :: "score_trace option \<Rightarrow> json_text option" where
  "surface_use_to_json v = (case v of None \<Rightarrow> None | Some t \<Rightarrow> Some (Some (JObj
     [(''admitted'', JBool (st_admitted t)),
      (''contributions'', JList (map (\<lambda>c. JList [JStr (co_source_kind c), JStr (co_source_ref c),
         JNum (co_amount c)]) (st_contributions t))),
      (''created_at'', JTime (st_created_at t)),
      (''final_strength'', JNum (st_final_strength t)),
      (''intent_id'', JStr (st_intent_id t)),
      (''overlap_validation_ref'', optional_json (st_overlap_validation_ref t)),
      (''reason_codes'', JList (map JStr (st_reason_codes t))),
      (''rule_id'', JStr (st_rule_id t)),
      (''ruleset_ref'', optional_json (st_ruleset_ref t)),
      (''surface_controls_ref'', optional_json (st_surface_controls_ref t)),
      (''surface_dependency_digest'', optional_json (st_surface_dependency_digest t)),
      (''surface_recipe_ref'', optional_json (st_surface_recipe_ref t)),
      (''surface_weights'', JList (map (\<lambda>(n, w). JList [JStr n, JNum w]) (st_surface_weights t))),
      (''trace_id'', JStr (st_trace_id t)),
      (''unclamped_score'', JNum (st_unclamped_score t))])))"

fun as_number :: "json \<Rightarrow> rat option" where
  "as_number (JNum r) = Some r"
| "as_number (JInt i) = Some (of_int i)"
| "as_number _ = None"

fun as_bool :: "json \<Rightarrow> bool option" where
  "as_bool (JBool b) = Some b"
| "as_bool _ = None"

fun as_time :: "json \<Rightarrow> datetime option" where
  "as_time (JTime t) = Some t"
| "as_time _ = None"

fun as_optional_string :: "json \<Rightarrow> string option option" where
  "as_optional_string JNull = Some None"
| "as_optional_string (JStr s) = Some (Some s)"
| "as_optional_string _ = None"

fun contribution_of :: "json \<Rightarrow> score_contribution option" where
  "contribution_of (JList [JStr k, JStr r, n]) = Option.bind (as_number n) (\<lambda>a.
     case mk_contribution \<lparr>co_source_kind = k, co_source_ref = r, co_amount = a\<rparr> of
       Inl e \<Rightarrow> None | Inr c \<Rightarrow> Some c)"
| "contribution_of _ = None"

fun weight_of :: "json \<Rightarrow> (string \<times> rat) option" where
  "weight_of (JList [JStr k, n]) = Option.bind (as_number n) (\<lambda>a. Some (k, a))"
| "weight_of _ = None"

definition read_field :: "(string \<times> json) list \<Rightarrow> string \<Rightarrow> (json \<Rightarrow> 'a option) \<Rightarrow> 'a option" where
  "read_field obj key f = Option.bind (map_of obj key) f"

definition score_trace_of_obj :: "(string \<times> json) list \<Rightarrow> scope \<Rightarrow> score_trace option" where
  "score_trace_of_obj obj sc =
     Option.bind (read_field obj ''trace_id'' as_string) (\<lambda>trace_id.
     Option.bind (read_field obj ''rule_id'' as_string) (\<lambda>rule_id.
     Option.bind (read_field obj ''intent_id'' as_string) (\<lambda>intent_id.
     Option.bind (read_field obj ''contributions''
       (\<lambda>j. Option.bind (as_list j) (\<lambda>js. all_some (map contribution_of js)))) (\<lambda>contributions.
     Option.bind (read_field obj ''unclamped_score'' as_number) (\<lambda>unclamped_score.
     Option.bind (read_field obj ''final_strength'' as_number) (\<lambda>final_strength.
     Option.bind (read_field obj ''admitted'' as_bool) (\<lambda>admitted.
     Option.bind (texts_field obj ''reason_codes'') (\<lambda>reason_codes.
     Option.bind (read_field obj ''created_at'' as_time) (\<lambda>created_at.
     Option.bind (read_field obj ''surface_controls_ref'' as_optional_string) (\<lambda>surface_controls_ref.
     Option.bind (read_field obj ''surface_dependency_digest'' as_optional_string) (\<lambda>surface_dependency_digest.
     Option.bind (read_field obj ''overlap_validation_ref'' as_optional_string) (\<lambda>overlap_validation_ref.
     Option.bind (read_field obj ''surface_weights''
       (\<lambda>j. Option.bind (as_list j) (\<lambda>js. all_some (map weight_of js)))) (\<lambda>surface_weights.
     Option.bind (read_field obj ''surface_recipe_ref'' as_optional_string) (\<lambda>surface_recipe_ref.
     Option.bind (read_field obj ''ruleset_ref'' as_optional_string) (\<lambda>ruleset_ref.
       Some \<lparr>st_trace_id = trace_id, st_scope = sc, st_rule_id = rule_id, st_intent_id = intent_id,
         st_contributions = contributions, st_unclamped_score = unclamped_score,
         st_final_strength = final_strength, st_admitted = admitted, st_reason_codes = reason_codes,
         st_created_at = created_at, st_surface_controls_ref = surface_controls_ref,
         st_surface_dependency_digest = surface_dependency_digest,
         st_overlap_validation_ref = overlap_validation_ref, st_surface_weights = surface_weights,
         st_surface_recipe_ref = surface_recipe_ref, st_ruleset_ref = ruleset_ref\<rparr>)))))))))))))))"

definition surface_use_from_json :: "json_text option \<Rightarrow> scope \<Rightarrow> score_trace option result" where
  "surface_use_from_json raw sc = (case raw of
      None \<Rightarrow> Inr None
    | Some (Some (JObj obj)) \<Rightarrow>
        (case score_trace_of_obj obj sc of
           None \<Rightarrow> Inl (ValueError ''invalid durable Intent Surface-use evidence'')
         | Some t \<Rightarrow> (case mk_score_trace t of
             Inl e \<Rightarrow> Inl (ValueError ''invalid durable Intent Surface-use evidence'')
           | Inr t \<Rightarrow> Inr (Some t)))
    | Some _ \<Rightarrow> Inl (ValueError ''invalid durable Intent Surface-use evidence''))"

lemma as_optional_round_trip [simp]: "as_optional_string (optional_json v) = Some v"
  by (cases v) (simp_all add: optional_json_def)

lemma all_some_map: "(\<And>x. x \<in> set xs \<Longrightarrow> f x = Some (g x)) \<Longrightarrow> all_some (map f xs) = Some (map g xs)"
  by (induction xs) auto

lemma contribution_collapse [simp]:
  "\<lparr>co_source_kind = co_source_kind c, co_source_ref = co_source_ref c, co_amount = co_amount c\<rparr> = c"
  by simp

lemma score_trace_collapse:
  "st_scope t = sc \<Longrightarrow>
   \<lparr>st_trace_id = st_trace_id t, st_scope = sc, st_rule_id = st_rule_id t, st_intent_id = st_intent_id t,
     st_contributions = st_contributions t, st_unclamped_score = st_unclamped_score t,
     st_final_strength = st_final_strength t, st_admitted = st_admitted t,
     st_reason_codes = st_reason_codes t, st_created_at = st_created_at t,
     st_surface_controls_ref = st_surface_controls_ref t,
     st_surface_dependency_digest = st_surface_dependency_digest t,
     st_overlap_validation_ref = st_overlap_validation_ref t, st_surface_weights = st_surface_weights t,
     st_surface_recipe_ref = st_surface_recipe_ref t, st_ruleset_ref = st_ruleset_ref t\<rparr> = t"
  by simp

lemma contributions_round_trip:
  "list_all (\<lambda>c. all_clear (contribution_checks c)) cs \<Longrightarrow>
    all_some (map (\<lambda>c. contribution_of (JList [JStr (co_source_kind c), JStr (co_source_ref c),
      JNum (co_amount c)])) cs) = Some cs"
  by (subst all_some_map [where g = "\<lambda>c. c"]) (auto simp: list_all_iff mk_contribution_def guarded_clear)

lemma weights_round_trip:
  "all_some (map (\<lambda>p. weight_of (case p of (n, w) \<Rightarrow> JList [JStr n, JNum w])) ws) = Some ws"
  by (subst all_some_map [where g = "\<lambda>c. c"]) auto

lemma surface_use_round_trip:
  assumes "\<And>t. v = Some t \<Longrightarrow> score_trace_valid t \<and> st_scope t = sc"
  shows "surface_use_from_json (surface_use_to_json v) sc = Inr v"
proof (cases v)
  case (Some t)
  with assms have t: "score_trace_valid t" "st_scope t = sc" by simp_all
  then have "mk_score_trace t = Inr t" by (simp add: mk_score_trace_def score_trace_valid_def guarded_clear)
  moreover have "list_all (\<lambda>c. all_clear (contribution_checks c)) (st_contributions t)"
    using t by (simp add: score_trace_valid_def)
  ultimately show ?thesis
    using Some t(2) contributions_round_trip [of "st_contributions t"]
    by (simp add: surface_use_from_json_def surface_use_to_json_def score_trace_of_obj_def read_field_def
        texts_field_def weights_round_trip comp_def score_trace_collapse [OF t(2)])
qed (simp add: surface_use_from_json_def surface_use_to_json_def)

section \<open>Reading and writing rows\<close>

definition intent_to_row :: "intent \<Rightarrow> intent_row" where
  "intent_to_row i = \<lparr>ir_scope = scope_values (in_scope i), ir_intent_id = in_intent_id i,
     ir_version = in_version i, ir_origin_runtime_id = in_origin_runtime_id i, ir_kind = in_kind i,
     ir_strength = in_strength i, ir_earliest_at = in_earliest_at i, ir_due_at = in_due_at i,
     ir_expires_at = in_expires_at i,
     ir_reconsideration_policy = reconsideration_value (in_reconsideration_policy i),
     ir_cause_refs = refs_to_json (in_cause_refs i), ir_state_refs = refs_to_json (in_state_refs i),
     ir_status = intent_status_value (in_status i), ir_sync_idem_key = in_key i,
     ir_surface_use = surface_use_to_json (in_surface_use i)\<rparr>"

definition intent_from_row :: "intent_row \<Rightarrow> intent result" where
  "intent_from_row r =
     bindR (scope_from_columns (ir_scope r)) (\<lambda>sc.
     bindR (reconsideration_of (ir_reconsideration_policy r)) (\<lambda>policy.
     bindR (refs_from_json (ir_cause_refs r)) (\<lambda>cause_refs.
     bindR (refs_from_json (ir_state_refs r)) (\<lambda>state_refs.
     bindR (intent_status_of (ir_status r)) (\<lambda>status.
     bindR (surface_use_from_json (ir_surface_use r) sc) (\<lambda>surface_use.
     mk_intent \<lparr>in_intent_id = ir_intent_id r, in_scope = sc,
       in_origin_runtime_id = ir_origin_runtime_id r, in_kind = ir_kind r, in_strength = ir_strength r,
       in_earliest_at = ir_earliest_at r, in_due_at = ir_due_at r, in_expires_at = ir_expires_at r,
       in_reconsideration_policy = policy, in_cause_refs = cause_refs, in_state_refs = state_refs,
       in_status = status,
       in_sync = mk_sync sc (ir_origin_runtime_id r) (ir_intent_id r) (ir_version r) (ir_sync_idem_key r),
       in_surface_use = surface_use\<rparr>))))))"

definition transition_to_row :: "intent_transition \<Rightarrow> transition_row" where
  "transition_to_row t = \<lparr>xr_scope = scope_values (tr_scope t), xr_transition_id = tr_transition_id t,
     xr_origin_runtime_id = tr_origin_runtime_id t, xr_intent_id = tr_intent_id t,
     xr_from_status = intent_status_value (tr_from_status t),
     xr_to_status = intent_status_value (tr_to_status t),
     xr_reason_codes = refs_to_json (tr_reason_codes t), xr_occurred_at = Some (tr_occurred_at t),
     xr_version = tr_version t, xr_sync_idem_key = sf_idempotency_key (tr_sync t)\<rparr>"

definition transition_from_row :: "transition_row \<Rightarrow> intent_transition result" where
  "transition_from_row r =
     bindR (scope_from_columns (xr_scope r)) (\<lambda>sc.
     case xr_occurred_at r of
       None \<Rightarrow> Inl (ValueError ''stored transition occurred_at is missing'')
     | Some occurred_at \<Rightarrow>
       bindR (intent_status_of (xr_from_status r)) (\<lambda>from_status.
       bindR (intent_status_of (xr_to_status r)) (\<lambda>to_status.
       bindR (refs_from_json (xr_reason_codes r)) (\<lambda>reason_codes.
       mk_transition \<lparr>tr_transition_id = xr_transition_id r, tr_scope = sc,
         tr_origin_runtime_id = xr_origin_runtime_id r, tr_intent_id = xr_intent_id r,
         tr_from_status = from_status, tr_to_status = to_status, tr_reason_codes = reason_codes,
         tr_occurred_at = occurred_at, tr_version = xr_version r,
         tr_sync = mk_sync sc (xr_origin_runtime_id r) (xr_transition_id r) (xr_version r)
           (xr_sync_idem_key r)\<rparr>))))"

lemma intent_collapse:
  "sf_scope (in_sync i) = in_scope i \<Longrightarrow> sf_origin_runtime_id (in_sync i) = in_origin_runtime_id i \<Longrightarrow>
   sf_object_id (in_sync i) = in_intent_id i \<Longrightarrow>
   \<lparr>in_intent_id = in_intent_id i, in_scope = in_scope i, in_origin_runtime_id = in_origin_runtime_id i,
     in_kind = in_kind i, in_strength = in_strength i, in_earliest_at = in_earliest_at i,
     in_due_at = in_due_at i, in_expires_at = in_expires_at i,
     in_reconsideration_policy = in_reconsideration_policy i, in_cause_refs = in_cause_refs i,
     in_state_refs = in_state_refs i, in_status = in_status i,
     in_sync = mk_sync (in_scope i) (in_origin_runtime_id i) (in_intent_id i) (in_version i) (in_key i),
     in_surface_use = in_surface_use i\<rparr> = i"
  by (simp add: sync_eq_mk)

lemma intent_row_round_trip:
  assumes "intent_valid i"
  shows "intent_from_row (intent_to_row i) = Inr i"
proof -
  have c: "all_clear (intent_checks i)" using assms by (simp add: intent_valid_def)
  have "surface_use_from_json (surface_use_to_json (in_surface_use i)) (in_scope i) = Inr (in_surface_use i)"
    using assms by (intro surface_use_round_trip) (auto simp: intent_valid_def intent_checks_clear)
  moreover have "mk_intent i = Inr i" using c by (simp add: mk_intent_def guarded_clear)
  moreover have "scope_valid (in_scope i)" using assms by (simp add: intent_valid_def)
  moreover have "sf_scope (in_sync i) = in_scope i" "sf_origin_runtime_id (in_sync i) = in_origin_runtime_id i"
    "sf_object_id (in_sync i) = in_intent_id i" using c by (simp_all add: intent_checks_clear)
  ultimately show ?thesis
    by (simp add: intent_from_row_def intent_to_row_def scope_round_trip intent_collapse
        del: intent_status_value.simps reconsideration_value.simps)
qed

lemma transition_collapse:
  "sf_scope (tr_sync t) = tr_scope t \<Longrightarrow> sf_origin_runtime_id (tr_sync t) = tr_origin_runtime_id t \<Longrightarrow>
   sf_object_id (tr_sync t) = tr_transition_id t \<Longrightarrow> sf_version (tr_sync t) = tr_version t \<Longrightarrow>
   \<lparr>tr_transition_id = tr_transition_id t, tr_scope = tr_scope t,
     tr_origin_runtime_id = tr_origin_runtime_id t, tr_intent_id = tr_intent_id t,
     tr_from_status = tr_from_status t, tr_to_status = tr_to_status t,
     tr_reason_codes = tr_reason_codes t, tr_occurred_at = tr_occurred_at t, tr_version = tr_version t,
     tr_sync = mk_sync (tr_scope t) (tr_origin_runtime_id t) (tr_transition_id t) (tr_version t)
       (sf_idempotency_key (tr_sync t))\<rparr> = t"
  by (metis sync_eq_mk intent_transition.surjective old.unit.exhaust)

lemma transition_row_round_trip:
  assumes "transition_valid t"
  shows "transition_from_row (transition_to_row t) = Inr t"
proof -
  have c: "all_clear (transition_checks t)" "scope_valid (tr_scope t)"
    using assms by (simp_all add: transition_valid_def)
  then have "mk_transition t = Inr t" by (simp add: mk_transition_def guarded_clear)
  moreover have "sf_scope (tr_sync t) = tr_scope t" "sf_origin_runtime_id (tr_sync t) = tr_origin_runtime_id t"
    "sf_object_id (tr_sync t) = tr_transition_id t" "sf_version (tr_sync t) = tr_version t"
    using c by (simp_all add: transition_checks_clear)
  ultimately show ?thesis
    using c(2) by (simp add: transition_from_row_def transition_to_row_def scope_round_trip
        transition_collapse del: intent_status_value.simps)
qed

section \<open>The tables\<close>

record intent_tables =
  it_intents :: "intent_row list"
  it_transitions :: "transition_row list"

definition empty_tables :: intent_tables where
  "empty_tables = \<lparr>it_intents = [], it_transitions = []\<rparr>"

definition insert_intent :: "intent \<Rightarrow> (intent_tables, unit) prog" where
  "insert_intent i = (\<lambda>db. let r = intent_to_row i in
     if list_ex (\<lambda>x. (ir_scope x, ir_intent_id x, ir_version x) = (ir_scope r, ir_intent_id r, ir_version r) \<or>
          (ir_scope x, ir_intent_id x, ir_sync_idem_key x) = (ir_scope r, ir_intent_id r, ir_sync_idem_key r))
        (it_intents db)
     then (Inl (IntegrityError ''UNIQUE constraint failed: intents''), db)
     else (Inr (), db\<lparr>it_intents := it_intents db @ [r]\<rparr>))"

definition insert_transition :: "intent_transition \<Rightarrow> (intent_tables, unit) prog" where
  "insert_transition t = (\<lambda>db. let r = transition_to_row t in
     if list_ex (\<lambda>x. (xr_scope x, xr_transition_id x) = (xr_scope r, xr_transition_id r) \<or>
          (xr_scope x, xr_intent_id x, xr_version x) = (xr_scope r, xr_intent_id r, xr_version r))
        (it_transitions db)
     then (Inl (IntegrityError ''UNIQUE constraint failed: intent_transitions''), db)
     else if \<not> list_ex (\<lambda>x. (ir_scope x, ir_intent_id x, ir_version x) = (xr_scope r, xr_intent_id r, xr_version r))
          (it_intents db)
     then (Inl (IntegrityError ''FOREIGN KEY constraint failed''), db)
     else (Inr (), db\<lparr>it_transitions := it_transitions db @ [r]\<rparr>))"

text \<open>\<^verbatim>\<open>with self._conn\<close>: commit when the block returns, roll back when it raises.\<close>

definition transaction :: "('s, 'a) prog \<Rightarrow> ('s, 'a) prog" where
  "transaction m = (\<lambda>db. case m db of (Inr x, db') \<Rightarrow> (Inr x, db') | (Inl e, db') \<Rightarrow> (Inl e, db))"

definition history_or_empty :: "scope \<Rightarrow> string \<Rightarrow> intent_tables \<Rightarrow> intent list result" where
  "history_or_empty sc i db = mapR intent_from_row (sort_key ir_version
     (filter (\<lambda>r. ir_scope r = scope_values sc \<and> ir_intent_id r = i) (it_intents db)))"

definition current_one :: "scope \<Rightarrow> string \<Rightarrow> intent_tables \<Rightarrow> intent option result" where
  "current_one sc i db = bindR (history_or_empty sc i db) (\<lambda>h. Inr (if h = [] then None else Some (last h)))"

definition intent_by_idempotency :: "scope \<Rightarrow> string \<Rightarrow> string \<Rightarrow> intent_tables \<Rightarrow> intent option result" where
  "intent_by_idempotency sc i key db =
     (case find (\<lambda>r. ir_scope r = scope_values sc \<and> ir_intent_id r = i \<and> ir_sync_idem_key r = key) (it_intents db) of
        None \<Rightarrow> Inr None
      | Some r \<Rightarrow> bindR (intent_from_row r) (\<lambda>x. Inr (Some x)))"

definition transition_by_version :: "scope \<Rightarrow> string \<Rightarrow> int \<Rightarrow> intent_tables \<Rightarrow> intent_transition option result" where
  "transition_by_version sc i v db =
     (case find (\<lambda>r. xr_scope r = scope_values sc \<and> xr_intent_id r = i \<and> xr_version r = v) (it_transitions db) of
        None \<Rightarrow> Inr None
      | Some r \<Rightarrow> bindR (transition_from_row r) (\<lambda>x. Inr (Some x)))"

definition sqlite_append_initial :: "intent \<Rightarrow> (intent_tables, intent) prog" where
  "sqlite_append_initial i = (\<lambda>db.
     if in_status i \<noteq> CANDIDATE \<or> in_version i \<noteq> 1
     then (Inl (ValueError ''initial Intent must be a version-one candidate''), db)
     else bindP (readP (history_or_empty (in_scope i) (in_intent_id i))) (\<lambda>existing.
       if existing \<noteq> [] then liftP (admission_replay (hd existing) i)
       else thenP (transaction (insert_intent i)) (returnP i)) db)"

definition sqlite_apply_transition ::
  "intent \<Rightarrow> intent \<Rightarrow> intent_transition \<Rightarrow> (intent_tables, intent) prog" where
  "sqlite_apply_transition before after t =
     bindP (readP (intent_by_idempotency (in_scope after) (in_intent_id after) (in_key after))) (\<lambda>found.
     case found of
       Some replay \<Rightarrow>
         bindP (readP (transition_by_version (in_scope replay) (in_intent_id replay) (in_version replay)))
           (\<lambda>replay_transition.
           if replay = after \<and> replay_transition = Some t then returnP replay
           else raiseP (ValueError ''conflicting transition idempotency replay''))
     | None \<Rightarrow>
         bindP (readP (current_one (in_scope before) (in_intent_id before))) (\<lambda>current.
         case raise_first (transition_shape_checks before after t current) of
           Some e \<Rightarrow> raiseP e
         | None \<Rightarrow> thenP (transaction (thenP (insert_intent after) (insert_transition t))) (returnP after)))"

definition sqlite_current :: "scope \<Rightarrow> intent_tables \<Rightarrow> intent list result" where
  "sqlite_current sc db =
     bindR (mapR intent_from_row (sort_key (\<lambda>r. (ir_intent_id r, ir_version r))
       (filter (\<lambda>r. ir_scope r = scope_values sc) (it_intents db)))) (\<lambda>xs.
     let latest = fold (\<lambda>x d. AList.update (in_intent_id x) x d) xs [] in
     Inr (map (\<lambda>i. the (map_of latest i)) (sort (map fst latest))))"

definition sqlite_history :: "scope \<Rightarrow> string \<Rightarrow> intent_tables \<Rightarrow> intent list result" where
  "sqlite_history sc i db = bindR (history_or_empty sc i db) (\<lambda>h.
     if h = [] then Inl (KeyError ''missing Intent'') else Inr h)"

definition sqlite_transitions :: "scope \<Rightarrow> string \<Rightarrow> intent_tables \<Rightarrow> intent_transition list result" where
  "sqlite_transitions sc i db = (let rows = sort_key xr_version
       (filter (\<lambda>r. xr_scope r = scope_values sc \<and> xr_intent_id r = i) (it_transitions db)) in
     bindR (if rows = [] then bindR (history_or_empty sc i db) (\<lambda>h. Inr (h = [])) else Inr False) (\<lambda>missing.
     if missing then Inl (KeyError ''missing Intent'') else mapR transition_from_row rows))"

definition sqlite_intent_backend :: "intent_tables intent_backend" where
  "sqlite_intent_backend = \<lparr>ib_append_initial = sqlite_append_initial,
     ib_apply_transition = sqlite_apply_transition, ib_current = sqlite_current,
     ib_history = sqlite_history, ib_transitions = sqlite_transitions\<rparr>"


section \<open>The ledger the tables stand for\<close>

definition rows_ledger :: "intent list \<Rightarrow> intent_transition list \<Rightarrow> intent_ledger" where
  "rows_ledger xs ts = (\<lambda>k. let h = filter (\<lambda>x. key_of x = k) xs in
     if h = [] then None else Some (h, filter (\<lambda>t. (tr_scope t, tr_intent_id t) = k) ts))"

definition tables_hold :: "intent_tables \<Rightarrow> intent list \<Rightarrow> intent_transition list \<Rightarrow> bool" where
  "tables_hold db xs ts \<longleftrightarrow> it_intents db = map intent_to_row xs \<and> it_transitions db = map transition_to_row ts \<and>
     list_all intent_valid xs \<and> list_all transition_valid ts \<and> ledger_wf (rows_ledger xs ts) \<and>
     list_all (\<lambda>t. rows_ledger xs ts (tr_scope t, tr_intent_id t) \<noteq> None) ts"

definition sqlite_ledger :: "intent_tables \<Rightarrow> intent_ledger" where
  "sqlite_ledger db = rows_ledger (map (\<lambda>r. projr (intent_from_row r)) (it_intents db))
     (map (\<lambda>r. projr (transition_from_row r)) (it_transitions db))"

definition sqlite_inv :: "intent_tables \<Rightarrow> bool" where
  "sqlite_inv db \<longleftrightarrow> (\<exists>xs ts. tables_hold db xs ts)"

lemma tables_ledger: "tables_hold db xs ts \<Longrightarrow> sqlite_ledger db = rows_ledger xs ts"
proof -
  assume h: "tables_hold db xs ts"
  have "map (\<lambda>r. projr (intent_from_row r)) (map intent_to_row xs) = xs"
    using h by (auto simp: tables_hold_def list_all_iff intent_row_round_trip intro!: map_idI)
  moreover have "map (\<lambda>r. projr (transition_from_row r)) (map transition_to_row ts) = ts"
    using h by (auto simp: tables_hold_def list_all_iff transition_row_round_trip intro!: map_idI)
  ultimately show ?thesis using h by (simp add: sqlite_ledger_def tables_hold_def)
qed

lemma sqlite_inv_empty: "sqlite_inv empty_tables"
  by (auto simp: sqlite_inv_def tables_hold_def empty_tables_def rows_ledger_def ledger_wf_def)

lemma filter_map_key:
  "(\<And>x. x \<in> set xs \<Longrightarrow> p (f x) = q x) \<Longrightarrow> filter p (map f xs) = map f (filter q xs)"
  by (induction xs) auto

lemma intent_to_row_simps [simp]:
  "ir_scope (intent_to_row i) = scope_values (in_scope i)" "ir_intent_id (intent_to_row i) = in_intent_id i"
  "ir_version (intent_to_row i) = in_version i" "ir_sync_idem_key (intent_to_row i) = in_key i"
  by (simp_all add: intent_to_row_def)

lemma transition_to_row_simps [simp]:
  "xr_scope (transition_to_row t) = scope_values (tr_scope t)"
  "xr_intent_id (transition_to_row t) = tr_intent_id t" "xr_version (transition_to_row t) = tr_version t"
  "xr_transition_id (transition_to_row t) = tr_transition_id t"
  by (simp_all add: transition_to_row_def)

lemma same_scope_columns:
  "intent_valid x \<Longrightarrow> scope_valid sc \<Longrightarrow> scope_values (in_scope x) = scope_values sc \<longleftrightarrow> in_scope x = sc"
  "transition_valid t \<Longrightarrow> scope_valid sc \<Longrightarrow> scope_values (tr_scope t) = scope_values sc \<longleftrightarrow> tr_scope t = sc"
  by (simp_all add: scope_values_inject intent_valid_def transition_valid_def)

lemma rows_of_key:
  assumes "tables_hold db xs ts" and "scope_valid sc"
  shows "filter (\<lambda>r. ir_scope r = scope_values sc \<and> ir_intent_id r = i) (it_intents db) =
      map intent_to_row (filter (\<lambda>x. key_of x = (sc, i)) xs)"
    and "filter (\<lambda>r. xr_scope r = scope_values sc \<and> xr_intent_id r = i) (it_transitions db) =
      map transition_to_row (filter (\<lambda>t. (tr_scope t, tr_intent_id t) = (sc, i)) ts)"
    and "filter (\<lambda>r. ir_scope r = scope_values sc) (it_intents db) =
      map intent_to_row (filter (\<lambda>x. in_scope x = sc) xs)"
  using assms same_scope_columns(1) [OF _ assms(2)] same_scope_columns(2) [OF _ assms(2)]
  by (auto simp: tables_hold_def list_all_iff key_of_def intro!: filter_map_key)

lemma entry_versions:
  assumes "entry_wf k h ts"
  shows "sorted (map in_version h)" and "sorted (map tr_version ts)"
    and "x \<in> set h \<Longrightarrow> in_version x \<le> int (length h)" and "t \<in> set ts \<Longrightarrow> tr_version t \<le> int (length h)"
proof -
  show "sorted (map in_version h)" using assms by (simp add: entry_wf_def sorted_iff_nth_mono)
  show "sorted (map tr_version ts)" using assms by (simp add: entry_wf_def steps_ok_def sorted_iff_nth_mono)
  show "x \<in> set h \<Longrightarrow> in_version x \<le> int (length h)"
    using assms by (auto simp: entry_wf_def in_set_conv_nth)
  show "t \<in> set ts \<Longrightarrow> tr_version t \<le> int (length h)"
    using assms by (auto simp: entry_wf_def steps_ok_def in_set_conv_nth)
qed

lemma entry_of:
  assumes "tables_hold db xs ts" and "rows_ledger xs ts k = Some (h, us)"
  shows "entry_wf k h us" and "h = filter (\<lambda>x. key_of x = k) xs"
    and "us = filter (\<lambda>t. (tr_scope t, tr_intent_id t) = k) ts"
proof -
  have "ledger_wf (rows_ledger xs ts)" using assms(1) by (simp add: tables_hold_def)
  with assms(2) show "entry_wf k h us" unfolding ledger_wf_def by blast
  show "h = filter (\<lambda>x. key_of x = k) xs" "us = filter (\<lambda>t. (tr_scope t, tr_intent_id t) = k) ts"
    using assms(2) by (auto simp: rows_ledger_def Let_def split: if_splits)
qed

lemma mapR_rows:
  "list_all intent_valid xs \<Longrightarrow> mapR intent_from_row (map intent_to_row xs) = Inr xs"
  "list_all transition_valid ts \<Longrightarrow> mapR transition_from_row (map transition_to_row ts) = Inr ts"
proof -
  show "list_all intent_valid xs \<Longrightarrow> mapR intent_from_row (map intent_to_row xs) = Inr xs"
    by (induction xs) (auto simp: intent_row_round_trip)
  show "list_all transition_valid ts \<Longrightarrow> mapR transition_from_row (map transition_to_row ts) = Inr ts"
    by (induction ts) (auto simp: transition_row_round_trip)
qed

lemma sort_key_map: "sort_key f (map g xs) = map g (sort_key (\<lambda>x. f (g x)) xs)"
proof -
  have "insort_key f (g x) (map g ys) = map g (insort_key (\<lambda>x. f (g x)) x ys)" for x ys
    by (induction ys) auto
  then show ?thesis by (induction xs) auto
qed

lemma history_or_empty_reads:
  assumes h: "tables_hold db xs ts" and sc: "scope_valid sc"
  shows "history_or_empty sc i db = Inr (filter (\<lambda>x. key_of x = (sc, i)) xs)"
proof -
  let ?h = "filter (\<lambda>x. key_of x = (sc, i)) xs"
  have "sorted (map in_version ?h)"
  proof (cases "?h = []")
    case False
    then have "rows_ledger xs ts (sc, i) = Some (?h, filter (\<lambda>t. (tr_scope t, tr_intent_id t) = (sc, i)) ts)"
      by (simp add: rows_ledger_def)
    from entry_versions(1) [OF entry_of(1) [OF h this]] show ?thesis .
  qed simp
  then have "sort_key in_version ?h = ?h" by (rule sort_key_sorted)
  moreover have "list_all intent_valid ?h" using h by (auto simp: tables_hold_def list_all_iff)
  ultimately show ?thesis
    using rows_of_key(1) [OF h sc] by (simp add: history_or_empty_def sort_key_map mapR_rows)
qed

lemma sqlite_history_reads:
  assumes "tables_hold db xs ts" and "scope_valid sc"
  shows "sqlite_history sc i db =
    (case rows_ledger xs ts (sc, i) of None \<Rightarrow> Inl (KeyError ''missing Intent'') | Some (h, us) \<Rightarrow> Inr h)"
  by (simp add: sqlite_history_def history_or_empty_reads [OF assms] rows_ledger_def Let_def)

lemma sqlite_transitions_reads:
  assumes h: "tables_hold db xs ts" and sc: "scope_valid sc"
  shows "sqlite_transitions sc i db =
    (case rows_ledger xs ts (sc, i) of None \<Rightarrow> Inl (KeyError ''missing Intent'') | Some (h, us) \<Rightarrow> Inr us)"
proof -
  let ?us = "filter (\<lambda>t. (tr_scope t, tr_intent_id t) = (sc, i)) ts"
  have parent: "rows_ledger xs ts (sc, i) \<noteq> None" if "?us \<noteq> []"
  proof -
    from that obtain t where "t \<in> set ts" "(tr_scope t, tr_intent_id t) = (sc, i)"
      by (auto simp: filter_empty_conv)
    with h show ?thesis by (fastforce simp: tables_hold_def list_all_iff)
  qed
  have sorted: "sorted (map tr_version ?us)"
  proof (cases "?us = []")
    case False
    with parent obtain hh us where p: "rows_ledger xs ts (sc, i) = Some (hh, us)" by auto
    from entry_versions(2) [OF entry_of(1) [OF h this]] entry_of(3) [OF h p] show ?thesis by simp
  qed simp
  have valid: "list_all transition_valid ?us" using h by (auto simp: tables_hold_def list_all_iff)
  have rows: "sort_key xr_version (filter (\<lambda>r. xr_scope r = scope_values sc \<and> xr_intent_id r = i) (it_transitions db)) =
      map transition_to_row ?us"
    unfolding rows_of_key(2) [OF h sc] sort_key_map using sort_key_sorted [OF sorted] by simp
  show ?thesis
  proof (cases "?us = []")
    case True
    then show ?thesis
      unfolding sqlite_transitions_def rows Let_def
      by (simp add: history_or_empty_reads [OF h sc] rows_ledger_def)
  next
    case False
    with parent obtain hh where "rows_ledger xs ts (sc, i) = Some (hh, ?us)"
      by (auto simp: rows_ledger_def Let_def split: if_splits)
    with False show ?thesis
      unfolding sqlite_transitions_def rows Let_def
      using mapR_rows(2) [OF valid] by simp
  qed
qed


section \<open>The latest versions\<close>

lemma latest_lookup:
  "map_of (fold (\<lambda>x d. AList.update (in_intent_id x) x d) xs d0) i =
    (if filter (\<lambda>x. in_intent_id x = i) xs = [] then map_of d0 i
     else Some (last (filter (\<lambda>x. in_intent_id x = i) xs)))"
  by (induction xs arbitrary: d0) auto

lemma latest_keys:
  "fst ` set (fold (\<lambda>x d. AList.update (in_intent_id x) x d) xs d0) = fst ` set d0 \<union> in_intent_id ` set xs"
proof (induction xs arbitrary: d0)
  case (Cons x xs)
  have "fst ` set (AList.update (in_intent_id x) x d0) = insert (in_intent_id x) (fst ` set d0)"
    using dom_update [of "in_intent_id x" x d0] by (simp add: dom_map_of_conv_image_fst)
  with Cons show ?case by auto
qed simp

lemma latest_distinct:
  "distinct (map fst d0) \<Longrightarrow> distinct (map fst (fold (\<lambda>x d. AList.update (in_intent_id x) x d) xs d0))"
  by (induction xs arbitrary: d0) (auto simp: distinct_update)

lemma sqlite_current_reads:
  assumes h: "tables_hold db xs ts" and sc: "scope_valid sc"
  shows "\<exists>ys. sqlite_current sc db = Inr ys \<and> sorted (map in_intent_id ys) \<and> distinct (map in_intent_id ys) \<and>
    (\<forall>x. x \<in> set ys \<longleftrightarrow> (\<exists>h us. rows_ledger xs ts (sc, in_intent_id x) = Some (h, us) \<and> x = last h))"
proof -
  let ?kept = "filter (\<lambda>x. in_scope x = sc) xs"
  let ?s = "sort_key (\<lambda>x. (in_intent_id x, in_version x)) ?kept"
  let ?d = "fold (\<lambda>x d. AList.update (in_intent_id x) x d) ?s []"
  let ?ids = "sort (map fst ?d)"
  let ?ys = "map (\<lambda>i. the (map_of ?d i)) ?ids"
  have "list_all intent_valid ?s" using h by (auto simp: tables_hold_def list_all_iff)
  then have run: "sqlite_current sc db = Inr ?ys"
    unfolding sqlite_current_def rows_of_key(3) [OF h sc] sort_key_map
    by (simp add: mapR_rows(1) Let_def)
  have entry: "filter (\<lambda>x. in_intent_id x = i) ?s = filter (\<lambda>x. key_of x = (sc, i)) xs" for i
  proof -
    let ?h = "filter (\<lambda>x. key_of x = (sc, i)) xs"
    have "filter (\<lambda>x. in_intent_id x = i) ?kept = ?h"
      by (simp add: key_of_def conj_commute)
    then have "filter (\<lambda>x. in_intent_id x = i) ?s = sort_key (\<lambda>x. (in_intent_id x, in_version x)) ?h"
      by (simp add: filter_sort)
    also have "\<dots> = ?h"
    proof (rule sort_key_sorted, cases "?h = []")
      case False
      then have "rows_ledger xs ts (sc, i) = Some (?h, filter (\<lambda>t. (tr_scope t, tr_intent_id t) = (sc, i)) ts)"
        by (simp add: rows_ledger_def)
      from entry_versions(1) [OF entry_of(1) [OF h this]]
      have "sorted_wrt (\<lambda>x y. in_version x \<le> in_version y) ?h" by (simp add: sorted_map)
      then have "sorted_wrt (\<lambda>x y. (in_intent_id x, in_version x) \<le> (in_intent_id y, in_version y)) ?h"
        by (rule sorted_wrt_mono_rel [rotated]) (auto simp: key_of_def)
      then show "sorted (map (\<lambda>x. (in_intent_id x, in_version x)) ?h)" by (simp add: sorted_map)
    qed simp
    finally show ?thesis .
  qed
  have look: "map_of ?d i = (case rows_ledger xs ts (sc, i) of None \<Rightarrow> None | Some (h, us) \<Rightarrow> Some (last h))" for i
    unfolding latest_lookup entry by (simp add: rows_ledger_def Let_def)
  have mem: "i \<in> set ?ids \<longleftrightarrow> map_of ?d i \<noteq> None" for i
    by (simp add: map_of_eq_None_iff)
  have id: "in_intent_id (the (map_of ?d i)) = i" if "i \<in> set ?ids" for i
  proof -
    from that mem obtain x where x: "map_of ?d i = Some x" by auto
    then obtain hh us where "rows_ledger xs ts (sc, i) = Some (hh, us)" "x = last hh"
      unfolding look by (auto split: option.splits)
    with entry_of(1) [OF h this(1)] have "key_of x = (sc, i)" by (simp add: entry_wf_def)
    with x show ?thesis by (simp add: key_of_def)
  qed
  have ids: "map in_intent_id ?ys = ?ids"
    unfolding map_map comp_def by (rule map_idI) (rule id)
  have "distinct ?ids" using latest_distinct [of "[]" ?s] by simp
  moreover have "x \<in> set ?ys \<longleftrightarrow> (\<exists>h us. rows_ledger xs ts (sc, in_intent_id x) = Some (h, us) \<and> x = last h)" for x
  proof -
    have "x \<in> set ?ys \<longleftrightarrow> map_of ?d (in_intent_id x) = Some x"
    proof
      assume "x \<in> set ?ys"
      then obtain i where i: "i \<in> set ?ids" "x = the (map_of ?d i)" unfolding set_map by blast
      then have "in_intent_id x = i" using id by blast
      moreover have "map_of ?d i = Some x" using i mem [of i] by auto
      ultimately show "map_of ?d (in_intent_id x) = Some x" by simp
    next
      assume x: "map_of ?d (in_intent_id x) = Some x"
      then have "in_intent_id x \<in> set ?ids" unfolding mem by simp
      moreover have "x = the (map_of ?d (in_intent_id x))" using x by simp
      ultimately show "x \<in> set ?ys" unfolding set_map by (rule rev_image_eqI)
    qed
    then show ?thesis unfolding look by (auto split: option.splits)
  qed
  ultimately have "sorted (map in_intent_id ?ys) \<and> distinct (map in_intent_id ?ys) \<and>
      (\<forall>x. x \<in> set ?ys \<longleftrightarrow> (\<exists>h us. rows_ledger xs ts (sc, in_intent_id x) = Some (h, us) \<and> x = last h))"
    unfolding ids by simp
  with run show ?thesis by blast
qed

section \<open>Appending\<close>

lemma rows_ledger_snoc:
  "rows_ledger (xs @ [x]) ts = (rows_ledger xs ts)(key_of x \<mapsto>
     (filter (\<lambda>y. key_of y = key_of x) xs @ [x], filter (\<lambda>t. (tr_scope t, tr_intent_id t) = key_of x) ts))"
  by (auto simp: rows_ledger_def fun_eq_iff Let_def)

lemma insert_intent_new:
  assumes h: "tables_hold db xs ts" and v: "intent_valid x"
    and "\<forall>y \<in> set xs. key_of y = key_of x \<longrightarrow> in_version y \<noteq> in_version x \<and> in_key y \<noteq> in_key x"
  shows "insert_intent x db = (Inr (), db\<lparr>it_intents := map intent_to_row (xs @ [x])\<rparr>)"
proof -
  have "scope_valid (in_scope x)" using v by (simp add: intent_valid_def)
  with h assms(3) same_scope_columns(1) have
    "\<not> list_ex (\<lambda>y. (ir_scope y, ir_intent_id y, ir_version y) =
          (ir_scope (intent_to_row x), ir_intent_id (intent_to_row x), ir_version (intent_to_row x)) \<or>
        (ir_scope y, ir_intent_id y, ir_sync_idem_key y) =
          (ir_scope (intent_to_row x), ir_intent_id (intent_to_row x), ir_sync_idem_key (intent_to_row x)))
      (it_intents db)"
    by (auto simp: tables_hold_def list_ex_iff list_all_iff key_of_def)
  with h show ?thesis unfolding insert_intent_def Let_def by (simp add: tables_hold_def)
qed

lemma sqlite_append_refines:
  assumes h: "tables_hold db xs ts" and v: "intent_valid i" and run: "sqlite_append_initial i db = (r, db')"
  shows "\<exists>xs'. tables_hold db' xs' ts \<and> ledger_append i (rows_ledger xs ts) = (r, rows_ledger xs' ts)"
proof (cases "fst (initial_check i)")
  case True
  with h run show ?thesis by (auto simp: sqlite_append_initial_def ledger_append_def initial_check_def)
next
  case False
  have sc: "scope_valid (in_scope i)" using v by (simp add: intent_valid_def)
  let ?h = "filter (\<lambda>x. key_of x = key_of i) xs"
  have hist: "history_or_empty (in_scope i) (in_intent_id i) db = Inr ?h"
    using history_or_empty_reads [OF h sc] by (simp add: key_of_def)
  show ?thesis
  proof (cases "?h = []")
    case False': False
    with False h run hist have "ledger_append i (rows_ledger xs ts) = (r, rows_ledger xs ts)" "db' = db"
      by (auto simp: sqlite_append_initial_def ledger_append_def initial_check_def bindP_def rows_ledger_def)
    with h show ?thesis by blast
  next
    case True
    then have none: "\<forall>y \<in> set xs. key_of y \<noteq> key_of i" by (simp add: filter_empty_conv)
    then have ins: "insert_intent i db = (Inr (), db\<lparr>it_intents := map intent_to_row (xs @ [i])\<rparr>)"
      by (intro insert_intent_new [OF h v]) blast
    with False run hist True have r: "r = Inr i" "db' = db\<lparr>it_intents := map intent_to_row (xs @ [i])\<rparr>"
      by (auto simp: sqlite_append_initial_def initial_check_def bindP_def thenP_def transaction_def)
    have nots: "filter (\<lambda>t. (tr_scope t, tr_intent_id t) = key_of i) ts = []"
    proof -
      have "rows_ledger xs ts (key_of i) = None" using True by (simp add: rows_ledger_def)
      with h show ?thesis by (force simp: tables_hold_def list_all_iff filter_empty_conv)
    qed
    have led: "ledger_append i (rows_ledger xs ts) = (r, rows_ledger (xs @ [i]) ts)"
      using False True nots r by (simp add: ledger_append_def rows_ledger_snoc) (simp add: rows_ledger_def)
    have wf: "ledger_wf (rows_ledger (xs @ [i]) ts)"
      using h ledger_append_wf [OF _ v led] by (simp add: tables_hold_def)
    have "list_all (\<lambda>t. rows_ledger (xs @ [i]) ts (tr_scope t, tr_intent_id t) \<noteq> None) ts"
      using h by (auto simp: tables_hold_def list_all_iff rows_ledger_snoc)
    then have "tables_hold db' (xs @ [i]) ts"
      using h v wf r(2) by (simp add: tables_hold_def)
    with led show ?thesis by blast
  qed
qed


lemma find_map_rows: "(\<And>x. x \<in> set xs \<Longrightarrow> p (f x) \<longleftrightarrow> q x \<and> s x) \<Longrightarrow>
    find p (map f xs) = map_option f (find s (filter q xs))"
  by (induction xs) auto

lemma find_in: "find p xs = Some x \<Longrightarrow> x \<in> set xs"
  by (auto simp: find_Some_iff)

lemma intent_by_idempotency_reads:
  assumes h: "tables_hold db xs ts" and sc: "scope_valid sc"
  shows "intent_by_idempotency sc i key db =
    Inr (find (\<lambda>x. in_key x = key) (filter (\<lambda>x. key_of x = (sc, i)) xs))"
proof -
  have "find (\<lambda>r. ir_scope r = scope_values sc \<and> ir_intent_id r = i \<and> ir_sync_idem_key r = key) (it_intents db) =
      map_option intent_to_row (find (\<lambda>x. in_key x = key) (filter (\<lambda>x. key_of x = (sc, i)) xs))"
    using h same_scope_columns(1) [OF _ sc]
    by (auto simp: tables_hold_def list_all_iff key_of_def intro!: find_map_rows)
  moreover have "intent_from_row (intent_to_row x) = Inr x"
    if "find (\<lambda>x. in_key x = key) (filter (\<lambda>x. key_of x = (sc, i)) xs) = Some x" for x
    using find_in [OF that] h by (auto simp: tables_hold_def list_all_iff intent_row_round_trip)
  ultimately show ?thesis by (auto simp: intent_by_idempotency_def split: option.split)
qed

lemma transition_by_version_reads:
  assumes h: "tables_hold db xs ts" and sc: "scope_valid sc"
  shows "transition_by_version sc i v db =
    Inr (find (\<lambda>t. tr_version t = v) (filter (\<lambda>t. (tr_scope t, tr_intent_id t) = (sc, i)) ts))"
proof -
  have "find (\<lambda>r. xr_scope r = scope_values sc \<and> xr_intent_id r = i \<and> xr_version r = v) (it_transitions db) =
      map_option transition_to_row (find (\<lambda>t. tr_version t = v) (filter (\<lambda>t. (tr_scope t, tr_intent_id t) = (sc, i)) ts))"
  proof -
    have "it_transitions db = map transition_to_row ts" using h by (simp add: tables_hold_def)
    moreover have "find (\<lambda>r. xr_scope r = scope_values sc \<and> xr_intent_id r = i \<and> xr_version r = v)
        (map transition_to_row ts) = map_option transition_to_row
          (find (\<lambda>t. tr_version t = v) (filter (\<lambda>t. (tr_scope t, tr_intent_id t) = (sc, i)) ts))"
      using h same_scope_columns(2) [OF _ sc] by (intro find_map_rows) (auto simp: tables_hold_def list_all_iff)
    ultimately show ?thesis by simp
  qed
  moreover have "transition_from_row (transition_to_row t) = Inr t"
    if "find (\<lambda>t. tr_version t = v) (filter (\<lambda>t. (tr_scope t, tr_intent_id t) = (sc, i)) ts) = Some t" for t
    using find_in [OF that] h by (auto simp: tables_hold_def list_all_iff transition_row_round_trip)
  ultimately show ?thesis unfolding transition_by_version_def by (auto split: option.split)
qed

lemma current_one_reads:
  assumes h: "tables_hold db xs ts" and sc: "scope_valid sc"
  shows "current_one sc i db = Inr (map_option (\<lambda>(h, us). last h) (rows_ledger xs ts (sc, i)))"
  by (simp add: current_one_def history_or_empty_reads [OF h sc] rows_ledger_def Let_def)

lemma canonical_inject:
  "canonical_transition_id i v = canonical_transition_id j w \<longleftrightarrow> i = j \<and> v = w"
  using versioned_id_inject [of "''intent-transition-'' @ i @ ''-''" v "''intent-transition-'' @ j @ ''-''" w]
  by (auto simp: canonical_transition_id_def)

lemma rows_ledger_step:
  assumes "rows_ledger xs ts (key_of x) = Some (h, us)" and "(tr_scope t, tr_intent_id t) = key_of x"
  shows "rows_ledger (xs @ [x]) (ts @ [t]) = (rows_ledger xs ts)(key_of x \<mapsto> (h @ [x], us @ [t]))"
  using assms by (auto simp: rows_ledger_def fun_eq_iff Let_def split: if_splits)

lemma transition_parent:
  "tables_hold db xs ts \<Longrightarrow> u \<in> set ts \<Longrightarrow> \<exists>h us. rows_ledger xs ts (tr_scope u, tr_intent_id u) = Some (h, us)"
  unfolding tables_hold_def list_all_iff by fast

lemma insert_transition_new:
  assumes h: "tables_hold db xs ts" and v: "transition_valid t" "intent_valid x"
    and e: "rows_ledger xs ts (key_of x) = Some (hh, us)" and tk: "(tr_scope t, tr_intent_id t) = key_of x"
    and c: "tr_transition_id t = canonical_transition_id (tr_intent_id t) (tr_version t)"
    and ver: "tr_version t = int (length hh) + 1" "tr_version t = in_version x"
  shows "insert_transition t (db\<lparr>it_intents := map intent_to_row (xs @ [x])\<rparr>) =
    (Inr (), \<lparr>it_intents = map intent_to_row (xs @ [x]), it_transitions = map transition_to_row (ts @ [t])\<rparr>)"
proof -
  have sc: "scope_valid (tr_scope t)" using v by (simp add: transition_valid_def)
  have new: "\<not> (tr_scope u = tr_scope t \<and>
      (tr_transition_id u = tr_transition_id t \<or> tr_intent_id u = tr_intent_id t \<and> tr_version u = tr_version t))"
    if u: "u \<in> set ts" for u
  proof
    assume a: "tr_scope u = tr_scope t \<and>
      (tr_transition_id u = tr_transition_id t \<or> tr_intent_id u = tr_intent_id t \<and> tr_version u = tr_version t)"
    obtain hu uu where eu: "rows_ledger xs ts (tr_scope u, tr_intent_id u) = Some (hu, uu)"
      using transition_parent [OF h u] by auto
    note wf = entry_of [OF h eu]
    have uin: "u \<in> set uu" using wf(3) u by simp
    then have "tr_transition_id u = canonical_transition_id (tr_intent_id u) (tr_version u)"
      using steps_ok_member [OF entry_steps [OF wf(1)]] by blast
    with a c have same: "tr_intent_id u = tr_intent_id t" "tr_version u = tr_version t"
      by (auto simp: canonical_inject)
    with a tk eu e have "hu = hh" by simp
    with entry_versions(4) [OF wf(1) uin] same ver show False by simp
  qed
  have "\<not> list_ex (\<lambda>r. (xr_scope r, xr_transition_id r) = (scope_values (tr_scope t), tr_transition_id t) \<or>
      (xr_scope r, xr_intent_id r, xr_version r) = (scope_values (tr_scope t), tr_intent_id t, tr_version t))
      (it_transitions db)"
    using h new same_scope_columns(2) [OF _ sc] by (auto simp: tables_hold_def list_ex_iff list_all_iff)
  moreover have "tr_scope t = in_scope x" "tr_intent_id t = in_intent_id x" using tk by (simp_all add: key_of_def)
  ultimately show ?thesis
    using h ver by (simp add: insert_transition_def Let_def tables_hold_def)
qed

lemma sqlite_apply_refines:
  assumes h: "tables_hold db xs ts" and v: "intent_valid after" "transition_valid t"
    and c: "tr_transition_id t = canonical_transition_id (tr_intent_id t) (tr_version t)"
    and k: "key_of after = key_of before" and e: "rows_ledger xs ts (key_of before) = Some (hh, us)"
    and run: "sqlite_apply_transition before after t db = (r, db')"
  shows "\<exists>xs' ts'. tables_hold db' xs' ts' \<and>
    ledger_apply before after t (rows_ledger xs ts) = (r, rows_ledger xs' ts')"
proof -
  note wf = entry_of [OF h e]
  have sc: "scope_valid (in_scope after)" "scope_valid (in_scope before)"
    using v k by (auto simp: intent_valid_def key_of_def)
  have ka: "(in_scope after, in_intent_id after) = key_of before" using k by (simp add: key_of_def)
  have found: "intent_by_idempotency (in_scope after) (in_intent_id after) (in_key after) db =
      Inr (find (\<lambda>x. in_key x = in_key after) hh)"
    unfolding intent_by_idempotency_reads [OF h sc(1)] ka wf(2) ..
  have cur: "current_one (in_scope before) (in_intent_id before) db = Inr (Some (last hh))"
    using current_one_reads [OF h sc(2)] e by (simp add: key_of_def)
  show ?thesis
  proof (cases "find (\<lambda>x. in_key x = in_key after) hh")
    case (Some replay)
    then have "replay \<in> set hh" by (rule find_in)
    then have kr: "key_of replay = key_of before" and vr: "scope_valid (in_scope replay)"
      using entry_member [OF wf(1)] by (auto simp: intent_valid_def)
    have "transition_by_version (in_scope replay) (in_intent_id replay) (in_version replay) db =
        Inr (find (\<lambda>u. tr_version u = in_version replay) us)"
      using transition_by_version_reads [OF h vr, of "in_intent_id replay"] kr wf(3) by (simp add: key_of_def)
    with Some found run e have "db' = db" "ledger_apply before after t (rows_ledger xs ts) = (r, rows_ledger xs ts)"
      by (auto simp: sqlite_apply_transition_def bindP_def ledger_apply_def split: if_splits)
    with h show ?thesis by blast
  next
    case None
    show ?thesis
    proof (cases "raise_first (transition_shape_checks before after t (Some (last hh)))")
      case (Some err)
      with None found cur run e
      have "db' = db" "ledger_apply before after t (rows_ledger xs ts) = (r, rows_ledger xs ts)"
        by (simp_all add: sqlite_apply_transition_def bindP_def ledger_apply_def)
      with h show ?thesis by blast
    next
      case ok: None
      then have s: "all_clear (transition_shape_checks before after t (Some (last hh)))"
        by (simp add: raise_first_None_iff)
      note s = s [unfolded transition_shape_clear]
      have tk: "(tr_scope t, tr_intent_id t) = key_of after" using s by (simp add: key_of_def)
      have e': "rows_ledger xs ts (key_of after) = Some (hh, us)" using e k by simp
      have "in_version (last hh) = int (length hh)" by (rule entry_last_version [OF wf(1)])
      then have ver: "in_version after = int (length hh) + 1" using s by simp
      have "\<forall>y \<in> set xs. key_of y = key_of after \<longrightarrow> in_version y \<noteq> in_version after \<and> in_key y \<noteq> in_key after"
      proof (intro ballI impI)
        fix y
        assume "y \<in> set xs" "key_of y = key_of after"
        then have y: "y \<in> set hh" using wf(2) k by simp
        with entry_versions(3) [OF wf(1) y] ver None show "in_version y \<noteq> in_version after \<and> in_key y \<noteq> in_key after"
          by (auto simp: find_None_iff)
      qed
      from insert_intent_new [OF h v(1) this]
        insert_transition_new [OF h v(2) v(1) e' tk c] s ver
      have ins: "transaction (thenP (insert_intent after) (insert_transition t)) db =
          (Inr (), \<lparr>it_intents = map intent_to_row (xs @ [after]), it_transitions = map transition_to_row (ts @ [t])\<rparr>)"
        by (simp add: transaction_def thenP_def bindP_def)
      from None ok found cur run ins have r: "r = Inr after"
        "db' = \<lparr>it_intents = map intent_to_row (xs @ [after]), it_transitions = map transition_to_row (ts @ [t])\<rparr>"
        by (auto simp: sqlite_apply_transition_def bindP_def thenP_def)
      have step: "rows_ledger (xs @ [after]) (ts @ [t]) = (rows_ledger xs ts)(key_of after \<mapsto> (hh @ [after], us @ [t]))"
        by (rule rows_ledger_step [OF e' tk])
      have led: "ledger_apply before after t (rows_ledger xs ts) = (r, rows_ledger (xs @ [after]) (ts @ [t]))"
        using None ok e k r by (simp add: ledger_apply_def step)
      have "ledger_wf (rows_ledger (xs @ [after]) (ts @ [t]))"
        using h ledger_apply_wf [OF _ v c led] by (simp add: tables_hold_def)
      moreover have "list_all (\<lambda>u. rows_ledger (xs @ [after]) (ts @ [t]) (tr_scope u, tr_intent_id u) \<noteq> None) (ts @ [t])"
        using h tk by (auto simp: tables_hold_def list_all_iff step)
      ultimately have "tables_hold db' (xs @ [after]) (ts @ [t])"
        using h v r(2) by (simp add: tables_hold_def)
      with led show ?thesis by blast
    qed
  qed
qed

interpretation sql: intent_store sqlite_intent_backend sqlite_inv sqlite_ledger
proof (unfold_locales, simp_all only: sqlite_intent_backend_def intent_backend.simps)
  fix db i r db'
  assume "sqlite_inv db" "intent_valid i" "sqlite_append_initial i db = (r, db')"
  then show "sqlite_inv db' \<and> ledger_append i (sqlite_ledger db) = (r, sqlite_ledger db')"
    using sqlite_append_refines tables_ledger unfolding sqlite_inv_def by metis
next
  fix db before after t r db'
  assume "sqlite_inv db" "intent_valid after" "transition_valid t"
    "tr_transition_id t = canonical_transition_id (tr_intent_id t) (tr_version t)"
    "key_of after = key_of before" "sqlite_ledger db (key_of before) \<noteq> None"
    "sqlite_apply_transition before after t db = (r, db')"
  then show "sqlite_inv db' \<and> ledger_apply before after t (sqlite_ledger db) = (r, sqlite_ledger db')"
    using sqlite_apply_refines tables_ledger unfolding sqlite_inv_def
    by (metis not_None_eq surj_pair)
next
  fix db sc ident
  assume "sqlite_inv db"
  then obtain xs ts where h: "tables_hold db xs ts" by (auto simp: sqlite_inv_def)
  note led = tables_ledger [OF h]
  show "ledger_wf (sqlite_ledger db)" using h led by (simp add: tables_hold_def)
  assume sc: "scope_valid sc"
  show "\<exists>ys. sqlite_current sc db = Inr ys \<and> sorted (map in_intent_id ys) \<and> distinct (map in_intent_id ys) \<and>
    (\<forall>x. (x \<in> set ys) = (\<exists>h us. sqlite_ledger db (sc, in_intent_id x) = Some (h, us) \<and> x = last h))"
    using sqlite_current_reads [OF h sc] led by simp
  show "sqlite_history sc ident db = (case sqlite_ledger db (sc, ident) of
      None \<Rightarrow> Inl (KeyError ''missing Intent'') | Some (h, ts) \<Rightarrow> Inr h)"
    using sqlite_history_reads [OF h sc] led by simp
  show "sqlite_transitions sc ident db = (case sqlite_ledger db (sc, ident) of
      None \<Rightarrow> Inl (KeyError ''missing Intent'') | Some (h, ts) \<Rightarrow> Inr ts)"
    using sqlite_transitions_reads [OF h sc] led by simp
qed


end
