(* ===== verification/Intent_Lifecycle.thy ===== *)
theory Intent_Lifecycle
  imports Intent_Memory Intent_Sqlite
begin

text \<open>
  \<^verbatim>\<open>intents/lifecycle.py\<close> and \<^verbatim>\<open>intents/scheduler.py\<close>: the lifecycle service over any backend, with its
  transition table and its idempotent replays, and one scheduler tick. The service's properties are
  proved once in the locale \<open>intent_store\<close> and hold for both backends; the locale \<open>two_stores\<close> compares
  two backends that stand for the same ledger.
\<close>

section \<open>The service\<close>

fun legal_transitions :: "intent_status \<Rightarrow> intent_status list" where
  "legal_transitions CANDIDATE = [ALLOWED, DEFERRED, BLOCKED, EXPIRED, SUPERSEDED]"
| "legal_transitions DEFERRED = [CANDIDATE, EXPIRED, SUPERSEDED]"
| "legal_transitions ALLOWED = [COMPLETED, SUPERSEDED]"
| "legal_transitions _ = []"

definition is_initial_candidate :: "intent \<Rightarrow> bool" where
  "is_initial_candidate i \<longleftrightarrow> in_status i = CANDIDATE \<and> in_version i = 1"

definition admit :: "'s intent_backend \<Rightarrow> intent \<Rightarrow> ('s, intent) prog" where
  "admit ops i = (if \<not> is_initial_candidate i
     then raiseP (ValueError ''admit requires a version-one candidate Intent'')
     else ib_append_initial ops i)"

definition next_version ::
  "scope \<Rightarrow> string \<Rightarrow> intent \<Rightarrow> intent_status \<Rightarrow> string \<Rightarrow> intent" where
  "next_version sc ident before to_status key = restamp before to_status
     (mk_sync sc (in_origin_runtime_id before) ident (in_version before + 1) key)"

definition next_transition ::
  "scope \<Rightarrow> string \<Rightarrow> intent \<Rightarrow> intent_status \<Rightarrow> string list \<Rightarrow> datetime \<Rightarrow> string \<Rightarrow> intent_transition" where
  "next_transition sc ident before to_status codes tm key =
     (let v = in_version before + 1; i = canonical_transition_id ident v in
     \<lparr>tr_transition_id = i, tr_scope = sc, tr_origin_runtime_id = in_origin_runtime_id before,
      tr_intent_id = ident, tr_from_status = in_status before, tr_to_status = to_status,
      tr_reason_codes = codes, tr_occurred_at = tm, tr_version = v,
      tr_sync = mk_sync sc (in_origin_runtime_id before) i v key\<rparr>)"

definition replay_transition ::
  "'s intent_backend \<Rightarrow> scope \<Rightarrow> string \<Rightarrow> intent \<Rightarrow> intent_status \<Rightarrow> string list \<Rightarrow> 's \<Rightarrow> intent result" where
  "replay_transition ops sc ident existing to_status codes s =
     bindR (ib_transitions ops sc ident s) (\<lambda>ts.
     case find (\<lambda>t. tr_version t = in_version existing) ts of
       None \<Rightarrow> Inl (RuntimeError ''StopIteration'')
     | Some t \<Rightarrow> if tr_to_status t = to_status \<and> tr_reason_codes t = codes then Inr existing
         else Inl (ValueError ''conflicting transition idempotency replay''))"

definition transition ::
  "'s intent_backend \<Rightarrow> scope \<Rightarrow> string \<Rightarrow> intent_status \<Rightarrow> string list \<Rightarrow> datetime \<Rightarrow> string \<Rightarrow> ('s, intent) prog" where
  "transition ops sc ident to_status codes tm key =
     (case raise_first [require_non_empty ident ''intent_id'', require_non_empty key ''idempotency_key''] of
        Some e \<Rightarrow> raiseP e
      | None \<Rightarrow>
          bindP (readP (ib_history ops sc ident)) (\<lambda>history.
          case find (\<lambda>x. in_key x = key) (tl history) of
            Some existing \<Rightarrow> readP (replay_transition ops sc ident existing to_status codes)
          | None \<Rightarrow> let before = last history in
              if to_status \<notin> set (legal_transitions (in_status before))
              then raiseP (ValueError ''illegal Intent transition'')
              else bindP (liftP (mk_intent (next_version sc ident before to_status key))) (\<lambda>after.
                   bindP (liftP (mk_transition (next_transition sc ident before to_status codes tm key))) (\<lambda>t.
                   ib_apply_transition ops before after t))))"

section \<open>The scheduler\<close>

definition schedule_key :: "intent \<Rightarrow> int \<times> string" where
  "schedule_key i = (case in_due_at i of None \<Rightarrow> datetime_max | Some t \<Rightarrow> dt_instant t, in_intent_id i)"

definition is_expirable :: "datetime \<Rightarrow> intent \<Rightarrow> bool" where
  "is_expirable now i \<longleftrightarrow> in_status i \<in> {CANDIDATE, DEFERRED} \<and>
     (case in_expires_at i of None \<Rightarrow> False | Some t \<Rightarrow> dt_le t now)"

definition is_due :: "datetime \<Rightarrow> intent \<Rightarrow> bool" where
  "is_due now i \<longleftrightarrow> in_status i = DEFERRED \<and> in_reconsideration_policy i = ON_DUE \<and>
     (case in_due_at i of None \<Rightarrow> False | Some t \<Rightarrow> dt_le t now)"

definition expire_key :: "intent \<Rightarrow> string" where
  "expire_key i = ''scheduler-expire-'' @ in_intent_id i @ ''-v'' @ show_int (in_version i)"

definition due_key :: "intent \<Rightarrow> string" where
  "due_key i = ''scheduler-due-'' @ in_intent_id i @ ''-v'' @ show_int (in_version i)"

definition expire_intent :: "'s intent_backend \<Rightarrow> scope \<Rightarrow> datetime \<Rightarrow> intent \<Rightarrow> ('s, intent) prog" where
  "expire_intent ops sc now i =
     transition ops sc (in_intent_id i) EXPIRED [''scheduler_expired''] now (expire_key i)"

definition wake_intent :: "'s intent_backend \<Rightarrow> scope \<Rightarrow> datetime \<Rightarrow> intent \<Rightarrow> ('s, intent_wake) prog" where
  "wake_intent ops sc now i =
     bindP (transition ops sc (in_intent_id i) CANDIDATE [''scheduler_due''] now (due_key i)) (\<lambda>reconsidered.
     liftP (mk_wake \<lparr>wk_wake_id = ''wake-'' @ in_intent_id i @ ''-v'' @ show_int (in_version reconsidered),
       wk_scope = sc, wk_intent_id = in_intent_id i, wk_reason = ''due_reconsideration'',
       wk_woken_at = now, wk_intent_version = in_version reconsidered\<rparr>))"

definition tick :: "'s intent_backend \<Rightarrow> scope \<Rightarrow> datetime \<Rightarrow> ('s, intent_wake list) prog" where
  "tick ops sc now =
     (if \<not> is_aware_utc now then raiseP (ValueError ''scheduler now must be aware UTC'')
      else bindP (readP (ib_current ops sc)) (\<lambda>unordered.
        let intents = sort_key schedule_key unordered; expired = filter (is_expirable now) intents in
        thenP (eachP (expire_intent ops sc now) expired)
          (eachP (wake_intent ops sc now)
             (filter (\<lambda>i. in_intent_id i \<notin> in_intent_id ` set expired \<and> is_due now i) intents))))"

section \<open>What the service keeps\<close>

definition is_final :: "intent_status \<Rightarrow> bool" where
  "is_final s \<longleftrightarrow> s \<in> set [BLOCKED, EXPIRED, COMPLETED, SUPERSEDED]"

lemma final_no_moves: "is_final s \<longleftrightarrow> legal_transitions s = []"
  by (cases s) (simp_all add: is_final_def)

definition lawful :: "intent_ledger \<Rightarrow> bool" where
  "lawful L \<longleftrightarrow> (\<forall>k h ts. L k = Some (h, ts) \<longrightarrow>
     (\<forall>t \<in> set ts. tr_to_status t \<in> set (legal_transitions (tr_from_status t))))"

text \<open>A later ledger: entries are only appended to, and a finished intent is not touched.\<close>

definition ledger_le :: "intent_ledger \<Rightarrow> intent_ledger \<Rightarrow> bool" where
  "ledger_le L L' \<longleftrightarrow> (\<forall>k h ts. L k = Some (h, ts) \<longrightarrow>
     (\<exists>h' ts'. L' k = Some (h @ h', ts @ ts') \<and> (is_final (in_status (last h)) \<longrightarrow> h' = [] \<and> ts' = [])))"

lemma ledger_le_refl: "ledger_le L L"
  by (auto simp: ledger_le_def)

lemma ledger_le_trans:
  assumes "ledger_le L M" and "ledger_le M N"
  shows "ledger_le L N"
  unfolding ledger_le_def
proof (intro allI impI)
  fix k h ts
  assume "L k = Some (h, ts)"
  with assms(1) obtain h1 ts1 where m: "M k = Some (h @ h1, ts @ ts1)"
    "is_final (in_status (last h)) \<longrightarrow> h1 = [] \<and> ts1 = []" unfolding ledger_le_def by blast
  with assms(2) obtain h2 ts2 where n: "N k = Some ((h @ h1) @ h2, (ts @ ts1) @ ts2)"
    "is_final (in_status (last (h @ h1))) \<longrightarrow> h2 = [] \<and> ts2 = []" unfolding ledger_le_def by blast
  with m show "\<exists>h' ts'. N k = Some (h @ h', ts @ ts') \<and> (is_final (in_status (last h)) \<longrightarrow> h' = [] \<and> ts' = [])"
    by (intro exI [of _ "h1 @ h2"] exI [of _ "ts1 @ ts2"]) auto
qed

lemma next_shapes:
  assumes "entry_wf (sc, ident) h ts"
  shows "in_scope (last h) = sc" and "in_intent_id (last h) = ident" and "intent_valid (last h)"
proof -
  have "last h \<in> set h" using assms by (simp add: entry_wf_def)
  with entry_member [OF assms] show "in_scope (last h) = sc" "in_intent_id (last h) = ident"
    "intent_valid (last h)" by (auto simp: key_of_def)
qed

lemma next_version_valid:
  assumes "intent_valid i" and "non_empty key"
  shows "intent_valid (next_version (in_scope i) (in_intent_id i) i st key)"
    and "mk_intent (next_version (in_scope i) (in_intent_id i) i st key) =
      Inr (next_version (in_scope i) (in_intent_id i) i st key)"
proof -
  have "intent_schedule (next_version (in_scope i) (in_intent_id i) i st key) = intent_schedule i"
    by (simp add: intent_schedule_def next_version_def restamp_def)
  then have c: "all_clear (intent_checks (next_version (in_scope i) (in_intent_id i) i st key))"
    using assms by (simp add: intent_valid_def intent_checks_clear next_version_def restamp_def)
  with assms show "intent_valid (next_version (in_scope i) (in_intent_id i) i st key)"
    by (simp add: intent_valid_def) (simp add: next_version_def restamp_def)
  show "mk_intent (next_version (in_scope i) (in_intent_id i) i st key) =
      Inr (next_version (in_scope i) (in_intent_id i) i st key)"
    using c by (simp add: mk_intent_def guarded_clear)
qed

lemma next_transition_valid:
  assumes "intent_valid i" and "non_empty key" and "st \<noteq> in_status i"
  shows "all_clear (transition_checks (next_transition (in_scope i) (in_intent_id i) i st codes tm key)) \<longleftrightarrow>
    list_all non_empty codes \<and> is_aware_utc tm"
  using assms
  by (auto simp: transition_checks_clear next_transition_def Let_def canonical_transition_id_def
      intent_valid_def intent_checks_clear non_empty_eval)

lemma next_shape_clear:
  "all_clear (transition_shape_checks i (next_version (in_scope i) (in_intent_id i) i st key)
     (next_transition (in_scope i) (in_intent_id i) i st codes tm key) (Some i))"
  by (auto simp: transition_shape_clear next_version_def next_transition_def Let_def restamp_def)

section \<open>The service on a ledger\<close>

definition transition_spec ::
  "scope \<Rightarrow> string \<Rightarrow> intent_status \<Rightarrow> string list \<Rightarrow> datetime \<Rightarrow> string \<Rightarrow> (intent_ledger, intent) prog" where
  "transition_spec sc ident st codes tm key = (\<lambda>L.
     if \<not> non_empty ident then (Inl (ValueError ''intent_id must be non-empty''), L)
     else if \<not> non_empty key then (Inl (ValueError ''idempotency_key must be non-empty''), L)
     else case L (sc, ident) of
       None \<Rightarrow> (Inl (KeyError ''missing Intent''), L)
     | Some (h, ts) \<Rightarrow>
        (case find (\<lambda>x. in_key x = key) (tl h) of
           Some existing \<Rightarrow>
             (let t = ts ! nat (in_version existing - 2) in
              if tr_to_status t = st \<and> tr_reason_codes t = codes then Inr existing
              else Inl (ValueError ''conflicting transition idempotency replay''), L)
         | None \<Rightarrow>
             if st \<notin> set (legal_transitions (in_status (last h)))
             then (Inl (ValueError ''illegal Intent transition''), L)
             else (case mk_transition (next_transition sc ident (last h) st codes tm key) of
               Inl e \<Rightarrow> (Inl e, L)
             | Inr t \<Rightarrow>
                 if key = in_key (hd h)
                 then (Inl (ValueError ''conflicting transition idempotency replay''), L)
                 else (Inr (next_version sc ident (last h) st key),
                   L((sc, ident) \<mapsto> (h @ [next_version sc ident (last h) st key], ts @ [t]))))))"

lemma find_replay:
  assumes wf: "entry_wf k h ts" and x: "find (\<lambda>x. in_key x = key) (tl h) = Some x"
  shows "find (\<lambda>t. tr_version t = in_version x) ts = Some (ts ! nat (in_version x - 2))"
proof -
  from x obtain j where j: "j < length (tl h)" "x = tl h ! j" by (auto simp: find_Some_iff)
  have len: "length h = Suc (length ts)" and vts: "\<forall>k < length ts. tr_version (ts ! k) = int (k + 2)"
    using entry_steps [OF wf] by (simp_all add: steps_ok_def)
  from j len have jt: "j < length ts" by simp
  have "x = h ! Suc j" using j by (simp add: nth_tl)
  moreover have "in_version (h ! Suc j) = int (Suc j + 1)" using wf jt len by (simp add: entry_wf_def)
  ultimately have v: "in_version x = int (j + 2)" by simp
  then have n: "nat (in_version x - 2) = j" by simp
  have "tr_version (ts ! j) = in_version x" using vts jt v by simp
  moreover have "\<forall>i < j. tr_version (ts ! i) \<noteq> in_version x" using vts jt v by simp
  ultimately show ?thesis using jt n by (auto simp: find_Some_iff)
qed

lemma ledger_apply_next:
  assumes wf: "entry_wf (sc, ident) h ts" and L: "L (sc, ident) = Some (h, ts)"
    and new: "find (\<lambda>x. in_key x = key) (tl h) = None"
  shows "ledger_apply (last h) (next_version sc ident (last h) st key)
      (next_transition sc ident (last h) st codes tm key) L =
    (if key = in_key (hd h) then (Inl (ValueError ''conflicting transition idempotency replay''), L)
     else (Inr (next_version sc ident (last h) st key),
       L((sc, ident) \<mapsto> (h @ [next_version sc ident (last h) st key],
         ts @ [next_transition sc ident (last h) st codes tm key]))))"
proof -
  let ?after = "next_version sc ident (last h) st key"
  note sh = next_shapes [OF wf]
  have key: "key_of (last h) = (sc, ident)" using sh by (simp add: key_of_def)
  have ka: "in_key ?after = key" by (simp add: next_version_def restamp_def)
  obtain x xs where h: "h = x # xs" using wf by (cases h) (simp_all add: entry_wf_def)
  show ?thesis
  proof (cases "key = in_key (hd h)")
    case True
    have "in_version x \<noteq> in_version ?after"
    proof -
      have "in_version (last h) = int (length h)" by (rule entry_last_version [OF wf])
      moreover have "in_version x = 1" using wf h by (auto simp: entry_wf_def)
      moreover have "in_version ?after = in_version (last h) + 1" by (simp add: next_version_def restamp_def)
      ultimately show ?thesis using h by simp
    qed
    then have "x \<noteq> ?after" by auto
    moreover have "find (\<lambda>y. in_key y = in_key ?after) h = Some x" using True ka h by simp
    ultimately show ?thesis using True L key by (auto simp: ledger_apply_def)
  next
    case False
    then have "find (\<lambda>y. in_key y = in_key ?after) h = None" using new h ka by simp
    moreover have "raise_first (transition_shape_checks (last h) ?after
        (next_transition sc ident (last h) st codes tm key) (Some (last h))) = None"
      using next_shape_clear [of "last h" st key codes tm] sh by (simp add: raise_first_None_iff)
    ultimately show ?thesis using False L key by (simp add: ledger_apply_def)
  qed
qed

lemma legal_differs: "st \<in> set (legal_transitions s) \<Longrightarrow> st \<noteq> s"
  by (cases s) auto

context intent_store
begin

lemma transition_refines:
  assumes inv: "inv s" and sc: "scope_valid sc" and run: "transition ops sc ident st codes tm key s = (r, s')"
  shows "inv s' \<and> transition_spec sc ident st codes tm key (ledger s) = (r, ledger s')"
proof (cases "non_empty ident \<and> non_empty key")
  case False
  with inv run show ?thesis
    by (auto simp: transition_def transition_spec_def require_non_empty_def)
next
  case True
  then have checks: "raise_first [require_non_empty ident ''intent_id'', require_non_empty key ''idempotency_key''] = None"
    by (simp add: require_non_empty_def)
  show ?thesis
  proof (cases "ledger s (sc, ident)")
    case None
    with True inv run checks history_reads [OF inv sc, of ident] show ?thesis
      by (auto simp: transition_def transition_spec_def bindP_def)
  next
    case (Some p)
    obtain h ts where L: "ledger s (sc, ident) = Some (h, ts)" using Some by (cases p) simp
    have wf: "entry_wf (sc, ident) h ts" using ledger_ok [OF inv] L unfolding ledger_wf_def by blast
    note sh = next_shapes [OF wf]
    have hist: "ib_history ops sc ident s = Inr h" using history_reads [OF inv sc, of ident] L by simp
    show ?thesis
    proof (cases "find (\<lambda>x. in_key x = key) (tl h)")
      case (Some existing)
      have "ib_transitions ops sc ident s = Inr ts" using transitions_reads [OF inv sc, of ident] L by simp
      with find_replay [OF wf Some] have
        "replay_transition ops sc ident existing st codes s = (let t = ts ! nat (in_version existing - 2) in
          if tr_to_status t = st \<and> tr_reason_codes t = codes then Inr existing
          else Inl (ValueError ''conflicting transition idempotency replay''))"
        by (simp add: replay_transition_def Let_def)
      with Some True L hist run checks inv show ?thesis
        by (auto simp: transition_def transition_spec_def bindP_def)
    next
      case None
      show ?thesis
      proof (cases "st \<in> set (legal_transitions (in_status (last h)))")
        case False
        with None True L hist run checks inv show ?thesis
          by (auto simp: transition_def transition_spec_def bindP_def Let_def)
      next
        case legal: True
        let ?after = "next_version sc ident (last h) st key"
        let ?t = "next_transition sc ident (last h) st codes tm key"
        have mk: "mk_intent ?after = Inr ?after" and va: "intent_valid ?after"
          using next_version_valid [OF sh(3), of key st] True sh by simp_all
        show ?thesis
        proof (cases "mk_transition ?t")
          case (Inl e)
          with None True L hist run checks inv legal mk show ?thesis
            by (auto simp: transition_def transition_spec_def bindP_def Let_def)
        next
          case (Inr t)
          then have t: "t = ?t" and ct: "all_clear (transition_checks ?t)"
            by (auto simp: mk_transition_def guarded_Inr_iff)
          have appl: "ib_apply_transition ops (last h) ?after ?t s = (r, s')"
            using run checks hist None legal mk Inr t by (simp add: transition_def bindP_def Let_def)
          have vt: "transition_valid ?t"
            using ct sc by (simp add: transition_valid_def) (simp add: next_transition_def Let_def)
          have keys: "key_of ?after = key_of (last h)" "key_of (last h) = (sc, ident)"
            using sh by (simp_all add: key_of_def next_version_def restamp_def)
          have "inv s' \<and> ledger_apply (last h) ?after ?t (ledger s) = (r, ledger s')"
            using apply_refines [OF inv va vt _ keys(1) _ appl] L keys(2)
            by (simp add: next_transition_def Let_def)
          with ledger_apply_next [of sc ident h ts "ledger s" key st codes tm, OF wf L None] None True L legal Inr t show ?thesis
            by (auto simp: transition_spec_def)
        qed
      qed
    qed
  qed
qed

lemma admit_refines:
  assumes "inv s" and "intent_valid i" and "admit ops i s = (r, s')"
  shows "inv s' \<and> (if is_initial_candidate i then ledger_append i (ledger s) = (r, ledger s')
    else r = Inl (ValueError ''admit requires a version-one candidate Intent'') \<and> s' = s)"
  using assms append_refines by (auto simp: admit_def split: if_splits)

end


lemma replay_shape:
  assumes wf: "entry_wf k h ts" and x: "find (\<lambda>x. in_key x = key) (tl h) = Some x"
  shows "x \<in> set (tl h)" and "in_key x = key"
  using x by (auto simp: find_Some_iff)

lemma transition_spec_unchanged:
  "transition_spec sc ident st codes tm key L = (Inl e, L') \<Longrightarrow> L' = L"
  by (auto simp: transition_spec_def split: if_splits option.splits sum.splits)

lemma transition_spec_cases:
  assumes "transition_spec sc ident st codes tm key L = (Inr x, L')"
  obtains h ts where "L (sc, ident) = Some (h, ts)" "find (\<lambda>x. in_key x = key) (tl h) = Some x" "L' = L"
      "tr_to_status (ts ! nat (in_version x - 2)) = st" "tr_reason_codes (ts ! nat (in_version x - 2)) = codes"
  | h ts where "L (sc, ident) = Some (h, ts)" "find (\<lambda>x. in_key x = key) (tl h) = None"
      "st \<in> set (legal_transitions (in_status (last h)))" "key \<noteq> in_key (hd h)"
      "x = next_version sc ident (last h) st key"
      "L' = L((sc, ident) \<mapsto> (h @ [x], ts @ [next_transition sc ident (last h) st codes tm key]))"
  using assms
  by (auto simp: transition_spec_def Let_def mk_transition_def guarded_def split: if_splits option.splits sum.splits)

lemma transition_spec_le:
  assumes "transition_spec sc ident st codes tm key L = (r, L')"
  shows "ledger_le L L'"
proof (cases r)
  case (Inl e)
  with assms transition_spec_unchanged ledger_le_refl show ?thesis by blast
next
  case (Inr x)
  with assms have "transition_spec sc ident st codes tm key L = (Inr x, L')" by simp
  then show ?thesis
  proof (cases rule: transition_spec_cases)
    case (1 h ts)
    then show ?thesis by (simp add: ledger_le_refl)
  next
    case (2 h ts)
    then show ?thesis by (auto simp: ledger_le_def final_no_moves)
  qed
qed

lemma transition_spec_lawful:
  assumes "lawful L" and "transition_spec sc ident st codes tm key L = (r, L')"
  shows "lawful L'"
proof (cases r)
  case (Inl e)
  with assms transition_spec_unchanged show ?thesis by blast
next
  case (Inr x)
  with assms have "transition_spec sc ident st codes tm key L = (Inr x, L')" by simp
  then show ?thesis
  proof (cases rule: transition_spec_cases)
    case (2 h ts)
    then show ?thesis using assms(1) by (auto simp: lawful_def next_transition_def Let_def)
  qed (use assms in simp)
qed

lemma transition_spec_found:
  assumes wf: "ledger_wf L" and run: "transition_spec sc ident st codes tm key L = (Inr x, L')"
  obtains h ts where "L' (sc, ident) = Some (h, ts)" "find (\<lambda>x. in_key x = key) (tl h) = Some x"
    "nat (in_version x - 2) < length ts" "tr_to_status (ts ! nat (in_version x - 2)) = st"
    "tr_reason_codes (ts ! nat (in_version x - 2)) = codes" "non_empty ident" "non_empty key"
proof -
  have ne: "non_empty ident" "non_empty key" using run by (auto simp: transition_spec_def split: if_splits)
  from run show thesis
  proof (cases rule: transition_spec_cases)
    case (1 h ts)
    have e: "entry_wf (sc, ident) h ts" using wf 1(1) unfolding ledger_wf_def by blast
    have "nat (in_version x - 2) < length ts"
    proof -
      from 1(2) obtain j where j: "j < length (tl h)" "x = tl h ! j" by (auto simp: find_Some_iff)
      moreover have "length h = Suc (length ts)" using entry_steps [OF e] by (simp add: steps_ok_def)
      moreover have "in_version (h ! Suc j) = int (Suc j + 1)" using e j by (simp add: entry_wf_def)
      ultimately show ?thesis by (simp add: nth_tl)
    qed
    with 1 ne that show thesis by simp
  next
    case (2 h ts)
    have e: "entry_wf (sc, ident) h ts" using wf 2(1) unfolding ledger_wf_def by blast
    have len: "length h = Suc (length ts)" using entry_steps [OF e] by (simp add: steps_ok_def)
    have "in_version x = int (length h) + 1" "in_key x = key"
      using entry_last_version [OF e] 2(5) by (simp_all add: next_version_def restamp_def)
    then have n: "nat (in_version x - 2) = length ts" using len by simp
    have "h \<noteq> []" using len by auto
    then have "find (\<lambda>x. in_key x = key) (tl (h @ [x])) = Some x"
      using 2(2) \<open>in_key x = key\<close> by (simp add: find_append)
    then show thesis
      using that [of "h @ [x]" "ts @ [next_transition sc ident (last h) st codes tm key]"] 2(6) n ne
      by (simp add: next_transition_def Let_def)
  qed
qed

lemma transition_spec_replay:
  assumes wf: "ledger_wf L" and run: "transition_spec sc ident st codes tm key L = (Inr x, L')"
    and le: "ledger_le L' M"
  shows "transition_spec sc ident st codes tm' key M = (Inr x, M)"
proof -
  from transition_spec_found [OF wf run] obtain h ts where
    f: "L' (sc, ident) = Some (h, ts)" "find (\<lambda>x. in_key x = key) (tl h) = Some x"
      "nat (in_version x - 2) < length ts" "tr_to_status (ts ! nat (in_version x - 2)) = st"
      "tr_reason_codes (ts ! nat (in_version x - 2)) = codes" "non_empty ident" "non_empty key" by blast
  from le f(1) obtain h' ts' where "M (sc, ident) = Some (h @ h', ts @ ts')" unfolding ledger_le_def by blast
  moreover have "h \<noteq> []" using f(2) by auto
  ultimately show ?thesis using f by (simp add: transition_spec_def find_append nth_append Let_def)
qed

lemma ledger_append_le: "ledger_append i L = (r, L') \<Longrightarrow> ledger_le L L'"
  by (auto simp: ledger_append_def ledger_le_def split: if_splits option.splits)

lemma ledger_append_lawful: "lawful L \<Longrightarrow> ledger_append i L = (r, L') \<Longrightarrow> lawful L'"
  by (auto simp: ledger_append_def lawful_def split: if_splits option.splits)

text \<open>What a reader of an intent's history may rely on.\<close>

definition history_sound :: "intent list \<Rightarrow> intent_transition list \<Rightarrow> bool" where
  "history_sound h ts \<longleftrightarrow> length h = Suc (length ts) \<and> in_status (hd h) = CANDIDATE \<and> distinct (map in_key h) \<and>
     (\<forall>j < length h. in_version (h ! j) = int (j + 1) \<and>
        h ! j = restamp (hd h) (in_status (h ! j)) (in_sync (h ! j))) \<and>
     (\<forall>j < length ts. tr_from_status (ts ! j) = in_status (h ! j) \<and>
        tr_to_status (ts ! j) = in_status (h ! Suc j) \<and>
        tr_to_status (ts ! j) \<in> set (legal_transitions (tr_from_status (ts ! j))))"

lemma entry_history_sound:
  assumes wf: "entry_wf k h ts" and "\<forall>t \<in> set ts. tr_to_status t \<in> set (legal_transitions (tr_from_status t))"
  shows "history_sound h ts"
proof -
  have "length h = Suc (length ts)" "\<forall>j < length ts. tr_from_status (ts ! j) = in_status (h ! j) \<and>
      tr_to_status (ts ! j) = in_status (h ! Suc j)"
    using entry_steps [OF wf] by (simp_all add: steps_ok_def)
  moreover have "in_status (hd h) = CANDIDATE" "distinct (map in_key h)"
    "\<forall>j < length h. in_version (h ! j) = int (j + 1)"
    using wf by (simp_all add: entry_wf_def)
  moreover have "h ! j = restamp (hd h) (in_status (h ! j)) (in_sync (h ! j))" if "j < length h" for j
  proof -
    have "h ! j \<in> set h" using that by simp
    then show ?thesis using wf unfolding entry_wf_def by blast
  qed
  moreover have "\<forall>j < length ts. tr_to_status (ts ! j) \<in> set (legal_transitions (tr_from_status (ts ! j)))"
    using assms(2) by simp
  ultimately show ?thesis unfolding history_sound_def by blast
qed

section \<open>Histories of calls\<close>

datatype intent_call =
    Admit intent
  | Transition scope string intent_status "string list" datetime string
  | Tick scope datetime

datatype call_result = Intent_Result "intent result" | Wakes_Result "intent_wake list result"

fun call_ok :: "intent_call \<Rightarrow> bool" where
  "call_ok (Admit i) \<longleftrightarrow> intent_valid i"
| "call_ok (Transition sc ident st codes tm key) \<longleftrightarrow> scope_valid sc"
| "call_ok (Tick sc now) \<longleftrightarrow> scope_valid sc"

fun run_call :: "'s intent_backend \<Rightarrow> intent_call \<Rightarrow> 's \<Rightarrow> call_result \<times> 's" where
  "run_call ops (Admit i) s = apfst Intent_Result (admit ops i s)"
| "run_call ops (Transition sc ident st codes tm key) s =
     apfst Intent_Result (transition ops sc ident st codes tm key s)"
| "run_call ops (Tick sc now) s = apfst Wakes_Result (tick ops sc now s)"

fun run_calls :: "'s intent_backend \<Rightarrow> intent_call list \<Rightarrow> 's \<Rightarrow> call_result list \<times> 's" where
  "run_calls ops [] s = ([], s)"
| "run_calls ops (c # cs) s = (case run_call ops c s of (r, s') \<Rightarrow> apfst (Cons r) (run_calls ops cs s'))"

lemma run_calls_append:
  "run_calls ops (cs @ ds) s = (fst (run_calls ops cs s) @ fst (run_calls ops ds (snd (run_calls ops cs s))),
     snd (run_calls ops ds (snd (run_calls ops cs s))))"
  by (induction cs arbitrary: s) (auto simp: apfst_def map_prod_def split: prod.splits)

context intent_store
begin

definition keeps :: "intent_ledger \<Rightarrow> 's \<Rightarrow> bool" where
  "keeps L s \<longleftrightarrow> inv s \<and> lawful (ledger s) \<and> ledger_le L (ledger s)"

lemma transition_keeps:
  assumes "scope_valid sc"
  shows "preserves (keeps L) (transition ops sc ident st codes tm key)"
proof (rule preservesI)
  fix s
  assume k: "keeps L s"
  obtain r s' where run: "transition ops sc ident st codes tm key s = (r, s')"
    by (cases "transition ops sc ident st codes tm key s")
  from k have "inv s" by (simp add: keeps_def)
  from transition_refines [OF this assms run] k show "keeps L (snd (transition ops sc ident st codes tm key s))"
    unfolding run keeps_def
    by (auto intro: transition_spec_lawful ledger_le_trans transition_spec_le)
qed

lemma admit_keeps:
  assumes "intent_valid i"
  shows "preserves (keeps L) (admit ops i)"
proof (rule preservesI)
  fix s
  assume k: "keeps L s"
  obtain r s' where run: "admit ops i s = (r, s')" by (cases "admit ops i s")
  from k have "inv s" by (simp add: keeps_def)
  from admit_refines [OF this assms run] k show "keeps L (snd (admit ops i s))"
    unfolding run keeps_def
    by (auto intro: ledger_append_lawful ledger_le_trans ledger_append_le split: if_splits)
qed

lemma tick_keeps:
  assumes "scope_valid sc"
  shows "preserves (keeps L) (tick ops sc now)"
  unfolding tick_def Let_def expire_intent_def wake_intent_def
  by (intro preserve_rules transition_keeps [OF assms])

lemma call_keeps: "call_ok c \<Longrightarrow> keeps L s \<Longrightarrow> keeps L (snd (run_call ops c s))"
  by (cases c) (auto intro: preservesD [OF admit_keeps] preservesD [OF transition_keeps] preservesD [OF tick_keeps])

lemma calls_keep: "list_all call_ok cs \<Longrightarrow> keeps L s \<Longrightarrow> keeps L (snd (run_calls ops cs s))"
  using call_keeps by (induction cs arbitrary: s) (auto split: prod.split, metis snd_conv)

lemma entry_reads:
  assumes "inv s" and "scope_valid sc" and "ib_history ops sc ident s = Inr h"
  obtains ts where "ledger s (sc, ident) = Some (h, ts)" "ib_transitions ops sc ident s = Inr ts"
    "entry_wf (sc, ident) h ts"
proof -
  from assms(3) history_reads [OF assms(1,2), of ident] obtain ts where L: "ledger s (sc, ident) = Some (h, ts)"
    by (auto split: option.splits)
  moreover have "ib_transitions ops sc ident s = Inr ts"
    using transitions_reads [OF assms(1,2), of ident] L by simp
  moreover have "entry_wf (sc, ident) h ts"
    using ledger_ok [OF assms(1)] L unfolding ledger_wf_def by blast
  ultimately show thesis using that by blast
qed

lemma calls_append_only:
  assumes k: "inv s" "lawful (ledger s)" and ok: "list_all call_ok cs" and sc: "scope_valid sc"
    and h: "ib_history ops sc ident s = Inr h" and t: "ib_transitions ops sc ident s = Inr ts"
  shows "\<exists>h' ts'. ib_history ops sc ident (snd (run_calls ops cs s)) = Inr (h @ h') \<and>
    ib_transitions ops sc ident (snd (run_calls ops cs s)) = Inr (ts @ ts') \<and>
    history_sound (h @ h') (ts @ ts') \<and> (is_final (in_status (last h)) \<longrightarrow> h' = [])"
proof -
  let ?s = "snd (run_calls ops cs s)"
  have "keeps (ledger s) s" using k by (simp add: keeps_def ledger_le_refl)
  then have kept: "keeps (ledger s) ?s" by (rule calls_keep [OF ok])
  then have inv': "inv ?s" by (simp add: keeps_def)
  from entry_reads [OF k(1) sc h] t have L: "ledger s (sc, ident) = Some (h, ts)" by auto
  with kept obtain h' ts' where L': "ledger ?s (sc, ident) = Some (h @ h', ts @ ts')"
    "is_final (in_status (last h)) \<longrightarrow> h' = []" unfolding keeps_def ledger_le_def by blast
  have "entry_wf (sc, ident) (h @ h') (ts @ ts')"
    using ledger_ok [OF inv'] L' unfolding ledger_wf_def by blast
  moreover have "\<forall>t \<in> set (ts @ ts'). tr_to_status t \<in> set (legal_transitions (tr_from_status t))"
    using kept L' unfolding keeps_def lawful_def by blast
  ultimately have "history_sound (h @ h') (ts @ ts')" by (rule entry_history_sound)
  with L' history_reads [OF inv' sc, of ident] transitions_reads [OF inv' sc, of ident] show ?thesis by auto
qed

lemma replay_is_stable:
  assumes k: "inv s" "lawful (ledger s)" and sc: "scope_valid sc"
    and run: "transition ops sc ident st codes tm key s = (Inr x, s1)" and ok: "list_all call_ok cs"
  shows "transition ops sc ident st codes tm' key (snd (run_calls ops cs s1)) = (Inr x, snd (run_calls ops cs s1))"
proof -
  let ?s2 = "snd (run_calls ops cs s1)"
  from transition_refines [OF k(1) sc run] have i1: "inv s1"
    and sp: "transition_spec sc ident st codes tm key (ledger s) = (Inr x, ledger s1)" by simp_all
  have "keeps (ledger s1) s1"
    using i1 transition_spec_lawful [OF k(2) sp] by (simp add: keeps_def ledger_le_refl)
  then have k2: "keeps (ledger s1) ?s2" by (rule calls_keep [OF ok])
  then have i2: "inv ?s2" and le: "ledger_le (ledger s1) (ledger ?s2)" by (simp_all add: keeps_def)
  obtain r s3 where again: "transition ops sc ident st codes tm' key ?s2 = (r, s3)"
    by (cases "transition ops sc ident st codes tm' key ?s2")
  have "transition_spec sc ident st codes tm' key (ledger ?s2) = (Inr x, ledger ?s2)"
    by (rule transition_spec_replay [OF ledger_ok [OF k(1)] sp le])
  with transition_refines [OF i2 sc again] have r: "r = Inr x" by simp
  moreover have "s3 = ?s2"
  proof -
    from transition_spec_found [OF ledger_ok [OF k(1)] sp] obtain h ts where
      f: "ledger s1 (sc, ident) = Some (h, ts)" "find (\<lambda>x. in_key x = key) (tl h) = Some x" by blast
    from le f(1) obtain h' ts' where L2: "ledger ?s2 (sc, ident) = Some (h @ h', ts @ ts')"
      unfolding ledger_le_def by blast
    have "h \<noteq> []" using f(2) by auto
    then have "find (\<lambda>x. in_key x = key) (tl (h @ h')) = Some x" using f(2) by (simp add: find_append)
    moreover have "ib_history ops sc ident ?s2 = Inr (h @ h')"
      using history_reads [OF i2 sc, of ident] L2 by simp
    ultimately show ?thesis
      using again r by (auto simp: transition_def bindP_def split: option.splits)
  qed
  ultimately show ?thesis using again by simp
qed

end

section \<open>Two backends on the same ledger\<close>

locale two_stores = a: intent_store ops inv ledger + b: intent_store ops' inv' ledger'
  for ops :: "'s intent_backend" and inv :: "'s \<Rightarrow> bool" and ledger :: "'s \<Rightarrow> intent_ledger"
    and ops' :: "'t intent_backend" and inv' :: "'t \<Rightarrow> bool" and ledger' :: "'t \<Rightarrow> intent_ledger"
begin

definition same :: "'s \<Rightarrow> 't \<Rightarrow> bool" where
  "same s t \<longleftrightarrow> inv s \<and> inv' t \<and> ledger s = ledger' t"

lemma history_agrees: "same s t \<Longrightarrow> scope_valid sc \<Longrightarrow> ib_history ops sc ident s = ib_history ops' sc ident t"
  using a.history_reads b.history_reads by (simp add: same_def)

lemma transitions_agree:
  "same s t \<Longrightarrow> scope_valid sc \<Longrightarrow> ib_transitions ops sc ident s = ib_transitions ops' sc ident t"
  using a.transitions_reads b.transitions_reads by (simp add: same_def)

lemma current_agrees:
  assumes s: "same s t" and sc: "scope_valid sc"
  shows "ib_current ops sc s = ib_current ops' sc t"
proof -
  from a.current_reads [of s sc] s sc obtain xs where xs: "ib_current ops sc s = Inr xs"
    "sorted (map in_intent_id xs)" "distinct (map in_intent_id xs)"
    "\<forall>x. x \<in> set xs \<longleftrightarrow> (\<exists>h ts. ledger s (sc, in_intent_id x) = Some (h, ts) \<and> x = last h)"
    by (auto simp: same_def)
  from b.current_reads [of t sc] s sc obtain ys where ys: "ib_current ops' sc t = Inr ys"
    "sorted (map in_intent_id ys)" "distinct (map in_intent_id ys)"
    "\<forall>x. x \<in> set ys \<longleftrightarrow> (\<exists>h ts. ledger s (sc, in_intent_id x) = Some (h, ts) \<and> x = last h)"
    by (auto simp: same_def)
  have sets: "set xs = set ys" using xs(4) ys(4) by auto
  let ?g = "\<lambda>i. last (fst (the (ledger s (sc, i))))"
  have "map in_intent_id xs = map in_intent_id ys"
    using xs ys sets by (intro sorted_distinct_set_unique) auto
  moreover have "xs = map ?g (map in_intent_id xs)"
    unfolding map_map by (rule map_idI [symmetric]) (use xs(4) in force)
  moreover have "ys = map ?g (map in_intent_id ys)"
    unfolding map_map by (rule map_idI [symmetric]) (use ys(4) in force)
  ultimately show ?thesis using xs(1) ys(1) by metis
qed

lemma transition_agrees:
  assumes "scope_valid sc"
  shows "agree same (transition ops sc ident st codes tm key) (transition ops' sc ident st codes tm key)"
proof (rule agreeI)
  fix s t
  assume s: "same s t"
  obtain r s' where ra: "transition ops sc ident st codes tm key s = (r, s')"
    by (cases "transition ops sc ident st codes tm key s")
  obtain q t' where rb: "transition ops' sc ident st codes tm key t = (q, t')"
    by (cases "transition ops' sc ident st codes tm key t")
  from a.transition_refines [OF _ assms ra] b.transition_refines [OF _ assms rb] s
  show "fst (transition ops sc ident st codes tm key s) = fst (transition ops' sc ident st codes tm key t) \<and>
    same (snd (transition ops sc ident st codes tm key s)) (snd (transition ops' sc ident st codes tm key t))"
    unfolding ra rb by (auto simp: same_def)
qed

lemma admit_agrees:
  assumes "intent_valid i"
  shows "agree same (admit ops i) (admit ops' i)"
proof (rule agreeI)
  fix s t
  assume s: "same s t"
  obtain r s' where ra: "admit ops i s = (r, s')" by (cases "admit ops i s")
  obtain q t' where rb: "admit ops' i t = (q, t')" by (cases "admit ops' i t")
  from a.admit_refines [OF _ assms ra] b.admit_refines [OF _ assms rb] s
  show "fst (admit ops i s) = fst (admit ops' i t) \<and> same (snd (admit ops i s)) (snd (admit ops' i t))"
    unfolding ra rb by (auto simp: same_def split: if_splits)
qed

lemma tick_agrees:
  assumes "scope_valid sc"
  shows "agree same (tick ops sc now) (tick ops' sc now)"
  unfolding tick_def Let_def expire_intent_def wake_intent_def
  by (intro agree_rules transition_agrees [OF assms] current_agrees assms)

lemma call_agrees: "call_ok c \<Longrightarrow> same s t \<Longrightarrow>
    fst (run_call ops c s) = fst (run_call ops' c t) \<and> same (snd (run_call ops c s)) (snd (run_call ops' c t))"
  by (cases c) (auto dest: agreeD [OF admit_agrees] agreeD [OF transition_agrees] agreeD [OF tick_agrees])

lemma calls_agree: "list_all call_ok cs \<Longrightarrow> same s t \<Longrightarrow>
    fst (run_calls ops cs s) = fst (run_calls ops' cs t) \<and> same (snd (run_calls ops cs s)) (snd (run_calls ops' cs t))"
proof (induction cs arbitrary: s t)
  case (Cons c cs)
  then have c: "fst (run_call ops c s) = fst (run_call ops' c t)"
    "same (snd (run_call ops c s)) (snd (run_call ops' c t))" using call_agrees by simp_all
  from Cons.IH [OF _ c(2)] Cons.prems c(1) show ?case
    by (cases "run_call ops c s"; cases "run_call ops' c t") simp
qed simp

end

interpretation both: two_stores memory_backend memory_inv memory_ledger
  sqlite_intent_backend sqlite_inv sqlite_ledger
  by unfold_locales

lemma empty_stores: "both.same empty_memory empty_tables"
proof -
  have "sqlite_ledger empty_tables = Map.empty"
    by (simp add: sqlite_ledger_def empty_tables_def rows_ledger_def fun_eq_iff)
  moreover have "memory_ledger empty_memory = Map.empty"
    by (simp add: memory_ledger_def empty_memory_def fun_eq_iff)
  ultimately show ?thesis
    by (simp add: both.same_def memory_inv_empty sqlite_inv_empty)
qed

lemma reached_store:
  assumes "list_all call_ok cs"
  shows "sqlite_inv (snd (run_calls sqlite_intent_backend cs empty_tables)) \<and>
    lawful (sqlite_ledger (snd (run_calls sqlite_intent_backend cs empty_tables)))"
proof -
  have "sqlite_ledger empty_tables = Map.empty"
    by (simp add: sqlite_ledger_def empty_tables_def rows_ledger_def fun_eq_iff)
  then have "sql.keeps Map.empty empty_tables"
    by (simp add: sql.keeps_def sqlite_inv_empty lawful_def ledger_le_def)
  from sql.calls_keep [OF assms this] show ?thesis by (simp add: sql.keeps_def)
qed

text \<open>
  C13. The two Intent backends cannot be told apart. Started empty and given the same calls of the
  lifecycle service and the scheduler, in any order and number, failing calls included, the in-memory
  backend and the SQLite backend give the same results, call by call, and afterwards every read of the
  current intents, of a history and of its transitions gives the same answer.
\<close>

theorem intent_backends_agree:
  assumes "list_all call_ok cs" and "scope_valid sc"
  shows "fst (run_calls memory_backend cs empty_memory) = fst (run_calls sqlite_intent_backend cs empty_tables) \<and>
    memory_current sc (snd (run_calls memory_backend cs empty_memory)) =
      sqlite_current sc (snd (run_calls sqlite_intent_backend cs empty_tables)) \<and>
    memory_history sc ident (snd (run_calls memory_backend cs empty_memory)) =
      sqlite_history sc ident (snd (run_calls sqlite_intent_backend cs empty_tables)) \<and>
    memory_transitions sc ident (snd (run_calls memory_backend cs empty_memory)) =
      sqlite_transitions sc ident (snd (run_calls sqlite_intent_backend cs empty_tables))"
proof -
  note agree = both.calls_agree [OF assms(1) empty_stores]
  from agree both.current_agrees [OF _ assms(2)] both.history_agrees [OF _ assms(2), of _ _ ident]
    both.transitions_agree [OF _ assms(2), of _ _ ident]
  show ?thesis by (simp add: memory_backend_def sqlite_intent_backend_def)
qed

text \<open>
  C14. Intent histories are append-only and lawful. Take the SQLite backend after any calls, and again
  after any further calls: the history of an intent and its transitions are prefixes of the later ones;
  versions count 1, 2, 3, ...; the first version is a candidate and every later one differs from it only
  in status and sync identity; every transition links two consecutive versions and is in the legal
  table; idempotency keys are unique; and an intent in a final status has no further version.
\<close>

theorem intent_history_append_only:
  assumes "list_all call_ok cs" and "list_all call_ok ds" and "scope_valid sc"
    and "s = snd (run_calls sqlite_intent_backend cs empty_tables)"
    and "sqlite_history sc ident s = Inr h" and "sqlite_transitions sc ident s = Inr ts"
  shows "\<exists>h' ts'. sqlite_history sc ident (snd (run_calls sqlite_intent_backend ds s)) = Inr (h @ h') \<and>
    sqlite_transitions sc ident (snd (run_calls sqlite_intent_backend ds s)) = Inr (ts @ ts') \<and>
    history_sound (h @ h') (ts @ ts') \<and> (is_final (in_status (last h)) \<longrightarrow> h' = [])"
  using sql.calls_append_only [OF _ _ assms(2,3), of s ident h ts] reached_store [OF assms(1)] assms(4-6)
  by (simp add: sqlite_intent_backend_def)

text \<open>
  C16. A transition request can be retried forever. Once the lifecycle service has answered a transition
  request with an intent version, the same request, at whatever time and after whatever other calls,
  ticks included, is answered with the same version, and changes nothing.
\<close>

theorem intent_transition_idempotent:
  assumes "list_all call_ok cs" and "list_all call_ok ds" and "scope_valid sc"
    and "transition sqlite_intent_backend sc ident st codes tm key
      (snd (run_calls sqlite_intent_backend cs empty_tables)) = (Inr x, s)"
  shows "transition sqlite_intent_backend sc ident st codes tm' key (snd (run_calls sqlite_intent_backend ds s)) =
    (Inr x, snd (run_calls sqlite_intent_backend ds s))"
  using sql.replay_is_stable [OF _ _ assms(3,4,2)] reached_store [OF assms(1)] by simp

text \<open>
  C17. The service decides every transition request by its specification. On any state the SQLite backend
  can reach, the request has exactly the result and the effect that \<open>transition_spec\<close> gives on the ledger
  of versions: rejected ids, an unknown intent, a replay, a conflicting replay, an illegal move, invalid
  reason codes or time, and the append of one version and one transition.
\<close>

theorem intent_transition_implements_spec:
  assumes "list_all call_ok cs" and "scope_valid sc"
    and "s = snd (run_calls sqlite_intent_backend cs empty_tables)"
    and "transition sqlite_intent_backend sc ident st codes tm key s = (r, s')"
  shows "transition_spec sc ident st codes tm key (sqlite_ledger s) = (r, sqlite_ledger s')"
  using sql.transition_refines [OF _ assms(2,4)] reached_store [OF assms(1)] assms(3) by simp


section \<open>What a tick does\<close>

definition move_entry ::
  "scope \<Rightarrow> datetime \<Rightarrow> intent_status \<Rightarrow> string \<Rightarrow> string \<Rightarrow> intent list \<times> intent_transition list \<Rightarrow>
    intent list \<times> intent_transition list" where
  "move_entry sc now st code key e = (case e of (h, ts) \<Rightarrow>
     (h @ [next_version sc (in_intent_id (last h)) (last h) st key],
      ts @ [next_transition sc (in_intent_id (last h)) (last h) st [code] now key]))"

definition tick_wake :: "scope \<Rightarrow> datetime \<Rightarrow> intent \<Rightarrow> intent_wake" where
  "tick_wake sc now i = \<lparr>wk_wake_id = ''wake-'' @ in_intent_id i @ ''-v'' @ show_int (in_version i + 1),
     wk_scope = sc, wk_intent_id = in_intent_id i, wk_reason = ''due_reconsideration'',
     wk_woken_at = now, wk_intent_version = in_version i + 1\<rparr>"

text \<open>The keys the scheduler derives are not among the keys already used for the intent.\<close>

definition keys_fresh :: "intent list \<Rightarrow> bool" where
  "keys_fresh h \<longleftrightarrow> expire_key (last h) \<notin> in_key ` set h \<and> due_key (last h) \<notin> in_key ` set h"

context intent_store
begin

lemma transition_succeeds:
  assumes inv: "inv s" and sc: "scope_valid sc" and L: "ledger s (sc, in_intent_id z) = Some (h, ts)" and z: "last h = z"
    and legal: "st \<in> set (legal_transitions (in_status z))" and key: "key \<notin> in_key ` set h" "non_empty key"
    and code: "non_empty code" and now: "is_aware_utc now"
  shows "\<exists>s'. transition ops sc (in_intent_id z) st [code] now key s =
      (Inr (next_version sc (in_intent_id z) z st key), s') \<and> inv s' \<and>
    ledger s' = (ledger s)((sc, in_intent_id z) \<mapsto> move_entry sc now st code key (h, ts))"
proof -
  have wf: "entry_wf (sc, in_intent_id z) h ts" using ledger_ok [OF inv] L unfolding ledger_wf_def by blast
  note sh = next_shapes [OF wf]
  have h: "h \<noteq> []" using wf by (simp add: entry_wf_def)
  obtain r s' where run: "transition ops sc (in_intent_id z) st [code] now key s = (r, s')"
    by (cases "transition ops sc (in_intent_id z) st [code] now key s")
  have "find (\<lambda>x. in_key x = key) (tl h) = None"
    using key(1) by (auto simp: find_None_iff dest: list.set_sel(2) [OF h])
  moreover have "key \<noteq> in_key (hd h)" using key(1) h by (metis image_eqI list.set_sel(1))
  moreover have "mk_transition (next_transition sc (in_intent_id z) z st [code] now key) =
      Inr (next_transition sc (in_intent_id z) z st [code] now key)"
    using next_transition_valid [of z key st "[code]" now] sh z key(2) legal_differs [OF legal] code now
    by (simp add: mk_transition_def guarded_clear)
  moreover have "non_empty (in_intent_id z)" using sh z by (simp add: intent_valid_def intent_checks_clear)
  ultimately have "transition_spec sc (in_intent_id z) st [code] now key (ledger s) =
      (Inr (next_version sc (in_intent_id z) z st key),
       (ledger s)((sc, in_intent_id z) \<mapsto> move_entry sc now st code key (h, ts)))"
    using L z legal key(2) by (simp add: transition_spec_def move_entry_def)
  with transition_refines [OF inv sc run] run show ?thesis by auto
qed

lemma each_entry:
  assumes step: "\<And>z s. z \<in> set zs \<Longrightarrow> inv s \<Longrightarrow> ledger s (sc, in_intent_id z) = L0 (sc, in_intent_id z) \<Longrightarrow>
      \<exists>s'. m z s = (Inr (res z), s') \<and> inv s' \<and> ledger s' = (ledger s)((sc, in_intent_id z) := new z)"
    and "distinct (map in_intent_id zs)" and "inv s"
    and "\<forall>z \<in> set zs. ledger s (sc, in_intent_id z) = L0 (sc, in_intent_id z)"
  shows "\<exists>s'. eachP m zs s = (Inr (map res zs), s') \<and> inv s' \<and>
    (\<forall>k. ledger s' k = (case find (\<lambda>z. (sc, in_intent_id z) = k) zs of Some z \<Rightarrow> new z | None \<Rightarrow> ledger s k))"
  using assms
proof (induction zs arbitrary: s)
  case (Cons z zs)
  have "z \<in> set (z # zs)" by simp
  moreover from this Cons.prems(4) have "ledger s (sc, in_intent_id z) = L0 (sc, in_intent_id z)" by blast
  ultimately obtain s1 where s1: "m z s = (Inr (res z), s1)" "inv s1"
    "ledger s1 = (ledger s)((sc, in_intent_id z) := new z)" using Cons.prems(1,3) by blast
  have other: "in_intent_id y \<noteq> in_intent_id z" if "y \<in> set zs" for y
    using Cons.prems(2) that by (auto simp: image_iff)
  have "\<forall>y \<in> set zs. ledger s1 (sc, in_intent_id y) = L0 (sc, in_intent_id y)"
    using Cons.prems(4) s1(3) other by simp
  then obtain s' where s': "eachP m zs s1 = (Inr (map res zs), s')" "inv s'"
    "\<forall>k. ledger s' k = (case find (\<lambda>z. (sc, in_intent_id z) = k) zs of Some z \<Rightarrow> new z | None \<Rightarrow> ledger s1 k)"
    using Cons.IH [of s1] Cons.prems(1,2) s1(2) by auto
  have "find (\<lambda>y. (sc, in_intent_id y) = (sc, in_intent_id z)) zs = None"
    using other by (auto simp: find_None_iff)
  with s1 s' show ?case by (auto simp: bindP_def split: option.split)
qed simp

lemma tick_effect:
  assumes inv: "inv s" and sc: "scope_valid sc" and now: "is_aware_utc now" and cur: "ib_current ops sc s = Inr xs"
    and fresh: "\<And>i h ts. ledger s (sc, i) = Some (h, ts) \<Longrightarrow> keys_fresh h"
  shows "\<exists>s'. tick ops sc now s = (Inr (map (tick_wake sc now)
      (filter (\<lambda>i. \<not> is_expirable now i \<and> is_due now i) (sort_key schedule_key xs))), s') \<and> inv s' \<and>
    (\<forall>k. ledger s' k = (case ledger s k of None \<Rightarrow> None | Some (h, ts) \<Rightarrow> Some
      (if fst k \<noteq> sc then (h, ts)
       else if is_expirable now (last h) then
         move_entry sc now EXPIRED ''scheduler_expired'' (expire_key (last h)) (h, ts)
       else if is_due now (last h) then
         move_entry sc now CANDIDATE ''scheduler_due'' (due_key (last h)) (h, ts)
       else (h, ts))))"
proof -
  let ?xs = "sort_key schedule_key xs"
  let ?exp = "filter (is_expirable now) ?xs"
  let ?due = "filter (\<lambda>i. \<not> is_expirable now i \<and> is_due now i) ?xs"
  from current_reads [OF inv sc] cur have dist: "distinct (map in_intent_id xs)"
    and mem: "\<And>x. x \<in> set xs \<longleftrightarrow> (\<exists>h ts. ledger s (sc, in_intent_id x) = Some (h, ts) \<and> x = last h)" by auto
  have inj: "x = y" if "x \<in> set xs" "y \<in> set xs" "in_intent_id x = in_intent_id y" for x y
    using dist that by (auto simp: distinct_map inj_on_def)
  have dist': "distinct (map in_intent_id (filter p ?xs))" for p
    using dist by (simp add: distinct_map inj_on_def)
  have due_eq: "filter (\<lambda>i. in_intent_id i \<notin> in_intent_id ` set ?exp \<and> is_due now i) ?xs = ?due"
    using inj by (intro filter_cong refl) (auto simp: image_iff)
  have keys: "non_empty (expire_key i)" "non_empty (due_key i)" "non_empty ''scheduler_expired''"
    "non_empty ''scheduler_due''" for i
    by (simp_all add: expire_key_def due_key_def non_empty_eval)
  let ?new1 = "\<lambda>z. map_option (move_entry sc now EXPIRED ''scheduler_expired'' (expire_key z)) (ledger s (sc, in_intent_id z))"
  let ?new2 = "\<lambda>z. map_option (move_entry sc now CANDIDATE ''scheduler_due'' (due_key z)) (ledger s (sc, in_intent_id z))"
  have st1: "\<exists>s'. expire_intent ops sc now z t = (Inr (next_version sc (in_intent_id z) z EXPIRED (expire_key z)), s') \<and>
      inv s' \<and> ledger s' = (ledger t)((sc, in_intent_id z) := ?new1 z)"
    if z: "z \<in> set ?exp" and t: "inv t" "ledger t (sc, in_intent_id z) = ledger s (sc, in_intent_id z)" for z t
  proof -
    from z mem obtain h ts where L: "ledger s (sc, in_intent_id z) = Some (h, ts)" "last h = z" by auto
    have legal: "EXPIRED \<in> set (legal_transitions (in_status z))" using z by (auto simp: is_expirable_def)
    have "expire_key z \<notin> in_key ` set h" using fresh [OF L(1)] L(2) by (simp add: keys_fresh_def)
    from transition_succeeds [OF t(1) sc _ L(2) legal this keys(1) keys(3) now] L(1) t(2)
    show ?thesis by (auto simp: expire_intent_def)
  qed
  have "\<forall>z \<in> set ?exp. ledger s (sc, in_intent_id z) = ledger s (sc, in_intent_id z)" by simp
  from each_entry [OF st1 dist' inv this] obtain s1 where
    s1: "eachP (expire_intent ops sc now) ?exp s =
        (Inr (map (\<lambda>z. next_version sc (in_intent_id z) z EXPIRED (expire_key z)) ?exp), s1)" "inv s1"
      "\<forall>k. ledger s1 k = (case find (\<lambda>z. (sc, in_intent_id z) = k) ?exp of Some z \<Rightarrow> ?new1 z | None \<Rightarrow> ledger s k)"
    by blast
  have st2: "\<exists>s'. wake_intent ops sc now z t = (Inr (tick_wake sc now z), s') \<and>
      inv s' \<and> ledger s' = (ledger t)((sc, in_intent_id z) := ?new2 z)"
    if z: "z \<in> set ?due" and t: "inv t" "ledger t (sc, in_intent_id z) = ledger s (sc, in_intent_id z)" for z t
  proof -
    from z mem obtain h ts where L: "ledger s (sc, in_intent_id z) = Some (h, ts)" "last h = z" by auto
    have legal: "CANDIDATE \<in> set (legal_transitions (in_status z))" using z by (auto simp: is_due_def)
    have fr: "due_key z \<notin> in_key ` set h" using fresh [OF L(1)] L(2) by (simp add: keys_fresh_def)
    have wf: "entry_wf (sc, in_intent_id z) h ts" using ledger_ok [OF inv] L(1) unfolding ledger_wf_def by blast
    have "mk_wake (tick_wake sc now z) = Inr (tick_wake sc now z)"
      using next_shapes [OF wf] L(2) now
      by (simp add: mk_wake_def wake_checks_def tick_wake_def guarded_clear intent_valid_def intent_checks_clear
          non_empty_eval)
    then show ?thesis
      using transition_succeeds [OF t(1) sc _ L(2) legal fr keys(2) keys(4) now] L(1) t(2)
      by (auto simp: wake_intent_def bindP_def tick_wake_def next_version_def restamp_def)
  qed
  have "ledger s1 (sc, in_intent_id z) = ledger s (sc, in_intent_id z)" if z: "z \<in> set ?due" for z
  proof -
    have "find (\<lambda>y. (sc, in_intent_id y) = (sc, in_intent_id z)) ?exp = None"
      using z inj by (auto simp: find_None_iff)
    then show ?thesis using s1(3) by simp
  qed
  then have "\<forall>z \<in> set ?due. ledger s1 (sc, in_intent_id z) = ledger s (sc, in_intent_id z)" by blast
  from each_entry [OF st2 dist' s1(2) this] obtain s2 where
    s2: "eachP (wake_intent ops sc now) ?due s1 = (Inr (map (tick_wake sc now) ?due), s2)" "inv s2"
      "\<forall>k. ledger s2 k = (case find (\<lambda>z. (sc, in_intent_id z) = k) ?due of Some z \<Rightarrow> ?new2 z | None \<Rightarrow> ledger s1 k)"
    by blast
  have run: "tick ops sc now s = (Inr (map (tick_wake sc now) ?due), s2)"
    using now cur s1(1) s2(1) unfolding tick_def Let_def due_eq [symmetric] by (simp add: bindP_def thenP_def)
  have "ledger s2 k = (case ledger s k of None \<Rightarrow> None | Some (h, ts) \<Rightarrow> Some
      (if fst k \<noteq> sc then (h, ts)
       else if is_expirable now (last h) then
         move_entry sc now EXPIRED ''scheduler_expired'' (expire_key (last h)) (h, ts)
       else if is_due now (last h) then
         move_entry sc now CANDIDATE ''scheduler_due'' (due_key (last h)) (h, ts)
       else (h, ts)))" for k
  proof (cases "\<exists>i h ts. k = (sc, i) \<and> ledger s k = Some (h, ts)")
    case False
    have no: "find (\<lambda>z. (sc, in_intent_id z) = k) (filter p ?xs) = None" for p
      using False mem by (auto simp: find_None_iff)
    show ?thesis
    proof -
      have "ledger s2 k = ledger s k"
        using s1(3) [rule_format, of k] s2(3) [rule_format, of k] unfolding no by simp
      with False show ?thesis by (cases k) (auto split: option.split)
    qed
  next
    case True
    then obtain i h ts where k: "k = (sc, i)" and L: "ledger s (sc, i) = Some (h, ts)" by blast
    have "entry_wf (sc, i) h ts" using ledger_ok [OF inv] L unfolding ledger_wf_def by blast
    note sh = next_shapes [OF this]
    have z: "last h \<in> set xs" using mem L sh(2) by auto
    have look: "find (\<lambda>z. (sc, in_intent_id z) = k) (filter p ?xs) = (if p (last h) then Some (last h) else None)" for p
    proof (cases "find (\<lambda>z. (sc, in_intent_id z) = k) (filter p ?xs)")
      case None
      with z k sh(2) show ?thesis by (auto simp: find_None_iff)
    next
      case (Some y)
      then have "y \<in> set xs" "in_intent_id y = i" "p y" using k by (auto simp: find_Some_iff dest!: nth_mem)
      with inj [OF this(1) z] sh(2) Some show ?thesis by simp
    qed
    show ?thesis
      using s1(3) s2(3) look [of "is_expirable now"] look [of "\<lambda>i. \<not> is_expirable now i \<and> is_due now i"] k L sh(2)
      by simp
  qed
  with run s2(2) show ?thesis by blast
qed

end


text \<open>The two questions of a tick, in terms of the instants.\<close>

definition past_expiry :: "datetime \<Rightarrow> intent \<Rightarrow> bool" where
  "past_expiry now i \<longleftrightarrow> (in_status i = CANDIDATE \<or> in_status i = DEFERRED) \<and>
     (\<exists>t. in_expires_at i = Some t \<and> dt_instant t \<le> dt_instant now)"

definition due_time_come :: "datetime \<Rightarrow> intent \<Rightarrow> bool" where
  "due_time_come now i \<longleftrightarrow> in_status i = DEFERRED \<and> in_reconsideration_policy i = ON_DUE \<and>
     (\<exists>t. in_due_at i = Some t \<and> dt_instant t \<le> dt_instant now)"

lemma tick_questions: "past_expiry now i = is_expirable now i" "due_time_come now i = is_due now i"
  by (auto simp: past_expiry_def due_time_come_def is_expirable_def is_due_def dt_le_def split: option.splits)

text \<open>
  C15. A scheduler tick does exactly what is due. On any state the SQLite backend can reach whose intents
  carry no scheduler key yet, a tick of a scope at an aware UTC time never raises; every intent that is
  a candidate or deferred and past its expiry gets one EXPIRED version; every other deferred intent with
  the on-due policy and a due time that has come gets one CANDIDATE version and one wake, the wakes in
  order of due time and id; all other intents, and all other scopes, are unchanged.
\<close>

theorem scheduler_tick_exact:
  assumes "list_all call_ok cs" and "scope_valid sc" and "is_aware_utc now"
    and "s = snd (run_calls sqlite_intent_backend cs empty_tables)" and "sqlite_current sc s = Inr xs"
    and "\<forall>i h. sqlite_history sc i s = Inr h \<longrightarrow> keys_fresh h"
  shows "\<exists>s'. tick sqlite_intent_backend sc now s = (Inr (map (tick_wake sc now)
      (filter (\<lambda>i. \<not> past_expiry now i \<and> due_time_come now i) (sort_key schedule_key xs))), s') \<and>
    (\<forall>i h. sqlite_history sc i s = Inr h \<longrightarrow> sqlite_history sc i s' = Inr (h @
      (if past_expiry now (last h) then [next_version sc i (last h) EXPIRED (expire_key (last h))]
       else if due_time_come now (last h) then [next_version sc i (last h) CANDIDATE (due_key (last h))]
       else []))) \<and>
    (\<forall>sc' i. scope_valid sc' \<and> sc' \<noteq> sc \<longrightarrow> sqlite_history sc' i s' = sqlite_history sc' i s)"
proof -
  have inv: "sqlite_inv s" using reached_store [OF assms(1)] assms(4) by simp
  have reads: "sqlite_history c i t = (case sqlite_ledger t (c, i) of
      None \<Rightarrow> Inl (KeyError ''missing Intent'') | Some (h, ts) \<Rightarrow> Inr h)"
    if "sqlite_inv t" "scope_valid c" for t c i
    using sql.history_reads [OF that] by (simp add: sqlite_intent_backend_def)
  have fresh: "keys_fresh h" if "sqlite_ledger s (sc, i) = Some (h, ts)" for i h ts
    using assms(6) reads [OF inv assms(2), of i] that by simp
  have cur: "ib_current sqlite_intent_backend sc s = Inr xs" using assms(5) by (simp add: sqlite_intent_backend_def)
  obtain s' where
    run: "tick sqlite_intent_backend sc now s = (Inr (map (tick_wake sc now)
      (filter (\<lambda>i. \<not> is_expirable now i \<and> is_due now i) (sort_key schedule_key xs))), s')" "sqlite_inv s'" and
    eff: "\<forall>k. sqlite_ledger s' k = (case sqlite_ledger s k of None \<Rightarrow> None | Some (h, ts) \<Rightarrow> Some
      (if fst k \<noteq> sc then (h, ts)
       else if is_expirable now (last h) then
         move_entry sc now EXPIRED ''scheduler_expired'' (expire_key (last h)) (h, ts)
       else if is_due now (last h) then
         move_entry sc now CANDIDATE ''scheduler_due'' (due_key (last h)) (h, ts)
       else (h, ts)))"
    using sql.tick_effect [OF inv assms(2,3) cur] fresh by blast
  have one: "sqlite_history sc i s' = Inr (h @
      (if is_expirable now (last h) then [next_version sc i (last h) EXPIRED (expire_key (last h))]
       else if is_due now (last h) then [next_version sc i (last h) CANDIDATE (due_key (last h))]
       else []))" if h: "sqlite_history sc i s = Inr h" for i h
  proof -
    from h reads [OF inv assms(2), of i] obtain ts where L: "sqlite_ledger s (sc, i) = Some (h, ts)"
      by (auto split: option.splits)
    then have "entry_wf (sc, i) h ts" using sql.ledger_ok [OF inv] unfolding ledger_wf_def by blast
    from next_shapes(2) [OF this] L eff [rule_format, of "(sc, i)"] reads [OF run(2) assms(2), of i]
    show ?thesis by (simp add: move_entry_def)
  qed
  have other: "sqlite_history sc' i s' = sqlite_history sc' i s" if "scope_valid sc'" "sc' \<noteq> sc" for sc' i
    using eff [rule_format, of "(sc', i)"] reads [OF inv that(1), of i] reads [OF run(2) that(1), of i] that(2)
    by (auto split: option.splits)
  from run(1) one other show ?thesis unfolding tick_questions by blast
qed

section \<open>Samples\<close>

definition sample_intent :: intent where
  "sample_intent = \<lparr>in_intent_id = ''i1'', in_scope = user_scope ''u1'', in_origin_runtime_id = ''rt'',
     in_kind = ''share'', in_strength = 1 / 2, in_earliest_at = None, in_due_at = Some (utc 10),
     in_expires_at = Some (utc 100), in_reconsideration_policy = ON_DUE, in_cause_refs = [''c''],
     in_state_refs = [], in_status = CANDIDATE,
     in_sync = mk_sync (user_scope ''u1'') ''rt'' ''i1'' 1 ''k1'', in_surface_use = None\<rparr>"

lemma sample_intent_valid: "intent_valid sample_intent"
  by (simp add: intent_valid_def intent_checks_clear sample_intent_def intent_schedule_def non_empty_eval
      strip_eq_Nil_iff is_space_def)

lemma sample_scope_valid: "scope_valid (user_scope ''u1'')"
  by (simp add: strip_eq_Nil_iff is_space_def)

lemma sample_run: "run_calls sqlite_intent_backend [Admit sample_intent] empty_tables =
    ([Intent_Result (Inr sample_intent)], \<lparr>it_intents = [intent_to_row sample_intent], it_transitions = []\<rparr>)"
  by (simp add: admit_def is_initial_candidate_def sqlite_intent_backend_def sqlite_append_initial_def
      history_or_empty_def empty_tables_def bindP_def thenP_def transaction_def insert_intent_def Let_def)
    (simp add: sample_intent_def)

lemma sample_hold: "tables_hold \<lparr>it_intents = [intent_to_row sample_intent], it_transitions = []\<rparr> [sample_intent] []"
proof -
  have "\<not> fst (initial_check sample_intent)" by (simp add: initial_check_def sample_intent_def)
  from entry_initial [OF sample_intent_valid this] have
    "ledger_wf (rows_ledger [sample_intent] [])" by (auto simp: ledger_wf_def rows_ledger_def)
  then show ?thesis by (simp add: tables_hold_def sample_intent_valid)
qed

lemma sample_reads:
  "sqlite_history (user_scope ''u1'') i \<lparr>it_intents = [intent_to_row sample_intent], it_transitions = []\<rparr> =
    (if i = ''i1'' then Inr [sample_intent] else Inl (KeyError ''missing Intent''))"
  "sqlite_transitions (user_scope ''u1'') ''i1'' \<lparr>it_intents = [intent_to_row sample_intent], it_transitions = []\<rparr> = Inr []"
proof -
  have "key_of sample_intent = (user_scope ''u1'', ''i1'')" by (simp add: key_of_def sample_intent_def)
  then have L: "rows_ledger [sample_intent] [] (user_scope ''u1'', i) =
      (if i = ''i1'' then Some ([sample_intent], []) else None)" for i
    by (simp add: rows_ledger_def)
  show "sqlite_history (user_scope ''u1'') i \<lparr>it_intents = [intent_to_row sample_intent], it_transitions = []\<rparr> =
    (if i = ''i1'' then Inr [sample_intent] else Inl (KeyError ''missing Intent''))"
    using sqlite_history_reads [OF sample_hold sample_scope_valid, of i] by (simp add: L)
  show "sqlite_transitions (user_scope ''u1'') ''i1'' \<lparr>it_intents = [intent_to_row sample_intent], it_transitions = []\<rparr> = Inr []"
    using sqlite_transitions_reads [OF sample_hold sample_scope_valid, of "''i1''"] by (simp add: L)
qed

theorem intent_backends_agree_witness:
  "fst (run_calls memory_backend [Admit sample_intent, Tick (user_scope ''u1'') (utc 200)] empty_memory) =
    fst (run_calls sqlite_intent_backend [Admit sample_intent, Tick (user_scope ''u1'') (utc 200)] empty_tables)"
  using intent_backends_agree [of "[Admit sample_intent, Tick (user_scope ''u1'') (utc 200)]" "user_scope ''u1''"]
    sample_intent_valid sample_scope_valid by simp

theorem intent_history_append_only_witness:
  "\<exists>h'. sqlite_history (user_scope ''u1'') ''i1'' (snd (run_calls sqlite_intent_backend
      [Tick (user_scope ''u1'') (utc 200)]
      \<lparr>it_intents = [intent_to_row sample_intent], it_transitions = []\<rparr>)) = Inr (sample_intent # h')"
  using intent_history_append_only [of "[Admit sample_intent]" "[Tick (user_scope ''u1'') (utc 200)]"
      "user_scope ''u1''" "\<lparr>it_intents = [intent_to_row sample_intent], it_transitions = []\<rparr>" "''i1''"
      "[sample_intent]" "[]"] sample_intent_valid sample_scope_valid sample_run sample_reads by auto

theorem intent_transition_implements_spec_witness:
  "\<exists>s'. transition sqlite_intent_backend (user_scope ''u1'') ''i1'' COMPLETED [''done''] (utc 2) ''k2''
      \<lparr>it_intents = [intent_to_row sample_intent], it_transitions = []\<rparr> =
    (Inl (ValueError ''illegal Intent transition''), s')"
proof -
  let ?s = "\<lparr>it_intents = [intent_to_row sample_intent], it_transitions = []\<rparr>"
  obtain r s' where run: "transition sqlite_intent_backend (user_scope ''u1'') ''i1'' COMPLETED [''done''] (utc 2) ''k2'' ?s = (r, s')"
    by (cases "transition sqlite_intent_backend (user_scope ''u1'') ''i1'' COMPLETED [''done''] (utc 2) ''k2'' ?s")
  have "sqlite_ledger ?s (user_scope ''u1'', ''i1'') = Some ([sample_intent], [])"
    using tables_ledger [OF sample_hold] by (simp add: rows_ledger_def key_of_def sample_intent_def)
  moreover have "in_status sample_intent = CANDIDATE" by (simp add: sample_intent_def)
  ultimately have "fst (transition_spec (user_scope ''u1'') ''i1'' COMPLETED [''done''] (utc 2) ''k2'' (sqlite_ledger ?s)) =
      Inl (ValueError ''illegal Intent transition'')"
    by (simp add: transition_spec_def non_empty_eval)
  with intent_transition_implements_spec [of "[Admit sample_intent]" "user_scope ''u1''" ?s, OF _ _ _ run]
    sample_intent_valid sample_scope_valid sample_run run show ?thesis by auto
qed

theorem scheduler_tick_exact_witness:
  "\<exists>s'. sqlite_history (user_scope ''u1'') ''i1'' s' = Inr [sample_intent,
      next_version (user_scope ''u1'') ''i1'' sample_intent EXPIRED (expire_key sample_intent)]"
proof -
  let ?s = "\<lparr>it_intents = [intent_to_row sample_intent], it_transitions = []\<rparr>"
  have s: "?s = snd (run_calls sqlite_intent_backend [Admit sample_intent] empty_tables)" by (simp only: sample_run snd_conv)
  obtain xs where xs: "sqlite_current (user_scope ''u1'') ?s = Inr xs"
    using sqlite_current_reads [OF sample_hold sample_scope_valid] by blast
  have "keys_fresh [sample_intent]"
    by (simp add: keys_fresh_def expire_key_def due_key_def) (simp add: sample_intent_def)
  then have "\<forall>i h. sqlite_history (user_scope ''u1'') i ?s = Inr h \<longrightarrow> keys_fresh h"
    by (simp add: sample_reads)
  moreover have "past_expiry (utc 200) sample_intent"
    by (simp add: past_expiry_def sample_intent_def)
  moreover obtain s' where "\<forall>i h. sqlite_history (user_scope ''u1'') i ?s = Inr h \<longrightarrow>
      sqlite_history (user_scope ''u1'') i s' = Inr (h @
      (if past_expiry (utc 200) (last h) then [next_version (user_scope ''u1'') i (last h) EXPIRED (expire_key (last h))]
       else if due_time_come (utc 200) (last h) then [next_version (user_scope ''u1'') i (last h) CANDIDATE (due_key (last h))]
       else []))"
    using scheduler_tick_exact [OF _ sample_scope_valid _ s xs, of "utc 200"] sample_intent_valid calculation(1)
    by auto
  ultimately show ?thesis
    using sample_reads(1) [of "''i1''"] by (intro exI [of _ s']) simp
qed

theorem intent_transition_idempotent_witness:
  "\<exists>x s. transition sqlite_intent_backend (user_scope ''u1'') ''i1'' DEFERRED [''later''] (utc 3) ''k2'' s = (Inr x, s)"
proof -
  let ?s = "\<lparr>it_intents = [intent_to_row sample_intent], it_transitions = []\<rparr>"
  have s: "?s = snd (run_calls sqlite_intent_backend [Admit sample_intent] empty_tables)" by (simp only: sample_run snd_conv)
  have "sqlite_inv ?s" using sample_hold by (auto simp: sqlite_inv_def)
  moreover have "sqlite_ledger ?s (user_scope ''u1'', in_intent_id sample_intent) = Some ([sample_intent], [])"
    using tables_ledger [OF sample_hold] by (simp add: rows_ledger_def key_of_def sample_intent_def)
  moreover have "DEFERRED \<in> set (legal_transitions (in_status sample_intent))" by (simp add: sample_intent_def)
  moreover have "''k2'' \<notin> in_key ` set [sample_intent]" by (simp add: sample_intent_def)
  moreover have "non_empty ''k2''" "non_empty ''later''" by (simp_all add: non_empty_eval)
  moreover have "in_intent_id sample_intent = ''i1''" by (simp add: sample_intent_def)
  ultimately obtain x t where run: "transition sqlite_intent_backend (user_scope ''u1'') ''i1'' DEFERRED [''later''] (utc 2) ''k2'' ?s = (Inr x, t)"
    using sql.transition_succeeds [OF _ sample_scope_valid, of ?s sample_intent "[sample_intent]" "[]" DEFERRED "''k2''"
        "''later''" "utc 2"] by auto
  from intent_transition_idempotent [of "[Admit sample_intent]" "[]", OF _ _ sample_scope_valid run [unfolded s]]
    sample_intent_valid show ?thesis by auto
qed


end
