(* ===== verification/Frozen_Value.thy ===== *)
theory Frozen_Value
  imports MR_Contracts
begin

text \<open>
  The value algebra of \<^verbatim>\<open>contracts/common.py\<close>: the objects a state may carry (\<^verbatim>\<open>freeze_value\<close>,
  \<^verbatim>\<open>freeze_mapping\<close>, \<^verbatim>\<open>FrozenMapping\<close>) and Python's \<^verbatim>\<open>==\<close> on them. A mapping, a \<^verbatim>\<open>dict\<close> or a
  \<^verbatim>\<open>FrozenMapping\<close>, is its list of entries, a \<^verbatim>\<open>set\<close> or \<^verbatim>\<open>frozenset\<close> a list of its members in some
  order; floats are finite. Objects outside the algebra have no counterpart, so the last branch of
  \<^verbatim>\<open>freeze_value\<close> is left out.
\<close>

section \<open>Values\<close>

datatype py_value =
    VNone
  | VBool bool
  | VInt int
  | VFloat rat
  | VStr string
  | VBytes string
  | VTuple "py_value list"
  | VList "py_value list"
  | VSet "py_value list"
  | VMap "(py_value \<times> py_value) list"

text \<open>Numbers compare across \<^verbatim>\<open>bool\<close>, \<^verbatim>\<open>int\<close> and \<^verbatim>\<open>float\<close>.\<close>

fun num_val :: "py_value \<Rightarrow> rat option" where
  "num_val (VBool b) = Some (if b then 1 else 0)"
| "num_val (VInt i) = Some (of_int i)"
| "num_val (VFloat r) = Some r"
| "num_val _ = None"

fun py_eq :: "py_value \<Rightarrow> py_value \<Rightarrow> bool" where
  "py_eq (VTuple xs) w = (case w of VTuple ys \<Rightarrow> list_all2 (\<lambda>x y. py_eq x y) xs ys | _ \<Rightarrow> False)"
| "py_eq (VList xs) w = (case w of VList ys \<Rightarrow> list_all2 (\<lambda>x y. py_eq x y) xs ys | _ \<Rightarrow> False)"
| "py_eq (VSet xs) w = (case w of
     VSet ys \<Rightarrow> (\<forall>x \<in> set xs. \<exists>y \<in> set ys. py_eq x y) \<and> (\<forall>y \<in> set ys. \<exists>x \<in> set xs. py_eq x y)
   | _ \<Rightarrow> False)"
| "py_eq (VMap xs) w = (case w of
     VMap ys \<Rightarrow> (\<forall>(k, v) \<in> set xs. \<exists>(j, u) \<in> set ys. py_eq k j \<and> py_eq v u) \<and>
       (\<forall>(j, u) \<in> set ys. \<exists>(k, v) \<in> set xs. py_eq k j \<and> py_eq v u)
   | _ \<Rightarrow> False)"
| "py_eq (VStr s) w = (w = VStr s)"
| "py_eq (VBytes s) w = (w = VBytes s)"
| "py_eq VNone w = (w = VNone)"
| "py_eq (VBool b) w = (num_val w = num_val (VBool b))"
| "py_eq (VInt i) w = (num_val w = num_val (VInt i))"
| "py_eq (VFloat r) w = (num_val w = num_val (VFloat r))"

lemma py_eq_num: "num_val v = Some a \<Longrightarrow> py_eq v w \<longleftrightarrow> num_val w = Some a"
  by (cases v) auto

lemma py_eq_map_iff:
  "py_eq (VMap xs) (VMap ys) \<longleftrightarrow>
    (\<forall>p \<in> set xs. \<exists>q \<in> set ys. py_eq (fst p) (fst q) \<and> py_eq (snd p) (snd q)) \<and>
    (\<forall>q \<in> set ys. \<exists>p \<in> set xs. py_eq (fst p) (fst q) \<and> py_eq (snd p) (snd q))"
  by (simp add: case_prod_beta)

lemma map_induct_hyp:
  assumes "\<And>p a. p \<in> set xs \<Longrightarrow> a \<in> Basic_BNFs.fsts p \<Longrightarrow> P a"
    and "\<And>p a. p \<in> set xs \<Longrightarrow> a \<in> Basic_BNFs.snds p \<Longrightarrow> P a"
    and "p \<in> set xs"
  shows "P (fst p) \<and> P (snd p)"
  using assms by (metis fsts.intros snds.intros prod.collapse)

lemma py_value_induct [case_names Num Text Tuple List Set Map]:
  assumes "\<And>v a. num_val v = Some a \<Longrightarrow> P v"
    and "\<And>v. v = VNone \<or> v \<in> range VStr \<union> range VBytes \<Longrightarrow> P v"
    and "\<And>xs. (\<And>x. x \<in> set xs \<Longrightarrow> P x) \<Longrightarrow> P (VTuple xs)"
    and "\<And>xs. (\<And>x. x \<in> set xs \<Longrightarrow> P x) \<Longrightarrow> P (VList xs)"
    and "\<And>xs. (\<And>x. x \<in> set xs \<Longrightarrow> P x) \<Longrightarrow> P (VSet xs)"
    and "\<And>xs. (\<And>p. p \<in> set xs \<Longrightarrow> P (fst p) \<and> P (snd p)) \<Longrightarrow> P (VMap xs)"
  shows "P v"
proof (induction v)
  case (VMap xs)
  then show ?case using assms(6) map_induct_hyp [of xs P] by blast
qed (use assms in auto)

lemma py_eq_refl [simp]: "py_eq v v"
proof (induction v rule: py_value_induct)
  case (Map xs)
  then show ?case unfolding py_eq_map_iff by blast
qed (auto simp: py_eq_num intro: list.rel_refl_strong)

lemma py_eq_sym: "py_eq v w \<Longrightarrow> py_eq w v"
proof (induction v arbitrary: w rule: py_value_induct)
  case (Tuple xs)
  then show ?case by (auto simp: list_all2_conv_all_nth split: py_value.splits)
next
  case (List xs)
  then show ?case by (auto simp: list_all2_conv_all_nth split: py_value.splits)
next
  case (Set xs)
  from Set.prems obtain ys where w: "w = VSet ys" by (auto split: py_value.splits)
  from Set show ?case unfolding w by simp blast
next
  case (Map xs)
  from Map.prems obtain ys where w: "w = VMap ys" by (auto split: py_value.splits)
  from Map show ?case unfolding w py_eq_map_iff by blast
qed (auto simp: py_eq_num)

lemma cover_trans:
  assumes "\<forall>p \<in> A. \<exists>q \<in> B. R p q" and "\<forall>q \<in> B. \<exists>r \<in> C. R' q r"
    and "\<And>p q r. p \<in> A \<Longrightarrow> R p q \<Longrightarrow> R' q r \<Longrightarrow> T p r"
  shows "\<forall>p \<in> A. \<exists>r \<in> C. T p r"
  using assms by meson

lemma cover_trans_back:
  assumes "\<forall>q \<in> B. \<exists>p \<in> A. R p q" and "\<forall>r \<in> C. \<exists>q \<in> B. R' q r"
    and "\<And>p q r. p \<in> A \<Longrightarrow> R p q \<Longrightarrow> R' q r \<Longrightarrow> T p r"
  shows "\<forall>r \<in> C. \<exists>p \<in> A. T p r"
  using assms by meson

lemma py_eq_trans: "py_eq u v \<Longrightarrow> py_eq v w \<Longrightarrow> py_eq u w"
proof (induction u arbitrary: v w rule: py_value_induct)
  case (Tuple xs)
  from Tuple.prems obtain ys zs where vw: "v = VTuple ys" "w = VTuple zs" by (auto split: py_value.splits)
  from Tuple show ?case unfolding vw by (simp add: list_all2_conv_all_nth) (metis nth_mem)
next
  case (List xs)
  from List.prems obtain ys zs where vw: "v = VList ys" "w = VList zs" by (auto split: py_value.splits)
  from List show ?case unfolding vw by (simp add: list_all2_conv_all_nth) (metis nth_mem)
next
  case (Set xs)
  from Set.prems obtain ys zs where vw: "v = VSet ys" "w = VSet zs" by (auto split: py_value.splits)
  note eqs = Set.prems [unfolded vw, simplified]
  have step: "py_eq p r" if "p \<in> set xs" "py_eq p q" "py_eq q r" for p q r
    using Set.IH [OF that] .
  have "\<forall>x \<in> set xs. \<exists>z \<in> set zs. py_eq x z"
    by (rule cover_trans [OF conjunct1 [OF eqs(1)] conjunct1 [OF eqs(2)]]) (rule step)
  moreover have "\<forall>z \<in> set zs. \<exists>x \<in> set xs. py_eq x z"
    by (rule cover_trans_back [OF conjunct2 [OF eqs(1)] conjunct2 [OF eqs(2)]]) (rule step)
  ultimately show ?case by (simp add: vw)
next
  case (Map xs)
  from Map.prems obtain ys zs where vw: "v = VMap ys" "w = VMap zs" by (auto split: py_value.splits)
  note eqs = Map.prems [unfolded vw py_eq_map_iff]
  have step: "py_eq (fst p) (fst r) \<and> py_eq (snd p) (snd r)"
    if "p \<in> set xs" "py_eq (fst p) (fst q) \<and> py_eq (snd p) (snd q)"
      "py_eq (fst q) (fst r) \<and> py_eq (snd q) (snd r)" for p q r
    using Map.IH [OF that(1)] that by blast
  show ?case unfolding vw py_eq_map_iff
  proof
    show "\<forall>p \<in> set xs. \<exists>r \<in> set zs. py_eq (fst p) (fst r) \<and> py_eq (snd p) (snd r)"
      by (rule cover_trans [OF conjunct1 [OF eqs(1)] conjunct1 [OF eqs(2)]]) (rule step)
    show "\<forall>r \<in> set zs. \<exists>p \<in> set xs. py_eq (fst p) (fst r) \<and> py_eq (snd p) (snd r)"
      by (rule cover_trans_back [OF conjunct2 [OF eqs(1)] conjunct2 [OF eqs(2)]]) (rule step)
  qed
qed (auto simp: py_eq_num)

section \<open>Freezing\<close>

lemma mapR_cong [fundef_cong]:
  "xs = ys \<Longrightarrow> (\<And>x. x \<in> set ys \<Longrightarrow> f x = g x) \<Longrightarrow> mapR f xs = mapR g ys"
  by (induction xs arbitrary: ys) (auto simp: bindR_def split: sum.splits)

fun freeze_value :: "string \<Rightarrow> py_value \<Rightarrow> py_value result" where
  "freeze_value field_name (VMap entries) =
     bindR (mapR (\<lambda>(key, item). case key of
         VStr k \<Rightarrow> bindR (freeze_value field_name item) (\<lambda>v. Inr (k, v))
       | _ \<Rightarrow> Inl (ValueError (field_name @ '' keys must be strings''))) entries)
     (\<lambda>frozen. Inr (VMap (map (\<lambda>(k, v). (VStr k, v)) (sort_key fst frozen))))"
| "freeze_value field_name (VList xs) =
     bindR (mapR (\<lambda>x. freeze_value field_name x) xs) (\<lambda>ys. Inr (VTuple ys))"
| "freeze_value field_name (VTuple xs) =
     bindR (mapR (\<lambda>x. freeze_value field_name x) xs) (\<lambda>ys. Inr (VTuple ys))"
| "freeze_value field_name (VSet xs) =
     bindR (mapR (\<lambda>x. freeze_value field_name x) xs) (\<lambda>ys. Inr (VSet ys))"
| "freeze_value field_name v = Inr v"


lemma mapR_Inr_iff: "mapR f xs = Inr ys \<longleftrightarrow> list_all2 (\<lambda>x y. f x = Inr y) xs ys"
proof (induction xs arbitrary: ys)
  case Nil
  then show ?case by auto
next
  case (Cons x xs)
  then show ?case by (cases ys) (auto simp: bindR_Inr_iff)
qed

lemma mapR_source: "mapR f xs = Inr ys \<Longrightarrow> y \<in> set ys \<Longrightarrow> \<exists>x \<in> set xs. f x = Inr y"
  by (induction xs arbitrary: ys) (auto simp: bindR_Inr_iff)

lemma mapR_map_id: "(\<And>y. y \<in> set ys \<Longrightarrow> f (h y) = Inr y) \<Longrightarrow> mapR f (map h ys) = Inr ys"
  by (induction ys) auto

lemma mapR_again:
  assumes "mapR f xs = Inr ys" and "\<And>x y. x \<in> set xs \<Longrightarrow> f x = Inr y \<Longrightarrow> g y = Inr (h y)"
  shows "mapR g ys = Inr (map h ys)"
proof (rule mapR_all_ok)
  fix y
  assume "y \<in> set ys"
  with assms(1) obtain x where "x \<in> set xs" "f x = Inr y"
    using mapR_source by fast
  then show "g y = Inr (h y)" by (rule assms(2))
qed

lemma freeze_num: "num_val v = Some a \<Longrightarrow> freeze_value f v = Inr v"
  by (cases v) auto

text \<open>A frozen value is a fixed point: freezing it again, under any field name, gives it back.\<close>

lemma freeze_idem: "freeze_value f v = Inr w \<Longrightarrow> freeze_value g w = Inr w"
proof (induction v arbitrary: w rule: py_value_induct)
  case (Tuple xs)
  then obtain ys where w: "w = VTuple ys" and ys: "mapR (freeze_value f) xs = Inr ys"
    by (auto simp: bindR_Inr_iff)
  from mapR_again [OF ys, of "freeze_value g" id] Tuple.IH show ?case by (simp add: w)
next
  case (List xs)
  then obtain ys where w: "w = VTuple ys" and ys: "mapR (freeze_value f) xs = Inr ys"
    by (auto simp: bindR_Inr_iff)
  from mapR_again [OF ys, of "freeze_value g" id] List.IH show ?case by (simp add: w)
next
  case (Set xs)
  then obtain ys where w: "w = VSet ys" and ys: "mapR (freeze_value f) xs = Inr ys"
    by (auto simp: bindR_Inr_iff)
  from mapR_again [OF ys, of "freeze_value g" id] Set.IH show ?case by (simp add: w)
next
  case (Map es)
  then obtain fs where w: "w = VMap (map (\<lambda>(k, v). (VStr k, v)) (sort_key fst fs))"
    and fs: "mapR (\<lambda>(key, item). case key of
         VStr k \<Rightarrow> bindR (freeze_value f item) (\<lambda>v. Inr (k, v))
       | _ \<Rightarrow> Inl (ValueError (f @ '' keys must be strings''))) es = Inr fs"
    by (auto simp: bindR_Inr_iff)
  have item: "freeze_value g (snd q) = Inr (snd q)" if "q \<in> set fs" for q
  proof -
    from mapR_source [OF fs that] obtain key v where kv: "(key, v) \<in> set es"
      and "(case key of VStr k \<Rightarrow> bindR (freeze_value f v) (\<lambda>v. Inr (k, v))
       | _ \<Rightarrow> Inl (ValueError (f @ '' keys must be strings''))) = Inr q"
      by auto
    then have "freeze_value f v = Inr (snd q)" by (auto simp: bindR_Inr_iff split: py_value.splits)
    with Map.IH [OF kv] show ?thesis by simp
  qed
  show ?case unfolding w freeze_value.simps
    by (subst mapR_map_id) (auto simp: sort_key_sorted split: prod.splits dest!: item)
qed (auto simp: freeze_num)

definition frozen :: "py_value \<Rightarrow> bool" where
  "frozen v \<longleftrightarrow> freeze_value ''value'' v = Inr v"

lemma freeze_frozen: "frozen v \<Longrightarrow> freeze_value f v = Inr v"
  unfolding frozen_def by (rule freeze_idem)

lemma freeze_value_frozen: "freeze_value f v = Inr w \<Longrightarrow> frozen w"
  unfolding frozen_def by (rule freeze_idem)

lemma frozen_simps [simp]:
  "frozen VNone" "frozen (VBool b)" "frozen (VInt i)" "frozen (VFloat r)" "frozen (VStr s)" "frozen (VBytes s)"
  "frozen (VTuple vs) \<longleftrightarrow> list_all frozen vs"
  "frozen (VSet vs) \<longleftrightarrow> list_all frozen vs"
  "\<not> frozen (VList vs)"
  by (auto simp: frozen_def bindR_Inr_iff mapR_Inr_iff list_all2_same list_all_iff)


end
