(* ===== verification/State_Contracts.thy ===== *)
theory State_Contracts
  imports Frozen_Value
begin

text \<open>
  The state contracts of \<^verbatim>\<open>contracts/state.py\<close> and \<^verbatim>\<open>contracts/transition.py\<close>: state definitions,
  the immutable state record, uncommitted transition intents and committed transitions, each with
  the checks of its \<^verbatim>\<open>__post_init__\<close>. A constructor freezes the value of a state between its checks,
  so it is the checks before, the freezing, and the checks after.
\<close>

section \<open>Splitting keys\<close>

text \<open>\<^verbatim>\<open>str.partition(c)\<close> and \<^verbatim>\<open>str.rpartition(c)\<close> at one character.\<close>

definition partition_at :: "char \<Rightarrow> string \<Rightarrow> string \<times> string \<times> string" where
  "partition_at c s = (if c \<in> set s
     then (takeWhile (\<lambda>d. d \<noteq> c) s, [c], tl (dropWhile (\<lambda>d. d \<noteq> c) s)) else (s, [], []))"

definition rpartition_at :: "char \<Rightarrow> string \<Rightarrow> string \<times> string \<times> string" where
  "rpartition_at c s = (if c \<in> set s
     then (rev (tl (dropWhile (\<lambda>d. d \<noteq> c) (rev s))), [c], rev (takeWhile (\<lambda>d. d \<noteq> c) (rev s)))
     else ([], [], s))"

lemma split_at_first:
  assumes "c \<notin> set xs"
  shows "takeWhile (\<lambda>d. d \<noteq> c) (xs @ c # ys) = xs" and "dropWhile (\<lambda>d. d \<noteq> c) (xs @ c # ys) = c # ys"
  using assms by (induction xs) auto

lemma partition_at_Some: "c \<notin> set xs \<Longrightarrow> partition_at c (xs @ c # ys) = (xs, [c], ys)"
  by (simp add: partition_at_def split_at_first)

lemma partition_at_None [simp]: "c \<notin> set xs \<Longrightarrow> partition_at c xs = (xs, [], [])"
  by (simp add: partition_at_def)

lemma rpartition_at_Some: "c \<notin> set ys \<Longrightarrow> rpartition_at c (xs @ c # ys) = (xs, [c], ys)"
  by (simp add: rpartition_at_def split_at_first)

lemma rpartition_at_None [simp]: "c \<notin> set xs \<Longrightarrow> rpartition_at c xs = ([], [], xs)"
  by (simp add: rpartition_at_def)

lemma rpartition_atE:
  assumes "rpartition_at c s = (a, sep, b)" and "sep \<noteq> []"
  shows "s = a @ c # b \<and> c \<notin> set b"
proof -
  from assms have "c \<in> set s" by (auto simp: rpartition_at_def split: if_splits)
  then obtain xs ys where "s = xs @ c # ys" "c \<notin> set ys" by (meson split_list_last)
  with assms rpartition_at_Some [of c ys xs] show ?thesis by simp
qed

lemma partition_atE:
  assumes "partition_at c s = (a, sep, b)" and "sep \<noteq> []"
  shows "s = a @ c # b \<and> c \<notin> set a"
proof -
  from assms have "c \<in> set s" by (auto simp: partition_at_def split: if_splits)
  then obtain xs ys where "s = xs @ c # ys" "c \<notin> set xs" by (meson split_list_first)
  with assms partition_at_Some [of c xs ys] show ?thesis by simp
qed

section \<open>Domains and definitions\<close>

datatype state_value_type = CATEGORICAL | BOOLEAN | SCALAR | STRUCTURED

fun value_type_value :: "state_value_type \<Rightarrow> string" where
  "value_type_value CATEGORICAL = ''categorical''"
| "value_type_value BOOLEAN = ''boolean''"
| "value_type_value SCALAR = ''scalar''"
| "value_type_value STRUCTURED = ''structured''"

datatype state_domain = D_USER | D_AGENT | D_RELATIONSHIP | D_INTERACTION

fun state_domain_value :: "state_domain \<Rightarrow> string" where
  "state_domain_value D_USER = ''user''"
| "state_domain_value D_AGENT = ''agent''"
| "state_domain_value D_RELATIONSHIP = ''relationship''"
| "state_domain_value D_INTERACTION = ''interaction''"

fun state_domain_by_scope :: "scope_domain \<Rightarrow> state_domain option" where
  "state_domain_by_scope USER = Some D_USER"
| "state_domain_by_scope AGENT = Some D_AGENT"
| "state_domain_by_scope RELATIONSHIP = Some D_RELATIONSHIP"
| "state_domain_by_scope INTERACTION = Some D_INTERACTION"
| "state_domain_by_scope WORLD = None"

definition state_domain_for_scope :: "scope \<Rightarrow> state_domain result" where
  "state_domain_for_scope sc = (case state_domain_by_scope (sc_domain sc) of
     Some d \<Rightarrow> Inr d | None \<Rightarrow> Inl (ValueError ''scope.domain must be a StateDomain''))"

definition domain_key_ok :: "string \<Rightarrow> state_domain \<Rightarrow> bool" where
  "domain_key_ok key domain = (case partition_at CHR ''.'' key of (prefix, separator, name) \<Rightarrow>
     \<not> (prefix \<noteq> state_domain_value domain \<or> separator = [] \<or> strip name = []))"

definition require_domain_key :: "string \<Rightarrow> state_domain \<Rightarrow> string \<Rightarrow> (bool \<times> py_error) list" where
  "require_domain_key key domain field_name =
     [require_non_empty key field_name,
      (\<not> domain_key_ok key domain, ValueError (field_name @ '' must use approved <domain>.<name> form''))]"

lemma domain_key_okE:
  assumes "domain_key_ok key domain"
  obtains name where "key = state_domain_value domain @ CHR ''.'' # name" and "strip name \<noteq> []"
  using assms partition_atE [of "CHR ''.''" key] by (force simp: domain_key_ok_def split: prod.splits)

lemma state_domain_no_dot: "CHR ''.'' \<notin> set (state_domain_value d)"
  by (cases d) auto

lemma domain_key_okI: "strip name \<noteq> [] \<Longrightarrow> domain_key_ok (state_domain_value d @ CHR ''.'' # name) d"
  by (simp add: domain_key_ok_def partition_at_Some state_domain_no_dot)

lemma domain_key_non_empty: "domain_key_ok key domain \<Longrightarrow> non_empty key"
  by (elim domain_key_okE) (simp add: non_empty_append non_empty_Cons is_space_def)

record state_definition =
  sd_key :: string
  sd_domain :: state_domain
  sd_value_type :: state_value_type
  sd_dynamics_policy :: string
  sd_default_validity_policy :: "string option"
  sd_bounds :: "py_value option"

definition state_definition_checks :: "state_definition \<Rightarrow> (bool \<times> py_error) list" where
  "state_definition_checks d =
     require_domain_key (sd_key d) (sd_domain d) ''key'' @
     [require_non_empty (sd_dynamics_policy d) ''dynamics_policy''] @
     (case sd_default_validity_policy d of None \<Rightarrow> []
      | Some p \<Rightarrow> [require_non_empty p ''default_validity_policy''])"

definition mk_state_definition :: "state_definition \<Rightarrow> state_definition result" where
  "mk_state_definition d = bindR (guarded (state_definition_checks d) d) (\<lambda>d.
     case sd_bounds d of
       None \<Rightarrow> Inr d
     | Some b \<Rightarrow> bindR (freeze_value ''bounds'' b) (\<lambda>v. Inr (d\<lparr>sd_bounds := Some v\<rparr>)))"

definition state_definition_valid :: "state_definition \<Rightarrow> bool" where
  "state_definition_valid d \<longleftrightarrow> mk_state_definition d = Inr d"

section \<open>Runtime states\<close>

record runtime_state =
  rs_state_id :: string
  rs_scope :: scope
  rs_dimension :: string
  rs_value :: py_value
  rs_status :: string
  rs_valid_from :: datetime
  rs_valid_until :: "datetime option"
  rs_relevant_until :: "datetime option"
  rs_last_observed_at :: datetime
  rs_evidence_refs :: "string list"
  rs_transition_refs :: "string list"
  rs_updated_at :: datetime
  rs_origin_runtime_id :: string
  rs_version :: int
  rs_sync :: sync_fields

definition freeze_refs :: "string list \<Rightarrow> string \<Rightarrow> (bool \<times> py_error) list" where
  "freeze_refs refs field_name = map (\<lambda>r. require_non_empty r (field_name @ '' entries'')) refs"

definition optional_utc :: "datetime option \<Rightarrow> string \<Rightarrow> (bool \<times> py_error) list" where
  "optional_utc t field_name = (case t of None \<Rightarrow> [] | Some d \<Rightarrow> [require_aware_utc d field_name])"

definition state_head_checks :: "runtime_state \<Rightarrow> (bool \<times> py_error) list" where
  "state_head_checks s =
     [require_non_empty (rs_state_id s) ''state_id'',
      require_non_empty (rs_origin_runtime_id s) ''origin_runtime_id'',
      require_non_empty (rs_status s) ''status''] @
     (case state_domain_for_scope (rs_scope s) of
        Inl e \<Rightarrow> [(True, e)]
      | Inr d \<Rightarrow> require_domain_key (rs_dimension s) d ''dimension'') @
     [(rs_version s < 1, ValueError ''version must be at least 1''),
      require_aware_utc (rs_valid_from s) ''valid_from'',
      require_aware_utc (rs_last_observed_at s) ''last_observed_at'',
      require_aware_utc (rs_updated_at s) ''updated_at''] @
     optional_utc (rs_valid_until s) ''valid_until'' @
     optional_utc (rs_relevant_until s) ''relevant_until''"

definition state_tail_checks :: "runtime_state \<Rightarrow> (bool \<times> py_error) list" where
  "state_tail_checks s =
     freeze_refs (rs_evidence_refs s) ''evidence_refs'' @
     freeze_refs (rs_transition_refs s) ''transition_refs'' @
     validate_sync_fields (rs_sync s) (rs_scope s) (rs_origin_runtime_id s) (rs_state_id s)
       (Some (rs_version s))"

definition mk_runtime_state :: "runtime_state \<Rightarrow> runtime_state result" where
  "mk_runtime_state s = bindR (guarded (state_head_checks s) s) (\<lambda>s.
     bindR (freeze_value ''value'' (rs_value s)) (\<lambda>v.
     guarded (state_tail_checks s) (s\<lparr>rs_value := v\<rparr>)))"

definition runtime_state_valid :: "runtime_state \<Rightarrow> bool" where
  "runtime_state_valid s \<longleftrightarrow> scope_valid (rs_scope s) \<and> all_clear (state_head_checks s) \<and>
     frozen (rs_value s) \<and> all_clear (state_tail_checks s)"

lemma require_domain_key_clear [simp]:
  "all_clear (require_domain_key key d f) \<longleftrightarrow> domain_key_ok key d"
  by (auto simp: require_domain_key_def domain_key_non_empty)

lemma freeze_refs_clear [simp]: "all_clear (freeze_refs refs f) \<longleftrightarrow> list_all non_empty refs"
  by (simp add: freeze_refs_def)

lemma optional_utc_clear [simp]: "all_clear (optional_utc t f) \<longleftrightarrow> (\<forall>d. t = Some d \<longrightarrow> is_aware_utc d)"
  by (cases t) (simp_all add: optional_utc_def)

text \<open>The domain a dimension belongs to is that of its scope.\<close>

definition dimension_ok :: "scope \<Rightarrow> string \<Rightarrow> bool" where
  "dimension_ok sc key \<longleftrightarrow> (case state_domain_for_scope sc of Inl e \<Rightarrow> False | Inr d \<Rightarrow> domain_key_ok key d)"

lemma dimension_clear [simp]:
  "all_clear (case state_domain_for_scope sc of Inl e \<Rightarrow> [(True, e)] | Inr d \<Rightarrow> require_domain_key key d f)
    \<longleftrightarrow> dimension_ok sc key"
  by (simp add: dimension_ok_def split: sum.splits)

lemma dimension_ok_non_empty: "dimension_ok sc key \<Longrightarrow> non_empty key"
  by (auto simp: dimension_ok_def domain_key_non_empty split: sum.splits)

lemma state_head_clear:
  "all_clear (state_head_checks s) \<longleftrightarrow> non_empty (rs_state_id s) \<and> non_empty (rs_origin_runtime_id s) \<and>
     non_empty (rs_status s) \<and> dimension_ok (rs_scope s) (rs_dimension s) \<and> 1 \<le> rs_version s \<and>
     is_aware_utc (rs_valid_from s) \<and> is_aware_utc (rs_last_observed_at s) \<and>
     is_aware_utc (rs_updated_at s) \<and> (\<forall>d. rs_valid_until s = Some d \<longrightarrow> is_aware_utc d) \<and>
     (\<forall>d. rs_relevant_until s = Some d \<longrightarrow> is_aware_utc d)"
  by (auto simp: state_head_checks_def)

lemma state_tail_clear:
  "all_clear (state_tail_checks s) \<longleftrightarrow> list_all non_empty (rs_evidence_refs s) \<and>
     list_all non_empty (rs_transition_refs s) \<and>
     sf_scope (rs_sync s) = rs_scope s \<and> sf_origin_runtime_id (rs_sync s) = rs_origin_runtime_id s \<and>
     sf_object_id (rs_sync s) = rs_state_id s \<and> non_empty (rs_origin_runtime_id s) \<and>
     non_empty (rs_state_id s) \<and> non_empty (sf_idempotency_key (rs_sync s)) \<and>
     1 \<le> sf_version (rs_sync s) \<and> sf_version (rs_sync s) = rs_version s"
  by (auto simp: state_tail_checks_def)

lemmas state_clear = state_head_clear state_tail_clear

lemma mk_runtime_state_valid:
  assumes "mk_runtime_state s = Inr t" and "scope_valid (rs_scope s)"
  shows "runtime_state_valid t" and "\<exists>v. t = s\<lparr>rs_value := v\<rparr>"
proof -
  from assms obtain v where v: "freeze_value ''value'' (rs_value s) = Inr v"
    and head: "all_clear (state_head_checks s)" and tail: "all_clear (state_tail_checks s)"
    and t: "t = s\<lparr>rs_value := v\<rparr>"
    by (auto simp: mk_runtime_state_def bindR_Inr_iff guarded_Inr_iff)
  from v have "frozen v" by (rule freeze_value_frozen)
  with head tail t assms(2) show "runtime_state_valid t"
    by (simp add: runtime_state_valid_def state_head_clear state_tail_clear)
  from t show "\<exists>v. t = s\<lparr>rs_value := v\<rparr>" by blast
qed

lemma mk_runtime_state_same: "runtime_state_valid s \<Longrightarrow> mk_runtime_state s = Inr s"
  by (simp add: runtime_state_valid_def mk_runtime_state_def guarded_clear freeze_frozen)

section \<open>Transitions\<close>

record transition_intent =
  ti_intent_id :: string
  ti_interaction_id :: string
  ti_scope :: scope
  ti_origin_runtime_id :: string
  ti_target_dimension :: string
  ti_before :: runtime_state
  ti_proposed_after :: runtime_state
  ti_cause_refs :: "string list"
  ti_policy :: string
  ti_confidence :: rat
  ti_commit_phase :: string

definition require_matching_state_scopes :: "scope \<Rightarrow> runtime_state list \<Rightarrow> bool \<times> py_error" where
  "require_matching_state_scopes sc states =
     (list_ex (\<lambda>s. rs_scope s \<noteq> sc) states, ValueError ''state scope must match transition scope'')"

definition transition_intent_checks :: "transition_intent \<Rightarrow> (bool \<times> py_error) list" where
  "transition_intent_checks t =
     [require_non_empty (ti_intent_id t) ''intent_id'',
      require_non_empty (ti_interaction_id t) ''interaction_id'',
      require_non_empty (ti_origin_runtime_id t) ''origin_runtime_id'',
      require_non_empty (ti_target_dimension t) ''target_dimension'',
      require_non_empty (ti_policy t) ''policy''] @
     (case state_domain_for_scope (ti_scope t) of
        Inl e \<Rightarrow> [(True, e)]
      | Inr d \<Rightarrow> require_domain_key (ti_target_dimension t) d ''target_dimension'') @
     [require_matching_state_scopes (ti_scope t) [ti_before t, ti_proposed_after t],
      (rs_dimension (ti_before t) \<noteq> ti_target_dimension t,
       ValueError ''before.dimension must match target_dimension''),
      (rs_dimension (ti_proposed_after t) \<noteq> ti_target_dimension t,
       ValueError ''proposed_after.dimension must match target_dimension''),
      (\<not> (0 \<le> ti_confidence t \<and> ti_confidence t \<le> 1), ValueError ''confidence must be in [0, 1]''),
      (ti_commit_phase t \<notin> set [''ingest'', ''turn_commit''],
       ValueError ''commit_phase must be ingest or turn_commit'')] @
     freeze_refs (ti_cause_refs t) ''cause_refs''"

definition mk_transition_intent :: "transition_intent \<Rightarrow> transition_intent result" where
  "mk_transition_intent t = guarded (transition_intent_checks t) t"

record state_transition =
  tr_transition_id :: string
  tr_scope :: scope
  tr_origin_runtime_id :: string
  tr_intent_id :: string
  tr_from_state :: runtime_state
  tr_to_state :: runtime_state
  tr_committed_at :: datetime
  tr_sync :: sync_fields

definition state_transition_checks :: "state_transition \<Rightarrow> (bool \<times> py_error) list" where
  "state_transition_checks t =
     [require_non_empty (tr_transition_id t) ''transition_id'',
      require_non_empty (tr_origin_runtime_id t) ''origin_runtime_id'',
      require_non_empty (tr_intent_id t) ''intent_id'',
      require_matching_state_scopes (tr_scope t) [tr_from_state t, tr_to_state t],
      (rs_dimension (tr_from_state t) \<noteq> rs_dimension (tr_to_state t),
       ValueError ''state dimensions must match''),
      require_aware_utc (tr_committed_at t) ''committed_at''] @
     validate_sync_fields (tr_sync t) (tr_scope t) (tr_origin_runtime_id t) (tr_transition_id t) None"

definition mk_state_transition :: "state_transition \<Rightarrow> state_transition result" where
  "mk_state_transition t = guarded (state_transition_checks t) t"

definition state_transition_valid :: "state_transition \<Rightarrow> bool" where
  "state_transition_valid t \<longleftrightarrow> all_clear (state_transition_checks t)"

lemma matching_scopes_clear [simp]:
  "all_clear (require_matching_state_scopes sc [a, b] # cs) \<longleftrightarrow>
     rs_scope a = sc \<and> rs_scope b = sc \<and> all_clear cs"
  by (auto simp: require_matching_state_scopes_def)


end
