(* ===== verification/State_Lifecycle.thy ===== *)
theory State_Lifecycle
  imports State_Contracts
begin

text \<open>
  The lifecycle vocabulary of canonical state (\<^verbatim>\<open>state/lifecycle.py\<close>), the deterministic state ids
  (\<^verbatim>\<open>state/ids.py\<close>), the verdict of time on one state (\<^verbatim>\<open>state/validity.py\<close>) and the verdict on its
  relevance (\<^verbatim>\<open>state/relevance.py\<close>). A state's status is a raw string; strings outside the vocabulary
  are opaque. Timestamps that no constructor has checked may fail to compare.
\<close>

section \<open>Lifecycles\<close>

datatype state_lifecycle = ACTIVE | IMPROVING | EXPIRED | RESOLVED | COMPLETED | CANCELLED | SUPERSEDED

fun lifecycle_status :: "state_lifecycle \<Rightarrow> string" where
  "lifecycle_status ACTIVE = ''active''"
| "lifecycle_status IMPROVING = ''improving''"
| "lifecycle_status EXPIRED = ''expired''"
| "lifecycle_status RESOLVED = ''resolved''"
| "lifecycle_status COMPLETED = ''completed''"
| "lifecycle_status CANCELLED = ''cancelled''"
| "lifecycle_status SUPERSEDED = ''superseded''"

definition current_like_lifecycles :: "state_lifecycle list" where
  "current_like_lifecycles = [ACTIVE, IMPROVING]"

definition terminal_lifecycles :: "state_lifecycle list" where
  "terminal_lifecycles = [RESOLVED, COMPLETED, CANCELLED, SUPERSEDED]"

definition coerce_lifecycle :: "string \<Rightarrow> state_lifecycle option" where
  "coerce_lifecycle status = (case enum_of lifecycle_status
     [ACTIVE, IMPROVING, EXPIRED, RESOLVED, COMPLETED, CANCELLED, SUPERSEDED] ''StateLifecycle'' status of
       Inr l \<Rightarrow> Some l | Inl e \<Rightarrow> None)"

definition is_known_lifecycle :: "string \<Rightarrow> bool" where
  "is_known_lifecycle status \<longleftrightarrow> coerce_lifecycle status \<noteq> None"

definition is_current_like :: "string \<Rightarrow> bool" where
  "is_current_like status \<longleftrightarrow> (case coerce_lifecycle status of
     None \<Rightarrow> False | Some l \<Rightarrow> l \<in> set current_like_lifecycles)"

definition state_is_terminal :: "string \<Rightarrow> bool" where
  "state_is_terminal status \<longleftrightarrow> (case coerce_lifecycle status of
     None \<Rightarrow> False | Some l \<Rightarrow> l \<in> set terminal_lifecycles)"

lemma coerce_status [simp]: "coerce_lifecycle (lifecycle_status l) = Some l"
  by (cases l) (simp_all add: coerce_lifecycle_def enum_of_def)

declare lifecycle_status.simps [simp del]

lemma coerce_lifecycle_Some: "coerce_lifecycle s = Some l \<longleftrightarrow> s = lifecycle_status l"
proof
  assume "coerce_lifecycle s = Some l"
  then show "s = lifecycle_status l"
    by (auto simp: coerce_lifecycle_def dest: enum_of_Inr split: sum.splits)
qed simp

lemma lifecycle_status_inject [simp]: "lifecycle_status a = lifecycle_status b \<longleftrightarrow> a = b"
  by (metis coerce_status option.inject)

lemma status_tests [simp]:
  "is_known_lifecycle (lifecycle_status l)"
  "is_current_like (lifecycle_status l) \<longleftrightarrow> l = ACTIVE \<or> l = IMPROVING"
  "state_is_terminal (lifecycle_status l) \<longleftrightarrow> l \<noteq> ACTIVE \<and> l \<noteq> IMPROVING \<and> l \<noteq> EXPIRED"
  by (cases l; simp add: is_known_lifecycle_def is_current_like_def state_is_terminal_def
      current_like_lifecycles_def terminal_lifecycles_def)+

lemma status_cases [case_names Current Expired Terminal Opaque]:
  obtains "is_current_like s" "is_known_lifecycle s" "\<not> state_is_terminal s" "s \<noteq> lifecycle_status EXPIRED"
  | "s = lifecycle_status EXPIRED"
  | "state_is_terminal s" "is_known_lifecycle s" "\<not> is_current_like s" "s \<noteq> lifecycle_status EXPIRED"
  | "\<not> is_known_lifecycle s" "\<not> is_current_like s" "\<not> state_is_terminal s" "s \<noteq> lifecycle_status EXPIRED"
proof (cases "coerce_lifecycle s")
  case None
  moreover from None have "s \<noteq> lifecycle_status EXPIRED" by auto
  ultimately show ?thesis
    using that(4) by (simp add: is_known_lifecycle_def is_current_like_def state_is_terminal_def)
next
  case (Some l)
  then have "s = lifecycle_status l" by (simp add: coerce_lifecycle_Some)
  with that show ?thesis by (cases l) auto
qed

lemma not_terminal_current: "is_current_like s \<Longrightarrow> \<not> state_is_terminal s"
  by (cases s rule: status_cases) auto

lemma status_non_empty [simp]: "non_empty (lifecycle_status l)"
  by (cases l) (simp_all add: lifecycle_status.simps non_empty_eval)

section \<open>State ids\<close>

definition canonical_state_id :: "string \<Rightarrow> int \<Rightarrow> string" where
  "canonical_state_id dimension version = dimension @ '':'' @ show_int version"

lemma canonical_state_id_non_empty [simp]: "non_empty (canonical_state_id d v)"
  by (simp add: canonical_state_id_def non_empty_append non_empty_Cons is_space_def)

lemma show_int_no_colon: "CHR '':'' \<notin> set (show_int i)"
proof -
  have digit: "n < 10 \<Longrightarrow> digit n \<noteq> CHR '':''" for n
    by (elim less_10_cases) (simp_all add: digit_def)
  have "CHR '':'' \<notin> set (show_nat n)" for n
  proof (induction n rule: show_nat.induct)
    case (1 n)
    with digit show ?case by (subst show_nat.simps) (auto simp: eq_commute)
  qed
  then show ?thesis by (simp add: show_int_def)
qed

text \<open>The id determines the dimension and the version, whatever characters the dimension has.\<close>

lemma canonical_state_id_inject:
  "canonical_state_id d v = canonical_state_id e w \<longleftrightarrow> d = e \<and> v = w"
proof
  assume eq: "canonical_state_id d v = canonical_state_id e w"
  have "rpartition_at CHR '':'' (canonical_state_id x n) = (x, [CHR '':''], show_int n)" for x n
    using rpartition_at_Some [OF show_int_no_colon, of x n] by (simp add: canonical_state_id_def)
  with eq show "d = e \<and> v = w" by (metis prod.inject show_int_inject)
qed simp

section \<open>Validity\<close>

definition idem_of :: "string \<Rightarrow> string" where
  "idem_of object_id = ''idem-'' @ object_id"

lemma idem_of_non_empty [simp]: "non_empty (idem_of x)"
  by (simp add: idem_of_def non_empty_eval)

definition expired_successor :: "runtime_state \<Rightarrow> datetime \<Rightarrow> runtime_state result" where
  "expired_successor state now = (let next_version = rs_version state + 1;
       next_state_id = canonical_state_id (rs_dimension state) next_version in
     mk_runtime_state
       \<lparr>rs_state_id = next_state_id, rs_scope = rs_scope state, rs_dimension = rs_dimension state,
        rs_value = rs_value state, rs_status = lifecycle_status EXPIRED,
        rs_valid_from = rs_valid_from state, rs_valid_until = rs_valid_until state,
        rs_relevant_until = rs_relevant_until state, rs_last_observed_at = rs_last_observed_at state,
        rs_evidence_refs = rs_evidence_refs state, rs_transition_refs = rs_transition_refs state,
        rs_updated_at = now, rs_origin_runtime_id = rs_origin_runtime_id state,
        rs_version = next_version,
        rs_sync = mk_sync (rs_scope state) (rs_origin_runtime_id state) next_state_id next_version
          (idem_of next_state_id)\<rparr>)"

record validity_outcome =
  vo_state :: runtime_state
  vo_changed :: bool
  vo_reason :: string

definition vo_expired :: "validity_outcome \<Rightarrow> bool" where
  "vo_expired v \<longleftrightarrow> vo_reason v = ''expired_by_ttl''"

text \<open>\<^verbatim>\<open>valid_until is None or now <= valid_until\<close>.\<close>

definition not_lapsed :: "datetime \<Rightarrow> datetime option \<Rightarrow> bool result" where
  "not_lapsed now bound = (case bound of None \<Rightarrow> Inr True | Some t \<Rightarrow> compare_dt dt_le now t)"

definition evaluate_validity :: "runtime_state \<Rightarrow> datetime \<Rightarrow> validity_outcome result" where
  "evaluate_validity state now =
     (if state_is_terminal (rs_status state)
      then Inr \<lparr>vo_state = state, vo_changed = False, vo_reason = ''terminal_protected''\<rparr>
      else if \<not> is_current_like (rs_status state)
      then Inr \<lparr>vo_state = state, vo_changed = False, vo_reason = ''opaque_status''\<rparr>
      else bindR (not_lapsed now (rs_valid_until state)) (\<lambda>ok.
        if ok then Inr \<lparr>vo_state = state, vo_changed = False, vo_reason = ''valid''\<rparr>
        else bindR (expired_successor state now) (\<lambda>next_state.
          Inr \<lparr>vo_state = next_state, vo_changed = True, vo_reason = ''expired_by_ttl''\<rparr>)))"

section \<open>Relevance\<close>

record relevance_outcome =
  ro_dimension :: string
  ro_scope :: scope
  ro_recently_cancelled :: bool
  ro_reason :: string

definition evaluate_relevance :: "runtime_state \<Rightarrow> datetime \<Rightarrow> relevance_outcome result" where
  "evaluate_relevance state now =
     (if state_is_terminal (rs_status state) \<and> rs_status state = lifecycle_status CANCELLED
      then bindR (not_lapsed now (rs_relevant_until state)) (\<lambda>ok.
        if \<not> ok
        then Inr \<lparr>ro_dimension = rs_dimension state, ro_scope = rs_scope state,
               ro_recently_cancelled = False, ro_reason = ''cancelled_window_lapsed''\<rparr>
        else Inr \<lparr>ro_dimension = rs_dimension state, ro_scope = rs_scope state,
               ro_recently_cancelled = True, ro_reason = ''cancelled_within_window''\<rparr>)
      else Inr \<lparr>ro_dimension = rs_dimension state, ro_scope = rs_scope state,
             ro_recently_cancelled = False, ro_reason = ''not_cancelled''\<rparr>)"

section \<open>Facts\<close>

lemmas valid_state = runtime_state_valid_def state_head_clear state_tail_clear

lemma dt_not_le: "\<not> dt_le a b \<longleftrightarrow> dt_less b a"
  by (auto simp: dt_le_def dt_less_def)

lemma valid_state_until: "runtime_state_valid s \<Longrightarrow> rs_valid_until s = Some t \<Longrightarrow> is_aware_utc t"
  by (simp add: valid_state)

lemma not_lapsed_aware:
  assumes "is_aware_utc now" and "\<And>t. bound = Some t \<Longrightarrow> is_aware_utc t"
  shows "not_lapsed now bound = Inr (\<not> (\<exists>t. bound = Some t \<and> dt_less t now))"
  using assms by (auto simp: not_lapsed_def dt_not_le [symmetric] split: option.splits)

text \<open>A state whose envelope has lapsed: time may end it.\<close>

definition lapsed :: "runtime_state \<Rightarrow> datetime \<Rightarrow> bool" where
  "lapsed s now \<longleftrightarrow> is_current_like (rs_status s) \<and> (case rs_valid_until s of None \<Rightarrow> False | Some t \<Rightarrow> dt_less t now)"

text \<open>The record that follows another in the history of its dimension.\<close>

definition next_record :: "runtime_state \<Rightarrow> runtime_state \<Rightarrow> bool" where
  "next_record s t \<longleftrightarrow> rs_scope t = rs_scope s \<and> rs_dimension t = rs_dimension s \<and>
     rs_version t = rs_version s + 1 \<and> rs_state_id t = canonical_state_id (rs_dimension s) (rs_version s + 1)"

lemma expired_successor_spec:
  assumes "runtime_state_valid s" and "is_aware_utc now"
  obtains t where "expired_successor s now = Inr t" and "runtime_state_valid t" and "next_record s t"
    and "rs_status t = lifecycle_status EXPIRED" and "rs_value t = rs_value s"
    and "rs_last_observed_at t = rs_last_observed_at s" and "rs_updated_at t = now"
    and "rs_origin_runtime_id t = rs_origin_runtime_id s" and "rs_evidence_refs t = rs_evidence_refs s"
proof -
  let ?id = "canonical_state_id (rs_dimension s) (rs_version s + 1)"
  let ?t = "\<lparr>rs_state_id = ?id, rs_scope = rs_scope s, rs_dimension = rs_dimension s,
        rs_value = rs_value s, rs_status = lifecycle_status EXPIRED,
        rs_valid_from = rs_valid_from s, rs_valid_until = rs_valid_until s,
        rs_relevant_until = rs_relevant_until s, rs_last_observed_at = rs_last_observed_at s,
        rs_evidence_refs = rs_evidence_refs s, rs_transition_refs = rs_transition_refs s,
        rs_updated_at = now, rs_origin_runtime_id = rs_origin_runtime_id s,
        rs_version = rs_version s + 1,
        rs_sync = mk_sync (rs_scope s) (rs_origin_runtime_id s) ?id (rs_version s + 1) (idem_of ?id)\<rparr>"
  have valid: "runtime_state_valid ?t" using assms by (simp add: valid_state)
  then have "expired_successor s now = Inr ?t"
    by (simp add: expired_successor_def Let_def mk_runtime_state_same)
  then show thesis using valid by (rule that) (simp_all add: next_record_def)
qed

text \<open>On a valid state the verdict never fails, and time changes exactly the lapsed current-like states.\<close>

lemma evaluate_validity_kept:
  assumes "runtime_state_valid s" and "is_aware_utc now" and "\<not> lapsed s now"
  obtains v where "evaluate_validity s now = Inr v" and "vo_state v = s" and "\<not> vo_changed v" and "\<not> vo_expired v"
proof -
  note na = not_lapsed_aware [OF assms(2) valid_state_until [OF assms(1)]]
  from assms(3) that show thesis
    by (cases "rs_status s" rule: status_cases)
      (auto simp: evaluate_validity_def na lapsed_def vo_expired_def not_terminal_current split: option.splits)
qed

lemma evaluate_validity_lapsed:
  assumes "runtime_state_valid s" and "is_aware_utc now" and "lapsed s now"
  obtains v t where "evaluate_validity s now = Inr v" and "vo_state v = t" and "vo_changed v" and "vo_expired v"
    and "expired_successor s now = Inr t" and "runtime_state_valid t" and "next_record s t"
    and "rs_status t = lifecycle_status EXPIRED"
proof -
  from expired_successor_spec [OF assms(1,2)] obtain t where
    t: "expired_successor s now = Inr t" "runtime_state_valid t" "next_record s t"
      "rs_status t = lifecycle_status EXPIRED" by metis
  note na = not_lapsed_aware [OF assms(2) valid_state_until [OF assms(1)]]
  from assms(3) have "is_current_like (rs_status s)" "\<not> state_is_terminal (rs_status s)"
    by (simp_all add: lapsed_def not_terminal_current)
  moreover from assms(3) have "\<exists>u. rs_valid_until s = Some u \<and> dt_less u now"
    by (simp add: lapsed_def split: option.splits)
  ultimately have "evaluate_validity s now =
      Inr \<lparr>vo_state = t, vo_changed = True, vo_reason = ''expired_by_ttl''\<rparr>"
    using t(1) by (simp add: evaluate_validity_def na)
  from that [OF this] t show thesis by (simp add: vo_expired_def)
qed


end
