(* ===== verification/State_Definitions.thy ===== *)
theory State_Definitions
  imports State_Lifecycle
begin

text \<open>
  The validity-policy vocabulary and the registry of state definitions (\<^verbatim>\<open>state/definitions.py\<close>).
  A \<^verbatim>\<open>timedelta\<close> is its number of microseconds, bounded as Python bounds it; \<^verbatim>\<open>int(text)\<close> refuses
  more than 4300 digits. \<^verbatim>\<open>\d\<close> matches the ten ASCII digits, the only decimal digits among the
  characters modelled.
\<close>

section \<open>Policies\<close>

datatype validity_kind = INDEFINITE | TTL | EVENT_ONLY

record validity_policy =
  vp_kind :: validity_kind
  vp_ttl :: "int option"
  vp_refresh_on_reaffirm :: bool

definition validity_policy_checks :: "validity_policy \<Rightarrow> (bool \<times> py_error) list" where
  "validity_policy_checks p =
     (if vp_kind p = TTL
      then [(vp_ttl p = None, ValueError ''ttl policy requires a ttl duration''),
            (case vp_ttl p of None \<Rightarrow> False | Some t \<Rightarrow> t \<le> 0, ValueError ''ttl must be positive'')]
      else [(vp_ttl p \<noteq> None, ValueError ''non-ttl policy forbids a ttl duration'')])"

definition mk_validity_policy :: "validity_kind \<Rightarrow> int option \<Rightarrow> bool \<Rightarrow> validity_policy result" where
  "mk_validity_policy kind ttl refresh = (let p = \<lparr>vp_kind = kind, vp_ttl = ttl, vp_refresh_on_reaffirm = refresh\<rparr> in
     guarded (validity_policy_checks p) p)"

definition is_digit :: "char \<Rightarrow> bool" where
  "is_digit c \<longleftrightarrow> c \<in> set ''0123456789''"

text \<open>\<^verbatim>\<open>timedelta(seconds=n)\<close> and its siblings, by the microseconds of one unit.\<close>

definition duration_unit :: "char \<Rightarrow> int option" where
  "duration_unit c = map_of [(CHR ''s'', 1000000), (CHR ''m'', 60000000), (CHR ''h'', 3600000000), (CHR ''d'', 86400000000)] c"

definition timedelta_max_days :: int where
  "timedelta_max_days = 999999999"

definition mk_timedelta :: "int \<Rightarrow> int result" where
  "mk_timedelta us = (if \<bar>us div 86400000000\<bar> > timedelta_max_days
     then Inl (OverflowError ''days out of range'') else Inr us)"

text \<open>The pattern \<^verbatim>\<open>^(\d+)([smhd])$\<close> on the whole text: its two groups.\<close>

definition ttl_match :: "string \<Rightarrow> (string \<times> char) option" where
  "ttl_match s = (if s \<noteq> [] \<and> butlast s \<noteq> [] \<and> list_all is_digit (butlast s) \<and> last s \<in> set ''smhd''
     then Some (butlast s, last s) else None)"

definition parse_int_digits :: "string \<Rightarrow> nat result" where
  "parse_int_digits ds = (if length ds > 4300
     then Inl (ValueError ''Exceeds the limit (4300 digits) for integer string conversion'')
     else Inr (read_nat ds))"

definition parse_duration :: "string \<Rightarrow> int result" where
  "parse_duration text = (case ttl_match (strip text) of
      None \<Rightarrow> Inl (ValueError ''invalid ttl duration'')
    | Some (digits, unit) \<Rightarrow> bindR (parse_int_digits digits) (\<lambda>amount.
        if amount = 0 then Inl (ValueError ''ttl duration must be positive'')
        else (case duration_unit unit of
            None \<Rightarrow> Inl (KeyError [unit])
          | Some us \<Rightarrow> mk_timedelta (int amount * us))))"

definition parse_validity_policy :: "string option \<Rightarrow> validity_policy result" where
  "parse_validity_policy text = (case text of
      None \<Rightarrow> mk_validity_policy INDEFINITE None True
    | Some t \<Rightarrow>
        if t = ''indefinite'' then mk_validity_policy INDEFINITE None True
        else if t = ''event_only'' then mk_validity_policy EVENT_ONLY None False
        else if take 4 t = ''ttl:''
        then bindR (parse_duration (drop 4 t)) (\<lambda>ttl. mk_validity_policy TTL (Some ttl) True)
        else Inl (ValueError ''unknown validity policy''))"

section \<open>The registry\<close>

type_synonym registry = "(string \<times> state_definition) list"

definition registry_register :: "state_definition \<Rightarrow> registry \<Rightarrow> registry result" where
  "registry_register d reg = (if map_of reg (sd_key d) \<noteq> None
     then Inl (ValueError (''state definition already registered: '' @ sd_key d))
     else Inr (AList.update (sd_key d) d reg))"

fun register_all :: "state_definition list \<Rightarrow> registry \<Rightarrow> registry result" where
  "register_all [] reg = Inr reg"
| "register_all (d # ds) reg = bindR (registry_register d reg) (register_all ds)"

definition new_registry :: "state_definition list \<Rightarrow> registry result" where
  "new_registry definitions = register_all definitions []"

definition registry_get :: "registry \<Rightarrow> string \<Rightarrow> state_definition option" where
  "registry_get reg key = map_of reg key"

definition registry_require :: "registry \<Rightarrow> string \<Rightarrow> state_definition result" where
  "registry_require reg key = (case map_of reg key of
     None \<Rightarrow> Inl (ValueError (''no state definition registered for '' @ key)) | Some d \<Rightarrow> Inr d)"

definition validity_policy_of :: "registry \<Rightarrow> string \<Rightarrow> validity_policy result" where
  "validity_policy_of reg key = (case map_of reg key of
     None \<Rightarrow> mk_validity_policy INDEFINITE None True
   | Some d \<Rightarrow> parse_validity_policy (sd_default_validity_policy d))"

definition registry_all :: "registry \<Rightarrow> state_definition list" where
  "registry_all reg = map snd reg"

section \<open>Facts\<close>

definition policy_ok :: "validity_policy \<Rightarrow> bool" where
  "policy_ok p \<longleftrightarrow> (case vp_ttl p of
      None \<Rightarrow> vp_kind p \<noteq> TTL
    | Some t \<Rightarrow> vp_kind p = TTL \<and> 0 < t \<and> t < 86400000000 * (timedelta_max_days + 1))"

lemma mk_validity_policy_Inr:
  "mk_validity_policy k t r = Inr p \<longleftrightarrow> p = \<lparr>vp_kind = k, vp_ttl = t, vp_refresh_on_reaffirm = r\<rparr> \<and>
     (case t of None \<Rightarrow> k \<noteq> TTL | Some d \<Rightarrow> k = TTL \<and> 0 < d)"
  by (auto simp: mk_validity_policy_def Let_def guarded_Inr_iff validity_policy_checks_def split: option.splits)

lemma duration_unit_cases:
  "duration_unit c = Some us \<longleftrightarrow> (c, us) \<in> {(CHR ''s'', 1000000), (CHR ''m'', 60000000), (CHR ''h'', 3600000000), (CHR ''d'', 86400000000)}"
  by (auto simp: duration_unit_def split: if_splits)

lemma ttl_match_Some:
  "ttl_match s = Some (ds, u) \<longleftrightarrow> s = ds @ [u] \<and> ds \<noteq> [] \<and> list_all is_digit ds \<and> u \<in> set ''smhd''"
  by (cases s rule: rev_cases) (auto simp: ttl_match_def)

lemma mk_timedelta_pos: "0 < us \<Longrightarrow> mk_timedelta us = Inr t \<longleftrightarrow> t = us \<and> us < 86400000000 * (timedelta_max_days + 1)"
proof -
  assume "0 < us"
  then have "\<bar>us div 86400000000\<bar> = us div 86400000000" by (simp add: pos_imp_zdiv_nonneg_iff)
  then show ?thesis by (auto simp: mk_timedelta_def timedelta_max_days_def)
qed

lemma parse_duration_iff:
  "parse_duration body = Inr t \<longleftrightarrow> (\<exists>ds u us. strip body = ds @ [u] \<and> ds \<noteq> [] \<and> list_all is_digit ds \<and>
     length ds \<le> 4300 \<and> duration_unit u = Some us \<and> 0 < read_nat ds \<and> t = int (read_nat ds) * us \<and>
     t < 86400000000 * (timedelta_max_days + 1))"
proof -
  have unit: "duration_unit u = Some us \<Longrightarrow> 0 < us \<and> u \<in> set ''smhd''" for u us
    by (auto simp: duration_unit_cases)
  have smhd: "u \<in> set ''smhd'' \<Longrightarrow> \<exists>us. duration_unit u = Some us" for u
    by (auto simp: duration_unit_def)
  show ?thesis
  proof (cases "ttl_match (strip body)")
    case None
    have "strip body \<noteq> ds @ [u]" if "ds \<noteq> []" "list_all is_digit ds" "duration_unit u = Some us" for ds u us
      using None that unit [OF that(3)] ttl_match_Some [of "strip body" ds u] by auto
    with None show ?thesis by (auto simp: parse_duration_def)
  next
    case (Some p)
    then obtain ds u where p: "ttl_match (strip body) = Some (ds, u)" by (cases p) auto
    then have body: "strip body = ds @ [u]" "ds \<noteq> []" "list_all is_digit ds" "u \<in> set ''smhd''"
      by (simp_all add: ttl_match_Some)
    from smhd [OF body(4)] obtain us where us: "duration_unit u = Some us" by blast
    have pos: "0 < read_nat ds \<Longrightarrow> 0 < int (read_nat ds) * us" using unit [OF us] by simp
    have "parse_duration body = Inr t \<longleftrightarrow> length ds \<le> 4300 \<and> 0 < read_nat ds \<and>
        t = int (read_nat ds) * us \<and> int (read_nat ds) * us < 86400000000 * (timedelta_max_days + 1)"
      using mk_timedelta_pos [OF pos, of t] by (auto simp: parse_duration_def p us parse_int_digits_def)
    with body us show ?thesis by (auto)
  qed
qed

lemma parse_duration_pos: "parse_duration body = Inr t \<Longrightarrow> 0 < t \<and> t < 86400000000 * (timedelta_max_days + 1)"
  by (auto simp: parse_duration_iff duration_unit_cases)

lemma parse_policy_ok: "parse_validity_policy text = Inr p \<Longrightarrow> policy_ok p"
  by (auto simp: parse_validity_policy_def policy_ok_def bindR_Inr_iff mk_validity_policy_Inr
      dest: parse_duration_pos split: option.splits if_splits)

lemma validity_policy_of_ok: "validity_policy_of reg key = Inr p \<Longrightarrow> policy_ok p"
  by (auto simp: validity_policy_of_def mk_validity_policy_Inr policy_ok_def
      dest: parse_policy_ok split: option.splits)

text \<open>
  C29. The grammar of validity policies, exactly: a policy text is accepted if and only if it is absent,
  \<open>indefinite\<close>, \<open>event_only\<close>, or \<open>ttl:\<close> with a positive decimal number (of at most 4300 digits) and a unit
  that denote a duration below the bound of a timedelta; surrounding white space of the duration is ignored.
  The resulting policy is the one the text names. Every other text raises.
\<close>

theorem validity_policy_grammar:
  "parse_validity_policy raw = Inr p \<longleftrightarrow>
    (raw = None \<and> p = \<lparr>vp_kind = INDEFINITE, vp_ttl = None, vp_refresh_on_reaffirm = True\<rparr>) \<or>
    (raw = Some ''indefinite'' \<and> p = \<lparr>vp_kind = INDEFINITE, vp_ttl = None, vp_refresh_on_reaffirm = True\<rparr>) \<or>
    (raw = Some ''event_only'' \<and> p = \<lparr>vp_kind = EVENT_ONLY, vp_ttl = None, vp_refresh_on_reaffirm = False\<rparr>) \<or>
    (\<exists>body digits u us. raw = Some (''ttl:'' @ body) \<and> strip body = digits @ [u] \<and> digits \<noteq> [] \<and>
       list_all is_digit digits \<and> length digits \<le> 4300 \<and> duration_unit u = Some us \<and> 0 < read_nat digits \<and>
       int (read_nat digits) * us < 86400000000 * (timedelta_max_days + 1) \<and>
       p = \<lparr>vp_kind = TTL, vp_ttl = Some (int (read_nat digits) * us), vp_refresh_on_reaffirm = True\<rparr>)"
proof (cases raw)
  case None
  then show ?thesis by (simp add: parse_validity_policy_def mk_validity_policy_Inr)
next
  case (Some t)
  show ?thesis
  proof (cases "take 4 t = ''ttl:''")
    case True
    then have t: "t = ''ttl:'' @ drop 4 t" by (metis append_take_drop_id)
    then have "t \<noteq> ''indefinite''" "t \<noteq> ''event_only''" using True by auto
    then have "parse_validity_policy raw = Inr p \<longleftrightarrow> (\<exists>d. parse_duration (drop 4 t) = Inr d \<and> 0 < d \<and>
        p = \<lparr>vp_kind = TTL, vp_ttl = Some d, vp_refresh_on_reaffirm = True\<rparr>)"
      by (auto simp: Some True parse_validity_policy_def bindR_Inr_iff mk_validity_policy_Inr)
    also have "\<dots> \<longleftrightarrow> (\<exists>d. parse_duration (drop 4 t) = Inr d \<and>
        p = \<lparr>vp_kind = TTL, vp_ttl = Some d, vp_refresh_on_reaffirm = True\<rparr>)"
      using parse_duration_pos by blast
    finally show ?thesis
      using t \<open>t \<noteq> ''indefinite''\<close> \<open>t \<noteq> ''event_only''\<close>
      by (subst (asm) t) (auto simp: Some parse_duration_iff)
  next
    case False
    then have "t \<noteq> ''ttl:'' @ body" for body by auto
    with Some False show ?thesis by (auto simp: parse_validity_policy_def mk_validity_policy_Inr)
  qed
qed


lemma event_only_policy:
  "validity_policy_of reg key = Inr p \<Longrightarrow> vp_kind p = EVENT_ONLY \<longleftrightarrow>
     p = \<lparr>vp_kind = EVENT_ONLY, vp_ttl = None, vp_refresh_on_reaffirm = False\<rparr>"
  by (auto simp: validity_policy_of_def parse_validity_policy_def bindR_Inr_iff mk_validity_policy_Inr
      split: option.splits if_splits)


end
