(* ===== verification/Observation_Contracts.thy ===== *)
theory Observation_Contracts
  imports Frozen_Value
begin

text \<open>
  The contracts of what was perceived: semantic time and effective windows (\<^verbatim>\<open>contracts/reality.py\<close>)
  and observations (\<^verbatim>\<open>contracts/observation.py\<close>). The enumerations are datatypes, so the coercions
  of a raw string to a member happen where the string is read.
\<close>

section \<open>Semantic time\<close>

datatype observation_modality = ASSERTED | PLANNED | TENTATIVE | ESTIMATED | INFERRED

fun modality_value :: "observation_modality \<Rightarrow> string" where
  "modality_value ASSERTED = ''asserted''"
| "modality_value PLANNED = ''planned''"
| "modality_value TENTATIVE = ''tentative''"
| "modality_value ESTIMATED = ''estimated''"
| "modality_value INFERRED = ''inferred''"

datatype semantic_relation = REL_CURRENT | REL_PAST | REL_FUTURE | REL_UNRESOLVED

fun relation_value :: "semantic_relation \<Rightarrow> string" where
  "relation_value REL_CURRENT = ''current''"
| "relation_value REL_PAST = ''past''"
| "relation_value REL_FUTURE = ''future''"
| "relation_value REL_UNRESOLVED = ''unresolved''"

datatype semantic_precision = PREC_INSTANT | PREC_DAY | PREC_DAYPART | PREC_RANGE | PREC_UNRESOLVED

fun precision_value :: "semantic_precision \<Rightarrow> string" where
  "precision_value PREC_INSTANT = ''instant''"
| "precision_value PREC_DAY = ''day''"
| "precision_value PREC_DAYPART = ''daypart''"
| "precision_value PREC_RANGE = ''range''"
| "precision_value PREC_UNRESOLVED = ''unresolved''"

datatype semantic_daypart = MORNING | AFTERNOON | EVENING | NIGHT

fun daypart_value :: "semantic_daypart \<Rightarrow> string" where
  "daypart_value MORNING = ''morning''"
| "daypart_value AFTERNOON = ''afternoon''"
| "daypart_value EVENING = ''evening''"
| "daypart_value NIGHT = ''night''"

datatype window_kind = POINT | INTERVAL | OPEN_INTERVAL

fun window_kind_value :: "window_kind \<Rightarrow> string" where
  "window_kind_value POINT = ''point''"
| "window_kind_value INTERVAL = ''interval''"
| "window_kind_value OPEN_INTERVAL = ''open_interval''"

record semantic_time =
  sm_relation :: semantic_relation
  sm_precision :: semantic_precision
  sm_daypart :: "semantic_daypart option"

definition semantic_time_checks :: "semantic_time \<Rightarrow> (bool \<times> py_error) list" where
  "semantic_time_checks t =
     (if sm_precision t = PREC_DAYPART
      then [(sm_daypart t = None, ValueError ''DAYPART precision requires daypart to be specified'')]
      else [(sm_daypart t \<noteq> None, ValueError ''non-DAYPART precision cannot have daypart specified'')])"

definition mk_semantic_time :: "semantic_time \<Rightarrow> semantic_time result" where
  "mk_semantic_time t = guarded (semantic_time_checks t) t"

definition default_semantic_time :: semantic_time where
  "default_semantic_time = \<lparr>sm_relation = REL_UNRESOLVED, sm_precision = PREC_UNRESOLVED, sm_daypart = None\<rparr>"

record effective_window =
  ew_kind :: window_kind
  ew_start_at :: datetime
  ew_end_at :: "datetime option"

definition effective_window_checks :: "effective_window \<Rightarrow> (bool \<times> py_error) list" where
  "effective_window_checks w =
     [require_aware_utc (ew_start_at w) ''start_at''] @
     (case ew_end_at w of None \<Rightarrow> [] | Some e \<Rightarrow> [require_aware_utc e ''end_at'']) @
     (case ew_kind w of
        POINT \<Rightarrow> [(ew_end_at w \<noteq> None, ValueError ''POINT window cannot have end_at'')]
      | OPEN_INTERVAL \<Rightarrow> [(ew_end_at w \<noteq> None, ValueError ''OPEN_INTERVAL window cannot have end_at'')]
      | INTERVAL \<Rightarrow>
          [(ew_end_at w = None, ValueError ''INTERVAL window requires end_at''),
           (case ew_end_at w of None \<Rightarrow> False | Some e \<Rightarrow> dt_le e (ew_start_at w),
            ValueError ''INTERVAL window requires start_at < end_at'')])"

definition mk_effective_window :: "effective_window \<Rightarrow> effective_window result" where
  "mk_effective_window w = guarded (effective_window_checks w) w"

section \<open>Observations\<close>

record observation =
  ob_id :: string
  ob_interaction_id :: string
  ob_scope :: scope
  ob_type :: string
  ob_key :: string
  ob_value :: py_value
  ob_confidence :: rat
  ob_observed_at :: datetime
  ob_evidence_refs :: "string list"
  ob_origin_runtime_id :: string
  ob_sync :: sync_fields
  ob_modality :: observation_modality
  ob_semantic_time :: semantic_time
  ob_effective_window :: "effective_window option"

definition observation_head_checks :: "observation \<Rightarrow> (bool \<times> py_error) list" where
  "observation_head_checks ob =
     [require_non_empty (ob_id ob) ''id'',
      require_non_empty (ob_interaction_id ob) ''interaction_id'',
      require_non_empty (ob_origin_runtime_id ob) ''origin_runtime_id'',
      require_non_empty (ob_type ob) ''type'',
      require_non_empty (ob_key ob) ''key'',
      (\<not> (0 \<le> ob_confidence ob \<and> ob_confidence ob \<le> 1), ValueError ''confidence must be in [0, 1]''),
      require_aware_utc (ob_observed_at ob) ''observed_at'']"

definition observation_tail_checks :: "observation \<Rightarrow> (bool \<times> py_error) list" where
  "observation_tail_checks ob =
     map (\<lambda>r. require_non_empty r ''evidence_refs entries'') (ob_evidence_refs ob) @
     validate_sync_fields (ob_sync ob) (ob_scope ob) (ob_origin_runtime_id ob) (ob_id ob) None @
     [(ob_effective_window ob \<noteq> None \<and>
         (sm_relation (ob_semantic_time ob) = REL_UNRESOLVED \<or>
          sm_precision (ob_semantic_time ob) = PREC_UNRESOLVED),
       ValueError ''UNRESOLVED temporal semantics cannot have absolute effective window bounds'')]"

definition mk_observation :: "observation \<Rightarrow> observation result" where
  "mk_observation ob = bindR (guarded (observation_head_checks ob) ob) (\<lambda>ob.
     bindR (freeze_value ''value'' (ob_value ob)) (\<lambda>v.
     guarded (observation_tail_checks ob) (ob\<lparr>ob_value := v\<rparr>)))"

definition observation_valid :: "observation \<Rightarrow> bool" where
  "observation_valid ob \<longleftrightarrow> scope_valid (ob_scope ob) \<and> all_clear (observation_head_checks ob) \<and>
     frozen (ob_value ob) \<and> all_clear (observation_tail_checks ob)"

lemma observation_valid_parts:
  assumes "observation_valid ob"
  shows "scope_valid (ob_scope ob)" and "is_aware_utc (ob_observed_at ob)" and "frozen (ob_value ob)"
    and "list_all non_empty (ob_evidence_refs ob)" and "non_empty (ob_origin_runtime_id ob)"
  using assms by (auto simp: observation_valid_def observation_head_checks_def observation_tail_checks_def)

end
