(* ===== verification/State_Reconciler.thy ===== *)
theory State_Reconciler
  imports State_Definitions Observation_Contracts
begin

text \<open>
  The canonical state reconciler (\<^verbatim>\<open>state/reconciler.py\<close>): the interpretation of observations as
  typed state intents, the construction of every successor record, and one reconcile pass: the
  snapshot, the validity pass, then each intent in order. The pass works on local dictionaries only, so
  an exception anywhere leaves nothing behind and the whole pass is a result. The clock's instant
  \<open>now\<close> and the definitions registry are arguments.
\<close>

section \<open>Intents\<close>

record state_intent =
  si_dimension :: string
  si_value :: py_value
  si_observed_at :: datetime
  si_scope :: scope
  si_origin_runtime_id :: string
  si_evidence_refs :: "string list"
  si_lifecycle :: "state_lifecycle option"

definition value_suffix :: string where
  "value_suffix = ''observed''"

definition terminal_suffixes :: "string list" where
  "terminal_suffixes = map lifecycle_status [CANCELLED, COMPLETED, RESOLVED]"

definition state_domains :: "string list" where
  "state_domains = [''user'', ''agent'', ''relationship'', ''interaction'']"

definition interpret_observation :: "observation \<Rightarrow> state_intent option" where
  "interpret_observation ob = (case rpartition_at CHR ''.'' (ob_key ob) of (dimension, separator, suffix) \<Rightarrow>
     if separator = [] \<or> dimension = [] \<or> suffix \<notin> set (value_suffix # terminal_suffixes) then None
     else (case partition_at CHR ''.'' dimension of (prefix, dot, name) \<Rightarrow>
       if dot = [] \<or> name = [] \<or> prefix \<notin> set state_domains then None
       else Some \<lparr>si_dimension = dimension, si_value = ob_value ob, si_observed_at = ob_observed_at ob,
          si_scope = ob_scope ob, si_origin_runtime_id = ob_origin_runtime_id ob,
          si_evidence_refs = ob_evidence_refs ob,
          si_lifecycle = (if suffix = value_suffix then None else coerce_lifecycle suffix)\<rparr>))"

definition has_legal_terminal_target :: "runtime_state \<Rightarrow> string \<Rightarrow> bool" where
  "has_legal_terminal_target state operation \<longleftrightarrow> is_current_like (rs_status state) \<or> rs_status state = operation"

section \<open>Records\<close>

definition transition_record :: "runtime_state \<Rightarrow> runtime_state \<Rightarrow> datetime \<Rightarrow> state_transition result" where
  "transition_record from_state to_state now = (let transition_id = ''transition:'' @ rs_state_id to_state in
     mk_state_transition
       \<lparr>tr_transition_id = transition_id, tr_scope = rs_scope from_state,
        tr_origin_runtime_id = rs_origin_runtime_id to_state,
        tr_intent_id = ''intent:'' @ rs_state_id to_state, tr_from_state = from_state,
        tr_to_state = to_state, tr_committed_at = now,
        tr_sync = mk_sync (rs_scope from_state) (rs_origin_runtime_id to_state) transition_id 1
          (idem_of transition_id)\<rparr>)"

text \<open>The envelope of a policy from \<open>now\<close>: \<^verbatim>\<open>now + policy.ttl\<close>, or the given bound.\<close>

definition envelope_until :: "validity_policy \<Rightarrow> datetime \<Rightarrow> datetime option \<Rightarrow> datetime option result" where
  "envelope_until policy now otherwise = (if vp_kind policy = TTL
     then (case vp_ttl policy of
         None \<Rightarrow> Inl (AssertionError '''')
       | Some ttl \<Rightarrow> bindR (dt_add now ttl) (\<lambda>t. Inr (Some t)))
     else Inr otherwise)"

definition fresh_state :: "registry \<Rightarrow> scope \<Rightarrow> state_intent \<Rightarrow> datetime \<Rightarrow> int \<Rightarrow> datetime \<Rightarrow> runtime_state result" where
  "fresh_state reg sc i now version valid_from =
     bindR (validity_policy_of reg (si_dimension i)) (\<lambda>policy.
     bindR (envelope_until policy now None) (\<lambda>valid_until.
     let state_id = canonical_state_id (si_dimension i) version in
     mk_runtime_state
       \<lparr>rs_state_id = state_id, rs_scope = sc, rs_dimension = si_dimension i, rs_value = si_value i,
        rs_status = lifecycle_status ACTIVE, rs_valid_from = valid_from, rs_valid_until = valid_until,
        rs_relevant_until = None, rs_last_observed_at = now, rs_evidence_refs = si_evidence_refs i,
        rs_transition_refs = [], rs_updated_at = now, rs_origin_runtime_id = si_origin_runtime_id i,
        rs_version = version,
        rs_sync = mk_sync sc (si_origin_runtime_id i) state_id version (idem_of state_id)\<rparr>))"

definition terminal_record :: "runtime_state \<Rightarrow> state_lifecycle \<Rightarrow> state_intent \<Rightarrow> datetime \<Rightarrow> runtime_state result" where
  "terminal_record state lifecycle i now =
     (let version = rs_version state + 1; state_id = canonical_state_id (rs_dimension state) version in
     mk_runtime_state
       \<lparr>rs_state_id = state_id, rs_scope = rs_scope state, rs_dimension = rs_dimension state,
        rs_value = rs_value state, rs_status = lifecycle_status lifecycle,
        rs_valid_from = rs_valid_from state, rs_valid_until = rs_valid_until state,
        rs_relevant_until = rs_relevant_until state, rs_last_observed_at = now,
        rs_evidence_refs = rs_evidence_refs state @ si_evidence_refs i,
        rs_transition_refs = rs_transition_refs state, rs_updated_at = now,
        rs_origin_runtime_id = rs_origin_runtime_id state, rs_version = version,
        rs_sync = mk_sync (rs_scope state) (rs_origin_runtime_id state) state_id version (idem_of state_id)\<rparr>)"

definition refresh_state :: "runtime_state \<Rightarrow> state_intent \<Rightarrow> validity_policy \<Rightarrow> datetime \<Rightarrow> runtime_state result" where
  "refresh_state state i policy now =
     (let version = rs_version state + 1; state_id = canonical_state_id (rs_dimension state) version in
     bindR (envelope_until policy now (rs_valid_until state)) (\<lambda>valid_until.
     mk_runtime_state
       \<lparr>rs_state_id = state_id, rs_scope = rs_scope state, rs_dimension = rs_dimension state,
        rs_value = rs_value state, rs_status = rs_status state,
        rs_valid_from = rs_valid_from state, rs_valid_until = valid_until,
        rs_relevant_until = rs_relevant_until state, rs_last_observed_at = now,
        rs_evidence_refs = rs_evidence_refs state @ si_evidence_refs i,
        rs_transition_refs = rs_transition_refs state, rs_updated_at = now,
        rs_origin_runtime_id = rs_origin_runtime_id state, rs_version = version,
        rs_sync = mk_sync (rs_scope state) (rs_origin_runtime_id state) state_id version (idem_of state_id)\<rparr>))"

section \<open>One intent against one state\<close>

type_synonym reconciled = "runtime_state \<times> state_transition list"

definition create_state :: "registry \<Rightarrow> state_intent \<Rightarrow> datetime \<Rightarrow> runtime_state result" where
  "create_state reg i now = fresh_state reg (si_scope i) i now 1 now"

definition fresh_after :: "registry \<Rightarrow> runtime_state \<Rightarrow> state_intent \<Rightarrow> datetime \<Rightarrow> reconciled result" where
  "fresh_after reg current i now =
     bindR (fresh_state reg (rs_scope current) i now (rs_version current + 1) now) (\<lambda>fresh.
     bindR (transition_record current fresh now) (\<lambda>t. Inr (fresh, [t])))"

definition supersede :: "registry \<Rightarrow> runtime_state \<Rightarrow> state_intent \<Rightarrow> datetime \<Rightarrow> reconciled result" where
  "supersede reg current i now =
     bindR (terminal_record current SUPERSEDED i now) (\<lambda>superseded.
     bindR (fresh_state reg (rs_scope current) i now (rs_version superseded + 1) now) (\<lambda>fresh.
     bindR (transition_record current superseded now) (\<lambda>t1.
     bindR (transition_record superseded fresh now) (\<lambda>t2. Inr (fresh, [t1, t2])))))"

definition apply_terminal :: "runtime_state \<Rightarrow> state_intent \<Rightarrow> datetime \<Rightarrow> reconciled result" where
  "apply_terminal current i now = (case si_lifecycle i of
      None \<Rightarrow> Inl (AssertionError '''')
    | Some lifecycle \<Rightarrow>
        if state_is_terminal (rs_status current) then
          if rs_status current = lifecycle_status lifecycle then Inr (current, [])
          else Inl (ValueError (''illegal terminal transition '' @ rs_status current @ '' -> '' @
            lifecycle_status lifecycle))
        else
          bindR (terminal_record current lifecycle i now) (\<lambda>terminal.
          bindR (transition_record current terminal now) (\<lambda>t. Inr (terminal, [t]))))"

definition reconcile_state :: "registry \<Rightarrow> runtime_state \<Rightarrow> state_intent \<Rightarrow> datetime \<Rightarrow> reconciled result" where
  "reconcile_state reg current i now =
     (if si_lifecycle i \<noteq> None then apply_terminal current i now
      else if state_is_terminal (rs_status current) then fresh_after reg current i now
      else if \<not> is_current_like (rs_status current) then
        (if is_known_lifecycle (rs_status current) then fresh_after reg current i now
         else Inl (ValueError (''opaque status '' @ rs_status current @ '' cannot be reconciled'')))
      else if py_eq (si_value i) (rs_value current) then
        bindR (validity_policy_of reg (rs_dimension current)) (\<lambda>policy.
          if vp_kind policy = EVENT_ONLY then Inr (current, [])
          else
            bindR (refresh_state current i policy now) (\<lambda>refreshed.
            bindR (transition_record current refreshed now) (\<lambda>t. Inr (refreshed, [t]))))
      else supersede reg current i now)"

section \<open>A reconcile pass\<close>

type_synonym state_key = "scope \<times> string"

record snapshot =
  sn_currents :: "(state_key \<times> runtime_state) list"
  sn_order :: "state_key list"
  sn_transitions :: "state_transition list"
  sn_deferred :: "state_intent list"

definition empty_snapshot :: snapshot where
  "empty_snapshot = \<lparr>sn_currents = [], sn_order = [], sn_transitions = [], sn_deferred = []\<rparr>"

abbreviation state_key_of :: "runtime_state \<Rightarrow> state_key" where
  "state_key_of s \<equiv> (rs_scope s, rs_dimension s)"

abbreviation intent_key :: "state_intent \<Rightarrow> state_key" where
  "intent_key i \<equiv> (si_scope i, si_dimension i)"

text \<open>The latest record of each key; a later occurrence wins, the first one fixes the place.\<close>

fun load_snapshot :: "runtime_state list \<Rightarrow> snapshot \<Rightarrow> snapshot" where
  "load_snapshot [] sn = sn"
| "load_snapshot (s # ss) sn = (let key = state_key_of s in load_snapshot ss (sn
     \<lparr>sn_order := (if map_of (sn_currents sn) key = None then sn_order sn @ [key] else sn_order sn),
      sn_currents := AList.update key s (sn_currents sn)\<rparr>))"

fun validity_pass :: "datetime \<Rightarrow> state_key list \<Rightarrow> snapshot \<Rightarrow> snapshot result" where
  "validity_pass now [] sn = Inr sn"
| "validity_pass now (key # ks) sn = (case map_of (sn_currents sn) key of
      None \<Rightarrow> Inl (KeyError ''key'')
    | Some current \<Rightarrow>
        bindR (evaluate_validity current now) (\<lambda>outcome.
        if vo_changed outcome then
          bindR (transition_record current (vo_state outcome) now) (\<lambda>t.
          validity_pass now ks (sn\<lparr>sn_currents := AList.update key (vo_state outcome) (sn_currents sn),
            sn_transitions := sn_transitions sn @ [t]\<rparr>))
        else validity_pass now ks sn))"

definition apply_state_intent :: "registry \<Rightarrow> datetime \<Rightarrow> state_intent \<Rightarrow> snapshot \<Rightarrow> snapshot result" where
  "apply_state_intent reg now i sn = (let key = intent_key i in
     case map_of (sn_currents sn) key of
       None \<Rightarrow>
         bindR (create_state reg i now) (\<lambda>fresh.
         Inr (sn\<lparr>sn_currents := AList.update key fresh (sn_currents sn), sn_order := sn_order sn @ [key]\<rparr>))
     | Some current \<Rightarrow>
         bindR (compare_dt dt_less (si_observed_at i) (rs_last_observed_at current)) (\<lambda>stale.
         if stale then Inr (sn\<lparr>sn_deferred := sn_deferred sn @ [i]\<rparr>)
         else
           bindR (reconcile_state reg current i now) (\<lambda>(new_state, new_transitions).
           Inr (sn\<lparr>sn_currents := AList.update key new_state (sn_currents sn),
             sn_transitions := sn_transitions sn @ new_transitions\<rparr>))))"

fun apply_state_intents :: "registry \<Rightarrow> datetime \<Rightarrow> state_intent list \<Rightarrow> snapshot \<Rightarrow> snapshot result" where
  "apply_state_intents reg now [] sn = Inr sn"
| "apply_state_intents reg now (i # is) sn =
     bindR (apply_state_intent reg now i sn) (apply_state_intents reg now is)"

record reconcile_result =
  rr_canonical :: "runtime_state list"
  rr_transitions :: "state_transition list"
  rr_effective :: "runtime_state list"
  rr_deferred :: "state_intent list"

definition reconcile_apply ::
  "registry \<Rightarrow> datetime \<Rightarrow> runtime_state list \<Rightarrow> state_intent list \<Rightarrow> reconcile_result result" where
  "reconcile_apply reg now canonical intents = (let sn = load_snapshot canonical empty_snapshot in
     bindR (validity_pass now (sn_order sn) sn) (\<lambda>sn.
     bindR (apply_state_intents reg now intents sn) (\<lambda>sn.
     bindR (mapR (\<lambda>key. case map_of (sn_currents sn) key of None \<Rightarrow> Inl (KeyError ''key'') | Some s \<Rightarrow> Inr s)
       (sn_order sn)) (\<lambda>effective.
     Inr \<lparr>rr_canonical = effective, rr_transitions = sn_transitions sn, rr_effective = effective,
       rr_deferred = sn_deferred sn\<rparr>))))"

definition effective_for :: "reconcile_result \<Rightarrow> string \<Rightarrow> scope \<Rightarrow> runtime_state option" where
  "effective_for r dimension sc = find (\<lambda>s. rs_dimension s = dimension \<and> rs_scope s = sc) (rr_effective r)"


section \<open>Successor records\<close>

definition intent_ok :: "state_intent \<Rightarrow> bool" where
  "intent_ok i \<longleftrightarrow> scope_valid (si_scope i) \<and> dimension_ok (si_scope i) (si_dimension i) \<and>
     list_all non_empty (si_evidence_refs i) \<and> non_empty (si_origin_runtime_id i) \<and>
     is_aware_utc (si_observed_at i) \<and> frozen (si_value i)"

lemma mk_state_fields:
  assumes "mk_runtime_state s = Inr t" and "scope_valid (rs_scope s)"
  shows "runtime_state_valid t" and "rs_state_id t = rs_state_id s" and "rs_scope t = rs_scope s"
    and "rs_dimension t = rs_dimension s" and "rs_status t = rs_status s" and "rs_version t = rs_version s"
    and "rs_valid_until t = rs_valid_until s" and "rs_last_observed_at t = rs_last_observed_at s"
    and "rs_origin_runtime_id t = rs_origin_runtime_id s" and "frozen (rs_value s) \<Longrightarrow> rs_value t = rs_value s"
    and "rs_evidence_refs t = rs_evidence_refs s" and "rs_valid_from t = rs_valid_from s"
proof -
  from mk_runtime_state_valid [OF assms] show "runtime_state_valid t" by simp
  from mk_runtime_state_valid(2) [OF assms] obtain v where t: "t = s\<lparr>rs_value := v\<rparr>" by blast
  then show "rs_state_id t = rs_state_id s" "rs_scope t = rs_scope s"
    "rs_dimension t = rs_dimension s" "rs_status t = rs_status s" "rs_version t = rs_version s"
    "rs_valid_until t = rs_valid_until s" "rs_last_observed_at t = rs_last_observed_at s"
    "rs_origin_runtime_id t = rs_origin_runtime_id s" "rs_evidence_refs t = rs_evidence_refs s"
    "rs_valid_from t = rs_valid_from s" by simp_all
  assume "frozen (rs_value s)"
  then show "rs_value t = rs_value s" using assms(1)
    by (auto simp: mk_runtime_state_def bindR_Inr_iff guarded_Inr_iff freeze_frozen)
qed

lemma fresh_state_Inr:
  assumes "fresh_state reg sc i now v vf = Inr t" and "scope_valid sc"
  shows "runtime_state_valid t" and "rs_scope t = sc" and "rs_dimension t = si_dimension i"
    and "rs_version t = v" and "rs_state_id t = canonical_state_id (si_dimension i) v"
    and "rs_status t = lifecycle_status ACTIVE" and "rs_last_observed_at t = now"
    and "rs_origin_runtime_id t = si_origin_runtime_id i"
    and "frozen (si_value i) \<Longrightarrow> rs_value t = si_value i"
proof -
  from assms(1) obtain u where "mk_runtime_state
       \<lparr>rs_state_id = canonical_state_id (si_dimension i) v, rs_scope = sc, rs_dimension = si_dimension i,
        rs_value = si_value i, rs_status = lifecycle_status ACTIVE, rs_valid_from = vf, rs_valid_until = u,
        rs_relevant_until = None, rs_last_observed_at = now, rs_evidence_refs = si_evidence_refs i,
        rs_transition_refs = [], rs_updated_at = now, rs_origin_runtime_id = si_origin_runtime_id i,
        rs_version = v, rs_sync = mk_sync sc (si_origin_runtime_id i) (canonical_state_id (si_dimension i) v) v
          (idem_of (canonical_state_id (si_dimension i) v))\<rparr> = Inr t"
    by (auto simp: fresh_state_def bindR_Inr_iff Let_def)
  note fields = mk_state_fields [OF this, simplified, OF assms(2)]
  from fields show "runtime_state_valid t" "rs_scope t = sc" "rs_dimension t = si_dimension i"
    "rs_version t = v" "rs_state_id t = canonical_state_id (si_dimension i) v"
    "rs_status t = lifecycle_status ACTIVE" "rs_last_observed_at t = now"
    "rs_origin_runtime_id t = si_origin_runtime_id i" by simp_all
  from fields show "frozen (si_value i) \<Longrightarrow> rs_value t = si_value i" by simp
qed

lemma terminal_record_Inr:
  assumes "terminal_record s l i now = Inr t" and "scope_valid (rs_scope s)"
  shows "runtime_state_valid t" and "next_record s t" and "rs_status t = lifecycle_status l"
    and "rs_last_observed_at t = now" and "frozen (rs_value s) \<Longrightarrow> rs_value t = rs_value s"
    and "rs_origin_runtime_id t = rs_origin_runtime_id s"
    and "rs_evidence_refs t = rs_evidence_refs s @ si_evidence_refs i"
  using mk_state_fields [OF assms(1) [unfolded terminal_record_def Let_def], simplified, OF assms(2)]
  by (simp_all add: next_record_def)

lemma refresh_state_Inr:
  assumes "refresh_state s i p now = Inr t" and "scope_valid (rs_scope s)"
  shows "runtime_state_valid t" and "next_record s t" and "rs_status t = rs_status s"
    and "rs_last_observed_at t = now" and "frozen (rs_value s) \<Longrightarrow> rs_value t = rs_value s"
    and "rs_origin_runtime_id t = rs_origin_runtime_id s"
    and "envelope_until p now (rs_valid_until s) = Inr (rs_valid_until t)"
    and "rs_evidence_refs t = rs_evidence_refs s @ si_evidence_refs i"
proof -
  from assms(1) obtain u where u: "envelope_until p now (rs_valid_until s) = Inr u" and "mk_runtime_state
       \<lparr>rs_state_id = canonical_state_id (rs_dimension s) (rs_version s + 1), rs_scope = rs_scope s,
        rs_dimension = rs_dimension s, rs_value = rs_value s, rs_status = rs_status s,
        rs_valid_from = rs_valid_from s, rs_valid_until = u,
        rs_relevant_until = rs_relevant_until s, rs_last_observed_at = now,
        rs_evidence_refs = rs_evidence_refs s @ si_evidence_refs i,
        rs_transition_refs = rs_transition_refs s, rs_updated_at = now,
        rs_origin_runtime_id = rs_origin_runtime_id s, rs_version = rs_version s + 1,
        rs_sync = mk_sync (rs_scope s) (rs_origin_runtime_id s)
          (canonical_state_id (rs_dimension s) (rs_version s + 1)) (rs_version s + 1)
          (idem_of (canonical_state_id (rs_dimension s) (rs_version s + 1)))\<rparr> = Inr t"
    by (auto simp: refresh_state_def bindR_Inr_iff Let_def)
  from mk_state_fields [OF this(2), simplified, OF assms(2)] u
  show "runtime_state_valid t" "next_record s t" "rs_status t = rs_status s"
    "rs_last_observed_at t = now" "frozen (rs_value s) \<Longrightarrow> rs_value t = rs_value s"
    "rs_origin_runtime_id t = rs_origin_runtime_id s"
    "envelope_until p now (rs_valid_until s) = Inr (rs_valid_until t)"
    "rs_evidence_refs t = rs_evidence_refs s @ si_evidence_refs i"
    by (simp_all add: next_record_def)
qed

lemma transition_record_Inr:
  assumes "transition_record a b now = Inr t"
  shows "tr_from_state t = a" and "tr_to_state t = b" and "tr_scope t = rs_scope a"
    and "state_transition_valid t" and "tr_transition_id t = ''transition:'' @ rs_state_id b"
    and "tr_committed_at t = now"
  using assms by (auto simp: transition_record_def Let_def mk_state_transition_def guarded_Inr_iff
      state_transition_valid_def)

lemma transition_record_next:
  assumes "runtime_state_valid a" and "runtime_state_valid b" and "next_record a b" and "is_aware_utc now"
  obtains t where "transition_record a b now = Inr t"
proof -
  have "non_empty (''transition:'' @ rs_state_id b)" "non_empty (''intent:'' @ rs_state_id b)"
    by (simp_all add: non_empty_append non_empty_Cons is_space_def)
  with assms show thesis
    by (intro that) (simp add: transition_record_def Let_def mk_state_transition_def guarded_clear
        state_transition_checks_def next_record_def valid_state)
qed


section \<open>Histories of one dimension\<close>

text \<open>A chain of committed transitions: each starts at the record the previous one ended in, and
  each step is the next version of the same dimension in the same scope.\<close>

fun state_chain :: "runtime_state \<Rightarrow> state_transition list \<Rightarrow> runtime_state \<Rightarrow> bool" where
  "state_chain s [] t \<longleftrightarrow> s = t"
| "state_chain s (x # xs) t \<longleftrightarrow> tr_from_state x = s \<and> next_record s (tr_to_state x) \<and>
     tr_scope x = rs_scope s \<and> state_transition_valid x \<and> runtime_state_valid (tr_to_state x) \<and> state_chain (tr_to_state x) xs t"

lemma state_chain_append:
  "state_chain s (xs @ ys) t \<longleftrightarrow> (\<exists>u. state_chain s xs u \<and> state_chain u ys t)"
  by (induction xs arbitrary: s) auto

lemma state_chain_version: "state_chain s ts t \<Longrightarrow> rs_version t = rs_version s + int (length ts)"
  by (induction ts arbitrary: s) (auto simp: next_record_def)

lemma state_chain_key: "state_chain s ts t \<Longrightarrow> state_key_of t = state_key_of s"
  by (induction ts arbitrary: s) (auto simp: next_record_def)

abbreviation transition_key :: "state_transition \<Rightarrow> state_key" where
  "transition_key t \<equiv> (tr_scope t, rs_dimension (tr_from_state t))"

lemma state_chain_keys: "state_chain s ts t \<Longrightarrow> x \<in> set ts \<Longrightarrow> transition_key x = state_key_of s"
  by (induction ts arbitrary: s) (auto simp: next_record_def)

lemma state_chain_filter:
  "state_chain s ts t \<Longrightarrow> filter (\<lambda>x. transition_key x = k) ts = (if k = state_key_of s then ts else [])"
  using state_chain_keys by (fastforce intro!: filter_True filter_False)

lemma chain_step: "transition_record a b now = Inr x \<Longrightarrow> next_record a b \<Longrightarrow> runtime_state_valid b \<Longrightarrow>
    state_chain a [x] b"
  using transition_record_Inr [of a b now x] by simp

lemma valid_state_scope: "runtime_state_valid s \<Longrightarrow> scope_valid (rs_scope s)"
  by (simp add: runtime_state_valid_def)

text \<open>What one intent does to one state, whatever the policies: the new record is valid, is reached
  by a chain of at most two transitions, and is observed no earlier than the pass.\<close>

definition reconciled_ok :: "datetime \<Rightarrow> runtime_state \<Rightarrow> reconciled \<Rightarrow> bool" where
  "reconciled_ok now s r \<longleftrightarrow> runtime_state_valid (fst r) \<and> state_chain s (snd r) (fst r) \<and>
     (fst r = s \<or> rs_last_observed_at (fst r) = now) \<and> length (snd r) \<le> 2"

lemma reconciled_okI:
  "runtime_state_valid t \<Longrightarrow> state_chain s ts t \<Longrightarrow> t = s \<or> rs_last_observed_at t = now \<Longrightarrow> length ts \<le> 2 \<Longrightarrow>
     reconciled_ok now s (t, ts)"
  by (simp add: reconciled_ok_def)

lemma fresh_after_ok:
  assumes "fresh_after reg s i now = Inr r" and "runtime_state_valid s" and "intent_key i = state_key_of s"
  shows "reconciled_ok now s r"
proof -
  from assms(1) obtain t x where r: "r = (t, [x])" and x: "transition_record s t now = Inr x"
    and t: "fresh_state reg (rs_scope s) i now (rs_version s + 1) now = Inr t"
    by (auto simp: fresh_after_def bindR_Inr_iff)
  note f = fresh_state_Inr [OF t valid_state_scope [OF assms(2)]]
  with assms(3) have "next_record s t" by (simp add: next_record_def)
  with f chain_step [OF x] r show ?thesis by (auto intro!: reconciled_okI)
qed

lemma supersede_ok:
  assumes "supersede reg s i now = Inr r" and "runtime_state_valid s" and "intent_key i = state_key_of s"
  shows "reconciled_ok now s r"
proof -
  from assms(1) obtain u t x y where r: "r = (t, [x, y])"
    and u: "terminal_record s SUPERSEDED i now = Inr u"
    and t: "fresh_state reg (rs_scope s) i now (rs_version u + 1) now = Inr t"
    and x: "transition_record s u now = Inr x" and y: "transition_record u t now = Inr y"
    by (auto simp: supersede_def bindR_Inr_iff)
  note sc = valid_state_scope [OF assms(2)]
  note f = fresh_state_Inr [OF t sc] and g = terminal_record_Inr [OF u sc]
  from f g assms(3) have "next_record u t" by (simp add: next_record_def)
  with chain_step [OF x g(2,1)] chain_step [OF y] f(1) have "state_chain s [x, y] t" by auto
  with f r show ?thesis by (auto intro!: reconciled_okI)
qed

lemma apply_terminal_ok:
  assumes "apply_terminal s i now = Inr r" and "runtime_state_valid s"
  shows "reconciled_ok now s r"
proof (cases "r = (s, [])")
  case True
  with assms(2) show ?thesis by (simp add: reconciled_ok_def)
next
  case False
  with assms(1) obtain l t x where r: "r = (t, [x])" and t: "terminal_record s l i now = Inr t"
    and x: "transition_record s t now = Inr x"
    by (auto simp: apply_terminal_def bindR_Inr_iff split: option.splits if_splits)
  note f = terminal_record_Inr [OF t valid_state_scope [OF assms(2)]]
  with chain_step [OF x f(2,1)] r show ?thesis by (auto intro!: reconciled_okI)
qed

lemma refresh_ok:
  assumes "refresh_state s i p now = Inr t" and "transition_record s t now = Inr x" and "runtime_state_valid s"
  shows "reconciled_ok now s (t, [x])"
proof -
  note f = refresh_state_Inr [OF assms(1) valid_state_scope [OF assms(3)]]
  with chain_step [OF assms(2) f(2,1)] show ?thesis by (auto intro!: reconciled_okI)
qed

lemma reconcile_state_ok:
  assumes "reconcile_state reg s i now = Inr r" and "runtime_state_valid s" and "intent_key i = state_key_of s"
  shows "reconciled_ok now s r"
proof -
  have kept: "reconciled_ok now s (s, [])" using assms(2) by (simp add: reconciled_ok_def)
  from assms(1) consider "apply_terminal s i now = Inr r" | "fresh_after reg s i now = Inr r"
    | "r = (s, [])" | p t x where "refresh_state s i p now = Inr t" "transition_record s t now = Inr x" "r = (t, [x])"
    | "supersede reg s i now = Inr r"
    by (auto simp: reconcile_state_def bindR_Inr_iff split: if_splits)
  then show ?thesis
    using fresh_after_ok supersede_ok apply_terminal_ok refresh_ok kept assms(2,3) by cases auto
qed


section \<open>The snapshot invariant\<close>

text \<open>The latest record of a key in a canonical snapshot: the last one listed.\<close>

definition latest :: "runtime_state list \<Rightarrow> state_key \<Rightarrow> runtime_state option" where
  "latest states k = map_of (rev (map (\<lambda>s. (state_key_of s, s)) states)) k"

lemma latest_simps:
  "latest [] k = None"
  "latest (s # ss) k = (case latest ss k of None \<Rightarrow> if k = state_key_of s then Some s else None | Some t \<Rightarrow> Some t)"
  by (simp_all add: latest_def map_add_def split: option.splits)

lemma latest_Some: "latest ss k = Some s \<Longrightarrow> s \<in> set ss \<and> state_key_of s = k"
  by (induction ss) (auto simp: latest_simps split: option.splits if_splits)

lemma latest_None: "latest ss k = None \<longleftrightarrow> k \<notin> state_key_of ` set ss"
  by (induction ss) (auto simp: latest_simps split: option.splits if_splits)

definition created_record :: "runtime_state \<Rightarrow> bool" where
  "created_record s \<longleftrightarrow> runtime_state_valid s \<and> rs_version s = 1 \<and> rs_status s = lifecycle_status ACTIVE"

definition has_history :: "runtime_state option \<Rightarrow> state_transition list \<Rightarrow> runtime_state \<Rightarrow> bool" where
  "has_history base ts s \<longleftrightarrow> (case base of
      Some s0 \<Rightarrow> state_chain s0 ts s
    | None \<Rightarrow> \<exists>s0. created_record s0 \<and> state_chain s0 ts s)"

lemma has_history_extend: "has_history b ts s \<Longrightarrow> state_chain s us t \<Longrightarrow> has_history b (ts @ us) t"
  by (auto simp: has_history_def state_chain_append split: option.splits)

definition keyed_transitions :: "state_key \<Rightarrow> state_transition list \<Rightarrow> state_transition list" where
  "keyed_transitions k ts = filter (\<lambda>x. transition_key x = k) ts"

lemma keyed_append [simp]: "keyed_transitions k (xs @ ys) = keyed_transitions k xs @ keyed_transitions k ys"
  by (simp add: keyed_transitions_def)

lemma keyed_chain: "state_chain s ts t \<Longrightarrow> keyed_transitions k ts = (if k = state_key_of s then ts else [])"
  by (simp add: keyed_transitions_def state_chain_filter)

definition snapshot_ok :: "(state_key \<Rightarrow> runtime_state option) \<Rightarrow> snapshot \<Rightarrow> bool" where
  "snapshot_ok base sn \<longleftrightarrow>
     distinct (sn_order sn) \<and> sn_order sn = map fst (sn_currents sn) \<and>
     (\<forall>k s. map_of (sn_currents sn) k = Some s \<longrightarrow> state_key_of s = k \<and> runtime_state_valid s \<and>
        has_history (base k) (keyed_transitions k (sn_transitions sn)) s) \<and>
     (\<forall>k. base k \<noteq> None \<longrightarrow> map_of (sn_currents sn) k \<noteq> None) \<and>
     (\<forall>x \<in> set (sn_transitions sn). map_of (sn_currents sn) (transition_key x) \<noteq> None)"

lemma snapshot_ok_current:
  assumes "snapshot_ok base sn" and "map_of (sn_currents sn) k = Some s"
  shows "state_key_of s = k" and "runtime_state_valid s"
    and "has_history (base k) (keyed_transitions k (sn_transitions sn)) s"
  using assms unfolding snapshot_ok_def by blast+

lemma update_keys_in: "map_of xs k \<noteq> None \<Longrightarrow> map fst (AList.update k v xs) = map fst xs"
  by (simp add: update_keys map_of_eq_None_iff)

lemma update_keys_new: "map_of xs k = None \<Longrightarrow> map fst (AList.update k v xs) = map fst xs @ [k]"
  by (simp add: update_keys map_of_eq_None_iff)

lemma load_snapshot_spec:
  "sn_transitions (load_snapshot ss sn) = sn_transitions sn"
  "sn_deferred (load_snapshot ss sn) = sn_deferred sn"
  "map_of (sn_currents (load_snapshot ss sn)) k = (case latest ss k of None \<Rightarrow> map_of (sn_currents sn) k | Some s \<Rightarrow> Some s)"
  by (induction ss arbitrary: sn) (simp_all add: Let_def latest_simps split: option.splits)

lemma load_snapshot_order:
  "sn_order sn = map fst (sn_currents sn) \<Longrightarrow> distinct (sn_order sn) \<Longrightarrow>
    sn_order (load_snapshot ss sn) = map fst (sn_currents (load_snapshot ss sn)) \<and>
    distinct (sn_order (load_snapshot ss sn))"
proof (induction ss arbitrary: sn)
  case (Cons s ss)
  show ?case unfolding load_snapshot.simps Let_def
    by (rule Cons.IH) (use Cons.prems in \<open>auto simp: update_keys_in update_keys_new map_of_eq_None_iff image_iff\<close>)
qed simp

lemma load_snapshot_empty:
  "sn_transitions (load_snapshot ss empty_snapshot) = []" "sn_deferred (load_snapshot ss empty_snapshot) = []"
  "map_of (sn_currents (load_snapshot ss empty_snapshot)) k = latest ss k"
  by (simp_all add: load_snapshot_spec empty_snapshot_def split: option.splits)

lemma snapshot_okI:
  assumes "distinct (sn_order sn)" and "sn_order sn = map fst (sn_currents sn)"
    and "\<And>k s. map_of (sn_currents sn) k = Some s \<Longrightarrow> state_key_of s = k \<and> runtime_state_valid s \<and>
        has_history (base k) (keyed_transitions k (sn_transitions sn)) s"
    and "\<And>k. base k \<noteq> None \<Longrightarrow> map_of (sn_currents sn) k \<noteq> None"
    and "\<And>x. x \<in> set (sn_transitions sn) \<Longrightarrow> map_of (sn_currents sn) (transition_key x) \<noteq> None"
  shows "snapshot_ok base sn"
  unfolding snapshot_ok_def using assms by blast

lemma snapshot_okD:
  assumes "snapshot_ok base sn"
  shows "distinct (sn_order sn)" and "sn_order sn = map fst (sn_currents sn)"
    and "base k \<noteq> None \<Longrightarrow> map_of (sn_currents sn) k \<noteq> None"
    and "x \<in> set (sn_transitions sn) \<Longrightarrow> map_of (sn_currents sn) (transition_key x) \<noteq> None"
  using assms unfolding snapshot_ok_def by blast+

lemma load_snapshot_ok:
  assumes "list_all runtime_state_valid ss"
  shows "snapshot_ok (latest ss) (load_snapshot ss empty_snapshot)"
proof (rule snapshot_okI)
  have "sn_order empty_snapshot = map fst (sn_currents empty_snapshot)" "distinct (sn_order empty_snapshot)"
    by (simp_all add: empty_snapshot_def)
  from load_snapshot_order [OF this, of ss]
  show "distinct (sn_order (load_snapshot ss empty_snapshot))"
    "sn_order (load_snapshot ss empty_snapshot) = map fst (sn_currents (load_snapshot ss empty_snapshot))"
    by blast+
  fix k s
  assume "map_of (sn_currents (load_snapshot ss empty_snapshot)) k = Some s"
  then have s: "latest ss k = Some s" by (simp add: load_snapshot_empty)
  from latest_Some [OF this] assms
  show "state_key_of s = k \<and> runtime_state_valid s \<and>
      has_history (latest ss k) (keyed_transitions k (sn_transitions (load_snapshot ss empty_snapshot))) s"
    by (simp add: load_snapshot_empty has_history_def keyed_transitions_def s list_all_iff)
qed (simp_all add: load_snapshot_empty)

lemma snapshot_ok_step:
  assumes ok: "snapshot_ok base sn" and cur: "map_of (sn_currents sn) k = Some s"
    and t: "runtime_state_valid t" "state_chain s ts t"
  shows "snapshot_ok base (sn\<lparr>sn_currents := AList.update k t (sn_currents sn), sn_transitions := sn_transitions sn @ ts\<rparr>)"
    (is "snapshot_ok base ?sn")
proof (rule snapshot_okI)
  note c = snapshot_ok_current [OF ok cur]
  note d = snapshot_okD [OF ok]
  have keys: "transition_key x = k" if "x \<in> set ts" for x
    using state_chain_keys [OF t(2) that] c(1) by simp
  have key: "state_key_of t = k" using state_chain_key [OF t(2)] c(1) by simp
  from cur have same: "map fst (sn_currents ?sn) = map fst (sn_currents sn)"
    by (simp add: update_keys_in)
  from d(1,2) same show "distinct (sn_order ?sn)" "sn_order ?sn = map fst (sn_currents ?sn)" by simp_all
  show "map_of (sn_currents ?sn) j \<noteq> None" if "base j \<noteq> None" for j using d(3) [OF that] by simp
  show "map_of (sn_currents ?sn) (transition_key x) \<noteq> None" if "x \<in> set (sn_transitions ?sn)" for x
    using that d(4) [of x] keys [of x] by auto
  fix j u
  assume u: "map_of (sn_currents ?sn) j = Some u"
  show "state_key_of u = j \<and> runtime_state_valid u \<and>
      has_history (base j) (keyed_transitions j (sn_transitions ?sn)) u"
  proof (cases "j = k")
    case True
    with u t key c has_history_extend [OF c(3) t(2)] show ?thesis by (simp add: keyed_chain [OF t(2)])
  next
    case False
    with u have "map_of (sn_currents sn) j = Some u" by simp
    from snapshot_ok_current [OF ok this] False c(1) show ?thesis by (simp add: keyed_chain [OF t(2)])
  qed
qed

lemma snapshot_ok_create:
  assumes ok: "snapshot_ok base sn" and new: "map_of (sn_currents sn) k = None"
    and t: "runtime_state_valid t" "state_key_of t = k" "created_record t"
  shows "snapshot_ok base (sn\<lparr>sn_currents := AList.update k t (sn_currents sn), sn_order := sn_order sn @ [k]\<rparr>)"
    (is "snapshot_ok base ?sn")
proof (rule snapshot_okI)
  note d = snapshot_okD [OF ok]
  from new have same: "map fst (sn_currents ?sn) = map fst (sn_currents sn) @ [k]"
    by (simp add: update_keys_new)
  from d(1,2) same new show "distinct (sn_order ?sn)" "sn_order ?sn = map fst (sn_currents ?sn)"
    by (auto simp: map_of_eq_None_iff)
  show "map_of (sn_currents ?sn) j \<noteq> None" if "base j \<noteq> None" for j using d(3) [OF that] by simp
  show "map_of (sn_currents ?sn) (transition_key x) \<noteq> None" if "x \<in> set (sn_transitions ?sn)" for x
    using that d(4) [of x] by simp
  fix j u
  assume u: "map_of (sn_currents ?sn) j = Some u"
  show "state_key_of u = j \<and> runtime_state_valid u \<and>
      has_history (base j) (keyed_transitions j (sn_transitions ?sn)) u"
  proof (cases "j = k")
    case True
    have "keyed_transitions k (sn_transitions sn) = []"
      using d(4) new unfolding keyed_transitions_def by (intro filter_False) blast
    moreover from new d(3) have "base k = None" by blast
    ultimately show ?thesis using True u t by (auto simp: has_history_def)
  next
    case False
    with u have "map_of (sn_currents sn) j = Some u" by simp
    from snapshot_ok_current [OF ok this] show ?thesis by simp
  qed
qed

section \<open>The pass keeps the invariant\<close>

lemma validity_pass_ok:
  assumes "validity_pass now ks sn = Inr sn'" and "snapshot_ok base sn" and "is_aware_utc now"
  shows "snapshot_ok base sn' \<and> sn_order sn' = sn_order sn \<and> sn_deferred sn' = sn_deferred sn"
  using assms(1,2)
proof (induction ks arbitrary: sn)
  case (Cons k ks)
  from Cons.prems(1) obtain s v where s: "map_of (sn_currents sn) k = Some s" and v: "evaluate_validity s now = Inr v"
    by (auto simp: bindR_Inr_iff split: option.splits)
  note c = snapshot_ok_current [OF Cons.prems(2) s]
  show ?case
  proof (cases "lapsed s now")
    case False
    from evaluate_validity_kept [OF c(2) assms(3) False] v have "\<not> vo_changed v" by fastforce
    with Cons s v show ?thesis by simp
  next
    case True
    from evaluate_validity_lapsed [OF c(2) assms(3) True] v
    have t: "vo_changed v" "runtime_state_valid (vo_state v)" "next_record s (vo_state v)" by fastforce+
    with Cons.prems(1) s v obtain x where x: "transition_record s (vo_state v) now = Inr x"
      and rest: "validity_pass now ks (sn\<lparr>sn_currents := AList.update k (vo_state v) (sn_currents sn),
            sn_transitions := sn_transitions sn @ [x]\<rparr>) = Inr sn'"
      by (auto simp: bindR_Inr_iff)
    from Cons.IH [OF rest snapshot_ok_step [OF Cons.prems(2) s t(2) chain_step [OF x t(3,2)]]]
    show ?thesis by simp
  qed
qed simp

lemma snapshot_ok_defer [simp]: "snapshot_ok base (sn\<lparr>sn_deferred := d\<rparr>) = snapshot_ok base sn"
  by (simp add: snapshot_ok_def)

lemma apply_state_intent_ok:
  assumes "apply_state_intent reg now i sn = Inr sn'" and "snapshot_ok base sn" and "scope_valid (si_scope i)"
  shows "snapshot_ok base sn' \<and> map_of (sn_currents sn') (intent_key i) \<noteq> None \<and>
    set (sn_order sn) \<subseteq> set (sn_order sn') \<and> set (sn_order sn') \<subseteq> insert (intent_key i) (set (sn_order sn))"
proof (cases "map_of (sn_currents sn) (intent_key i)")
  case None
  with assms(1) obtain t where t: "create_state reg i now = Inr t"
    and sn': "sn' = sn\<lparr>sn_currents := AList.update (intent_key i) t (sn_currents sn), sn_order := sn_order sn @ [intent_key i]\<rparr>"
    by (auto simp: apply_state_intent_def Let_def bindR_Inr_iff)
  note f = fresh_state_Inr [OF t [unfolded create_state_def] assms(3)]
  have "created_record t" using f by (simp add: created_record_def)
  with f snapshot_ok_create [OF assms(2) None, of t] show ?thesis by (auto simp: sn')
next
  case (Some s)
  note c = snapshot_ok_current [OF assms(2) Some]
  show ?thesis
  proof (cases "sn' = sn\<lparr>sn_deferred := sn_deferred sn @ [i]\<rparr>")
    case True
    with assms(2) Some show ?thesis by auto
  next
    case False
    with assms(1) Some obtain t ts where r: "reconcile_state reg s i now = Inr (t, ts)"
      and sn': "sn' = sn\<lparr>sn_currents := AList.update (intent_key i) t (sn_currents sn), sn_transitions := sn_transitions sn @ ts\<rparr>"
      by (auto simp: apply_state_intent_def Let_def bindR_Inr_iff split: if_splits)
    from reconcile_state_ok [OF r c(2)] c(1) have "runtime_state_valid t" "state_chain s ts t"
      by (auto simp: reconciled_ok_def)
    from snapshot_ok_step [OF assms(2) Some this] show ?thesis by (auto simp: sn')
  qed
qed

lemma apply_state_intents_ok:
  assumes "apply_state_intents reg now is sn = Inr sn'" and "snapshot_ok base sn"
    and "\<forall>i \<in> set is. scope_valid (si_scope i)"
  shows "snapshot_ok base sn' \<and> set (sn_order sn') = set (sn_order sn) \<union> intent_key ` set is"
  using assms
proof (induction "is" arbitrary: sn)
  case (Cons i "is")
  then obtain sn1 where 1: "apply_state_intent reg now i sn = Inr sn1" and 2: "apply_state_intents reg now is sn1 = Inr sn'"
    by (auto simp: bindR_Inr_iff)
  from apply_state_intent_ok [OF 1 Cons.prems(2)] Cons.prems(3)
  have ok: "snapshot_ok base sn1" "map_of (sn_currents sn1) (intent_key i) \<noteq> None"
    "set (sn_order sn) \<subseteq> set (sn_order sn1)" "set (sn_order sn1) \<subseteq> insert (intent_key i) (set (sn_order sn))"
    by simp_all
  from ok(2) have "intent_key i \<in> set (sn_order sn1)"
    using snapshot_okD(2) [OF ok(1)] by (simp add: map_of_eq_None_iff)
  with Cons.IH [OF 2 ok(1)] Cons.prems(3) ok(3,4) show ?case by auto
qed simp

text \<open>The records in the order of their keys.\<close>

lemma snapshot_records:
  assumes "snapshot_ok base sn"
    and "mapR (\<lambda>key. case map_of (sn_currents sn) key of None \<Rightarrow> Inl (KeyError ''key'') | Some s \<Rightarrow> Inr s) (sn_order sn) = Inr ss"
  shows "map state_key_of ss = sn_order sn" and "s \<in> set ss \<Longrightarrow> map_of (sn_currents sn) (state_key_of s) = Some s"
proof -
  have each: "list_all2 (\<lambda>k s. map_of (sn_currents sn) k = Some s) (sn_order sn) ss"
    using assms(2) unfolding mapR_Inr_iff by (rule list_all2_mono) (simp split: option.splits)
  have key: "map_of (sn_currents sn) k = Some s \<Longrightarrow> state_key_of s = k" for k s
    using snapshot_ok_current(1) [OF assms(1)] .
  from each show "map state_key_of ss = sn_order sn"
    by (induction rule: list_all2_induct) (auto dest: key)
  assume "s \<in> set ss"
  then obtain j where "j < length ss" "s = ss ! j" by (auto simp: in_set_conv_nth)
  with each have "map_of (sn_currents sn) (sn_order sn ! j) = Some s" by (simp add: list_all2_conv_all_nth)
  with key show "map_of (sn_currents sn) (state_key_of s) = Some s" by simp
qed


section \<open>Every step that is allowed succeeds\<close>

text \<open>The registered policies parse, and no envelope from \<open>now\<close> leaves the range of timestamps.\<close>

definition registry_ok :: "registry \<Rightarrow> datetime \<Rightarrow> bool" where
  "registry_ok reg now \<longleftrightarrow> list_all (\<lambda>(key, d). case parse_validity_policy (sd_default_validity_policy d) of
     Inl e \<Rightarrow> False
   | Inr p \<Rightarrow> (case vp_ttl p of None \<Rightarrow> True | Some ttl \<Rightarrow> is_ok (dt_add now ttl))) reg"

definition envelope_of :: "registry \<Rightarrow> string \<Rightarrow> datetime \<Rightarrow> datetime option \<Rightarrow> datetime option" where
  "envelope_of reg key now otherwise = (case validity_policy_of reg key of
     Inl e \<Rightarrow> None
   | Inr p \<Rightarrow> (case vp_ttl p of None \<Rightarrow> otherwise | Some ttl \<Rightarrow> Some (dt_plus now ttl)))"

lemma registry_ok_policy:
  assumes "registry_ok reg now"
  obtains p where "validity_policy_of reg key = Inr p" and "\<And>other. envelope_until p now other = Inr (envelope_of reg key now other)"
proof -
  have "\<exists>p. validity_policy_of reg key = Inr p \<and> (case vp_ttl p of None \<Rightarrow> True | Some ttl \<Rightarrow> is_ok (dt_add now ttl))"
  proof (cases "map_of reg key")
    case None
    have "mk_validity_policy INDEFINITE None True =
        Inr \<lparr>vp_kind = INDEFINITE, vp_ttl = None, vp_refresh_on_reaffirm = True\<rparr>"
      by (simp add: mk_validity_policy_Inr)
    with None show ?thesis by (simp add: validity_policy_of_def)
  next
    case (Some d)
    then have "(key, d) \<in> set reg" by (rule map_of_SomeD)
    with assms have "case parse_validity_policy (sd_default_validity_policy d) of Inl e \<Rightarrow> False
       | Inr p \<Rightarrow> (case vp_ttl p of None \<Rightarrow> True | Some ttl \<Rightarrow> is_ok (dt_add now ttl))"
      unfolding registry_ok_def list_all_iff by blast
    with Some show ?thesis by (simp add: validity_policy_of_def split: sum.splits)
  qed
  then obtain p where p: "validity_policy_of reg key = Inr p"
    and ok: "case vp_ttl p of None \<Rightarrow> True | Some ttl \<Rightarrow> is_ok (dt_add now ttl)" by blast
  have "envelope_until p now other = Inr (envelope_of reg key now other)" for other
    using validity_policy_of_ok [OF p] ok
    by (cases "vp_ttl p") (auto simp: envelope_until_def envelope_of_def p policy_ok_def dt_add_def split: if_splits)
  with p that show thesis by blast
qed

lemma envelope_of_aware:
  "is_aware_utc now \<Longrightarrow> (\<And>t. other = Some t \<Longrightarrow> is_aware_utc t) \<Longrightarrow>
    envelope_of reg key now other = Some u \<Longrightarrow> is_aware_utc u"
  by (auto simp: envelope_of_def split: sum.splits option.splits)

text \<open>
  The next version of a record, as the pass at \<open>now\<close> writes it, and what the three kinds of step put into
  it: the end of a value, a new value, and a reaffirmed one. Each names the whole record: a field that
  is not named is the one of \<open>s\<close>.
\<close>

definition next_version :: "datetime \<Rightarrow> string \<Rightarrow> runtime_state \<Rightarrow> runtime_state" where
  "next_version now origin s = (let n = rs_version s + 1; i = canonical_state_id (rs_dimension s) n in
     s\<lparr>rs_state_id := i, rs_last_observed_at := now, rs_updated_at := now, rs_origin_runtime_id := origin,
       rs_version := n, rs_sync := mk_sync (rs_scope s) origin i n (idem_of i)\<rparr>)"

definition ends_as :: "datetime \<Rightarrow> state_lifecycle \<Rightarrow> runtime_state \<Rightarrow> state_intent \<Rightarrow> runtime_state \<Rightarrow> bool" where
  "ends_as now l s i t \<longleftrightarrow> t = (next_version now (rs_origin_runtime_id s) s)
     \<lparr>rs_status := lifecycle_status l, rs_evidence_refs := rs_evidence_refs s @ si_evidence_refs i\<rparr>"

definition starts_fresh :: "registry \<Rightarrow> datetime \<Rightarrow> state_intent \<Rightarrow> runtime_state \<Rightarrow> runtime_state \<Rightarrow> bool" where
  "starts_fresh reg now i s t \<longleftrightarrow> t = (next_version now (si_origin_runtime_id i) s)
     \<lparr>rs_value := si_value i, rs_status := lifecycle_status ACTIVE, rs_valid_from := now,
      rs_valid_until := envelope_of reg (si_dimension i) now None, rs_relevant_until := None,
      rs_evidence_refs := si_evidence_refs i, rs_transition_refs := []\<rparr>"

definition reaffirms :: "registry \<Rightarrow> datetime \<Rightarrow> state_intent \<Rightarrow> runtime_state \<Rightarrow> runtime_state \<Rightarrow> bool" where
  "reaffirms reg now i s t \<longleftrightarrow> t = (next_version now (rs_origin_runtime_id s) s)
     \<lparr>rs_valid_until := envelope_of reg (rs_dimension s) now (rs_valid_until s),
      rs_evidence_refs := rs_evidence_refs s @ si_evidence_refs i\<rparr>"

lemma next_version_next:
  "ends_as now l s i t \<Longrightarrow> next_record s t" "starts_fresh reg now i s t \<Longrightarrow> next_record s t"
  "reaffirms reg now i s t \<Longrightarrow> next_record s t"
  by (simp_all add: ends_as_def starts_fresh_def reaffirms_def next_version_def next_record_def Let_def)

lemma fresh_state_total:
  assumes "registry_ok reg now" and "is_aware_utc now" and "intent_ok i" and "1 \<le> v"
  obtains t where "fresh_state reg (si_scope i) i now v now = Inr t"
    and "\<And>s. intent_key i = state_key_of s \<Longrightarrow> v = rs_version s + 1 \<Longrightarrow> starts_fresh reg now i s t"
proof -
  from registry_ok_policy [OF assms(1)] obtain p where p: "validity_policy_of reg (si_dimension i) = Inr p"
    and u: "envelope_until p now None = Inr (envelope_of reg (si_dimension i) now None)" by metis
  let ?t = "\<lparr>rs_state_id = canonical_state_id (si_dimension i) v, rs_scope = si_scope i, rs_dimension = si_dimension i,
        rs_value = si_value i, rs_status = lifecycle_status ACTIVE, rs_valid_from = now,
        rs_valid_until = envelope_of reg (si_dimension i) now None,
        rs_relevant_until = None, rs_last_observed_at = now, rs_evidence_refs = si_evidence_refs i,
        rs_transition_refs = [], rs_updated_at = now, rs_origin_runtime_id = si_origin_runtime_id i,
        rs_version = v, rs_sync = mk_sync (si_scope i) (si_origin_runtime_id i) (canonical_state_id (si_dimension i) v) v
          (idem_of (canonical_state_id (si_dimension i) v))\<rparr>"
  have "is_aware_utc d" if "envelope_of reg (si_dimension i) now None = Some d" for d
    using envelope_of_aware [OF assms(2) _ that] by simp
  then have "runtime_state_valid ?t" using assms(2-4) by (simp add: valid_state intent_ok_def)
  then have "fresh_state reg (si_scope i) i now v now = Inr ?t"
    by (simp add: fresh_state_def p u Let_def mk_runtime_state_same)
  from that [OF this] show thesis by (auto simp: starts_fresh_def next_version_def Let_def)
qed

lemma terminal_record_total:
  assumes "runtime_state_valid s" and "is_aware_utc now" and "list_all non_empty (si_evidence_refs i)"
  obtains t where "terminal_record s l i now = Inr t" and "ends_as now l s i t"
proof -
  let ?id = "canonical_state_id (rs_dimension s) (rs_version s + 1)"
  let ?t = "\<lparr>rs_state_id = ?id, rs_scope = rs_scope s, rs_dimension = rs_dimension s,
        rs_value = rs_value s, rs_status = lifecycle_status l, rs_valid_from = rs_valid_from s,
        rs_valid_until = rs_valid_until s, rs_relevant_until = rs_relevant_until s, rs_last_observed_at = now,
        rs_evidence_refs = rs_evidence_refs s @ si_evidence_refs i,
        rs_transition_refs = rs_transition_refs s, rs_updated_at = now,
        rs_origin_runtime_id = rs_origin_runtime_id s, rs_version = rs_version s + 1,
        rs_sync = mk_sync (rs_scope s) (rs_origin_runtime_id s) ?id (rs_version s + 1) (idem_of ?id)\<rparr>"
  have "runtime_state_valid ?t" using assms by (simp add: valid_state)
  then have "terminal_record s l i now = Inr ?t" by (simp add: terminal_record_def Let_def mk_runtime_state_same)
  moreover have "ends_as now l s i ?t" by (cases s) (simp add: ends_as_def next_version_def Let_def)
  ultimately show thesis by (rule that)
qed

lemma refresh_state_total:
  assumes "runtime_state_valid s" and "is_aware_utc now" and "list_all non_empty (si_evidence_refs i)"
    and "envelope_until p now (rs_valid_until s) = Inr u" and "\<And>d. u = Some d \<Longrightarrow> is_aware_utc d"
  obtains t where "refresh_state s i p now = Inr t"
    and "u = envelope_of reg (rs_dimension s) now (rs_valid_until s) \<Longrightarrow> reaffirms reg now i s t"
proof -
  let ?id = "canonical_state_id (rs_dimension s) (rs_version s + 1)"
  let ?t = "\<lparr>rs_state_id = ?id, rs_scope = rs_scope s, rs_dimension = rs_dimension s,
        rs_value = rs_value s, rs_status = rs_status s, rs_valid_from = rs_valid_from s,
        rs_valid_until = u, rs_relevant_until = rs_relevant_until s, rs_last_observed_at = now,
        rs_evidence_refs = rs_evidence_refs s @ si_evidence_refs i,
        rs_transition_refs = rs_transition_refs s, rs_updated_at = now,
        rs_origin_runtime_id = rs_origin_runtime_id s, rs_version = rs_version s + 1,
        rs_sync = mk_sync (rs_scope s) (rs_origin_runtime_id s) ?id (rs_version s + 1) (idem_of ?id)\<rparr>"
  have "runtime_state_valid ?t" using assms by (simp add: valid_state)
  then have "refresh_state s i p now = Inr ?t"
    by (simp add: refresh_state_def Let_def assms(4) mk_runtime_state_same)
  moreover have "reaffirms reg now i s ?t" if "u = envelope_of reg (rs_dimension s) now (rs_valid_until s)"
    using that by (cases s) (simp add: reaffirms_def next_version_def Let_def)
  ultimately show thesis by (rule that)
qed


section \<open>The lifecycle rules\<close>

text \<open>The transition recorded for a step.\<close>

definition records :: "runtime_state \<Rightarrow> runtime_state \<Rightarrow> datetime \<Rightarrow> state_transition \<Rightarrow> bool" where
  "records a b now x \<longleftrightarrow> state_transition_valid x \<and> tr_from_state x = a \<and> tr_to_state x = b \<and>
     tr_committed_at x = now \<and> tr_transition_id x = ''transition:'' @ rs_state_id b"

lemma transition_record_records:
  assumes "runtime_state_valid a" and "runtime_state_valid b" and "next_record a b" and "is_aware_utc now"
  obtains x where "transition_record a b now = Inr x" and "records a b now x"
proof -
  from transition_record_next [OF assms] obtain x where x: "transition_record a b now = Inr x" .
  from that [OF x] transition_record_Inr [OF x] show thesis by (simp add: records_def)
qed

lemma fresh_after_outcome:
  assumes registry: "registry_ok reg now" and aware: "is_aware_utc now"
    and "runtime_state_valid s" and "intent_ok i" and "intent_key i = state_key_of s"
  obtains t x where "fresh_after reg s i now = Inr (t, [x])" and "starts_fresh reg now i s t" and "records s t now x"
proof -
  from assms(3) have "1 \<le> rs_version s + 1" by (simp add: valid_state)
  from fresh_state_total [OF registry aware assms(4) this] obtain t
    where t: "fresh_state reg (si_scope i) i now (rs_version s + 1) now = Inr t"
      "\<And>w. intent_key i = state_key_of w \<Longrightarrow> rs_version s + 1 = rs_version w + 1 \<Longrightarrow> starts_fresh reg now i w t" by blast
  have "scope_valid (si_scope i)" "frozen (si_value i)" using assms(4) by (simp_all add: intent_ok_def)
  note f = fresh_state_Inr [OF t(1) this(1)] \<open>frozen (si_value i)\<close>
  from t(2) assms(5) have s: "starts_fresh reg now i s t" by simp
  then have "next_record s t" by (rule next_version_next)
  from transition_record_records [OF assms(3) f(1) this aware] obtain x
    where x: "transition_record s t now = Inr x" "records s t now x" .
  have "fresh_after reg s i now = Inr (t, [x])" using t(1) x(1) assms(5) by (simp add: fresh_after_def)
  from that [OF this s x(2)] show thesis .
qed

lemma terminal_outcome:
  assumes aware: "is_aware_utc now"
    and "runtime_state_valid s" and "intent_ok i"
  obtains t x where "terminal_record s l i now = Inr t" and "transition_record s t now = Inr x"
    and "ends_as now l s i t" and "records s t now x" and "runtime_state_valid t"
proof -
  have refs: "list_all non_empty (si_evidence_refs i)" using assms(3) by (simp add: intent_ok_def)
  from terminal_record_total [OF assms(2) aware refs] obtain t
    where t: "terminal_record s l i now = Inr t" and e: "ends_as now l s i t" .
  note f = terminal_record_Inr [OF t valid_state_scope [OF assms(2)]]
  from transition_record_records [OF assms(2) f(1,2) aware] obtain x
    where "transition_record s t now = Inr x" "records s t now x" .
  with that t e f(1) show thesis by blast
qed

lemma supersede_outcome:
  assumes registry: "registry_ok reg now" and aware: "is_aware_utc now"
    and "runtime_state_valid s" and "intent_ok i" and "intent_key i = state_key_of s"
  obtains u t x y where "supersede reg s i now = Inr (t, [x, y])" and "ends_as now SUPERSEDED s i u"
    and "records s u now x" and "starts_fresh reg now i u t" and "records u t now y"
proof -
  from terminal_outcome [OF aware assms(3,4), of SUPERSEDED] obtain u x
    where u: "terminal_record s SUPERSEDED i now = Inr u" "transition_record s u now = Inr x"
      "ends_as now SUPERSEDED s i u" "records s u now x" "runtime_state_valid u" .
  then have same: "rs_scope u = rs_scope s" "rs_dimension u = rs_dimension s"
    using next_version_next(1) [OF u(3)] by (simp_all add: next_record_def)
  with assms(5) have key: "intent_key i = state_key_of u" by simp
  from fresh_after_outcome [OF registry aware u(5) assms(4) key] obtain t y
    where t: "fresh_after reg u i now = Inr (t, [y])" "starts_fresh reg now i u t" "records u t now y" .
  from t(1) same have "supersede reg s i now = Inr (t, [x, y])"
    by (auto simp: supersede_def fresh_after_def u(1,2) bindR_Inr_iff)
  with that u t show thesis by blast
qed

lemma reaffirm_outcome:
  assumes aware: "is_aware_utc now"
    and "runtime_state_valid s" and "intent_ok i" and "envelope_until p now (rs_valid_until s) = Inr (envelope_of reg (rs_dimension s) now (rs_valid_until s))"
  obtains t x where "refresh_state s i p now = Inr t" and "transition_record s t now = Inr x"
    and "reaffirms reg now i s t" and "records s t now x"
proof -
  have refs: "list_all non_empty (si_evidence_refs i)" using assms(3) by (simp add: intent_ok_def)
  have "is_aware_utc d" if "envelope_of reg (rs_dimension s) now (rs_valid_until s) = Some d" for d
    using envelope_of_aware [OF aware valid_state_until [OF assms(2)] that] .
  from refresh_state_total [OF assms(2) aware refs assms(4) this] obtain t
    where t: "refresh_state s i p now = Inr t" and e: "reaffirms reg now i s t" by blast
  note f = refresh_state_Inr [OF t valid_state_scope [OF assms(2)]]
  from transition_record_records [OF assms(2) f(1,2) aware] obtain x
    where "transition_record s t now = Inr x" "records s t now x" .
  with that t e show thesis by blast
qed


end
