(* ===== verification/State_Reconciliation.thy ===== *)
theory State_Reconciliation
  imports State_Reconciler
begin

text \<open>
  What a reconcile pass guarantees: the lifecycle rules of one intent against one state, the history
  of every dimension over a whole pass, that a pass of value intents never fails, and what becomes of
  delayed intents. The instant, the registry and the inputs are arbitrary within the checks their
  constructors make.
\<close>

section \<open>One intent\<close>


section \<open>A whole pass\<close>

lemma reconciled_snapshot:
  assumes "list_all runtime_state_valid canonical" and "\<forall>i \<in> set intents. scope_valid (si_scope i)"
    and "is_aware_utc now" and "reconcile_apply reg now canonical intents = Inr r"
  obtains sn where "snapshot_ok (latest canonical) sn" and "rr_transitions r = sn_transitions sn"
    and "rr_effective r = rr_canonical r"
    and "set (sn_order sn) = state_key_of ` set canonical \<union> intent_key ` set intents"
    and "mapR (\<lambda>key. case map_of (sn_currents sn) key of None \<Rightarrow> Inl (KeyError ''key'') | Some s \<Rightarrow> Inr s)
      (sn_order sn) = Inr (rr_canonical r)"
proof -
  let ?sn = "load_snapshot canonical empty_snapshot"
  from assms(4) obtain sn1 sn ss where v: "validity_pass now (sn_order ?sn) ?sn = Inr sn1"
    and a: "apply_state_intents reg now intents sn1 = Inr sn"
    and m: "mapR (\<lambda>key. case map_of (sn_currents sn) key of None \<Rightarrow> Inl (KeyError ''key'') | Some s \<Rightarrow> Inr s) (sn_order sn) = Inr ss"
    and r: "rr_canonical r = ss" "rr_effective r = ss" "rr_transitions r = sn_transitions sn"
    by (auto simp: reconcile_apply_def Let_def bindR_Inr_iff)
  note l = load_snapshot_ok [OF assms(1)]
  from validity_pass_ok [OF v l assms(3)] have v': "snapshot_ok (latest canonical) sn1" "sn_order sn1 = sn_order ?sn" by auto
  from apply_state_intents_ok [OF a v'(1) assms(2)] have ok: "snapshot_ok (latest canonical) sn"
    and keys: "set (sn_order sn) = set (sn_order ?sn) \<union> intent_key ` set intents" by (simp_all add: v'(2))
  have "k \<in> set (sn_order ?sn) \<longleftrightarrow> k \<in> state_key_of ` set canonical" for k
    using snapshot_okD(2) [OF l] load_snapshot_empty(3) [of canonical k] latest_None [of canonical k]
      map_of_eq_None_iff [of "sn_currents ?sn" k] by (simp add: image_image)
  with keys have "set (sn_order sn) = state_key_of ` set canonical \<union> intent_key ` set intents" by blast
  with that ok m r show thesis by simp
qed

text \<open>
  C18. A successful pass leaves exactly one record per scope and dimension, for the dimensions of the
  snapshot and of the intents and no others; each is valid, and its transitions, taken in order out of all
  the transitions of the pass, form an unbroken chain of single version steps from the latest record of the
  snapshot, or from a first active record, to it. So a version is never skipped, reused or rolled back,
  and no transition of one dimension or scope touches another.
\<close>

theorem reconcile_history:
  assumes "list_all runtime_state_valid canonical" and "\<forall>i \<in> set intents. scope_valid (si_scope i)"
    and "is_aware_utc now" and "reconcile_apply reg now canonical intents = Inr r"
  shows "rr_effective r = rr_canonical r \<and> distinct (map state_key_of (rr_canonical r)) \<and>
    state_key_of ` set (rr_canonical r) = state_key_of ` set canonical \<union> intent_key ` set intents \<and>
    (\<forall>s \<in> set (rr_canonical r). runtime_state_valid s \<and>
      has_history (latest canonical (state_key_of s)) (keyed_transitions (state_key_of s) (rr_transitions r)) s)"
proof (intro conjI)
  from reconciled_snapshot [OF assms] obtain sn where ok: "snapshot_ok (latest canonical) sn"
    and r: "rr_transitions r = sn_transitions sn" and eff: "rr_effective r = rr_canonical r"
    and keys: "set (sn_order sn) = state_key_of ` set canonical \<union> intent_key ` set intents"
    and m: "mapR (\<lambda>key. case map_of (sn_currents sn) key of None \<Rightarrow> Inl (KeyError ''key'') | Some s \<Rightarrow> Inr s)
      (sn_order sn) = Inr (rr_canonical r)" .
  note ss = snapshot_records [OF ok m]
  show "rr_effective r = rr_canonical r" by (rule eff)
  show "distinct (map state_key_of (rr_canonical r))" using ss(1) snapshot_okD(1) [OF ok] by simp
  show "state_key_of ` set (rr_canonical r) = state_key_of ` set canonical \<union> intent_key ` set intents"
    using arg_cong [OF ss(1), of set] keys by simp
  show "\<forall>s \<in> set (rr_canonical r). runtime_state_valid s \<and>
      has_history (latest canonical (state_key_of s)) (keyed_transitions (state_key_of s) (rr_transitions r)) s"
    using ss(2) snapshot_ok_current [OF ok] r by metis
qed

section \<open>A pass of values never fails\<close>

definition snapshot_known :: "snapshot \<Rightarrow> bool" where
  "snapshot_known sn \<longleftrightarrow> list_all (\<lambda>(k, s). is_known_lifecycle (rs_status s)) (sn_currents sn)"

lemma update_all: "list_all P xs \<Longrightarrow> P (k, v) \<Longrightarrow> list_all P (AList.update k v xs)"
  by (induction xs) auto

lemma snapshot_known_current: "snapshot_known sn \<Longrightarrow> map_of (sn_currents sn) k = Some s \<Longrightarrow> is_known_lifecycle (rs_status s)"
  using map_of_SomeD by (fastforce simp: snapshot_known_def list_all_iff)

lemma order_current:
  assumes "snapshot_ok base sn" and "k \<in> set (sn_order sn)"
  obtains s where "map_of (sn_currents sn) k = Some s"
  using assms(2) snapshot_okD(2) [OF assms(1)] map_of_eq_None_iff [of "sn_currents sn" k]
  by (cases "map_of (sn_currents sn) k") simp_all

lemma validity_pass_total:
  assumes "snapshot_ok base sn" and "snapshot_known sn" and "set ks \<subseteq> set (sn_order sn)" and "is_aware_utc now"
  obtains sn' where "validity_pass now ks sn = Inr sn'" and "snapshot_known sn'"
  using assms(1-3)
proof (induction ks arbitrary: sn thesis)
  case Nil
  then show ?case by simp
next
  case (Cons k ks)
  from Cons.prems(4) order_current [OF Cons.prems(2), of k] obtain s
    where s: "map_of (sn_currents sn) k = Some s" by auto
  note c = snapshot_ok_current [OF Cons.prems(2) s]
  show ?case
  proof (cases "lapsed s now")
    case False
    from evaluate_validity_kept [OF c(2) assms(4) False] obtain v
      where "evaluate_validity s now = Inr v" "\<not> vo_changed v" by blast
    moreover have "set ks \<subseteq> set (sn_order sn)" using Cons.prems(4) by simp
    then obtain sn' where "validity_pass now ks sn = Inr sn'" "snapshot_known sn'"
      using Cons.IH [of sn] Cons.prems(2,3) by blast
    ultimately show ?thesis using s Cons.prems(1) by simp
  next
    case True
    from evaluate_validity_lapsed [OF c(2) assms(4) True] obtain v t where v: "evaluate_validity s now = Inr v"
      "vo_state v = t" "vo_changed v" "runtime_state_valid t" "next_record s t" "rs_status t = lifecycle_status EXPIRED" by metis
    from transition_record_next [OF c(2) v(4,5) assms(4)] obtain x where x: "transition_record s t now = Inr x" .
    let ?sn = "sn\<lparr>sn_currents := AList.update k t (sn_currents sn), sn_transitions := sn_transitions sn @ [x]\<rparr>"
    have "snapshot_ok base ?sn" by (rule snapshot_ok_step [OF Cons.prems(2) s v(4) chain_step [OF x v(5,4)]])
    moreover have "snapshot_known ?sn" using Cons.prems(3) v(6) by (simp add: snapshot_known_def update_all)
    moreover have "set ks \<subseteq> set (sn_order ?sn)" using Cons.prems(4) by simp
    ultimately obtain sn' where "validity_pass now ks ?sn = Inr sn'" "snapshot_known sn'"
      using Cons.IH [of ?sn] by blast
    with s v x Cons.prems(1) show ?thesis by simp
  qed
qed

lemma reconcile_state_total:
  assumes "registry_ok reg now" and "is_aware_utc now" and "runtime_state_valid s" and "intent_ok i"
    and "intent_key i = state_key_of s" and "si_lifecycle i = None" and "is_known_lifecycle (rs_status s)"
  obtains t ts where "reconcile_state reg s i now = Inr (t, ts)" and "is_known_lifecycle (rs_status t)"
proof -
  from fresh_after_outcome [OF assms(1-5)] obtain t x where fresh: "fresh_after reg s i now = Inr (t, [x])"
    "starts_fresh reg now i s t" .
  from supersede_outcome [OF assms(1-5)] obtain w u y z where super: "supersede reg s i now = Inr (u, [y, z])"
    "starts_fresh reg now i w u" by metis
  from registry_ok_policy [OF assms(1)] obtain p where p: "validity_policy_of reg (rs_dimension s) = Inr p"
    and e: "envelope_until p now (rs_valid_until s) = Inr (envelope_of reg (rs_dimension s) now (rs_valid_until s))"
    by metis
  from reaffirm_outcome [OF assms(2-4) e] obtain v q where re: "refresh_state s i p now = Inr v"
    "transition_record s v now = Inr q" "reaffirms reg now i s v" by metis
  have known: "is_known_lifecycle (rs_status t)" "is_known_lifecycle (rs_status u)" "is_known_lifecycle (rs_status v)"
    using fresh(2) super(2) re(3) assms(7) by (simp_all add: starts_fresh_def reaffirms_def next_version_def Let_def)
  have "\<exists>r. reconcile_state reg s i now = Inr r \<and> is_known_lifecycle (rs_status (fst r))"
    using assms(6,7) p fresh(1) super(1) re known by (simp add: reconcile_state_def)
  then show thesis using that by auto
qed

lemma apply_state_intents_total:
  assumes "snapshot_ok base sn" and "snapshot_known sn" and "registry_ok reg now" and "is_aware_utc now"
    and "\<forall>i \<in> set is. intent_ok i \<and> si_lifecycle i = None"
  obtains sn' where "apply_state_intents reg now is sn = Inr sn'"
  using assms(1,2,5)
proof (induction "is" arbitrary: sn thesis)
  case Nil
  then show ?case by simp
next
  case (Cons i "is")
  from Cons.prems(4) have i: "intent_ok i" "si_lifecycle i = None" "scope_valid (si_scope i)"
    by (simp_all add: intent_ok_def)
  have "\<exists>sn1. apply_state_intent reg now i sn = Inr sn1 \<and> snapshot_known sn1"
  proof (cases "map_of (sn_currents sn) (intent_key i)")
    case None
    from fresh_state_total [OF assms(3,4) i(1), of 1] obtain t
      where t: "fresh_state reg (si_scope i) i now 1 now = Inr t" by (metis order_refl)
    with fresh_state_Inr [OF t i(3)] None Cons.prems(3) show ?thesis
      by (simp add: apply_state_intent_def create_state_def Let_def snapshot_known_def update_all)
  next
    case (Some s)
    note c = snapshot_ok_current [OF Cons.prems(2) Some]
    from reconcile_state_total [OF assms(3,4) c(2) i(1) _ i(2) snapshot_known_current [OF Cons.prems(3) Some]] c(1)
    obtain t ts where t: "reconcile_state reg s i now = Inr (t, ts)" "is_known_lifecycle (rs_status t)" by metis
    have "is_aware_utc (si_observed_at i)" "is_aware_utc (rs_last_observed_at s)"
      using i(1) c(2) by (simp_all add: intent_ok_def valid_state)
    with Some t Cons.prems(3) show ?thesis
      by (simp add: apply_state_intent_def Let_def snapshot_known_def update_all)
  qed
  then obtain sn1 where 1: "apply_state_intent reg now i sn = Inr sn1" "snapshot_known sn1" by blast
  from apply_state_intent_ok [OF 1(1) Cons.prems(2) i(3)] have "snapshot_ok base sn1" by simp
  with Cons.IH [of sn1] 1(2) Cons.prems(4) obtain sn' where "apply_state_intents reg now is sn1 = Inr sn'" by auto
  with 1(1) Cons.prems(1) show ?case by simp
qed

lemma load_snapshot_known:
  assumes "list_all (\<lambda>s. is_known_lifecycle (rs_status s)) ss"
  shows "snapshot_known (load_snapshot ss empty_snapshot)"
proof -
  have "snapshot_known (load_snapshot ss sn)" if "snapshot_known sn" for sn
    using assms that by (induction ss arbitrary: sn) (simp_all add: Let_def snapshot_known_def update_all)
  then show ?thesis by (simp add: snapshot_known_def empty_snapshot_def)
qed

lemma snapshot_records_total:
  assumes "snapshot_ok base sn"
  obtains ss where "mapR (\<lambda>key. case map_of (sn_currents sn) key of None \<Rightarrow> Inl (KeyError ''key'') | Some s \<Rightarrow> Inr s)
    (sn_order sn) = Inr ss"
proof -
  have "mapR (\<lambda>key. case map_of (sn_currents sn) key of None \<Rightarrow> Inl (KeyError ''key'') | Some s \<Rightarrow> Inr s)
      (sn_order sn) = Inr (map (\<lambda>k. the (map_of (sn_currents sn) k)) (sn_order sn))"
  proof (rule mapR_all_ok)
    fix k
    assume "k \<in> set (sn_order sn)"
    from order_current [OF assms this] obtain s where "map_of (sn_currents sn) k = Some s" .
    then show "(case map_of (sn_currents sn) k of None \<Rightarrow> Inl (KeyError ''key'') | Some s \<Rightarrow> Inr s) =
        Inr (the (map_of (sn_currents sn) k))" by simp
  qed
  then show thesis by (rule that)
qed

text \<open>
  C23. A pass of value intents never fails: over a valid snapshot with statuses of the vocabulary, with
  registered policies that parse and envelopes within the range of timestamps, every list of admissible
  value intents, delayed ones included, reconciles to a result.
\<close>

theorem reconcile_never_fails:
  assumes "list_all runtime_state_valid canonical" and "list_all (\<lambda>s. is_known_lifecycle (rs_status s)) canonical"
    and "registry_ok reg now" and "is_aware_utc now" and "\<forall>i \<in> set intents. intent_ok i \<and> si_lifecycle i = None"
  shows "\<exists>r. reconcile_apply reg now canonical intents = Inr r"
proof -
  let ?sn = "load_snapshot canonical empty_snapshot"
  note l = load_snapshot_ok [OF assms(1)]
  have "snapshot_known ?sn" by (rule load_snapshot_known [OF assms(2)])
  from validity_pass_total [OF l this subset_refl assms(4)] obtain sn1
    where v: "validity_pass now (sn_order ?sn) ?sn = Inr sn1" "snapshot_known sn1" .
  from validity_pass_ok [OF v(1) l assms(4)] have ok1: "snapshot_ok (latest canonical) sn1" by simp
  from apply_state_intents_total [OF ok1 v(2) assms(3-5)] obtain sn
    where a: "apply_state_intents reg now intents sn1 = Inr sn" .
  have "\<forall>i \<in> set intents. scope_valid (si_scope i)" using assms(5) by (auto simp: intent_ok_def)
  from apply_state_intents_ok [OF a ok1 this] have ok: "snapshot_ok (latest canonical) sn" by simp
  from snapshot_records_total [OF ok] obtain ss where "mapR (\<lambda>key. case map_of (sn_currents sn) key of
      None \<Rightarrow> Inl (KeyError ''key'') | Some s \<Rightarrow> Inr s) (sn_order sn) = Inr ss" .
  with v(1) a show ?thesis unfolding reconcile_apply_def Let_def by simp
qed


section \<open>Delayed intents\<close>

text \<open>The deferred list is only appended to, and no step reads it.\<close>

lemma apply_state_intent_deferred:
  "case apply_state_intent reg now i sn of
     Inl e \<Rightarrow> apply_state_intent reg now i (sn\<lparr>sn_deferred := d\<rparr>) = Inl e
   | Inr sn' \<Rightarrow> \<exists>es. sn_deferred sn' = sn_deferred sn @ es \<and>
       apply_state_intent reg now i (sn\<lparr>sn_deferred := d\<rparr>) = Inr (sn'\<lparr>sn_deferred := d @ es\<rparr>)"
proof (cases "map_of (sn_currents sn) (intent_key i)")
  case None
  then show ?thesis
    by (cases "create_state reg i now") (simp_all add: apply_state_intent_def Let_def)
next
  case (Some s)
  show ?thesis
  proof (cases "compare_dt dt_less (si_observed_at i) (rs_last_observed_at s)")
    case (Inr stale)
    with Some show ?thesis
      by (cases stale; cases "reconcile_state reg s i now")
        (simp_all add: apply_state_intent_def Let_def split: prod.splits)
  qed (use Some in \<open>simp add: apply_state_intent_def Let_def\<close>)
qed

lemma apply_state_intents_deferred:
  "case apply_state_intents reg now is sn of
     Inl e \<Rightarrow> apply_state_intents reg now is (sn\<lparr>sn_deferred := d\<rparr>) = Inl e
   | Inr sn' \<Rightarrow> \<exists>es. sn_deferred sn' = sn_deferred sn @ es \<and>
       apply_state_intents reg now is (sn\<lparr>sn_deferred := d\<rparr>) = Inr (sn'\<lparr>sn_deferred := d @ es\<rparr>)"
proof (induction "is" arbitrary: sn d)
  case (Cons i "is")
  show ?case
  proof (cases "apply_state_intent reg now i sn")
    case (Inl e)
    with apply_state_intent_deferred [of reg now i d sn] show ?thesis by simp
  next
    case (Inr sn1)
    with apply_state_intent_deferred [of reg now i d sn] obtain es where es: "sn_deferred sn1 = sn_deferred sn @ es"
      "apply_state_intent reg now i (sn\<lparr>sn_deferred := d\<rparr>) = Inr (sn1\<lparr>sn_deferred := d @ es\<rparr>)" by auto
    from Cons.IH [where sn = sn1 and d = "d @ es"] es show ?thesis
      by (cases "apply_state_intents reg now is sn1") (auto simp: Inr)
  qed
qed simp

lemma apply_state_intents_append:
  "apply_state_intents reg now (xs @ ys) sn = bindR (apply_state_intents reg now xs sn) (apply_state_intents reg now ys)"
proof (induction xs arbitrary: sn)
  case (Cons x xs)
  then show ?case by (cases "apply_state_intent reg now x sn") simp_all
qed simp

text \<open>A key whose current record was observed after a given instant stays so during the pass.\<close>

definition observed_after :: "state_key \<Rightarrow> datetime \<Rightarrow> snapshot \<Rightarrow> bool" where
  "observed_after k t sn \<longleftrightarrow> (case map_of (sn_currents sn) k of None \<Rightarrow> False
     | Some s \<Rightarrow> dt_less t (rs_last_observed_at s))"

lemma validity_pass_observed:
  assumes "validity_pass now ks sn = Inr sn'" and "snapshot_ok base sn" and "is_aware_utc now" and "observed_after k t sn"
  shows "observed_after k t sn'"
  using assms(1,2,4)
proof (induction ks arbitrary: sn)
  case (Cons j ks)
  from Cons.prems(1) obtain s v where s: "map_of (sn_currents sn) j = Some s" and v: "evaluate_validity s now = Inr v"
    by (auto simp: bindR_Inr_iff split: option.splits)
  note c = snapshot_ok_current [OF Cons.prems(2) s]
  show ?case
  proof (cases "lapsed s now")
    case False
    from evaluate_validity_kept [OF c(2) assms(3) False] v have "\<not> vo_changed v" by fastforce
    with Cons s v show ?thesis by simp
  next
    case True
    from evaluate_validity_lapsed [OF c(2) assms(3) True] v have "expired_successor s now = Inr (vo_state v)"
      and t: "vo_changed v" "runtime_state_valid (vo_state v)" "next_record s (vo_state v)" by fastforce+
    with expired_successor_spec [OF c(2) assms(3)] have lo: "rs_last_observed_at (vo_state v) = rs_last_observed_at s"
      by (metis sum.inject(2))
    from Cons.prems(1) s v t obtain x where x: "transition_record s (vo_state v) now = Inr x"
      and rest: "validity_pass now ks (sn\<lparr>sn_currents := AList.update j (vo_state v) (sn_currents sn),
            sn_transitions := sn_transitions sn @ [x]\<rparr>) = Inr sn'"
      by (auto simp: bindR_Inr_iff)
    have "observed_after k t (sn\<lparr>sn_currents := AList.update j (vo_state v) (sn_currents sn),
            sn_transitions := sn_transitions sn @ [x]\<rparr>)"
      using Cons.prems(3) s lo by (auto simp: observed_after_def)
    from Cons.IH [OF rest snapshot_ok_step [OF Cons.prems(2) s t(2) chain_step [OF x t(3,2)]] this] show ?thesis .
  qed
qed simp

lemma apply_state_intent_observed:
  assumes "apply_state_intent reg now i sn = Inr sn'" and "snapshot_ok base sn" and "observed_after k t sn" and "dt_less t now"
  shows "observed_after k t sn'"
proof (cases "map_of (sn_currents sn) (intent_key i)")
  case None
  with assms(1,3) show ?thesis
    by (auto simp: apply_state_intent_def Let_def bindR_Inr_iff observed_after_def)
next
  case (Some s)
  note c = snapshot_ok_current [OF assms(2) Some]
  show ?thesis
  proof (cases "sn' = sn\<lparr>sn_deferred := sn_deferred sn @ [i]\<rparr>")
    case True
    with assms(3) show ?thesis by (simp add: observed_after_def)
  next
    case False
    with assms(1) Some obtain u us where r: "reconcile_state reg s i now = Inr (u, us)"
      and sn': "sn' = sn\<lparr>sn_currents := AList.update (intent_key i) u (sn_currents sn), sn_transitions := sn_transitions sn @ us\<rparr>"
      by (auto simp: apply_state_intent_def Let_def bindR_Inr_iff split: if_splits)
    from reconcile_state_ok [OF r c(2)] c(1) have "u = s \<or> rs_last_observed_at u = now"
      by (simp add: reconciled_ok_def)
    with assms(3,4) Some show ?thesis by (auto simp: observed_after_def sn')
  qed
qed

lemma apply_state_intents_observed:
  assumes "apply_state_intents reg now is sn = Inr sn'" and "snapshot_ok base sn" and "observed_after k t sn"
    and "dt_less t now" and "\<forall>i \<in> set is. scope_valid (si_scope i)"
  shows "observed_after k t sn'"
  using assms(1-3,5)
proof (induction "is" arbitrary: sn)
  case (Cons i "is")
  then obtain sn1 where 1: "apply_state_intent reg now i sn = Inr sn1" and 2: "apply_state_intents reg now is sn1 = Inr sn'"
    by (auto simp: bindR_Inr_iff)
  from apply_state_intent_ok [OF 1 Cons.prems(2)] Cons.prems(4) have "snapshot_ok base sn1" by simp
  from Cons.IH [OF 2 this apply_state_intent_observed [OF 1 Cons.prems(2,3) assms(4)]] Cons.prems(4) show ?case by simp
qed simp


lemma stale_intent_deferred:
  assumes "observed_after (intent_key i) (si_observed_at i) sn" and "is_aware_utc (si_observed_at i)" and "snapshot_ok base sn"
  shows "apply_state_intent reg now i sn = Inr (sn\<lparr>sn_deferred := sn_deferred sn @ [i]\<rparr>)"
proof -
  from assms(1) obtain s where s: "map_of (sn_currents sn) (intent_key i) = Some s"
    "dt_less (si_observed_at i) (rs_last_observed_at s)"
    by (auto simp: observed_after_def split: option.splits)
  from snapshot_ok_current [OF assms(3) s(1)] have "is_aware_utc (rs_last_observed_at s)" by (simp add: valid_state)
  with s assms(2) show ?thesis by (simp add: apply_state_intent_def Let_def)
qed

text \<open>The records of a final snapshot do not depend on what was deferred.\<close>

definition finish_pass :: "snapshot \<Rightarrow> reconcile_result result" where
  "finish_pass sn = bindR (mapR (\<lambda>key. case map_of (sn_currents sn) key of None \<Rightarrow> Inl (KeyError ''key'') | Some s \<Rightarrow> Inr s)
       (sn_order sn)) (\<lambda>effective.
     Inr \<lparr>rr_canonical = effective, rr_transitions = sn_transitions sn, rr_effective = effective,
       rr_deferred = sn_deferred sn\<rparr>)"

lemma reconcile_apply_passes:
  assumes "validity_pass now (sn_order (load_snapshot canonical empty_snapshot)) (load_snapshot canonical empty_snapshot) = Inr sn"
  shows "reconcile_apply reg now canonical is = bindR (apply_state_intents reg now is sn) finish_pass"
  using assms by (simp add: reconcile_apply_def Let_def finish_pass_def [abs_def])

lemma finish_pass_deferred:
  "finish_pass (sn\<lparr>sn_deferred := d\<rparr>) = (case finish_pass sn of Inl e \<Rightarrow> Inl e | Inr r \<Rightarrow> Inr (r\<lparr>rr_deferred := d\<rparr>))"
  by (simp add: finish_pass_def bindR_def split: sum.splits)

text \<open>
  C20. Delayed intents never roll a state back: an intent observed before the last observation of its
  dimension in the snapshot is put on the deferred list, and the pass is otherwise exactly the pass without
  it, whatever intents stand before and after it: the same records and transitions, or the same failure.
\<close>

theorem delayed_intents_change_nothing:
  assumes "list_all runtime_state_valid canonical" and "is_aware_utc now"
    and "\<forall>j \<in> set (xs @ ys). scope_valid (si_scope j)"
    and "latest canonical (intent_key i) = Some s" and "is_aware_utc (si_observed_at i)"
    and "dt_less (si_observed_at i) (rs_last_observed_at s)" and "dt_le (rs_last_observed_at s) now"
  shows "case reconcile_apply reg now canonical (xs @ ys) of
      Inl e \<Rightarrow> reconcile_apply reg now canonical (xs @ i # ys) = Inl e
    | Inr r \<Rightarrow> \<exists>d1 d2. rr_deferred r = d1 @ d2 \<and>
        reconcile_apply reg now canonical (xs @ i # ys) = Inr (r\<lparr>rr_deferred := d1 @ i # d2\<rparr>)"
proof -
  let ?sn = "load_snapshot canonical empty_snapshot" and ?t = "si_observed_at i"
  note l = load_snapshot_ok [OF assms(1)]
  have obs: "observed_after (intent_key i) ?t ?sn" by (simp add: observed_after_def load_snapshot_empty assms(4,6))
  show ?thesis
  proof (cases "validity_pass now (sn_order ?sn) ?sn")
    case (Inl e)
    then show ?thesis by (simp add: reconcile_apply_def Let_def)
  next
    case (Inr sn1)
    note ra = reconcile_apply_passes [OF Inr, of reg]
    from validity_pass_ok [OF Inr l assms(2)] have ok1: "snapshot_ok (latest canonical) sn1" by simp
    note obs1 = validity_pass_observed [OF Inr l assms(2) obs]
    show ?thesis
    proof (cases "apply_state_intents reg now xs sn1")
      case (Inl e)
      then show ?thesis by (simp add: ra apply_state_intents_append)
    next
      case (Inr sn2)
      have sc: "\<forall>j \<in> set xs. scope_valid (si_scope j)" and late: "dt_less ?t now"
        using assms(3,6,7) by (auto simp: dt_less_def dt_le_def)
      from apply_state_intents_ok [OF Inr ok1 sc] have ok2: "snapshot_ok (latest canonical) sn2" by simp
      note stale = stale_intent_deferred [OF apply_state_intents_observed [OF Inr ok1 obs1 late sc] assms(5) ok2]
      show ?thesis
      proof (cases "apply_state_intents reg now ys sn2")
        case (Inl e)
        with apply_state_intents_deferred [of reg now ys "sn_deferred sn2 @ [i]" sn2] \<open>_ = Inr sn2\<close> show ?thesis
          by (simp add: ra apply_state_intents_append stale)
      next
        case (Inr sn3)
        with apply_state_intents_deferred [of reg now ys "sn_deferred sn2 @ [i]" sn2] obtain es
          where es: "sn_deferred sn3 = sn_deferred sn2 @ es"
            "apply_state_intents reg now ys (sn2\<lparr>sn_deferred := sn_deferred sn2 @ [i]\<rparr>) =
              Inr (sn3\<lparr>sn_deferred := (sn_deferred sn2 @ [i]) @ es\<rparr>)" by auto
        have split: "\<exists>d1 d2. rr_deferred r = d1 @ d2 \<and> r\<lparr>rr_deferred := sn_deferred sn2 @ i # es\<rparr> = r\<lparr>rr_deferred := d1 @ i # d2\<rparr>"
          if "finish_pass sn3 = Inr r" for r
        proof -
          from that have "rr_deferred r = sn_deferred sn2 @ es" by (auto simp: finish_pass_def bindR_Inr_iff es(1))
          then show ?thesis by blast
        qed
        from Inr es(2) \<open>_ = Inr sn2\<close> show ?thesis
          by (cases "finish_pass sn3") (simp_all add: ra apply_state_intents_append stale finish_pass_deferred split)
      qed
    qed
  qed
qed


section \<open>A concrete pass\<close>

definition mood_definition :: state_definition where
  "mood_definition = \<lparr>sd_key = ''user.mood'', sd_domain = D_USER, sd_value_type = CATEGORICAL,
     sd_dynamics_policy = ''none'', sd_default_validity_policy = Some ''ttl:30m'', sd_bounds = None\<rparr>"

definition mood_registry :: registry where
  "mood_registry = [(''user.mood'', mood_definition)]"

definition mood_state :: "string \<Rightarrow> int \<Rightarrow> runtime_state" where
  "mood_state user lasts = \<lparr>rs_state_id = ''user.mood:3'', rs_scope = user_scope user, rs_dimension = ''user.mood'',
     rs_value = VStr ''calm'', rs_status = ''active'', rs_valid_from = utc 0, rs_valid_until = Some (utc lasts),
     rs_relevant_until = None, rs_last_observed_at = utc 10, rs_evidence_refs = [''e1''],
     rs_transition_refs = [], rs_updated_at = utc 10, rs_origin_runtime_id = ''r1'', rs_version = 3,
     rs_sync = mk_sync (user_scope user) ''r1'' ''user.mood:3'' 3 ''idem-3''\<rparr>"

definition mood_intent :: "string \<Rightarrow> string \<Rightarrow> int \<Rightarrow> state_intent" where
  "mood_intent user v observed = \<lparr>si_dimension = ''user.mood'', si_value = VStr v, si_observed_at = utc observed,
     si_scope = user_scope user, si_origin_runtime_id = ''r1'', si_evidence_refs = [''e2''], si_lifecycle = None\<rparr>"

lemma mood_valid: "runtime_state_valid (mood_state ''u1'' 50)" "runtime_state_valid (mood_state ''u1'' 500)"
  "intent_ok (mood_intent ''u1'' ''glad'' 20)" "intent_ok (mood_intent ''u1'' ''calm'' 30)"
  "intent_ok (mood_intent ''u1'' ''sad'' 5)" "registry_ok mood_registry (utc 100)"
  by code_simp+

lemma mood_pass:
  "is_ok (reconcile_apply mood_registry (utc 100) [mood_state ''u1'' 50] [mood_intent ''u1'' ''sad'' 5, mood_intent ''u1'' ''glad'' 20])"
  by code_simp


text \<open>
  One update per dimension and pass: once an intent has changed the record of its dimension, every
  later intent of the pass for that dimension that was observed before the instant of the pass is deferred,
  even one observed after the intent that was applied: the record's last observation is set to the
  instant of the pass, not to the time of the observation.
\<close>

theorem second_update_deferred:
  assumes "snapshot_ok base sn" and "scope_valid (si_scope i)" and "apply_state_intent reg now i sn = Inr sn'"
    and "map_of (sn_currents sn') (intent_key i) \<noteq> map_of (sn_currents sn) (intent_key i)"
    and "intent_key j = intent_key i" and "is_aware_utc (si_observed_at j)" and "dt_less (si_observed_at j) now"
  shows "apply_state_intent reg now j sn' = Inr (sn'\<lparr>sn_deferred := sn_deferred sn' @ [j]\<rparr>)"
proof -
  have "\<exists>t. map_of (sn_currents sn') (intent_key i) = Some t \<and> rs_last_observed_at t = now"
  proof (cases "map_of (sn_currents sn) (intent_key i)")
    case None
    with assms(3) obtain t where t: "create_state reg i now = Inr t"
      and sn': "sn_currents sn' = AList.update (intent_key i) t (sn_currents sn)"
      by (auto simp: apply_state_intent_def Let_def bindR_Inr_iff)
    with fresh_state_Inr [OF t [unfolded create_state_def] assms(2)] show ?thesis by simp
  next
    case (Some s)
    note c = snapshot_ok_current [OF assms(1) Some]
    from assms(3,4) Some obtain t ts where r: "reconcile_state reg s i now = Inr (t, ts)"
      and sn': "sn_currents sn' = AList.update (intent_key i) t (sn_currents sn)"
      by (auto simp: apply_state_intent_def Let_def bindR_Inr_iff split: if_splits)
    from assms(4) Some sn' have "t \<noteq> s" by auto
    with reconcile_state_ok [OF r c(2)] c(1) sn' show ?thesis by (simp add: reconciled_ok_def)
  qed
  then have "observed_after (intent_key j) (si_observed_at j) sn'"
    using assms(5,7) by (auto simp: observed_after_def)
  moreover from apply_state_intent_ok [OF assms(3,1,2)] have "snapshot_ok base sn'" by simp
  ultimately show ?thesis using stale_intent_deferred assms(6) by blast
qed

lemma mood_snapshot: "snapshot_ok (latest [mood_state ''u1'' 500]) (load_snapshot [mood_state ''u1'' 500] empty_snapshot)"
  using load_snapshot_ok [of "[mood_state ''u1'' 500]"] mood_valid by simp

definition glad_snapshot :: snapshot where
  "glad_snapshot = (case apply_state_intent mood_registry (utc 100) (mood_intent ''u1'' ''glad'' 20)
     (load_snapshot [mood_state ''u1'' 500] empty_snapshot) of Inr sn \<Rightarrow> sn | Inl e \<Rightarrow> empty_snapshot)"

lemma glad_step:
  "apply_state_intent mood_registry (utc 100) (mood_intent ''u1'' ''glad'' 20)
     (load_snapshot [mood_state ''u1'' 500] empty_snapshot) = Inr glad_snapshot"
  "map_of (sn_currents glad_snapshot) (user_scope ''u1'', ''user.mood'') \<noteq>
     map_of (sn_currents (load_snapshot [mood_state ''u1'' 500] empty_snapshot)) (user_scope ''u1'', ''user.mood'')"
  by code_simp+

theorem second_update_deferred_witness:
  "apply_state_intent mood_registry (utc 100) (mood_intent ''u1'' ''sad'' 30) glad_snapshot =
     Inr (glad_snapshot\<lparr>sn_deferred := sn_deferred glad_snapshot @ [mood_intent ''u1'' ''sad'' 30]\<rparr>)"
proof (rule second_update_deferred [OF mood_snapshot _ glad_step(1)])
  show "scope_valid (si_scope (mood_intent ''u1'' ''glad'' 20))" by code_simp
  show "map_of (sn_currents glad_snapshot) (intent_key (mood_intent ''u1'' ''glad'' 20)) \<noteq>
      map_of (sn_currents (load_snapshot [mood_state ''u1'' 500] empty_snapshot)) (intent_key (mood_intent ''u1'' ''glad'' 20))"
    using glad_step(2) by (simp add: mood_intent_def)
qed (simp_all add: mood_intent_def dt_less_def)


theorem reconcile_history_witness:
  "\<exists>r. reconcile_apply mood_registry (utc 100) [mood_state ''u1'' 50]
      [mood_intent ''u1'' ''sad'' 5, mood_intent ''u1'' ''glad'' 20] = Inr r \<and>
     distinct (map state_key_of (rr_canonical r)) \<and>
     state_key_of ` set (rr_canonical r) = {(user_scope ''u1'', ''user.mood'')}"
proof -
  from mood_pass obtain r where r: "reconcile_apply mood_registry (utc 100) [mood_state ''u1'' 50]
      [mood_intent ''u1'' ''sad'' 5, mood_intent ''u1'' ''glad'' 20] = Inr r"
    by (cases "reconcile_apply mood_registry (utc 100) [mood_state ''u1'' 50]
      [mood_intent ''u1'' ''sad'' 5, mood_intent ''u1'' ''glad'' 20]") simp_all
  have "list_all runtime_state_valid [mood_state ''u1'' 50]" using mood_valid by simp
  from reconcile_history [OF this _ _ r] r mood_valid(3,5) show ?thesis
    by (auto simp: intent_ok_def mood_intent_def mood_state_def)
qed

theorem reconcile_never_fails_witness:
  "\<exists>r. reconcile_apply mood_registry (utc 100) [mood_state ''u1'' 50] [mood_intent ''u1'' ''calm'' 30] = Inr r"
proof (rule reconcile_never_fails [OF _ _ mood_valid(6)])
  show "list_all runtime_state_valid [mood_state ''u1'' 50]" using mood_valid by simp
  show "list_all (\<lambda>s. is_known_lifecycle (rs_status s)) [mood_state ''u1'' 50]" by code_simp
  show "\<forall>i \<in> set [mood_intent ''u1'' ''calm'' 30]. intent_ok i \<and> si_lifecycle i = None"
    using mood_valid(4) by (simp add: mood_intent_def)
qed simp

theorem delayed_intents_change_nothing_witness:
  "case reconcile_apply mood_registry (utc 100) [mood_state ''u1'' 50] [mood_intent ''u1'' ''glad'' 20] of
      Inl e \<Rightarrow> False
    | Inr r \<Rightarrow> \<exists>d1 d2. rr_deferred r = d1 @ d2 \<and>
        reconcile_apply mood_registry (utc 100) [mood_state ''u1'' 50]
          [mood_intent ''u1'' ''sad'' 5, mood_intent ''u1'' ''glad'' 20] =
        Inr (r\<lparr>rr_deferred := d1 @ mood_intent ''u1'' ''sad'' 5 # d2\<rparr>)"
proof -
  let ?i = "mood_intent ''u1'' ''sad'' 5"
  have "list_all runtime_state_valid [mood_state ''u1'' 50]" using mood_valid by simp
  moreover have "latest [mood_state ''u1'' 50] (intent_key ?i) = Some (mood_state ''u1'' 50)"
    by (simp add: latest_simps mood_state_def mood_intent_def)
  moreover have "\<forall>j \<in> set ([] @ [mood_intent ''u1'' ''glad'' 20]). scope_valid (si_scope j)"
    using mood_valid(3) by (simp add: intent_ok_def)
  moreover have "is_ok (reconcile_apply mood_registry (utc 100) [mood_state ''u1'' 50] [mood_intent ''u1'' ''glad'' 20])"
    by code_simp
  ultimately show ?thesis
    using delayed_intents_change_nothing [of "[mood_state ''u1'' 50]" "utc 100" "[]" "[mood_intent ''u1'' ''glad'' 20]" ?i
        "mood_state ''u1'' 50" mood_registry]
    by (auto simp: mood_intent_def mood_state_def dt_less_def dt_le_def split: sum.splits)
qed


end
