(* ===== verification/State_Resolver.thy ===== *)
theory State_Resolver
  imports State_Reconciliation
begin

text \<open>
  The single read gate for state (\<^verbatim>\<open>state/resolver.py\<close>) and the pipeline port on top of it
  (\<^verbatim>\<open>state/ports.py\<close>). Resolving is a pure read: the latest record of every scope and dimension,
  overlay records over canonical ones, is effective or not at the instant of the read. The lemmas relate
  it to the latest records of the snapshot and to what a reconcile pass writes.
\<close>

section \<open>Resolving\<close>

record effective_view =
  ev_states :: "runtime_state list"
  ev_resolved_at :: datetime

type_synonym gathered = "(state_key \<times> runtime_state) list \<times> state_key list"

fun gather_states :: "runtime_state list \<Rightarrow> gathered \<Rightarrow> gathered" where
  "gather_states [] g = g"
| "gather_states (s # ss) (currents, order) = (let key = state_key_of s in
     gather_states ss (AList.update key s currents,
       if map_of currents key = None then order @ [key] else order))"

fun effective_states :: "datetime \<Rightarrow> (state_key \<times> runtime_state) list \<Rightarrow> state_key list \<Rightarrow> runtime_state list result" where
  "effective_states now currents [] = Inr []"
| "effective_states now currents (key # ks) = (case map_of currents key of
      None \<Rightarrow> Inl (KeyError ''key'')
    | Some s \<Rightarrow>
        if \<not> is_known_lifecycle (rs_status s)
        then Inl (ValueError (''opaque status '' @ rs_status s @ '' cannot be resolved''))
        else if state_is_terminal (rs_status s)
        then bindR (effective_states now currents ks) (\<lambda>rest. Inr (s # rest))
        else if \<not> is_current_like (rs_status s) then effective_states now currents ks
        else bindR (not_lapsed now (rs_valid_until s)) (\<lambda>ok.
          if \<not> ok then effective_states now currents ks
          else bindR (effective_states now currents ks) (\<lambda>rest. Inr (s # rest))))"

definition resolve :: "runtime_state list \<Rightarrow> datetime \<Rightarrow> runtime_state list \<Rightarrow> effective_view result" where
  "resolve canonical now overlay =
     (case gather_states overlay (gather_states canonical ([], [])) of (currents, order) \<Rightarrow>
       bindR (effective_states now currents order) (\<lambda>effective.
       Inr \<lparr>ev_states = effective, ev_resolved_at = now\<rparr>))"

definition for_dimension :: "effective_view \<Rightarrow> string \<Rightarrow> scope \<Rightarrow> runtime_state option" where
  "for_dimension view dimension sc = find (\<lambda>s. rs_dimension s = dimension \<and> rs_scope s = sc) (ev_states view)"

definition for_scope :: "effective_view \<Rightarrow> scope \<Rightarrow> runtime_state list" where
  "for_scope view sc = filter (\<lambda>s. rs_scope s = sc) (ev_states view)"

section \<open>The pipeline port\<close>

text \<open>The first state of the scope that shares evidence with the turn, else the first of the scope,
  else a synthesized passthrough.\<close>

definition passthrough_state :: "string \<Rightarrow> string \<Rightarrow> string list \<Rightarrow> scope \<Rightarrow> datetime \<Rightarrow> runtime_state result" where
  "passthrough_state runtime_id interaction_id evidence_refs sc now =
     (let state_id = ''effective-'' @ interaction_id in
     mk_runtime_state
       \<lparr>rs_state_id = state_id, rs_scope = sc, rs_dimension = scope_domain_value (sc_domain sc) @ ''.effective'',
        rs_value = VMap [(VStr ''evidence_refs'', VList (map VStr evidence_refs))], rs_status = ''active'',
        rs_valid_from = now, rs_valid_until = None, rs_relevant_until = None, rs_last_observed_at = now,
        rs_evidence_refs = evidence_refs, rs_transition_refs = [], rs_updated_at = now,
        rs_origin_runtime_id = runtime_id, rs_version = 1,
        rs_sync = mk_sync sc runtime_id state_id 1 ''idem-eff''\<rparr>)"

definition effective_port ::
  "string \<Rightarrow> string \<Rightarrow> string list \<Rightarrow> runtime_state list \<Rightarrow> scope \<Rightarrow> datetime \<Rightarrow> runtime_state result" where
  "effective_port runtime_id interaction_id evidence_refs canonical_snapshot sc now =
     bindR (resolve canonical_snapshot now []) (\<lambda>view.
     case find (\<lambda>s. rs_scope s = sc \<and> set evidence_refs \<inter> set (rs_evidence_refs s) \<noteq> {}) (ev_states view) of
       Some s \<Rightarrow> Inr s
     | None \<Rightarrow> (case find (\<lambda>s. rs_scope s = sc) (ev_states view) of
         Some s \<Rightarrow> Inr s
       | None \<Rightarrow> passthrough_state runtime_id interaction_id evidence_refs sc now))"

section \<open>Which records are resolved\<close>

fun first_keys :: "'a list \<Rightarrow> 'a list" where
  "first_keys [] = []"
| "first_keys (k # ks) = k # filter (\<lambda>j. j \<noteq> k) (first_keys ks)"

lemma set_first_keys [simp]: "set (first_keys ks) = set ks"
  by (induction ks) auto

lemma distinct_first_keys [simp]: "distinct (first_keys ks)"
  by (induction ks) auto

text \<open>The record that counts for each key, in the order in which the keys first appear.\<close>

definition winners :: "runtime_state list \<Rightarrow> runtime_state list" where
  "winners states = map (\<lambda>k. the (latest states k)) (first_keys (map state_key_of states))"

definition is_effective :: "datetime \<Rightarrow> runtime_state \<Rightarrow> bool" where
  "is_effective now s \<longleftrightarrow> state_is_terminal (rs_status s) \<or> is_current_like (rs_status s) \<and> \<not> lapsed s now"

lemma gather_append: "gather_states (xs @ ys) g = gather_states ys (gather_states xs g)"
  by (induction xs g rule: gather_states.induct) (simp_all add: Let_def)

lemma gather_map:
  "map_of (fst (gather_states ss g)) k = (case latest ss k of None \<Rightarrow> map_of (fst g) k | Some s \<Rightarrow> Some s)"
  by (induction ss g rule: gather_states.induct) (auto simp: latest_simps Let_def split: option.splits)

lemma gather_order:
  "set (snd g) = fst ` set (fst g) \<Longrightarrow>
    snd (gather_states ss g) = snd g @ filter (\<lambda>k. k \<notin> set (snd g)) (first_keys (map state_key_of ss))"
proof (induction ss g rule: gather_states.induct)
  case (2 s ss currents order)
  let ?k = "state_key_of s"
  let ?g = "(AList.update ?k s currents, if map_of currents ?k = None then order @ [?k] else order)"
  have in_order: "map_of currents ?k = None \<longleftrightarrow> ?k \<notin> set order" using 2(2) by (simp add: map_of_eq_None_iff)
  have "set (snd ?g) = fst ` set (fst ?g)" using 2(2) in_order by (auto simp: update_keys map_of_eq_None_iff image_iff simp flip: set_map)
  from "2.IH" [OF refl this] in_order show ?case
    by (auto simp: Let_def filter_filter intro!: filter_cong)
qed simp

lemma is_effective_cases:
  "rs_status s = lifecycle_status EXPIRED \<Longrightarrow> \<not> is_effective now s"
  "state_is_terminal (rs_status s) \<Longrightarrow> is_effective now s"
  "is_current_like (rs_status s) \<Longrightarrow> is_effective now s \<longleftrightarrow> \<not> lapsed s now"
  by (auto simp: is_effective_def not_terminal_current)

lemma effective_states_spec:
  assumes "\<And>k. k \<in> set ks \<Longrightarrow> \<exists>s. map_of currents k = Some s \<and> w k = s \<and> runtime_state_valid s" and "is_aware_utc now"
  shows "case effective_states now currents ks of
      Inl e \<Rightarrow> \<exists>k \<in> set ks. \<not> is_known_lifecycle (rs_status (w k))
    | Inr es \<Rightarrow> (\<forall>k \<in> set ks. is_known_lifecycle (rs_status (w k))) \<and> es = filter (is_effective now) (map w ks)"
  using assms(1)
proof (induction ks)
  case (Cons k ks)
  then obtain s where s: "map_of currents k = Some s" "w k = s" "runtime_state_valid s" by auto
  from Cons have IH: "case effective_states now currents ks of
      Inl e \<Rightarrow> \<exists>k \<in> set ks. \<not> is_known_lifecycle (rs_status (w k))
    | Inr es \<Rightarrow> (\<forall>k \<in> set ks. is_known_lifecycle (rs_status (w k))) \<and> es = filter (is_effective now) (map w ks)"
    by simp
  have na: "not_lapsed now (rs_valid_until s) = Inr (\<not> (\<exists>t. rs_valid_until s = Some t \<and> dt_less t now))"
    by (rule not_lapsed_aware [OF assms(2) valid_state_until [OF s(3)]])
  have lap: "lapsed s now \<longleftrightarrow> is_current_like (rs_status s) \<and> (\<exists>t. rs_valid_until s = Some t \<and> dt_less t now)"
    by (auto simp: lapsed_def split: option.splits)
  show ?case
  proof (cases "rs_status s" rule: status_cases)
    case Expired
    with s IH show ?thesis by (auto simp: is_effective_cases split: sum.splits)
  next
    case Terminal
    with s IH show ?thesis
      by (cases "effective_states now currents ks") (auto simp: is_effective_cases)
  next
    case Opaque
    with s show ?thesis by simp
  next
    case Current
    with s IH na lap show ?thesis
      by (cases "effective_states now currents ks") (auto simp: is_effective_cases)
  qed
qed simp

lemma winners_latest:
  assumes "k \<in> state_key_of ` set states"
  obtains s where "latest states k = Some s" and "s \<in> set states"
  using assms latest_None [of states k] latest_Some [of states k] by (cases "latest states k") auto

lemma winners_key: "map state_key_of (winners states) = first_keys (map state_key_of states)"
proof -
  have "state_key_of (the (latest states k)) = k" if "k \<in> set (first_keys (map state_key_of states))" for k
  proof -
    from that have "k \<in> state_key_of ` set states" by simp
    from winners_latest [OF this] obtain s where "latest states k = Some s" by blast
    with latest_Some [OF this] show ?thesis by simp
  qed
  then show ?thesis by (auto simp: winners_def intro!: map_idI)
qed

lemma winners_in: "w \<in> set (winners states) \<Longrightarrow> w \<in> set states \<and> latest states (state_key_of w) = Some w"
proof -
  assume "w \<in> set (winners states)"
  then obtain k where k: "k \<in> state_key_of ` set states" "w = the (latest states k)" by (auto simp: winners_def)
  from winners_latest [OF k(1)] obtain s where "latest states k = Some s" "s \<in> set states" by blast
  with k latest_Some [of states k s] show ?thesis by auto
qed

lemma resolve_spec:
  assumes "list_all runtime_state_valid (canonical @ overlay)" and "is_aware_utc now"
  shows "case resolve canonical now overlay of
      Inl e \<Rightarrow> list_ex (\<lambda>w. \<not> is_known_lifecycle (rs_status w)) (winners (canonical @ overlay))
    | Inr view \<Rightarrow> list_all (\<lambda>w. is_known_lifecycle (rs_status w)) (winners (canonical @ overlay)) \<and>
        view = \<lparr>ev_states = filter (is_effective now) (winners (canonical @ overlay)), ev_resolved_at = now\<rparr>"
proof -
  let ?all = "canonical @ overlay"
  let ?g = "gather_states ?all ([], [])"
  have m: "map_of (fst ?g) k = latest ?all k" for k by (simp add: gather_map split: option.splits)
  have o: "snd ?g = first_keys (map state_key_of ?all)" using gather_order [of "([], [])" ?all] by simp
  have w: "\<exists>s. map_of (fst ?g) k = Some s \<and> the (latest ?all k) = s \<and> runtime_state_valid s"
    if "k \<in> set (snd ?g)" for k
  proof -
    from that have "k \<in> state_key_of ` set ?all" unfolding o set_first_keys by (simp add: image_Un)
    from winners_latest [OF this] obtain s where "latest ?all k = Some s" "s \<in> set ?all" .
    with assms(1) m show ?thesis by (auto simp: list_all_iff)
  qed
  note e = effective_states_spec [of "snd ?g" "fst ?g" "\<lambda>k. the (latest ?all k)" now, OF w assms(2)]
  have r: "resolve canonical now overlay = bindR (effective_states now (fst ?g) (snd ?g))
      (\<lambda>effective. Inr \<lparr>ev_states = effective, ev_resolved_at = now\<rparr>)"
    by (simp add: resolve_def gather_append case_prod_beta)
  have win: "winners ?all = map (\<lambda>k. the (latest ?all k)) (snd ?g)" unfolding winners_def o by simp
  show ?thesis
    using e unfolding r win by (auto simp: list_ex_iff list_all_iff split: sum.splits)
qed

text \<open>
  C21. The read gate is exact. Over valid records a read returns, for every scope and dimension of the
  snapshot or the overlay in order of first appearance, the record listed last, overlay over canonical,
  provided it is terminal or is current-like and its envelope has not lapsed at the instant of the read; each
  scope and dimension is returned at most once. The read fails if and only if one of those latest records
  has a status outside the vocabulary.
\<close>

theorem resolve_exact:
  assumes "list_all runtime_state_valid (canonical @ overlay)" and "is_aware_utc now"
  shows "case resolve canonical now overlay of
      Inl e \<Rightarrow> list_ex (\<lambda>w. \<not> is_known_lifecycle (rs_status w)) (winners (canonical @ overlay))
    | Inr view \<Rightarrow> list_all (\<lambda>w. is_known_lifecycle (rs_status w)) (winners (canonical @ overlay)) \<and>
        ev_states view = filter (is_effective now) (winners (canonical @ overlay)) \<and>
        distinct (map state_key_of (ev_states view))"
proof -
  have "distinct (map state_key_of (filter P (winners (canonical @ overlay))))" for P
    by (rule distinct_map_filter) (simp only: winners_key distinct_first_keys)
  with resolve_spec [OF assms] show ?thesis by (auto split: sum.splits)
qed


section \<open>Reading before and after the expiry is written\<close>

lemma load_gather: "(sn_currents (load_snapshot ss sn), sn_order (load_snapshot ss sn)) =
    gather_states ss (sn_currents sn, sn_order sn)"
  by (induction ss arbitrary: sn) (simp_all add: Let_def)

lemma load_snapshot_first_keys: "sn_order (load_snapshot ss empty_snapshot) = first_keys (map state_key_of ss)"
proof -
  from load_gather [of ss empty_snapshot]
  have "sn_order (load_snapshot ss empty_snapshot) = snd (gather_states ss ([], []))"
    by (metis empty_snapshot_def snapshot.select_convs(1,2) snd_conv)
  then show ?thesis using gather_order [of "([], [])" ss] by simp
qed

text \<open>What time makes of a record.\<close>

definition aged :: "datetime \<Rightarrow> runtime_state \<Rightarrow> runtime_state" where
  "aged now s = (if lapsed s now then (case expired_successor s now of Inl e \<Rightarrow> s | Inr t \<Rightarrow> t) else s)"

lemma aged_lapsed:
  assumes "runtime_state_valid s" and "is_aware_utc now" and "lapsed s now"
  shows "expired_successor s now = Inr (aged now s)" and "runtime_state_valid (aged now s)"
    and "next_record s (aged now s)" and "rs_status (aged now s) = lifecycle_status EXPIRED"
    and "rs_value (aged now s) = rs_value s"
proof -
  from expired_successor_spec [OF assms(1,2)] obtain t where t: "expired_successor s now = Inr t"
    "runtime_state_valid t" "next_record s t" "rs_status t = lifecycle_status EXPIRED" "rs_value t = rs_value s" .
  with assms(3) show "expired_successor s now = Inr (aged now s)" "runtime_state_valid (aged now s)"
    "next_record s (aged now s)" "rs_status (aged now s) = lifecycle_status EXPIRED"
    "rs_value (aged now s) = rs_value s" by (simp_all add: aged_def)
qed

lemma evaluate_validity_aged:
  assumes "runtime_state_valid s" and "is_aware_utc now"
  obtains v where "evaluate_validity s now = Inr v" and "vo_state v = aged now s" and "vo_changed v \<longleftrightarrow> lapsed s now"
proof (cases "lapsed s now")
  case True
  from evaluate_validity_lapsed [OF assms True] aged_lapsed(1) [OF assms True] that True show ?thesis by force
next
  case False
  from evaluate_validity_kept [OF assms False] that False show ?thesis by (force simp: aged_def)
qed

lemma validity_pass_aged:
  assumes "snapshot_ok base sn" and "set ks \<subseteq> set (sn_order sn)" and "distinct ks" and "is_aware_utc now"
  obtains sn' where "validity_pass now ks sn = Inr sn'"
    and "\<And>k. map_of (sn_currents sn') k =
      (if k \<in> set ks then map_option (aged now) (map_of (sn_currents sn) k) else map_of (sn_currents sn) k)"
  using assms(1-3)
proof (induction ks arbitrary: sn thesis)
  case Nil
  then show ?case by simp
next
  case (Cons k ks)
  from Cons.prems(3) order_current [OF Cons.prems(2), of k] obtain s where s: "map_of (sn_currents sn) k = Some s" by auto
  note c = snapshot_ok_current [OF Cons.prems(2) s]
  from evaluate_validity_aged [OF c(2) assms(4)] obtain v where v: "evaluate_validity s now = Inr v"
    "vo_state v = aged now s" "vo_changed v \<longleftrightarrow> lapsed s now" .
  have ks: "set ks \<subseteq> set (sn_order sn)" "distinct ks" "k \<notin> set ks" using Cons.prems(3,4) by auto
  show ?case
  proof (cases "lapsed s now")
    case False
    from Cons.IH [OF _ Cons.prems(2) ks(1,2)] obtain sn' where sn': "validity_pass now ks sn = Inr sn'"
      "\<And>j. map_of (sn_currents sn') j = (if j \<in> set ks then map_option (aged now) (map_of (sn_currents sn) j) else map_of (sn_currents sn) j)"
      by blast
    have "validity_pass now (k # ks) sn = Inr sn'" using s v False sn'(1) by simp
    moreover have "map_of (sn_currents sn') j = (if j \<in> set (k # ks) then map_option (aged now) (map_of (sn_currents sn) j)
        else map_of (sn_currents sn) j)" for j
      using sn'(2) [of j] ks(3) s False by (simp add: aged_def)
    ultimately show ?thesis by (rule Cons.prems(1))
  next
    case True
    note a = aged_lapsed [OF c(2) assms(4) True]
    from transition_record_next [OF c(2) a(2,3) assms(4)] obtain x where x: "transition_record s (aged now s) now = Inr x" .
    let ?sn = "sn\<lparr>sn_currents := AList.update k (aged now s) (sn_currents sn), sn_transitions := sn_transitions sn @ [x]\<rparr>"
    have ok: "snapshot_ok base ?sn" by (rule snapshot_ok_step [OF Cons.prems(2) s a(2) chain_step [OF x a(3,2)]])
    have "set ks \<subseteq> set (sn_order ?sn)" using ks(1) by simp
    from Cons.IH [OF _ ok this ks(2)] obtain sn' where sn': "validity_pass now ks ?sn = Inr sn'"
      "\<And>j. map_of (sn_currents sn') j = (if j \<in> set ks then map_option (aged now) (map_of (sn_currents ?sn) j) else map_of (sn_currents ?sn) j)"
      by blast
    have "validity_pass now (k # ks) sn = Inr sn'" using s v True x sn'(1) by simp
    moreover have "map_of (sn_currents sn') j = (if j \<in> set (k # ks) then map_option (aged now) (map_of (sn_currents sn) j)
        else map_of (sn_currents sn) j)" for j
      using sn'(2) [of j] ks(3) s by simp
    ultimately show ?thesis by (rule Cons.prems(1))
  qed
qed

lemma expiry_pass:
  assumes "list_all runtime_state_valid canonical" and "is_aware_utc now"
  obtains r where "reconcile_apply reg now canonical [] = Inr r"
    and "rr_canonical r = map (aged now) (winners canonical)"
proof -
  let ?sn = "load_snapshot canonical empty_snapshot"
  note l = load_snapshot_ok [OF assms(1)]
  from validity_pass_aged [OF l subset_refl snapshot_okD(1) [OF l] assms(2)] obtain sn
    where v: "validity_pass now (sn_order ?sn) ?sn = Inr sn"
      "\<And>k. map_of (sn_currents sn) k = (if k \<in> set (sn_order ?sn)
         then map_option (aged now) (map_of (sn_currents ?sn) k) else map_of (sn_currents ?sn) k)" by metis
  from validity_pass_ok [OF v(1) l assms(2)] have ord: "sn_order sn = sn_order ?sn" by simp
  have "mapR (\<lambda>key. case map_of (sn_currents sn) key of None \<Rightarrow> Inl (KeyError ''key'') | Some s \<Rightarrow> Inr s) (sn_order sn) =
      Inr (map (\<lambda>k. aged now (the (latest canonical k))) (sn_order ?sn))"
    unfolding ord
  proof (rule mapR_all_ok)
    fix k
    assume k: "k \<in> set (sn_order ?sn)"
    then have "k \<in> state_key_of ` set canonical" by (simp add: load_snapshot_first_keys)
    from winners_latest [OF this] obtain s where "latest canonical k = Some s" by blast
    with v(2) [of k] k show "(case map_of (sn_currents sn) k of None \<Rightarrow> Inl (KeyError ''key'') | Some s \<Rightarrow> Inr s) =
        Inr (aged now (the (latest canonical k)))" by (simp add: load_snapshot_empty)
  qed
  also have "map (\<lambda>k. aged now (the (latest canonical k))) (sn_order ?sn) = map (aged now) (winners canonical)"
    by (simp add: winners_def load_snapshot_first_keys)
  finally show thesis
    using that v(1) by (simp add: reconcile_apply_def Let_def)
qed


lemma first_keys_distinct: "distinct ks \<Longrightarrow> first_keys ks = ks"
  by (induction ks) (auto intro!: filter_True)

lemma latest_unique_keys: "distinct (map state_key_of ss) \<Longrightarrow> s \<in> set ss \<Longrightarrow> latest ss (state_key_of s) = Some s"
proof (induction ss)
  case (Cons t ss)
  then show ?case
    using latest_None [of ss "state_key_of s"] by (cases "s = t") (auto simp: latest_simps split: option.splits)
qed simp

lemma winners_distinct: "distinct (map state_key_of ss) \<Longrightarrow> winners ss = ss"
  by (auto simp: winners_def first_keys_distinct latest_unique_keys intro!: map_idI)

lemma aged_key:
  assumes "runtime_state_valid s" and "is_aware_utc now"
  shows "state_key_of (aged now s) = state_key_of s" and "runtime_state_valid (aged now s)"
    and "is_effective now (aged now s) \<longleftrightarrow> is_effective now s" and "is_effective now s \<Longrightarrow> aged now s = s"
    and "is_known_lifecycle (rs_status (aged now s)) \<longleftrightarrow> is_known_lifecycle (rs_status s)"
proof -
  have "state_key_of (aged now s) = state_key_of s \<and> runtime_state_valid (aged now s) \<and>
    (is_effective now (aged now s) \<longleftrightarrow> is_effective now s) \<and> (is_effective now s \<longrightarrow> aged now s = s) \<and>
    (is_known_lifecycle (rs_status (aged now s)) \<longleftrightarrow> is_known_lifecycle (rs_status s))"
  proof (cases "lapsed s now")
    case False
    with assms(1) show ?thesis by (simp add: aged_def)
  next
    case True
    then have cur: "is_current_like (rs_status s)" by (simp add: lapsed_def)
    then have "is_known_lifecycle (rs_status s)" by (cases "rs_status s" rule: status_cases) auto
    with True cur aged_lapsed(2-4) [OF assms True] show ?thesis
      by (simp add: next_record_def is_effective_cases)
  qed
  then show "state_key_of (aged now s) = state_key_of s" "runtime_state_valid (aged now s)"
    "is_effective now (aged now s) \<longleftrightarrow> is_effective now s" "is_effective now s \<Longrightarrow> aged now s = s"
    "is_known_lifecycle (rs_status (aged now s)) \<longleftrightarrow> is_known_lifecycle (rs_status s)" by blast+
qed

text \<open>
  C22. Time, and reading after it. A pass without intents never fails on valid records; its result is, in
  order of first appearance, the latest record of every scope and dimension, replaced by its expired
  successor if and only if it is current-like and its envelope has lapsed: terminal, expired and opaque
  records are never touched by time. And a read does not depend on whether that expiry has been written:
  at the same instant it gives the same view of the old snapshot and of the new one.
\<close>

theorem expiry_exact_and_invisible:
  assumes "list_all runtime_state_valid canonical" and "is_aware_utc now"
  shows "\<exists>r. reconcile_apply reg now canonical [] = Inr r \<and> rr_canonical r = map (aged now) (winners canonical) \<and>
    (case resolve canonical now [] of
       Inl e \<Rightarrow> isl (resolve (rr_canonical r) now [])
     | Inr view \<Rightarrow> resolve (rr_canonical r) now [] = Inr view)"
proof -
  from expiry_pass [OF assms] obtain r where r: "reconcile_apply reg now canonical [] = Inr r"
    "rr_canonical r = map (aged now) (winners canonical)" .
  have valid: "runtime_state_valid w" if "w \<in> set (winners canonical)" for w
    using winners_in [OF that] assms(1) by (simp add: list_all_iff)
  note a = aged_key [OF valid assms(2)]
  have "map state_key_of (rr_canonical r) = map state_key_of (winners canonical)" unfolding r(2) by (auto simp: a(1))
  then have win: "winners (rr_canonical r) = rr_canonical r"
    by (intro winners_distinct) (simp add: winners_key)
  have eff: "filter (is_effective now) (map (aged now) ws) = filter (is_effective now) ws"
    if "set ws \<subseteq> set (winners canonical)" for ws
    using that by (induction ws) (simp_all add: a(3,4))
  have known: "list_all (\<lambda>w. is_known_lifecycle (rs_status w)) (rr_canonical r) =
      list_all (\<lambda>w. is_known_lifecycle (rs_status w)) (winners canonical)"
    by (simp add: r(2) list_all_iff a(5))
  have "list_all runtime_state_valid (rr_canonical r)" by (simp add: r(2) list_all_iff a(2))
  then have v: "list_all runtime_state_valid (rr_canonical r @ [])" "list_all runtime_state_valid (canonical @ [])"
    using assms(1) by simp_all
  have opaque: "list_ex (\<lambda>w. \<not> is_known_lifecycle (rs_status w)) ws \<longleftrightarrow> \<not> list_all (\<lambda>w. is_known_lifecycle (rs_status w)) ws"
    for ws by (simp add: list_ex_iff list_all_iff)
  have effr: "filter (is_effective now) (rr_canonical r) = filter (is_effective now) (winners canonical)"
    using eff [OF subset_refl] r(2) by simp
  note views = resolve_spec [OF v(1) assms(2)] resolve_spec [OF v(2) assms(2)]
  have "case resolve canonical now [] of
       Inl e \<Rightarrow> isl (resolve (rr_canonical r) now [])
     | Inr view \<Rightarrow> resolve (rr_canonical r) now [] = Inr view"
    using views known
    by (cases "resolve canonical now []"; cases "resolve (rr_canonical r) now []")
      (simp_all add: opaque win effr)
  with r show ?thesis by blast
qed

section \<open>The port\<close>

lemma domain_value_match:
  "state_domain_by_scope d = Some e \<Longrightarrow> state_domain_value e = scope_domain_value d"
  by (cases d) auto

lemma passthrough_total:
  assumes "is_aware_utc now" and "scope_valid sc" and "state_domain_by_scope (sc_domain sc) \<noteq> None"
    and "list_all non_empty refs" and "non_empty runtime_id"
  shows "\<exists>t. passthrough_state runtime_id interaction_id refs sc now = Inr t \<and> runtime_state_valid t \<and> rs_scope t = sc"
proof -
  from assms(3) obtain d where d: "state_domain_by_scope (sc_domain sc) = Some d" by blast
  have "strip ''effective'' \<noteq> []" by (simp add: strip_def is_space_def)
  from domain_key_okI [OF this, of d] d have dim: "dimension_ok sc (scope_domain_value (sc_domain sc) @ ''.effective'')"
    by (simp add: dimension_ok_def state_domain_for_scope_def domain_value_match [OF d])
  let ?r = "\<lparr>rs_state_id = ''effective-'' @ interaction_id, rs_scope = sc,
        rs_dimension = scope_domain_value (sc_domain sc) @ ''.effective'',
        rs_value = VMap [(VStr ''evidence_refs'', VList (map VStr refs))], rs_status = ''active'',
        rs_valid_from = now, rs_valid_until = None, rs_relevant_until = None, rs_last_observed_at = now,
        rs_evidence_refs = refs, rs_transition_refs = [], rs_updated_at = now,
        rs_origin_runtime_id = runtime_id, rs_version = 1,
        rs_sync = mk_sync sc runtime_id (''effective-'' @ interaction_id) 1 ''idem-eff''\<rparr>"
  have "mapR (\<lambda>x. freeze_value ''value'' x) (map VStr refs) = Inr (map VStr refs)"
    by (induction refs) simp_all
  then have v: "freeze_value ''value'' (rs_value ?r) = Inr (VMap [(VStr ''evidence_refs'', VTuple (map VStr refs))])"
    by simp
  have "non_empty (''effective-'' @ interaction_id)" "non_empty ''active''" "non_empty ''idem-eff''"
    by (simp_all add: non_empty_eval)
  with assms dim have "all_clear (state_head_checks ?r)" "all_clear (state_tail_checks ?r)"
    by (simp_all add: state_head_clear state_tail_clear)
  with v obtain t where t: "mk_runtime_state ?r = Inr t" by (simp add: mk_runtime_state_def guarded_clear)
  then have "passthrough_state runtime_id interaction_id refs sc now = Inr t" by (simp add: passthrough_state_def Let_def)
  with mk_state_fields(1,3) [OF t] assms(2) show ?thesis by simp
qed

text \<open>
  C28. What the pipeline port hands to a turn. For a scope with a state domain, and over valid records with
  statuses of the vocabulary, the port always returns a state; it is a valid state of the turn's scope; if
  the scope has an effective record, it is one, and one that shares evidence with the turn if there is any.
\<close>

theorem effective_port_sound:
  assumes "list_all runtime_state_valid canonical" and "list_all (\<lambda>s. is_known_lifecycle (rs_status s)) canonical"
    and "is_aware_utc now" and "scope_valid sc" and "state_domain_by_scope (sc_domain sc) \<noteq> None"
    and "list_all non_empty refs" and "non_empty runtime_id"
  shows "\<exists>s. effective_port runtime_id interaction_id refs canonical sc now = Inr s \<and> runtime_state_valid s \<and>
    rs_scope s = sc \<and>
    (let mine = filter (\<lambda>w. is_effective now w \<and> rs_scope w = sc) (winners canonical) in
      (mine \<noteq> [] \<longrightarrow> s \<in> set mine) \<and>
      (list_ex (\<lambda>w. set refs \<inter> set (rs_evidence_refs w) \<noteq> {}) mine \<longrightarrow> set refs \<inter> set (rs_evidence_refs s) \<noteq> {}))"
proof -
  have known: "list_all (\<lambda>w. is_known_lifecycle (rs_status w)) (winners canonical)"
    using assms(2) winners_in [of _ canonical] by (auto simp: list_all_iff)
  with resolve_spec [of canonical "[]" now] assms(1,3)
  have view: "resolve canonical now [] = Inr \<lparr>ev_states = filter (is_effective now) (winners canonical), ev_resolved_at = now\<rparr>"
    by (auto simp: list_ex_iff list_all_iff split: sum.splits)
  obtain t where t: "passthrough_state runtime_id interaction_id refs sc now = Inr t" "runtime_state_valid t" "rs_scope t = sc"
    using passthrough_total [OF assms(3-7)] by blast
  have valid: "runtime_state_valid w" if "w \<in> set (winners canonical)" for w
    using winners_in [OF that] assms(1) by (simp add: list_all_iff)
  let ?es = "filter (is_effective now) (winners canonical)"
  show ?thesis
  proof (cases "find (\<lambda>s. rs_scope s = sc \<and> set refs \<inter> set (rs_evidence_refs s) \<noteq> {}) ?es")
    case (Some s)
    from find_SomeD [OF this] have "s \<in> set ?es" "rs_scope s = sc \<and> set refs \<inter> set (rs_evidence_refs s) \<noteq> {}" by blast+
    with Some view valid show ?thesis by (auto simp: effective_port_def Let_def)
  next
    case None
    then have no: "\<not> list_ex (\<lambda>w. set refs \<inter> set (rs_evidence_refs w) \<noteq> {})
        (filter (\<lambda>w. is_effective now w \<and> rs_scope w = sc) (winners canonical))"
      by (auto simp: find_None_iff list_ex_iff)
    show ?thesis
    proof (cases "find (\<lambda>s. rs_scope s = sc) ?es")
      case (Some s)
      from find_SomeD [OF this] have "s \<in> set ?es" "rs_scope s = sc" by blast+
      with Some None view valid no show ?thesis by (auto simp: effective_port_def Let_def)
    next
      case none: None
      then have "filter (\<lambda>w. is_effective now w \<and> rs_scope w = sc) (winners canonical) = []"
        by (auto simp: find_None_iff filter_empty_conv)
      with none None view t show ?thesis by (simp add: effective_port_def Let_def)
    qed
  qed
qed


section \<open>Concrete reads\<close>

lemma mood_read: "list_all runtime_state_valid ([mood_state ''u1'' 50] @ [mood_state ''u1'' 500])"
  "list_all (\<lambda>s. is_known_lifecycle (rs_status s)) [mood_state ''u1'' 50]"
  "is_ok (resolve [mood_state ''u1'' 50] (utc 100) [mood_state ''u1'' 500])"
  "winners ([mood_state ''u1'' 50] @ [mood_state ''u1'' 500]) = [mood_state ''u1'' 500]"
  "is_effective (utc 100) (mood_state ''u1'' 500)"
  by code_simp+

theorem resolve_exact_witness:
  "\<exists>view. resolve [mood_state ''u1'' 50] (utc 100) [mood_state ''u1'' 500] = Inr view \<and>
     ev_states view = [mood_state ''u1'' 500]"
proof (cases "resolve [mood_state ''u1'' 50] (utc 100) [mood_state ''u1'' 500]")
  case (Inl e)
  with mood_read(3) show ?thesis by simp
next
  case (Inr view)
  with resolve_exact [OF mood_read(1), of "utc 100"] mood_read(4,5) show ?thesis by simp
qed

theorem expiry_exact_and_invisible_witness:
  "\<exists>r. reconcile_apply mood_registry (utc 100) [mood_state ''u1'' 50] [] = Inr r \<and>
     map rs_status (rr_canonical r) = [''expired''] \<and> resolve (rr_canonical r) (utc 100) [] =
       resolve [mood_state ''u1'' 50] (utc 100) []"
proof -
  have v: "list_all runtime_state_valid [mood_state ''u1'' 50]" using mood_read(1) by simp
  from expiry_exact_and_invisible [OF this, of "utc 100" mood_registry] obtain r where
    r: "reconcile_apply mood_registry (utc 100) [mood_state ''u1'' 50] [] = Inr r"
      "rr_canonical r = map (aged (utc 100)) (winners [mood_state ''u1'' 50])"
      "case resolve [mood_state ''u1'' 50] (utc 100) [] of
         Inl e \<Rightarrow> isl (resolve (rr_canonical r) (utc 100) [])
       | Inr view \<Rightarrow> resolve (rr_canonical r) (utc 100) [] = Inr view" by auto
  have "is_ok (resolve [mood_state ''u1'' 50] (utc 100) [])"
    "map (rs_status \<circ> aged (utc 100)) (winners [mood_state ''u1'' 50]) = [''expired'']" by code_simp+
  with r show ?thesis by (auto split: sum.splits)
qed

theorem effective_port_sound_witness:
  "\<exists>s. effective_port ''r1'' ''i1'' [''e1''] [mood_state ''u1'' 50] (user_scope ''u1'') (utc 40) = Inr s \<and>
     runtime_state_valid s \<and> rs_scope s = user_scope ''u1'' \<and> s = mood_state ''u1'' 50"
proof -
  have v: "list_all runtime_state_valid [mood_state ''u1'' 50]" using mood_read(1) by simp
  have sc: "scope_valid (user_scope ''u1'')" "state_domain_by_scope (sc_domain (user_scope ''u1'')) \<noteq> None"
    "list_all non_empty [''e1'']" "non_empty ''r1''"
    "filter (\<lambda>w. is_effective (utc 40) w \<and> rs_scope w = user_scope ''u1'') (winners [mood_state ''u1'' 50]) = [mood_state ''u1'' 50]"
    by code_simp+
  from effective_port_sound [OF v mood_read(2) _ sc(1-4), of "utc 40" "''i1''"] sc(5) show ?thesis by (auto simp: Let_def)
qed


end
