(* ===== verification/State_Ingest.thy ===== *)
theory State_Ingest
  imports State_Reconciliation
begin

text \<open>
  The builders of transition intents for the two commit phases (\<^verbatim>\<open>state/intents.py\<close>), and what a
  reconcile pass turns into: one ingest intent per committed transition.
\<close>

definition ingest_phase :: string where
  "ingest_phase = ''ingest''"

definition turn_commit_phase :: string where
  "turn_commit_phase = ''turn_commit''"

definition build_ingest_intent ::
  "string \<Rightarrow> scope \<Rightarrow> string \<Rightarrow> string \<Rightarrow> runtime_state \<Rightarrow> runtime_state \<Rightarrow> string list \<Rightarrow> rat \<Rightarrow> string \<Rightarrow>
     transition_intent result" where
  "build_ingest_intent interaction_id sc origin target before after cause_refs confidence policy =
     mk_transition_intent
       \<lparr>ti_intent_id = ''ingest:'' @ interaction_id @ '':'' @ target @ '':'' @ show_int (rs_version after),
        ti_interaction_id = interaction_id, ti_scope = sc, ti_origin_runtime_id = origin,
        ti_target_dimension = target, ti_before = before, ti_proposed_after = after,
        ti_cause_refs = cause_refs, ti_policy = policy, ti_confidence = confidence,
        ti_commit_phase = ingest_phase\<rparr>"

definition build_turn_commit_intent ::
  "string \<Rightarrow> scope \<Rightarrow> string \<Rightarrow> string \<Rightarrow> runtime_state \<Rightarrow> runtime_state \<Rightarrow> string list \<Rightarrow> rat \<Rightarrow> string \<Rightarrow>
     transition_intent result" where
  "build_turn_commit_intent interaction_id sc origin target before after cause_refs confidence policy =
     mk_transition_intent
       \<lparr>ti_intent_id = ''turn_commit:'' @ interaction_id @ '':'' @ target @ '':'' @ show_int (rs_version after),
        ti_interaction_id = interaction_id, ti_scope = sc, ti_origin_runtime_id = origin,
        ti_target_dimension = target, ti_before = before, ti_proposed_after = after,
        ti_cause_refs = cause_refs, ti_policy = policy, ti_confidence = confidence,
        ti_commit_phase = turn_commit_phase\<rparr>"

definition ingest_intents_from_transitions ::
  "string \<Rightarrow> state_transition list \<Rightarrow> string \<Rightarrow> transition_intent list result" where
  "ingest_intents_from_transitions interaction_id transitions origin = mapR (\<lambda>t.
     build_ingest_intent interaction_id (tr_scope t) origin (rs_dimension (tr_from_state t))
       (tr_from_state t) (tr_to_state t) (rs_evidence_refs (tr_from_state t)) 1 ''reconciler'') transitions"

text \<open>An ingest intent and a turn-commit intent never share an id, whatever the interaction ids.\<close>

lemma phases_disjoint:
  assumes "build_ingest_intent ia sc og tg b a cs cf p = Inr x"
    and "build_turn_commit_intent ia' sc' og' tg' b' a' cs' cf' p' = Inr y"
  shows "ti_intent_id x \<noteq> ti_intent_id y" and "ti_commit_phase x = ''ingest''" and "ti_commit_phase y = ''turn_commit''"
  using assms by (auto simp: build_ingest_intent_def build_turn_commit_intent_def mk_transition_intent_def
      guarded_Inr_iff ingest_phase_def turn_commit_phase_def)

definition ingest_of :: "string \<Rightarrow> string \<Rightarrow> state_transition \<Rightarrow> transition_intent" where
  "ingest_of interaction_id origin t =
     \<lparr>ti_intent_id = ''ingest:'' @ interaction_id @ '':'' @ rs_dimension (tr_from_state t) @ '':'' @
        show_int (rs_version (tr_to_state t)),
      ti_interaction_id = interaction_id, ti_scope = tr_scope t, ti_origin_runtime_id = origin,
      ti_target_dimension = rs_dimension (tr_from_state t), ti_before = tr_from_state t,
      ti_proposed_after = tr_to_state t, ti_cause_refs = rs_evidence_refs (tr_from_state t),
      ti_policy = ''reconciler'', ti_confidence = 1, ti_commit_phase = ''ingest''\<rparr>"

lemma build_ingest_of:
  assumes "state_transition_valid t" and "runtime_state_valid (tr_from_state t)"
    and "non_empty interaction_id" and "non_empty origin"
  shows "build_ingest_intent interaction_id (tr_scope t) origin (rs_dimension (tr_from_state t))
       (tr_from_state t) (tr_to_state t) (rs_evidence_refs (tr_from_state t)) 1 ''reconciler'' =
     Inr (ingest_of interaction_id origin t)"
proof -
  have "non_empty ''reconciler''" by (simp add: non_empty_eval)
  moreover have "non_empty (''ingest:'' @ x)" for x by (simp add: non_empty_eval)
  moreover have "non_empty (rs_dimension (tr_from_state t))" using assms(2) by (auto simp: valid_state dimension_ok_non_empty)
  ultimately show ?thesis
    using assms by (simp add: build_ingest_intent_def ingest_of_def mk_transition_intent_def guarded_clear
        transition_intent_checks_def ingest_phase_def state_transition_valid_def state_transition_checks_def
        valid_state)
qed

lemma chain_from_valid:
  "runtime_state_valid s \<Longrightarrow> state_chain s ts t \<Longrightarrow> x \<in> set ts \<Longrightarrow>
     runtime_state_valid (tr_from_state x) \<and> state_transition_valid x"
  by (induction ts arbitrary: s) auto

lemma history_from_valid:
  assumes "has_history base ts s" and "\<And>b. base = Some b \<Longrightarrow> runtime_state_valid b" and "x \<in> set ts"
  shows "runtime_state_valid (tr_from_state x) \<and> state_transition_valid x"
  using assms chain_from_valid by (auto simp: has_history_def created_record_def split: option.splits)

text \<open>
  C30. Every factual change is committed as an ingest intent: the transitions of a successful pass, in their
  order, become one ingest intent each, and none is refused; the intent carries the scope, the two records
  and the evidence of its transition. (The first record of a dimension is written without a transition, so
  creations give no intent.)
\<close>

theorem ingest_intents_complete:
  assumes "list_all runtime_state_valid canonical" and "\<forall>i \<in> set intents. scope_valid (si_scope i)"
    and "is_aware_utc now" and "reconcile_apply reg now canonical intents = Inr r"
    and "non_empty interaction_id" and "non_empty origin"
  shows "ingest_intents_from_transitions interaction_id (rr_transitions r) origin =
    Inr (map (ingest_of interaction_id origin) (rr_transitions r))"
proof -
  obtain sn where ok: "snapshot_ok (latest canonical) sn" and r: "rr_transitions r = sn_transitions sn"
    by (rule reconciled_snapshot [OF assms(1-4)]) (rule that)
  have "runtime_state_valid (tr_from_state x) \<and> state_transition_valid x" if "x \<in> set (rr_transitions r)" for x
  proof -
    from that r snapshot_okD(4) [OF ok, of x] obtain s where s: "map_of (sn_currents sn) (transition_key x) = Some s"
      by (cases "map_of (sn_currents sn) (transition_key x)") auto
    from that r have "x \<in> set (keyed_transitions (transition_key x) (sn_transitions sn))" by (simp add: keyed_transitions_def)
    moreover have "runtime_state_valid b" if "latest canonical (transition_key x) = Some b" for b
      using latest_Some [OF that] assms(1) by (simp add: list_all_iff)
    ultimately show ?thesis using history_from_valid [OF snapshot_ok_current(3) [OF ok s]] by blast
  qed
  with assms(5,6) show ?thesis
    unfolding ingest_intents_from_transitions_def by (intro mapR_all_ok build_ingest_of) blast+
qed

theorem ingest_intents_complete_witness:
  "\<exists>r. reconcile_apply mood_registry (utc 100) [mood_state ''u1'' 50]
      [mood_intent ''u1'' ''sad'' 5, mood_intent ''u1'' ''glad'' 20] = Inr r \<and>
     ingest_intents_from_transitions ''i1'' (rr_transitions r) ''r1'' =
       Inr (map (ingest_of ''i1'' ''r1'') (rr_transitions r))"
proof -
  from mood_pass obtain r where r: "reconcile_apply mood_registry (utc 100) [mood_state ''u1'' 50]
      [mood_intent ''u1'' ''sad'' 5, mood_intent ''u1'' ''glad'' 20] = Inr r"
    by (cases "reconcile_apply mood_registry (utc 100) [mood_state ''u1'' 50]
      [mood_intent ''u1'' ''sad'' 5, mood_intent ''u1'' ''glad'' 20]") simp_all
  have "list_all runtime_state_valid [mood_state ''u1'' 50]" using mood_valid by simp
  moreover have "non_empty ''i1''" "non_empty ''r1''" by code_simp+
  ultimately show ?thesis using ingest_intents_complete [OF _ _ _ r] mood_valid(3,5) r by (auto simp: intent_ok_def)
qed


end
