(* ===== verification/State_Rows.thy ===== *)
theory State_Rows
  imports State_Reconciliation Json_Value "HOL-Library.Product_Lexorder"
begin

text \<open>
  The rows of the durable state plane (\<^verbatim>\<open>state/persistence.py\<close>) and the functions between them and the
  contracts. A value column holds the object its JSON text denotes (\<^verbatim>\<open>json.loads\<close>); values are
  written from frozen records only, where a mapping is a \<^verbatim>\<open>FrozenMapping\<close>, which \<^verbatim>\<open>json.dumps\<close>
  refuses like bytes and sets. Scope columns are the ones of the delivery store.
\<close>

section \<open>Rows\<close>

record definition_row =
  dr_domain :: string
  dr_key :: string
  dr_value_type :: string
  dr_dynamics_policy :: string
  dr_default_validity_policy :: "string option"
  dr_bounds :: "py_value option"

record state_row =
  sr_scope :: scope_columns
  sr_state_id :: string
  sr_dimension :: string
  sr_status :: string
  sr_value :: py_value
  sr_valid_from :: datetime
  sr_valid_until :: "datetime option"
  sr_relevant_until :: "datetime option"
  sr_last_observed_at :: datetime
  sr_evidence_refs :: json_text
  sr_transition_refs :: json_text
  sr_updated_at :: datetime
  sr_origin_runtime_id :: string
  sr_version :: int
  sr_sync_version :: int
  sr_sync_idem_key :: string

record state_transition_row =
  tw_transition_id :: string
  tw_scope :: scope_columns
  tw_origin_runtime_id :: string
  tw_intent_id :: string
  tw_from_state_id :: string
  tw_to_state_id :: string
  tw_committed_at :: datetime
  tw_sync_version :: int
  tw_sync_idem_key :: string

text \<open>\<^verbatim>\<open>_to_json\<close> on a frozen value, as the object that is read back.\<close>

fun json_dumps :: "py_value \<Rightarrow> py_value result" where
  "json_dumps (VTuple xs) = bindR (mapR (\<lambda>x. json_dumps x) xs) (\<lambda>ys. Inr (VList ys))"
| "json_dumps (VList xs) = bindR (mapR (\<lambda>x. json_dumps x) xs) (\<lambda>ys. Inr (VList ys))"
| "json_dumps (VMap es) = Inl (ValueError ''durable state store requires JSON-serializable values'')"
| "json_dumps (VSet xs) = Inl (ValueError ''durable state store requires JSON-serializable values'')"
| "json_dumps (VBytes b) = Inl (ValueError ''durable state store requires JSON-serializable values'')"
| "json_dumps v = Inr v"

text \<open>A column of references: \<^verbatim>\<open>tuple(json.loads(text))\<close>, whose entries the constructor checks.\<close>

definition refs_to_text :: "string list \<Rightarrow> json_text" where
  "refs_to_text rs = Some (JList (map JStr rs))"

definition refs_from_text :: "json_text \<Rightarrow> string list result" where
  "refs_from_text t = bindR (json_loads t) (\<lambda>j. case py_iter j of
      None \<Rightarrow> Inl (TypeError ''object is not iterable'')
    | Some js \<Rightarrow> (case all_strings js of
        None \<Rightarrow> Inl (ValueError ''entries must be non-empty'') | Some rs \<Rightarrow> Inr rs))"

lemma refs_text_round_trip [simp]: "refs_from_text (refs_to_text rs) = Inr rs"
  by (simp add: refs_from_text_def refs_to_text_def)

definition state_to_row :: "runtime_state \<Rightarrow> state_row result" where
  "state_to_row s = bindR (json_dumps (rs_value s)) (\<lambda>v. Inr
     \<lparr>sr_scope = scope_values (rs_scope s), sr_state_id = rs_state_id s, sr_dimension = rs_dimension s,
      sr_status = rs_status s, sr_value = v, sr_valid_from = rs_valid_from s,
      sr_valid_until = rs_valid_until s, sr_relevant_until = rs_relevant_until s,
      sr_last_observed_at = rs_last_observed_at s, sr_evidence_refs = refs_to_text (rs_evidence_refs s),
      sr_transition_refs = refs_to_text (rs_transition_refs s), sr_updated_at = rs_updated_at s,
      sr_origin_runtime_id = rs_origin_runtime_id s, sr_version = rs_version s,
      sr_sync_version = sf_version (rs_sync s), sr_sync_idem_key = sf_idempotency_key (rs_sync s)\<rparr>)"

definition state_from_row :: "state_row \<Rightarrow> runtime_state result" where
  "state_from_row r = bindR (scope_from_columns (sr_scope r)) (\<lambda>sc.
     bindR (refs_from_text (sr_evidence_refs r)) (\<lambda>evidence.
     bindR (refs_from_text (sr_transition_refs r)) (\<lambda>transitions.
     mk_runtime_state
       \<lparr>rs_state_id = sr_state_id r, rs_scope = sc, rs_dimension = sr_dimension r, rs_value = sr_value r,
        rs_status = sr_status r, rs_valid_from = sr_valid_from r, rs_valid_until = sr_valid_until r,
        rs_relevant_until = sr_relevant_until r, rs_last_observed_at = sr_last_observed_at r,
        rs_evidence_refs = evidence, rs_transition_refs = transitions, rs_updated_at = sr_updated_at r,
        rs_origin_runtime_id = sr_origin_runtime_id r, rs_version = sr_version r,
        rs_sync = mk_sync sc (sr_origin_runtime_id r) (sr_state_id r) (sr_sync_version r) (sr_sync_idem_key r)\<rparr>)))"

definition state_domain_of :: "string \<Rightarrow> state_domain result" where
  "state_domain_of text = enum_of state_domain_value [D_USER, D_AGENT, D_RELATIONSHIP, D_INTERACTION] ''StateDomain'' text"

definition value_type_of :: "string \<Rightarrow> state_value_type result" where
  "value_type_of text = enum_of value_type_value [CATEGORICAL, BOOLEAN, SCALAR, STRUCTURED] ''StateValueType'' text"

definition definition_to_row :: "state_definition \<Rightarrow> definition_row result" where
  "definition_to_row d =
     bindR (case sd_bounds d of None \<Rightarrow> Inr None | Some b \<Rightarrow> bindR (json_dumps b) (\<lambda>v. Inr (Some v))) (\<lambda>bounds. Inr
     \<lparr>dr_domain = state_domain_value (sd_domain d), dr_key = sd_key d,
      dr_value_type = value_type_value (sd_value_type d), dr_dynamics_policy = sd_dynamics_policy d,
      dr_default_validity_policy = sd_default_validity_policy d, dr_bounds = bounds\<rparr>)"

definition definition_from_row :: "definition_row \<Rightarrow> state_definition result" where
  "definition_from_row r = bindR (state_domain_of (dr_domain r)) (\<lambda>domain.
     bindR (value_type_of (dr_value_type r)) (\<lambda>vt.
     mk_state_definition \<lparr>sd_key = dr_key r, sd_domain = domain, sd_value_type = vt,
       sd_dynamics_policy = dr_dynamics_policy r, sd_default_validity_policy = dr_default_validity_policy r,
       sd_bounds = dr_bounds r\<rparr>))"

definition state_transition_to_row :: "state_transition \<Rightarrow> state_transition_row" where
  "state_transition_to_row t =
     \<lparr>tw_transition_id = tr_transition_id t, tw_scope = scope_values (tr_scope t),
      tw_origin_runtime_id = tr_origin_runtime_id t, tw_intent_id = tr_intent_id t,
      tw_from_state_id = rs_state_id (tr_from_state t), tw_to_state_id = rs_state_id (tr_to_state t),
      tw_committed_at = tr_committed_at t, tw_sync_version = sf_version (tr_sync t),
      tw_sync_idem_key = sf_idempotency_key (tr_sync t)\<rparr>"

definition state_transition_from_rows ::
  "state_transition_row \<Rightarrow> (string \<times> runtime_state) list \<Rightarrow> state_transition result" where
  "state_transition_from_rows r states_by_id = bindR (scope_from_columns (tw_scope r)) (\<lambda>sc.
     case (map_of states_by_id (tw_from_state_id r), map_of states_by_id (tw_to_state_id r)) of
       (Some from_state, Some to_state) \<Rightarrow> mk_state_transition
         \<lparr>tr_transition_id = tw_transition_id r, tr_scope = sc,
          tr_origin_runtime_id = tw_origin_runtime_id r, tr_intent_id = tw_intent_id r,
          tr_from_state = from_state, tr_to_state = to_state, tr_committed_at = tw_committed_at r,
          tr_sync = mk_sync sc (tw_origin_runtime_id r) (tw_transition_id r) (tw_sync_version r) (tw_sync_idem_key r)\<rparr>
     | _ \<Rightarrow> Inl (ValueError (''transition '' @ tw_transition_id r @ '' references a missing state'')))"

section \<open>Round trips\<close>

lemma json_dumps_num: "num_val v = Some a \<Longrightarrow> json_dumps v = Inr v"
  by (cases v) auto

text \<open>A frozen value that can be written is what the constructor makes of the object read back.\<close>

lemma thaw_json: "frozen v \<Longrightarrow> json_dumps v = Inr w \<Longrightarrow> freeze_value f w = Inr v"
proof (induction v arbitrary: w rule: py_value_induct)
  case (Tuple xs)
  from Tuple.prems(2) obtain ys where w: "w = VList ys" and ys: "mapR json_dumps xs = Inr ys"
    by (auto simp: bindR_Inr_iff)
  have "mapR (freeze_value f) ys = Inr xs"
    using ys Tuple.IH Tuple.prems(1) by (simp add: mapR_Inr_iff list_all2_conv_all_nth list_all_length)
  then show ?case by (simp add: w)
qed (auto simp: json_dumps_num freeze_num)

definition storable :: "py_value \<Rightarrow> bool" where
  "storable v \<longleftrightarrow> \<not> isl (json_dumps v)"

lemma state_to_row_scope: "state_to_row s = Inr r \<Longrightarrow> sr_scope r = scope_values (rs_scope s) \<and> sr_state_id r = rs_state_id s \<and>
    sr_dimension r = rs_dimension s \<and> sr_version r = rs_version s \<and> sr_sync_version r = sf_version (rs_sync s)"
  by (auto simp: state_to_row_def bindR_Inr_iff)

lemma state_to_row_storable: "storable (rs_value s) \<longleftrightarrow> (\<exists>r. state_to_row s = Inr r)"
  by (cases "json_dumps (rs_value s)") (simp_all add: storable_def state_to_row_def)

lemma state_row_round_trip:
  assumes "runtime_state_valid s" and "state_to_row s = Inr r"
  shows "state_from_row r = Inr s"
proof -
  from assms(2) obtain v where v: "json_dumps (rs_value s) = Inr v"
    and r: "r = \<lparr>sr_scope = scope_values (rs_scope s), sr_state_id = rs_state_id s, sr_dimension = rs_dimension s,
      sr_status = rs_status s, sr_value = v, sr_valid_from = rs_valid_from s,
      sr_valid_until = rs_valid_until s, sr_relevant_until = rs_relevant_until s,
      sr_last_observed_at = rs_last_observed_at s, sr_evidence_refs = refs_to_text (rs_evidence_refs s),
      sr_transition_refs = refs_to_text (rs_transition_refs s), sr_updated_at = rs_updated_at s,
      sr_origin_runtime_id = rs_origin_runtime_id s, sr_version = rs_version s,
      sr_sync_version = sf_version (rs_sync s), sr_sync_idem_key = sf_idempotency_key (rs_sync s)\<rparr>"
    by (auto simp: state_to_row_def bindR_Inr_iff)
  have scope: "scope_valid (rs_scope s)" and head: "all_clear (state_head_checks s)"
    and tail: "all_clear (state_tail_checks s)" and froz: "frozen (rs_value s)"
    using assms(1) by (simp_all add: runtime_state_valid_def)
  have sync: "mk_sync (rs_scope s) (rs_origin_runtime_id s) (rs_state_id s) (sf_version (rs_sync s))
      (sf_idempotency_key (rs_sync s)) = rs_sync s"
    using tail by (simp add: state_tail_clear sync_eq_mk)
  have read: "state_from_row r = mk_runtime_state (s\<lparr>rs_value := v\<rparr>)"
    using scope_round_trip [OF scope] sync by (cases s) (simp add: state_from_row_def r)
  have "guarded (state_head_checks (s\<lparr>rs_value := v\<rparr>)) (s\<lparr>rs_value := v\<rparr>) = Inr (s\<lparr>rs_value := v\<rparr>)"
    using head by (simp add: guarded_clear state_head_clear)
  moreover have "guarded (state_tail_checks (s\<lparr>rs_value := v\<rparr>)) (s\<lparr>rs_value := rs_value s\<rparr>) = Inr s"
    using tail by (simp add: guarded_clear state_tail_clear)
  ultimately show ?thesis
    by (simp add: read mk_runtime_state_def thaw_json [OF froz v])
qed

lemma state_transition_row_round_trip:
  assumes "state_transition_valid x" and "scope_valid (tr_scope x)"
    and "map_of by_id (rs_state_id (tr_from_state x)) = Some (tr_from_state x)"
    and "map_of by_id (rs_state_id (tr_to_state x)) = Some (tr_to_state x)"
  shows "state_transition_from_rows (state_transition_to_row x) by_id = Inr x"
proof -
  have sync: "mk_sync (tr_scope x) (tr_origin_runtime_id x) (tr_transition_id x) (sf_version (tr_sync x))
      (sf_idempotency_key (tr_sync x)) = tr_sync x"
    using assms(1) by (simp add: state_transition_valid_def state_transition_checks_def sync_eq_mk)
  have same: "\<lparr>tr_transition_id = tr_transition_id x, tr_scope = tr_scope x,
      tr_origin_runtime_id = tr_origin_runtime_id x, tr_intent_id = tr_intent_id x,
      tr_from_state = tr_from_state x, tr_to_state = tr_to_state x, tr_committed_at = tr_committed_at x,
      tr_sync = tr_sync x\<rparr> = x" by simp
  show ?thesis using assms
    by (simp add: state_transition_from_rows_def state_transition_to_row_def scope_round_trip sync same
        mk_state_transition_def state_transition_valid_def guarded_clear del: state_transition.surjective)
qed

lemma definition_row_round_trip:
  assumes "state_definition_valid d" and "definition_to_row d = Inr r"
  shows "definition_from_row r = Inr d"
proof -
  have enums: "state_domain_of (state_domain_value (sd_domain d)) = Inr (sd_domain d)"
    "value_type_of (value_type_value (sd_value_type d)) = Inr (sd_value_type d)"
    by (cases "sd_domain d"; simp add: state_domain_of_def enum_of_def)
      (cases "sd_value_type d"; simp add: value_type_of_def enum_of_def)
  have read: "definition_from_row r = mk_state_definition (d\<lparr>sd_bounds := dr_bounds r\<rparr>)"
    using assms(2) enums by (cases d) (auto simp: definition_to_row_def definition_from_row_def bindR_Inr_iff)
  have checks: "state_definition_checks (d\<lparr>sd_bounds := b\<rparr>) = state_definition_checks d" for b
    by (simp add: state_definition_checks_def)
  from assms(1) have clear: "all_clear (state_definition_checks d)"
    by (auto simp: state_definition_valid_def mk_state_definition_def bindR_Inr_iff guarded_Inr_iff)
  show ?thesis
  proof (cases "sd_bounds d")
    case None
    with assms(2) have "d\<lparr>sd_bounds := dr_bounds r\<rparr> = d" by (cases d) (auto simp: definition_to_row_def)
    with None clear show ?thesis by (simp add: read mk_state_definition_def guarded_clear)
  next
    case (Some b)
    with assms(1) clear have "freeze_value ''bounds'' b = Inr b"
      by (cases d) (auto simp: state_definition_valid_def mk_state_definition_def guarded_clear bindR_Inr_iff)
    then have froz: "frozen b" by (rule freeze_value_frozen)
    from Some assms(2) obtain v where v: "json_dumps b = Inr v" "dr_bounds r = Some v"
      by (auto simp: definition_to_row_def bindR_Inr_iff)
    from Some have "d\<lparr>sd_bounds := Some b\<rparr> = d" by (cases d) simp
    with Some v clear thaw_json [OF froz v(1)] show ?thesis
      by (simp add: read mk_state_definition_def guarded_clear checks)
  qed
qed

end
