(* ===== verification/State_Store.thy ===== *)
theory State_Store
  imports State_Rows
begin

text \<open>
  The durable state plane (\<^verbatim>\<open>SqliteStateBackend\<close> and \<^verbatim>\<open>SqliteCommitMarkerStore\<close> of
  \<^verbatim>\<open>state/persistence.py\<close>): the tables with their keys, the connection with its transactions, and
  every operation. Rows are in insertion order and a sort is stable; timestamp columns order like the
  instants they hold, which is so for aware UTC.
\<close>

section \<open>Tables and connections\<close>

record slow_row =
  sl_id :: int
  sl_scope :: scope_columns
  sl_target_dimension :: string
  sl_sequence :: int
  sl_accepted_at :: datetime
  sl_proposed_value :: rat
  sl_salience :: rat
  sl_evidence_refs :: json_text
  sl_source_event_ref :: "string option"
  sl_source_decision_id :: string

record marker_row =
  mr_scope_domain :: string
  mr_scope_user_id :: string
  mr_interaction_id :: string
  mr_committed_at :: datetime
  mr_projected_state_ids :: json_text

record application_row =
  ar_application_id :: string
  ar_runtime_id :: string
  ar_acceptance_id :: string
  ar_payload :: json_text

record state_tables =
  stt_definitions :: "definition_row list"
  stt_states :: "state_row list"
  stt_transitions :: "state_transition_row list"
  stt_window :: "slow_row list"
  stt_next_id :: int
  stt_markers :: "marker_row list"
  stt_applications :: "application_row list"

definition new_tables :: state_tables where
  "new_tables = \<lparr>stt_definitions = [], stt_states = [], stt_transitions = [], stt_window = [], stt_next_id = 1,
     stt_markers = [], stt_applications = []\<rparr>"

text \<open>
  A connection and the store object on it: the tables its statements see, what a rollback returns to
  when a transaction is open, and the flag of \<^verbatim>\<open>transaction\<close>. What the file holds, and a reopened
  store sees, is \<open>committed\<close>.
\<close>

record state_db =
  sdb_tables :: state_tables
  sdb_open :: "state_tables option"
  sdb_in_transaction :: bool

definition new_state_db :: state_db where
  "new_state_db = \<lparr>sdb_tables = new_tables, sdb_open = None, sdb_in_transaction = False\<rparr>"

definition committed :: "state_db \<Rightarrow> state_tables" where
  "committed db = (case sdb_open db of None \<Rightarrow> sdb_tables db | Some t \<Rightarrow> t)"

text \<open>
  \<^verbatim>\<open>sqlite3\<close> opens a transaction before the first statement that changes rows; a failing statement
  changes none.
\<close>

definition begin_db :: "state_db \<Rightarrow> state_db" where
  "begin_db db = db\<lparr>sdb_open := Some (committed db)\<rparr>"

definition commit_db :: "state_db \<Rightarrow> state_db" where
  "commit_db db = db\<lparr>sdb_open := None\<rparr>"

definition rollback_db :: "state_db \<Rightarrow> state_db" where
  "rollback_db db = db\<lparr>sdb_tables := committed db, sdb_open := None\<rparr>"

definition execute_db :: "(state_tables \<Rightarrow> state_tables result) \<Rightarrow> (state_db, unit) prog" where
  "execute_db statement = (\<lambda>db. case statement (sdb_tables db) of
     Inl e \<Rightarrow> (Inl e, begin_db db)
   | Inr t \<Rightarrow> (Inr (), (begin_db db)\<lparr>sdb_tables := t\<rparr>))"

text \<open>\<^verbatim>\<open>with self._conn:\<close> commits at the end of the block, or rolls back when it raises.\<close>

definition with_connection :: "(state_db, 'a) prog \<Rightarrow> (state_db, 'a) prog" where
  "with_connection m = (\<lambda>db. case m db of
     (Inl e, db') \<Rightarrow> (Inl e, rollback_db db') | (Inr x, db') \<Rightarrow> (Inr x, commit_db db'))"

definition transaction :: "(state_db, 'a) prog \<Rightarrow> (state_db, 'a) prog" where
  "transaction body = (\<lambda>db. if sdb_in_transaction db \<or> sdb_open db \<noteq> None
     then (Inl (RuntimeError ''nested cognitive transaction forbidden''), db)
     else case body (begin_db (db\<lparr>sdb_in_transaction := True\<rparr>)) of
       (Inl e, db') \<Rightarrow> (Inl e, (rollback_db db')\<lparr>sdb_in_transaction := False\<rparr>)
     | (Inr x, db') \<Rightarrow> (Inr x, (commit_db db')\<lparr>sdb_in_transaction := False\<rparr>))"

text \<open>The pattern of every save: inside a transaction the bare statement, else a block of its own.\<close>

definition in_own_block :: "(state_db, unit) prog \<Rightarrow> (state_db, unit) prog" where
  "in_own_block m = (\<lambda>db. if sdb_in_transaction db then m db else with_connection m db)"

definition true_unless_integrity_error :: "(state_db, unit) prog \<Rightarrow> (state_db, bool) prog" where
  "true_unless_integrity_error m = (\<lambda>db. case m db of
     (Inl (IntegrityError msg), db') \<Rightarrow> (Inr False, db')
   | (Inl e, db') \<Rightarrow> (Inl e, db')
   | (Inr _, db') \<Rightarrow> (Inr True, db'))"

text \<open>\<^verbatim>\<open>sqlite3\<close> binds a Python int as a 64-bit integer.\<close>

definition int64_error :: "int list \<Rightarrow> py_error option" where
  "int64_error is = (if list_all (\<lambda>i. - (2 ^ 63) \<le> i \<and> i < 2 ^ 63) is then None
     else Some (OverflowError ''Python int too large to convert to SQLite INTEGER''))"

section \<open>Definitions, states and transitions\<close>

definition replace_definition :: "definition_row \<Rightarrow> state_tables \<Rightarrow> state_tables result" where
  "replace_definition r t = Inr (t\<lparr>stt_definitions :=
     filter (\<lambda>q. (dr_domain q, dr_key q) \<noteq> (dr_domain r, dr_key r)) (stt_definitions t) @ [r]\<rparr>)"

definition save_definition :: "state_definition \<Rightarrow> (state_db, unit) prog" where
  "save_definition d = with_connection (bindP (liftP (definition_to_row d)) (\<lambda>r. execute_db (replace_definition r)))"

definition load_definitions :: "state_db \<Rightarrow> state_definition list result" where
  "load_definitions db =
     mapR definition_from_row (sort_key (\<lambda>r. (dr_domain r, dr_key r)) (stt_definitions (sdb_tables db)))"

definition state_row_key :: "state_row \<Rightarrow> scope_columns \<times> string" where
  "state_row_key r = (sr_scope r, sr_state_id r)"

definition insert_state_row :: "state_row \<Rightarrow> state_tables \<Rightarrow> state_tables result" where
  "insert_state_row r t = (case int64_error [sr_version r, sr_sync_version r] of
     Some e \<Rightarrow> Inl e
   | None \<Rightarrow> if state_row_key r \<in> set (map state_row_key (stt_states t))
       then Inl (IntegrityError ''UNIQUE constraint failed: states'')
       else Inr (t\<lparr>stt_states := stt_states t @ [r]\<rparr>))"

definition insert_state :: "runtime_state \<Rightarrow> (state_db, unit) prog" where
  "insert_state s = bindP (liftP (state_to_row s)) (\<lambda>r. execute_db (insert_state_row r))"

definition save_state :: "runtime_state \<Rightarrow> (state_db, bool) prog" where
  "save_state s = true_unless_integrity_error (in_own_block (insert_state s))"

definition load_states :: "state_db \<Rightarrow> runtime_state list result" where
  "load_states db = mapR state_from_row (sort_key (\<lambda>r. (sr_dimension r, sr_version r)) (stt_states (sdb_tables db)))"

definition insert_transition_row :: "state_transition_row \<Rightarrow> state_tables \<Rightarrow> state_tables result" where
  "insert_transition_row r t = (case int64_error [tw_sync_version r] of
     Some e \<Rightarrow> Inl e
   | None \<Rightarrow> if tw_transition_id r \<in> set (map tw_transition_id (stt_transitions t))
       then Inl (IntegrityError ''UNIQUE constraint failed: state_transitions.transition_id'')
       else Inr (t\<lparr>stt_transitions := stt_transitions t @ [r]\<rparr>))"

definition save_transition :: "state_transition \<Rightarrow> (state_db, bool) prog" where
  "save_transition x = true_unless_integrity_error (in_own_block
     (execute_db (insert_transition_row (state_transition_to_row x))))"

text \<open>\<^verbatim>\<open>{row["state_id"]: _state_from_row(row) for row in rows}\<close>: a later row replaces an earlier one.\<close>

definition states_by_id :: "state_row list \<Rightarrow> (string \<times> runtime_state) list result" where
  "states_by_id rows = bindR (mapR (\<lambda>r. bindR (state_from_row r) (\<lambda>s. Inr (sr_state_id r, s))) rows)
     (\<lambda>items. Inr (foldl (\<lambda>d (k, s). AList.update k s d) [] items))"

definition load_transitions :: "state_db \<Rightarrow> state_transition list result" where
  "load_transitions db = bindR (states_by_id (stt_states (sdb_tables db))) (\<lambda>by_id.
     mapR (\<lambda>r. state_transition_from_rows r by_id)
       (sort_key (\<lambda>r. (dt_instant (tw_committed_at r), tw_transition_id r)) (stt_transitions (sdb_tables db))))"

definition canonical_state_rows_equal :: "runtime_state \<Rightarrow> runtime_state \<Rightarrow> bool" where
  "canonical_state_rows_equal left right \<longleftrightarrow> rs_state_id left = rs_state_id right \<and>
     rs_scope left = rs_scope right \<and> rs_dimension left = rs_dimension right \<and>
     rs_version left = rs_version right \<and> rs_status left = rs_status right \<and>
     py_eq (rs_value left) (rs_value right) \<and> rs_origin_runtime_id left = rs_origin_runtime_id right"

section \<open>The slow contribution window\<close>

record slow_entry =
  se_id :: int
  se_sequence :: int
  se_accepted_at :: datetime
  se_proposed_value :: rat
  se_salience :: rat
  se_evidence_refs :: "string list"
  se_source_event_ref :: "string option"
  se_source_decision_id :: string

definition in_window :: "scope_columns \<Rightarrow> string \<Rightarrow> slow_row \<Rightarrow> bool" where
  "in_window sc dimension r \<longleftrightarrow> sl_scope r = sc \<and> sl_target_dimension r = dimension"

definition accepted_key :: "slow_row \<Rightarrow> int \<times> int" where
  "accepted_key r = (dt_instant (sl_accepted_at r), sl_id r)"

definition slow_entry_of_row :: "slow_row \<Rightarrow> slow_entry result" where
  "slow_entry_of_row r = bindR (refs_from_text (sl_evidence_refs r)) (\<lambda>refs. Inr
     \<lparr>se_id = sl_id r, se_sequence = sl_sequence r, se_accepted_at = sl_accepted_at r,
      se_proposed_value = sl_proposed_value r, se_salience = sl_salience r, se_evidence_refs = refs,
      se_source_event_ref = sl_source_event_ref r, se_source_decision_id = sl_source_decision_id r\<rparr>)"

definition load_slow_window :: "scope \<Rightarrow> string \<Rightarrow> state_db \<Rightarrow> slow_entry list result" where
  "load_slow_window sc dimension db = mapR slow_entry_of_row
     (sort_key accepted_key (filter (in_window (scope_values sc) dimension) (stt_window (sdb_tables db))))"

definition load_slow_states :: "scope \<Rightarrow> string \<Rightarrow> state_db \<Rightarrow> runtime_state list result" where
  "load_slow_states sc dimension db = mapR state_from_row (sort_key sr_version
     (filter (\<lambda>r. sr_scope r = scope_values sc \<and> sr_dimension r = dimension) (stt_states (sdb_tables db))))"

text \<open>\<^verbatim>\<open>SELECT DISTINCT\<close> over the columns the index orders.\<close>

definition list_slow_window_dimensions :: "scope \<Rightarrow> state_db \<Rightarrow> (scope \<times> string) list result" where
  "list_slow_window_dimensions sc db =
     mapR (\<lambda>dimension. bindR (scope_from_columns (scope_values sc)) (\<lambda>s. Inr (s, dimension)))
       (sort (remdups (map sl_target_dimension (filter (\<lambda>r. sl_scope r = scope_values sc) (stt_window (sdb_tables db))))))"

definition max_slow_window_sequence :: "scope \<Rightarrow> string \<Rightarrow> state_db \<Rightarrow> int" where
  "max_slow_window_sequence sc dimension db =
     (case map sl_sequence (filter (in_window (scope_values sc) dimension) (stt_window (sdb_tables db))) of
        [] \<Rightarrow> 0 | x # xs \<Rightarrow> foldl max x xs)"

text \<open>A new ledger row, the id assigned by \<^verbatim>\<open>AUTOINCREMENT\<close>.\<close>

definition new_slow_row :: "scope_columns \<Rightarrow> string \<Rightarrow> int \<Rightarrow> slow_entry \<Rightarrow> slow_row" where
  "new_slow_row sc dimension i e =
     \<lparr>sl_id = i, sl_scope = sc, sl_target_dimension = dimension, sl_sequence = se_sequence e,
      sl_accepted_at = se_accepted_at e, sl_proposed_value = se_proposed_value e,
      sl_salience = se_salience e, sl_evidence_refs = refs_to_text (se_evidence_refs e),
      sl_source_event_ref = se_source_event_ref e, sl_source_decision_id = se_source_decision_id e\<rparr>"

definition insert_slow_row :: "scope_columns \<Rightarrow> string \<Rightarrow> slow_entry \<Rightarrow> state_tables \<Rightarrow> state_tables result" where
  "insert_slow_row sc dimension e t = (case int64_error [se_sequence e] of
     Some err \<Rightarrow> Inl err
   | None \<Rightarrow> if list_ex (\<lambda>q. in_window sc dimension q \<and> sl_sequence q = se_sequence e) (stt_window t)
       then Inl (IntegrityError ''UNIQUE constraint failed: slow_contribution_window'')
       else Inr (t\<lparr>stt_window := stt_window t @ [new_slow_row sc dimension (stt_next_id t) e],
         stt_next_id := stt_next_id t + 1\<rparr>))"

text \<open>\<^verbatim>\<open>DELETE ... WHERE id NOT IN (SELECT id ... ORDER BY accepted_at DESC, id DESC LIMIT n)\<close>.\<close>

definition trim_slow_window :: "scope_columns \<Rightarrow> string \<Rightarrow> int \<Rightarrow> state_tables \<Rightarrow> state_tables result" where
  "trim_slow_window sc dimension window_size t = (case int64_error [window_size] of
     Some err \<Rightarrow> Inl err
   | None \<Rightarrow> let newest = take (nat window_size)
         (rev (sort_key accepted_key (filter (in_window sc dimension) (stt_window t))))
       in Inr (t\<lparr>stt_window := filter (\<lambda>r. \<not> in_window sc dimension r \<or> sl_id r \<in> set (map sl_id newest)) (stt_window t)\<rparr>))"

definition execute_slow_window_update ::
  "runtime_state \<Rightarrow> slow_entry list \<Rightarrow> scope \<times> string \<Rightarrow> int \<Rightarrow> (state_db, unit) prog" where
  "execute_slow_window_update s new_rows trim_keys window_size =
     bindP (eachP (\<lambda>e. execute_db (insert_slow_row (scope_values (rs_scope s)) (rs_dimension s) e)) new_rows) (\<lambda>_.
     bindP (execute_db (trim_slow_window (scope_values (fst trim_keys)) (snd trim_keys) window_size)) (\<lambda>_.
     insert_state s))"

definition commit_slow_window_update ::
  "runtime_state \<Rightarrow> slow_entry list \<Rightarrow> scope \<times> string \<Rightarrow> int \<Rightarrow> (state_db, bool) prog" where
  "commit_slow_window_update s new_rows trim_keys window_size = (if window_size < 1
     then raiseP (ValueError ''window_size must be >= 1'')
     else true_unless_integrity_error (in_own_block (execute_slow_window_update s new_rows trim_keys window_size)))"

section \<open>Commit markers\<close>

definition marker_key :: "marker_row \<Rightarrow> string \<times> string \<times> string" where
  "marker_key r = (mr_scope_domain r, mr_scope_user_id r, mr_interaction_id r)"

definition marker_columns :: "scope \<Rightarrow> string \<Rightarrow> string \<times> string \<times> string" where
  "marker_columns sc interaction_id = (scope_domain_value (sc_domain sc), text_or_empty (sc_user_id sc), interaction_id)"

definition insert_marker :: "marker_row \<Rightarrow> state_tables \<Rightarrow> state_tables result" where
  "insert_marker r t = (if marker_key r \<in> set (map marker_key (stt_markers t))
     then Inl (IntegrityError ''UNIQUE constraint failed: commit_markers'')
     else Inr (t\<lparr>stt_markers := stt_markers t @ [r]\<rparr>))"

text \<open>The marker store on the connection of the state store, which it does not own.\<close>

definition record_commit :: "string \<Rightarrow> scope \<Rightarrow> datetime \<Rightarrow> string list \<Rightarrow> (state_db, bool) prog" where
  "record_commit interaction_id sc committed_at projected_state_ids =
     true_unless_integrity_error (execute_db (insert_marker
       \<lparr>mr_scope_domain = scope_domain_value (sc_domain sc), mr_scope_user_id = text_or_empty (sc_user_id sc),
        mr_interaction_id = interaction_id, mr_committed_at = committed_at,
        mr_projected_state_ids = refs_to_text projected_state_ids\<rparr>))"

definition has_commit :: "string \<Rightarrow> scope \<Rightarrow> state_db \<Rightarrow> bool" where
  "has_commit interaction_id sc db \<longleftrightarrow>
     marker_columns sc interaction_id \<in> set (map marker_key (stt_markers (sdb_tables db)))"

definition committed_state_ids :: "string \<Rightarrow> scope \<Rightarrow> state_db \<Rightarrow> string list option result" where
  "committed_state_ids interaction_id sc db =
     (case find (\<lambda>r. marker_key r = marker_columns sc interaction_id) (stt_markers (sdb_tables db)) of
        None \<Rightarrow> Inr None
      | Some r \<Rightarrow> bindR (json_loads (mr_projected_state_ids r)) (\<lambda>parsed.
          case Option.bind (as_list parsed) all_strings of
            None \<Rightarrow> Inl (ValueError ''committed state identity is malformed'')
          | Some ids \<Rightarrow>
              if list_ex (\<lambda>i. i = []) ids then Inl (ValueError ''committed state identity is malformed'')
              else if \<not> distinct ids then Inl (ValueError ''committed state identity contains duplicate IDs'')
              else Inr (Some ids)))"

end
