(* ===== verification/Homeostasis.thy ===== *)
theory Homeostasis
  imports State_Definitions
begin

text \<open>
  The homeostasis gate (\<^verbatim>\<open>homeostasis/contracts.py\<close>, \<^verbatim>\<open>homeostasis/policy.py\<close>), which routes a candidate
  change of one dimension to the fast or the slow state, and the registry authority of the longitudinal
  dimensions (\<^verbatim>\<open>state/longitudinal.py\<close>), which says what the slow writer may be given. Floats are only
  compared here. The clock is the instant it returns.
\<close>

section \<open>Candidates and decisions\<close>

datatype disposition = FAST_APPLY | FAST_ONLY | SLOW_ACCEPT | SLOW_DAMP | REJECT

fun disposition_value :: "disposition \<Rightarrow> string" where
  "disposition_value FAST_APPLY = ''fast_apply''"
| "disposition_value FAST_ONLY = ''fast_only''"
| "disposition_value SLOW_ACCEPT = ''slow_accept''"
| "disposition_value SLOW_DAMP = ''slow_damp''"
| "disposition_value REJECT = ''reject''"

record candidate =
  cd_target_dimension :: string
  cd_proposed_value :: rat
  cd_scope :: scope
  cd_evidence_refs :: "string list"
  cd_salience :: "rat option"
  cd_confidence :: rat
  cd_source_event_ref :: "string option"
  cd_observed_at :: datetime

definition unit_interval :: "rat \<Rightarrow> bool" where
  "unit_interval x \<longleftrightarrow> 0 \<le> x \<and> x \<le> 1"

definition candidate_checks :: "candidate \<Rightarrow> (bool \<times> py_error) list" where
  "candidate_checks c =
     [require_non_empty (cd_target_dimension c) ''target_dimension'',
      (case cd_salience c of None \<Rightarrow> False | Some s \<Rightarrow> \<not> unit_interval s,
       ValueError ''salience must be in [0, 1] or None''),
      (\<not> unit_interval (cd_confidence c), ValueError ''confidence must be in [0, 1]''),
      require_aware_utc (cd_observed_at c) ''observed_at'']"

definition mk_candidate :: "candidate \<Rightarrow> candidate result" where
  "mk_candidate c = guarded (candidate_checks c) c"

record decision =
  de_candidate :: candidate
  de_prior_value :: "rat option"
  de_decision :: disposition
  de_reason_code :: string
  de_decided_at :: datetime

definition decision_checks :: "decision \<Rightarrow> (bool \<times> py_error) list" where
  "decision_checks d =
     [require_non_empty (de_reason_code d) ''reason_code'', require_aware_utc (de_decided_at d) ''decided_at'']"

definition mk_decision :: "decision \<Rightarrow> decision result" where
  "mk_decision d = guarded (decision_checks d) d"

section \<open>The threshold policy\<close>

record threshold_config =
  tc_salience_floor_fast_apply :: rat
  tc_salience_floor_slow_accept :: rat
  tc_confidence_floor_slow :: rat

definition default_thresholds :: threshold_config where
  "default_thresholds = \<lparr>tc_salience_floor_fast_apply = 7/10, tc_salience_floor_slow_accept = 85/100,
     tc_confidence_floor_slow = 8/10\<rparr>"

definition threshold_config_checks :: "threshold_config \<Rightarrow> (bool \<times> py_error) list" where
  "threshold_config_checks c =
     [(\<not> unit_interval (tc_salience_floor_fast_apply c), ValueError ''salience_floor_fast_apply must be in [0, 1]''),
      (\<not> unit_interval (tc_salience_floor_slow_accept c), ValueError ''salience_floor_slow_accept must be in [0, 1]''),
      (\<not> unit_interval (tc_confidence_floor_slow c), ValueError ''confidence_floor_slow must be in [0, 1]'')]"

definition mk_threshold_config :: "threshold_config \<Rightarrow> threshold_config result" where
  "mk_threshold_config c = guarded (threshold_config_checks c) c"

text \<open>The verdict and its reason code, in the order of the branches.\<close>

definition verdict :: "threshold_config \<Rightarrow> candidate \<Rightarrow> disposition \<times> string" where
  "verdict config c = (case cd_salience c of
     None \<Rightarrow> (REJECT, ''salience_unavailable_reject'')
   | Some salience \<Rightarrow>
       if cd_evidence_refs c = [] then
         (if tc_salience_floor_fast_apply config \<le> salience then (FAST_APPLY, ''no_evidence_fast_only_authorized'')
          else (REJECT, ''no_evidence_reject''))
       else if salience < tc_salience_floor_slow_accept config \<or> cd_confidence c < tc_confidence_floor_slow config then
         (if tc_salience_floor_fast_apply config \<le> salience then (FAST_APPLY, ''fast_apply_below_slow_thresholds'')
          else (FAST_ONLY, ''low_salience_low_confidence_fast_only''))
       else if tc_confidence_floor_slow config \<le> cd_confidence c then
         (SLOW_ACCEPT, ''high_salience_high_confidence_slow_accept'')
       else (SLOW_DAMP, ''high_salience_low_confidence_slow_damp''))"

definition decide :: "threshold_config \<Rightarrow> datetime \<Rightarrow> candidate \<Rightarrow> rat option \<Rightarrow> decision result" where
  "decide config now c prior = mk_decision
     \<lparr>de_candidate = c, de_prior_value = prior, de_decision = fst (verdict config c),
      de_reason_code = snd (verdict config c), de_decided_at = now\<rparr>"

text \<open>The clock is read once for each candidate.\<close>

definition decide_batch ::
  "threshold_config \<Rightarrow> (nat \<Rightarrow> datetime) \<Rightarrow> (candidate \<times> rat option) list \<Rightarrow> decision list result" where
  "decide_batch config clock candidates =
     mapR (\<lambda>(i, c, p). decide config (clock i) c p) (enumerate 0 candidates)"

section \<open>Longitudinal targets\<close>

definition longitudinal_accumulator :: string where
  "longitudinal_accumulator = ''accumulator''"

definition longitudinal_indefinite :: string where
  "longitudinal_indefinite = ''indefinite''"

definition is_longitudinal_policy :: "string \<Rightarrow> bool" where
  "is_longitudinal_policy dynamics_policy \<longleftrightarrow> dynamics_policy = longitudinal_accumulator"

definition require_longitudinal_policy :: "string \<Rightarrow> unit result" where
  "require_longitudinal_policy dynamics_policy = guarded
     [(\<not> is_longitudinal_policy dynamics_policy, ValueError ''expected longitudinal policy accumulator'')] ()"

definition register_longitudinal_definition ::
  "registry \<Rightarrow> string \<Rightarrow> rat \<times> rat \<Rightarrow> (state_definition \<times> registry) result" where
  "register_longitudinal_definition reg key bounds =
     bindR (guarded [require_non_empty key ''key''] ()) (\<lambda>_.
     case registry_get reg key of
       Some existing \<Rightarrow>
         if sd_dynamics_policy existing \<noteq> longitudinal_accumulator
         then Inl (ValueError ''already registered; conflicts with longitudinal policy'')
         else Inr (existing, reg)
     | None \<Rightarrow>
         bindR (mk_state_definition
           \<lparr>sd_key = key, sd_domain = D_AGENT, sd_value_type = SCALAR, sd_dynamics_policy = longitudinal_accumulator,
            sd_default_validity_policy = Some longitudinal_indefinite,
            sd_bounds = Some (VTuple [VFloat (fst bounds), VFloat (snd bounds)])\<rparr>) (\<lambda>d.
         bindR (registry_register d reg) (\<lambda>reg'. Inr (d, reg'))))"

definition resolve_longitudinal_target :: "registry \<Rightarrow> string \<Rightarrow> state_definition result" where
  "resolve_longitudinal_target reg target_dimension = (case registry_get reg target_dimension of
     None \<Rightarrow> Inl (ValueError ''longitudinal target is not registered'')
   | Some d \<Rightarrow> bindR (require_longitudinal_policy (sd_dynamics_policy d)) (\<lambda>_. Inr d))"

section \<open>What the gate lets through\<close>

definition slow_grade :: "threshold_config \<Rightarrow> candidate \<Rightarrow> rat \<Rightarrow> bool" where
  "slow_grade config c s \<longleftrightarrow> cd_evidence_refs c \<noteq> [] \<and> tc_salience_floor_slow_accept config \<le> s \<and>
     tc_confidence_floor_slow config \<le> cd_confidence c"


lemma never_damped: "fst (verdict config c) \<noteq> SLOW_DAMP"
  by (auto simp: verdict_def split: option.splits)

definition sample_candidate :: candidate where
  "sample_candidate = \<lparr>cd_target_dimension = ''agent.slow.trust'', cd_proposed_value = 6/10, cd_scope =
     \<lparr>sc_domain = AGENT, sc_user_id = None, sc_agent_id = Some ''a'', sc_persona_id = Some ''a'',
       sc_relationship_id = None, sc_world_id = None, sc_interaction_id = None\<rparr>,
     cd_evidence_refs = [''e1''], cd_salience = Some (9/10), cd_confidence = 5/10,
     cd_source_event_ref = None, cd_observed_at = utc 0\<rparr>"


end
