(* ===== verification/Slow_Writer.thy ===== *)
theory Slow_Writer
  imports State_Store Homeostasis
begin

text \<open>
  The rolling-window writer of longitudinal state (\<^verbatim>\<open>slow_plasticity/writer.py\<close>): it collects accepted
  decisions, and a flush writes for every dimension the ledger rows, the trimmed window and the next canonical
  record, whose value is the salience-weighted mean of the newest contributions. The arithmetic of floats is
  a parameter. The clock is read in order; \<open>clock i\<close> is the answer to the i-th reading of one operation.
\<close>

section \<open>Floats and time stamps\<close>

record float_arith =
  fl_mul :: "rat \<Rightarrow> rat \<Rightarrow> rat"
  fl_sum :: "rat list \<Rightarrow> rat"
  fl_div :: "rat \<Rightarrow> rat \<Rightarrow> rat"

definition exact_arith :: float_arith where
  "exact_arith = \<lparr>fl_mul = (*), fl_sum = sum_list, fl_div = (/)\<rparr>"

text \<open>The calendar date of a number of days since the epoch, and \<^verbatim>\<open>strftime('%Y%m%d%H%M%S%f')\<close>.\<close>

definition civil_date :: "int \<Rightarrow> int \<times> int \<times> int" where
  "civil_date days = (let z = days + 719468; era = z div 146097; doe = z mod 146097;
      yoe = (doe - doe div 1460 + doe div 36524 - doe div 146096) div 365;
      doy = doe - (365 * yoe + yoe div 4 - yoe div 100); mp = (5 * doy + 2) div 153;
      month = (if mp < 10 then mp + 3 else mp - 9)
    in (yoe + era * 400 + (if month \<le> 2 then 1 else 0), month, doy - (153 * mp + 2) div 5 + 1))"

definition padded :: "nat \<Rightarrow> int \<Rightarrow> string" where
  "padded width n = (let s = show_int n in replicate (width - length s) CHR ''0'' @ s)"

fun wall_clock :: "datetime \<Rightarrow> int" where
  "wall_clock (Naive t) = t"
| "wall_clock (Aware t off) = t + off"

definition compact_stamp :: "datetime \<Rightarrow> string" where
  "compact_stamp d = (let t = wall_clock d; day = 86400000000; r = t mod day in
     case civil_date (t div day) of (year, month, mday) \<Rightarrow>
       padded 4 year @ padded 2 month @ padded 2 mday @ padded 2 (r div 3600000000) @
       padded 2 (r div 60000000 mod 60) @ padded 2 (r div 1000000 mod 60) @ padded 6 (r mod 1000000))"

section \<open>The writer\<close>

record slow_record =
  sw_target_dimension :: string
  sw_proposed_value :: rat
  sw_salience :: rat
  sw_evidence_refs :: "string list"
  sw_source_event_ref :: "string option"
  sw_source_decision_id :: string
  sw_accepted_at :: datetime

record slow_snapshot =
  sn_scope :: scope
  sn_target_dimension :: string
  sn_contributions :: "slow_record list"
  sn_last_state_version :: "int option"
  sn_last_state_value :: "rat option"
  sn_last_state_state_id :: "string option"

record slow_plan =
  pl_scope :: scope
  pl_target_dimension :: string
  pl_state :: runtime_state
  pl_new_rows :: "slow_entry list"
  pl_trim_keys :: "scope \<times> string"
  pl_window_size :: int
  pl_kept_records :: "slow_record list"
  pl_new_version :: int
  pl_a_t :: rat

record slow_writer =
  lw_runtime_id :: string
  lw_window_size :: int
  lw_windows :: "((scope \<times> string) \<times> slow_snapshot) list"
  lw_pending :: "((scope \<times> string) \<times> slow_record list) list"
  lw_seq_counter :: int

definition new_slow_writer :: "string \<Rightarrow> int \<Rightarrow> slow_writer result" where
  "new_slow_writer runtime_id window_size =
     (if window_size < 1 then Inl (ValueError ''window_size must be >= 1 (configuration-owned)'')
      else Inr \<lparr>lw_runtime_id = runtime_id, lw_window_size = window_size, lw_windows = [], lw_pending = [],
        lw_seq_counter = 0\<rparr>)"

definition slow_accept :: "decision \<Rightarrow> scope option \<Rightarrow> datetime \<Rightarrow> slow_writer \<Rightarrow> slow_record option \<times> slow_writer" where
  "slow_accept d target_scope now w =
     (if de_decision d \<noteq> SLOW_ACCEPT then (None, w)
      else case cd_salience (de_candidate d) of
        None \<Rightarrow> (None, w)
      | Some salience \<Rightarrow>
          if salience \<le> 0 then (None, w)
          else
            let c = de_candidate d;
              sc = (case target_scope of Some s \<Rightarrow> s | None \<Rightarrow> cd_scope c);
              n = lw_seq_counter w + 1;
              r = \<lparr>sw_target_dimension = cd_target_dimension c, sw_proposed_value = cd_proposed_value c,
                sw_salience = salience, sw_evidence_refs = cd_evidence_refs c,
                sw_source_event_ref = cd_source_event_ref c,
                sw_source_decision_id = ''slow-'' @ lw_runtime_id w @ ''-'' @ show_int n, sw_accepted_at = now\<rparr>;
              key = (sc, cd_target_dimension c)
            in (Some r, w\<lparr>lw_seq_counter := n,
                 lw_pending := AList.update key ((case map_of (lw_pending w) key of None \<Rightarrow> [] | Some rs \<Rightarrow> rs) @ [r])
                   (lw_pending w)\<rparr>))"

section \<open>Preparing a flush\<close>

definition record_of_entry :: "string \<Rightarrow> slow_entry \<Rightarrow> slow_record" where
  "record_of_entry dimension e =
     \<lparr>sw_target_dimension = dimension, sw_proposed_value = se_proposed_value e, sw_salience = se_salience e,
      sw_evidence_refs = se_evidence_refs e, sw_source_event_ref = se_source_event_ref e,
      sw_source_decision_id = se_source_decision_id e, sw_accepted_at = se_accepted_at e\<rparr>"

definition entry_of_record :: "int \<Rightarrow> slow_record \<Rightarrow> slow_entry" where
  "entry_of_record sequence r =
     \<lparr>se_id = 0, se_sequence = sequence, se_accepted_at = sw_accepted_at r,
      se_proposed_value = sw_proposed_value r, se_salience = sw_salience r, se_evidence_refs = sw_evidence_refs r,
      se_source_event_ref = sw_source_event_ref r, se_source_decision_id = sw_source_decision_id r\<rparr>"

text \<open>\<^verbatim>\<open>xs[-n:]\<close> for a positive n, and \<^verbatim>\<open>tuple(dict.fromkeys(xs))\<close>.\<close>

definition last_n :: "int \<Rightarrow> 'a list \<Rightarrow> 'a list" where
  "last_n n xs = drop (length xs - nat n) xs"

definition first_occurrences :: "'a list \<Rightarrow> 'a list" where
  "first_occurrences xs = rev (remdups (rev xs))"

definition combined_window :: "slow_record list \<Rightarrow> slow_record list \<Rightarrow> slow_record list" where
  "combined_window persisted pending =
     sort_key (\<lambda>r. (dt_instant (sw_accepted_at r), sw_source_decision_id r)) (persisted @ pending)"

definition slow_state_id :: "slow_writer \<Rightarrow> string \<Rightarrow> int \<Rightarrow> datetime \<Rightarrow> string" where
  "slow_state_id w dimension version now = dimension @ '':'' @ show_int version @ '':slow-'' @ lw_runtime_id w @
     ''-'' @ compact_stamp now"

definition slow_state :: "slow_writer \<Rightarrow> scope \<Rightarrow> string \<Rightarrow> rat \<Rightarrow> slow_record list \<Rightarrow> datetime \<Rightarrow> int \<Rightarrow> runtime_state result" where
  "slow_state w sc dimension a_t kept now version = (let state_id = slow_state_id w dimension version now in
     mk_runtime_state
       \<lparr>rs_state_id = state_id, rs_scope = sc, rs_dimension = dimension, rs_value = VFloat a_t,
        rs_status = ''active'', rs_valid_from = now, rs_valid_until = None, rs_relevant_until = None,
        rs_last_observed_at = now, rs_evidence_refs = first_occurrences (concat (map sw_evidence_refs kept)),
        rs_transition_refs = (case Option.bind (map_of (lw_windows w) (sc, dimension)) sn_last_state_state_id of
          Some i \<Rightarrow> [i] | None \<Rightarrow> []),
        rs_updated_at = now, rs_origin_runtime_id = lw_runtime_id w, rs_version = version,
        rs_sync = mk_sync sc (lw_runtime_id w) state_id version (idem_of state_id)\<rparr>)"

text \<open>The version after that of the window in memory: \<^verbatim>\<open>(prior_version or 0) + 1\<close>.\<close>

definition next_slow_version :: "slow_writer \<Rightarrow> scope \<Rightarrow> string \<Rightarrow> int" where
  "next_slow_version w sc dimension =
     (case Option.bind (map_of (lw_windows w) (sc, dimension)) sn_last_state_version of None \<Rightarrow> 0 | Some v \<Rightarrow> v) + 1"

text \<open>One pending dimension: no plan without weight.\<close>

definition prepare_one ::
  "float_arith \<Rightarrow> slow_writer \<Rightarrow> state_db \<Rightarrow> scope \<Rightarrow> string \<Rightarrow> slow_record list \<Rightarrow> datetime \<Rightarrow> slow_plan option result" where
  "prepare_one fl w db sc dimension pending now =
     bindR (load_slow_window sc dimension db) (\<lambda>rows.
     let kept = last_n (lw_window_size w) (combined_window (map (record_of_entry dimension) rows) pending);
       weighted_sum = fl_sum fl (map (\<lambda>r. fl_mul fl (sw_salience r) (sw_proposed_value r)) kept);
       salience_sum = fl_sum fl (map sw_salience kept)
     in if kept = [] \<or> salience_sum \<le> 0 then Inr None
     else
       let a_t = fl_div fl weighted_sum salience_sum; version = next_slow_version w sc dimension;
         base = max_slow_window_sequence sc dimension db
       in bindR (slow_state w sc dimension a_t kept now version) (\<lambda>s. Inr (Some
         \<lparr>pl_scope = sc, pl_target_dimension = dimension, pl_state = s,
          pl_new_rows = map (\<lambda>(i, r). entry_of_record (base + 1 + int i) r) (enumerate 0 pending),
          pl_trim_keys = (sc, dimension), pl_window_size = lw_window_size w, pl_kept_records = kept,
          pl_new_version = version, pl_a_t = a_t\<rparr>)))"

fun prepare_plans ::
  "float_arith \<Rightarrow> slow_writer \<Rightarrow> state_db \<Rightarrow> scope \<Rightarrow> (nat \<Rightarrow> datetime) \<Rightarrow> nat \<Rightarrow>
    ((scope \<times> string) \<times> slow_record list) list \<Rightarrow> slow_plan list result" where
  "prepare_plans fl w db sc clock i [] = Inr []"
| "prepare_plans fl w db sc clock i (((pending_scope, dimension), pending) # rest) =
     (if pending_scope \<noteq> sc \<or> pending = [] then prepare_plans fl w db sc clock i rest
      else bindR (prepare_one fl w db sc dimension pending (clock i)) (\<lambda>plan. case plan of
        None \<Rightarrow> prepare_plans fl w db sc clock i rest
      | Some p \<Rightarrow> bindR (prepare_plans fl w db sc clock (i + 1) rest) (\<lambda>ps. Inr (p # ps))))"

definition prepare_flush ::
  "float_arith \<Rightarrow> slow_writer \<Rightarrow> scope \<Rightarrow> (nat \<Rightarrow> datetime) \<Rightarrow> state_db \<Rightarrow> slow_plan list result" where
  "prepare_flush fl w sc clock db = prepare_plans fl w db sc clock 0 (lw_pending w)"

section \<open>Executing and publishing\<close>

definition execute_flush_plan :: "slow_plan \<Rightarrow> (state_db, unit) prog" where
  "execute_flush_plan p =
     bindP (commit_slow_window_update (pl_state p) (pl_new_rows p) (pl_trim_keys p) (pl_window_size p)) (\<lambda>ok.
     if ok then returnP () else raiseP (RuntimeError ''slow_contribution_window update failed''))"

definition apply_plan :: "slow_plan \<Rightarrow> slow_writer \<Rightarrow> slow_writer" where
  "apply_plan p w = w\<lparr>
     lw_windows := AList.update (pl_scope p, pl_target_dimension p)
       \<lparr>sn_scope = pl_scope p, sn_target_dimension = pl_target_dimension p, sn_contributions = pl_kept_records p,
        sn_last_state_version = Some (pl_new_version p), sn_last_state_value = Some (pl_a_t p),
        sn_last_state_state_id = Some (rs_state_id (pl_state p))\<rparr> (lw_windows w),
     lw_pending := AList.delete (pl_scope p, pl_target_dimension p) (lw_pending w)\<rparr>"

definition apply_flush_plan :: "slow_plan list \<Rightarrow> slow_writer \<Rightarrow> runtime_state list \<times> slow_writer" where
  "apply_flush_plan plans w = (map pl_state plans, foldl (\<lambda>w p. apply_plan p w) w plans)"

definition discard_pending :: "scope \<Rightarrow> slow_writer \<Rightarrow> slow_writer" where
  "discard_pending sc w = w\<lparr>lw_pending := filter (\<lambda>((s, d), rs). s \<noteq> sc) (lw_pending w)\<rparr>"

definition flush :: "float_arith \<Rightarrow> scope \<Rightarrow> (nat \<Rightarrow> datetime) \<Rightarrow> slow_writer \<Rightarrow> (state_db, runtime_state list \<times> slow_writer) prog" where
  "flush fl sc clock w = bindP (readP (prepare_flush fl w sc clock)) (\<lambda>plans.
     if plans = [] then returnP ([], w)
     else bindP (transaction (eachP execute_flush_plan plans)) (\<lambda>_. returnP (apply_flush_plan plans w)))"

section \<open>Reading\<close>

definition accumulated_state :: "slow_writer \<Rightarrow> scope \<Rightarrow> string \<Rightarrow> slow_snapshot option" where
  "accumulated_state w sc dimension = map_of (lw_windows w) (sc, dimension)"

definition accumulated_dimensions :: "slow_writer \<Rightarrow> scope \<Rightarrow> string list" where
  "accumulated_dimensions w sc = map (\<lambda>((s, d), x). d) (filter (\<lambda>((s, d), x). s = sc) (lw_windows w))"

text \<open>\<^verbatim>\<open>kept[-1]\<close> exists, since the rows are not empty and the window size is positive.\<close>

definition ingest_persisted_rows :: "scope \<Rightarrow> string \<Rightarrow> slow_entry list \<Rightarrow> slow_writer \<Rightarrow> slow_writer" where
  "ingest_persisted_rows sc dimension rows w = (if rows = [] then w
     else let kept = last_n (lw_window_size w) (sort_key (\<lambda>e. (dt_instant (se_accepted_at e), se_id e)) rows) in
       w\<lparr>lw_windows := AList.update (sc, dimension)
         \<lparr>sn_scope = sc, sn_target_dimension = dimension, sn_contributions = map (record_of_entry dimension) kept,
          sn_last_state_version = Some (int (length kept)), sn_last_state_value = None,
          sn_last_state_state_id = Some (dimension @ '':'' @ show_int (int (length kept)) @ '':slow-restored-'' @
            show_int (se_id (last kept)))\<rparr> (lw_windows w)\<rparr>)"

definition load_writer :: "scope \<Rightarrow> state_db \<Rightarrow> (slow_writer, unit) prog" where
  "load_writer sc db = thenP (writeP (\<lambda>w. w\<lparr>lw_windows := [], lw_pending := []\<rparr>))
     (bindP (liftP (list_slow_window_dimensions sc db)) (\<lambda>keys.
      bindP (eachP (\<lambda>(s, dimension). bindP (liftP (load_slow_window s dimension db)) (\<lambda>rows.
        writeP (ingest_persisted_rows s dimension rows))) keys) (\<lambda>_. returnP ())))"

end
