(* ===== verification/State_Plane.thy ===== *)
theory State_Plane
  imports State_Store "HOL-Library.Sublist" "HOL-Library.Multiset"
begin

text \<open>
  What the durable state plane guarantees over every history of calls, transactions and crashes: keys
  are unique, canonical records, transitions and commit markers are never changed or lost, a
  transaction happens completely or not at all, and what was saved is read back.
\<close>

section \<open>Histories\<close>

datatype state_call =
    Save_definition state_definition
  | Save_state runtime_state
  | Save_transition state_transition
  | Slow_update runtime_state "slow_entry list" "scope \<times> string" int
  | Record_commit string scope datetime "string list"
  | Raise py_error

fun run_call :: "state_call \<Rightarrow> (state_db, bool) prog" where
  "run_call (Save_definition d) = bindP (save_definition d) (\<lambda>_. returnP True)"
| "run_call (Save_state s) = save_state s"
| "run_call (Save_transition x) = save_transition x"
| "run_call (Slow_update s rows keys n) = commit_slow_window_update s rows keys n"
| "run_call (Record_commit i sc t ids) = record_commit i sc t ids"
| "run_call (Raise e) = raiseP e"

text \<open>
  A step is a call, a transaction around calls, of which the first that raises ends it, or the process
  ending in the middle of such a block, after which the file is opened again.
\<close>

datatype state_step =
    Call state_call
  | In_transaction "state_call list"
  | Crash_after "state_call list"

definition reopen_db :: "state_db \<Rightarrow> state_db" where
  "reopen_db db = \<lparr>sdb_tables = committed db, sdb_open = None, sdb_in_transaction = False\<rparr>"

fun run_step :: "state_step \<Rightarrow> state_db \<Rightarrow> state_db" where
  "run_step (Call c) db = snd (run_call c db)"
| "run_step (In_transaction cs) db = snd (transaction (eachP run_call cs) db)"
| "run_step (Crash_after cs) db =
     (if sdb_in_transaction db \<or> sdb_open db \<noteq> None then reopen_db db
      else reopen_db (snd (eachP run_call cs (begin_db (db\<lparr>sdb_in_transaction := True\<rparr>)))))"

definition run_steps :: "state_step list \<Rightarrow> state_db \<Rightarrow> state_db" where
  "run_steps ss db = foldl (\<lambda>d s. run_step s d) db ss"

section \<open>The invariant\<close>

definition window_key :: "slow_row \<Rightarrow> scope_columns \<times> string \<times> int" where
  "window_key r = (sl_scope r, sl_target_dimension r, sl_sequence r)"

definition tables_ok :: "state_tables \<Rightarrow> bool" where
  "tables_ok t \<longleftrightarrow> distinct (map (\<lambda>r. (dr_domain r, dr_key r)) (stt_definitions t)) \<and>
     distinct (map state_row_key (stt_states t)) \<and> distinct (map tw_transition_id (stt_transitions t)) \<and>
     distinct (map marker_key (stt_markers t)) \<and> distinct (map window_key (stt_window t)) \<and>
     distinct (map sl_id (stt_window t)) \<and> (\<forall>r \<in> set (stt_window t). sl_id r < stt_next_id t)"

text \<open>Later tables keep every canonical record, transition and marker of earlier ones.\<close>

definition extends :: "state_tables \<Rightarrow> state_tables \<Rightarrow> bool" where
  "extends t u \<longleftrightarrow> prefix (stt_states t) (stt_states u) \<and> prefix (stt_transitions t) (stt_transitions u) \<and>
     prefix (stt_markers t) (stt_markers u)"

lemma extends_refl [simp]: "extends t t"
  by (simp add: extends_def)

lemma extends_trans: "extends t u \<Longrightarrow> extends u v \<Longrightarrow> extends t v"
  by (meson extends_def prefix_order.trans)

definition db_ok :: "state_db \<Rightarrow> bool" where
  "db_ok db \<longleftrightarrow> tables_ok (sdb_tables db) \<and> tables_ok (committed db) \<and> extends (committed db) (sdb_tables db)"

definition grown :: "state_tables \<Rightarrow> state_db \<Rightarrow> bool" where
  "grown t db \<longleftrightarrow> db_ok db \<and> extends t (committed db)"

definition sound_statement :: "(state_tables \<Rightarrow> state_tables result) \<Rightarrow> bool" where
  "sound_statement st \<longleftrightarrow> (\<forall>t u. tables_ok t \<longrightarrow> st t = Inr u \<longrightarrow> tables_ok u \<and> extends t u)"

lemma db_simps [simp]:
  "sdb_tables (begin_db db) = sdb_tables db" "committed (begin_db db) = committed db"
  "sdb_tables (commit_db db) = sdb_tables db" "committed (commit_db db) = sdb_tables db"
  "sdb_tables (rollback_db db) = committed db" "committed (rollback_db db) = committed db"
  "committed ((begin_db db)\<lparr>sdb_tables := t\<rparr>) = committed db"
  "committed (db\<lparr>sdb_in_transaction := b\<rparr>) = committed db"
  by (simp_all add: committed_def begin_db_def commit_db_def rollback_db_def split: option.splits)

lemma grown_control:
  "grown t db \<Longrightarrow> grown t (begin_db db)" "grown t db \<Longrightarrow> grown t (commit_db db)"
  "grown t db \<Longrightarrow> grown t (rollback_db db)" "grown t db \<Longrightarrow> grown t (db\<lparr>sdb_in_transaction := b\<rparr>)"
  "grown t db \<Longrightarrow> grown t (reopen_db db)"
  by (auto simp: grown_def db_ok_def reopen_db_def committed_def [of "state_db.fields _ _ _"] intro: extends_trans
      simp del: split_paired_All) (simp_all add: committed_def)

lemma grown_execute: "sound_statement st \<Longrightarrow> preserves (grown t) (execute_db st)"
  by (rule preservesI)
    (auto simp: execute_db_def grown_control grown_def db_ok_def sound_statement_def intro: extends_trans split: sum.splits)

lemma grown_with_connection: "preserves (grown t) m \<Longrightarrow> preserves (grown t) (with_connection m)"
  by (rule preservesI) (auto simp: with_connection_def grown_control dest: preservesD' split: prod.splits sum.splits)

lemma grown_in_own_block: "preserves (grown t) m \<Longrightarrow> preserves (grown t) (in_own_block m)"
  unfolding in_own_block_def
  using preservesD [of "grown t" m] preservesD [OF grown_with_connection, of t m] by (simp add: preserves_def)

lemma preserves_integrity: "preserves I m \<Longrightarrow> preserves I (true_unless_integrity_error m)"
  by (rule preservesI)
    (auto simp: true_unless_integrity_error_def dest: preservesD' split: prod.splits sum.splits py_error.splits)

lemma grown_transaction:
  assumes "preserves (grown t) m"
  shows "preserves (grown t) (transaction m)"
proof (rule preservesI)
  fix db
  assume "grown t db"
  then have "grown t (begin_db (db\<lparr>sdb_in_transaction := True\<rparr>))" by (intro grown_control)
  from preservesD [OF assms this] \<open>grown t db\<close> show "grown t (snd (transaction m db))"
    by (auto simp: transaction_def intro!: grown_control split: prod.splits sum.splits)
qed

text \<open>Every statement of the store keeps the keys unique and only appends canonical rows.\<close>

lemma distinct_filter_append: "distinct (map f xs) \<Longrightarrow> distinct (map f (filter (\<lambda>q. f q \<noteq> f r) xs @ [r]))"
  by (induction xs) auto

lemma distinct_filter: "distinct (map f xs) \<Longrightarrow> distinct (map f (filter P xs))"
  by (induction xs) auto

lemma sound_insert:
  "sound_statement (replace_definition d)" "sound_statement (insert_state_row r)"
  "sound_statement (insert_transition_row x)" "sound_statement (insert_marker k)"
  unfolding sound_statement_def
  using distinct_filter_append [of "\<lambda>r. (dr_domain r, dr_key r)" _ d]
  by (auto simp: tables_ok_def extends_def replace_definition_def insert_state_row_def insert_transition_row_def
      insert_marker_def split: option.splits if_splits)

lemma sound_window:
  "sound_statement (insert_slow_row sc dimension e)" "sound_statement (trim_slow_window sc dimension n)"
  unfolding sound_statement_def
  by (auto simp: tables_ok_def extends_def insert_slow_row_def new_slow_row_def trim_slow_window_def Let_def window_key_def in_window_def
      list_ex_iff distinct_filter less_le split: option.splits if_splits)

lemmas sound_statements = sound_insert sound_window

lemma grown_calls: "preserves (grown t) (run_call c)"
proof -
  note steps = grown_with_connection grown_in_own_block preserves_integrity grown_execute sound_statements preserve_rules
  have insert: "preserves (grown t) (insert_state s)" for s
    unfolding insert_state_def by (intro steps)
  have slow: "preserves (grown t) (execute_slow_window_update s rows keys n)" for s rows keys n
    unfolding execute_slow_window_update_def by (intro steps insert)
  show ?thesis
    by (cases c; simp only: run_call.simps save_definition_def save_state_def save_transition_def
        commit_slow_window_update_def record_commit_def) (intro steps insert slow)+
qed

lemma grown_step: "grown t db \<Longrightarrow> grown t (run_step s db)"
proof (cases s)
  case (In_transaction cs)
  have "preserves (grown t) (transaction (eachP run_call cs))"
    by (intro grown_transaction preserve_rules grown_calls)
  moreover assume "grown t db"
  ultimately show ?thesis using In_transaction by (simp add: preservesD)
next
  case (Crash_after cs)
  have "preserves (grown t) (eachP run_call cs)" by (intro preserve_rules grown_calls)
  moreover assume "grown t db"
  moreover from this have "grown t (begin_db (db\<lparr>sdb_in_transaction := True\<rparr>))" by (intro grown_control)
  ultimately show ?thesis using Crash_after by (simp add: grown_control preservesD)
qed (simp add: preservesD [OF grown_calls])

lemma grown_steps: "grown t db \<Longrightarrow> grown t (run_steps ss db)"
  by (induction ss arbitrary: db) (simp_all add: run_steps_def grown_step)

lemma new_db_grown: "grown new_tables new_state_db"
  by (simp add: grown_def db_ok_def committed_def new_state_db_def new_tables_def tables_ok_def)

section \<open>Durability\<close>

text \<open>
  C32. Whatever happened to the file - saves, transactions that returned or raised, crashes in the middle
  of one - every table keeps its keys unique, what the connection sees only extends what is committed,
  and committed canonical records, transitions and commit markers are never changed, reordered or lost
  by anything that happens later.
\<close>

theorem state_plane_append_only:
  "tables_ok (sdb_tables (run_steps ss new_state_db)) \<and> tables_ok (committed (run_steps ss new_state_db)) \<and>
   extends (committed (run_steps ss new_state_db)) (sdb_tables (run_steps ss new_state_db)) \<and>
   extends (committed (run_steps ss new_state_db)) (committed (run_steps later (run_steps ss new_state_db)))"
proof -
  let ?db = "run_steps ss new_state_db"
  from grown_steps [OF new_db_grown] have ok: "db_ok ?db" by (simp add: grown_def)
  then have "grown (committed ?db) ?db" by (simp add: grown_def)
  then have "grown (committed ?db) (run_steps later ?db)" by (rule grown_steps)
  with ok show ?thesis by (simp add: grown_def db_ok_def)
qed

section \<open>Transactions\<close>

definition idle :: "state_db \<Rightarrow> bool" where
  "idle db \<longleftrightarrow> sdb_open db = None \<and> \<not> sdb_in_transaction db"

text \<open>Inside a transaction no call but \<open>Save_definition\<close> touches the transaction.\<close>

definition in_open :: "state_tables \<Rightarrow> state_db \<Rightarrow> bool" where
  "in_open t db \<longleftrightarrow> sdb_open db = Some t \<and> sdb_in_transaction db"

lemma in_open_execute: "preserves (in_open t) (execute_db st)"
  by (rule preservesI) (simp add: execute_db_def in_open_def begin_db_def committed_def split: sum.splits)

lemma in_open_own_block: "preserves (in_open t) m \<Longrightarrow> preserves (in_open t) (in_own_block m)"
  by (simp add: preserves_def in_own_block_def in_open_def)

fun keeps_transaction :: "state_call \<Rightarrow> bool" where
  "keeps_transaction (Save_definition d) = False"
| "keeps_transaction c = True"

lemma in_open_calls: "keeps_transaction c \<Longrightarrow> preserves (in_open t) (run_call c)"
proof -
  note steps = in_open_own_block preserves_integrity in_open_execute preserve_rules
  have insert: "preserves (in_open t) (insert_state s)" for s
    unfolding insert_state_def by (intro steps)
  have slow: "preserves (in_open t) (execute_slow_window_update s rows keys n)" for s rows keys n
    unfolding execute_slow_window_update_def by (intro steps insert)
  assume "keeps_transaction c"
  then show ?thesis
    by (cases c; simp only: run_call.simps save_state_def save_transition_def keeps_transaction.simps
        commit_slow_window_update_def record_commit_def) (intro steps insert slow)+
qed

lemma preserves_eachP_set: "(\<And>x. x \<in> set xs \<Longrightarrow> preserves I (f x)) \<Longrightarrow> preserves I (eachP f xs)"
  by (induction xs) (auto intro!: preserve_rules)

lemma transaction_in_open:
  assumes "preserves (in_open (sdb_tables db)) body" and "idle db"
  shows "case transaction body db of
      (Inl e, db') \<Rightarrow> db' = db
    | (Inr x, db') \<Rightarrow> idle db' \<and> committed db' = sdb_tables db' \<and>
        body (begin_db (db\<lparr>sdb_in_transaction := True\<rparr>)) = (Inr x, begin_db (db\<lparr>sdb_in_transaction := True\<rparr>)\<lparr>sdb_tables := sdb_tables db'\<rparr>)"
proof -
  let ?db = "begin_db (db\<lparr>sdb_in_transaction := True\<rparr>)"
  have "in_open (sdb_tables db) ?db" using assms(2) by (simp add: in_open_def idle_def begin_db_def committed_def)
  from preservesD [OF assms(1) this] have "in_open (sdb_tables db) (snd (body ?db))" .
  with assms(2) show ?thesis
    by (cases "body ?db"; cases "fst (body ?db)"; cases "snd (body ?db)")
      (auto simp: transaction_def idle_def in_open_def rollback_db_def commit_db_def begin_db_def committed_def)
qed

lemma crash_idle: "idle db \<Longrightarrow> preserves (in_open (sdb_tables db)) (eachP run_call cs) \<Longrightarrow> run_step (Crash_after cs) db = db"
proof -
  assume db: "idle db" and p: "preserves (in_open (sdb_tables db)) (eachP run_call cs)"
  from db have "in_open (sdb_tables db) (begin_db (db\<lparr>sdb_in_transaction := True\<rparr>))"
    by (simp add: in_open_def idle_def begin_db_def committed_def)
  from preservesD [OF p this] db show ?thesis
    by (cases db) (simp add: reopen_db_def in_open_def committed_def idle_def)
qed

text \<open>
  C33. A transaction happens completely or not at all. On an idle connection, a transaction around any
  calls but \<^verbatim>\<open>save_definition\<close> either returns, and then exactly what its calls did is committed, or raises
  and leaves everything as it was; if the process ends at any point inside it, the reopened file is as
  before it. Inside a transaction another one is refused and changes nothing.
\<close>

theorem transaction_all_or_nothing:
  assumes "idle db" and "list_all keeps_transaction calls"
  shows "(case transaction (eachP run_call calls) db of
      (Inl e, db') \<Rightarrow> db' = db
    | (Inr rs, db') \<Rightarrow> idle db' \<and> committed db' = sdb_tables db' \<and>
        eachP run_call calls (begin_db (db\<lparr>sdb_in_transaction := True\<rparr>)) =
          (Inr rs, begin_db (db\<lparr>sdb_in_transaction := True\<rparr>)\<lparr>sdb_tables := sdb_tables db'\<rparr>)) \<and>
    run_step (Crash_after calls) db = db \<and>
    transaction (eachP run_call calls) (begin_db (db\<lparr>sdb_in_transaction := True\<rparr>)) =
      (Inl (RuntimeError ''nested cognitive transaction forbidden''), begin_db (db\<lparr>sdb_in_transaction := True\<rparr>))"
proof -
  have "preserves (in_open (sdb_tables db)) (eachP run_call calls)"
    using assms(2) by (intro preserves_eachP_set in_open_calls) (simp add: list_all_iff)
  from transaction_in_open [OF this assms(1)] crash_idle [OF assms(1) this]
  show ?thesis by (simp add: transaction_def begin_db_def)
qed

text \<open>
  Saving a definition runs in a block of its own, whose end commits the transaction around it: what
  came before stays although the transaction raises.
\<close>

lemma definition_commits_transaction:
  assumes "idle db" and "definition_to_row d = Inr r"
  shows "committed (run_step (In_transaction [Save_definition d, Raise e]) db) =
    sdb_tables db\<lparr>stt_definitions := filter (\<lambda>q. (dr_domain q, dr_key q) \<noteq> (dr_domain r, dr_key r))
      (stt_definitions (sdb_tables db)) @ [r]\<rparr>"
  using assms
  by (simp add: idle_def transaction_def bindP_def save_definition_def with_connection_def execute_db_def
      replace_definition_def commit_db_def rollback_db_def begin_db_def committed_def raiseP_def)

section \<open>Saving and reading states\<close>

lemma mapR_all_iff: "mapR f xs = Inr ys \<longleftrightarrow> (\<forall>x \<in> set xs. \<not> isl (f x)) \<and> ys = map (\<lambda>x. projr (f x)) xs"
proof (induction xs arbitrary: ys)
  case (Cons x xs)
  then show ?case by (cases "f x") (auto simp: bindR_Inr_iff)
qed auto

lemma mapR_mset_insert:
  assumes "mapR f xs = Inr ys" and "mset zs = add_mset x (mset xs)" and "f x = Inr y"
  obtains ws where "mapR f zs = Inr ws" and "mset ws = add_mset y (mset ys)"
proof -
  from assms(1,3) have "mapR f zs = Inr (map (\<lambda>x. projr (f x)) zs)"
    using arg_cong [OF assms(2), of set_mset] by (auto simp: mapR_all_iff)
  moreover have "mset (map (\<lambda>x. projr (f x)) zs) = add_mset y (mset ys)"
    using assms by (simp add: mapR_all_iff)
  ultimately show thesis by (rule that)
qed

definition writable :: "state_db \<Rightarrow> bool" where
  "writable db \<longleftrightarrow> sdb_open db = None \<or> sdb_in_transaction db"

lemma block_tables:
  assumes "writable db" and "statement (sdb_tables db) = r"
  shows "true_unless_integrity_error (in_own_block (execute_db statement)) db =
    (case r of
       Inr t \<Rightarrow> (Inr True, if sdb_in_transaction db then (begin_db db)\<lparr>sdb_tables := t\<rparr> else db\<lparr>sdb_tables := t\<rparr>)
     | Inl e \<Rightarrow> (case e of IntegrityError m \<Rightarrow> Inr False | _ \<Rightarrow> Inl e, if sdb_in_transaction db then begin_db db else db))"
  using assms
  by (cases db) (auto simp: writable_def true_unless_integrity_error_def in_own_block_def with_connection_def
      execute_db_def commit_db_def rollback_db_def begin_db_def committed_def split: sum.splits py_error.splits)

lemma save_state_storable:
  assumes "state_to_row s = Inr r"
  shows "save_state s = true_unless_integrity_error (in_own_block (execute_db (insert_state_row r)))"
  by (simp add: save_state_def insert_state_def assms bindP_def)

lemma state_from_row_Inr:
  assumes "state_from_row r = Inr t"
  shows "runtime_state_valid t \<and> scope_values (rs_scope t) = sr_scope r \<and> rs_state_id t = sr_state_id r \<and>
    rs_dimension t = sr_dimension r \<and> rs_version t = sr_version r"
proof -
  from assms obtain sc evidence transitions where sc: "scope_from_columns (sr_scope r) = Inr sc"
    and mk: "mk_runtime_state
       \<lparr>rs_state_id = sr_state_id r, rs_scope = sc, rs_dimension = sr_dimension r, rs_value = sr_value r,
        rs_status = sr_status r, rs_valid_from = sr_valid_from r, rs_valid_until = sr_valid_until r,
        rs_relevant_until = sr_relevant_until r, rs_last_observed_at = sr_last_observed_at r,
        rs_evidence_refs = evidence, rs_transition_refs = transitions, rs_updated_at = sr_updated_at r,
        rs_origin_runtime_id = sr_origin_runtime_id r, rs_version = sr_version r,
        rs_sync = mk_sync sc (sr_origin_runtime_id r) (sr_state_id r) (sr_sync_version r) (sr_sync_idem_key r)\<rparr> = Inr t"
    by (auto simp: state_from_row_def bindR_Inr_iff)
  from scope_from_columns_valid [OF sc] have "scope_valid sc" "scope_values sc = sr_scope r" by simp_all
  with mk_runtime_state_valid [OF mk] show ?thesis by auto
qed

lemma load_states_key:
  assumes "load_states db = Inr ss" and "runtime_state_valid s" and "state_to_row s = Inr r"
  shows "state_row_key r \<in> set (map state_row_key (stt_states (sdb_tables db))) \<longleftrightarrow>
    (\<exists>t \<in> set ss. rs_scope t = rs_scope s \<and> rs_state_id t = rs_state_id s)" (is "?L \<longleftrightarrow> ?R")
proof -
  from assms(1) have rows: "set ss = (\<lambda>q. projr (state_from_row q)) ` set (stt_states (sdb_tables db))"
    and ok: "\<And>q. q \<in> set (stt_states (sdb_tables db)) \<Longrightarrow> state_from_row q = Inr (projr (state_from_row q))"
    by (auto simp: load_states_def mapR_all_iff)
  have "state_row_key q = state_row_key r \<longleftrightarrow>
      rs_scope (projr (state_from_row q)) = rs_scope s \<and> rs_state_id (projr (state_from_row q)) = rs_state_id s"
    if "q \<in> set (stt_states (sdb_tables db))" for q
    using state_from_row_Inr [OF ok [OF that]] state_to_row_scope [OF assms(3)] assms(2)
      scope_values_inject [of "rs_scope (projr (state_from_row q))" "rs_scope s"]
    by (auto simp: state_row_key_def runtime_state_valid_def)
  then show ?thesis unfolding rows by (auto simp: image_iff) metis+
qed

lemma load_states_append:
  assumes "load_states db = Inr ss" and "state_from_row r = Inr s"
    and "stt_states (sdb_tables db') = stt_states (sdb_tables db) @ [r]"
  obtains ss' where "load_states db' = Inr ss'" and "mset ss' = add_mset s (mset ss)"
proof -
  from assms(1) have "mapR state_from_row (sort_key (\<lambda>r. (sr_dimension r, sr_version r)) (stt_states (sdb_tables db))) = Inr ss"
    by (simp add: load_states_def)
  from mapR_mset_insert [OF this _ assms(2), of "sort_key (\<lambda>r. (sr_dimension r, sr_version r)) (stt_states (sdb_tables db'))"]
  obtain ws where "mapR state_from_row (sort_key (\<lambda>r. (sr_dimension r, sr_version r)) (stt_states (sdb_tables db'))) = Inr ws"
    and "mset ws = add_mset s (mset ss)" by (auto simp: assms(3))
  with that show thesis by (simp add: load_states_def)
qed

lemma load_states_sorted: "load_states db = Inr ss \<Longrightarrow> sorted (map (\<lambda>t. (rs_dimension t, rs_version t)) ss)"
proof -
  let ?rows = "sort_key (\<lambda>r. (sr_dimension r, sr_version r)) (stt_states (sdb_tables db))"
  assume "load_states db = Inr ss"
  then have ok: "\<forall>q \<in> set ?rows. \<not> isl (state_from_row q)" and ss: "ss = map (\<lambda>q. projr (state_from_row q)) ?rows"
    unfolding load_states_def mapR_all_iff by auto
  have "map (\<lambda>t. (rs_dimension t, rs_version t)) ss = map (\<lambda>r. (sr_dimension r, sr_version r)) ?rows"
    unfolding ss using ok state_from_row_Inr by (auto simp: isl_def)
  then show ?thesis using sorted_sort_key [of "\<lambda>r. (sr_dimension r, sr_version r)" "stt_states (sdb_tables db)"] by simp
qed

text \<open>
  C34. Saving a canonical record. A record whose value JSON cannot hold raises and changes nothing; a record
  with the scope and id of a stored one is reported as a duplicate and changes nothing; every other record
  is stored, and reading returns it exactly, besides exactly what was stored before, in order of dimension
  and version.
\<close>

theorem save_state_outcomes:
  assumes "writable db" and "runtime_state_valid s" and "rs_version s < 2 ^ 63" and "load_states db = Inr ss"
  shows "if \<not> storable (rs_value s)
    then save_state s db = (Inl (ValueError ''durable state store requires JSON-serializable values''), db)
    else if \<exists>t \<in> set ss. rs_scope t = rs_scope s \<and> rs_state_id t = rs_state_id s
    then \<exists>db'. save_state s db = (Inr False, db') \<and> sdb_tables db' = sdb_tables db \<and> committed db' = committed db
    else \<exists>db' ss'. save_state s db = (Inr True, db') \<and> load_states db' = Inr ss' \<and>
      mset ss' = add_mset s (mset ss) \<and> sorted (map (\<lambda>t. (rs_dimension t, rs_version t)) ss')"
proof (cases "storable (rs_value s)")
  case False
  have err: "json_dumps v = Inl e \<Longrightarrow> e = ValueError ''durable state store requires JSON-serializable values''" for v e
  proof (induction v arbitrary: e rule: json_dumps.induct)
    case (1 xs)
    then show ?case by (induction xs arbitrary: e) (auto simp: bindR_def split: sum.splits)
  next
    case (2 xs)
    then show ?case by (induction xs arbitrary: e) (auto simp: bindR_def split: sum.splits)
  qed auto
  from False obtain e where "json_dumps (rs_value s) = Inl e" by (auto simp: storable_def isl_def)
  moreover from err [OF this] have "e = ValueError ''durable state store requires JSON-serializable values''" .
  ultimately show ?thesis using False assms(1)
    by (cases db) (auto simp: save_state_def insert_state_def state_to_row_def bindP_def true_unless_integrity_error_def
        in_own_block_def with_connection_def rollback_db_def committed_def writable_def split: option.splits)
next
  case True
  then obtain r where r: "state_to_row s = Inr r" by (auto simp: state_to_row_storable)
  note keys = load_states_key [OF assms(4,2) r]
  have "int64_error [sr_version r, sr_sync_version r] = None"
    using assms(2,3) state_to_row_scope [OF r] by (simp add: int64_error_def valid_state)
  note block = block_tables [OF assms(1), of "insert_state_row r", OF refl, folded save_state_storable [OF r],
    unfolded insert_state_row_def this option.case]
  show ?thesis
  proof (cases "\<exists>t \<in> set ss. rs_scope t = rs_scope s \<and> rs_state_id t = rs_state_id s")
    case True
    with \<open>storable (rs_value s)\<close> keys show ?thesis unfolding block by simp
  next
    case False
    with keys have run: "save_state s db = (Inr True, if sdb_in_transaction db
        then (begin_db db)\<lparr>sdb_tables := sdb_tables db\<lparr>stt_states := stt_states (sdb_tables db) @ [r]\<rparr>\<rparr>
        else db\<lparr>sdb_tables := sdb_tables db\<lparr>stt_states := stt_states (sdb_tables db) @ [r]\<rparr>\<rparr>)"
      (is "_ = (_, ?db)") unfolding block by simp
    have "stt_states (sdb_tables ?db) = stt_states (sdb_tables db) @ [r]" by simp
    from load_states_append [OF assms(4) state_row_round_trip [OF assms(2) r] this]
    obtain ss' where "load_states ?db = Inr ss'" "mset ss' = add_mset s (mset ss)" .
    with run False \<open>storable (rs_value s)\<close> load_states_sorted show ?thesis by auto
  qed
qed

section \<open>Saving and reading transitions\<close>

lemma fold_update_lookup:
  "distinct (map fst items) \<Longrightarrow> (k, v) \<in> set items \<Longrightarrow>
    map_of (foldl (\<lambda>d (k, s). AList.update k s d) d items) k = Some v"
proof (induction items arbitrary: d)
  case (Cons p items)
  have keep: "k \<notin> fst ` set items \<Longrightarrow> map_of (foldl (\<lambda>d (k, s). AList.update k s d) d items) k = map_of d k" for d
    by (induction items arbitrary: d) auto
  show ?case
  proof (cases "p = (k, v)")
    case True
    with Cons.prems keep show ?thesis by simp
  next
    case False
    with Cons show ?thesis by (simp add: case_prod_beta)
  qed
qed simp

lemma states_by_id_lookup:
  assumes "load_states db = Inr ss" and "distinct (map rs_state_id ss)"
  obtains by_id where "states_by_id (stt_states (sdb_tables db)) = Inr by_id"
    and "\<And>s. s \<in> set ss \<Longrightarrow> map_of by_id (rs_state_id s) = Some s"
proof -
  let ?rows = "stt_states (sdb_tables db)"
  let ?items = "map (\<lambda>r. (sr_state_id r, projr (state_from_row r))) ?rows"
  from assms(1) have ok: "\<And>r. r \<in> set ?rows \<Longrightarrow> state_from_row r = Inr (projr (state_from_row r))"
    and ss: "mset ss = mset (map (\<lambda>r. projr (state_from_row r)) ?rows)"
    by (auto simp: load_states_def mapR_all_iff)
  have "mapR (\<lambda>r. bindR (state_from_row r) (\<lambda>s. Inr (sr_state_id r, s))) ?rows = Inr ?items"
    by (rule mapR_all_ok) (subst ok, simp_all)
  then have items: "states_by_id ?rows = Inr (foldl (\<lambda>d (k, s). AList.update k s d) [] ?items)"
    by (simp add: states_by_id_def)
  have ids: "map rs_state_id (map (\<lambda>r. projr (state_from_row r)) ?rows) = map fst ?items"
    using state_from_row_Inr [OF ok] by simp
  have "mset (map rs_state_id ss) = mset (map fst ?items)" unfolding ids [symmetric] by (simp only: mset_map ss)
  with assms(2) have "distinct (map fst ?items)" by (metis mset_eq_imp_distinct_iff)
  note lookup = fold_update_lookup [OF this, of _ _ "[]"]
  have "map_of (foldl (\<lambda>d (k, s). AList.update k s d) [] ?items) (rs_state_id s) = Some s" if "s \<in> set ss" for s
  proof (rule lookup)
    from that arg_cong [OF ss, of set_mset] obtain r where r: "r \<in> set ?rows" "s = projr (state_from_row r)" by auto
    with state_from_row_Inr [OF ok] have "rs_state_id s = sr_state_id r" by simp
    with r show "(rs_state_id s, s) \<in> set ?items" by auto
  qed
  with items show thesis using that by blast
qed

text \<open>
  Saving a transition. Where no two scopes share a state id, a transition between stored records is
  stored unless its id is taken, and reading returns it exactly, besides exactly what was stored before;
  a taken id is reported as a duplicate and changes nothing.
\<close>

theorem save_transition_outcomes:
  assumes "writable db" and "state_transition_valid x" and "scope_valid (tr_scope x)" and "sf_version (tr_sync x) < 2 ^ 63"
    and "load_states db = Inr ss" and "distinct (map rs_state_id ss)"
    and "tr_from_state x \<in> set ss" and "tr_to_state x \<in> set ss" and "load_transitions db = Inr xs"
  shows "if tr_transition_id x \<in> tr_transition_id ` set xs
    then \<exists>db'. save_transition x db = (Inr False, db') \<and> sdb_tables db' = sdb_tables db \<and> committed db' = committed db
    else \<exists>db' xs'. save_transition x db = (Inr True, db') \<and> load_transitions db' = Inr xs' \<and> mset xs' = add_mset x (mset xs)"
proof -
  let ?row = "state_transition_to_row x" and ?rows = "stt_transitions (sdb_tables db)"
  let ?key = "\<lambda>r. (dt_instant (tw_committed_at r), tw_transition_id r)"
  from states_by_id_lookup [OF assms(5,6)] obtain by_id where by_id: "states_by_id (stt_states (sdb_tables db)) = Inr by_id"
    and lookup: "\<And>s. s \<in> set ss \<Longrightarrow> map_of by_id (rs_state_id s) = Some s" by blast
  let ?read = "\<lambda>r. state_transition_from_rows r by_id"
  from assms(9) by_id have read: "mapR ?read (sort_key ?key ?rows) = Inr xs" by (simp add: load_transitions_def)
  have same_id: "?read r = Inr y \<Longrightarrow> tr_transition_id y = tw_transition_id r" for r y
    by (auto simp: state_transition_from_rows_def mk_state_transition_def bindR_Inr_iff guarded_Inr_iff split: option.splits)
  have ids: "tr_transition_id ` set xs = tw_transition_id ` set ?rows"
  proof -
    from read have xs: "set xs = (\<lambda>r. projr (?read r)) ` set ?rows" and ok: "\<And>r. r \<in> set ?rows \<Longrightarrow> \<not> isl (?read r)"
      by (auto simp: mapR_all_iff)
    from ok have "\<And>r. r \<in> set ?rows \<Longrightarrow> ?read r = Inr (projr (?read r))" by (auto simp: isl_def)
    then have "\<And>r. r \<in> set ?rows \<Longrightarrow> tr_transition_id (projr (?read r)) = tw_transition_id r" by (metis same_id)
    then show ?thesis unfolding xs by (simp add: image_image)
  qed
  have "1 \<le> sf_version (tr_sync x)" using assms(2) by (simp add: state_transition_valid_def state_transition_checks_def)
  then have no_error: "int64_error [tw_sync_version ?row] = None"
    using assms(4) by (simp add: int64_error_def state_transition_to_row_def)
  note block = block_tables [OF assms(1), of "insert_transition_row ?row", OF refl, folded save_transition_def,
    unfolded insert_transition_row_def no_error option.case]
  have row_id: "tw_transition_id ?row = tr_transition_id x" by (simp add: state_transition_to_row_def)
  show ?thesis
  proof (cases "tr_transition_id x \<in> tr_transition_id ` set xs")
    case True
    with ids row_id show ?thesis unfolding block by simp
  next
    case False
    with ids row_id have run: "save_transition x db = (Inr True, if sdb_in_transaction db
        then (begin_db db)\<lparr>sdb_tables := sdb_tables db\<lparr>stt_transitions := ?rows @ [?row]\<rparr>\<rparr>
        else db\<lparr>sdb_tables := sdb_tables db\<lparr>stt_transitions := ?rows @ [?row]\<rparr>\<rparr>)"
      (is "_ = (_, ?db)") unfolding block by simp
    have readback: "?read ?row = Inr x"
      by (rule state_transition_row_round_trip [OF assms(2,3) lookup [OF assms(7)] lookup [OF assms(8)]])
    have "mset (sort_key ?key (?rows @ [?row])) = add_mset ?row (mset (sort_key ?key ?rows))" by simp
    from mapR_mset_insert [OF read this readback] obtain xs' where
      "mapR ?read (sort_key ?key (?rows @ [?row])) = Inr xs'" "mset xs' = add_mset x (mset xs)" .
    moreover have "stt_states (sdb_tables ?db) = stt_states (sdb_tables db)" "stt_transitions (sdb_tables ?db) = ?rows @ [?row]"
      by simp_all
    ultimately have "load_transitions ?db = Inr xs' \<and> mset xs' = add_mset x (mset xs)"
      by (simp add: load_transitions_def by_id)
    with run False show ?thesis by metis
  qed
qed

section \<open>Runs\<close>

text \<open>The mood of a user lapses: its record, the record that ends it, and the transition between them.\<close>

definition lapsed_mood :: "string \<Rightarrow> runtime_state" where
  "lapsed_mood user = projr (expired_successor (mood_state user 50) (utc 100))"

definition mood_lapse :: "string \<Rightarrow> state_transition" where
  "mood_lapse user = projr (transition_record (mood_state user 50) (lapsed_mood user) (utc 100))"

definition one_user :: "state_step list" where
  "one_user = [Call (Save_state (mood_state ''u1'' 50)), In_transaction [Save_state (lapsed_mood ''u1''),
     Save_transition (mood_lapse ''u1''), Record_commit ''turn-1'' (user_scope ''u1'') (utc 100) [''user.mood:4'']]]"

definition two_users :: "state_step list" where
  "two_users = one_user @ [Call (Save_state (mood_state ''u2'' 50)), Call (Save_state (lapsed_mood ''u2''))]"

lemma one_user_reads:
  "load_states (run_steps one_user new_state_db) = Inr [mood_state ''u1'' 50, lapsed_mood ''u1'']"
  "load_transitions (run_steps one_user new_state_db) = Inr [mood_lapse ''u1'']"
  "committed_state_ids ''turn-1'' (user_scope ''u1'') (run_steps one_user new_state_db) = Inr (Some [''user.mood:4''])"
  "idle (run_steps one_user new_state_db)"
  by code_simp+

text \<open>
  State ids carry no scope, and the table of states by id is built over all scopes: once a second scope has
  records with the same ids, no transition of the store can be loaded any more. The transition of the second
  scope has the id of the first one's and is dropped as a duplicate.
\<close>

lemma second_scope_breaks_transitions:
  "load_transitions (run_steps two_users new_state_db) = Inl (ValueError ''state scope must match transition scope'')"
  "fst (save_transition (mood_lapse ''u2'') (run_steps two_users new_state_db)) = Inr False"
  by code_simp+

text \<open>
  A ledger update in an outer transaction reports a duplicate record by \<^verbatim>\<open>False\<close> and keeps the ledger rows
  it inserted before.
\<close>

definition slow_sample :: "int \<Rightarrow> slow_entry" where
  "slow_sample n = \<lparr>se_id = 0, se_sequence = n, se_accepted_at = utc n, se_proposed_value = 1, se_salience = 1,
     se_evidence_refs = [''ev''], se_source_event_ref = None, se_source_decision_id = ''d''\<rparr>"

lemma refused_update_keeps_rows:
  "stt_window (committed (run_step (In_transaction [Slow_update (mood_state ''u1'' 50) [slow_sample 1] (user_scope ''u1'', ''user.mood'') 4])
     (run_steps one_user new_state_db))) \<noteq> []"
  "stt_window (committed (run_step (Call (Slow_update (mood_state ''u1'' 50) [slow_sample 1] (user_scope ''u1'', ''user.mood'') 4))
     (run_steps one_user new_state_db))) = []"
  by code_simp+

lemma sample_records: "runtime_state_valid (mood_state ''u2'' 50)" "storable (rs_value (mood_state ''u2'' 50))"
  "state_transition_valid (mood_lapse ''u1'')" "scope_valid (tr_scope (mood_lapse ''u1''))"
  "tr_from_state (mood_lapse ''u1'') = mood_state ''u1'' 50" "tr_to_state (mood_lapse ''u1'') = lapsed_mood ''u1''"
  "sf_version (tr_sync (mood_lapse ''u1'')) = 1" "rs_state_id (lapsed_mood ''u1'') = ''user.mood:4''"
  by code_simp+

lemma idle_writable: "idle db \<Longrightarrow> writable db"
  by (simp add: idle_def writable_def)

theorem transaction_all_or_nothing_witness:
  "snd (transaction (eachP run_call [Save_state (mood_state ''u2'' 50), Raise (KeyError ''k'')]) (run_steps one_user new_state_db)) =
    run_steps one_user new_state_db"
proof -
  let ?m = "transaction (eachP run_call [Save_state (mood_state ''u2'' 50), Raise (KeyError ''k'')]) (run_steps one_user new_state_db)"
  have "list_all keeps_transaction [Save_state (mood_state ''u2'' 50), Raise (KeyError ''k'')]" by simp
  from transaction_all_or_nothing [OF one_user_reads(4) this] have
    "case ?m of (Inl e, db') \<Rightarrow> db' = run_steps one_user new_state_db | (Inr rs, db') \<Rightarrow> True"
    by (auto split: prod.splits sum.splits)
  moreover have "isl (fst ?m)" by code_simp
  ultimately show ?thesis by (cases ?m; cases "fst ?m") auto
qed

theorem save_state_outcomes_witness:
  "\<exists>db' ss'. save_state (mood_state ''u2'' 50) (run_steps one_user new_state_db) = (Inr True, db') \<and>
    load_states db' = Inr ss' \<and> mset ss' = {#mood_state ''u2'' 50, mood_state ''u1'' 50, lapsed_mood ''u1''#}"
proof -
  have "rs_version (mood_state ''u2'' 50) < 2 ^ 63" by (simp add: mood_state_def)
  from save_state_outcomes [OF idle_writable [OF one_user_reads(4)] sample_records(1) this one_user_reads(1)]
  show ?thesis using sample_records(2,8) by (auto simp: mood_state_def user_scope_def)
qed

theorem save_transition_outcomes_witness:
  "\<exists>db'. save_transition (mood_lapse ''u1'') (run_steps one_user new_state_db) = (Inr False, db') \<and>
    sdb_tables db' = sdb_tables (run_steps one_user new_state_db)"
proof -
  have "distinct (map rs_state_id [mood_state ''u1'' 50, lapsed_mood ''u1''])"
    using sample_records(8) by (simp add: mood_state_def)
  from save_transition_outcomes [OF idle_writable [OF one_user_reads(4)] sample_records(3,4) _ one_user_reads(1) this _ _ one_user_reads(2)]
  show ?thesis using sample_records(5-7) by auto
qed

end
