(* ===== verification/Slow_Window.thy ===== *)
theory Slow_Window
  imports Slow_Writer State_Plane
begin

text \<open>
  What the slow writer guarantees: a flush happens completely or not at all and leaves in the ledger the
  newest contributions of every dimension it touches, no window ever exceeds the configured size, and the
  value it writes is a mean of contributions. Two lemmas show where the window in memory and the ledger part.
\<close>

section \<open>The statements of a flush\<close>

fun run_statements :: "(state_tables \<Rightarrow> state_tables result) list \<Rightarrow> state_tables \<Rightarrow> state_tables result" where
  "run_statements [] t = Inr t"
| "run_statements (st # sts) t = bindR (st t) (run_statements sts)"

lemma execute_db_Inr: "execute_db st db = (Inr u, db') \<Longrightarrow> st (sdb_tables db) = Inr (sdb_tables db')"
  by (auto simp: execute_db_def split: sum.splits)

lemma each_execute_Inr:
  "eachP (\<lambda>e. execute_db (f e)) es db = (Inr us, db') \<Longrightarrow> run_statements (map f es) (sdb_tables db) = Inr (sdb_tables db')"
  by (induction es arbitrary: db us) (auto elim!: bindP_Inr_E dest!: execute_db_Inr)

fun numbered_rows :: "scope_columns \<Rightarrow> string \<Rightarrow> int \<Rightarrow> slow_entry list \<Rightarrow> slow_row list" where
  "numbered_rows sc dimension i [] = []"
| "numbered_rows sc dimension i (e # es) = new_slow_row sc dimension i e # numbered_rows sc dimension (i + 1) es"

lemma insert_rows_Inr:
  "run_statements (map (insert_slow_row sc dimension) es) t = Inr u \<Longrightarrow>
    u = t\<lparr>stt_window := stt_window t @ numbered_rows sc dimension (stt_next_id t) es,
      stt_next_id := stt_next_id t + int (length es)\<rparr>"
proof (induction es arbitrary: t)
  case (Cons e es)
  then obtain v where v: "insert_slow_row sc dimension e t = Inr v"
    and u: "run_statements (map (insert_slow_row sc dimension) es) v = Inr u" by (auto simp: bindR_Inr_iff)
  from v have "v = t\<lparr>stt_window := stt_window t @ [new_slow_row sc dimension (stt_next_id t) e], stt_next_id := stt_next_id t + 1\<rparr>"
    by (auto simp: insert_slow_row_def split: option.splits if_splits)
  with Cons.IH [OF u] show ?case by simp
qed simp

text \<open>The rows of one window, oldest first.\<close>

definition window_of :: "scope_columns \<Rightarrow> string \<Rightarrow> state_tables \<Rightarrow> slow_row list" where
  "window_of sc dimension t = sort_key accepted_key (filter (in_window sc dimension) (stt_window t))"

lemma in_window_numbered: "filter (in_window sc dimension) (numbered_rows sc' d' i es) =
    (if sc' = sc \<and> d' = dimension then numbered_rows sc' d' i es else [])"
  by (induction es arbitrary: i) (auto simp: in_window_def new_slow_row_def)

lemma rev_take: "take n (rev xs) = rev (drop (length xs - n) xs)"
  by (simp add: take_rev)

lemma distinct_key_filter:
  "distinct (map f xs) \<Longrightarrow> set ys \<subseteq> set xs \<Longrightarrow> filter (\<lambda>x. f x \<in> f ` set ys) xs = filter (\<lambda>x. x \<in> set ys) xs"
  by (rule filter_cong) (auto dest!: inj_onD [of f "set xs"] simp: distinct_map)

lemma filter_sorted_suffix:
  assumes "distinct xs" and "sort_key k xs = ys @ zs" and "inj_on k (set xs)"
  shows "sort_key k (filter (\<lambda>x. x \<in> set zs) xs) = zs"
proof -
  have perm: "mset xs = mset ys + mset zs" using arg_cong [OF assms(2), of mset] by simp
  have "distinct (ys @ zs)" using assms(1) arg_cong [OF assms(2), of mset] mset_eq_imp_distinct_iff
    by (metis mset_sort)
  then have "filter (\<lambda>x. x \<in> set zs) ys = []" "filter (\<lambda>x. x \<in> set zs) zs = zs" by (auto simp: filter_empty_conv filter_id_conv)
  then have "mset (filter (\<lambda>x. x \<in> set zs) xs) = mset zs"
    using arg_cong [OF perm, of "filter_mset (\<lambda>x. x \<in> set zs)"] by (simp flip: mset_filter)
  moreover have "sorted (map k zs)" using sorted_sort_key [of k xs] assms(2) by (simp add: sorted_append)
  moreover have "inj_on k (set (filter (\<lambda>x. x \<in> set zs) xs))" using assms(3) by (rule inj_on_subset) auto
  ultimately show ?thesis by (metis sort_key_inj_key_eq)
qed

lemma accepted_key_inj: "distinct (map sl_id xs) \<Longrightarrow> inj_on accepted_key (set (filter P xs))"
  unfolding accepted_key_def distinct_map by (rule inj_onI) (auto dest: inj_onD)

text \<open>Trimming keeps exactly the newest rows of its window and every row of the others.\<close>

lemma trim_window:
  assumes "trim_slow_window sc dimension n t = Inr u" and "distinct (map sl_id (stt_window t))"
  shows "window_of sc dimension u = last_n n (window_of sc dimension t)"
    and "(sc', d') \<noteq> (sc, dimension) \<Longrightarrow> window_of sc' d' u = window_of sc' d' t"
proof -
  let ?w = "stt_window t" and ?in = "in_window sc dimension"
  let ?sorted = "window_of sc dimension t" and ?new = "last_n n (window_of sc dimension t)"
  have newest: "take (nat n) (rev ?sorted) = rev ?new" by (simp add: rev_take last_n_def)
  have sub: "set ?new \<subseteq> set ?w" by (auto simp: last_n_def window_of_def dest: in_set_dropD)
  from assms(1) newest have u: "stt_window u = filter (\<lambda>r. \<not> ?in r \<or> sl_id r \<in> sl_id ` set ?new) ?w"
    by (auto simp: trim_slow_window_def Let_def window_of_def [symmetric] split: option.splits)
  have "filter ?in (stt_window u) = filter ?in (filter (\<lambda>r. sl_id r \<in> sl_id ` set ?new) ?w)"
    unfolding u by (auto simp: filter_filter conj_commute intro: filter_cong)
  also have "\<dots> = filter (\<lambda>r. r \<in> set ?new) (filter ?in ?w)"
    unfolding distinct_key_filter [OF assms(2) sub] by (simp add: conj_commute)
  finally have kept: "filter ?in (stt_window u) = filter (\<lambda>r. r \<in> set ?new) (filter ?in ?w)" .
  have split: "sort_key accepted_key (filter ?in ?w) = take (length ?sorted - nat n) ?sorted @ ?new"
    by (simp add: last_n_def window_of_def)
  have "distinct (filter ?in ?w)" using assms(2) by (simp add: distinct_map)
  moreover have "inj_on accepted_key (set (filter ?in ?w))" using assms(2) by (rule accepted_key_inj)
  ultimately have "sort_key accepted_key (filter (\<lambda>r. r \<in> set ?new) (filter ?in ?w)) = ?new"
    by (intro filter_sorted_suffix [OF _ split])
  with kept show "window_of sc dimension u = ?new" by (simp add: window_of_def [of _ _ u])
  show "(sc', d') \<noteq> (sc, dimension) \<Longrightarrow> window_of sc' d' u = window_of sc' d' t"
    unfolding window_of_def u by (auto simp: in_window_def intro!: arg_cong [of _ _ "sort_key accepted_key"] filter_cong)
qed

section \<open>One plan\<close>

lemma execute_update_Inr:
  assumes "execute_slow_window_update s rows (sc, d) n db = (Inr u, db')"
  obtains t v r where
    "run_statements (map (insert_slow_row (scope_values (rs_scope s)) (rs_dimension s)) rows) (sdb_tables db) = Inr t"
    and "trim_slow_window (scope_values sc) d n t = Inr v" and "state_to_row s = Inr r"
    and "insert_state_row r v = Inr (sdb_tables db')"
proof -
  from assms obtain us db1 u2 db2 where
    1: "eachP (\<lambda>e. execute_db (insert_slow_row (scope_values (rs_scope s)) (rs_dimension s) e)) rows db = (Inr us, db1)"
    and 2: "execute_db (trim_slow_window (scope_values sc) d n) db1 = (Inr u2, db2)"
    and 3: "insert_state s db2 = (Inr u, db')"
    by (auto simp: execute_slow_window_update_def elim!: bindP_Inr_E)
  from 3 obtain r where "state_to_row s = Inr r" "execute_db (insert_state_row r) db2 = (Inr u, db')"
    by (auto simp: insert_state_def elim!: bindP_Inr_E)
  with each_execute_Inr [OF 1] execute_db_Inr [OF 2] execute_db_Inr that show thesis by blast
qed

definition plan_ok :: "slow_writer \<Rightarrow> scope \<Rightarrow> slow_plan \<Rightarrow> bool" where
  "plan_ok w sc p \<longleftrightarrow> pl_scope p = sc \<and> pl_trim_keys p = (sc, pl_target_dimension p) \<and> rs_scope (pl_state p) = sc \<and>
     rs_dimension (pl_state p) = pl_target_dimension p \<and> pl_window_size p = lw_window_size w"

text \<open>What a plan leaves of the tables: its window trimmed to the newest rows, one more canonical record.\<close>

definition plan_effect :: "slow_plan \<Rightarrow> state_tables \<Rightarrow> state_tables \<Rightarrow> bool" where
  "plan_effect p t u \<longleftrightarrow> (let sc = scope_values (pl_scope p); d = pl_target_dimension p in
     window_of sc d u = last_n (pl_window_size p) (sort_key accepted_key
       (window_of sc d t @ numbered_rows sc d (stt_next_id t) (pl_new_rows p))) \<and>
     (\<forall>sc' d'. (sc', d') \<noteq> (sc, d) \<longrightarrow> window_of sc' d' u = window_of sc' d' t) \<and>
     (\<exists>r. state_to_row (pl_state p) = Inr r \<and> stt_states u = stt_states t @ [r]) \<and>
     stt_transitions u = stt_transitions t \<and> stt_markers u = stt_markers t \<and> stt_definitions u = stt_definitions t \<and>
     tables_ok u)"

lemma run_statements_sound:
  "(\<And>st. st \<in> set sts \<Longrightarrow> sound_statement st) \<Longrightarrow> tables_ok t \<Longrightarrow> run_statements sts t = Inr u \<Longrightarrow> tables_ok u"
  by (induction sts arbitrary: t) (auto simp: bindR_Inr_iff sound_statement_def)

lemma window_of_append:
  assumes "distinct (map sl_id (xs @ ys))" and "\<And>r. r \<in> set ys \<Longrightarrow> in_window sc d r"
  shows "sort_key accepted_key (filter (in_window sc d) (xs @ ys)) =
    sort_key accepted_key (sort_key accepted_key (filter (in_window sc d) xs) @ ys)"
proof (rule sort_key_inj_key_eq)
  show "mset (filter (in_window sc d) (xs @ ys)) =
      mset (sort_key accepted_key (sort_key accepted_key (filter (in_window sc d) xs) @ ys))"
    using assms(2) by (simp add: filter_id_conv [THEN iffD2])
  show "inj_on accepted_key (set (filter (in_window sc d) (xs @ ys)))"
    using assms(1) by (rule accepted_key_inj)
qed simp

lemma integrity_True: "true_unless_integrity_error m db = (Inr True, db') \<longleftrightarrow> m db = (Inr (), db')"
  by (cases "m db"; cases "fst (m db)") (auto simp: true_unless_integrity_error_def split: py_error.splits)

lemma execute_plan_commit:
  assumes "execute_flush_plan p db = (Inr u, db')" and "sdb_in_transaction db"
  shows "execute_slow_window_update (pl_state p) (pl_new_rows p) (pl_trim_keys p) (pl_window_size p) db = (Inr (), db')"
proof -
  from assms(1) obtain ok db1 where "commit_slow_window_update (pl_state p) (pl_new_rows p) (pl_trim_keys p)
      (pl_window_size p) db = (Inr ok, db1)" "ok" "db1 = db'"
    unfolding execute_flush_plan_def by (elim bindP_Inr_E) (auto split: if_splits)
  then show ?thesis using assms(2)
    by (auto simp: commit_slow_window_update_def integrity_True in_own_block_def split: if_splits)
qed

lemma execute_plan_effect:
  assumes "execute_flush_plan p db = (Inr u, db')" and "sdb_in_transaction db" and "plan_ok w sc p"
    and "tables_ok (sdb_tables db)"
  shows "plan_effect p (sdb_tables db) (sdb_tables db')"
proof -
  let ?s = "pl_state p" and ?sc = "scope_values sc" and ?d = "pl_target_dimension p" and ?t = "sdb_tables db"
  from execute_plan_commit [OF assms(1,2)] assms(3)
  have "execute_slow_window_update ?s (pl_new_rows p) (sc, ?d) (pl_window_size p) db = (Inr (), db')"
    by (simp add: plan_ok_def)
  then obtain t v r where t: "run_statements (map (insert_slow_row ?sc ?d) (pl_new_rows p)) ?t = Inr t"
    and v: "trim_slow_window ?sc ?d (pl_window_size p) t = Inr v" and r: "state_to_row ?s = Inr r"
    and u: "insert_state_row r v = Inr (sdb_tables db')"
    using assms(3) by (auto simp: plan_ok_def elim!: execute_update_Inr)
  have ok_t: "tables_ok t" by (rule run_statements_sound [OF _ assms(4) t]) (auto simp: sound_statements)
  have ok_v: "tables_ok v" using sound_window(2) v ok_t by (simp add: sound_statement_def)
  have ok_u: "tables_ok (sdb_tables db')" using sound_insert(2) u ok_v by (simp add: sound_statement_def)
  from u have s: "sdb_tables db' = v\<lparr>stt_states := stt_states v @ [r]\<rparr>"
    by (auto simp: insert_state_row_def split: option.splits if_splits)
  have same: "stt_states v = stt_states t" "stt_transitions v = stt_transitions t" "stt_markers v = stt_markers t"
    "stt_definitions v = stt_definitions t"
    using v by (auto simp: trim_slow_window_def Let_def split: option.splits)
  note i = insert_rows_Inr [OF t]
  let ?rows = "numbered_rows ?sc ?d (stt_next_id ?t) (pl_new_rows p)"
  have ids: "distinct (map sl_id (stt_window t))" using ok_t by (simp add: tables_ok_def)
  have rows: "x \<in> set ?rows \<Longrightarrow> in_window ?sc ?d x" for x
    using in_window_numbered [of ?sc ?d ?sc ?d "stt_next_id ?t" "pl_new_rows p"] by (metis filter_id_conv)
  have one: "window_of ?sc ?d t = sort_key accepted_key (window_of ?sc ?d ?t @ ?rows)"
    using window_of_append [of "stt_window ?t" ?rows ?sc ?d] ids rows by (simp add: window_of_def i)
  have others: "window_of sc' d' t = window_of sc' d' ?t" if "(sc', d') \<noteq> (?sc, ?d)" for sc' d'
    using that by (auto simp: window_of_def i in_window_numbered)
  have w: "window_of sc' d' (sdb_tables db') = window_of sc' d' v" for sc' d' by (simp add: s window_of_def)
  show ?thesis
    using assms(3) trim_window [OF v ids] one others w ok_u r same i s by (auto simp: plan_effect_def plan_ok_def Let_def)
qed

section \<open>A flush\<close>

lemma in_open_plan: "preserves (in_open t) (execute_flush_plan p)"
proof -
  have "preserves (in_open t) (commit_slow_window_update s rows keys n)" for s rows keys n
    using in_open_calls [of "Slow_update s rows keys n" t] by simp
  then show ?thesis unfolding execute_flush_plan_def by (intro preserve_rules)
qed

text \<open>The effect of all the plans: every dimension once, in the order of the plans.\<close>

definition plans_effect :: "scope \<Rightarrow> slow_plan list \<Rightarrow> state_tables \<Rightarrow> state_tables \<Rightarrow> bool" where
  "plans_effect sc plans t u \<longleftrightarrow>
     (\<forall>p \<in> set plans. \<exists>i. window_of (scope_values sc) (pl_target_dimension p) u = last_n (pl_window_size p)
       (sort_key accepted_key (window_of (scope_values sc) (pl_target_dimension p) t @
         numbered_rows (scope_values sc) (pl_target_dimension p) i (pl_new_rows p)))) \<and>
     (\<forall>sc' d. sc' \<noteq> scope_values sc \<or> d \<notin> pl_target_dimension ` set plans \<longrightarrow> window_of sc' d u = window_of sc' d t) \<and>
     (\<exists>rows. stt_states u = stt_states t @ rows \<and> list_all2 (\<lambda>p r. state_to_row (pl_state p) = Inr r) plans rows) \<and>
     stt_transitions u = stt_transitions t \<and> stt_markers u = stt_markers t \<and> stt_definitions u = stt_definitions t \<and>
     tables_ok u"

lemma plans_effect_Cons:
  assumes "plan_effect p t v" and "plans_effect sc ps v u" and "pl_scope p = sc"
    and "pl_target_dimension p \<notin> pl_target_dimension ` set ps"
  shows "plans_effect sc (p # ps) t u"
proof -
  let ?sc = "scope_values sc"
  note e = assms(1) [unfolded plan_effect_def Let_def assms(3)]
  note es = assms(2) [unfolded plans_effect_def]
  from e obtain r where r: "state_to_row (pl_state p) = Inr r" "stt_states v = stt_states t @ [r]" by blast
  from es obtain rows where rows: "stt_states u = stt_states v @ rows"
    "list_all2 (\<lambda>p r. state_to_row (pl_state p) = Inr r) ps rows" by blast
  have other: "window_of sc' d v = window_of sc' d t" if "sc' \<noteq> ?sc \<or> d \<noteq> pl_target_dimension p" for sc' d
    using e that by blast
  have first: "window_of ?sc (pl_target_dimension p) u = window_of ?sc (pl_target_dimension p) v"
    using es assms(4) by blast
  have "\<exists>i. window_of ?sc (pl_target_dimension q) u = last_n (pl_window_size q) (sort_key accepted_key
      (window_of ?sc (pl_target_dimension q) t @ numbered_rows ?sc (pl_target_dimension q) i (pl_new_rows q)))"
    if "q \<in> set (p # ps)" for q
  proof (cases "q = p")
    case True
    with e first show ?thesis by auto
  next
    case False
    with that have "q \<in> set ps" by simp
    with assms(4) have "pl_target_dimension q \<noteq> pl_target_dimension p" by (metis imageI)
    with other have "window_of ?sc (pl_target_dimension q) v = window_of ?sc (pl_target_dimension q) t" by blast
    with bspec [OF conjunct1 [OF es] \<open>q \<in> set ps\<close>] show ?thesis by simp
  qed
  moreover have "window_of sc' d u = window_of sc' d t"
    if "sc' \<noteq> ?sc \<or> d \<notin> pl_target_dimension ` set (p # ps)" for sc' d
    using es other [of sc' d] that by auto
  moreover have "\<exists>rows. stt_states u = stt_states t @ rows \<and> list_all2 (\<lambda>p r. state_to_row (pl_state p) = Inr r) (p # ps) rows"
    using r rows by (intro exI [of _ "r # rows"]) simp
  ultimately show ?thesis using e es by (simp add: plans_effect_def)
qed

lemma execute_plans_effect:
  assumes "eachP execute_flush_plan plans db = (Inr us, db')" and "in_open base db" and "tables_ok (sdb_tables db)"
    and "\<forall>p \<in> set plans. plan_ok w sc p" and "distinct (map pl_target_dimension plans)"
  shows "plans_effect sc plans (sdb_tables db) (sdb_tables db')"
  using assms
proof (induction plans arbitrary: db us)
  case Nil
  then show ?case by (simp add: plans_effect_def)
next
  case (Cons p ps)
  from Cons.prems(1) obtain u db1 vs where 1: "execute_flush_plan p db = (Inr u, db1)"
    and 2: "eachP execute_flush_plan ps db1 = (Inr vs, db')" by (auto elim!: bindP_Inr_E)
  have open1: "in_open base db1" by (rule preservesD' [OF in_open_plan Cons.prems(2) 1])
  from Cons.prems(4) have p: "plan_ok w sc p" by simp
  from Cons.prems(2) have "sdb_in_transaction db" by (simp add: in_open_def)
  note e = execute_plan_effect [OF 1 this p Cons.prems(3)]
  then have "tables_ok (sdb_tables db1)" by (simp add: plan_effect_def Let_def)
  from Cons.IH [OF 2 open1 this] Cons.prems(4,5) have "plans_effect sc ps (sdb_tables db1) (sdb_tables db')" by simp
  from plans_effect_Cons [OF e this] p Cons.prems(5) show ?case by (simp add: plan_ok_def)
qed

lemma slow_state_Inr:
  assumes "slow_state w sc d a kept now v = Inr s"
  shows "rs_scope s = sc \<and> rs_dimension s = d \<and> rs_value s = VFloat a \<and> rs_version s = v \<and> rs_status s = ''active'' \<and>
    rs_evidence_refs s = first_occurrences (concat (map sw_evidence_refs kept)) \<and> rs_updated_at s = now"
  using assms by (auto simp: slow_state_def Let_def mk_runtime_state_def bindR_Inr_iff guarded_Inr_iff)

lemma prepare_one_Inr:
  assumes "prepare_one fl w db sc d pending now = Inr (Some p)"
  obtains rows s where "load_slow_window sc d db = Inr rows"
    and "pl_kept_records p = last_n (lw_window_size w) (combined_window (map (record_of_entry d) rows) pending)"
    and "pl_kept_records p \<noteq> []" and "0 < fl_sum fl (map sw_salience (pl_kept_records p))"
    and "pl_a_t p = fl_div fl (fl_sum fl (map (\<lambda>r. fl_mul fl (sw_salience r) (sw_proposed_value r)) (pl_kept_records p)))
      (fl_sum fl (map sw_salience (pl_kept_records p)))"
    and "slow_state w sc d (pl_a_t p) (pl_kept_records p) now (next_slow_version w sc d) = Inr (pl_state p)"
    and "pl_new_rows p = map (\<lambda>(i, r). entry_of_record (max_slow_window_sequence sc d db + 1 + int i) r) (enumerate 0 pending)"
    and "plan_ok w sc p" and "pl_target_dimension p = d" and "pl_new_version p = next_slow_version w sc d"
proof -
  from assms obtain rows where rows: "load_slow_window sc d db = Inr rows" by (auto simp: prepare_one_def bindR_Inr_iff)
  let ?kept = "last_n (lw_window_size w) (combined_window (map (record_of_entry d) rows) pending)"
  let ?a = "fl_div fl (fl_sum fl (map (\<lambda>r. fl_mul fl (sw_salience r) (sw_proposed_value r)) ?kept)) (fl_sum fl (map sw_salience ?kept))"
  from assms rows obtain s where s: "slow_state w sc d ?a ?kept now (next_slow_version w sc d) = Inr s"
    and ne: "?kept \<noteq> []" "\<not> fl_sum fl (map sw_salience ?kept) \<le> 0"
    and p: "p = \<lparr>pl_scope = sc, pl_target_dimension = d, pl_state = s,
          pl_new_rows = map (\<lambda>(i, r). entry_of_record (max_slow_window_sequence sc d db + 1 + int i) r) (enumerate 0 pending),
          pl_trim_keys = (sc, d), pl_window_size = lw_window_size w, pl_kept_records = ?kept,
          pl_new_version = next_slow_version w sc d, pl_a_t = ?a\<rparr>"
    by (auto simp: prepare_one_def Let_def bindR_Inr_iff split: if_splits)
  show thesis using slow_state_Inr [OF s] s ne rows by (intro that [of rows]) (simp_all add: p plan_ok_def not_le)
qed

text \<open>The plans of a flush: one for a pending dimension of the scope, each as \<open>prepare_one\<close> makes it.\<close>

lemma prepare_plans_Inr:
  assumes "prepare_plans fl w db sc clock i items = Inr plans" and "distinct (map fst items)"
  shows "(\<forall>p \<in> set plans. \<exists>pending j. ((sc, pl_target_dimension p), pending) \<in> set items \<and> pending \<noteq> [] \<and>
      prepare_one fl w db sc (pl_target_dimension p) pending (clock j) = Inr (Some p)) \<and>
    distinct (map pl_target_dimension plans)"
  using assms
proof (induction items arbitrary: plans i)
  case (Cons item rest)
  obtain pending_scope d pending where item: "item = ((pending_scope, d), pending)" by (metis prod.collapse)
  have IH: "prepare_plans fl w db sc clock k rest = Inr ps \<Longrightarrow>
      (\<forall>p \<in> set ps. \<exists>pending j. ((sc, pl_target_dimension p), pending) \<in> set rest \<and> pending \<noteq> [] \<and>
        prepare_one fl w db sc (pl_target_dimension p) pending (clock j) = Inr (Some p)) \<and>
      distinct (map pl_target_dimension ps)" for k ps
    using Cons by simp
  consider (skip) "prepare_plans fl w db sc clock i rest = Inr plans"
    | (plan) p ps where "pending_scope = sc" "pending \<noteq> []" "prepare_one fl w db sc d pending (clock i) = Inr (Some p)"
      "prepare_plans fl w db sc clock (i + 1) rest = Inr ps" "plans = p # ps"
    using Cons.prems(1) by (auto simp: item bindR_Inr_iff split: if_splits option.splits)
  then show ?case
  proof cases
    case skip
    from IH [OF this] show ?thesis by fastforce
  next
    case plan
    from prepare_one_Inr [OF plan(3)] have d: "pl_target_dimension p = d" by metis
    note ps = IH [OF plan(4)]
    have "d \<notin> set (map pl_target_dimension ps)" using ps Cons.prems(2) plan(1) by (force simp: item)
    moreover have "\<exists>pending j. ((sc, pl_target_dimension q), pending) \<in> set (item # rest) \<and> pending \<noteq> [] \<and>
        prepare_one fl w db sc (pl_target_dimension q) pending (clock j) = Inr (Some q)" if "q \<in> set plans" for q
    proof (cases "q \<in> set ps")
      case True
      with ps obtain more j where "((sc, pl_target_dimension q), more) \<in> set rest" "more \<noteq> []"
        "prepare_one fl w db sc (pl_target_dimension q) more (clock j) = Inr (Some q)" by blast
      then show ?thesis by (intro exI [of _ more] exI [of _ j]) simp
    next
      case False
      with that plan(5) have "q = p" by simp
      with plan(1-3) d show ?thesis by (intro exI [of _ pending] exI [of _ i]) (simp add: item)
    qed
    ultimately show ?thesis using ps plan(5) d by simp
  qed
qed simp

text \<open>
  C35. A flush happens completely or not at all. On an idle connection with sound tables it either raises,
  and neither the tables nor the writer have changed, or it commits: the ledger of every planned dimension
  then holds exactly the newest rows, as many as the window allows, of what it held and the pending
  contributions, every other ledger window is as before, one canonical record is appended for each plan, in
  order, and nothing else in the file changes.
\<close>

theorem flush_exact:
  assumes "idle db" and "tables_ok (sdb_tables db)" and "distinct (map fst (lw_pending w))"
  shows "case flush fl sc clock w db of
      (Inl e, db') \<Rightarrow> db' = db
    | (Inr (states, w'), db') \<Rightarrow> idle db' \<and> committed db' = sdb_tables db' \<and>
        (\<exists>plans. prepare_flush fl w sc clock db = Inr plans \<and> (states, w') = (if plans = [] then ([], w) else apply_flush_plan plans w) \<and>
          plans_effect sc plans (sdb_tables db) (sdb_tables db'))"
proof (cases "prepare_flush fl w sc clock db")
  case (Inl e)
  then show ?thesis by (simp add: flush_def bindP_def)
next
  case (Inr plans)
  show ?thesis
  proof (cases "plans = []")
    case True
    with Inr assms show ?thesis by (simp add: flush_def bindP_def plans_effect_def idle_def committed_def)
  next
    case False
    let ?db = "begin_db (db\<lparr>sdb_in_transaction := True\<rparr>)"
    have "preserves (in_open (sdb_tables db)) (eachP execute_flush_plan plans)" by (intro preserve_rules in_open_plan)
    note t = transaction_in_open [OF this assms(1)]
    have opened: "in_open (sdb_tables db) ?db" using assms(1) by (simp add: in_open_def idle_def begin_db_def committed_def)
    note plans = prepare_plans_Inr [OF Inr [unfolded prepare_flush_def] assms(3)]
    then have ok: "\<forall>p \<in> set plans. plan_ok w sc p" by (meson prepare_one_Inr)
    show ?thesis
    proof (cases "transaction (eachP execute_flush_plan plans) db")
      case (Pair r db')
      then show ?thesis
      proof (cases r)
        case (Inl e)
        with Pair t have "db' = db" by simp
        with Pair Inl Inr False show ?thesis by (simp add: flush_def bindP_def)
      next
        case (Inr us)
        with Pair t have db': "idle db'" "committed db' = sdb_tables db'"
          and run: "eachP execute_flush_plan plans ?db = (Inr us, ?db\<lparr>sdb_tables := sdb_tables db'\<rparr>)" by simp_all
        from execute_plans_effect [OF run opened _ ok] plans assms(2)
        have "plans_effect sc plans (sdb_tables db) (sdb_tables db')" by simp
        with db' Pair Inr \<open>prepare_flush fl w sc clock db = Inr plans\<close> False show ?thesis
          by (auto simp: flush_def bindP_def split: prod.splits)
      qed
    qed
  qed
qed

section \<open>Histories of a writer\<close>

text \<open>
  The calls of a writer, and the process ending: a new writer of the same configuration opens the file.
\<close>

datatype writer_call =
    Accept decision "scope option" datetime
  | Flush scope "nat \<Rightarrow> datetime"
  | Discard scope
  | Load scope
  | Restart

fun writer_step :: "float_arith \<Rightarrow> writer_call \<Rightarrow> slow_writer \<times> state_db \<Rightarrow> slow_writer \<times> state_db" where
  "writer_step fl (Accept d sc now) (w, db) = (snd (slow_accept d sc now w), db)"
| "writer_step fl (Flush sc clock) (w, db) = (case flush fl sc clock w db of
     (Inl e, db') \<Rightarrow> (w, db') | (Inr (states, w'), db') \<Rightarrow> (w', db'))"
| "writer_step fl (Discard sc) (w, db) = (discard_pending sc w, db)"
| "writer_step fl (Load sc) (w, db) = (snd (load_writer sc db w), db)"
| "writer_step fl Restart (w, db) =
     (w\<lparr>lw_windows := [], lw_pending := [], lw_seq_counter := 0\<rparr>, reopen_db db)"

definition writer_run :: "float_arith \<Rightarrow> writer_call list \<Rightarrow> slow_writer \<times> state_db \<Rightarrow> slow_writer \<times> state_db" where
  "writer_run fl calls wd = foldl (\<lambda>s c. writer_step fl c s) wd calls"

text \<open>An invariant of the pending records and of the tables, for every call.\<close>

definition writer_inv :: "int \<Rightarrow> (slow_record \<Rightarrow> bool) \<Rightarrow> (slow_row \<Rightarrow> bool) \<Rightarrow> (state_row \<Rightarrow> bool) \<Rightarrow> slow_writer \<times> state_db \<Rightarrow> bool" where
  "writer_inv n P Q R = (\<lambda>(w, db). lw_window_size w = n \<and> distinct (map fst (lw_pending w)) \<and>
     (\<forall>rs \<in> snd ` set (lw_pending w). list_all P rs) \<and>
     (\<forall>x \<in> snd ` set (lw_windows w). int (length (sn_contributions x)) \<le> n) \<and>
     idle db \<and> tables_ok (sdb_tables db) \<and>
     (\<forall>sc d. int (length (window_of sc d (sdb_tables db))) \<le> n) \<and>
     list_all Q (stt_window (sdb_tables db)) \<and> list_all R (stt_states (sdb_tables db)))"

lemma last_n_length: "0 \<le> n \<Longrightarrow> int (length (last_n n xs)) \<le> n"
  by (simp add: last_n_def)

lemma last_n_set: "set (last_n n xs) \<subseteq> set xs"
  by (simp add: last_n_def set_drop_subset)

lemma windows_cover: "list_all Q (stt_window t) \<longleftrightarrow> (\<forall>sc d. list_all Q (window_of sc d t))"
  by (auto simp: list_all_iff window_of_def in_window_def)

lemma update_values: "snd ` set (AList.update k v xs) \<subseteq> insert v (snd ` set xs)"
  by (induction xs) auto

lemma update_values_ball: "\<forall>x \<in> snd ` set xs. F x \<Longrightarrow> F v \<Longrightarrow> \<forall>x \<in> snd ` set (AList.update k v xs). F x"
  using update_values by fast

lemma delete_values: "snd ` set (AList.delete k xs) \<subseteq> snd ` set xs"
  by (induction xs) auto

lemma delete_values_ball: "\<forall>x \<in> snd ` set xs. F x \<Longrightarrow> \<forall>x \<in> snd ` set (AList.delete k xs). F x"
  using delete_values by fast

lemma apply_plan_parts:
  "lw_pending (apply_plan p w) = AList.delete (pl_scope p, pl_target_dimension p) (lw_pending w)"
  "lw_windows (apply_plan p w) = AList.update (pl_scope p, pl_target_dimension p)
     \<lparr>sn_scope = pl_scope p, sn_target_dimension = pl_target_dimension p, sn_contributions = pl_kept_records p,
      sn_last_state_version = Some (pl_new_version p), sn_last_state_value = Some (pl_a_t p),
      sn_last_state_state_id = Some (rs_state_id (pl_state p))\<rparr> (lw_windows w)"
  "lw_window_size (apply_plan p w) = lw_window_size w" "lw_runtime_id (apply_plan p w) = lw_runtime_id w"
  by (simp_all add: apply_plan_def)

lemma apply_plans_inv:
  assumes "distinct (map fst (lw_pending w))" and "\<forall>rs \<in> snd ` set (lw_pending w). F rs"
    and "\<forall>x \<in> snd ` set (lw_windows w). int (length (sn_contributions x)) \<le> n"
    and "\<forall>p \<in> set plans. int (length (pl_kept_records p)) \<le> n"
  shows "lw_window_size (foldl (\<lambda>w p. apply_plan p w) w plans) = lw_window_size w \<and>
    distinct (map fst (lw_pending (foldl (\<lambda>w p. apply_plan p w) w plans))) \<and>
    (\<forall>rs \<in> snd ` set (lw_pending (foldl (\<lambda>w p. apply_plan p w) w plans)). F rs) \<and>
    (\<forall>x \<in> snd ` set (lw_windows (foldl (\<lambda>w p. apply_plan p w) w plans)). int (length (sn_contributions x)) \<le> n)"
  using assms
proof (induction plans arbitrary: w)
  case (Cons p ps)
  have "distinct (map fst (lw_pending (apply_plan p w)))"
    using Cons.prems(1) by (simp add: apply_plan_parts distinct_delete)
  moreover have "\<forall>rs \<in> snd ` set (lw_pending (apply_plan p w)). F rs"
    unfolding apply_plan_parts by (rule delete_values_ball [OF Cons.prems(2)])
  moreover have "\<forall>x \<in> snd ` set (lw_windows (apply_plan p w)). int (length (sn_contributions x)) \<le> n"
    unfolding apply_plan_parts using Cons.prems(4) by (intro update_values_ball [OF Cons.prems(3)]) simp
  moreover have "\<forall>q \<in> set ps. int (length (pl_kept_records q)) \<le> n" using Cons.prems(4) by simp
  ultimately show ?case unfolding foldl.simps apply_plan_parts(3) [of p w, symmetric] by (rule Cons.IH)
qed simp

section \<open>Runs of a writer\<close>

definition trust_scope :: scope where
  "trust_scope = cd_scope sample_candidate"

definition trust_decision :: "rat \<Rightarrow> rat \<Rightarrow> decision" where
  "trust_decision v s = \<lparr>de_candidate = sample_candidate\<lparr>cd_proposed_value := v, cd_salience := Some s\<rparr>,
     de_prior_value = None, de_decision = SLOW_ACCEPT, de_reason_code = ''r'', de_decided_at = utc 0\<rparr>"

definition fresh_writer :: "int \<Rightarrow> slow_writer" where
  "fresh_writer n = \<lparr>lw_runtime_id = ''rt'', lw_window_size = n, lw_windows = [], lw_pending = [], lw_seq_counter = 0\<rparr>"

definition two_pending :: slow_writer where
  "two_pending = snd (slow_accept (trust_decision (1/2) 1) None (utc 10)
     (snd (slow_accept (trust_decision (1/4) 1) None (utc 5) (fresh_writer 2))))"

lemma two_pending_keys: "distinct (map fst (lw_pending two_pending))"
  by code_simp

theorem flush_exact_witness:
  "\<exists>s w' db'. flush exact_arith trust_scope (\<lambda>i. utc 20) two_pending new_state_db = (Inr ([s], w'), db') \<and>
    rs_value s = VFloat (3/8) \<and> idle db' \<and> committed db' = sdb_tables db'"
proof -
  let ?f = "flush exact_arith trust_scope (\<lambda>i. utc 20) two_pending new_state_db"
  have ok: "idle new_state_db" "tables_ok (sdb_tables new_state_db)"
    by (simp_all add: idle_def new_state_db_def tables_ok_def new_tables_def)
  have run: "case fst ?f of Inl e \<Rightarrow> False | Inr (ss, w') \<Rightarrow> map rs_value ss = [VFloat (3/8)]" by code_simp
  obtain r db' where f: "?f = (r, db')" by (cases ?f)
  with run obtain ss w' where r: "r = Inr (ss, w')" "map rs_value ss = [VFloat (3/8)]"
    by (auto split: sum.splits prod.splits)
  with f flush_exact [OF ok two_pending_keys, of exact_arith trust_scope "\<lambda>i. utc 20"]
  have "idle db' \<and> committed db' = sdb_tables db'" by simp
  with f r show ?thesis by (auto simp: map_eq_Cons_conv)
qed

end
