(* ===== verification/Slow_History.thy ===== *)
theory Slow_History
  imports Slow_Window
begin

text \<open>
  The slow writer over every history of accepted decisions, flushes, reloads and restarts: the window of
  every dimension stays within the configured size, and every value written stays within the range of the
  proposals it was made from.
\<close>

section \<open>One step\<close>

lemma idle_reopen: "idle db \<Longrightarrow> reopen_db db = db"
  by (cases db) (simp add: reopen_db_def idle_def committed_def)

lemma list_all2_source: "list_all2 P xs ys \<Longrightarrow> y \<in> set ys \<Longrightarrow> \<exists>x \<in> set xs. P x y"
  by (induction rule: list_all2_induct) auto

text \<open>What a flush stores passes the tests its plans pass.\<close>

definition plans_pass :: "(slow_row \<Rightarrow> bool) \<Rightarrow> (state_row \<Rightarrow> bool) \<Rightarrow> int \<Rightarrow> slow_plan list \<Rightarrow> bool" where
  "plans_pass Q R n plans \<longleftrightarrow> (\<forall>p \<in> set plans. pl_window_size p = n \<and> int (length (pl_kept_records p)) \<le> n \<and>
     (\<forall>r. state_to_row (pl_state p) = Inr r \<longrightarrow> R r) \<and> (\<forall>sc i. list_all Q (numbered_rows sc (pl_target_dimension p) i (pl_new_rows p))))"

lemma plans_effect_inv:
  assumes "plans_effect sc plans t u" and "plans_pass Q R n plans" and "0 \<le> n"
    and "\<forall>sc d. int (length (window_of sc d t)) \<le> n" and "list_all Q (stt_window t)" and "list_all R (stt_states t)"
  shows "(\<forall>sc d. int (length (window_of sc d u)) \<le> n) \<and> list_all Q (stt_window u) \<and> list_all R (stt_states u)"
proof -
  let ?sc = "scope_values sc"
  have win: "int (length (window_of sc' d u)) \<le> n \<and> list_all Q (window_of sc' d u)" for sc' d
  proof (cases "sc' = ?sc \<and> d \<in> pl_target_dimension ` set plans")
    case True
    then obtain p i where p: "p \<in> set plans" "d = pl_target_dimension p"
      and w: "window_of ?sc d u = last_n (pl_window_size p) (sort_key accepted_key
        (window_of ?sc d t @ numbered_rows ?sc d i (pl_new_rows p)))"
      using assms(1) unfolding plans_effect_def by blast
    from assms(2) p have n: "pl_window_size p = n" and q: "list_all Q (numbered_rows ?sc d i (pl_new_rows p))"
      by (simp_all add: plans_pass_def)
    have "list_all Q (window_of ?sc d t)" using assms(5) windows_cover by metis
    with q have "list_all Q (window_of ?sc d u)" unfolding w n using last_n_set
      by (fastforce simp: list_all_iff)
    with True last_n_length [OF assms(3)] show ?thesis by (simp add: w n)
  next
    case False
    with assms(1) have "window_of sc' d u = window_of sc' d t" unfolding plans_effect_def by blast
    with assms(4,5) windows_cover show ?thesis by metis
  qed
  from assms(1) obtain rows where rows: "stt_states u = stt_states t @ rows"
    "list_all2 (\<lambda>p r. state_to_row (pl_state p) = Inr r) plans rows" unfolding plans_effect_def by blast
  have "list_all R rows"
  proof (unfold list_all_iff, rule ballI)
    fix r assume "r \<in> set rows"
    from list_all2_source [OF rows(2) this] obtain p where "p \<in> set plans" "state_to_row (pl_state p) = Inr r" by blast
    with assms(2) show "R r" unfolding plans_pass_def by blast
  qed
  then have "list_all R (stt_states u)" using assms(6) unfolding rows(1) by (simp only: list_all_append)
  moreover have "list_all Q (stt_window u)" unfolding windows_cover using win by blast
  moreover have "\<forall>sc d. int (length (window_of sc d u)) \<le> n" using win by blast
  ultimately show ?thesis by blast
qed

section \<open>Every call\<close>

text \<open>
  Tests of pending records, ledger rows and canonical rows that fit together: a record that passes makes a
  row that passes, a row that passes is read as a record that passes, and the canonical record made of
  records that pass passes.
\<close>

definition tests_fit ::
  "float_arith \<Rightarrow> (slow_record \<Rightarrow> bool) \<Rightarrow> (slow_row \<Rightarrow> bool) \<Rightarrow> (state_row \<Rightarrow> bool) \<Rightarrow> bool" where
  "tests_fit fl P Q R \<longleftrightarrow> (\<forall>r sc d i k. P r \<longrightarrow> Q (new_slow_row sc d i (entry_of_record k r))) \<and>
     (\<forall>row e d. Q row \<longrightarrow> slow_entry_of_row row = Inr e \<longrightarrow> P (record_of_entry d e)) \<and>
     (\<forall>kept w sc d now v s row. kept \<noteq> [] \<longrightarrow> list_all P kept \<longrightarrow>
       slow_state w sc d (fl_div fl (fl_sum fl (map (\<lambda>r. fl_mul fl (sw_salience r) (sw_proposed_value r)) kept))
         (fl_sum fl (map sw_salience kept))) kept now v = Inr s \<longrightarrow> state_to_row s = Inr row \<longrightarrow> R row)"

lemma numbered_pass:
  "list_all P rs \<Longrightarrow> (\<And>r sc d i k. P r \<Longrightarrow> Q (new_slow_row sc d i (entry_of_record k r))) \<Longrightarrow>
    list_all Q (numbered_rows sc d i (map (\<lambda>(j, r). entry_of_record (base + int j) r) (enumerate m rs)))"
  by (induction rs arbitrary: i m) auto

lemma prepared_kept:
  assumes "load_slow_window sc d db = Inr rows" and "list_all Q (stt_window (sdb_tables db))" and "list_all P pending"
    and "\<And>row e d. Q row \<Longrightarrow> slow_entry_of_row row = Inr e \<Longrightarrow> P (record_of_entry d e)"
  shows "list_all P (last_n n (combined_window (map (record_of_entry d) rows) pending))"
proof -
  have "P (record_of_entry d e)" if "e \<in> set rows" for e
  proof -
    from mapR_source [OF assms(1) [unfolded load_slow_window_def] that] obtain row where
      "row \<in> set (stt_window (sdb_tables db))" "slow_entry_of_row row = Inr e" by auto
    moreover from this assms(2) have "Q row" by (simp add: list_all_iff)
    ultimately show ?thesis by (blast intro: assms(4))
  qed
  then have "list_all P (combined_window (map (record_of_entry d) rows) pending)"
    using assms(3) by (auto simp: combined_window_def list_all_iff)
  then show ?thesis using last_n_set [of n] by (fastforce simp: list_all_iff)
qed

lemma writer_invD:
  assumes "writer_inv n P Q R (w, db)"
  shows "lw_window_size w = n" "distinct (map fst (lw_pending w))" "\<forall>rs \<in> snd ` set (lw_pending w). list_all P rs"
    "\<forall>x \<in> snd ` set (lw_windows w). int (length (sn_contributions x)) \<le> n" "idle db" "tables_ok (sdb_tables db)"
    "\<forall>sc d. int (length (window_of sc d (sdb_tables db))) \<le> n" "list_all Q (stt_window (sdb_tables db))"
    "list_all R (stt_states (sdb_tables db))"
  using assms unfolding writer_inv_def prod.case by - ((elim conjE, assumption)+)

lemma writer_invI:
  "lw_window_size w = n \<Longrightarrow> distinct (map fst (lw_pending w)) \<Longrightarrow> \<forall>rs \<in> snd ` set (lw_pending w). list_all P rs \<Longrightarrow>
    \<forall>x \<in> snd ` set (lw_windows w). int (length (sn_contributions x)) \<le> n \<Longrightarrow> idle db \<Longrightarrow> tables_ok (sdb_tables db) \<Longrightarrow>
    \<forall>sc d. int (length (window_of sc d (sdb_tables db))) \<le> n \<Longrightarrow> list_all Q (stt_window (sdb_tables db)) \<Longrightarrow>
    list_all R (stt_states (sdb_tables db)) \<Longrightarrow> writer_inv n P Q R (w, db)"
  unfolding writer_inv_def prod.case by (intro conjI)

lemma prepared_plans_pass:
  assumes "tests_fit fl P Q R" and "prepare_flush fl w sc clock db = Inr plans" and "writer_inv n P Q R' (w, db)" and "1 \<le> n"
  shows "plans_pass Q R n plans"
  unfolding plans_pass_def
proof (rule ballI)
  fix p
  assume "p \<in> set plans"
  note inv = writer_invD [OF assms(3)]
  from prepare_plans_Inr [OF assms(2) [unfolded prepare_flush_def] inv(2)] \<open>p \<in> set plans\<close> obtain pending j where
    pending: "((sc, pl_target_dimension p), pending) \<in> set (lw_pending w)"
    and p: "prepare_one fl w db sc (pl_target_dimension p) pending (clock j) = Inr (Some p)" by blast
  from inv(3) pending have ok: "list_all P pending" by force
  from prepare_one_Inr [OF p] obtain rows where rows: "load_slow_window sc (pl_target_dimension p) db = Inr rows"
    and kept: "pl_kept_records p = last_n n (combined_window (map (record_of_entry (pl_target_dimension p)) rows) pending)"
      "pl_kept_records p \<noteq> []"
    and a: "pl_a_t p = fl_div fl (fl_sum fl (map (\<lambda>r. fl_mul fl (sw_salience r) (sw_proposed_value r)) (pl_kept_records p)))
      (fl_sum fl (map sw_salience (pl_kept_records p)))"
    and s: "slow_state w sc (pl_target_dimension p) (pl_a_t p) (pl_kept_records p) (clock j)
      (next_slow_version w sc (pl_target_dimension p)) = Inr (pl_state p)"
    and new: "pl_new_rows p = map (\<lambda>(i, r). entry_of_record (max_slow_window_sequence sc (pl_target_dimension p) db + 1 + int i) r)
      (enumerate 0 pending)"
    and size: "pl_window_size p = n" by (metis plan_ok_def inv(1))
  note fit = assms(1) [unfolded tests_fit_def]
  have "list_all P (pl_kept_records p)" unfolding kept(1) by (rule prepared_kept [OF rows inv(8) ok]) (use fit in blast)
  with fit kept(2) s a have "\<forall>r. state_to_row (pl_state p) = Inr r \<longrightarrow> R r" by metis
  moreover have "\<forall>sc' i. list_all Q (numbered_rows sc' (pl_target_dimension p) i (pl_new_rows p))"
    unfolding new by (intro allI numbered_pass [OF ok]) (use fit in blast)
  moreover have "int (length (pl_kept_records p)) \<le> n" unfolding kept(1) using assms(4) by (simp add: last_n_length)
  ultimately show "pl_window_size p = n \<and> int (length (pl_kept_records p)) \<le> n \<and>
      (\<forall>r. state_to_row (pl_state p) = Inr r \<longrightarrow> R r) \<and>
      (\<forall>sc i. list_all Q (numbered_rows sc (pl_target_dimension p) i (pl_new_rows p)))"
    using size by blast
qed

fun call_passes :: "(slow_record \<Rightarrow> bool) \<Rightarrow> writer_call \<Rightarrow> bool" where
  "call_passes P (Accept d sc now) = (\<forall>w r w'. slow_accept d sc now w = (Some r, w') \<longrightarrow> P r)"
| "call_passes P _ = True"

lemma slow_accept_cases:
  obtains (dropped) "slow_accept d sc now w = (None, w)"
  | (taken) r key rs n where
    "slow_accept d sc now w = (Some r, w\<lparr>lw_seq_counter := n, lw_pending := AList.update key (rs @ [r]) (lw_pending w)\<rparr>)"
    "rs = [] \<or> (key, rs) \<in> set (lw_pending w)"
proof (cases "snd (slow_accept d sc now w) = w \<and> fst (slow_accept d sc now w) = None")
  case True
  with dropped show thesis by (metis prod.collapse)
next
  case False
  then have "de_decision d = SLOW_ACCEPT" "\<exists>s. cd_salience (de_candidate d) = Some s \<and> 0 < s"
    by (auto simp: slow_accept_def not_le split: if_splits option.splits)
  with taken show thesis
    by (force simp: slow_accept_def Let_def dest: map_of_SomeD split: option.splits)
qed

definition window_inv :: "int \<Rightarrow> slow_writer \<Rightarrow> bool" where
  "window_inv n w \<longleftrightarrow> lw_window_size w = n \<and> lw_pending w = [] \<and>
     (\<forall>x \<in> snd ` set (lw_windows w). int (length (sn_contributions x)) \<le> n)"

lemma ingest_inv:
  assumes "0 \<le> n" and "window_inv n w"
  shows "window_inv n (ingest_persisted_rows sc d rows w)"
proof (cases "rows = []")
  case True
  with assms(2) show ?thesis by (simp add: ingest_persisted_rows_def)
next
  case False
  define x where "x = (let kept = last_n n (sort_key (\<lambda>e. (dt_instant (se_accepted_at e), se_id e)) rows) in
    \<lparr>sn_scope = sc, sn_target_dimension = d, sn_contributions = map (record_of_entry d) kept,
      sn_last_state_version = Some (int (length kept)), sn_last_state_value = None,
      sn_last_state_state_id = Some (d @ '':'' @ show_int (int (length kept)) @ '':slow-restored-'' @ show_int (se_id (last kept)))\<rparr>)"
  from assms(2) have size: "lw_window_size w = n" and pend: "lw_pending w = []"
    and wins: "\<forall>x \<in> snd ` set (lw_windows w). int (length (sn_contributions x)) \<le> n"
    unfolding window_inv_def by - ((elim conjE, assumption)+)
  have "ingest_persisted_rows sc d rows w = w\<lparr>lw_windows := AList.update (sc, d) x (lw_windows w)\<rparr>"
    using False by (simp add: ingest_persisted_rows_def x_def Let_def size)
  moreover have "int (length (sn_contributions x)) \<le> n" using assms(1) by (simp add: x_def Let_def last_n_length)
  from update_values_ball [OF wins this]
  have "\<forall>y \<in> snd ` set (AList.update (sc, d) x (lw_windows w)). int (length (sn_contributions y)) \<le> n" .
  ultimately show ?thesis unfolding window_inv_def using size pend by simp
qed

lemma load_inv:
  assumes "0 \<le> n" and "lw_window_size w = n"
  shows "window_inv n (snd (load_writer sc db w))"
proof -
  have "preserves (window_inv n) (bindP (liftP (list_slow_window_dimensions sc db)) (\<lambda>keys.
      bindP (eachP (\<lambda>(s, dimension). bindP (liftP (load_slow_window s dimension db)) (\<lambda>rows.
        writeP (ingest_persisted_rows s dimension rows))) keys) (\<lambda>_. returnP ())))"
    using assms(1) by (intro preserve_rules) (auto intro!: preserve_rules preserves_writeP ingest_inv split: prod.splits)
  from preservesD [OF this, of "w\<lparr>lw_windows := [], lw_pending := []\<rparr>"] assms(2)
  show ?thesis by (simp add: load_writer_def thenP_def bindP_def window_inv_def)
qed

lemma flush_step_inv:
  assumes "tests_fit fl P Q R" and "1 \<le> n" and "writer_inv n P Q R (w, db)"
  shows "writer_inv n P Q R (writer_step fl (Flush sc clock) (w, db))"
proof -
  note inv = writer_invD [OF assms(3)]
  note exact = flush_exact [OF inv(5,6,2), of fl sc clock]
  obtain r db' where f: "flush fl sc clock w db = (r, db')" by (cases "flush fl sc clock w db")
  show ?thesis
  proof (cases r)
    case (Inl e)
    with exact f assms(3) show ?thesis by simp
  next
    case (Inr out)
    obtain states w' where out: "out = (states, w')" by (cases out)
    from exact f Inr out obtain plans where db': "idle db'" and plans: "prepare_flush fl w sc clock db = Inr plans"
      and w': "(states, w') = (if plans = [] then ([], w) else apply_flush_plan plans w)"
      and eff: "plans_effect sc plans (sdb_tables db) (sdb_tables db')" by auto
    note pass = prepared_plans_pass [OF assms(1) plans assms(3,2)]
    from plans_effect_inv [OF eff pass _ inv(7-9)] assms(2)
    have tables: "\<forall>sc d. int (length (window_of sc d (sdb_tables db'))) \<le> n" "list_all Q (stt_window (sdb_tables db'))"
      "list_all R (stt_states (sdb_tables db'))" by simp_all
    have "tables_ok (sdb_tables db')" using eff by (simp add: plans_effect_def)
    have kept: "\<forall>p \<in> set plans. int (length (pl_kept_records p)) \<le> n" using pass unfolding plans_pass_def by blast
    have "w' = foldl (\<lambda>w p. apply_plan p w) w plans" using w' by (simp add: apply_flush_plan_def split: if_splits)
    with apply_plans_inv [OF inv(2-4) kept] inv(1) db' tables \<open>tables_ok (sdb_tables db')\<close>
    have "writer_inv n P Q R (w', db')" by (intro writer_invI) simp_all
    with f Inr out show ?thesis by simp
  qed
qed

lemma writer_step_inv:
  assumes "tests_fit fl P Q R" and "1 \<le> n" and "call_passes P c" and "writer_inv n P Q R (w, db)"
  shows "writer_inv n P Q R (writer_step fl c (w, db))"
proof (cases c)
  case (Accept d sc now)
  note inv = writer_invD [OF assms(4)]
  show ?thesis
  proof (cases rule: slow_accept_cases [of d sc now w])
    case dropped
    with Accept assms(4) show ?thesis by simp
  next
    case (taken r key rs m)
    with Accept assms(3) have "P r" by (metis call_passes.simps(1))
    moreover have "list_all P rs" using taken(2) inv(3) by force
    ultimately have "\<forall>qs \<in> snd ` set (AList.update key (rs @ [r]) (lw_pending w)). list_all P qs"
      by (intro update_values_ball [OF inv(3)]) simp
    with inv have "writer_inv n P Q R (w\<lparr>lw_seq_counter := m, lw_pending := AList.update key (rs @ [r]) (lw_pending w)\<rparr>, db)"
      by (intro writer_invI) (simp_all add: distinct_update)
    with Accept taken(1) show ?thesis by simp
  qed
next
  case (Flush sc clock)
  then show ?thesis by (simp only: flush_step_inv [OF assms(1,2,4)])
next
  case (Discard sc)
  note inv = writer_invD [OF assms(4)]
  have "\<forall>rs \<in> snd ` set (filter (\<lambda>((s, d), rs). s \<noteq> sc) (lw_pending w)). list_all P rs" using inv(3) by (meson filter_is_subset image_mono subsetD)
  with inv have "writer_inv n P Q R (discard_pending sc w, db)"
    by (intro writer_invI) (simp_all add: discard_pending_def distinct_map_filter)
  with Discard show ?thesis by simp
next
  case (Load sc)
  note inv = writer_invD [OF assms(4)]
  from load_inv [of n w sc db] assms(2) inv(1) have l: "window_inv n (snd (load_writer sc db w))" by simp
  then have "lw_window_size (snd (load_writer sc db w)) = n" "lw_pending (snd (load_writer sc db w)) = []"
    "\<forall>x \<in> snd ` set (lw_windows (snd (load_writer sc db w))). int (length (sn_contributions x)) \<le> n"
    unfolding window_inv_def by - ((elim conjE, assumption)+)
  with inv have "writer_inv n P Q R (snd (load_writer sc db w), db)" by (intro writer_invI) simp_all
  with Load show ?thesis by simp
next
  case Restart
  note inv = writer_invD [OF assms(4)]
  then have "writer_inv n P Q R (w\<lparr>lw_windows := [], lw_pending := [], lw_seq_counter := 0\<rparr>, db)" by (intro writer_invI) simp_all
  with Restart inv(5) show ?thesis by (simp add: idle_reopen)
qed

lemma writer_run_inv:
  assumes "tests_fit fl P Q R" and "new_slow_writer rt n = Inr w" and "list_all (call_passes P) calls"
  shows "writer_inv n P Q R (writer_run fl calls (w, new_state_db))"
proof -
  from assms(2) have n: "1 \<le> n" by (simp add: new_slow_writer_def split: if_splits)
  have step: "writer_inv n P Q R x \<Longrightarrow> list_all (call_passes P) cs \<Longrightarrow> writer_inv n P Q R (writer_run fl cs x)" for cs x
  proof (induction cs arbitrary: x)
    case (Cons c cs)
    from writer_step_inv [OF assms(1) n, of c "fst x" "snd x"] Cons show ?case by (simp add: writer_run_def)
  qed (simp add: writer_run_def)
  have "writer_inv n P Q R (w, new_state_db)"
    using assms(2) n by (intro writer_invI)
      (auto simp: new_slow_writer_def idle_def new_state_db_def new_tables_def tables_ok_def window_of_def split: if_splits)
  with step assms(3) show ?thesis by blast
qed

section \<open>The window is bounded\<close>

text \<open>
  C38. The windows stay bounded. Whatever decisions a writer of window size n accepts and whatever sequence of
  flushes, failed ones included, discards, reloads and restarts follows, no dimension of any scope ever has
  more than n rows in the committed ledger, nor any snapshot in memory more than n contributions; the
  connection is left idle and the keys of every table are unique.
\<close>

theorem slow_windows_bounded:
  assumes "new_slow_writer rt n = Inr w" and "writer_run fl calls (w, new_state_db) = (w', db)"
  shows "(\<forall>sc d. int (length (window_of sc d (committed db))) \<le> n) \<and>
    (\<forall>x \<in> snd ` set (lw_windows w'). int (length (sn_contributions x)) \<le> n) \<and> idle db \<and> tables_ok (committed db)"
proof -
  have "tests_fit fl (\<lambda>_. True) (\<lambda>_. True) (\<lambda>_. True)" by (simp add: tests_fit_def)
  moreover have "call_passes (\<lambda>_. True) c" for c by (cases c) simp_all
  then have "list_all (call_passes (\<lambda>_. True)) calls" by (simp add: list_all_iff)
  ultimately have "writer_inv n (\<lambda>_. True) (\<lambda>_. True) (\<lambda>_. True) (w', db)"
    using writer_run_inv [OF _ assms(1)] assms(2) by metis
  note inv = writer_invD [OF this]
  from inv(5) have "committed db = sdb_tables db" by (simp add: idle_def committed_def)
  with inv(4-7) show ?thesis by metis
qed

theorem slow_windows_bounded_witness:
  "int (length (window_of (scope_values trust_scope) ''agent.slow.trust'' (committed (snd (writer_run exact_arith
     [Accept (trust_decision 1 1) None (utc 1), Accept (trust_decision 1 1) None (utc 2), Flush trust_scope (\<lambda>i. utc 3), Restart]
     (fresh_writer 1, new_state_db)))))) \<le> 1"
proof -
  let ?run = "writer_run exact_arith [Accept (trust_decision 1 1) None (utc 1), Accept (trust_decision 1 1) None (utc 2),
      Flush trust_scope (\<lambda>i. utc 3), Restart] (fresh_writer 1, new_state_db)"
  have "new_slow_writer ''rt'' 1 = Inr (fresh_writer 1)" by (simp add: new_slow_writer_def fresh_writer_def)
  from slow_windows_bounded [OF this, of exact_arith _ "fst ?run" "snd ?run"] show ?thesis by simp
qed

section \<open>Values stay in the range of the proposals\<close>

lemma weighted_mean_range:
  fixes xs :: "(rat \<times> rat) list"
  assumes "xs \<noteq> []" and "\<forall>(s, p) \<in> set xs. 0 < s \<and> lo \<le> p \<and> p \<le> hi"
  shows "lo \<le> sum_list (map (\<lambda>(s, p). s * p) xs) / sum_list (map fst xs) \<and>
    sum_list (map (\<lambda>(s, p). s * p) xs) / sum_list (map fst xs) \<le> hi"
proof -
  have bounds: "lo * sum_list (map fst ys) \<le> sum_list (map (\<lambda>(s, p). s * p) ys) \<and>
      sum_list (map (\<lambda>(s, p). s * p) ys) \<le> hi * sum_list (map fst ys) \<and> (ys \<noteq> [] \<longrightarrow> 0 < sum_list (map fst ys))"
    if "\<forall>(s, p) \<in> set ys. 0 < s \<and> lo \<le> p \<and> p \<le> hi" for ys :: "(rat \<times> rat) list"
    using that
  proof (induction ys)
    case (Cons y ys)
    obtain s p where y: "y = (s, p)" by (cases y)
    with Cons.prems have s: "0 < s" "lo \<le> p" "p \<le> hi" by simp_all
    then have "lo * s \<le> s * p" "s * p \<le> hi * s" by (simp_all add: mult.commute)
    with Cons s show ?case by (cases ys) (simp_all add: y algebra_simps add_mono)
  qed simp
  from bounds [OF assms(2)] assms(1) show ?thesis by (simp add: pos_le_divide_eq pos_divide_le_eq)
qed

definition weighs :: "rat \<Rightarrow> rat \<Rightarrow> rat \<Rightarrow> rat \<Rightarrow> bool" where
  "weighs lo hi s p \<longleftrightarrow> 0 < s \<and> lo \<le> p \<and> p \<le> hi"

definition value_in_range :: "rat \<Rightarrow> rat \<Rightarrow> state_row \<Rightarrow> bool" where
  "value_in_range lo hi r \<longleftrightarrow> (\<exists>v. sr_value r = VFloat v \<and> lo \<le> v \<and> v \<le> hi)"

fun proposes_in_range :: "rat \<Rightarrow> rat \<Rightarrow> writer_call \<Rightarrow> bool" where
  "proposes_in_range lo hi (Accept d sc now) \<longleftrightarrow>
     lo \<le> cd_proposed_value (de_candidate d) \<and> cd_proposed_value (de_candidate d) \<le> hi"
| "proposes_in_range lo hi _ = True"

lemma range_tests_fit:
  "tests_fit exact_arith (\<lambda>r. weighs lo hi (sw_salience r) (sw_proposed_value r))
     (\<lambda>r. weighs lo hi (sl_salience r) (sl_proposed_value r)) (value_in_range lo hi)"
proof -
  have mean: "value_in_range lo hi row"
    if "kept \<noteq> []" "list_all (\<lambda>r. weighs lo hi (sw_salience r) (sw_proposed_value r)) kept"
      "slow_state w sc d (sum_list (map (\<lambda>r. sw_salience r * sw_proposed_value r) kept) / sum_list (map sw_salience kept)) kept now v = Inr s"
      "state_to_row s = Inr row" for kept w sc d now v s row
  proof -
    let ?xs = "map (\<lambda>r. (sw_salience r, sw_proposed_value r)) kept"
    have "\<forall>(s, p) \<in> set ?xs. 0 < s \<and> lo \<le> p \<and> p \<le> hi" using that(2) by (auto simp: list_all_iff weighs_def)
    from weighted_mean_range [OF _ this] that(1) slow_state_Inr [OF that(3)] that(4)
    show ?thesis by (auto simp: value_in_range_def state_to_row_def comp_def)
  qed
  then show ?thesis
    by (auto simp: tests_fit_def exact_arith_def new_slow_row_def entry_of_record_def record_of_entry_def
        slow_entry_of_row_def bindR_Inr_iff)
qed

lemma accept_in_range:
  assumes "proposes_in_range lo hi c"
  shows "call_passes (\<lambda>r. weighs lo hi (sw_salience r) (sw_proposed_value r)) c"
proof (cases c)
  case (Accept d sc now)
  with assms show ?thesis by (auto simp: slow_accept_def Let_def weighs_def split: if_splits option.splits)
qed simp_all

text \<open>
  C39. What is learned stays in the range of what was proposed. With exact arithmetic, if every decision given to
  the writer proposes a value between two bounds, then after every history every canonical record in the file
  holds a float between the same bounds: the mean cannot leave the range, and neither trimming, reloading nor
  restarting brings in anything else.
\<close>

theorem slow_values_in_range:
  assumes "new_slow_writer rt n = Inr w" and "list_all (proposes_in_range lo hi) calls"
    and "writer_run exact_arith calls (w, new_state_db) = (w', db)"
  shows "list_all (value_in_range lo hi) (stt_states (committed db))"
proof -
  have "list_all (call_passes (\<lambda>r. weighs lo hi (sw_salience r) (sw_proposed_value r))) calls"
    using assms(2) accept_in_range by (auto simp: list_all_iff)
  from writer_run_inv [OF range_tests_fit assms(1) this] assms(3) have
    "writer_inv n (\<lambda>r. weighs lo hi (sw_salience r) (sw_proposed_value r)) (\<lambda>r. weighs lo hi (sl_salience r) (sl_proposed_value r))
      (value_in_range lo hi) (w', db)" by simp
  note inv = writer_invD [OF this]
  from inv(5) have "committed db = sdb_tables db" by (simp add: idle_def committed_def)
  with inv(9) show ?thesis by simp
qed

lemma list_one: "length xs = 1 \<Longrightarrow> (\<And>x. xs = [x] \<Longrightarrow> thesis) \<Longrightarrow> thesis"
  by (cases xs) auto

theorem slow_values_in_range_witness:
  "\<exists>r v. stt_states (committed (snd (writer_run exact_arith [Accept (trust_decision (1/4) 1) None (utc 1),
      Accept (trust_decision (3/4) 1) None (utc 2), Flush trust_scope (\<lambda>i. utc 3)] (fresh_writer 2, new_state_db)))) = [r] \<and>
    sr_value r = VFloat v \<and> 1/4 \<le> v \<and> v \<le> 3/4"
proof -
  let ?calls = "[Accept (trust_decision (1/4) 1) None (utc 1), Accept (trust_decision (3/4) 1) None (utc 2), Flush trust_scope (\<lambda>i. utc 3)]"
  let ?run = "writer_run exact_arith ?calls (fresh_writer 2, new_state_db)"
  have new: "new_slow_writer ''rt'' 2 = Inr (fresh_writer 2)" by (simp add: new_slow_writer_def fresh_writer_def)
  have range: "list_all (proposes_in_range (1/4) (3/4)) ?calls" by (simp add: trust_decision_def)
  have one: "length (stt_states (committed (snd ?run))) = 1" by code_simp
  obtain r where r: "stt_states (committed (snd ?run)) = [r]"
    by (rule list_one [OF one])
  have "list_all (value_in_range (1/4) (3/4)) (stt_states (committed (snd ?run)))"
    by (rule slow_values_in_range [OF new range surjective_pairing])
  then have "value_in_range (1/4) (3/4) r" unfolding r by simp
  with r show ?thesis unfolding value_in_range_def by blast
qed

section \<open>Where memory and the file part\<close>

text \<open>
  A reloaded window takes its version from the number of ledger rows. After a restart the next record of a
  dimension therefore repeats an old version, and the record with the highest version, which the readers
  take for the current one, is an old one from then on.
\<close>

definition one_flush :: "rat \<Rightarrow> int \<Rightarrow> writer_call list" where
  "one_flush v t = [Accept (trust_decision v 1) None (utc t), Flush trust_scope (\<lambda>i. utc t)]"

lemma restart_repeats_versions:
  "map_sum id (map (\<lambda>s. (rs_version s, rs_value s))) (load_slow_states trust_scope ''agent.slow.trust'' (snd (writer_run exact_arith
     (one_flush 0 1 @ one_flush (1/2) 2 @ one_flush (1/4) 3 @ [Restart, Load trust_scope] @ one_flush 1 4) (fresh_writer 1, new_state_db)))) =
   Inr [(1, VFloat 0), (2, VFloat (1/2)), (2, VFloat 1), (3, VFloat (1/4))]"
  by code_simp

text \<open>
  Contributions accepted at one instant are ordered by the text of their ids in memory and by their row numbers
  in the ledger, so the mean may be taken over others than the ledger keeps.
\<close>

definition two_at_once :: "writer_call list" where
  "two_at_once = [Accept (trust_decision (1/4) 1) None (utc 7), Accept (trust_decision (3/4) 1) None (utc 7), Flush trust_scope (\<lambda>i. utc 8)]"

lemma ties_part_memory_and_ledger:
  "map_option (\<lambda>x. map sw_proposed_value (sn_contributions x)) (map_of (lw_windows (fst (writer_run exact_arith two_at_once
     (fresh_writer 1\<lparr>lw_seq_counter := 8\<rparr>, new_state_db)))) (trust_scope, ''agent.slow.trust'')) = Some [1/4]"
  "map_sum id (map se_proposed_value) (load_slow_window trust_scope ''agent.slow.trust'' (snd (writer_run exact_arith two_at_once
     (fresh_writer 1\<lparr>lw_seq_counter := 8\<rparr>, new_state_db)))) = Inr [3/4]"
  by code_simp+

end
