(* ===== verification/Turn_Checkpoint.thy ===== *)
theory Turn_Checkpoint
  imports Delivery_Contracts
begin

text \<open>
  The recoverable stage of a turn: \<^verbatim>\<open>TurnCheckpoint\<close> and \<^verbatim>\<open>ActionReceipt\<close> of
  \<^verbatim>\<open>contracts/checkpoint.py\<close>, the in-memory and the SQLite checkpoint store with the recovery decision
  of \<^verbatim>\<open>pipeline/checkpoints.py\<close>, and the receipt registry with the reconciled verdict of
  \<^verbatim>\<open>pipeline/receipts.py\<close>. Both stores satisfy one interface, the locale \<open>checkpoint_store\<close>.
\<close>

section \<open>Checkpoints\<close>

datatype turn_stage = Processing | Dispatching | Awaiting_Commit

fun turn_stage_value :: "turn_stage \<Rightarrow> string" where
  "turn_stage_value Processing = ''processing''"
| "turn_stage_value Dispatching = ''dispatching''"
| "turn_stage_value Awaiting_Commit = ''awaiting_commit''"

definition turn_stage_of :: "string \<Rightarrow> turn_stage result" where
  "turn_stage_of text = enum_of turn_stage_value [Processing, Dispatching, Awaiting_Commit] ''TurnStage'' text"

lemma turn_stage_of_value [simp]: "turn_stage_of (turn_stage_value s) = Inr s"
  by (cases s) (simp_all add: turn_stage_of_def enum_of_def)

record turn_checkpoint =
  cp_checkpoint_id :: string
  cp_interaction_id :: string
  cp_scope :: scope
  cp_origin_runtime_id :: string
  cp_stage :: turn_stage
  cp_base_state_version :: int
  cp_projection_ref :: string
  cp_action_id :: "string option"
  cp_delivery_status :: delivery_status
  cp_checkpointed_at :: datetime
  cp_sync :: sync_fields

definition checkpoint_checks :: "turn_checkpoint \<Rightarrow> (bool \<times> py_error) list" where
  "checkpoint_checks c =
     [require_non_empty (cp_checkpoint_id c) ''checkpoint_id'',
      require_non_empty (cp_interaction_id c) ''interaction_id'',
      require_non_empty (cp_origin_runtime_id c) ''origin_runtime_id'',
      require_non_empty (cp_projection_ref c) ''projection_ref'',
      (cp_base_state_version c < 1, ValueError ''base_state_version must be at least 1''),
      require_aware_utc (cp_checkpointed_at c) ''checkpointed_at''] @
     validate_sync_fields (cp_sync c) (cp_scope c) (cp_origin_runtime_id c) (cp_checkpoint_id c) None"

definition checkpoint_valid :: "turn_checkpoint \<Rightarrow> bool" where
  "checkpoint_valid c \<longleftrightarrow> scope_valid (cp_scope c) \<and> all_clear (checkpoint_checks c)"

definition mk_checkpoint :: "turn_checkpoint \<Rightarrow> turn_checkpoint result" where
  "mk_checkpoint c = guarded (checkpoint_checks c) c"

section \<open>The stores\<close>

text \<open>\<^verbatim>\<open>InMemoryCheckpointStore\<close> is a dict from interaction to checkpoint.\<close>

type_synonym checkpoint_dict = "(string \<times> turn_checkpoint) list"

definition memory_save :: "turn_checkpoint \<Rightarrow> (checkpoint_dict, unit) prog" where
  "memory_save c = writeP (AList.update (cp_interaction_id c) c)"

definition memory_load :: "string \<Rightarrow> checkpoint_dict \<Rightarrow> turn_checkpoint option result" where
  "memory_load interaction_id d = Inr (map_of d interaction_id)"

definition memory_remove :: "string \<Rightarrow> (checkpoint_dict, unit) prog" where
  "memory_remove interaction_id = writeP (AList.delete interaction_id)"

definition memory_all :: "checkpoint_dict \<Rightarrow> turn_checkpoint list" where
  "memory_all d = map snd d"

text \<open>\<^verbatim>\<open>SqliteCheckpointStore\<close>: one table, the checkpoint id its primary key, the interaction unique.\<close>

record checkpoint_row =
  cr_checkpoint_id :: string
  cr_interaction_id :: string
  cr_scope :: scope_columns
  cr_origin_runtime_id :: string
  cr_stage :: string
  cr_base_state_version :: int
  cr_projection_ref :: string
  cr_action_id :: "string option"
  cr_delivery_status :: string
  cr_checkpointed_at :: datetime
  cr_sync_version :: int
  cr_sync_idem_key :: string

definition checkpoint_to_row :: "turn_checkpoint \<Rightarrow> checkpoint_row" where
  "checkpoint_to_row c =
     \<lparr>cr_checkpoint_id = cp_checkpoint_id c, cr_interaction_id = cp_interaction_id c,
      cr_scope = scope_values (cp_scope c), cr_origin_runtime_id = cp_origin_runtime_id c,
      cr_stage = turn_stage_value (cp_stage c), cr_base_state_version = cp_base_state_version c,
      cr_projection_ref = cp_projection_ref c, cr_action_id = cp_action_id c,
      cr_delivery_status = delivery_status_value (cp_delivery_status c),
      cr_checkpointed_at = cp_checkpointed_at c, cr_sync_version = sf_version (cp_sync c),
      cr_sync_idem_key = sf_idempotency_key (cp_sync c)\<rparr>"

definition checkpoint_from_row :: "checkpoint_row \<Rightarrow> turn_checkpoint result" where
  "checkpoint_from_row r =
     bindR (scope_from_columns (cr_scope r)) (\<lambda>sc.
     bindR (turn_stage_of (cr_stage r)) (\<lambda>stage.
     bindR (delivery_status_of (cr_delivery_status r)) (\<lambda>status.
     mk_checkpoint
       \<lparr>cp_checkpoint_id = cr_checkpoint_id r, cp_interaction_id = cr_interaction_id r, cp_scope = sc,
        cp_origin_runtime_id = cr_origin_runtime_id r, cp_stage = stage,
        cp_base_state_version = cr_base_state_version r, cp_projection_ref = cr_projection_ref r,
        cp_action_id = cr_action_id r, cp_delivery_status = status,
        cp_checkpointed_at = cr_checkpointed_at r,
        cp_sync = mk_sync sc (cr_origin_runtime_id r) (cr_checkpoint_id r) (cr_sync_version r) (cr_sync_idem_key r)\<rparr>)))"

text \<open>
  \<^verbatim>\<open>INSERT OR REPLACE\<close> deletes every row that shares a unique key with the new one. A Python int that does
  not fit 64 bits cannot be bound.
\<close>

definition replace_checkpoint :: "checkpoint_row \<Rightarrow> checkpoint_row list \<Rightarrow> checkpoint_row list" where
  "replace_checkpoint r rows = filter (\<lambda>q. cr_checkpoint_id q \<noteq> cr_checkpoint_id r \<and>
     cr_interaction_id q \<noteq> cr_interaction_id r) rows @ [r]"

definition sqlite_save :: "turn_checkpoint \<Rightarrow> (checkpoint_row list, unit) prog" where
  "sqlite_save c = (if int64 (cp_base_state_version c) \<and> int64 (sf_version (cp_sync c))
     then writeP (replace_checkpoint (checkpoint_to_row c))
     else raiseP (OverflowError ''Python int too large to convert to SQLite INTEGER''))"

definition sqlite_load :: "string \<Rightarrow> checkpoint_row list \<Rightarrow> turn_checkpoint option result" where
  "sqlite_load interaction_id rows = (case find (\<lambda>r. cr_interaction_id r = interaction_id) rows of
     None \<Rightarrow> Inr None
   | Some r \<Rightarrow> bindR (checkpoint_from_row r) (\<lambda>c. Inr (Some c)))"

definition sqlite_remove :: "string \<Rightarrow> (checkpoint_row list, unit) prog" where
  "sqlite_remove interaction_id = writeP (filter (\<lambda>r. cr_interaction_id r \<noteq> interaction_id))"

section \<open>Recovery\<close>

record recovery =
  rd_interaction_id :: string
  rd_stage :: "turn_stage option"
  rd_delivery_status :: "delivery_status option"
  rd_action :: string

definition recovery_of :: "turn_checkpoint \<Rightarrow> string \<Rightarrow> recovery" where
  "recovery_of c action = \<lparr>rd_interaction_id = cp_interaction_id c, rd_stage = Some (cp_stage c),
     rd_delivery_status = Some (cp_delivery_status c), rd_action = action\<rparr>"

definition recovery_decision :: "turn_checkpoint option \<Rightarrow> recovery" where
  "recovery_decision checkpoint = (case checkpoint of
     None \<Rightarrow> \<lparr>rd_interaction_id = '''', rd_stage = None, rd_delivery_status = None, rd_action = ''no_checkpoint''\<rparr>
   | Some c \<Rightarrow>
       if cp_stage c = Awaiting_Commit then recovery_of c ''not_committed''
       else if cp_stage c = Dispatching then
         (if cp_delivery_status c = SENT then recovery_of c ''reconcile_complete''
          else if cp_delivery_status c = STATUS_UNKNOWN then recovery_of c ''delivery_unknown''
          else recovery_of c ''safe_abort'')
       else recovery_of c ''processing_incomplete'')"

section \<open>Action receipts\<close>

record action_receipt =
  ac_receipt_id :: string
  ac_scope :: scope
  ac_origin_runtime_id :: string
  ac_action_intent_id :: string
  ac_delivery_status :: delivery_status
  ac_outcome :: "string option"
  ac_received_at :: datetime
  ac_sync :: sync_fields

definition action_receipt_checks :: "action_receipt \<Rightarrow> (bool \<times> py_error) list" where
  "action_receipt_checks r =
     [require_non_empty (ac_receipt_id r) ''receipt_id'',
      require_non_empty (ac_origin_runtime_id r) ''origin_runtime_id'',
      require_non_empty (ac_action_intent_id r) ''action_intent_id''] @
     (case ac_outcome r of None \<Rightarrow> [] | Some text \<Rightarrow> [require_non_empty text ''outcome'']) @
     [require_aware_utc (ac_received_at r) ''received_at''] @
     validate_sync_fields (ac_sync r) (ac_scope r) (ac_origin_runtime_id r) (ac_receipt_id r) None"

definition mk_action_receipt :: "action_receipt \<Rightarrow> action_receipt result" where
  "mk_action_receipt r = guarded (action_receipt_checks r) r"

record receipt_outcome =
  ro_action_intent_id :: string
  ro_delivery_status :: delivery_status
  ro_reconciled :: bool
  ro_reason :: string

definition reconcile_delivery :: "delivery_status list \<Rightarrow> delivery_status \<times> bool \<times> string" where
  "reconcile_delivery statuses =
     (if statuses = [] then (UNSENT, False, ''no_receipts'')
      else if STATUS_UNKNOWN \<in> set statuses then (STATUS_UNKNOWN, False, ''delivery_unknown'')
      else if set statuses = {SENT} then (SENT, True, ''delivered'')
      else (UNSENT, False, ''not_sent''))"

definition reconcile_receipts :: "action_receipt list \<Rightarrow> receipt_outcome" where
  "reconcile_receipts receipts = (case reconcile_delivery (map ac_delivery_status receipts) of (status, reconciled, reason) \<Rightarrow>
     \<lparr>ro_action_intent_id = (case receipts of [] \<Rightarrow> '''' | r # _ \<Rightarrow> ac_action_intent_id r),
      ro_delivery_status = status, ro_reconciled = reconciled, ro_reason = reason\<rparr>)"

type_synonym receipt_registry = "(string \<times> action_receipt) list"

definition registry_record :: "action_receipt \<Rightarrow> receipt_registry \<Rightarrow> receipt_registry" where
  "registry_record r = AList.update (ac_receipt_id r) r"

definition receipts_for :: "string \<Rightarrow> receipt_registry \<Rightarrow> action_receipt list" where
  "receipts_for action_intent_id d = filter (\<lambda>r. ac_action_intent_id r = action_intent_id) (map snd d)"

definition registry_reconcile :: "string \<Rightarrow> receipt_registry \<Rightarrow> receipt_outcome" where
  "registry_reconcile action_intent_id d = reconcile_receipts (receipts_for action_intent_id d)"

section \<open>One interface for both stores\<close>

datatype checkpoint_op = Save_Checkpoint turn_checkpoint | Remove_Checkpoint string | Recover string

text \<open>The answers of a store to a sequence of calls; \<^verbatim>\<open>recover\<close> loads and decides.\<close>

definition recover :: "(string \<Rightarrow> 's \<Rightarrow> turn_checkpoint option result) \<Rightarrow> string \<Rightarrow> 's \<Rightarrow> recovery result" where
  "recover load interaction_id s = bindR (load interaction_id s) (\<lambda>c. Inr (recovery_decision c))"

fun checkpoint_run ::
  "(turn_checkpoint \<Rightarrow> ('s, unit) prog) \<Rightarrow> (string \<Rightarrow> 's \<Rightarrow> turn_checkpoint option result) \<Rightarrow> (string \<Rightarrow> ('s, unit) prog) \<Rightarrow>
   checkpoint_op list \<Rightarrow> 's \<Rightarrow> recovery option result list" where
  "checkpoint_run save load remove [] s = []"
| "checkpoint_run save load remove (Save_Checkpoint c # ops) s =
     map_sum id (\<lambda>_. None) (fst (save c s)) # checkpoint_run save load remove ops (snd (save c s))"
| "checkpoint_run save load remove (Remove_Checkpoint i # ops) s =
     map_sum id (\<lambda>_. None) (fst (remove i s)) # checkpoint_run save load remove ops (snd (remove i s))"
| "checkpoint_run save load remove (Recover i # ops) s =
     map_sum id Some (recover load i s) # checkpoint_run save load remove ops s"

text \<open>What the calls promise: at every moment the last checkpoint saved and not removed decides.\<close>

fun checkpoint_spec :: "checkpoint_op list \<Rightarrow> (string \<Rightarrow> turn_checkpoint option) \<Rightarrow> recovery option result list" where
  "checkpoint_spec [] m = []"
| "checkpoint_spec (Save_Checkpoint c # ops) m = Inr None # checkpoint_spec ops (m(cp_interaction_id c \<mapsto> c))"
| "checkpoint_spec (Remove_Checkpoint i # ops) m = Inr None # checkpoint_spec ops (m(i := None))"
| "checkpoint_spec (Recover i # ops) m = Inr (Some (recovery_decision (m i))) # checkpoint_spec ops m"

fun saves_only :: "(turn_checkpoint \<Rightarrow> bool) \<Rightarrow> checkpoint_op \<Rightarrow> bool" where
  "saves_only ok (Save_Checkpoint c) = ok c"
| "saves_only ok _ = True"

lemma saves_only_True [simp]: "saves_only (\<lambda>_. True) op"
  by (cases op) simp_all

locale checkpoint_store =
  fixes save :: "turn_checkpoint \<Rightarrow> ('s, unit) prog"
    and load :: "string \<Rightarrow> 's \<Rightarrow> turn_checkpoint option result"
    and remove :: "string \<Rightarrow> ('s, unit) prog"
    and inv :: "'s \<Rightarrow> bool"
    and ok :: "turn_checkpoint \<Rightarrow> bool"
  assumes save_ok: "inv s \<Longrightarrow> ok c \<Longrightarrow> fst (save c s) = Inr () \<and> inv (snd (save c s))"
    and load_save: "inv s \<Longrightarrow> ok c \<Longrightarrow>
      load i (snd (save c s)) = (if i = cp_interaction_id c then Inr (Some c) else load i s)"
    and remove_ok: "inv s \<Longrightarrow> fst (remove i s) = Inr () \<and> inv (snd (remove i s))"
    and load_remove: "inv s \<Longrightarrow> load j (snd (remove i s)) = (if j = i then Inr None else load j s)"
begin

lemma run_spec:
  "inv s \<Longrightarrow> (\<And>i. load i s = Inr (m i)) \<Longrightarrow> list_all (saves_only ok) ops \<Longrightarrow>
    checkpoint_run save load remove ops s = checkpoint_spec ops m"
proof (induction ops arbitrary: s m)
  case (Cons op ops)
  show ?case
  proof (cases op)
    case (Save_Checkpoint c)
    with Cons.prems save_ok [of s c] load_save [of s c]
      Cons.IH [of "snd (save c s)" "m(cp_interaction_id c \<mapsto> c)"] show ?thesis by (simp add: fun_upd_def)
  next
    case (Remove_Checkpoint i)
    with Cons.prems remove_ok [of s i] load_remove [of s _ i]
      Cons.IH [of "snd (remove i s)" "m(i := None)"] show ?thesis by (simp add: fun_upd_def)
  qed (use Cons in \<open>simp add: recover_def\<close>)
qed simp

end

interpretation cm: checkpoint_store memory_save memory_load memory_remove "\<lambda>_. True" "\<lambda>_. True"
  by unfold_locales (simp_all add: memory_save_def memory_load_def memory_remove_def writeP_def)

section \<open>The SQLite store\<close>

text \<open>
  The checkpoints the orchestrator writes are named after their interaction; then the table holds one row
  for each.
\<close>

definition checkpoint_id_of :: "string \<Rightarrow> string" where
  "checkpoint_id_of interaction_id = ''checkpoint-'' @ interaction_id"

definition named_after_interaction :: "turn_checkpoint \<Rightarrow> bool" where
  "named_after_interaction c \<longleftrightarrow> checkpoint_valid c \<and> cp_checkpoint_id c = checkpoint_id_of (cp_interaction_id c) \<and>
     int64 (cp_base_state_version c) \<and> int64 (sf_version (cp_sync c))"

definition rows_named :: "checkpoint_row list \<Rightarrow> bool" where
  "rows_named rows \<longleftrightarrow> (\<forall>r \<in> set rows. cr_checkpoint_id r = checkpoint_id_of (cr_interaction_id r))"

lemma checkpoint_round_trip: "checkpoint_valid c \<Longrightarrow> checkpoint_from_row (checkpoint_to_row c) = Inr c"
  by (cases c) (auto simp: checkpoint_valid_def checkpoint_from_row_def checkpoint_to_row_def mk_checkpoint_def
      checkpoint_checks_def scope_round_trip guarded_Inr_iff mk_sync_def)

lemma find_filter_other: "(\<And>x. P x \<Longrightarrow> Q x) \<Longrightarrow> find P (filter Q xs) = find P xs"
  by (induction xs) auto

lemma find_filter_none: "(\<And>x. Q x \<Longrightarrow> \<not> P x) \<Longrightarrow> find P (filter Q xs) = None"
  by (auto simp: find_None_iff)

lemma named_row:
  "named_after_interaction c \<Longrightarrow> cr_checkpoint_id (checkpoint_to_row c) = checkpoint_id_of (cp_interaction_id c) \<and>
    cr_interaction_id (checkpoint_to_row c) = cp_interaction_id c \<and> checkpoint_from_row (checkpoint_to_row c) = Inr c"
  using checkpoint_round_trip [of c] by (simp add: named_after_interaction_def checkpoint_to_row_def)

lemma replace_named:
  assumes "named_after_interaction c" and "rows_named rows"
  shows "replace_checkpoint (checkpoint_to_row c) rows =
    filter (\<lambda>r. cr_interaction_id r \<noteq> cp_interaction_id c) rows @ [checkpoint_to_row c]"
  using assms(2) named_row [OF assms(1)]
  by (auto simp: replace_checkpoint_def rows_named_def checkpoint_id_of_def intro!: filter_cong)

interpretation cq: checkpoint_store sqlite_save sqlite_load sqlite_remove rows_named named_after_interaction
proof unfold_locales
  fix s c i j
  assume inv: "rows_named s"
  show "fst (sqlite_remove i s) = Inr () \<and> rows_named (snd (sqlite_remove i s))"
    using inv by (simp add: sqlite_remove_def writeP_def rows_named_def)
  show "sqlite_load j (snd (sqlite_remove i s)) = (if j = i then Inr None else sqlite_load j s)"
    by (auto simp: sqlite_remove_def writeP_def sqlite_load_def find_filter_other find_filter_none)
  assume ok: "named_after_interaction c"
  note row = named_row [OF ok] and saved = replace_named [OF ok inv]
  have fits: "int64 (cp_base_state_version c) \<and> int64 (sf_version (cp_sync c))"
    using ok by (simp add: named_after_interaction_def)
  show "fst (sqlite_save c s) = Inr () \<and> rows_named (snd (sqlite_save c s))"
    using inv row fits saved by (simp add: sqlite_save_def writeP_def rows_named_def)
  show "sqlite_load i (snd (sqlite_save c s)) = (if i = cp_interaction_id c then Inr (Some c) else sqlite_load i s)"
    using row fits saved
    by (auto simp: sqlite_save_def writeP_def sqlite_load_def find_append find_filter_other find_filter_none split: option.splits)
qed

text \<open>
  C12. Both checkpoint stores keep their promise. For every sequence of saves, removals and recoveries of
  checkpoints named after their interaction, the in-memory store and the SQLite store give the same answers
  to every call, and each recovery is decided by the last checkpoint of the interaction that was saved and
  not removed since; no call fails.
\<close>

theorem checkpoint_stores_agree:
  assumes "list_all (saves_only named_after_interaction) ops"
  shows "checkpoint_run memory_save memory_load memory_remove ops [] = checkpoint_spec ops Map.empty \<and>
    checkpoint_run sqlite_save sqlite_load sqlite_remove ops [] = checkpoint_spec ops Map.empty"
proof
  have "list_all (saves_only (\<lambda>_. True)) ops" 
    unfolding list_all_iff by (intro ballI) (rule saves_only_True)
  then show "checkpoint_run memory_save memory_load memory_remove ops [] = checkpoint_spec ops Map.empty"
    by (intro cm.run_spec) (simp_all add: memory_load_def)
  show "checkpoint_run sqlite_save sqlite_load sqlite_remove ops [] = checkpoint_spec ops Map.empty"
    by (intro cq.run_spec assms) (simp_all add: sqlite_load_def rows_named_def)
qed

definition sample_checkpoint :: "string \<Rightarrow> turn_stage \<Rightarrow> delivery_status \<Rightarrow> turn_checkpoint" where
  "sample_checkpoint i stage status =
     \<lparr>cp_checkpoint_id = checkpoint_id_of i, cp_interaction_id = i, cp_scope = user_scope ''u1'',
      cp_origin_runtime_id = ''rt'', cp_stage = stage, cp_base_state_version = 1, cp_projection_ref = ''projection'',
      cp_action_id = None, cp_delivery_status = status, cp_checkpointed_at = utc 5,
      cp_sync = mk_sync (user_scope ''u1'') ''rt'' (checkpoint_id_of i) 1 ''idem''\<rparr>"

lemma sample_scope: "strip ''u1'' \<noteq> []"
  by code_simp

lemma sample_checkpoint_named: "i \<noteq> [] \<Longrightarrow> \<not> is_space (hd i) \<Longrightarrow> named_after_interaction (sample_checkpoint i stage status)"
  by (cases i) (simp_all add: named_after_interaction_def sample_checkpoint_def checkpoint_valid_def checkpoint_checks_def
      checkpoint_id_of_def int64_def mk_sync_def non_empty_eval sample_scope)

theorem checkpoint_stores_agree_witness:
  "checkpoint_run sqlite_save sqlite_load sqlite_remove
     [Save_Checkpoint (sample_checkpoint ''i1'' Dispatching SENT), Save_Checkpoint (sample_checkpoint ''i1'' Awaiting_Commit SENT),
      Recover ''i1'', Remove_Checkpoint ''i1'', Recover ''i1''] [] =
   [Inr None, Inr None, Inr (Some (recovery_of (sample_checkpoint ''i1'' Awaiting_Commit SENT) ''not_committed'')), Inr None,
    Inr (Some (recovery_decision None))]"
  using checkpoint_stores_agree [of "[Save_Checkpoint (sample_checkpoint ''i1'' Dispatching SENT),
     Save_Checkpoint (sample_checkpoint ''i1'' Awaiting_Commit SENT), Recover ''i1'', Remove_Checkpoint ''i1'', Recover ''i1'']"]
  by (simp add: sample_checkpoint_named is_space_def) (simp add: sample_checkpoint_def recovery_decision_def)

text \<open>
  With other names the stores part: a second interaction under the same checkpoint id removes the first one
  from the table, not from the dict.
\<close>

lemma shared_checkpoint_id_parts_the_stores:
  "memory_load ''i1'' (snd (memory_save ((sample_checkpoint ''i1'' Dispatching SENT)\<lparr>cp_interaction_id := ''i2''\<rparr>)
     (snd (memory_save (sample_checkpoint ''i1'' Dispatching SENT) [])))) = Inr (Some (sample_checkpoint ''i1'' Dispatching SENT))"
  "sqlite_load ''i1'' (snd (sqlite_save ((sample_checkpoint ''i1'' Dispatching SENT)\<lparr>cp_interaction_id := ''i2''\<rparr>)
     (snd (sqlite_save (sample_checkpoint ''i1'' Dispatching SENT) [])))) = Inr None"
  by code_simp+

section \<open>Verdicts of receipts\<close>

text \<open>A verdict does not depend on the order or the number of equal receipts, and is delivered only if all are.\<close>

lemma reconcile_delivery_set: "set xs = set ys \<Longrightarrow> reconcile_delivery xs = reconcile_delivery ys"
  by (auto simp: reconcile_delivery_def)

lemma reconciled_iff: "fst (snd (reconcile_delivery xs)) \<longleftrightarrow> xs \<noteq> [] \<and> (\<forall>x \<in> set xs. x = SENT)"
  by (cases xs) (auto simp: reconcile_delivery_def)

end
