(* ===== verification/Turn_Projection.thy ===== *)
theory Turn_Projection
  imports State_Ingest
begin

text \<open>
  The uncommitted projection of a turn (\<^verbatim>\<open>contracts/projection.py\<close>): the projected mind state and the turn
  projection with the checks of their constructors.
\<close>

record projected_mind_state =
  pm_projection_id :: string
  pm_scope :: scope
  pm_origin_runtime_id :: string
  pm_projected_states :: "runtime_state list"
  pm_sync :: sync_fields
  pm_committed :: bool

text \<open>The loop over the projected states: every scope is compared before the next dimension is looked at.\<close>

fun projected_state_checks :: "scope \<Rightarrow> string list \<Rightarrow> runtime_state list \<Rightarrow> (bool \<times> py_error) list" where
  "projected_state_checks sc seen [] = []"
| "projected_state_checks sc seen (s # ss) =
     [(rs_scope s \<noteq> sc, ValueError ''projected state scope must match projection scope''),
      (rs_dimension s \<in> set seen, ValueError ''projected state dimensions must be unique'')] @
     projected_state_checks sc (rs_dimension s # seen) ss"

definition projected_checks :: "projected_mind_state \<Rightarrow> (bool \<times> py_error) list" where
  "projected_checks p =
     [require_non_empty (pm_projection_id p) ''projection_id'',
      require_non_empty (pm_origin_runtime_id p) ''origin_runtime_id'',
      (pm_projected_states p = [], ValueError ''projected_states must be non-empty'')] @
     projected_state_checks (pm_scope p) [] (pm_projected_states p) @
     validate_sync_fields (pm_sync p) (pm_scope p) (pm_origin_runtime_id p) (pm_projection_id p) None"

definition mk_projected :: "projected_mind_state \<Rightarrow> projected_mind_state result" where
  "mk_projected p = guarded (projected_checks p) p"

record turn_projection =
  tp_projection_id :: string
  tp_interaction_id :: string
  tp_scope :: scope
  tp_origin_runtime_id :: string
  tp_effective_state_before :: runtime_state
  tp_observations :: "observation list"
  tp_situation :: "string option"
  tp_assessment_trace_ref :: "string option"
  tp_intent_refs :: "string list"
  tp_policy_result_ref :: "string option"
  tp_transition_intents :: "transition_intent list"
  tp_projected_mind_state :: projected_mind_state
  tp_created_at :: datetime
  tp_sync :: sync_fields

definition turn_projection_checks :: "turn_projection \<Rightarrow> (bool \<times> py_error) list" where
  "turn_projection_checks p =
     [require_non_empty (tp_projection_id p) ''projection_id'',
      require_non_empty (tp_interaction_id p) ''interaction_id'',
      require_non_empty (tp_origin_runtime_id p) ''origin_runtime_id'',
      require_aware_utc (tp_created_at p) ''created_at'',
      (rs_scope (tp_effective_state_before p) \<noteq> tp_scope p, ValueError ''effective_state_before.scope must match scope''),
      (pm_scope (tp_projected_mind_state p) \<noteq> tp_scope p \<and> sc_domain (pm_scope (tp_projected_mind_state p)) \<noteq> AGENT,
       ValueError ''projected_mind_state.scope must match scope or be an agent/persona scope''),
      (list_ex (\<lambda>ob. ob_scope ob \<noteq> tp_scope p) (tp_observations p), ValueError ''observation scope must match scope''),
      (list_ex (\<lambda>i. ti_scope i \<noteq> tp_scope p \<and> ti_scope i \<noteq> pm_scope (tp_projected_mind_state p)) (tp_transition_intents p),
       ValueError ''transition intent scope must match turn or projected mind state scope'')] @
     (case tp_assessment_trace_ref p of None \<Rightarrow> [] | Some r \<Rightarrow> [require_non_empty r ''assessment_trace_ref'']) @
     map (\<lambda>r. require_non_empty r ''intent_refs entries'') (tp_intent_refs p) @
     (case tp_policy_result_ref p of None \<Rightarrow> [] | Some r \<Rightarrow> [require_non_empty r ''policy_result_ref'']) @
     validate_sync_fields (tp_sync p) (tp_scope p) (tp_origin_runtime_id p) (tp_projection_id p) None"

definition mk_turn_projection :: "turn_projection \<Rightarrow> turn_projection result" where
  "mk_turn_projection p = guarded (turn_projection_checks p) p"

lemma projected_state_checks_clear:
  "all_clear (projected_state_checks sc seen ss) \<longleftrightarrow> (\<forall>s \<in> set ss. rs_scope s = sc) \<and>
     distinct (map rs_dimension ss) \<and> set (map rs_dimension ss) \<inter> set seen = {}"
  by (induction ss arbitrary: seen) auto

text \<open>The states of a projection are of one scope, one for each dimension.\<close>

lemma mk_projected_Inr:
  "mk_projected p = Inr q \<Longrightarrow> q = p \<and> pm_projected_states p \<noteq> [] \<and> distinct (map rs_dimension (pm_projected_states p)) \<and>
    (\<forall>s \<in> set (pm_projected_states p). rs_scope s = pm_scope p)"
  by (auto simp: mk_projected_def guarded_Inr_iff projected_checks_def projected_state_checks_clear)

end
