(* ===== verification/Application_Receipts.thy ===== *)
theory Application_Receipts
  imports State_Plane
begin

text \<open>
  Receipts of applied appraisals: \<^verbatim>\<open>ApplicationReceipt\<close> of \<^verbatim>\<open>contracts/late_projection.py\<close> and its
  table in the state store (\<^verbatim>\<open>state/persistence.py\<close>), which is written only inside the transaction of
  a turn: staged as pending before the states are stored, committed with them. SHA-256 of the canonical JSON
  text of a value is the parameter \<open>digest\<close>. The table exists (\<^verbatim>\<open>enable_application_receipts\<close>).
\<close>

section \<open>Receipts\<close>

datatype application_status = APP_EVALUATED | APP_PENDING | APP_COMMITTED | APP_ABORTED

fun application_status_value :: "application_status \<Rightarrow> string" where
  "application_status_value APP_EVALUATED = ''EVALUATED''"
| "application_status_value APP_PENDING = ''APPLICATION_PENDING''"
| "application_status_value APP_COMMITTED = ''COMMITTED''"
| "application_status_value APP_ABORTED = ''ABORTED''"

definition application_status_of :: "string \<Rightarrow> application_status result" where
  "application_status_of text =
     enum_of application_status_value [APP_EVALUATED, APP_PENDING, APP_COMMITTED, APP_ABORTED] ''ApplicationStatus'' text"

lemma application_status_of_value [simp]: "application_status_of (application_status_value s) = Inr s"
  by (cases s) (simp_all add: application_status_of_def enum_of_def)

definition application_identity :: "(json \<Rightarrow> string) \<Rightarrow> string \<Rightarrow> string \<Rightarrow> string \<Rightarrow> string \<Rightarrow> string" where
  "application_identity digest runtime_id acceptance_id effect_group_id interaction_id =
     ''application-'' @ digest (JList [JStr runtime_id, JStr acceptance_id, JStr effect_group_id, JStr interaction_id])"

record application_receipt =
  ap_application_id :: string
  ap_projection_id :: string
  ap_acceptance_id :: string
  ap_interaction_id :: string
  ap_effect_group_id :: string
  ap_runtime_id :: string
  ap_scope :: scope
  ap_status :: application_status
  ap_commit_ref :: "string option"
  ap_transition_refs :: "string list"

definition application_checks :: "(json \<Rightarrow> string) \<Rightarrow> application_receipt \<Rightarrow> (bool \<times> py_error) list" where
  "application_checks digest r =
     [(ap_application_id r \<noteq> application_identity digest (ap_runtime_id r) (ap_acceptance_id r)
         (ap_effect_group_id r) (ap_interaction_id r),
       ValueError ''application identity does not match original interaction''),
      (sc_domain (ap_scope r) \<noteq> AGENT, ValueError ''appraisal application must target an agent scope''),
      (ap_status r = APP_COMMITTED \<and> ap_commit_ref r = None, ValueError ''committed application requires commit ref''),
      (ap_status r \<noteq> APP_COMMITTED \<and> ap_commit_ref r \<noteq> None, ValueError ''uncommitted application cannot claim commit'')]"

definition application_valid :: "(json \<Rightarrow> string) \<Rightarrow> application_receipt \<Rightarrow> bool" where
  "application_valid digest r \<longleftrightarrow> scope_valid (ap_scope r) \<and> all_clear (application_checks digest r)"

definition mk_application :: "(json \<Rightarrow> string) \<Rightarrow> application_receipt \<Rightarrow> application_receipt result" where
  "mk_application digest r = guarded (application_checks digest r) r"

section \<open>The payload column\<close>

definition json_of_text :: "string option \<Rightarrow> json" where
  "json_of_text t = (case t of None \<Rightarrow> JNull | Some s \<Rightarrow> JStr s)"

fun text_of_json :: "json \<Rightarrow> string option result" where
  "text_of_json JNull = Inr None"
| "text_of_json (JStr s) = Inr (Some s)"
| "text_of_json _ = Inl (TypeError ''str or None'')"

text \<open>\<^verbatim>\<open>asdict\<close> with sorted keys.\<close>

definition scope_to_json :: "scope \<Rightarrow> json" where
  "scope_to_json sc = JObj
     [(''agent_id'', json_of_text (sc_agent_id sc)), (''domain'', JStr (scope_domain_value (sc_domain sc))),
      (''interaction_id'', json_of_text (sc_interaction_id sc)), (''persona_id'', json_of_text (sc_persona_id sc)),
      (''relationship_id'', json_of_text (sc_relationship_id sc)), (''user_id'', json_of_text (sc_user_id sc)),
      (''world_id'', json_of_text (sc_world_id sc))]"

definition application_to_json :: "application_receipt \<Rightarrow> json_text" where
  "application_to_json r = Some (JObj
     [(''acceptance_id'', JStr (ap_acceptance_id r)), (''application_id'', JStr (ap_application_id r)),
      (''commit_ref'', json_of_text (ap_commit_ref r)), (''effect_group_id'', JStr (ap_effect_group_id r)),
      (''interaction_id'', JStr (ap_interaction_id r)), (''projection_id'', JStr (ap_projection_id r)),
      (''runtime_id'', JStr (ap_runtime_id r)), (''scope'', scope_to_json (ap_scope r)),
      (''status'', JStr (application_status_value (ap_status r))),
      (''transition_refs'', JList (map JStr (ap_transition_refs r)))])"

definition field_text :: "(string \<times> json) list \<Rightarrow> string \<Rightarrow> string result" where
  "field_text obj key = bindR (obj_get obj key) (\<lambda>j. case as_string j of
     None \<Rightarrow> Inl (TypeError ''str'') | Some s \<Rightarrow> Inr s)"

definition field_optional :: "(string \<times> json) list \<Rightarrow> string \<Rightarrow> string option result" where
  "field_optional obj key = bindR (obj_get obj key) text_of_json"

fun as_object :: "json \<Rightarrow> (string \<times> json) list result" where
  "as_object (JObj obj) = Inr obj"
| "as_object _ = Inl (TypeError ''object'')"

definition scope_of_json :: "json \<Rightarrow> scope result" where
  "scope_of_json j =
     bindR (as_object j) (\<lambda>obj.
     bindR (field_text obj ''domain'') (\<lambda>d.
     bindR (scope_domain_of d) (\<lambda>domain.
     bindR (field_optional obj ''user_id'') (\<lambda>user_id.
     bindR (field_optional obj ''agent_id'') (\<lambda>agent_id.
     bindR (field_optional obj ''persona_id'') (\<lambda>persona_id.
     bindR (field_optional obj ''relationship_id'') (\<lambda>relationship_id.
     bindR (field_optional obj ''world_id'') (\<lambda>world_id.
     bindR (field_optional obj ''interaction_id'') (\<lambda>interaction_id.
     mk_scope \<lparr>sc_domain = domain, sc_user_id = user_id, sc_agent_id = agent_id, sc_persona_id = persona_id,
       sc_relationship_id = relationship_id, sc_world_id = world_id, sc_interaction_id = interaction_id\<rparr>)))))))))"

definition application_of_json :: "(json \<Rightarrow> string) \<Rightarrow> json_text \<Rightarrow> application_receipt result" where
  "application_of_json digest payload =
     bindR (json_loads payload) (\<lambda>j.
     bindR (as_object j) (\<lambda>obj.
     bindR (bindR (obj_get obj ''scope'') scope_of_json) (\<lambda>sc.
     bindR (bindR (field_text obj ''status'') application_status_of) (\<lambda>status.
     bindR (bindR (obj_get obj ''transition_refs'') (\<lambda>r. case Option.bind (as_list r) all_strings of
       None \<Rightarrow> Inl (TypeError ''list of str'') | Some refs \<Rightarrow> Inr refs)) (\<lambda>refs.
     bindR (field_text obj ''application_id'') (\<lambda>application_id.
     bindR (field_text obj ''projection_id'') (\<lambda>projection_id.
     bindR (field_text obj ''acceptance_id'') (\<lambda>acceptance_id.
     bindR (field_text obj ''interaction_id'') (\<lambda>interaction_id.
     bindR (field_text obj ''effect_group_id'') (\<lambda>effect_group_id.
     bindR (field_text obj ''runtime_id'') (\<lambda>runtime_id.
     bindR (field_optional obj ''commit_ref'') (\<lambda>commit_ref.
     mk_application digest
       \<lparr>ap_application_id = application_id, ap_projection_id = projection_id, ap_acceptance_id = acceptance_id,
        ap_interaction_id = interaction_id, ap_effect_group_id = effect_group_id, ap_runtime_id = runtime_id,
        ap_scope = sc, ap_status = status, ap_commit_ref = commit_ref, ap_transition_refs = refs\<rparr>))))))))))))"

section \<open>Operations\<close>

definition find_application :: "string \<Rightarrow> state_tables \<Rightarrow> application_row option" where
  "find_application application_id t = find (\<lambda>r. ar_application_id r = application_id) (stt_applications t)"

definition get_application_receipt :: "(json \<Rightarrow> string) \<Rightarrow> string \<Rightarrow> state_db \<Rightarrow> application_receipt option result" where
  "get_application_receipt digest application_id db = (case find_application application_id (sdb_tables db) of
     None \<Rightarrow> Inr None
   | Some r \<Rightarrow> bindR (application_of_json digest (ar_payload r)) (\<lambda>a. Inr (Some a)))"

definition application_to_row :: "application_receipt \<Rightarrow> application_row" where
  "application_to_row a = \<lparr>ar_application_id = ap_application_id a, ar_runtime_id = ap_runtime_id a,
     ar_acceptance_id = ap_acceptance_id a, ar_payload = application_to_json a\<rparr>"

definition insert_application :: "application_row \<Rightarrow> state_tables \<Rightarrow> state_tables result" where
  "insert_application r t = (if list_ex (\<lambda>q. ar_application_id q = ar_application_id r \<or>
       ar_runtime_id q = ar_runtime_id r \<and> ar_acceptance_id q = ar_acceptance_id r) (stt_applications t)
     then Inl (IntegrityError ''UNIQUE constraint failed: application_receipts'')
     else Inr (t\<lparr>stt_applications := stt_applications t @ [r]\<rparr>))"

definition update_application :: "string \<Rightarrow> json_text \<Rightarrow> state_tables \<Rightarrow> state_tables result" where
  "update_application application_id payload t = Inr (t\<lparr>stt_applications :=
     map (\<lambda>r. if ar_application_id r = application_id then r\<lparr>ar_payload := payload\<rparr> else r) (stt_applications t)\<rparr>)"

text \<open>\<^verbatim>\<open>except sqlite3.IntegrityError as error: raise ValueError from error\<close>.\<close>

definition refuse_conflict :: "py_error \<Rightarrow> ('s, unit) prog \<Rightarrow> ('s, unit) prog" where
  "refuse_conflict e m = (\<lambda>s. case m s of (Inl (IntegrityError msg), t) \<Rightarrow> (Inl e, t) | rt \<Rightarrow> rt)"

definition stage_application_receipt :: "application_receipt \<Rightarrow> (state_db, unit) prog" where
  "stage_application_receipt a = bindP (readP (\<lambda>db. Inr (sdb_in_transaction db))) (\<lambda>inside.
     if \<not> inside then raiseP (RuntimeError ''application receipt requires canonical transaction'')
     else if ap_status a \<noteq> APP_PENDING then raiseP (ValueError ''only pending application receipts can be staged'')
     else refuse_conflict (ValueError ''application already admitted or identity conflict'')
       (execute_db (insert_application (application_to_row a))))"

definition commit_application_receipt :: "(json \<Rightarrow> string) \<Rightarrow> application_receipt \<Rightarrow> (state_db, unit) prog" where
  "commit_application_receipt digest a = bindP (readP (\<lambda>db. Inr (sdb_in_transaction db))) (\<lambda>inside.
     if \<not> inside then raiseP (RuntimeError ''application receipt requires canonical transaction'')
     else if ap_status a \<noteq> APP_COMMITTED then raiseP (ValueError ''application receipt must be committed'')
     else bindP (readP (get_application_receipt digest (ap_application_id a))) (\<lambda>prior. case prior of
       None \<Rightarrow> raiseP (ValueError ''application was not staged'')
     | Some p \<Rightarrow>
         if ap_status p \<noteq> APP_PENDING then raiseP (ValueError ''application was not staged'')
         else if ap_projection_id p \<noteq> ap_projection_id a \<or> ap_acceptance_id p \<noteq> ap_acceptance_id a \<or>
           ap_effect_group_id p \<noteq> ap_effect_group_id a \<or> ap_runtime_id p \<noteq> ap_runtime_id a \<or> ap_scope p \<noteq> ap_scope a
         then raiseP (ValueError ''application receipt payload conflict'')
         else execute_db (update_application (ap_application_id a) (application_to_json a))))"

section \<open>Round trip\<close>

lemma json_of_text_back [simp]: "text_of_json (json_of_text t) = Inr t"
  by (cases t) (simp_all add: json_of_text_def)

lemma scope_json_back: "scope_valid sc \<Longrightarrow> scope_of_json (scope_to_json sc) = Inr sc"
  by (cases sc) (simp add: scope_of_json_def scope_to_json_def field_text_def field_optional_def obj_get_def mk_scope_Inr_iff)

lemma application_json_back: "application_valid digest a \<Longrightarrow> application_of_json digest (application_to_json a) = Inr a"
  by (cases a) (simp add: application_of_json_def application_to_json_def field_text_def field_optional_def obj_get_def
      scope_json_back application_valid_def mk_application_def guarded_Inr_iff application_checks_def)

section \<open>A committed receipt\<close>

text \<open>The row of an application holds a receipt that was committed.\<close>

definition applied :: "(json \<Rightarrow> string) \<Rightarrow> string \<Rightarrow> state_tables \<Rightarrow> bool" where
  "applied digest application_id t \<longleftrightarrow> (\<exists>r a. find_application application_id t = Some r \<and>
     application_of_json digest (ar_payload r) = Inr a \<and> ap_status a = APP_COMMITTED)"

lemma loaded_application_scope:
  "application_of_json digest payload = Inr a \<Longrightarrow> scope_valid (ap_scope a)"
  by (auto simp: application_of_json_def scope_of_json_def mk_application_def bindR_Inr_iff guarded_Inr_iff mk_scope_Inr_iff)

lemma find_updated:
  "find (\<lambda>r. ar_application_id r = j) (map (\<lambda>r. if ar_application_id r = i then r\<lparr>ar_payload := payload\<rparr> else r) rows) =
    map_option (\<lambda>r. if j = i then r\<lparr>ar_payload := payload\<rparr> else r) (find (\<lambda>r. ar_application_id r = j) rows)"
  by (induction rows) auto

lemma committed_application:
  assumes "commit_application_receipt digest a db = (Inr u, db')" and "all_clear (application_checks digest a)"
  shows "applied digest (ap_application_id a) (sdb_tables db')"
    and "applied digest j (sdb_tables db) \<Longrightarrow> applied digest j (sdb_tables db')"
proof -
  from assms(1) obtain q where q: "get_application_receipt digest (ap_application_id a) db = Inr (Some q)"
    and status: "ap_status a = APP_COMMITTED" and scope: "ap_scope q = ap_scope a"
    and x: "execute_db (update_application (ap_application_id a) (application_to_json a)) db = (Inr u, db')"
    by (auto simp: commit_application_receipt_def bindP_apply readP_def raiseP_def split: if_splits sum.splits option.splits)
  from q obtain r where r: "find_application (ap_application_id a) (sdb_tables db) = Some r"
    and payload: "application_of_json digest (ar_payload r) = Inr q"
    by (auto simp: get_application_receipt_def bindR_Inr_iff split: option.splits)
  have valid: "application_valid digest a"
    using assms(2) loaded_application_scope [OF payload] scope by (simp add: application_valid_def)
  from x have apps: "stt_applications (sdb_tables db') = map (\<lambda>r. if ar_application_id r = ap_application_id a
      then r\<lparr>ar_payload := application_to_json a\<rparr> else r) (stt_applications (sdb_tables db))"
    by (auto simp: execute_db_def update_application_def begin_db_def split: sum.splits)
  have found: "find_application i (sdb_tables db') = map_option (\<lambda>r. if i = ap_application_id a
      then r\<lparr>ar_payload := application_to_json a\<rparr> else r) (find_application i (sdb_tables db))" for i
    by (simp add: find_application_def apps find_updated)
  show one: "applied digest (ap_application_id a) (sdb_tables db')"
    using r status application_json_back [OF valid] by (simp add: applied_def found)
  show "applied digest j (sdb_tables db) \<Longrightarrow> applied digest j (sdb_tables db')"
    using one by (cases "j = ap_application_id a") (auto simp: applied_def found)
qed

end
