(* ===== verification/Turn_Commit.thy ===== *)
theory Turn_Commit
  imports Slow_Window Turn_Checkpoint Turn_Projection Application_Receipts
begin

text \<open>
  The unit of work of a turn (\<^verbatim>\<open>TurnOrchestrator\<close> of \<^verbatim>\<open>pipeline/orchestrator.py\<close>): the canonical states
  in memory, the ingest of facts, the commit of a projection with its slow plans, receipts and marker in one
  transaction, abort, and restart. The configuration is the durable one: a state store with the marker store on
  its connection; writer, marker store and checkpoint store may be missing. The application receipts that
  \<^verbatim>\<open>_prepare_appraisal_receipts\<close> computes for accepted appraisals are an argument, the answers of the clocks are
  sequences, one for each call. An exception while the committed states are published in memory is an argument
  too: after which of the writes it is raised, and whether the reload that follows fails. Trace, telemetry and
  the thread updates after the commit are left out; the code catches what they raise.
\<close>

section \<open>State\<close>

datatype turn_state = Turn_Begin | Turn_Ingesting | Turn_Processing | Turn_Dispatching | Turn_Awaiting | Turn_Committed | Turn_Aborted

text \<open>
  The fields of \<^verbatim>\<open>_Turn\<close> that ingest, commit and abort read; \<open>tu_appraised\<close> says whether the transition result
  has accepted appraisals.
\<close>

record turn =
  tu_interaction_id :: string
  tu_scope :: scope
  tu_observations :: "observation list"
  tu_projection :: "turn_projection option"
  tu_slow_decisions :: "decision list"
  tu_appraised :: bool
  tu_action_receipt :: "action_receipt option"

record orchestrator =
  or_runtime_id :: string
  or_definitions :: registry
  or_persona_id :: "string option"
  or_db :: state_db
  or_canonical :: "(string \<times> runtime_state) list"
  or_writer :: "slow_writer option"
  or_markers :: bool
  or_checkpoints :: "checkpoint_row list option"
  or_turn :: "turn option"
  or_state :: turn_state
  or_base_state_version :: int
  or_factual_overlay :: "(string \<times> py_value) list"
  or_overlay :: "runtime_state list"
  or_ingest_transitions :: "state_transition list"

definition CanonicalPersistenceError :: py_error where
  "CanonicalPersistenceError = RuntimeError ''CanonicalPersistenceError''"

definition StaleProjectionError :: py_error where
  "StaleProjectionError = RuntimeError ''StaleProjectionError''"

text \<open>The durable commit succeeded, the publication in memory did not; the flag is \<^verbatim>\<open>canonical_reloaded\<close>.\<close>

definition PostCommitPublicationError :: "bool \<Rightarrow> py_error" where
  "PostCommitPublicationError canonical_reloaded = RuntimeError (if canonical_reloaded
     then ''PostCommitPublicationError: canonical state reloaded from durable commit''
     else ''PostCommitPublicationError: durable commit exists but canonical reload also failed'')"

definition on_db :: "(state_db, 'a) prog \<Rightarrow> (orchestrator, 'a) prog" where
  "on_db m = (\<lambda>oc. case m (or_db oc) of (r, db) \<Rightarrow> (r, oc\<lparr>or_db := db\<rparr>))"

definition require_turn :: "orchestrator \<Rightarrow> turn result" where
  "require_turn oc = (case or_turn oc of None \<Rightarrow> Inl (RuntimeError ''begin_turn must be called first'') | Some t \<Rightarrow> Inr t)"

section \<open>The canonical states in memory\<close>

text \<open>\<^verbatim>\<open>_current_states\<close>: of the records of a scope and dimension the first of the highest version.\<close>

definition current_states :: "runtime_state list \<Rightarrow> runtime_state list" where
  "current_states states = map snd (foldl (\<lambda>by_key s. case map_of by_key (state_key_of s) of
       None \<Rightarrow> AList.update (state_key_of s) s by_key
     | Some c \<Rightarrow> if rs_version s > rs_version c then AList.update (state_key_of s) s by_key else by_key) [] states)"

definition canonical_of :: "runtime_state list \<Rightarrow> (string \<times> runtime_state) list" where
  "canonical_of states = foldl (\<lambda>d s. AList.update (rs_state_id s) s d) [] (current_states states)"

definition publish_state :: "runtime_state \<Rightarrow> (string \<times> runtime_state) list \<Rightarrow> (string \<times> runtime_state) list" where
  "publish_state s d = AList.update (rs_state_id s) s (filter (\<lambda>(i, c). state_key_of c \<noteq> state_key_of s) d)"

definition publish_committed_states :: "runtime_state list \<Rightarrow> slow_plan list \<Rightarrow> orchestrator \<Rightarrow> orchestrator" where
  "publish_committed_states projected_states slow_plans oc =
     (let oc = oc\<lparr>or_canonical := foldl (\<lambda>d s. publish_state s d) (or_canonical oc) projected_states\<rparr> in
      case or_writer oc of
        None \<Rightarrow> oc
      | Some w \<Rightarrow> if slow_plans = [] then oc
          else (case apply_flush_plan slow_plans w of (slow_states, w') \<Rightarrow>
            oc\<lparr>or_writer := Some w', or_canonical := foldl (\<lambda>d s. publish_state s d) (or_canonical oc) slow_states\<rparr>))"

text \<open>The same as a sequence of writes, one for each record and each plan, for an exception in between.\<close>

definition publication_writes :: "runtime_state list \<Rightarrow> slow_plan list \<Rightarrow> orchestrator \<Rightarrow> (orchestrator \<Rightarrow> orchestrator) list" where
  "publication_writes projected_states slow_plans oc =
     (let put = (\<lambda>s oc. oc\<lparr>or_canonical := publish_state s (or_canonical oc)\<rparr>) in
      map put projected_states @
      (if or_writer oc = None then [] else
         map (\<lambda>q oc. oc\<lparr>or_writer := map_option (apply_plan q) (or_writer oc)\<rparr>) slow_plans @
         map (\<lambda>q. put (pl_state q)) slow_plans))"

definition publish_some :: "nat \<Rightarrow> runtime_state list \<Rightarrow> slow_plan list \<Rightarrow> orchestrator \<Rightarrow> orchestrator" where
  "publish_some n projected_states slow_plans oc =
     foldl (\<lambda>oc f. f oc) oc (take n (publication_writes projected_states slow_plans oc))"

text \<open>\<^verbatim>\<open>max((state.version for ...), default=1)\<close>.\<close>

definition canonical_version :: "orchestrator \<Rightarrow> int" where
  "canonical_version oc = (case map (rs_version \<circ> snd) (or_canonical oc) of [] \<Rightarrow> 1 | v # vs \<Rightarrow> foldl max v vs)"

definition agent_scope_of :: "string \<Rightarrow> scope result" where
  "agent_scope_of persona_id = mk_scope \<lparr>sc_domain = AGENT, sc_user_id = None, sc_agent_id = Some persona_id,
     sc_persona_id = Some persona_id, sc_relationship_id = None, sc_world_id = None, sc_interaction_id = None\<rparr>"

definition persona_or_default :: "orchestrator \<Rightarrow> string" where
  "persona_or_default oc = (case or_persona_id oc of Some p \<Rightarrow> p | None \<Rightarrow> ''default'')"

definition derive_slow_scope :: "turn \<Rightarrow> orchestrator \<Rightarrow> scope result" where
  "derive_slow_scope turn oc = (case tu_projection turn of
     Some p \<Rightarrow> if sc_domain (pm_scope (tp_projected_mind_state p)) = AGENT then Inr (pm_scope (tp_projected_mind_state p))
       else agent_scope_of (persona_or_default oc)
   | None \<Rightarrow> agent_scope_of (persona_or_default oc))"

definition reload_slow_writer :: "(orchestrator, unit) prog" where
  "reload_slow_writer = (\<lambda>oc. case or_writer oc of
     None \<Rightarrow> (Inr (), oc)
   | Some w \<Rightarrow> (case agent_scope_of (persona_or_default oc) of
       Inl e \<Rightarrow> (Inl e, oc)
     | Inr sc \<Rightarrow> (case load_writer sc (or_db oc) w of (r, w') \<Rightarrow> (r, oc\<lparr>or_writer := Some w'\<rparr>))))"

definition refresh_canonical_from_backend :: "(orchestrator, unit) prog" where
  "refresh_canonical_from_backend = bindP (readP (\<lambda>oc. load_states (or_db oc))) (\<lambda>states.
     thenP (writeP (\<lambda>oc. oc\<lparr>or_canonical := canonical_of states\<rparr>)) reload_slow_writer)"

section \<open>Durable writes\<close>

definition persist_state_idempotent :: "runtime_state \<Rightarrow> (state_db, bool) prog" where
  "persist_state_idempotent s = bindP (save_state s) (\<lambda>inserted.
     if inserted then returnP True
     else bindP (readP load_states) (\<lambda>states. case find (\<lambda>e. rs_state_id e = rs_state_id s) states of
       Some e \<Rightarrow> if canonical_state_rows_equal e s then returnP False else raiseP CanonicalPersistenceError
     | None \<Rightarrow> raiseP CanonicalPersistenceError))"

definition same_transition :: "state_transition \<Rightarrow> state_transition \<Rightarrow> bool" where
  "same_transition x y \<longleftrightarrow> rs_state_id (tr_from_state x) = rs_state_id (tr_from_state y) \<and>
     rs_state_id (tr_to_state x) = rs_state_id (tr_to_state y) \<and>
     tr_origin_runtime_id x = tr_origin_runtime_id y \<and> tr_intent_id x = tr_intent_id y"

definition persist_transition_idempotent :: "state_transition \<Rightarrow> (state_db, unit) prog" where
  "persist_transition_idempotent x = bindP (save_transition x) (\<lambda>inserted.
     if inserted then returnP ()
     else bindP (readP load_transitions) (\<lambda>all. case find (\<lambda>e. tr_transition_id e = tr_transition_id x) all of
       Some e \<Rightarrow> if same_transition e x then returnP () else raiseP CanonicalPersistenceError
     | None \<Rightarrow> raiseP CanonicalPersistenceError))"

text \<open>The transition of one intent of the projection.\<close>

definition turn_transition :: "string \<Rightarrow> transition_intent \<Rightarrow> datetime \<Rightarrow> state_transition result" where
  "turn_transition runtime_id i now = (let transition_id = ''transition:'' @ rs_state_id (ti_proposed_after i) in
     mk_state_transition
       \<lparr>tr_transition_id = transition_id, tr_scope = ti_scope i, tr_origin_runtime_id = runtime_id,
        tr_intent_id = ti_intent_id i, tr_from_state = ti_before i, tr_to_state = ti_proposed_after i,
        tr_committed_at = now, tr_sync = mk_sync (ti_scope i) runtime_id transition_id 1 (idem_of transition_id)\<rparr>)"

definition persist_turn_intent :: "string \<Rightarrow> transition_intent \<Rightarrow> datetime \<Rightarrow> (state_db, unit) prog" where
  "persist_turn_intent runtime_id i now = bindP (save_state (ti_before i)) (\<lambda>_.
     bindP (liftP (turn_transition runtime_id i now)) persist_transition_idempotent)"

definition record_marker :: "turn \<Rightarrow> runtime_state list \<Rightarrow> datetime \<Rightarrow> (state_db, unit) prog" where
  "record_marker turn projected_states now =
     bindP (record_commit (tu_interaction_id turn) (tu_scope turn) now (map rs_state_id projected_states)) (\<lambda>recorded.
     if recorded then returnP ()
     else bindP (readP (\<lambda>db. Inr (has_commit (tu_interaction_id turn) (tu_scope turn) db))) (\<lambda>known.
       if known then returnP () else raiseP CanonicalPersistenceError))"

definition stage_receipt :: "(json \<Rightarrow> string) \<Rightarrow> application_receipt \<Rightarrow> (state_db, unit) prog" where
  "stage_receipt digest a = bindP (liftP (mk_application digest (a\<lparr>ap_status := APP_PENDING\<rparr>))) stage_application_receipt"

definition commit_receipt :: "(json \<Rightarrow> string) \<Rightarrow> turn \<Rightarrow> string list \<Rightarrow> application_receipt \<Rightarrow> (state_db, unit) prog" where
  "commit_receipt digest turn committed_refs a =
     bindP (liftP (mk_application digest (a\<lparr>ap_status := APP_COMMITTED,
       ap_commit_ref := Some (''commit:'' @ tu_interaction_id turn), ap_transition_refs := committed_refs\<rparr>)))
       (commit_application_receipt digest)"

text \<open>
  The body of the transaction, in the order of the code: receipts staged, states, transitions, slow plans, the
  marker, receipts committed. The i-th intent reads the clock at i, the marker after the last intent.
\<close>

definition store_slow :: "float_arith \<Rightarrow> scope option \<Rightarrow> (nat \<Rightarrow> datetime) \<Rightarrow> bool \<Rightarrow> slow_plan list \<Rightarrow> slow_writer option \<Rightarrow>
    (state_db, slow_writer option) prog" where
  "store_slow fl slow_scope slow_clock routed slow_plans w =
     (if slow_plans \<noteq> [] then bindP (eachP execute_flush_plan slow_plans) (\<lambda>_. returnP w)
      else case (w, slow_scope) of
        (Some w', Some sc) \<Rightarrow> if routed then bindP (flush fl sc slow_clock w') (\<lambda>(_, w''). returnP (Some w'')) else returnP w
      | _ \<Rightarrow> returnP w)"

definition store_turn ::
  "float_arith \<Rightarrow> (json \<Rightarrow> string) \<Rightarrow> orchestrator \<Rightarrow> turn \<Rightarrow> turn_projection \<Rightarrow> scope option \<Rightarrow> bool \<Rightarrow> slow_plan list \<Rightarrow>
     application_receipt list \<Rightarrow> (nat \<Rightarrow> datetime) \<Rightarrow> (nat \<Rightarrow> datetime) \<Rightarrow> (state_db, slow_writer option) prog" where
  "store_turn fl digest oc turn p slow_scope routed slow_plans receipts clock slow_clock =
     (let states = pm_projected_states (tp_projected_mind_state p); intents = tp_transition_intents p in
      bindP (eachP (stage_receipt digest) receipts) (\<lambda>_.
      bindP (eachP persist_state_idempotent states) (\<lambda>_.
      bindP (eachP (\<lambda>(i, x). persist_turn_intent (or_runtime_id oc) x (clock i)) (enumerate 0 intents)) (\<lambda>_.
      bindP (store_slow fl slow_scope slow_clock routed slow_plans (or_writer oc)) (\<lambda>w.
      bindP (if or_markers oc then record_marker turn states (clock (length intents)) else returnP ()) (\<lambda>_.
      bindP (eachP (commit_receipt digest turn (map rs_state_id states @ map (\<lambda>q. rs_state_id (pl_state q)) slow_plans)) receipts) (\<lambda>_.
      returnP w)))))))"

section \<open>Checkpoints\<close>

definition checkpoint :: "turn \<Rightarrow> turn_stage \<Rightarrow> action_receipt option \<Rightarrow> datetime \<Rightarrow> (orchestrator, unit) prog" where
  "checkpoint turn stage receipt now = (\<lambda>oc. case or_checkpoints oc of
     None \<Rightarrow> (Inr (), oc)
   | Some rows \<Rightarrow> (let checkpoint_id = checkpoint_id_of (tu_interaction_id turn) in
       case mk_checkpoint
         \<lparr>cp_checkpoint_id = checkpoint_id, cp_interaction_id = tu_interaction_id turn, cp_scope = tu_scope turn,
          cp_origin_runtime_id = or_runtime_id oc, cp_stage = stage, cp_base_state_version = canonical_version oc,
          cp_projection_ref = (case tu_projection turn of Some p \<Rightarrow> tp_projection_id p | None \<Rightarrow> ''none''),
          cp_action_id = map_option ac_action_intent_id receipt,
          cp_delivery_status = (case receipt of Some r \<Rightarrow> ac_delivery_status r | None \<Rightarrow> UNSENT),
          cp_checkpointed_at = now,
          cp_sync = mk_sync (tu_scope turn) (or_runtime_id oc) checkpoint_id 1 (idem_of checkpoint_id)\<rparr> of
         Inl e \<Rightarrow> (Inl e, oc)
       | Inr c \<Rightarrow> (case sqlite_save c rows of (r, rows') \<Rightarrow> (r, oc\<lparr>or_checkpoints := Some rows'\<rparr>))))"

definition drop_checkpoint :: "string \<Rightarrow> orchestrator \<Rightarrow> orchestrator" where
  "drop_checkpoint interaction_id oc =
     oc\<lparr>or_checkpoints := map_option (\<lambda>rows. snd (sqlite_remove interaction_id rows)) (or_checkpoints oc)\<rparr>"

section \<open>Commit\<close>

text \<open>Only accepted decisions on registered longitudinal targets are routed; other targets are skipped.\<close>

fun routable_decisions :: "registry \<Rightarrow> decision list \<Rightarrow> decision list result" where
  "routable_decisions reg [] = Inr []"
| "routable_decisions reg (d # ds) = (case resolve_longitudinal_target reg (cd_target_dimension (de_candidate d)) of
     Inr _ \<Rightarrow> bindR (routable_decisions reg ds) (\<lambda>rest. Inr (d # rest))
   | Inl (ValueError _) \<Rightarrow> routable_decisions reg ds
   | Inl e \<Rightarrow> Inl e)"

fun accept_all :: "scope \<Rightarrow> (nat \<Rightarrow> datetime) \<Rightarrow> nat \<Rightarrow> decision list \<Rightarrow> slow_writer \<Rightarrow> slow_writer" where
  "accept_all sc clock i [] w = w"
| "accept_all sc clock i (d # ds) w = accept_all sc clock (i + 1) ds (snd (slow_accept d (Some sc) (clock i) w))"

definition slow_part :: "turn \<Rightarrow> orchestrator \<Rightarrow> bool" where
  "slow_part turn oc \<longleftrightarrow> or_writer oc \<noteq> None \<and> tu_slow_decisions turn \<noteq> []"

definition stage_slow :: "float_arith \<Rightarrow> turn \<Rightarrow> (nat \<Rightarrow> datetime) \<Rightarrow> (orchestrator, decision list \<times> slow_plan list) prog" where
  "stage_slow fl turn slow_clock = (\<lambda>oc. case or_writer oc of
     None \<Rightarrow> (Inr ([], []), oc)
   | Some w \<Rightarrow> if tu_slow_decisions turn = [] then (Inr ([], []), oc)
     else (case derive_slow_scope turn oc of
       Inl e \<Rightarrow> (Inl e, oc)
     | Inr sc \<Rightarrow> (case routable_decisions (or_definitions oc)
           (filter (\<lambda>d. de_decision d = SLOW_ACCEPT) (tu_slow_decisions turn)) of
         Inl e \<Rightarrow> (Inl e, oc)
       | Inr routable \<Rightarrow> (let w' = accept_all sc slow_clock 0 routable w; oc' = oc\<lparr>or_writer := Some w'\<rparr> in
           if routable = [] then (Inr ([], []), oc')
           else (case prepare_flush fl w' sc (\<lambda>i. slow_clock (length routable + i)) (or_db oc) of
             Inl e \<Rightarrow> (Inl e, oc')
           | Inr plans \<Rightarrow> (Inr (routable, plans), oc'))))))"

definition slow_scope_of :: "turn \<Rightarrow> orchestrator \<Rightarrow> scope option" where
  "slow_scope_of turn oc = (if slow_part turn oc
     then (case derive_slow_scope turn oc of Inr sc \<Rightarrow> Some sc | Inl _ \<Rightarrow> None) else None)"

text \<open>No accepted appraisal, no receipt.\<close>

definition prepare_appraisal_receipts ::
  "(slow_plan list \<Rightarrow> application_receipt list result) \<Rightarrow> turn \<Rightarrow> slow_plan list \<Rightarrow> application_receipt list result" where
  "prepare_appraisal_receipts receipts turn slow_plans = (if \<not> tu_appraised turn then Inr [] else receipts slow_plans)"

text \<open>The staged and stored turn; any failure drops what was staged and is reported as one class.\<close>

definition admit_turn ::
  "float_arith \<Rightarrow> (json \<Rightarrow> string) \<Rightarrow> (slow_plan list \<Rightarrow> application_receipt list result) \<Rightarrow> turn \<Rightarrow> turn_projection \<Rightarrow>
     (nat \<Rightarrow> datetime) \<Rightarrow> (nat \<Rightarrow> datetime) \<Rightarrow> (orchestrator, slow_plan list) prog" where
  "admit_turn fl digest receipts turn p clock slow_clock = (\<lambda>oc.
     case bindP (stage_slow fl turn slow_clock) (\<lambda>(routable, plans).
       bindP (liftP (prepare_appraisal_receipts receipts turn plans)) (\<lambda>rs.
       bindP (readP (\<lambda>oc'. Inr oc')) (\<lambda>oc'.
       bindP (on_db (transaction (store_turn fl digest oc' turn p (slow_scope_of turn oc) (routable \<noteq> []) plans rs clock
         (\<lambda>i. slow_clock (length routable + length plans + i))))) (\<lambda>w.
       thenP (writeP (\<lambda>oc'. oc'\<lparr>or_writer := w\<rparr>)) (returnP plans))))) oc of
       (Inr plans, oc') \<Rightarrow> (Inr plans, oc')
     | (Inl _, oc') \<Rightarrow> (Inl CanonicalPersistenceError, (case slow_scope_of turn oc of
           None \<Rightarrow> oc'
         | Some sc \<Rightarrow> oc'\<lparr>or_writer := map_option (discard_pending sc) (or_writer oc')\<rparr>)))"

definition finish_commit :: "turn \<Rightarrow> orchestrator \<Rightarrow> orchestrator" where
  "finish_commit turn oc = (drop_checkpoint (tu_interaction_id turn) oc)\<lparr>or_state := Turn_Committed\<rparr>"

text \<open>
  Publication after the commit. \<open>None\<close> is the publication that completes; \<open>Some (n, reload_fails)\<close> is one that
  raises after its first \<open>n\<close> writes, and whose recovery cannot read the file if \<open>reload_fails\<close>. The turn is
  committed first, whatever happens then.
\<close>

type_synonym publication_fault = "(nat \<times> bool) option"

definition recover_publication :: "bool \<Rightarrow> turn \<Rightarrow> (orchestrator, unit) prog" where
  "recover_publication reload_fails turn = thenP (writeP (\<lambda>oc. oc\<lparr>or_state := Turn_Committed\<rparr>))
     (bindP (attemptP (if reload_fails then raiseP (RuntimeError ''reload failed'') else refresh_canonical_from_backend)) (\<lambda>reloaded.
      thenP (writeP (drop_checkpoint (tu_interaction_id turn))) (raiseP (PostCommitPublicationError (is_ok reloaded)))))"

definition publish_turn :: "publication_fault \<Rightarrow> turn \<Rightarrow> runtime_state list \<Rightarrow> slow_plan list \<Rightarrow> (orchestrator, unit) prog" where
  "publish_turn fault turn projected_states slow_plans = (case fault of
     None \<Rightarrow> thenP (writeP (publish_committed_states projected_states slow_plans)) (writeP (finish_commit turn))
   | Some (n, reload_fails) \<Rightarrow> thenP (writeP (publish_some n projected_states slow_plans)) (recover_publication reload_fails turn))"

definition is_replay :: "turn \<Rightarrow> orchestrator \<Rightarrow> bool" where
  "is_replay turn oc \<longleftrightarrow> or_markers oc \<and> has_commit (tu_interaction_id turn) (tu_scope turn) (or_db oc)"

definition commit_turn ::
  "float_arith \<Rightarrow> (json \<Rightarrow> string) \<Rightarrow> (slow_plan list \<Rightarrow> application_receipt list result) \<Rightarrow>
     publication_fault \<Rightarrow> (nat \<Rightarrow> datetime) \<Rightarrow> (nat \<Rightarrow> datetime) \<Rightarrow> (orchestrator, unit) prog" where
  "commit_turn fl digest receipts fault clock slow_clock = bindP (readP require_turn) (\<lambda>turn. case tu_projection turn of
     None \<Rightarrow> writeP (finish_commit turn)
   | Some p \<Rightarrow> bindP (readP (\<lambda>oc. Inr (canonical_version oc \<noteq> or_base_state_version oc))) (\<lambda>stale.
       if stale then raiseP StaleProjectionError
       else thenP (checkpoint turn Awaiting_Commit (tu_action_receipt turn) (clock 0))
         (bindP (readP (\<lambda>oc. Inr (is_replay turn oc))) (\<lambda>replay.
          if replay then writeP (finish_commit turn)
          else bindP (admit_turn fl digest receipts turn p (\<lambda>i. clock (i + 1)) slow_clock) 
            (publish_turn fault turn (pm_projected_states (tp_projected_mind_state p)))))))"

section \<open>Abort\<close>

definition abort_turn :: "(orchestrator, unit) prog" where
  "abort_turn = bindP (readP require_turn) (\<lambda>turn. bindP (readP (\<lambda>oc. Inr (or_state oc))) (\<lambda>state.
     if state = Turn_Committed then raiseP (RuntimeError ''cannot abort a durably committed turn'')
     else if state = Turn_Aborted then returnP ()
     else thenP (writeP (\<lambda>oc. drop_checkpoint (tu_interaction_id turn) (oc\<lparr>or_factual_overlay := []\<rparr>)))
       (thenP (\<lambda>oc. case or_writer oc of
           None \<Rightarrow> (Inr (), oc)
         | Some w \<Rightarrow> (case derive_slow_scope turn oc of
             Inl e \<Rightarrow> (Inl e, oc)
           | Inr sc \<Rightarrow> (Inr (), oc\<lparr>or_writer := Some (discard_pending sc w)\<rparr>)))
         (writeP (\<lambda>oc. oc\<lparr>or_state := Turn_Aborted\<rparr>)))))"

section \<open>Ingest\<close>

text \<open>
  \<^verbatim>\<open>_ingest_commit\<close>: the typed observations of the turn are reconciled and stored before memory advances,
  each record in a block of its own.
\<close>

definition persist_effective :: "string list \<Rightarrow> runtime_state \<Rightarrow> (state_db, unit) prog" where
  "persist_effective base_ids s = (if rs_state_id s \<in> set base_ids
     then bindP (save_state s) (\<lambda>_. returnP ())
     else bindP (persist_state_idempotent s) (\<lambda>_. returnP ()))"

definition persist_ingest_transition :: "state_transition \<Rightarrow> (state_db, unit) prog" where
  "persist_ingest_transition x = bindP (save_state (tr_from_state x)) (\<lambda>_.
     bindP (save_state (tr_to_state x)) (\<lambda>_. persist_transition_idempotent x))"

definition ingest_commit :: "turn \<Rightarrow> datetime \<Rightarrow> (orchestrator, unit) prog" where
  "ingest_commit turn now = (case List.map_filter interpret_observation (tu_observations turn) of
     [] \<Rightarrow> writeP (\<lambda>oc. oc\<lparr>or_overlay := [], or_ingest_transitions := []\<rparr>)
   | intents \<Rightarrow> bindP (readP (\<lambda>oc. Inr (map fst (or_canonical oc)))) (\<lambda>base_ids.
       bindP (readP (\<lambda>oc. reconcile_apply (or_definitions oc) now (map snd (or_canonical oc)) intents)) (\<lambda>result.
       thenP (on_db (thenP (eachP (persist_effective base_ids) (rr_effective result))
           (eachP persist_ingest_transition (rr_transitions result))))
         (writeP (\<lambda>oc. oc\<lparr>or_canonical := foldl (\<lambda>d s. publish_state s d) (or_canonical oc) (rr_effective result),
            or_overlay := filter (\<lambda>s. rs_state_id s \<notin> set base_ids) (rr_effective result),
            or_ingest_transitions := rr_transitions result\<rparr>)))))"

text \<open>The start of \<^verbatim>\<open>run\<close>: facts first, then the base version the projection will be checked against.\<close>

definition run_ingest :: "datetime \<Rightarrow> (orchestrator, unit) prog" where
  "run_ingest now = bindP (readP require_turn) (\<lambda>turn. thenP (writeP (\<lambda>oc. oc\<lparr>or_state := Turn_Processing\<rparr>))
     (thenP (ingest_commit turn now) (writeP (\<lambda>oc. oc\<lparr>or_base_state_version := canonical_version oc\<rparr>))))"

end
