(* ===== verification/Turn_History.thy ===== *)
theory Turn_History
  imports Turn_Commit
begin

text \<open>
  What a commit guarantees. Inside the transaction every call only appends canonical rows and none ends the
  transaction, so the commit is all or nothing; what a successful commit stored is never lost again, and an
  interaction is admitted once.
\<close>

section \<open>Inside the transaction\<close>

definition in_tx :: "state_tables \<Rightarrow> state_tables \<Rightarrow> state_db \<Rightarrow> bool" where
  "in_tx t u db = (in_open t db \<and> tables_ok (sdb_tables db) \<and> extends u (sdb_tables db))"

lemma in_tx_execute: "sound_statement st \<Longrightarrow> preserves (in_tx t u) (execute_db st)"
  by (rule preservesI)
    (auto simp: in_tx_def in_open_def execute_db_def begin_db_def committed_def sound_statement_def
      intro: extends_trans split: sum.splits)

lemma in_tx_own_block: "preserves (in_tx t u) m \<Longrightarrow> preserves (in_tx t u) (in_own_block m)"
  by (simp add: preserves_def in_own_block_def in_tx_def in_open_def)

lemma in_tx_transaction: "preserves (in_tx t u) (transaction m)"
  by (rule preservesI) (simp add: in_tx_def in_open_def transaction_def)

lemma in_tx_read [preserve_rules]: "preserves (in_tx t u) (readP f)"
  by (rule preservesI) (simp add: readP_def)

lemma sound_application: "sound_statement (insert_application r)" "sound_statement (update_application i payload)"
  by (auto simp: sound_statement_def insert_application_def update_application_def tables_ok_def extends_def split: if_splits)

lemma preserves_conflict: "preserves I m \<Longrightarrow> preserves I (refuse_conflict e m)"
  by (rule preservesI) (auto simp: refuse_conflict_def dest: preservesD' split: prod.splits sum.splits py_error.splits)

lemma preserves_option [preserve_rules]:
  "preserves I m \<Longrightarrow> (\<And>x. v = Some x \<Longrightarrow> preserves I (f x)) \<Longrightarrow> preserves I (case v of None \<Rightarrow> m | Some x \<Rightarrow> f x)"
  by (cases v) simp_all

lemmas in_tx_steps = in_tx_own_block preserves_integrity preserves_conflict in_tx_execute in_tx_transaction
  sound_statements sound_application preserve_rules

lemma in_tx_insert: "preserves (in_tx t u) (insert_state s)"
  unfolding insert_state_def by (intro in_tx_steps)

lemma in_tx_saves: "preserves (in_tx t u) (save_state s)" "preserves (in_tx t u) (save_transition x)"
  "preserves (in_tx t u) (record_commit i sc now ids)"
  unfolding save_state_def save_transition_def record_commit_def by (intro in_tx_steps in_tx_insert)+

lemma in_tx_plan: "preserves (in_tx t u) (execute_flush_plan q)"
  unfolding execute_flush_plan_def commit_slow_window_update_def execute_slow_window_update_def
  by (intro in_tx_steps in_tx_insert)

lemma in_tx_persist: "preserves (in_tx t u) (persist_state_idempotent s)" "preserves (in_tx t u) (persist_transition_idempotent x)"
  unfolding persist_state_idempotent_def persist_transition_idempotent_def by (intro in_tx_steps in_tx_saves)+

lemma in_tx_intent: "preserves (in_tx t u) (persist_turn_intent rid i now)"
  unfolding persist_turn_intent_def by (intro in_tx_steps in_tx_saves in_tx_persist)

lemma in_tx_marker: "preserves (in_tx t u) (record_marker turn states now)"
  unfolding record_marker_def by (intro in_tx_steps in_tx_saves)

lemma in_tx_receipts: "preserves (in_tx t u) (stage_receipt digest a)" "preserves (in_tx t u) (commit_receipt digest turn refs a)"
  unfolding stage_receipt_def commit_receipt_def stage_application_receipt_def commit_application_receipt_def
  by (intro in_tx_steps)+

lemma in_tx_slow: "preserves (in_tx t u) (store_slow fl sc slow_clock routed plans w)"
  unfolding store_slow_def flush_def
  by (intro in_tx_steps in_tx_plan) (auto intro!: in_tx_steps in_tx_plan split: option.splits prod.splits)

lemma in_tx_store: "preserves (in_tx t u) (store_turn fl digest oc turn p sc routed plans rs clock slow_clock)"
  unfolding store_turn_def Let_def
  by (intro in_tx_steps in_tx_receipts in_tx_persist in_tx_marker in_tx_slow)
    (auto intro!: in_tx_intent split: prod.splits)


section \<open>What the calls store\<close>

text \<open>A record is held when its row, or a row of the same canonical meaning, is in the table.\<close>

definition holds_state :: "runtime_state \<Rightarrow> state_tables \<Rightarrow> bool" where
  "holds_state s t \<longleftrightarrow> (\<exists>r \<in> set (stt_states t). state_to_row s = Inr r \<or>
     (\<exists>e. state_from_row r = Inr e \<and> canonical_state_rows_equal e s))"

definition holds_transition :: "string \<Rightarrow> transition_intent \<Rightarrow> state_tables \<Rightarrow> bool" where
  "holds_transition runtime_id i t \<longleftrightarrow> (\<exists>r \<in> set (stt_transitions t).
     tw_transition_id r = ''transition:'' @ rs_state_id (ti_proposed_after i) \<and>
     tw_from_state_id r = rs_state_id (ti_before i) \<and> tw_to_state_id r = rs_state_id (ti_proposed_after i) \<and>
     tw_origin_runtime_id r = runtime_id \<and> tw_intent_id r = ti_intent_id i)"

definition holds_marker :: "string \<Rightarrow> scope \<Rightarrow> state_tables \<Rightarrow> bool" where
  "holds_marker i sc t \<longleftrightarrow> marker_columns sc i \<in> set (map marker_key (stt_markers t))"

lemma has_commit_holds: "has_commit i sc db \<longleftrightarrow> holds_marker i sc (sdb_tables db)"
  by (simp add: has_commit_def holds_marker_def)

lemma holds_extends:
  "extends t u \<Longrightarrow> holds_state s t \<Longrightarrow> holds_state s u"
  "extends t u \<Longrightarrow> holds_transition rid x t \<Longrightarrow> holds_transition rid x u"
  "extends t u \<Longrightarrow> holds_marker i sc t \<Longrightarrow> holds_marker i sc u"
  unfolding extends_def holds_state_def holds_transition_def holds_marker_def
  by (meson set_mono_prefix subsetD) (meson set_mono_prefix subsetD, auto dest!: set_mono_prefix)

lemma in_block: "sdb_in_transaction db \<Longrightarrow> in_own_block m db = m db"
  by (simp add: in_own_block_def)

lemma integrity_False: "true_unless_integrity_error m db = (Inr False, db') \<Longrightarrow> \<exists>msg. m db = (Inl (IntegrityError msg), db')"
  by (cases "m db"; cases "fst (m db)") (auto simp: true_unless_integrity_error_def split: py_error.splits)

lemma saved_state:
  assumes "save_state s db = (Inr True, db')" and "sdb_in_transaction db"
  shows "holds_state s (sdb_tables db')"
proof -
  from assms have "insert_state s db = (Inr (), db')" by (simp add: save_state_def integrity_True in_block)
  then obtain r where r: "state_to_row s = Inr r" and x: "execute_db (insert_state_row r) db = (Inr (), db')"
    unfolding insert_state_def by (elim bindP_Inr_E) (auto simp: liftP_def)
  from execute_db_Inr [OF x] have "sdb_tables db' = sdb_tables db\<lparr>stt_states := stt_states (sdb_tables db) @ [r]\<rparr>"
    by (simp add: insert_state_row_def split: option.splits if_splits)
  then have "r \<in> set (stt_states (sdb_tables db'))" by simp
  with r show ?thesis by (auto simp: holds_state_def)
qed

lemma loaded_state: "load_states db = Inr ss \<Longrightarrow> e \<in> set ss \<Longrightarrow> \<exists>r \<in> set (stt_states (sdb_tables db)). state_from_row r = Inr e"
  by (auto simp: load_states_def mapR_all_iff)

lemma persisted_state:
  assumes "persist_state_idempotent s db = (Inr b, db')" and "sdb_in_transaction db"
  shows "holds_state s (sdb_tables db')"
proof -
  from assms(1) obtain inserted db1 where save: "save_state s db = (Inr inserted, db1)"
    and rest: "(if inserted then returnP True
     else bindP (readP load_states) (\<lambda>states. case find (\<lambda>e. rs_state_id e = rs_state_id s) states of
       Some e \<Rightarrow> if canonical_state_rows_equal e s then returnP False else raiseP CanonicalPersistenceError
     | None \<Rightarrow> raiseP CanonicalPersistenceError)) db1 = (Inr b, db')"
    unfolding persist_state_idempotent_def by (elim bindP_Inr_E)
  show ?thesis
  proof (cases inserted)
    case True
    with rest save saved_state assms(2) show ?thesis by (simp add: returnP_def)
  next
    case False
    with rest obtain ss where ss: "load_states db1 = Inr ss" and f: "(case find (\<lambda>e. rs_state_id e = rs_state_id s) ss of
       Some e \<Rightarrow> if canonical_state_rows_equal e s then returnP False else raiseP CanonicalPersistenceError
     | None \<Rightarrow> raiseP CanonicalPersistenceError) db1 = (Inr b, db')"
      by (auto simp: readP_def elim!: bindP_Inr_E)
    then obtain e where e: "find (\<lambda>e. rs_state_id e = rs_state_id s) ss = Some e" "canonical_state_rows_equal e s" "db' = db1"
      by (auto simp: raiseP_def returnP_def split: option.splits if_splits)
    from loaded_state [OF ss find_SomeD [OF e(1), THEN conjunct1]] e show ?thesis by (auto simp: holds_state_def)
  qed
qed

lemma fold_update_key:
  "(\<And>k s. (k, s) \<in> set items \<Longrightarrow> rs_state_id s = k) \<Longrightarrow> (\<And>k s. map_of d k = Some s \<Longrightarrow> rs_state_id s = k) \<Longrightarrow>
    map_of (foldl (\<lambda>d (k, s). AList.update k s d) d items) k = Some s \<Longrightarrow> rs_state_id s = k"
proof (induction items arbitrary: d)
  case (Cons it items)
  show ?case
  proof (rule Cons.IH)
    show "map_of (foldl (\<lambda>d (k, s). AList.update k s d) (AList.update (fst it) (snd it) d) items) k = Some s"
      using Cons.prems(3) by (cases it) simp
    fix j v assume "map_of (AList.update (fst it) (snd it) d) j = Some v"
    with Cons.prems(1) [of "fst it" "snd it"] Cons.prems(2) [of j v] show "rs_state_id v = j" by (auto split: if_splits)
  qed (use Cons.prems(1) in auto)
qed auto

lemma states_by_id_key: "states_by_id rows = Inr d \<Longrightarrow> map_of d k = Some s \<Longrightarrow> rs_state_id s = k"
proof -
  assume "states_by_id rows = Inr d" and s: "map_of d k = Some s"
  then obtain items where items: "mapR (\<lambda>r. bindR (state_from_row r) (\<lambda>s. Inr (sr_state_id r, s))) rows = Inr items"
    and d: "d = foldl (\<lambda>d (k, s). AList.update k s d) [] items" by (auto simp: states_by_id_def bindR_Inr_iff)
  have "rs_state_id v = j" if "(j, v) \<in> set items" for j v
    using that items by (auto simp: mapR_all_iff bindR_def isl_def split: sum.splits dest!: state_from_row_Inr)
  from fold_update_key [OF this, where d = "[]"] s d show ?thesis by simp
qed

lemma loaded_transition:
  assumes "load_transitions db = Inr xs" and "e \<in> set xs"
  shows "\<exists>r \<in> set (stt_transitions (sdb_tables db)). tw_transition_id r = tr_transition_id e \<and>
    tw_from_state_id r = rs_state_id (tr_from_state e) \<and> tw_to_state_id r = rs_state_id (tr_to_state e) \<and>
    tw_origin_runtime_id r = tr_origin_runtime_id e \<and> tw_intent_id r = tr_intent_id e"
proof -
  from assms(1) obtain d where d: "states_by_id (stt_states (sdb_tables db)) = Inr d"
    and xs: "mapR (\<lambda>r. state_transition_from_rows r d)
       (sort_key (\<lambda>r. (dt_instant (tw_committed_at r), tw_transition_id r)) (stt_transitions (sdb_tables db))) = Inr xs"
    by (auto simp: load_transitions_def bindR_Inr_iff)
  from xs assms(2) obtain r where r: "r \<in> set (stt_transitions (sdb_tables db))" "state_transition_from_rows r d = Inr e"
    by (auto simp: mapR_all_iff)
  from r(2) have "tw_transition_id r = tr_transition_id e \<and> tw_from_state_id r = rs_state_id (tr_from_state e) \<and>
      tw_to_state_id r = rs_state_id (tr_to_state e) \<and> tw_origin_runtime_id r = tr_origin_runtime_id e \<and> tw_intent_id r = tr_intent_id e"
    using states_by_id_key [OF d]
    by (auto simp: state_transition_from_rows_def bindR_Inr_iff mk_state_transition_def guarded_Inr_iff split: option.splits)
  with r(1) show ?thesis by blast
qed


lemma persisted_intent:
  assumes "persist_turn_intent rid i now db = (Inr u, db')" and "in_tx t v db"
  shows "holds_transition rid i (sdb_tables db')"
proof -
  from assms(1) obtain b db1 x where before: "save_state (ti_before i) db = (Inr b, db1)"
    and x: "turn_transition rid i now = Inr x" and rest: "persist_transition_idempotent x db1 = (Inr u, db')"
    unfolding persist_turn_intent_def by (auto simp: liftP_def elim!: bindP_Inr_E)
  from preservesD' [OF in_tx_saves(1) assms(2) before] have tx: "sdb_in_transaction db1" by (simp add: in_tx_def in_open_def)
  from x have cols: "tr_transition_id x = ''transition:'' @ rs_state_id (ti_proposed_after i)"
    "tr_from_state x = ti_before i" "tr_to_state x = ti_proposed_after i" "tr_origin_runtime_id x = rid"
    "tr_intent_id x = ti_intent_id i"
    by (auto simp: turn_transition_def mk_state_transition_def guarded_Inr_iff Let_def)
  from rest obtain inserted db2 where save: "save_transition x db1 = (Inr inserted, db2)"
    and last: "(if inserted then returnP ()
     else bindP (readP load_transitions) (\<lambda>all. case find (\<lambda>e. tr_transition_id e = tr_transition_id x) all of
       Some e \<Rightarrow> if same_transition e x then returnP () else raiseP CanonicalPersistenceError
     | None \<Rightarrow> raiseP CanonicalPersistenceError)) db2 = (Inr u, db')"
    unfolding persist_transition_idempotent_def by (elim bindP_Inr_E)
  show ?thesis
  proof (cases inserted)
    case True
    with save tx have "execute_db (insert_transition_row (state_transition_to_row x)) db1 = (Inr (), db2)"
      by (simp add: save_transition_def integrity_True in_block)
    from execute_db_Inr [OF this] have "sdb_tables db2 = sdb_tables db1\<lparr>stt_transitions := stt_transitions (sdb_tables db1) @ [state_transition_to_row x]\<rparr>"
      by (simp add: insert_transition_row_def split: option.splits if_splits)
    then have "state_transition_to_row x \<in> set (stt_transitions (sdb_tables db2))" by simp
    moreover have "db' = db2" using True last by (simp add: returnP_def)
    ultimately show ?thesis unfolding holds_transition_def
      by (intro bexI [of _ "state_transition_to_row x"]) (simp_all add: state_transition_to_row_def cols)
  next
    case False
    with last obtain all where all: "load_transitions db2 = Inr all" and f: "(case find (\<lambda>e. tr_transition_id e = tr_transition_id x) all of
       Some e \<Rightarrow> if same_transition e x then returnP () else raiseP CanonicalPersistenceError
     | None \<Rightarrow> raiseP CanonicalPersistenceError) db2 = (Inr u, db')"
      by (auto simp: readP_def elim!: bindP_Inr_E)
    then obtain e where e: "find (\<lambda>e. tr_transition_id e = tr_transition_id x) all = Some e" "same_transition e x" "db' = db2"
      by (auto simp: raiseP_def returnP_def split: option.splits if_splits)
    note found = find_SomeD [OF e(1)]
    from loaded_transition [OF all conjunct1 [OF found]] conjunct2 [OF found] e(2,3) show ?thesis
      unfolding holds_transition_def same_transition_def by (auto simp: cols)
  qed
qed

lemma recorded_marker:
  assumes "record_marker turn states now db = (Inr u, db')"
  shows "holds_marker (tu_interaction_id turn) (tu_scope turn) (sdb_tables db')"
proof -
  let ?i = "tu_interaction_id turn" and ?sc = "tu_scope turn" and ?ids = "map rs_state_id states"
  from assms obtain recorded db1 where rec: "record_commit ?i ?sc now ?ids db = (Inr recorded, db1)"
    and rest: "(if recorded then returnP () else bindP (readP (\<lambda>db. Inr (has_commit ?i ?sc db))) (\<lambda>known.
       if known then returnP () else raiseP CanonicalPersistenceError)) db1 = (Inr u, db')"
    unfolding record_marker_def by (elim bindP_Inr_E)
  show ?thesis
  proof (cases recorded)
    case True
    with rec obtain r where x: "execute_db (insert_marker r) db = (Inr (), db1)" and key: "marker_key r = marker_columns ?sc ?i"
      by (auto simp: record_commit_def integrity_True marker_key_def marker_columns_def)
    from execute_db_Inr [OF x] have "sdb_tables db1 = sdb_tables db\<lparr>stt_markers := stt_markers (sdb_tables db) @ [r]\<rparr>"
      by (simp add: insert_marker_def split: if_splits)
    with key True rest show ?thesis by (simp add: holds_marker_def returnP_def)
  next
    case False
    with rest show ?thesis
      by (auto simp: has_commit_holds readP_def returnP_def raiseP_def split: if_splits elim!: bindP_Inr_E)
  qed
qed

text \<open>A loop over calls that only append keeps what each of them stored.\<close>

lemma each_holds:
  assumes "\<And>x t u. x \<in> set xs \<Longrightarrow> preserves (in_tx t u) (f x)"
    and "\<And>x t u db y db'. x \<in> set xs \<Longrightarrow> in_tx t u db \<Longrightarrow> f x db = (Inr y, db') \<Longrightarrow> Q x (sdb_tables db')"
    and "\<And>x t u. extends t u \<Longrightarrow> Q x t \<Longrightarrow> Q x u"
    and "in_tx t u db" and "eachP f xs db = (Inr ys, db')"
  shows "\<forall>x \<in> set xs. Q x (sdb_tables db')"
  using assms(1,2,4,5)
proof (induction xs arbitrary: db ys)
  case (Cons x xs)
  from Cons.prems(4) obtain y db1 zs where x: "f x db = (Inr y, db1)" and xs: "eachP f xs db1 = (Inr zs, db')"
    by (auto elim!: bindP_Inr_E simp: returnP_def)
  have in1: "in_tx t u db1" using preservesD' [OF Cons.prems(1) Cons.prems(3) x] by simp
  then have in1': "in_tx t (sdb_tables db1) db1" by (simp add: in_tx_def)
  have "preserves (in_tx t (sdb_tables db1)) (eachP f xs)"
    by (rule preserves_eachP_set) (use Cons.prems(1) in simp)
  from preservesD' [OF this in1' xs] have "extends (sdb_tables db1) (sdb_tables db')" by (simp add: in_tx_def)
  with Cons.prems(2) [OF _ Cons.prems(3) x] assms(3) have "Q x (sdb_tables db')" by auto
  with Cons.IH [OF Cons.prems(1,2) in1 xs] show ?case by simp
qed simp


lemma executed_plan:
  assumes "execute_flush_plan q db = (Inr u, db')" and "in_tx t v db"
  shows "holds_state (pl_state q) (sdb_tables db')"
proof -
  let ?m = "bindP (eachP (\<lambda>e. execute_db (insert_slow_row (scope_values (rs_scope (pl_state q))) (rs_dimension (pl_state q)) e)) (pl_new_rows q)) (\<lambda>_.
     execute_db (trim_slow_window (scope_values (fst (pl_trim_keys q))) (snd (pl_trim_keys q)) (pl_window_size q)))"
  from execute_plan_commit [OF assms(1)] assms(2) have
    "execute_slow_window_update (pl_state q) (pl_new_rows q) (pl_trim_keys q) (pl_window_size q) db = (Inr (), db')"
    by (simp add: in_tx_def in_open_def)
  then obtain db1 where "insert_state (pl_state q) db1 = (Inr (), db')"
    unfolding execute_slow_window_update_def by (elim bindP_Inr_E)
  then obtain r where r: "state_to_row (pl_state q) = Inr r" and x: "execute_db (insert_state_row r) db1 = (Inr (), db')"
    unfolding insert_state_def by (elim bindP_Inr_E) (auto simp: liftP_def)
  from execute_db_Inr [OF x] have "sdb_tables db' = sdb_tables db1\<lparr>stt_states := stt_states (sdb_tables db1) @ [r]\<rparr>"
    by (simp add: insert_state_row_def split: option.splits if_splits)
  then have "r \<in> set (stt_states (sdb_tables db'))" by simp
  with r show ?thesis by (auto simp: holds_state_def)
qed

lemma tx_extends: "(\<And>t u. preserves (in_tx t u) m) \<Longrightarrow> in_tx t u db \<Longrightarrow> m db = (r, db') \<Longrightarrow> extends (sdb_tables db) (sdb_tables db')"
  using preservesD' [of "in_tx t (sdb_tables db)" m db r db'] by (simp add: in_tx_def)

definition stored_turn ::
  "(json \<Rightarrow> string) \<Rightarrow> orchestrator \<Rightarrow> turn \<Rightarrow> turn_projection \<Rightarrow> slow_plan list \<Rightarrow> application_receipt list \<Rightarrow> state_tables \<Rightarrow> bool" where
  "stored_turn digest oc turn p plans rs t \<longleftrightarrow> (\<forall>a \<in> set rs. applied digest (ap_application_id a) t) \<and>
     (\<forall>s \<in> set (pm_projected_states (tp_projected_mind_state p)). holds_state s t) \<and>
     (\<forall>x \<in> set (tp_transition_intents p). holds_transition (or_runtime_id oc) x t) \<and>
     (\<forall>q \<in> set plans. holds_state (pl_state q) t) \<and>
     (or_markers oc \<longrightarrow> holds_marker (tu_interaction_id turn) (tu_scope turn) t)"

lemma committed_receipts:
  "eachP (commit_receipt digest turn refs) rs db = (Inr us, db') \<Longrightarrow>
    (\<forall>a \<in> set rs. applied digest (ap_application_id a) (sdb_tables db')) \<and>
    (\<forall>j. applied digest j (sdb_tables db) \<longrightarrow> applied digest j (sdb_tables db'))"
proof (induction rs arbitrary: db us)
  case (Cons a rs)
  from Cons.prems obtain u db1 vs where one: "commit_receipt digest turn refs a db = (Inr u, db1)"
    and rest: "eachP (commit_receipt digest turn refs) rs db1 = (Inr vs, db')"
    by (auto simp: returnP_def elim!: bindP_Inr_E)
  let ?a = "a\<lparr>ap_status := APP_COMMITTED, ap_commit_ref := Some (''commit:'' @ tu_interaction_id turn), ap_transition_refs := refs\<rparr>"
  from one have "all_clear (application_checks digest ?a)" "commit_application_receipt digest ?a db = (Inr u, db1)"
    by (auto simp: commit_receipt_def bindP_apply liftP_def mk_application_def guarded_Inr_iff split: sum.splits)
  from committed_application [OF this(2,1)] Cons.IH [OF rest] show ?case by simp
qed (simp add: returnP_def)

lemma enumerate_member: "x \<in> set xs \<Longrightarrow> \<exists>i. (i, x) \<in> set (enumerate n xs)"
  by (metis imageE list.set_map map_snd_enumerate prod.collapse)

lemma store_turn_holds:
  assumes run: "store_turn fl digest oc turn p sc routed plans rs clock slow_clock db = (Inr w, db')" and tx: "in_tx t u db"
  shows "stored_turn digest oc turn p plans rs (sdb_tables db')"
proof -
  let ?states = "pm_projected_states (tp_projected_mind_state p)" and ?intents = "tp_transition_intents p"
  let ?each = "\<lambda>(i, x). persist_turn_intent (or_runtime_id oc) x (clock i)"
  let ?marker = "if or_markers oc then record_marker turn ?states (clock (length ?intents)) else returnP ()"
  let ?done = "eachP (commit_receipt digest turn (map rs_state_id ?states @ map (\<lambda>q. rs_state_id (pl_state q)) plans)) rs"
  from run obtain db1 db2 db3 db4 db5 x1 x2 x3 x5 x6 where
    1: "eachP (stage_receipt digest) rs db = (Inr x1, db1)" and
    2: "eachP persist_state_idempotent ?states db1 = (Inr x2, db2)" and
    3: "eachP ?each (enumerate 0 ?intents) db2 = (Inr x3, db3)" and
    4: "store_slow fl sc slow_clock routed plans (or_writer oc) db3 = (Inr w, db4)" and
    5: "?marker db4 = (Inr x5, db5)" and
    6: "?done db5 = (Inr x6, db')"
    unfolding store_turn_def Let_def by (elim bindP_Inr_E) (auto simp: returnP_def)
  have pres: "preserves (in_tx t u) (?each y)" for t u y by (cases y) (simp add: in_tx_intent)
  have p1: "\<And>t u. preserves (in_tx t u) (eachP (stage_receipt digest) rs)" by (intro preserve_rules in_tx_receipts)
  have p2: "\<And>t u. preserves (in_tx t u) (eachP persist_state_idempotent ?states)" by (intro preserve_rules in_tx_persist)
  have p3: "\<And>t u. preserves (in_tx t u) (eachP ?each (enumerate 0 ?intents))" by (intro preserves_eachP pres)
  have p5: "\<And>t u. preserves (in_tx t u) ?marker" by (intro preserve_rules in_tx_marker)
  have p6: "\<And>t u. preserves (in_tx t u) ?done" by (intro preserve_rules in_tx_receipts)
  have i1: "in_tx t u db1" by (rule preservesD' [OF p1 tx 1])
  have i2: "in_tx t u db2" by (rule preservesD' [OF p2 i1 2])
  have i3: "in_tx t u db3" by (rule preservesD' [OF p3 i2 3])
  have i4: "in_tx t u db4" by (rule preservesD' [OF in_tx_slow i3 4])
  have i5: "in_tx t u db5" by (rule preservesD' [OF p5 i4 5])
  have e56: "extends (sdb_tables db5) (sdb_tables db')" by (rule tx_extends [OF p6 i5 6])
  have e45: "extends (sdb_tables db4) (sdb_tables db')" using tx_extends [OF p5 i4 5] e56 by (rule extends_trans)
  have e34: "extends (sdb_tables db3) (sdb_tables db')" using tx_extends [OF in_tx_slow i3 4] e45 by (rule extends_trans)
  have e23: "extends (sdb_tables db2) (sdb_tables db')" using tx_extends [OF p3 i2 3] e34 by (rule extends_trans)
  have "\<forall>s \<in> set ?states. holds_state s (sdb_tables db2)"
    by (rule each_holds [OF _ _ _ i1 2]) (auto intro: in_tx_persist holds_extends dest: persisted_state simp: in_tx_def in_open_def)
  then have states: "\<forall>s \<in> set ?states. holds_state s (sdb_tables db')" using holds_extends(1) [OF e23] by blast
  have "\<forall>y \<in> set (enumerate 0 ?intents). (\<lambda>(i, x). holds_transition (or_runtime_id oc) x) y (sdb_tables db3)"
    by (rule each_holds [OF _ _ _ i2 3]) (auto intro: in_tx_intent holds_extends persisted_intent)
  then have "\<forall>x \<in> set ?intents. holds_transition (or_runtime_id oc) x (sdb_tables db3)"
    using enumerate_member by fastforce
  then have intents: "\<forall>x \<in> set ?intents. holds_transition (or_runtime_id oc) x (sdb_tables db')" using holds_extends(2) [OF e34] by blast
  have "\<forall>q \<in> set plans. holds_state (pl_state q) (sdb_tables db4)"
  proof (cases "plans = []")
    case False
    with 4 obtain us where us: "eachP execute_flush_plan plans db3 = (Inr us, db4)"
      by (auto simp: store_slow_def returnP_def elim!: bindP_Inr_E)
    show ?thesis by (rule each_holds [OF _ _ _ i3 us]) (auto intro: in_tx_plan holds_extends executed_plan)
  qed simp
  then have slow: "\<forall>q \<in> set plans. holds_state (pl_state q) (sdb_tables db')" using holds_extends(1) [OF e45] by blast
  have "or_markers oc \<longrightarrow> holds_marker (tu_interaction_id turn) (tu_scope turn) (sdb_tables db5)"
    using recorded_marker [of turn ?states _ db4 x5 db5] 5 by (cases "or_markers oc") simp_all
  then have "or_markers oc \<longrightarrow> holds_marker (tu_interaction_id turn) (tu_scope turn) (sdb_tables db')" using holds_extends(3) [OF e56] by blast
  with states intents slow committed_receipts [OF 6] show ?thesis by (simp add: stored_turn_def)
qed


section \<open>The commit\<close>

lemma stage_slow_keeps:
  assumes "stage_slow fl turn slow_clock oc = (r, oc')"
  shows "\<exists>w. oc' = oc\<lparr>or_writer := w\<rparr>"
proof -
  have same: "\<exists>w. oc = oc\<lparr>or_writer := w\<rparr>" for oc :: orchestrator by (rule exI [of _ "or_writer oc"]) simp
  from assms show ?thesis
    by (auto simp: stage_slow_def Let_def intro: same split: option.splits if_splits sum.splits)
qed

lemma transaction_run:
  assumes "idle db" and "in_open (sdb_tables db) (snd (body (begin_db (db\<lparr>sdb_in_transaction := True\<rparr>))))"
  shows "case transaction body db of
      (Inl e, db') \<Rightarrow> db' = db
    | (Inr x, db') \<Rightarrow> idle db' \<and> committed db' = sdb_tables db' \<and>
        body (begin_db (db\<lparr>sdb_in_transaction := True\<rparr>)) = (Inr x, begin_db (db\<lparr>sdb_in_transaction := True\<rparr>)\<lparr>sdb_tables := sdb_tables db'\<rparr>)"
  using assms
  by (cases "body (begin_db (db\<lparr>sdb_in_transaction := True\<rparr>))"; cases "fst (body (begin_db (db\<lparr>sdb_in_transaction := True\<rparr>)))";
      cases "snd (body (begin_db (db\<lparr>sdb_in_transaction := True\<rparr>)))")
    (auto simp: transaction_def idle_def in_open_def rollback_db_def commit_db_def begin_db_def committed_def)

lemma store_transaction:
  assumes "idle db" and "tables_ok (sdb_tables db)"
    and "transaction (store_turn fl digest oc turn p sc routed plans rs clock slow_clock) db = (r, db')"
  shows "case r of Inl _ \<Rightarrow> db' = db
    | Inr _ \<Rightarrow> idle db' \<and> committed db' = sdb_tables db' \<and> tables_ok (sdb_tables db') \<and>
        extends (sdb_tables db) (sdb_tables db') \<and> stored_turn digest oc turn p plans rs (sdb_tables db')"
proof -
  let ?m = "store_turn fl digest oc turn p sc routed plans rs clock slow_clock"
  let ?db = "begin_db (db\<lparr>sdb_in_transaction := True\<rparr>)"
  from assms(1,2) have tx: "in_tx (sdb_tables db) (sdb_tables db) ?db"
    by (simp add: in_tx_def in_open_def idle_def begin_db_def committed_def)
  from preservesD [OF in_tx_store tx] have "in_open (sdb_tables db) (snd (?m ?db))" by (simp add: in_tx_def)
  note t = transaction_run [where body = ?m, OF assms(1) this]
  show ?thesis
  proof (cases r)
    case (Inl e)
    with t assms(3) show ?thesis by simp
  next
    case (Inr w)
    with t assms(3) have "idle db'" "committed db' = sdb_tables db'"
      and run: "?m ?db = (Inr w, ?db\<lparr>sdb_tables := sdb_tables db'\<rparr>)" by simp_all
    with Inr preservesD' [OF in_tx_store tx run] store_turn_holds [OF run tx] show ?thesis by (simp add: in_tx_def)
  qed
qed


lemma admit_turn_error: "admit_turn fl digest receipts turn p clock slow_clock oc = (Inl e, oc') \<Longrightarrow> e = CanonicalPersistenceError"
  by (auto simp: admit_turn_def split: prod.splits sum.splits)

definition nothing_pending :: "scope option \<Rightarrow> slow_writer option \<Rightarrow> bool" where
  "nothing_pending slow_scope w \<longleftrightarrow> (case (slow_scope, w) of
     (Some sc, Some w') \<Rightarrow> \<forall>x \<in> set (lw_pending w'). fst (fst x) \<noteq> sc | _ \<Rightarrow> True)"

lemma discard_nothing: "nothing_pending (Some sc) (map_option (discard_pending sc) w)"
  by (cases w) (auto simp: nothing_pending_def discard_pending_def)

lemma stored_turn_writer [simp]: "stored_turn digest (oc\<lparr>or_writer := w\<rparr>) = stored_turn digest oc"
  by (intro ext) (simp add: stored_turn_def)

text \<open>The slow plans a turn stages: what \<^verbatim>\<open>prepare_flush\<close> makes of its accepted decisions.\<close>

definition staged_plans :: "float_arith \<Rightarrow> turn \<Rightarrow> (nat \<Rightarrow> datetime) \<Rightarrow> orchestrator \<Rightarrow> slow_plan list \<Rightarrow> bool" where
  "staged_plans fl turn slow_clock oc plans \<longleftrightarrow> (\<exists>routable oc'. stage_slow fl turn slow_clock oc = (Inr (routable, plans), oc'))"

lemma admit_turn_outcomes:
  assumes "idle (or_db oc)" and "tables_ok (sdb_tables (or_db oc))"
    and "admit_turn fl digest receipts turn p clock slow_clock oc = (r, oc')"
  shows "case r of
      Inl e \<Rightarrow> e = CanonicalPersistenceError \<and> (\<exists>w. oc' = oc\<lparr>or_writer := w\<rparr> \<and> nothing_pending (slow_scope_of turn oc) w)
    | Inr plans \<Rightarrow> staged_plans fl turn slow_clock oc plans \<and>
        (\<exists>w db' rs. prepare_appraisal_receipts receipts turn plans = Inr rs \<and> oc' = oc\<lparr>or_writer := w, or_db := db'\<rparr> \<and> idle db' \<and> committed db' = sdb_tables db' \<and>
        tables_ok (sdb_tables db') \<and> extends (sdb_tables (or_db oc)) (sdb_tables db') \<and> stored_turn digest oc turn p plans rs (sdb_tables db'))"
proof -
  let ?store = "\<lambda>oc' routable plans rs. store_turn fl digest oc' turn p (slow_scope_of turn oc) (routable \<noteq> []) plans rs clock
         (\<lambda>i. slow_clock (length routable + length plans + i))"
  let ?body = "bindP (stage_slow fl turn slow_clock) (\<lambda>(routable, plans).
       bindP (liftP (prepare_appraisal_receipts receipts turn plans)) (\<lambda>rs. bindP (readP (\<lambda>oc'. Inr oc')) (\<lambda>oc'.
       bindP (on_db (transaction (?store oc' routable plans rs))) (\<lambda>w.
       thenP (writeP (\<lambda>oc'. oc'\<lparr>or_writer := w\<rparr>)) (returnP plans)))))"
  obtain r1 w1 where stage: "stage_slow fl turn slow_clock oc = (r1, oc\<lparr>or_writer := w1\<rparr>)"
    using stage_slow_keeps [of fl turn slow_clock oc] by (cases "stage_slow fl turn slow_clock oc") auto
  have body: "case ?body oc of
      (Inl e, oc1) \<Rightarrow> \<exists>w. oc1 = oc\<lparr>or_writer := w\<rparr>
    | (Inr plans, oc1) \<Rightarrow> staged_plans fl turn slow_clock oc plans \<and>
        (\<exists>w db' rs. prepare_appraisal_receipts receipts turn plans = Inr rs \<and> oc1 = oc\<lparr>or_writer := w, or_db := db'\<rparr> \<and> idle db' \<and> committed db' = sdb_tables db' \<and>
        tables_ok (sdb_tables db') \<and> extends (sdb_tables (or_db oc)) (sdb_tables db') \<and> stored_turn digest oc turn p plans rs (sdb_tables db'))"
  proof (cases r1)
    case (Inl e)
    with stage show ?thesis by auto
  next
    case (Inr rp)
    obtain routable plans where rp: "rp = (routable, plans)" by (cases rp)
    with stage Inr have staged: "staged_plans fl turn slow_clock oc plans" by (auto simp: staged_plans_def)
    show ?thesis
    proof (cases "prepare_appraisal_receipts receipts turn plans")
      case (Inl e)
      with stage Inr rp show ?thesis by (auto simp: liftP_def)
    next
      case rs: (Inr rs)
      let ?oc = "oc\<lparr>or_writer := w1\<rparr>"
      obtain r2 db' where tx: "transaction (?store ?oc routable plans rs) (or_db oc) = (r2, db')"
        by (cases "transaction (?store ?oc routable plans rs) (or_db oc)")
      note t = store_transaction [OF assms(1,2) tx]
      have run: "?body oc = (case r2 of Inl e \<Rightarrow> (Inl e, oc\<lparr>or_writer := w1, or_db := db'\<rparr>)
         | Inr w \<Rightarrow> (Inr plans, oc\<lparr>or_writer := w, or_db := db'\<rparr>))"
        using stage Inr rp rs tx by (simp add: bindP_apply thenP_def liftP_def readP_def on_db_def writeP_def returnP_def split: sum.splits)
      show ?thesis
      proof (cases r2)
        case (Inl e)
        with t have "db' = or_db oc" by simp
        with run Inl show ?thesis by (auto intro!: exI [of _ w1])
      next
        case (Inr w)
        with t run staged rs show ?thesis by (auto intro!: exI [of _ w] exI [of _ db'])
      qed
    qed
  qed
  show ?thesis
  proof (cases "?body oc")
    case (Pair r1 oc1)
    show ?thesis
    proof (cases r1)
      case (Inl e)
      with body Pair obtain w where oc1: "oc1 = oc\<lparr>or_writer := w\<rparr>" by auto
      from assms(3) Pair Inl have r: "r = Inl CanonicalPersistenceError"
        and oc': "oc' = (case slow_scope_of turn oc of None \<Rightarrow> oc1
          | Some sc \<Rightarrow> oc1\<lparr>or_writer := map_option (discard_pending sc) (or_writer oc1)\<rparr>)"
        by (simp_all add: admit_turn_def)
      have "\<exists>w. oc' = oc\<lparr>or_writer := w\<rparr> \<and> nothing_pending (slow_scope_of turn oc) w"
      proof (cases "slow_scope_of turn oc")
        case None
        then show ?thesis by (intro exI [of _ w]) (simp add: oc' oc1 nothing_pending_def)
      next
        case (Some sc)
        then show ?thesis
          by (intro exI [of _ "map_option (discard_pending sc) w"]) (simp add: oc' oc1 discard_nothing)
      qed
      with r show ?thesis by simp
    next
      case (Inr plans)
      with assms(3) Pair have "r = Inr plans" "oc' = oc1" by (simp_all add: admit_turn_def)
      with Inr Pair body show ?thesis by simp
    qed
  qed
qed


lemma checkpoint_keeps:
  assumes "checkpoint turn stage receipt now oc = (r, oc')"
  shows "\<exists>c. oc' = oc\<lparr>or_checkpoints := c\<rparr>"
proof -
  have same: "\<exists>c. oc = oc\<lparr>or_checkpoints := c\<rparr>" for oc :: orchestrator by (rule exI [of _ "or_checkpoints oc"]) simp
  from assms show ?thesis
    by (auto simp: checkpoint_def Let_def intro: same split: option.splits sum.splits prod.splits)
qed

lemma publish_keeps [simp]:
  "or_db (publish_committed_states ss qs oc) = or_db oc" "or_turn (publish_committed_states ss qs oc) = or_turn oc"
  "or_markers (publish_committed_states ss qs oc) = or_markers oc"
  by (auto simp: publish_committed_states_def Let_def split: option.splits prod.splits)

lemma publication_writes_keep:
  assumes "f \<in> set (publication_writes ss qs oc)"
  shows "\<exists>d w. f oc' = oc'\<lparr>or_canonical := d, or_writer := w\<rparr>"
proof -
  have one: "\<exists>d w. oc'\<lparr>or_canonical := d'\<rparr> = oc'\<lparr>or_canonical := d, or_writer := w\<rparr>" for d'
    by (rule exI [of _ d'], rule exI [of _ "or_writer oc'"]) simp
  have two: "\<exists>d w. oc'\<lparr>or_writer := w'\<rparr> = oc'\<lparr>or_canonical := d, or_writer := w\<rparr>" for w'
    by (rule exI [of _ "or_canonical oc'"], rule exI [of _ w']) simp
  show ?thesis using assms one two by (auto simp: publication_writes_def Let_def split: if_splits)
qed

lemma folded_writes_keep:
  "(\<And>f oc. f \<in> set fs \<Longrightarrow> \<exists>d w. f oc = oc\<lparr>or_canonical := d, or_writer := w\<rparr>) \<Longrightarrow>
    \<exists>d w. foldl (\<lambda>oc f. f oc) oc fs = oc\<lparr>or_canonical := d, or_writer := w\<rparr>"
proof (induction fs arbitrary: oc)
  case Nil
  show ?case by (rule exI [of _ "or_canonical oc"], rule exI [of _ "or_writer oc"]) simp
next
  case (Cons f fs)
  from Cons.prems obtain d w where f: "f oc = oc\<lparr>or_canonical := d, or_writer := w\<rparr>" by fastforce
  from Cons.IH [of "f oc"] Cons.prems obtain d' w' where
    "foldl (\<lambda>oc f. f oc) (f oc) fs = (f oc)\<lparr>or_canonical := d', or_writer := w'\<rparr>" by fastforce
  then show ?case by (auto simp: f)
qed

lemma publish_some_keeps: "\<exists>d w. publish_some n ss qs oc = oc\<lparr>or_canonical := d, or_writer := w\<rparr>"
  unfolding publish_some_def
  by (rule folded_writes_keep, rule publication_writes_keep [where ss = ss and qs = qs and oc = oc], erule in_set_takeD)

text \<open>A publication that is cut after its last write has done what the whole one does.\<close>

lemma publish_all:
  assumes "length (publication_writes ss qs oc) \<le> n"
  shows "publish_some n ss qs oc = publish_committed_states ss qs oc"
proof -
  have put: "foldl (\<lambda>oc f. f oc) oc (map (\<lambda>s oc. oc\<lparr>or_canonical := publish_state s (or_canonical oc)\<rparr>) xs) =
      oc\<lparr>or_canonical := foldl (\<lambda>d s. publish_state s d) (or_canonical oc) xs\<rparr>" for xs and oc :: orchestrator
    by (induction xs arbitrary: oc) simp_all
  have plan: "foldl (\<lambda>oc f. f oc) oc (map (\<lambda>q oc. oc\<lparr>or_writer := map_option (apply_plan q) (or_writer oc)\<rparr>) xs) =
      oc\<lparr>or_writer := map_option (\<lambda>w. foldl (\<lambda>w q. apply_plan q w) w xs) (or_writer oc)\<rparr>" for xs and oc :: orchestrator
    by (induction xs arbitrary: oc) (simp_all add: option.map_comp comp_def option.map_ident)
  have states: "foldl (\<lambda>oc f. f oc) oc (map (\<lambda>q oc. oc\<lparr>or_canonical := publish_state (pl_state q) (or_canonical oc)\<rparr>) xs) =
      oc\<lparr>or_canonical := foldl (\<lambda>d s. publish_state s d) (or_canonical oc) (map pl_state xs)\<rparr>" for xs and oc :: orchestrator
    by (induction xs arbitrary: oc) simp_all
  show ?thesis using assms
    by (cases "or_writer oc")
      (auto simp: publish_some_def publication_writes_def publish_committed_states_def apply_flush_plan_def Let_def put plan states)
qed

lemma refresh_keeps:
  assumes "refresh_canonical_from_backend oc = (r, oc')"
  shows "\<exists>d w. oc' = oc\<lparr>or_canonical := d, or_writer := w\<rparr>"
    and "r = Inr () \<Longrightarrow> \<exists>ss. load_states (or_db oc) = Inr ss \<and> or_canonical oc' = canonical_of ss"
proof -
  have writer: "\<exists>w. snd (reload_slow_writer oc) = oc\<lparr>or_writer := w\<rparr>" for oc
    by (cases oc) (auto simp: reload_slow_writer_def split: option.splits sum.splits prod.splits)
  show "\<exists>d w. oc' = oc\<lparr>or_canonical := d, or_writer := w\<rparr>"
  proof (cases "load_states (or_db oc)")
    case (Inl e)
    with assms show ?thesis
      by (intro exI [of _ "or_canonical oc"] exI [of _ "or_writer oc"])
        (simp add: refresh_canonical_from_backend_def bindP_apply readP_def)
  next
    case (Inr ss)
    with assms have "oc' = snd (reload_slow_writer (oc\<lparr>or_canonical := canonical_of ss\<rparr>))"
      by (simp add: refresh_canonical_from_backend_def bindP_apply thenP_def readP_def writeP_def prod_eq_iff)
    with writer [of "oc\<lparr>or_canonical := canonical_of ss\<rparr>"] show ?thesis by auto
  qed
  assume "r = Inr ()"
  with assms obtain ss where ss: "load_states (or_db oc) = Inr ss"
    by (cases "load_states (or_db oc)") (simp_all add: refresh_canonical_from_backend_def bindP_apply readP_def)
  with assms have "oc' = snd (reload_slow_writer (oc\<lparr>or_canonical := canonical_of ss\<rparr>))"
    by (simp add: refresh_canonical_from_backend_def bindP_apply thenP_def readP_def writeP_def prod_eq_iff)
  with writer [of "oc\<lparr>or_canonical := canonical_of ss\<rparr>"] ss
  show "\<exists>ss. load_states (or_db oc) = Inr ss \<and> or_canonical oc' = canonical_of ss" by auto
qed

lemma finish_keeps [simp]:
  "or_db (finish_commit turn oc) = or_db oc" "or_state (finish_commit turn oc) = Turn_Committed"
  "or_canonical (finish_commit turn oc) = or_canonical oc" "or_writer (finish_commit turn oc) = or_writer oc"
  by (simp_all add: finish_commit_def drop_checkpoint_def)

definition no_checkpoint :: "string \<Rightarrow> orchestrator \<Rightarrow> bool" where
  "no_checkpoint i oc \<longleftrightarrow> (\<forall>rows. or_checkpoints oc = Some rows \<longrightarrow> sqlite_load i rows = Inr None)"

lemma finish_no_checkpoint: "no_checkpoint (tu_interaction_id turn) (finish_commit turn oc)"
  by (auto simp: no_checkpoint_def finish_commit_def drop_checkpoint_def sqlite_remove_def writeP_def sqlite_load_def find_filter_none)

text \<open>Whatever happens to the publication, the turn is committed, its checkpoint gone and the file as it was.\<close>

lemma publish_turn_outcomes:
  assumes "publish_turn fault turn ss qs oc = (r, oc')"
  shows "or_db oc' = or_db oc \<and> or_state oc' = Turn_Committed \<and> no_checkpoint (tu_interaction_id turn) oc' \<and>
    (case fault of
       None \<Rightarrow> r = Inr () \<and> oc' = finish_commit turn (publish_committed_states ss qs oc)
     | Some (n, reload_fails) \<Rightarrow> \<exists>b. r = Inl (PostCommitPublicationError b) \<and>
         (b \<longrightarrow> \<not> reload_fails \<and> (\<exists>states. load_states (or_db oc) = Inr states \<and> or_canonical oc' = canonical_of states)))"
proof (cases fault)
  case None
  with assms show ?thesis by (auto simp: publish_turn_def thenP_def bindP_apply writeP_def finish_no_checkpoint)
next
  case (Some f)
  obtain n reload_fails where f: "f = (n, reload_fails)" by (cases f)
  obtain d w where cut: "publish_some n ss qs oc = oc\<lparr>or_canonical := d, or_writer := w\<rparr>"
    using publish_some_keeps by blast
  let ?oc = "oc\<lparr>or_canonical := d, or_writer := w, or_state := Turn_Committed\<rparr>"
  let ?reload = "if reload_fails then raiseP (RuntimeError ''reload failed'') else refresh_canonical_from_backend"
  obtain r1 oc1 where reload: "?reload ?oc = (r1, oc1)" by (cases "?reload ?oc")
  have kept: "\<exists>d w. oc1 = ?oc\<lparr>or_canonical := d, or_writer := w\<rparr>"
  proof (cases reload_fails)
    case True
    with reload have "oc1 = ?oc" by simp
    then show ?thesis by (intro exI [of _ d] exI [of _ w]) simp
  next
    case False
    with reload have "refresh_canonical_from_backend ?oc = (r1, oc1)" by simp
    then show ?thesis by (rule refresh_keeps(1))
  qed
  have loaded: "is_ok r1 \<Longrightarrow> \<not> reload_fails \<and> (\<exists>states. load_states (or_db oc) = Inr states \<and> or_canonical oc1 = canonical_of states)"
    using reload refresh_keeps(2) [of ?oc r1 oc1] by (cases reload_fails; cases r1) auto
  from assms have "r = Inl (PostCommitPublicationError (is_ok r1)) \<and> oc' = drop_checkpoint (tu_interaction_id turn) oc1"
    using reload by (simp add: publish_turn_def Some f recover_publication_def thenP_def bindP_apply writeP_def cut attemptP_def
        raiseP_def returnP_def split: if_splits)
  with kept loaded Some f show ?thesis
    by (auto simp: drop_checkpoint_def no_checkpoint_def sqlite_remove_def writeP_def sqlite_load_def find_filter_none)
qed

lemma stage_slow_checkpoints:
  "stage_slow fl turn slow_clock (oc\<lparr>or_checkpoints := c\<rparr>) =
    (fst (stage_slow fl turn slow_clock oc), (snd (stage_slow fl turn slow_clock oc))\<lparr>or_checkpoints := c\<rparr>)"
  by (simp add: stage_slow_def Let_def derive_slow_scope_def persona_or_default_def split: option.split sum.split)

lemma staged_plans_checkpoints [simp]:
  "staged_plans fl turn slow_clock (oc\<lparr>or_checkpoints := c\<rparr>) = staged_plans fl turn slow_clock oc"
  by (auto simp: staged_plans_def fun_eq_iff stage_slow_checkpoints prod_eq_iff)

text \<open>None of the errors of the checkpoint is a \<^verbatim>\<open>RuntimeError\<close>.\<close>

lemma checkpoint_error:
  assumes "checkpoint turn stage receipt now oc = (Inl e, oc')"
  shows "e \<noteq> RuntimeError m"
proof -
  have "e' \<noteq> RuntimeError m" if "mk_checkpoint c = Inl e'" for c e'
    using that by (auto simp: mk_checkpoint_def guarded_def checkpoint_checks_def validate_sync_fields_def require_non_empty_def
        require_aware_utc_def raise_first_append split: option.splits if_splits)
  with assms show ?thesis
    by (auto simp: checkpoint_def Let_def sqlite_save_def raiseP_def writeP_def split: option.splits sum.splits if_splits prod.splits)
qed

lemma publication_errors:
  "StaleProjectionError \<notin> range PostCommitPublicationError" "CanonicalPersistenceError \<notin> range PostCommitPublicationError"
  "(\<And>m. e \<noteq> RuntimeError m) \<Longrightarrow> e \<notin> range PostCommitPublicationError"
  by (auto simp: PostCommitPublicationError_def CanonicalPersistenceError_def StaleProjectionError_def split: if_splits)

text \<open>The ways a commit of a projection can go.\<close>

lemma commit_turn_cases:
  assumes "or_turn oc = Some turn" and "tu_projection turn = Some p"
    and "commit_turn fl digest receipts fault clock slow_clock oc = (r, oc')"
  obtains (stale) "r = Inl StaleProjectionError" and "oc' = oc"
  | (refused) e c where "r = Inl e" and "oc' = oc\<lparr>or_checkpoints := c\<rparr>" and "\<And>m. e \<noteq> RuntimeError m"
  | (replay) c where "is_replay turn oc" and "r = Inr ()" and "oc' = finish_commit turn (oc\<lparr>or_checkpoints := c\<rparr>)"
  | (failed) e c where "\<not> is_replay turn oc" and "r = Inl e"
      and "admit_turn fl digest receipts turn p (\<lambda>i. clock (i + 1)) slow_clock (oc\<lparr>or_checkpoints := c\<rparr>) = (Inl e, oc')"
  | (admitted) c plans oc2 where "\<not> is_replay turn oc"
      and "admit_turn fl digest receipts turn p (\<lambda>i. clock (i + 1)) slow_clock (oc\<lparr>or_checkpoints := c\<rparr>) = (Inr plans, oc2)"
      and "publish_turn fault turn (pm_projected_states (tp_projected_mind_state p)) plans oc2 = (r, oc')"
proof (cases "canonical_version oc \<noteq> or_base_state_version oc")
  case True
  with assms stale show thesis by (simp add: commit_turn_def bindP_apply readP_def raiseP_def require_turn_def)
next
  case False
  obtain r1 oc1 where cp: "checkpoint turn Awaiting_Commit (tu_action_receipt turn) (clock 0) oc = (r1, oc1)"
    by (cases "checkpoint turn Awaiting_Commit (tu_action_receipt turn) (clock 0) oc")
  from checkpoint_keeps [OF cp] obtain c where oc1: "oc1 = oc\<lparr>or_checkpoints := c\<rparr>" ..
  obtain r2 oc2 where ad: "admit_turn fl digest receipts turn p (\<lambda>i. clock (i + 1)) slow_clock oc1 = (r2, oc2)"
    by (cases "admit_turn fl digest receipts turn p (\<lambda>i. clock (i + 1)) slow_clock oc1")
  have "is_replay turn oc1 = is_replay turn oc" by (simp add: oc1 is_replay_def)
  with False cp ad assms have run: "(r, oc') = (case r1 of Inl e \<Rightarrow> (Inl e, oc1)
    | Inr _ \<Rightarrow> if is_replay turn oc then (Inr (), finish_commit turn oc1) else (case r2 of Inl e \<Rightarrow> (Inl e, oc2)
        | Inr plans \<Rightarrow> publish_turn fault turn (pm_projected_states (tp_projected_mind_state p)) plans oc2))"
    by (auto simp: commit_turn_def bindP_apply thenP_def readP_def writeP_def require_turn_def split: sum.splits)
  show thesis
  proof (cases r1)
    case (Inl e)
    with run checkpoint_error cp show thesis by (intro refused [of e c]) (auto simp: oc1)
  next
    case one: (Inr u)
    show thesis
    proof (cases "is_replay turn oc")
      case True
      with run one show thesis by (intro replay [of c]) (simp_all add: oc1)
    next
      case new: False
      show thesis
      proof (cases r2)
        case (Inl e)
        with run one new ad show thesis by (intro failed [of e c]) (simp_all add: oc1)
      next
        case (Inr plans)
        with run one new ad show thesis by (intro admitted [of c plans oc2]) (simp_all add: oc1)
      qed
    qed
  qed
qed

text \<open>
  C7. A commit is all or nothing, and an interaction is admitted once. From an idle store with sound tables,
  \<^verbatim>\<open>commit_turn\<close> goes one of three ways. It raises an error other than
  \<^verbatim>\<open>PostCommitPublicationError\<close>: then the file, the canonical states in memory and the state of the turn are
  as before, and nothing the turn staged for the slow writer is left pending. It returns: then the turn is
  committed and its checkpoint is gone; if the interaction had its marker already, nothing was written at all,
  else the file durably holds every projected state, the transition of every intent, the record of every slow
  plan that was staged, every application receipt as committed and the marker together, and every state,
  transition and marker it held before. Or the publication in memory
  fails and it raises \<^verbatim>\<open>PostCommitPublicationError\<close>, which happens in no other case: then too the turn is
  committed, its checkpoint is gone and the file holds all of that.
\<close>

theorem commit_all_or_nothing:
  assumes "or_turn oc = Some turn" and "idle (or_db oc)" and "tables_ok (sdb_tables (or_db oc))"
    and "commit_turn fl digest receipts fault clock slow_clock oc = (r, oc')"
  shows "(\<forall>e. r = Inl e \<longrightarrow> e \<notin> range PostCommitPublicationError \<longrightarrow>
        or_db oc' = or_db oc \<and> or_canonical oc' = or_canonical oc \<and> or_state oc' = or_state oc \<and>
        (or_writer oc' = or_writer oc \<or> e = CanonicalPersistenceError \<and> nothing_pending (slow_scope_of turn oc) (or_writer oc'))) \<and>
    (is_ok r \<or> r \<in> Inl ` range PostCommitPublicationError \<longrightarrow>
        or_state oc' = Turn_Committed \<and> no_checkpoint (tu_interaction_id turn) oc' \<and>
        idle (or_db oc') \<and> tables_ok (committed (or_db oc')) \<and> extends (committed (or_db oc)) (committed (or_db oc')) \<and>
        (case tu_projection turn of
           None \<Rightarrow> is_ok r \<and> or_db oc' = or_db oc \<and> or_canonical oc' = or_canonical oc \<and> or_writer oc' = or_writer oc
         | Some p \<Rightarrow> if is_replay turn oc
             then is_ok r \<and> or_db oc' = or_db oc \<and> or_canonical oc' = or_canonical oc \<and> or_writer oc' = or_writer oc
             else (is_ok r \<longleftrightarrow> fault = None) \<and>
               (\<exists>plans rs. staged_plans fl turn slow_clock oc plans \<and> prepare_appraisal_receipts receipts turn plans = Inr rs \<and>
                  stored_turn digest oc turn p plans rs (committed (or_db oc')))))"
proof -
  from assms(2) have com: "committed (or_db oc) = sdb_tables (or_db oc)" by (simp add: idle_def committed_def)
  show ?thesis
  proof (cases "tu_projection turn")
    case None
    with assms com show ?thesis
      by (auto simp: commit_turn_def bindP_apply readP_def writeP_def finish_no_checkpoint require_turn_def)
  next
    case (Some p)
    have same: "slow_scope_of turn (oc\<lparr>or_checkpoints := c\<rparr>) = slow_scope_of turn oc"
      "stored_turn digest (oc\<lparr>or_checkpoints := c\<rparr>) turn p = stored_turn digest oc turn p" for c
      by (auto simp: slow_scope_of_def slow_part_def derive_slow_scope_def persona_or_default_def stored_turn_def fun_eq_iff
          split: option.splits)
    have admit: "idle (or_db (oc\<lparr>or_checkpoints := c\<rparr>))" "tables_ok (sdb_tables (or_db (oc\<lparr>or_checkpoints := c\<rparr>)))" for c
      using assms(2,3) by simp_all
    from assms(1) Some assms(4) show ?thesis
    proof (cases rule: commit_turn_cases)
      case stale
      with publication_errors(1) show ?thesis by (simp add: image_iff)
    next
      case (refused e c)
      with publication_errors(3) [OF refused(3)] show ?thesis by (simp add: image_iff)
    next
      case (replay c)
      with assms(2,3) Some com show ?thesis by (simp add: finish_no_checkpoint)
    next
      case (failed e c)
      with admit_turn_outcomes [OF admit failed(3)] have e: "e = CanonicalPersistenceError" by simp
      with failed admit_turn_outcomes [OF admit failed(3)] publication_errors(2) show ?thesis
        by (auto simp: same)
    next
      case (admitted c plans oc2)
      from admit_turn_outcomes [OF admit admitted(2)] obtain rs where stored: "staged_plans fl turn slow_clock oc plans"
        "prepare_appraisal_receipts receipts turn plans = Inr rs"
        "idle (or_db oc2) \<and> committed (or_db oc2) = sdb_tables (or_db oc2) \<and>
          tables_ok (sdb_tables (or_db oc2)) \<and> extends (sdb_tables (or_db oc)) (sdb_tables (or_db oc2)) \<and>
          stored_turn digest oc turn p plans rs (sdb_tables (or_db oc2))" by (auto simp: same)
      have way: "or_db oc' = or_db oc2" "or_state oc' = Turn_Committed" "no_checkpoint (tu_interaction_id turn) oc'"
        "is_ok r \<longleftrightarrow> fault = None" "\<not> is_ok r \<longrightarrow> r \<in> Inl ` range PostCommitPublicationError"
        using publish_turn_outcomes [OF admitted(3)] by (auto split: option.splits)
      then show ?thesis using stored admitted(1) Some com by auto
    qed
  qed
qed


section \<open>A turn\<close>

text \<open>A turn of a user whose mood is projected from calm to glad.\<close>

definition glad_mood :: "string \<Rightarrow> runtime_state" where
  "glad_mood user = (mood_state user 500)\<lparr>rs_state_id := ''user.mood:4'', rs_value := VStr ''glad'', rs_version := 4,
     rs_sync := mk_sync (user_scope user) ''r1'' ''user.mood:4'' 4 ''idem-4''\<rparr>"

definition mood_projection :: "string \<Rightarrow> string \<Rightarrow> turn_projection" where
  "mood_projection user i = \<lparr>tp_projection_id = ''projection-'' @ i, tp_interaction_id = i, tp_scope = user_scope user,
     tp_origin_runtime_id = ''r1'', tp_effective_state_before = mood_state user 500, tp_observations = [],
     tp_situation = None, tp_assessment_trace_ref = None, tp_intent_refs = [], tp_policy_result_ref = None,
     tp_transition_intents = [projr (build_turn_commit_intent i (user_scope user) ''r1'' ''user.mood'' (mood_state user 500)
       (glad_mood user) [] 1 ''dynamics'')],
     tp_projected_mind_state = \<lparr>pm_projection_id = ''projection-'' @ i, pm_scope = user_scope user, pm_origin_runtime_id = ''r1'',
       pm_projected_states = [glad_mood user],
       pm_sync = mk_sync (user_scope user) ''r1'' (''projection-'' @ i) 1 ''idem'', pm_committed = False\<rparr>,
     tp_created_at = utc 200,
     tp_sync = mk_sync (user_scope user) ''r1'' (''projection-'' @ i) 1 ''idem''\<rparr>"

definition mood_turn :: "string \<Rightarrow> string \<Rightarrow> turn" where
  "mood_turn user i = \<lparr>tu_interaction_id = i, tu_scope = user_scope user, tu_observations = [],
     tu_projection = Some (mood_projection user i), tu_slow_decisions = [], tu_appraised = False, tu_action_receipt = None\<rparr>"

definition opened :: "state_db \<Rightarrow> orchestrator" where
  "opened db = \<lparr>or_runtime_id = ''r1'', or_definitions = [], or_persona_id = None, or_db = db, or_canonical = [],
     or_writer = Some (fresh_writer 2), or_markers = True, or_checkpoints = Some [], or_turn = None,
     or_state = Turn_Begin, or_base_state_version = 1, or_factual_overlay = [], or_overlay = [], or_ingest_transitions = []\<rparr>"

text \<open>A fresh orchestrator on a file that holds the calm moods of some users, in the turn of the last of them.\<close>

definition calm_file :: "string list \<Rightarrow> state_db" where
  "calm_file users = run_steps (map (\<lambda>u. Call (Save_state (mood_state u 500))) users) new_state_db"

definition in_mood_turn :: "string list \<Rightarrow> string \<Rightarrow> string \<Rightarrow> orchestrator" where
  "in_mood_turn users user i = (snd (refresh_canonical_from_backend (opened (calm_file users))))
     \<lparr>or_turn := Some (mood_turn user i), or_base_state_version := 3\<rparr>"

definition plain_commit :: "(orchestrator, unit) prog" where
  "plain_commit = commit_turn exact_arith (\<lambda>_. ''digest'') (\<lambda>_. Inr []) None (\<lambda>i. utc (200 + int i)) (\<lambda>i. utc 300)"

lemma mood_turn_commits: "fst (plain_commit (in_mood_turn [''u1''] ''u1'' ''i1'')) = Inr ()"
  by code_simp

text \<open>The same turn with an accepted slow decision, whose publication in memory fails and cannot be repaired.\<close>

definition trusting :: orchestrator where
  "trusting = (in_mood_turn [''u1''] ''u1'' ''i1'')
     \<lparr>or_turn := Some ((mood_turn ''u1'' ''i1'')\<lparr>tu_slow_decisions := [trust_decision (1/2) 1]\<rparr>),
      or_definitions := [(''agent.slow.trust'', \<lparr>sd_key = ''agent.slow.trust'', sd_domain = D_AGENT, sd_value_type = SCALAR,
        sd_dynamics_policy = ''accumulator'', sd_default_validity_policy = None, sd_bounds = None\<rparr>)]\<rparr>"

definition broken_commit :: "(orchestrator, unit) prog" where
  "broken_commit = commit_turn exact_arith (\<lambda>_. ''digest'') (\<lambda>_. Inr []) (Some (1, True)) (\<lambda>i. utc (200 + int i)) (\<lambda>i. utc 300)"

lemma trusting_commit:
  "fst (broken_commit trusting) = Inl (PostCommitPublicationError False)"
  "case fst (stage_slow exact_arith (the (or_turn trusting)) (\<lambda>i. utc 300) trusting) of Inl e \<Rightarrow> False
   | Inr (routable, plans) \<Rightarrow> map (\<lambda>q. (pl_target_dimension q, rs_value (pl_state q))) plans = [(''agent.slow.trust'', VFloat (1/2))]"
  by code_simp+

theorem commit_all_or_nothing_witness:
  "or_state (snd (broken_commit trusting)) = Turn_Committed \<and>
   holds_state (glad_mood ''u1'') (committed (or_db (snd (broken_commit trusting)))) \<and>
   holds_marker ''i1'' (user_scope ''u1'') (committed (or_db (snd (broken_commit trusting)))) \<and>
   (\<exists>s. rs_value s = VFloat (1/2) \<and> holds_state s (committed (or_db (snd (broken_commit trusting)))))"
proof -
  let ?turn = "(mood_turn ''u1'' ''i1'')\<lparr>tu_slow_decisions := [trust_decision (1/2) 1]\<rparr>"
  have turn: "or_turn trusting = Some ?turn" by (simp add: trusting_def)
  have db: "idle (or_db trusting)" "tables_ok (sdb_tables (or_db trusting))" "\<not> is_replay ?turn trusting" "or_markers trusting"
    by code_simp+
  obtain r oc' where run: "broken_commit trusting = (r, oc')" by (cases "broken_commit trusting")
  with trusting_commit(1) have r: "r = Inl (PostCommitPublicationError False)" by simp
  have p: "tu_projection ?turn = Some (mood_projection ''u1'' ''i1'')" "tu_interaction_id ?turn = ''i1''" "tu_scope ?turn = user_scope ''u1''"
    by (simp_all add: mood_turn_def)
  from commit_all_or_nothing [OF turn db(1,2) run [unfolded broken_commit_def]] r p db(3) obtain plans where
    fin: "or_state oc' = Turn_Committed" "staged_plans exact_arith ?turn (\<lambda>i. utc 300) trusting plans"
      "\<exists>rs. stored_turn (\<lambda>_. ''digest'') trusting ?turn (mood_projection ''u1'' ''i1'') plans rs (committed (or_db oc'))" by auto
  from fin(2) trusting_commit(2) turn have "\<exists>q \<in> set plans. rs_value (pl_state q) = VFloat (1/2)"
    by (auto simp: staged_plans_def)
  with fin db(4) p run show ?thesis
    by (auto simp: stored_turn_def mood_projection_def)
qed


text \<open>
  The dict of the canonical states is keyed by the state id alone: of two users with records of the same ids
  only one survives a restart in memory. The second one's turn can never be committed: its transition has the
  id of the first one's, and the comparison with the stored one fails.
\<close>

definition second_user :: orchestrator where
  "second_user = (let oc = snd (refresh_canonical_from_backend
       (opened (or_db (snd (plain_commit (in_mood_turn [''u1'', ''u2''] ''u1'' ''i1''))))))
     in oc\<lparr>or_turn := Some (mood_turn ''u2'' ''i2''), or_base_state_version := canonical_version oc\<rparr>)"

lemma canonical_loses_a_scope:
  "map (\<lambda>(i, s). (i, sc_user_id (rs_scope s))) (or_canonical (in_mood_turn [''u1'', ''u2''] ''u2'' ''i1'')) =
    [(''user.mood:3'', Some ''u2'')]"
  by code_simp

lemma second_user_never_commits: "fst (plain_commit second_user) = Inl CanonicalPersistenceError"
  by code_simp

end
