(* ===== verification/Turn_Liveness.thy ===== *)
theory Turn_Liveness
  imports Turn_History
begin

text \<open>
  Commits that must succeed, and what a restart finds: a fresh projection of new records always commits, and
  the canonical states in memory are then those that a restart loads from the file.
\<close>

section \<open>New records are stored\<close>

definition fits :: "runtime_state \<Rightarrow> bool" where
  "fits s \<longleftrightarrow> (case state_to_row s of Inl _ \<Rightarrow> False | Inr r \<Rightarrow> int64_error [sr_version r, sr_sync_version r] = None)"

definition storage_key :: "runtime_state \<Rightarrow> scope_columns \<times> string" where
  "storage_key s = (scope_values (rs_scope s), rs_state_id s)"

definition used_keys :: "state_tables \<Rightarrow> (scope_columns \<times> string) set" where
  "used_keys t = set (map state_row_key (stt_states t))"

definition used_transitions :: "state_tables \<Rightarrow> string set" where
  "used_transitions t = set (map tw_transition_id (stt_transitions t))"

definition used_markers :: "state_tables \<Rightarrow> (string \<times> string \<times> string) set" where
  "used_markers t = set (map marker_key (stt_markers t))"

lemma fits_row: "fits s \<Longrightarrow> \<exists>r. state_to_row s = Inr r \<and> int64_error [sr_version r, sr_sync_version r] = None \<and> state_row_key r = storage_key s"
  by (auto simp: fits_def state_row_key_def storage_key_def state_to_row_scope split: sum.splits)

text \<open>Inside a transaction a record that fits is stored when its key is new, and reported when it is not.\<close>

lemma save_state_inside:
  assumes "fits s" and "in_open t db"
  obtains b db' where "save_state s db = (Inr b, db')" and "b \<longleftrightarrow> storage_key s \<notin> used_keys (sdb_tables db)"
    and "in_open t db'"
    and "used_keys (sdb_tables db') = insert (storage_key s) (used_keys (sdb_tables db))"
    and "stt_transitions (sdb_tables db') = stt_transitions (sdb_tables db)"
    and "stt_markers (sdb_tables db') = stt_markers (sdb_tables db)"
proof -
  from fits_row [OF assms(1)] obtain r where r: "state_to_row s = Inr r"
    "int64_error [sr_version r, sr_sync_version r] = None" "state_row_key r = storage_key s" by blast
  show thesis
    using assms(2) r(2,3) by (intro that [of "storage_key s \<notin> used_keys (sdb_tables db)" "snd (save_state s db)"])
      (auto simp: save_state_storable [OF r(1)] true_unless_integrity_error_def in_own_block_def execute_db_def insert_state_row_def
        used_keys_def begin_db_def committed_def in_open_def)
qed

lemma persist_states_inside:
  assumes "\<forall>s \<in> set ss. fits s" and "distinct (map storage_key ss)"
    and "set (map storage_key ss) \<inter> used_keys (sdb_tables db) = {}" and "in_open t db"
  shows "\<exists>bs db'. eachP persist_state_idempotent ss db = (Inr bs, db') \<and> in_open t db' \<and>
    stt_transitions (sdb_tables db') = stt_transitions (sdb_tables db) \<and> stt_markers (sdb_tables db') = stt_markers (sdb_tables db)"
  using assms
proof (induction ss arbitrary: db)
  case (Cons s ss)
  from Cons.prems(1) have "fits s" by simp
  from save_state_inside [OF this Cons.prems(4)] obtain b db1 where save: "save_state s db = (Inr b, db1)"
    and b: "b \<longleftrightarrow> storage_key s \<notin> used_keys (sdb_tables db)" and open1: "in_open t db1"
    and keys: "used_keys (sdb_tables db1) = insert (storage_key s) (used_keys (sdb_tables db))"
    and same: "stt_transitions (sdb_tables db1) = stt_transitions (sdb_tables db)" "stt_markers (sdb_tables db1) = stt_markers (sdb_tables db)" .
  from b Cons.prems(3) have b by simp
  with save have one: "persist_state_idempotent s db = (Inr True, db1)" by (simp add: persist_state_idempotent_def returnP_def)
  have "set (map storage_key ss) \<inter> used_keys (sdb_tables db1) = {}" using Cons.prems(2,3) keys by auto
  with Cons.IH [OF _ _ this open1] Cons.prems(1,2) same one show ?case by (auto simp: bindP_apply returnP_def)
qed (simp add: returnP_def)

text \<open>An intent is stored when the record before it fits, its transition is well formed and the id is new.\<close>

definition intent_fits :: "string \<Rightarrow> transition_intent \<Rightarrow> datetime \<Rightarrow> bool" where
  "intent_fits rid i now \<longleftrightarrow> fits (ti_before i) \<and> is_ok (turn_transition rid i now)"

definition transition_id_of :: "transition_intent \<Rightarrow> string" where
  "transition_id_of i = ''transition:'' @ rs_state_id (ti_proposed_after i)"

lemma persist_intent_inside:
  assumes "intent_fits rid i now" and "in_open t db" and "transition_id_of i \<notin> used_transitions (sdb_tables db)"
  shows "\<exists>db'. persist_turn_intent rid i now db = (Inr (), db') \<and> in_open t db' \<and>
    used_transitions (sdb_tables db') = insert (transition_id_of i) (used_transitions (sdb_tables db)) \<and>
    stt_markers (sdb_tables db') = stt_markers (sdb_tables db)"
proof -
  from assms(1) obtain x where x: "turn_transition rid i now = Inr x" and before: "fits (ti_before i)"
    by (auto simp: intent_fits_def isl_def split: sum.splits) (metis sum.exhaust)
  then have id: "tr_transition_id x = transition_id_of i" and version: "sf_version (tr_sync x) = 1"
    by (auto simp: turn_transition_def mk_state_transition_def guarded_Inr_iff Let_def transition_id_of_def mk_sync_def)
  from save_state_inside [OF before assms(2)] obtain b db1 where save: "save_state (ti_before i) db = (Inr b, db1)"
    and open1: "in_open t db1" and same: "stt_transitions (sdb_tables db1) = stt_transitions (sdb_tables db)"
      "stt_markers (sdb_tables db1) = stt_markers (sdb_tables db)" .
  have "save_transition x db1 = (Inr True, (begin_db db1)\<lparr>sdb_tables := (sdb_tables db1)\<lparr>stt_transitions :=
      stt_transitions (sdb_tables db1) @ [state_transition_to_row x]\<rparr>\<rparr>)"
    using open1 assms(3) same(1)
    by (simp add: save_transition_def true_unless_integrity_error_def in_own_block_def execute_db_def insert_transition_row_def
        in_open_def used_transitions_def state_transition_to_row_def id version int64_error_def)
  with save x open1 same show ?thesis
    by (simp add: persist_turn_intent_def persist_transition_idempotent_def bindP_apply liftP_def returnP_def in_open_def
        begin_db_def committed_def used_transitions_def state_transition_to_row_def id)
qed

lemma persist_intents_inside:
  assumes "\<forall>(i, x) \<in> set xs. intent_fits rid x (clock i)" and "distinct (map (transition_id_of \<circ> snd) xs)"
    and "set (map (transition_id_of \<circ> snd) xs) \<inter> used_transitions (sdb_tables db) = {}" and "in_open t db"
  shows "\<exists>us db'. eachP (\<lambda>(i, x). persist_turn_intent rid x (clock i)) xs db = (Inr us, db') \<and> in_open t db' \<and>
    stt_markers (sdb_tables db') = stt_markers (sdb_tables db)"
  using assms
proof (induction xs arbitrary: db)
  case (Cons y xs)
  obtain i x where y: "y = (i, x)" by (cases y)
  from Cons.prems(1,3) have "intent_fits rid x (clock i)" "transition_id_of x \<notin> used_transitions (sdb_tables db)" by (auto simp: y)
  from persist_intent_inside [OF this(1) Cons.prems(4) this(2)] obtain db1 where
    one: "persist_turn_intent rid x (clock i) db = (Inr (), db1)" and open1: "in_open t db1"
    and used: "used_transitions (sdb_tables db1) = insert (transition_id_of x) (used_transitions (sdb_tables db))"
    and same: "stt_markers (sdb_tables db1) = stt_markers (sdb_tables db)" by auto
  have "set (map (transition_id_of \<circ> snd) xs) \<inter> used_transitions (sdb_tables db1) = {}"
    using Cons.prems(2,3) used by (auto simp: y)
  with Cons.IH [OF _ _ this open1] Cons.prems(1,2) same one show ?case by (auto simp: bindP_apply returnP_def y)
qed (simp add: returnP_def)

lemma record_marker_inside:
  assumes "in_open t db" and "\<not> has_commit (tu_interaction_id turn) (tu_scope turn) db"
  shows "\<exists>db'. record_marker turn states now db = (Inr (), db') \<and> in_open t db'"
  using assms
  by (simp add: record_marker_def record_commit_def true_unless_integrity_error_def execute_db_def insert_marker_def
      has_commit_def marker_key_def marker_columns_def bindP_apply returnP_def in_open_def begin_db_def committed_def)

section \<open>A fresh projection commits\<close>

text \<open>New records: they fit, their keys and the ids of the transitions are new and differ.\<close>

definition new_records :: "string \<Rightarrow> turn_projection \<Rightarrow> (nat \<Rightarrow> datetime) \<Rightarrow> state_tables \<Rightarrow> bool" where
  "new_records rid p clock t \<longleftrightarrow>
     (let ss = pm_projected_states (tp_projected_mind_state p); xs = enumerate 0 (tp_transition_intents p) in
      (\<forall>s \<in> set ss. fits s) \<and> distinct (map storage_key ss) \<and> set (map storage_key ss) \<inter> used_keys t = {} \<and>
      (\<forall>(i, x) \<in> set xs. intent_fits rid x (clock i)) \<and> distinct (map (transition_id_of \<circ> snd) xs) \<and>
      set (map (transition_id_of \<circ> snd) xs) \<inter> used_transitions t = {})"

lemma store_turn_succeeds:
  assumes "new_records (or_runtime_id oc) p clock (sdb_tables db)" and "in_open t db"
    and "\<not> has_commit (tu_interaction_id turn) (tu_scope turn) db"
  shows "\<exists>db'. store_turn fl digest oc turn p None False [] [] clock slow_clock db = (Inr (or_writer oc), db')"
proof -
  let ?ss = "pm_projected_states (tp_projected_mind_state p)" and ?xs = "enumerate 0 (tp_transition_intents p)"
  note new = assms(1) [unfolded new_records_def Let_def]
  from new have s: "\<forall>s \<in> set ?ss. fits s" "distinct (map storage_key ?ss)" "set (map storage_key ?ss) \<inter> used_keys (sdb_tables db) = {}"
    and x: "\<forall>(i, x) \<in> set ?xs. intent_fits (or_runtime_id oc) x (clock i)" "distinct (map (transition_id_of \<circ> snd) ?xs)"
      "set (map (transition_id_of \<circ> snd) ?xs) \<inter> used_transitions (sdb_tables db) = {}" by blast+
  from persist_states_inside [OF s assms(2)] obtain bs db1 where 1: "eachP persist_state_idempotent ?ss db = (Inr bs, db1)"
    and o1: "in_open t db1" and t1: "stt_transitions (sdb_tables db1) = stt_transitions (sdb_tables db)"
    and m1: "stt_markers (sdb_tables db1) = stt_markers (sdb_tables db)" by auto
  from persist_intents_inside [OF x(1,2) _ o1] x(3) t1 obtain us db2 where
    2: "eachP (\<lambda>(i, x). persist_turn_intent (or_runtime_id oc) x (clock i)) ?xs db1 = (Inr us, db2)"
    and o2: "in_open t db2" and m2: "stt_markers (sdb_tables db2) = stt_markers (sdb_tables db1)"
    by (auto simp: used_transitions_def)
  have "\<not> has_commit (tu_interaction_id turn) (tu_scope turn) db2" using assms(3) m1 m2 by (simp add: has_commit_def)
  from record_marker_inside [OF o2 this, of ?ss "clock (length (tp_transition_intents p))"] obtain db3 where
    3: "record_marker turn ?ss (clock (length (tp_transition_intents p))) db2 = (Inr (), db3)" by auto
  show ?thesis using 1 2 3
    by (cases "or_writer oc") (simp_all add: store_turn_def store_slow_def Let_def bindP_apply returnP_def)
qed

lemma admit_turn_succeeds:
  assumes "new_records (or_runtime_id oc) p clock (sdb_tables (or_db oc))" and "idle (or_db oc)" and "tu_slow_decisions turn = []"
    and "\<not> tu_appraised turn" and "\<not> has_commit (tu_interaction_id turn) (tu_scope turn) (or_db oc)"
  shows "\<exists>db'. admit_turn fl digest receipts turn p clock slow_clock oc = (Inr [], oc\<lparr>or_db := db'\<rparr>)"
proof -
  let ?db = "begin_db ((or_db oc)\<lparr>sdb_in_transaction := True\<rparr>)"
  have slow: "slow_scope_of turn oc = None" using assms(3) by (simp add: slow_scope_of_def slow_part_def)
  have stage: "stage_slow fl turn slow_clock oc = (Inr ([], []), oc)"
    using assms(3) by (simp add: stage_slow_def split: option.splits)
  have "in_open (sdb_tables (or_db oc)) ?db" using assms(2) by (simp add: in_open_def idle_def begin_db_def committed_def)
  from store_turn_succeeds [OF _ this, of oc p clock turn fl digest slow_clock] assms(1,5) obtain db' where
    "store_turn fl digest oc turn p None False [] [] clock slow_clock ?db = (Inr (or_writer oc), db')"
    by (auto simp: has_commit_def)
  with assms(2,4) stage slow show ?thesis
    by (auto simp: admit_turn_def prepare_appraisal_receipts_def bindP_apply thenP_def liftP_def readP_def on_db_def writeP_def
        returnP_def transaction_def idle_def)
qed

text \<open>
  C8. A fresh projection commits. A turn without slow decisions and without accepted appraisals, whose
  projection was computed on the canonical version in memory, whose interaction has no marker yet, whose
  checkpoint can be written and whose records and transitions are new and can be stored is committed, whatever
  the clocks say and however many states and intents it has. The call returns when the publication in memory
  succeeds, and the canonical states are then the old ones with the projected ones published over them; when
  the publication fails it raises \<^verbatim>\<open>PostCommitPublicationError\<close>, on a committed turn.
\<close>

theorem fresh_projection_commits:
  assumes "or_turn oc = Some turn" and "tu_projection turn = Some p" and "tu_slow_decisions turn = []" and "\<not> tu_appraised turn"
    and "idle (or_db oc)" and "canonical_version oc = or_base_state_version oc"
    and "is_ok (fst (checkpoint turn Awaiting_Commit (tu_action_receipt turn) (clock 0) oc))"
    and "\<not> has_commit (tu_interaction_id turn) (tu_scope turn) (or_db oc)"
    and "new_records (or_runtime_id oc) p (\<lambda>i. clock (i + 1)) (sdb_tables (or_db oc))"
  shows "\<exists>r oc'. commit_turn fl digest receipts fault clock slow_clock oc = (r, oc') \<and> or_state oc' = Turn_Committed \<and>
    (case fault of
       None \<Rightarrow> r = Inr () \<and> or_canonical oc' =
         foldl (\<lambda>d s. publish_state s d) (or_canonical oc) (pm_projected_states (tp_projected_mind_state p))
     | Some f \<Rightarrow> \<exists>b. r = Inl (PostCommitPublicationError b))"
proof -
  obtain r oc1 where cp: "checkpoint turn Awaiting_Commit (tu_action_receipt turn) (clock 0) oc = (Inr r, oc1)"
    using assms(7) by (cases "checkpoint turn Awaiting_Commit (tu_action_receipt turn) (clock 0) oc"; cases "fst (checkpoint turn Awaiting_Commit (tu_action_receipt turn) (clock 0) oc)") auto
  from checkpoint_keeps [OF cp] obtain c where oc1: "oc1 = oc\<lparr>or_checkpoints := c\<rparr>" ..
  have "new_records (or_runtime_id oc1) p (\<lambda>i. clock (i + 1)) (sdb_tables (or_db oc1))" "idle (or_db oc1)"
    "\<not> has_commit (tu_interaction_id turn) (tu_scope turn) (or_db oc1)" using assms by (simp_all add: oc1)
  from admit_turn_succeeds [where receipts = receipts, OF this(1,2) assms(3,4) this(3)] obtain db' where
    ad: "admit_turn fl digest receipts turn p (\<lambda>i. clock (i + 1)) slow_clock oc1 = (Inr [], oc1\<lparr>or_db := db'\<rparr>)" by blast
  let ?ss = "pm_projected_states (tp_projected_mind_state p)" and ?oc = "oc1\<lparr>or_db := db'\<rparr>"
  obtain r' oc' where pub: "publish_turn fault turn ?ss [] ?oc = (r', oc')" by (cases "publish_turn fault turn ?ss [] ?oc")
  have "commit_turn fl digest receipts fault clock slow_clock oc = (r', oc')"
    using assms(1,2,6,8) cp ad pub
    by (simp add: commit_turn_def bindP_apply thenP_def readP_def require_turn_def is_replay_def oc1)
  moreover have "or_canonical (publish_committed_states ?ss [] ?oc) = foldl (\<lambda>d s. publish_state s d) (or_canonical oc) ?ss"
    by (simp add: publish_committed_states_def Let_def oc1 split: option.split)
  ultimately show ?thesis
    using publish_turn_outcomes [OF pub] by (auto split: option.splits)
qed

theorem fresh_projection_commits_witness:
  "fst (plain_commit (in_mood_turn [''u1''] ''u1'' ''i1'')) = Inr () \<and>
   or_canonical (snd (plain_commit (in_mood_turn [''u1''] ''u1'' ''i1''))) = [(''user.mood:4'', glad_mood ''u1'')]"
proof -
  let ?oc = "in_mood_turn [''u1''] ''u1'' ''i1''" and ?turn = "mood_turn ''u1'' ''i1''" and ?p = "mood_projection ''u1'' ''i1''"
  have turn: "or_turn ?oc = Some ?turn" "tu_projection ?turn = Some ?p" "tu_slow_decisions ?turn = []" "\<not> tu_appraised ?turn"
    by (simp_all add: in_mood_turn_def mood_turn_def)
  have facts: "idle (or_db ?oc)" "canonical_version ?oc = or_base_state_version ?oc"
    "is_ok (fst (checkpoint ?turn Awaiting_Commit (tu_action_receipt ?turn) (utc (200 + int 0)) ?oc))"
    "\<not> has_commit (tu_interaction_id ?turn) (tu_scope ?turn) (or_db ?oc)"
    "new_records (or_runtime_id ?oc) ?p (\<lambda>i. utc (200 + int (i + 1))) (sdb_tables (or_db ?oc))"
    by code_simp+
  have canonical: "foldl (\<lambda>d s. publish_state s d) (or_canonical ?oc) (pm_projected_states (tp_projected_mind_state ?p)) =
      [(''user.mood:4'', glad_mood ''u1'')]" by code_simp
  show ?thesis
    using fresh_projection_commits [where clock = "\<lambda>i. utc (200 + int i)", OF turn facts, of exact_arith "\<lambda>_. ''digest''" "\<lambda>_. Inr []" None "\<lambda>i. utc 300"]
    unfolding plain_commit_def canonical by auto
qed

section \<open>What a restart finds\<close>

text \<open>
  Where the records of a file have distinct ids, and no two of a scope and dimension the same version, the
  canonical states are the records no other one of their scope and dimension is newer than.
\<close>

definition newest :: "runtime_state list \<Rightarrow> runtime_state set" where
  "newest ss = {s \<in> set ss. \<forall>t \<in> set ss. state_key_of t = state_key_of s \<longrightarrow> rs_version t \<le> rs_version s}"

definition well_kept :: "runtime_state list \<Rightarrow> bool" where
  "well_kept ss \<longleftrightarrow> distinct (map rs_state_id ss) \<and> distinct (map (\<lambda>s. (state_key_of s, rs_version s)) ss)"

definition newer_first :: "(state_key \<times> runtime_state) list \<Rightarrow> runtime_state \<Rightarrow> (state_key \<times> runtime_state) list" where
  "newer_first by_key s = (case map_of by_key (state_key_of s) of
       None \<Rightarrow> AList.update (state_key_of s) s by_key
     | Some c \<Rightarrow> if rs_version s > rs_version c then AList.update (state_key_of s) s by_key else by_key)"

lemma current_states_alt: "current_states ss = map snd (foldl newer_first [] ss)"
  by (simp add: current_states_def newer_first_def [abs_def])

definition best_at :: "runtime_state list \<Rightarrow> state_key \<Rightarrow> runtime_state option \<Rightarrow> bool" where
  "best_at ss k v \<longleftrightarrow> (case v of None \<Rightarrow> \<forall>t \<in> set ss. state_key_of t \<noteq> k
     | Some c \<Rightarrow> c \<in> set ss \<and> state_key_of c = k \<and> (\<forall>t \<in> set ss. state_key_of t = k \<longrightarrow> rs_version t \<le> rs_version c))"

definition best_of :: "runtime_state list \<Rightarrow> (state_key \<times> runtime_state) list \<Rightarrow> bool" where
  "best_of ss d \<longleftrightarrow> distinct (map fst d) \<and> (\<forall>k. best_at ss k (map_of d k))"

lemma best_of_iff: "best_of ss d \<Longrightarrow> distinct (map fst d)" "best_of ss d \<Longrightarrow> best_at ss k (map_of d k)"
  "distinct (map fst d) \<Longrightarrow> (\<And>k. best_at ss k (map_of d k)) \<Longrightarrow> best_of ss d"
  by (simp_all add: best_of_def del: split_paired_All)

lemma best_of_newer_first: "best_of ss d \<Longrightarrow> best_of (ss @ [s]) (newer_first d s)"
proof (rule best_of_iff(3))
  assume b: "best_of ss d"
  show "distinct (map fst (newer_first d s))"
    using best_of_iff(1) [OF b] by (simp add: newer_first_def distinct_update split: option.splits)
  fix k
  show "best_at (ss @ [s]) k (map_of (newer_first d s) k)"
  proof (cases "k = state_key_of s")
    case True
    with best_of_iff(2) [OF b, of k] show ?thesis by (cases "map_of d k") (auto simp: newer_first_def best_at_def)
  next
    case False
    then have "map_of (newer_first d s) k = map_of d k" by (simp add: newer_first_def split: option.splits)
    with best_of_iff(2) [OF b, of k] False show ?thesis by (cases "map_of d k") (auto simp: best_at_def)
  qed
qed

lemma best_of_current: "best_of ss (foldl newer_first [] ss)"
proof (induction ss rule: rev_induct)
  case Nil
  show ?case by (rule best_of_iff) (simp_all add: best_at_def)
next
  case (snoc s ss)
  then show ?case by (simp add: best_of_newer_first)
qed

lemma well_kept_unique:
  "well_kept ss \<Longrightarrow> s \<in> set ss \<Longrightarrow> t \<in> set ss \<Longrightarrow> rs_state_id s = rs_state_id t \<Longrightarrow> s = t"
  "well_kept ss \<Longrightarrow> s \<in> set ss \<Longrightarrow> t \<in> set ss \<Longrightarrow> state_key_of s = state_key_of t \<Longrightarrow> rs_version s = rs_version t \<Longrightarrow> s = t"
  by (auto simp: well_kept_def distinct_map dest: inj_onD)

lemma current_states_newest:
  assumes "well_kept ss"
  shows "set (current_states ss) = newest ss" and "distinct (map rs_state_id (current_states ss))"
proof -
  let ?d = "foldl newer_first [] ss"
  note dist = best_of_iff(1) [OF best_of_current [of ss]] and at = best_of_iff(2) [OF best_of_current [of ss]]
  have best: "map_of ?d k = Some c \<Longrightarrow> c \<in> set ss \<and> state_key_of c = k \<and> (\<forall>t \<in> set ss. state_key_of t = k \<longrightarrow> rs_version t \<le> rs_version c)"
    and none: "map_of ?d k = None \<Longrightarrow> \<forall>t \<in> set ss. state_key_of t \<noteq> k" for k c
    using at [of k] by (simp_all add: best_at_def)
  have pairs: "(k, c) \<in> set ?d \<longleftrightarrow> map_of ?d k = Some c" for k c using dist by (simp add: map_of_eq_Some_iff)
  have sub: "c \<in> snd ` set ?d \<Longrightarrow> c \<in> newest ss" for c using best by (fastforce simp: newest_def pairs)
  have sup: "c \<in> newest ss \<Longrightarrow> c \<in> snd ` set ?d" for c
  proof -
    assume c: "c \<in> newest ss"
    then have "map_of ?d (state_key_of c) \<noteq> None" using none by (auto simp: newest_def)
    then obtain c' where c': "map_of ?d (state_key_of c) = Some c'" by auto
    from best [OF c'] c have "state_key_of c' = state_key_of c" "rs_version c' = rs_version c" "c' \<in> set ss" "c \<in> set ss"
      by (auto simp: newest_def intro: antisym)
    then have "c' = c" by (intro well_kept_unique(2) [OF assms]) auto
    with c' pairs show ?thesis by force
  qed
  show "set (current_states ss) = newest ss" using sub sup by (auto simp: current_states_alt)
  have "inj_on (\<lambda>x. rs_state_id (snd x)) (set ?d)"
  proof (rule inj_onI)
    fix x y assume xy: "x \<in> set ?d" "y \<in> set ?d" "rs_state_id (snd x) = rs_state_id (snd y)"
    with pairs have m: "map_of ?d (fst x) = Some (snd x)" "map_of ?d (fst y) = Some (snd y)" by (auto simp: pairs [symmetric])
    from best [OF m(1)] best [OF m(2)] well_kept_unique(1) [OF assms _ _ xy(3)] show "x = y" by (auto simp: prod_eq_iff)
  qed
  moreover have "distinct ?d" using dist by (simp add: distinct_map)
  ultimately show "distinct (map rs_state_id (current_states ss))" by (simp add: current_states_alt distinct_map comp_def)
qed

text \<open>The dict of the canonical states files every record under its id.\<close>

definition filed :: "(string \<times> runtime_state) list \<Rightarrow> bool" where
  "filed d \<longleftrightarrow> distinct (map fst d) \<and> (\<forall>x \<in> set d. fst x = rs_state_id (snd x))"

definition records :: "(string \<times> runtime_state) list \<Rightarrow> runtime_state set" where
  "records d = snd ` set d"

lemma filed_lookup: "filed d \<Longrightarrow> map_of d i = Some s \<longleftrightarrow> s \<in> records d \<and> rs_state_id s = i"
  by (auto simp: filed_def records_def map_of_eq_Some_iff image_iff) force+

lemma filed_ext: "filed d \<Longrightarrow> filed e \<Longrightarrow> records d = records e \<Longrightarrow> map_of d = map_of e"
proof (rule ext)
  fix i
  assume "filed d" "filed e" "records d = records e"
  then have "map_of d i = Some s \<longleftrightarrow> map_of e i = Some s" for s by (simp add: filed_lookup)
  then show "map_of d i = map_of e i" by (metis option.exhaust)
qed

lemma filed_records: "filed d \<Longrightarrow> filed e \<Longrightarrow> map_of d = map_of e \<Longrightarrow> records d = records e"
  using filed_lookup [of d "rs_state_id s" s for s] filed_lookup [of e "rs_state_id s" s for s] by (intro set_eqI) simp

lemma filed_filter: "filed d \<Longrightarrow> filed (filter P d)"
  by (auto simp: filed_def distinct_map inj_on_def)

lemma update_set: "distinct (map fst d) \<Longrightarrow> set (AList.update k v d) = insert (k, v) {x \<in> set d. fst x \<noteq> k}"
proof -
  assume d: "distinct (map fst d)"
  then have "distinct (map fst (AList.update k v d))" by (rule distinct_update)
  then have "x \<in> set (AList.update k v d) \<longleftrightarrow> map_of (AList.update k v d) (fst x) = Some (snd x)" for x
    by (metis map_of_eq_Some_iff prod.collapse)
  moreover have "x \<in> set d \<longleftrightarrow> map_of d (fst x) = Some (snd x)" for x
    using d by (metis map_of_eq_Some_iff prod.collapse)
  ultimately show ?thesis by (intro set_eqI) (simp add: prod_eq_iff, auto)
qed

lemma filed_update:
  assumes "filed d"
  shows "filed (AList.update (rs_state_id s) s d)"
    and "records (AList.update (rs_state_id s) s d) = insert s {c \<in> records d. rs_state_id c \<noteq> rs_state_id s}"
proof -
  let ?i = "rs_state_id s"
  from assms have d: "distinct (map fst d)" and ids: "x \<in> set d \<Longrightarrow> fst x = rs_state_id (snd x)" for x by (auto simp: filed_def)
  note u = update_set [OF d, of ?i s]
  have "fst x = rs_state_id (snd x)" if "x \<in> set (AList.update ?i s d)" for x using that ids by (auto simp: u)
  then show "filed (AList.update ?i s d)" using distinct_update [OF d] by (simp add: filed_def)
  have "snd ` {x \<in> set d. fst x \<noteq> ?i} = {c \<in> snd ` set d. rs_state_id c \<noteq> ?i}" using ids by force
  then show "records (AList.update ?i s d) = insert s {c \<in> records d. rs_state_id c \<noteq> ?i}" by (simp add: records_def u)
qed

lemma filed_updates:
  "filed d \<Longrightarrow> distinct (map rs_state_id ss) \<Longrightarrow> (\<forall>c \<in> records d. rs_state_id c \<notin> rs_state_id ` set ss) \<Longrightarrow>
    filed (foldl (\<lambda>d s. AList.update (rs_state_id s) s d) d ss) \<and>
    records (foldl (\<lambda>d s. AList.update (rs_state_id s) s d) d ss) = records d \<union> set ss"
proof (induction ss arbitrary: d)
  case (Cons s ss)
  note u = filed_update [OF Cons.prems(1), of s]
  have "records (AList.update (rs_state_id s) s d) = insert s (records d)" using u(2) Cons.prems(3) by auto
  with Cons.IH [OF u(1)] Cons.prems(2,3) show ?case by auto
qed simp

lemma filed_Nil: "filed []" "records [] = {}"
  by (simp_all add: filed_def records_def)

lemma canonical_of_newest:
  assumes "well_kept ss"
  shows "filed (canonical_of ss)" and "records (canonical_of ss) = newest ss"
  using filed_updates [OF filed_Nil(1) current_states_newest(2) [OF assms]] current_states_newest(1) [OF assms]
  by (simp_all add: canonical_of_def filed_Nil(2))

lemma published:
  assumes "filed d" and "rs_state_id s \<notin> rs_state_id ` records d"
  shows "filed (publish_state s d) \<and> records (publish_state s d) = insert s {c \<in> records d. state_key_of c \<noteq> state_key_of s}"
proof -
  let ?f = "filter (\<lambda>(i, c). state_key_of c \<noteq> state_key_of s) d"
  have f: "filed ?f" "records ?f = {c \<in> records d. state_key_of c \<noteq> state_key_of s}"
    using filed_filter [OF assms(1)] by (auto simp: records_def image_iff)
  from assms(2) have "{c \<in> records ?f. rs_state_id c \<noteq> rs_state_id s} = {c \<in> records d. state_key_of c \<noteq> state_key_of s}"
    unfolding f(2) by (auto simp: image_iff)
  with filed_update [OF f(1), of s] show ?thesis unfolding publish_state_def by simp
qed

lemma published_all:
  "filed d \<Longrightarrow> distinct (map rs_state_id ss) \<Longrightarrow> distinct (map state_key_of ss) \<Longrightarrow>
    (\<forall>c \<in> records d. rs_state_id c \<notin> rs_state_id ` set ss) \<Longrightarrow>
    filed (foldl (\<lambda>d s. publish_state s d) d ss) \<and>
    records (foldl (\<lambda>d s. publish_state s d) d ss) = {c \<in> records d. state_key_of c \<notin> state_key_of ` set ss} \<union> set ss"
proof (induction ss arbitrary: d)
  case (Cons s ss)
  from Cons.prems(4) have "rs_state_id s \<notin> rs_state_id ` records d" by auto
  note p = published [OF Cons.prems(1) this]
  have "\<forall>c \<in> records (publish_state s d). rs_state_id c \<notin> rs_state_id ` set ss"
    using p Cons.prems(2,4) by auto
  with Cons.IH [OF _ _ _ this] p Cons.prems(2,3)
  have "filed (foldl (\<lambda>d s. publish_state s d) (publish_state s d) ss) \<and>
    records (foldl (\<lambda>d s. publish_state s d) (publish_state s d) ss) =
      {c \<in> records (publish_state s d). state_key_of c \<notin> state_key_of ` set ss} \<union> set ss" by simp
  with p Cons.prems(3) show ?case by auto
qed simp

text \<open>The rows a commit appends.\<close>

lemma load_appends:
  "list_all2 (\<lambda>r s. state_from_row r = Inr s) rs new \<Longrightarrow> load_states db = Inr ss \<Longrightarrow>
    stt_states (sdb_tables db') = stt_states (sdb_tables db) @ rs \<Longrightarrow>
    \<exists>ss'. load_states db' = Inr ss' \<and> mset ss' = mset ss + mset new"
proof (induction arbitrary: db ss rule: list_all2_induct)
  case Nil
  then show ?case by (simp add: load_states_def)
next
  case (Cons r rs s new)
  let ?db = "db\<lparr>sdb_tables := (sdb_tables db)\<lparr>stt_states := stt_states (sdb_tables db) @ [r]\<rparr>\<rparr>"
  obtain ss1 where "load_states ?db = Inr ss1" "mset ss1 = add_mset s (mset ss)"
    by (rule load_states_append [OF Cons.prems(1) Cons.hyps(1), of ?db]) simp_all
  with Cons.IH [of ?db ss1] Cons.prems(2) show ?case by auto
qed

lemma save_state_rows:
  assumes "save_state s db = (Inr b, db')" and "in_open t db"
  shows "if b then \<exists>r. state_to_row s = Inr r \<and> stt_states (sdb_tables db') = stt_states (sdb_tables db) @ [r] \<and>
      storage_key s \<notin> used_keys (sdb_tables db)
    else sdb_tables db' = sdb_tables db"
proof (cases b)
  case True
  with assms have "insert_state s db = (Inr (), db')" by (simp add: save_state_def integrity_True in_own_block_def in_open_def)
  then obtain r where r: "state_to_row s = Inr r" and x: "execute_db (insert_state_row r) db = (Inr (), db')"
    unfolding insert_state_def by (elim bindP_Inr_E) (auto simp: liftP_def)
  from execute_db_Inr [OF x] have "sdb_tables db' = sdb_tables db\<lparr>stt_states := stt_states (sdb_tables db) @ [r]\<rparr> \<and>
      state_row_key r \<notin> used_keys (sdb_tables db)"
    by (simp add: insert_state_row_def used_keys_def split: option.splits if_splits)
  with True r state_to_row_scope [OF r] show ?thesis by (simp add: state_row_key_def storage_key_def)
next
  case False
  with assms obtain msg where "insert_state s db = (Inl (IntegrityError msg), db')"
    using integrity_False [of "in_own_block (insert_state s)" db db'] by (auto simp: save_state_def in_own_block_def in_open_def)
  then show ?thesis using False
    by (auto simp: insert_state_def bindP_apply liftP_def execute_db_def begin_db_def split: sum.splits)
qed

lemma persist_state_rows:
  assumes "persist_state_idempotent s db = (Inr b, db')" and "in_open t db"
    and "rs_state_id s \<notin> sr_state_id ` set (stt_states (sdb_tables db))"
  shows "\<exists>r. state_to_row s = Inr r \<and> stt_states (sdb_tables db') = stt_states (sdb_tables db) @ [r]"
proof -
  from assms(1) obtain inserted db1 where save: "save_state s db = (Inr inserted, db1)"
    and rest: "(if inserted then returnP True
     else bindP (readP load_states) (\<lambda>states. case find (\<lambda>e. rs_state_id e = rs_state_id s) states of
       Some e \<Rightarrow> if canonical_state_rows_equal e s then returnP False else raiseP CanonicalPersistenceError
     | None \<Rightarrow> raiseP CanonicalPersistenceError)) db1 = (Inr b, db')"
    unfolding persist_state_idempotent_def by (elim bindP_Inr_E)
  note rows = save_state_rows [OF save assms(2)]
  show ?thesis
  proof (cases inserted)
    case True
    with rows rest show ?thesis by (auto simp: returnP_def)
  next
    case False
    with rest obtain ss where ss: "load_states db1 = Inr ss" and f: "(case find (\<lambda>e. rs_state_id e = rs_state_id s) ss of
       Some e \<Rightarrow> if canonical_state_rows_equal e s then returnP False else raiseP CanonicalPersistenceError
     | None \<Rightarrow> raiseP CanonicalPersistenceError) db1 = (Inr b, db')"
      by (auto simp: readP_def elim!: bindP_Inr_E)
    then obtain e where "find (\<lambda>e. rs_state_id e = rs_state_id s) ss = Some e" by (auto simp: raiseP_def split: option.splits)
    then have e: "e \<in> set ss" "rs_state_id e = rs_state_id s" by (auto dest: find_SomeD)
    from loaded_state [OF ss e(1)] obtain r where "r \<in> set (stt_states (sdb_tables db1))" "state_from_row r = Inr e" by auto
    with state_from_row_Inr [of r e] e(2) rows False assms(3) show ?thesis by force
  qed
qed

lemma in_tx_open: "in_tx t u db \<Longrightarrow> in_open t db"
  by (simp add: in_tx_def)

lemma persist_states_rows:
  "eachP persist_state_idempotent ss db = (Inr bs, db') \<Longrightarrow> in_tx t u db \<Longrightarrow> distinct (map rs_state_id ss) \<Longrightarrow>
    rs_state_id ` set ss \<inter> sr_state_id ` set (stt_states (sdb_tables db)) = {} \<Longrightarrow>
    \<exists>rs. list_all2 (\<lambda>r s. state_to_row s = Inr r) rs ss \<and> stt_states (sdb_tables db') = stt_states (sdb_tables db) @ rs"
proof (induction ss arbitrary: db bs)
  case (Cons s ss)
  from Cons.prems(1) obtain b db1 cs where one: "persist_state_idempotent s db = (Inr b, db1)"
    and rest: "eachP persist_state_idempotent ss db1 = (Inr cs, db')" by (auto simp: returnP_def elim!: bindP_Inr_E)
  from persist_state_rows [OF one in_tx_open [OF Cons.prems(2)]] Cons.prems(4) obtain r where r: "state_to_row s = Inr r"
    "stt_states (sdb_tables db1) = stt_states (sdb_tables db) @ [r]" by auto
  have open1: "in_tx t u db1" by (rule preservesD' [OF in_tx_persist(1) Cons.prems(2) one])
  have "rs_state_id ` set ss \<inter> sr_state_id ` set (stt_states (sdb_tables db1)) = {}"
    using Cons.prems(3,4) r state_to_row_scope [OF r(1)] by auto
  from Cons.IH [OF rest open1 _ this] Cons.prems(3) obtain rs where
    "list_all2 (\<lambda>r s. state_to_row s = Inr r) rs ss" "stt_states (sdb_tables db') = stt_states (sdb_tables db1) @ rs" by auto
  with r show ?case by (intro exI [of _ "r # rs"]) simp
qed (simp add: returnP_def)

definition keeps_states :: "(state_db, 'a) prog \<Rightarrow> bool" where
  "keeps_states m \<longleftrightarrow> (\<forall>rows. preserves (\<lambda>db. stt_states (sdb_tables db) = rows \<and> sdb_in_transaction db) m)"

lemma keeps_statesD:
  "keeps_states m \<Longrightarrow> m db = (r, db') \<Longrightarrow> sdb_in_transaction db \<Longrightarrow> stt_states (sdb_tables db') = stt_states (sdb_tables db) \<and> sdb_in_transaction db'"
  using preservesD' [of "\<lambda>d. stt_states (sdb_tables d) = stt_states (sdb_tables db) \<and> sdb_in_transaction d" m db r db']
  by (simp add: keeps_states_def)

lemma keeps_transition: "keeps_states (persist_transition_idempotent x)"
proof -
  have "preserves (\<lambda>db. stt_states (sdb_tables db) = rows \<and> sdb_in_transaction db) (save_transition x)" for rows
    by (rule preservesI) (auto simp: save_transition_def true_unless_integrity_error_def in_own_block_def execute_db_def begin_db_def
        insert_transition_row_def split: sum.splits py_error.splits option.splits if_splits)
  moreover have "preserves (\<lambda>db. stt_states (sdb_tables db) = rows \<and> sdb_in_transaction db) (readP f)" for rows and f :: "state_db \<Rightarrow> 'b result"
    by (rule preservesI) (simp add: readP_def)
  ultimately show ?thesis unfolding keeps_states_def persist_transition_idempotent_def by (intro allI preserve_rules)
qed

lemma persist_intents_rows:
  "eachP (\<lambda>(i, x). persist_turn_intent rid x (clock i)) xs db = (Inr us, db') \<Longrightarrow> in_tx t v db \<Longrightarrow>
    storage_key ` (ti_before \<circ> snd) ` set xs \<subseteq> used_keys (sdb_tables db) \<Longrightarrow>
    stt_states (sdb_tables db') = stt_states (sdb_tables db)"
proof (induction xs arbitrary: db us)
  case (Cons y xs)
  obtain i x where y: "y = (i, x)" by (cases y)
  from Cons.prems(1) obtain u db1 vs where one: "persist_turn_intent rid x (clock i) db = (Inr u, db1)"
    and rest: "eachP (\<lambda>(i, x). persist_turn_intent rid x (clock i)) xs db1 = (Inr vs, db')"
    by (auto simp: returnP_def y elim!: bindP_Inr_E)
  from one obtain b db2 z where save: "save_state (ti_before x) db = (Inr b, db2)"
    and last: "persist_transition_idempotent z db2 = (Inr u, db1)"
    unfolding persist_turn_intent_def by (auto simp: liftP_def elim!: bindP_Inr_E)
  from save_state_rows [OF save in_tx_open [OF Cons.prems(2)]] Cons.prems(3) have "sdb_tables db2 = sdb_tables db" by (auto simp: y split: if_splits)
  moreover have open2: "in_tx t v db2" by (rule preservesD' [OF in_tx_saves(1) Cons.prems(2) save])
  ultimately have same: "stt_states (sdb_tables db1) = stt_states (sdb_tables db)"
    using keeps_statesD [OF keeps_transition last] by (simp add: in_tx_def in_open_def)
  have open1: "in_tx t v db1" by (rule preservesD' [OF in_tx_persist(2) open2 last])
  from Cons.prems(3) same have "storage_key ` (ti_before \<circ> snd) ` set xs \<subseteq> used_keys (sdb_tables db1)" by (simp add: used_keys_def)
  from Cons.IH [OF rest open1 this] same show ?case by simp
qed (simp add: returnP_def)


lemma keeps_marker: "keeps_states (record_marker turn states now)"
proof -
  have "preserves (\<lambda>db. stt_states (sdb_tables db) = rows \<and> sdb_in_transaction db) (record_commit i sc t ids)" for rows i sc t ids
    by (rule preservesI) (auto simp: record_commit_def true_unless_integrity_error_def execute_db_def begin_db_def
        insert_marker_def split: sum.splits py_error.splits if_splits)
  moreover have "preserves (\<lambda>db. stt_states (sdb_tables db) = rows \<and> sdb_in_transaction db) (readP f)" for rows and f :: "state_db \<Rightarrow> 'b result"
    by (rule preservesI) (simp add: readP_def)
  ultimately show ?thesis unfolding keeps_states_def record_marker_def by (intro allI preserve_rules)
qed

text \<open>The projected states are new versions of their dimensions, and the intents start from stored records.\<close>

definition succeeds_states :: "turn_projection \<Rightarrow> runtime_state list \<Rightarrow> bool" where
  "succeeds_states p ss \<longleftrightarrow> (let new = pm_projected_states (tp_projected_mind_state p) in
     list_all runtime_state_valid new \<and> distinct (map rs_state_id new) \<and> distinct (map state_key_of new) \<and>
     rs_state_id ` set new \<inter> rs_state_id ` set ss = {} \<and>
     (\<forall>s \<in> set new. \<forall>t \<in> set ss. state_key_of t = state_key_of s \<longrightarrow> rs_version t < rs_version s) \<and>
     ti_before ` set (tp_transition_intents p) \<subseteq> set ss)"

lemma loaded_rows:
  assumes "load_states db = Inr ss"
  shows "sr_state_id ` set (stt_states (sdb_tables db)) = rs_state_id ` set ss"
    and "used_keys (sdb_tables db) = storage_key ` set ss"
proof -
  let ?rows = "stt_states (sdb_tables db)" and ?f = "\<lambda>q. projr (state_from_row q)"
  from assms have rows: "set ss = ?f ` set ?rows" and ok: "\<And>q. q \<in> set ?rows \<Longrightarrow> state_from_row q = Inr (?f q)"
    by (auto simp: load_states_def mapR_all_iff)
  note cols = state_from_row_Inr [OF ok]
  show "sr_state_id ` set ?rows = rs_state_id ` set ss"
    unfolding rows image_image by (rule image_cong) (simp_all add: cols)
  show "used_keys (sdb_tables db) = storage_key ` set ss"
    unfolding rows image_image used_keys_def set_map
    by (rule image_cong) (simp_all add: cols state_row_key_def storage_key_def)
qed

lemma store_turn_rows:
  assumes run: "store_turn fl digest oc turn p None False [] [] clock slow_clock db = (Inr w, db')" and tx: "in_tx t u db"
    and ss: "load_states db = Inr ss" and next_states: "succeeds_states p ss"
  shows "\<exists>ss'. load_states db' = Inr ss' \<and> mset ss' = mset ss + mset (pm_projected_states (tp_projected_mind_state p))"
proof -
  let ?new = "pm_projected_states (tp_projected_mind_state p)" and ?xs = "enumerate 0 (tp_transition_intents p)"
  from run obtain bs us v db1 db2 where
    1: "eachP persist_state_idempotent ?new db = (Inr bs, db1)" and
    2: "eachP (\<lambda>(i, x). persist_turn_intent (or_runtime_id oc) x (clock i)) ?xs db1 = (Inr us, db2)" and
    3: "(if or_markers oc then record_marker turn ?new (clock (length (tp_transition_intents p))) else returnP ()) db2 = (Inr v, db')"
    by (cases "or_writer oc") (auto simp: store_turn_def store_slow_def Let_def returnP_def elim!: bindP_Inr_E)
  note new = next_states [unfolded succeeds_states_def Let_def]
  have free: "rs_state_id ` set ?new \<inter> sr_state_id ` set (stt_states (sdb_tables db)) = {}"
    using new by (simp add: loaded_rows [OF ss])
  from persist_states_rows [OF 1 tx _ free] new obtain rs where rs: "list_all2 (\<lambda>r s. state_to_row s = Inr r) rs ?new"
    "stt_states (sdb_tables db1) = stt_states (sdb_tables db) @ rs" by blast
  have "preserves (in_tx t u) (eachP persist_state_idempotent ?new)" by (intro preserve_rules in_tx_persist)
  from preservesD' [OF this tx 1] have tx1: "in_tx t u db1" .
  have "preserves (in_tx t u) (case y of (i, x) \<Rightarrow> persist_turn_intent (or_runtime_id oc) x (clock i))" for y
    by (cases y) (simp add: in_tx_intent)
  from preservesD' [OF preserves_eachP [OF this] tx1 2] have tx2: "in_tx t u db2" .
  have "used_keys (sdb_tables db) \<subseteq> used_keys (sdb_tables db1)" using rs(2) by (auto simp: used_keys_def)
  moreover have "(ti_before \<circ> snd) ` set ?xs \<subseteq> set ss" using new by (auto simp: in_set_enumerate_eq)
  ultimately have "storage_key ` (ti_before \<circ> snd) ` set ?xs \<subseteq> used_keys (sdb_tables db1)"
    using loaded_rows(2) [OF ss] by blast
  from persist_intents_rows [OF 2 tx1 this] have "stt_states (sdb_tables db2) = stt_states (sdb_tables db1)" .
  moreover have "stt_states (sdb_tables db') = stt_states (sdb_tables db2)"
    using 3 keeps_statesD [OF keeps_marker, of turn ?new _ db2 "Inr v" db'] tx2
    by (cases "or_markers oc") (auto simp: in_tx_def in_open_def returnP_def)
  ultimately have all: "stt_states (sdb_tables db') = stt_states (sdb_tables db) @ rs" using rs(2) by simp
  have "list_all2 (\<lambda>r s. state_from_row r = Inr s) rs ?new"
  proof (rule list.rel_mono_strong [OF rs(1)])
    fix r s
    assume "s \<in> set ?new" and "state_to_row s = Inr r"
    with new show "state_from_row r = Inr s" by (auto simp: list_all_iff intro: state_row_round_trip)
  qed
  from load_appends [OF this ss all] show ?thesis .
qed

lemma newest_succeeded:
  assumes "well_kept ss" and "mset ss' = mset ss + mset new" and "distinct (map rs_state_id new)" and "distinct (map state_key_of new)"
    and "rs_state_id ` set new \<inter> rs_state_id ` set ss = {}"
    and "\<forall>s \<in> set new. \<forall>t \<in> set ss. state_key_of t = state_key_of s \<longrightarrow> rs_version t < rs_version s"
  shows "well_kept ss'" and "newest ss' = {c \<in> newest ss. state_key_of c \<notin> state_key_of ` set new} \<union> set new"
proof -
  have ids: "distinct (map rs_state_id ss') \<longleftrightarrow> distinct (map rs_state_id (ss @ new))"
    by (rule mset_eq_imp_distinct_iff) (simp add: assms(2))
  have versions: "distinct (map (\<lambda>s. (state_key_of s, rs_version s)) ss') \<longleftrightarrow> distinct (map (\<lambda>s. (state_key_of s, rs_version s)) (ss @ new))"
    by (rule mset_eq_imp_distinct_iff) (simp add: assms(2))
  have set: "set ss' = set ss \<union> set new" using arg_cong [OF assms(2), of set_mset] by simp
  have "distinct (map rs_state_id (ss @ new))" using assms(1,3,5) by (auto simp: well_kept_def)
  moreover have "distinct (map (\<lambda>s. (state_key_of s, rs_version s)) new)"
    using assms(4) by (auto simp: distinct_map inj_on_def)
  then have "distinct (map (\<lambda>s. (state_key_of s, rs_version s)) (ss @ new))"
    using assms(1,6) by (fastforce simp: well_kept_def)
  ultimately show "well_kept ss'" by (simp only: well_kept_def ids versions simp_thms)
  have alone: "t = s" if "s \<in> set new" "t \<in> set new" "state_key_of t = state_key_of s" for s t
    using assms(4) that by (auto simp: distinct_map dest: inj_onD)
  show "newest ss' = {c \<in> newest ss. state_key_of c \<notin> state_key_of ` set new} \<union> set new" (is "?L = ?R")
  proof (intro equalityI subsetI)
    fix c assume c: "c \<in> ?L"
    then have best: "\<And>t. t \<in> set ss \<union> set new \<Longrightarrow> state_key_of t = state_key_of c \<Longrightarrow> rs_version t \<le> rs_version c"
      and mem: "c \<in> set ss \<union> set new" by (auto simp: newest_def set)
    show "c \<in> ?R"
    proof (cases "c \<in> set new")
      case False
      with mem have "c \<in> set ss" by simp
      moreover have "state_key_of c \<notin> state_key_of ` set new"
      proof
        assume "state_key_of c \<in> state_key_of ` set new"
        then obtain s where s: "state_key_of c = state_key_of s" "s \<in> set new" by (rule imageE)
        from assms(6) s(2) \<open>c \<in> set ss\<close> s(1) have "rs_version c < rs_version s" by blast
        with best [of s] s show False by simp
      qed
      ultimately show ?thesis using best by (auto simp: newest_def)
    qed simp
  next
    fix c assume "c \<in> ?R"
    then consider (old) "c \<in> newest ss" "state_key_of c \<notin> state_key_of ` set new" | (new) "c \<in> set new" by blast
    then show "c \<in> ?L"
    proof cases
      case old
      have "state_key_of t \<noteq> state_key_of c" if "t \<in> set new" for t
      proof
        assume "state_key_of t = state_key_of c"
        from image_eqI [where f = "\<lambda>s. state_key_of s", OF this [symmetric] that] old(2) show False by contradiction
      qed
      with old(1) show ?thesis by (auto simp: newest_def set)
    next
      case new
      have "rs_version t \<le> rs_version c" if t: "t \<in> set ss \<union> set new" "state_key_of t = state_key_of c" for t
      proof (cases "t \<in> set new")
        case True
        from alone [OF new True t(2)] show ?thesis by simp
      next
        case False
        with t have "t \<in> set ss" by simp
        with t(2) new assms(6) show ?thesis by (simp add: less_imp_le)
      qed
      with new show ?thesis by (simp add: newest_def set)
    qed
  qed
qed

lemma admit_turn_plain:
  assumes "tu_slow_decisions turn = []" and "\<not> tu_appraised turn"
    and "admit_turn fl digest receipts turn p clock slow_clock oc = (Inr plans, oc')"
  shows "\<exists>w db'. plans = [] \<and> oc' = oc\<lparr>or_db := db', or_writer := w\<rparr> \<and>
    transaction (store_turn fl digest oc turn p None False [] [] clock slow_clock) (or_db oc) = (Inr w, db')"
proof -
  have slow: "slow_scope_of turn oc = None" using assms(1) by (simp add: slow_scope_of_def slow_part_def)
  have stage: "stage_slow fl turn slow_clock oc = (Inr ([], []), oc)"
    using assms(1) by (simp add: stage_slow_def split: option.splits)
  obtain r db' where tx: "transaction (store_turn fl digest oc turn p None False [] [] clock slow_clock) (or_db oc) = (r, db')"
    by (cases "transaction (store_turn fl digest oc turn p None False [] [] clock slow_clock) (or_db oc)")
  show ?thesis
    using assms(2,3) slow stage tx
    by (cases r) (auto simp: admit_turn_def prepare_appraisal_receipts_def bindP_apply thenP_def liftP_def readP_def on_db_def writeP_def returnP_def)
qed

text \<open>
  C9. Memory is what a restart finds. Let the records of the file be well kept: their state ids distinct, also
  across scopes, and no two of a scope and dimension of the same version. When the canonical states in memory are
  those a restart would load, and a turn without slow decisions and accepted appraisals is committed whose
  projected states are new versions of their dimensions under new ids, then the canonical states in memory
  after the commit are again exactly those a restart would load from the file, also when their publication
  failed and was repaired by a reload; and the records of the file are again well kept, so this holds along
  every sequence of such commits.
\<close>

theorem memory_is_what_a_restart_loads:
  assumes "or_turn oc = Some turn" and "tu_projection turn = Some p" and "tu_slow_decisions turn = []" and "\<not> tu_appraised turn"
    and "idle (or_db oc)" and "tables_ok (sdb_tables (or_db oc))" and "load_states (or_db oc) = Inr ss" and "well_kept ss"
    and "filed (or_canonical oc)" and "map_of (or_canonical oc) = map_of (canonical_of ss)"
    and "succeeds_states p ss" and "\<not> is_replay turn oc"
    and "commit_turn fl digest receipts fault clock slow_clock oc = (r, oc')"
    and "r = Inr () \<or> r = Inl (PostCommitPublicationError True)"
  shows "\<exists>ss'. load_states (or_db oc') = Inr ss' \<and> well_kept ss' \<and> filed (or_canonical oc') \<and>
    map_of (or_canonical oc') = map_of (canonical_of ss')"
proof -
  let ?new = "pm_projected_states (tp_projected_mind_state p)"
  note new = assms(11) [unfolded succeeds_states_def Let_def]
  have repaired: "r \<noteq> Inl e" if "e \<notin> range PostCommitPublicationError" for e using assms(14) that by auto
  have "\<exists>c plans oc2. admit_turn fl digest receipts turn p (\<lambda>i. clock (i + 1)) slow_clock (oc\<lparr>or_checkpoints := c\<rparr>) = (Inr plans, oc2) \<and>
      publish_turn fault turn ?new plans oc2 = (r, oc')"
    using assms(1,2,13)
  proof (cases rule: commit_turn_cases)
    case stale
    with repaired publication_errors(1) show ?thesis by blast
  next
    case (refused e c)
    with repaired publication_errors(3) show ?thesis by blast
  next
    case (failed e c)
    then have "e = CanonicalPersistenceError" using admit_turn_error by blast
    with failed repaired publication_errors(2) show ?thesis by blast
  qed (use assms(12) in auto)
  then obtain c plans oc2 where
    ad: "admit_turn fl digest receipts turn p (\<lambda>i. clock (i + 1)) slow_clock (oc\<lparr>or_checkpoints := c\<rparr>) = (Inr plans, oc2)"
    and pub: "publish_turn fault turn ?new plans oc2 = (r, oc')" by blast
  from admit_turn_plain [OF assms(3,4) ad] obtain w db' where plans: "plans = []"
    and oc2: "oc2 = oc\<lparr>or_checkpoints := c, or_db := db', or_writer := w\<rparr>"
    and tx: "transaction (store_turn fl digest (oc\<lparr>or_checkpoints := c\<rparr>) turn p None False [] [] (\<lambda>i. clock (i + 1)) slow_clock)
      (or_db oc) = (Inr w, db')" by auto
  note pub = publish_turn_outcomes [OF pub [unfolded plans]]
  have stored: "or_db oc' = db'" using pub by (simp add: oc2)
  let ?db = "begin_db ((or_db oc)\<lparr>sdb_in_transaction := True\<rparr>)"
  from assms(5,6) have opened: "in_tx (sdb_tables (or_db oc)) (sdb_tables (or_db oc)) ?db"
    by (simp add: in_tx_def in_open_def idle_def begin_db_def committed_def)
  let ?m = "store_turn fl digest (oc\<lparr>or_checkpoints := c\<rparr>) turn p None False [] [] (\<lambda>i. clock (i + 1)) slow_clock"
  have "in_open (sdb_tables (or_db oc)) (snd (?m ?db))" by (rule in_tx_open [OF preservesD [OF in_tx_store opened]])
  from transaction_run [where body = ?m, OF assms(5) this] tx obtain db2 where
    run: "store_turn fl digest (oc\<lparr>or_checkpoints := c\<rparr>) turn p None False [] [] (\<lambda>i. clock (i + 1)) slow_clock ?db = (Inr w, db2)"
    and same: "sdb_tables db2 = sdb_tables db'" by force
  have "load_states ?db = Inr ss" using assms(7) by (simp add: load_states_def)
  from store_turn_rows [OF run opened this assms(11)] same obtain ss' where ss': "load_states db' = Inr ss'"
    "mset ss' = mset ss + mset ?new" by (auto simp: load_states_def)
  note next_states = newest_succeeded [OF assms(8) ss'(2)]
  from new next_states have kept: "well_kept ss'"
    and newest: "newest ss' = {c \<in> newest ss. state_key_of c \<notin> state_key_of ` set ?new} \<union> set ?new" by auto
  note old = canonical_of_newest [OF assms(8)]
  have rec: "records (or_canonical oc) = newest ss"
    using filed_records [OF assms(9) old(1) assms(10)] old(2) by simp
  have "\<forall>c \<in> records (or_canonical oc). rs_state_id c \<notin> rs_state_id ` set ?new" using new unfolding rec newest_def by auto
  note all = published_all [OF assms(9) _ _ this]
  have "filed (or_canonical oc') \<and> records (or_canonical oc') = newest ss'"
  proof (cases fault)
    case None
    with pub have "or_canonical oc' = foldl (\<lambda>d s. publish_state s d) (or_canonical oc) ?new"
      by (simp add: oc2 publish_committed_states_def Let_def split: option.splits)
    with all new rec newest show ?thesis by simp
  next
    case (Some f)
    with pub assms(14) obtain states where "load_states db' = Inr states" "or_canonical oc' = canonical_of states"
      by (auto simp: oc2 PostCommitPublicationError_def split: prod.splits if_splits)
    with ss'(1) canonical_of_newest [OF kept] show ?thesis by simp
  qed
  with canonical_of_newest [OF kept] filed_ext ss'(1) kept stored show ?thesis by metis
qed

theorem memory_is_what_a_restart_loads_witness:
  "\<exists>ss'. load_states (or_db (snd (plain_commit (in_mood_turn [''u1''] ''u1'' ''i1'')))) = Inr ss' \<and>
    map_of (or_canonical (snd (plain_commit (in_mood_turn [''u1''] ''u1'' ''i1'')))) = map_of (canonical_of ss')"
proof -
  let ?oc = "in_mood_turn [''u1''] ''u1'' ''i1''" and ?turn = "mood_turn ''u1'' ''i1''" and ?p = "mood_projection ''u1'' ''i1''"
    and ?ss = "[mood_state ''u1'' 500]"
  have turn: "or_turn ?oc = Some ?turn" "tu_projection ?turn = Some ?p" "tu_slow_decisions ?turn = []" "\<not> tu_appraised ?turn"
    by (simp_all add: in_mood_turn_def mood_turn_def)
  have facts: "idle (or_db ?oc)" "tables_ok (sdb_tables (or_db ?oc))" "load_states (or_db ?oc) = Inr ?ss" "well_kept ?ss"
    "filed (or_canonical ?oc)" "or_canonical ?oc = canonical_of ?ss" "succeeds_states ?p ?ss" "\<not> is_replay ?turn ?oc"
    by code_simp+
  obtain oc' where run: "plain_commit ?oc = (Inr (), oc')" using mood_turn_commits by (cases "plain_commit ?oc") auto
  from memory_is_what_a_restart_loads [OF turn facts(1-5) arg_cong [OF facts(6)] facts(7,8) run [unfolded plain_commit_def] disjI1 [OF refl]]
  show ?thesis by (auto simp: run)
qed

text \<open>
  The distinct ids matter. The dict of the canonical states has one record for each id, whatever its scope: with
  two users whose records share an id, memory is what a restart loads before the first commit of one of them,
  and is not after it, since the reload finds a record of the other user that memory had lost.
\<close>

lemma shared_ids_split_memory:
  "let oc = in_mood_turn [''u2'', ''u1''] ''u1'' ''i1''; oc' = snd (plain_commit oc);
       restart = (\<lambda>oc. map (\<lambda>(i, s). (i, sc_user_id (rs_scope s)))
         (canonical_of (case load_states (or_db oc) of Inr ss \<Rightarrow> ss | Inl e \<Rightarrow> [])));
       memory = (\<lambda>oc. map (\<lambda>(i, s). (i, sc_user_id (rs_scope s))) (or_canonical oc))
   in memory oc = restart oc \<and> memory oc' = [(''user.mood:4'', Some ''u1'')] \<and>
     set (restart oc') = {(''user.mood:3'', Some ''u2''), (''user.mood:4'', Some ''u1'')}"
  by code_simp

end
