(* ===== verification/Fact_Contracts.thy ===== *)
theory Fact_Contracts
  imports State_Rows Delivery_Contracts
begin

text \<open>
  The contracts of the factual plane: evidence (\<^verbatim>\<open>contracts/evidence.py\<close>), interactions
  (\<^verbatim>\<open>contracts/interaction.py\<close>), and the rows of \<^verbatim>\<open>facts/persistence.py\<close> with the functions between
  them and the contracts. A value column holds the object its JSON text denotes. Unlike the state store
  this one converts a frozen mapping to a dict, so that structured values can be stored.
\<close>

section \<open>Evidence\<close>

record evidence =
  ev_id :: string
  ev_source_type :: string
  ev_source_id :: string
  ev_authority_level :: authority_level
  ev_occurred_at :: datetime
  ev_received_at :: datetime
  ev_payload :: py_value
  ev_scope :: scope
  ev_origin_runtime_id :: string
  ev_authority :: authority
  ev_sync :: sync_fields

definition evidence_head_checks :: "evidence \<Rightarrow> (bool \<times> py_error) list" where
  "evidence_head_checks e =
     [require_non_empty (ev_id e) ''id'',
      require_non_empty (ev_origin_runtime_id e) ''origin_runtime_id'',
      require_non_empty (ev_source_type e) ''source_type'',
      require_non_empty (ev_source_id e) ''source_id'',
      (au_scope (ev_authority e) \<noteq> ev_scope e, ValueError ''authority.scope must match scope''),
      (au_level (ev_authority e) \<noteq> ev_authority_level e,
       ValueError ''authority.level must match authority_level'')] @
     (if ev_authority_level e = NONE
      then [(au_source_id (ev_authority e) \<noteq> None, ValueError ''NONE authority forbids authority.source_id'')]
      else [(au_source_id (ev_authority e) \<noteq> Some (ev_source_id e),
             ValueError ''authority.source_id must match source_id'')]) @
     [require_aware_utc (ev_occurred_at e) ''occurred_at'',
      require_aware_utc (ev_received_at e) ''received_at'']"

definition evidence_tail_checks :: "evidence \<Rightarrow> (bool \<times> py_error) list" where
  "evidence_tail_checks e =
     validate_sync_fields (ev_sync e) (ev_scope e) (ev_origin_runtime_id e) (ev_id e) None"

definition mk_evidence :: "evidence \<Rightarrow> evidence result" where
  "mk_evidence e = bindR (guarded (evidence_head_checks e) e) (\<lambda>e.
     bindR (freeze_value ''payload'' (ev_payload e)) (\<lambda>v.
     guarded (evidence_tail_checks e) (e\<lparr>ev_payload := v\<rparr>)))"

definition evidence_valid :: "evidence \<Rightarrow> bool" where
  "evidence_valid e \<longleftrightarrow> scope_valid (ev_scope e) \<and> all_clear (authority_checks (ev_authority e)) \<and>
     all_clear (evidence_head_checks e) \<and> frozen (ev_payload e) \<and> all_clear (evidence_tail_checks e)"

text \<open>\<^verbatim>\<open>==\<close> of two evidence records: payloads compare as Python values, all else is plain.\<close>

definition evidence_eq :: "evidence \<Rightarrow> evidence \<Rightarrow> bool" where
  "evidence_eq a b \<longleftrightarrow> py_eq (ev_payload a) (ev_payload b) \<and> a\<lparr>ev_payload := VNone\<rparr> = b\<lparr>ev_payload := VNone\<rparr>"

section \<open>Interactions\<close>

datatype interaction_status = OPEN | COMMITTED | ABORTED

fun interaction_status_value :: "interaction_status \<Rightarrow> string" where
  "interaction_status_value OPEN = ''open''"
| "interaction_status_value COMMITTED = ''committed''"
| "interaction_status_value ABORTED = ''aborted''"

definition interaction_status_of :: "string \<Rightarrow> interaction_status result" where
  "interaction_status_of text =
     enum_of interaction_status_value [OPEN, COMMITTED, ABORTED] ''InteractionStatus'' text"

record interaction =
  ia_interaction_id :: string
  ia_scope :: scope
  ia_channel :: string
  ia_session_id :: string
  ia_turn_id :: string
  ia_started_at :: datetime
  ia_committed_at :: "datetime option"
  ia_status :: interaction_status

definition interaction_checks :: "interaction \<Rightarrow> (bool \<times> py_error) list" where
  "interaction_checks i =
     [require_non_empty (ia_interaction_id i) ''interaction_id'',
      require_non_empty (ia_channel i) ''channel'',
      require_non_empty (ia_session_id i) ''session_id'',
      require_non_empty (ia_turn_id i) ''turn_id'',
      require_aware_utc (ia_started_at i) ''started_at''] @
     (if ia_status i = COMMITTED
      then (case ia_committed_at i of
          None \<Rightarrow> [(True, ValueError ''committed status requires committed_at'')]
        | Some t \<Rightarrow> [require_aware_utc t ''committed_at'',
            (dt_less t (ia_started_at i), ValueError ''committed_at cannot precede started_at'')])
      else [(ia_committed_at i \<noteq> None,
             ValueError (interaction_status_value (ia_status i) @ '' forbids committed_at''))])"

definition interaction_valid :: "interaction \<Rightarrow> bool" where
  "interaction_valid i \<longleftrightarrow> scope_valid (ia_scope i) \<and> all_clear (interaction_checks i)"

definition mk_interaction :: "interaction \<Rightarrow> interaction result" where
  "mk_interaction i = guarded (interaction_checks i) i"

section \<open>Rows\<close>

record interaction_row =
  iar_interaction_id :: string
  iar_scope :: scope_columns
  iar_channel :: string
  iar_session_id :: string
  iar_turn_id :: string
  iar_started_at :: datetime
  iar_committed_at :: "datetime option"
  iar_status :: string

record evidence_row =
  evr_scope :: scope_columns
  evr_id :: string
  evr_origin_runtime_id :: string
  evr_source_type :: string
  evr_source_id :: string
  evr_authority_level :: string
  evr_occurred_at :: datetime
  evr_received_at :: datetime
  evr_payload :: py_value
  evr_interaction_id :: string
  evr_sync_version :: int
  evr_sync_idem_key :: string

record observation_row =
  obr_scope :: scope_columns
  obr_id :: string
  obr_interaction_id :: string
  obr_origin_runtime_id :: string
  obr_type :: string
  obr_key :: string
  obr_value :: py_value
  obr_confidence :: rat
  obr_observed_at :: datetime
  obr_evidence_refs :: json_text
  obr_sync_version :: int
  obr_sync_idem_key :: string
  obr_modality :: string
  obr_semantic_relation :: string
  obr_semantic_precision :: string
  obr_semantic_daypart :: string
  obr_window_kind :: string
  obr_start_at :: "datetime option"
  obr_end_at :: "datetime option"

text \<open>\<^verbatim>\<open>_to_json\<close> on a frozen value, as the object that is read back; lists do not occur in one.\<close>

definition not_json :: py_error where
  "not_json = ValueError ''durable store requires JSON-serializable values''"

fun fact_json :: "py_value \<Rightarrow> py_value result" where
  "fact_json (VMap es) = bindR (mapR (\<lambda>(k, v). bindR (fact_json v) (\<lambda>w. Inr (k, w))) es) (\<lambda>ws. Inr (VMap ws))"
| "fact_json (VTuple xs) = bindR (mapR (\<lambda>x. fact_json x) xs) (\<lambda>ys. Inr (VList ys))"
| "fact_json (VList xs) = bindR (mapR (\<lambda>x. fact_json x) xs) (\<lambda>ys. Inr (VList ys))"
| "fact_json (VSet xs) = Inl not_json"
| "fact_json (VBytes b) = Inl not_json"
| "fact_json v = Inr v"

fun authority_level_value :: "authority_level \<Rightarrow> string" where
  "authority_level_value NONE = ''none''"
| "authority_level_value authority_level.ASSERTED = ''asserted''"
| "authority_level_value OBSERVED = ''observed''"
| "authority_level_value VERIFIED = ''verified''"
| "authority_level_value SYSTEM = ''system''"

definition authority_level_of :: "string \<Rightarrow> authority_level result" where
  "authority_level_of text = enum_of authority_level_value
     [NONE, authority_level.ASSERTED, OBSERVED, VERIFIED, SYSTEM] ''AuthorityLevel'' text"

text \<open>The value of an enumeration read from a row: \<^verbatim>\<open>ObservationModality(text)\<close> and its like.\<close>

definition modality_of :: "string \<Rightarrow> observation_modality result" where
  "modality_of text = enum_of modality_value [ASSERTED, PLANNED, TENTATIVE, ESTIMATED, INFERRED] ''ObservationModality'' text"

definition semantic_relation_of :: "string \<Rightarrow> semantic_relation result" where
  "semantic_relation_of text = enum_of relation_value [REL_CURRENT, REL_PAST, REL_FUTURE, REL_UNRESOLVED] ''SemanticRelation'' text"

definition precision_of :: "string \<Rightarrow> semantic_precision result" where
  "precision_of text = enum_of precision_value [PREC_INSTANT, PREC_DAY, PREC_DAYPART, PREC_RANGE, PREC_UNRESOLVED] ''SemanticPrecision'' text"

definition daypart_of :: "string \<Rightarrow> semantic_daypart result" where
  "daypart_of text = enum_of daypart_value [MORNING, AFTERNOON, EVENING, NIGHT] ''SemanticDaypart'' text"

definition window_kind_of :: "string \<Rightarrow> window_kind result" where
  "window_kind_of text = enum_of window_kind_value [POINT, INTERVAL, OPEN_INTERVAL] ''EffectiveWindowKind'' text"

section \<open>Writing and reading rows\<close>

definition interaction_to_row :: "interaction \<Rightarrow> interaction_row" where
  "interaction_to_row i =
     \<lparr>iar_interaction_id = ia_interaction_id i, iar_scope = scope_values (ia_scope i),
      iar_channel = ia_channel i, iar_session_id = ia_session_id i, iar_turn_id = ia_turn_id i,
      iar_started_at = ia_started_at i, iar_committed_at = ia_committed_at i,
      iar_status = interaction_status_value (ia_status i)\<rparr>"

definition interaction_from_row :: "interaction_row \<Rightarrow> interaction result" where
  "interaction_from_row r = bindR (scope_from_columns (iar_scope r)) (\<lambda>sc.
     bindR (interaction_status_of (iar_status r)) (\<lambda>status.
     mk_interaction \<lparr>ia_interaction_id = iar_interaction_id r, ia_scope = sc, ia_channel = iar_channel r,
       ia_session_id = iar_session_id r, ia_turn_id = iar_turn_id r, ia_started_at = iar_started_at r,
       ia_committed_at = iar_committed_at r, ia_status = status\<rparr>))"

definition evidence_to_row :: "evidence \<Rightarrow> string \<Rightarrow> evidence_row result" where
  "evidence_to_row e interaction_id = bindR (fact_json (ev_payload e)) (\<lambda>v. Inr
     \<lparr>evr_scope = scope_values (ev_scope e), evr_id = ev_id e, evr_origin_runtime_id = ev_origin_runtime_id e,
      evr_source_type = ev_source_type e, evr_source_id = ev_source_id e,
      evr_authority_level = authority_level_value (ev_authority_level e),
      evr_occurred_at = ev_occurred_at e, evr_received_at = ev_received_at e, evr_payload = v,
      evr_interaction_id = interaction_id, evr_sync_version = sf_version (ev_sync e),
      evr_sync_idem_key = sf_idempotency_key (ev_sync e)\<rparr>)"

definition evidence_from_row :: "evidence_row \<Rightarrow> (evidence \<times> string) result" where
  "evidence_from_row r = bindR (scope_from_columns (evr_scope r)) (\<lambda>sc.
     bindR (authority_level_of (evr_authority_level r)) (\<lambda>level.
     let authority = \<lparr>au_scope = sc, au_level = level,
       au_source_id = if level = NONE then None else Some (evr_source_id r)\<rparr> in
     bindR (guarded (authority_checks authority) authority) (\<lambda>authority.
     bindR (mk_evidence
       \<lparr>ev_id = evr_id r, ev_source_type = evr_source_type r, ev_source_id = evr_source_id r,
        ev_authority_level = level, ev_occurred_at = evr_occurred_at r, ev_received_at = evr_received_at r,
        ev_payload = evr_payload r, ev_scope = sc, ev_origin_runtime_id = evr_origin_runtime_id r,
        ev_authority = authority,
        ev_sync = mk_sync sc (evr_origin_runtime_id r) (evr_id r) (evr_sync_version r) (evr_sync_idem_key r)\<rparr>)
     (\<lambda>e. Inr (e, evr_interaction_id r)))))"

definition observation_to_row :: "observation \<Rightarrow> observation_row result" where
  "observation_to_row ob = bindR (fact_json (ob_value ob)) (\<lambda>v. Inr
     \<lparr>obr_scope = scope_values (ob_scope ob), obr_id = ob_id ob, obr_interaction_id = ob_interaction_id ob,
      obr_origin_runtime_id = ob_origin_runtime_id ob, obr_type = ob_type ob, obr_key = ob_key ob,
      obr_value = v, obr_confidence = ob_confidence ob, obr_observed_at = ob_observed_at ob,
      obr_evidence_refs = refs_to_text (ob_evidence_refs ob), obr_sync_version = sf_version (ob_sync ob),
      obr_sync_idem_key = sf_idempotency_key (ob_sync ob), obr_modality = modality_value (ob_modality ob),
      obr_semantic_relation = relation_value (sm_relation (ob_semantic_time ob)),
      obr_semantic_precision = precision_value (sm_precision (ob_semantic_time ob)),
      obr_semantic_daypart = (case sm_daypart (ob_semantic_time ob) of None \<Rightarrow> '''' | Some d \<Rightarrow> daypart_value d),
      obr_window_kind = (case ob_effective_window ob of None \<Rightarrow> ''unresolved'' | Some w \<Rightarrow> window_kind_value (ew_kind w)),
      obr_start_at = map_option ew_start_at (ob_effective_window ob),
      obr_end_at = Option.bind (ob_effective_window ob) ew_end_at\<rparr>)"

definition read_semantic_time :: "observation_row \<Rightarrow> semantic_time result" where
  "read_semantic_time r =
     bindR (if obr_semantic_daypart r = '''' then Inr None
       else bindR (daypart_of (obr_semantic_daypart r)) (\<lambda>d. Inr (Some d))) (\<lambda>daypart.
     bindR (semantic_relation_of (obr_semantic_relation r)) (\<lambda>relation.
     bindR (precision_of (obr_semantic_precision r)) (\<lambda>precision.
     mk_semantic_time \<lparr>sm_relation = relation, sm_precision = precision, sm_daypart = daypart\<rparr>)))"

definition read_effective_window :: "observation_row \<Rightarrow> effective_window option result" where
  "read_effective_window r =
     (if obr_window_kind r = ''unresolved'' \<or> obr_window_kind r = '''' then Inr None
      else bindR (window_kind_of (obr_window_kind r)) (\<lambda>kind.
        bindR (mk_effective_window \<lparr>ew_kind = kind,
          ew_start_at = (case obr_start_at r of Some t \<Rightarrow> t | None \<Rightarrow> obr_observed_at r),
          ew_end_at = obr_end_at r\<rparr>) (\<lambda>w. Inr (Some w))))"

definition observation_from_row :: "observation_row \<Rightarrow> observation result" where
  "observation_from_row r = bindR (scope_from_columns (obr_scope r)) (\<lambda>sc.
     bindR (modality_of (obr_modality r)) (\<lambda>modality.
     bindR (read_semantic_time r) (\<lambda>time.
     bindR (read_effective_window r) (\<lambda>window.
     bindR (refs_from_text (obr_evidence_refs r)) (\<lambda>refs.
     mk_observation
       \<lparr>ob_id = obr_id r, ob_interaction_id = obr_interaction_id r, ob_scope = sc, ob_type = obr_type r,
        ob_key = obr_key r, ob_value = obr_value r, ob_confidence = obr_confidence r,
        ob_observed_at = obr_observed_at r, ob_evidence_refs = refs,
        ob_origin_runtime_id = obr_origin_runtime_id r,
        ob_sync = mk_sync sc (obr_origin_runtime_id r) (obr_id r) (obr_sync_version r) (obr_sync_idem_key r),
        ob_modality = modality, ob_semantic_time = time, ob_effective_window = window\<rparr>)))))"

section \<open>Round trips\<close>

lemma frozen_map_entries:
  assumes "frozen (VMap es)"
  obtains fs where "es = map (\<lambda>(k, v). (VStr k, v)) fs" and "sorted (map fst fs)"
    and "\<And>k v. (k, v) \<in> set fs \<Longrightarrow> frozen v"
proof -
  from assms obtain gs where gs: "mapR (\<lambda>(key, item). case key of
         VStr k \<Rightarrow> bindR (freeze_value ''value'' item) (\<lambda>v. Inr (k, v))
       | _ \<Rightarrow> Inl (ValueError (''value'' @ '' keys must be strings''))) es = Inr gs"
    and es: "es = map (\<lambda>(k, v). (VStr k, v)) (sort_key fst gs)"
    by (auto simp: frozen_def bindR_Inr_iff)
  show thesis
  proof (rule that [OF es])
    show "sorted (map fst (sort_key fst gs))" by simp
    fix k v
    assume "(k, v) \<in> set (sort_key fst gs)"
    then have "(k, v) \<in> set gs" by simp
    from mapR_source [OF gs this] obtain key item where "(key, item) \<in> set es"
      and "(case key of VStr k \<Rightarrow> bindR (freeze_value ''value'' item) (\<lambda>v. Inr (k, v))
       | _ \<Rightarrow> Inl (ValueError (''value'' @ '' keys must be strings''))) = Inr (k, v)"
      by auto
    then have "freeze_value ''value'' item = Inr v" by (auto simp: bindR_Inr_iff split: py_value.splits)
    then show "frozen v" by (rule freeze_value_frozen)
  qed
qed

lemma fact_json_num: "num_val v = Some a \<Longrightarrow> fact_json v = Inr v"
  by (cases v) auto

text \<open>A frozen value that can be written is what the constructor makes of the object read back.\<close>

lemma thaw_fact: "frozen v \<Longrightarrow> fact_json v = Inr w \<Longrightarrow> freeze_value f w = Inr v"
proof (induction v arbitrary: w rule: py_value_induct)
  case (Tuple xs)
  from Tuple.prems(2) obtain ys where w: "w = VList ys" and ys: "mapR fact_json xs = Inr ys"
    by (auto simp: bindR_Inr_iff)
  have "mapR (freeze_value f) ys = Inr xs"
    using ys Tuple.IH Tuple.prems(1) by (simp add: mapR_Inr_iff list_all2_conv_all_nth list_all_length)
  then show ?case by (simp add: w)
next
  case (Map es)
  from Map.prems(1) obtain fs where es: "es = map (\<lambda>(k, v). (VStr k, v)) fs"
    and sorted: "sorted (map fst fs)" and froz: "\<And>k v. (k, v) \<in> set fs \<Longrightarrow> frozen v"
    by (rule frozen_map_entries) blast
  from Map.prems(2) obtain ws where w: "w = VMap ws"
    and ws: "mapR (\<lambda>(k, v). bindR (fact_json v) (\<lambda>w. Inr (k, w))) es = Inr ws"
    by (auto simp: bindR_Inr_iff)
  have "mapR (\<lambda>(key, item). case key of VStr k \<Rightarrow> bindR (freeze_value f item) (\<lambda>v. Inr (k, v))
       | _ \<Rightarrow> Inl (ValueError (f @ '' keys must be strings''))) ws = Inr fs"
    unfolding mapR_Inr_iff list_all2_conv_all_nth
  proof (intro conjI allI impI)
    show len: "length ws = length fs" using ws es by (simp add: mapR_Inr_iff list_all2_conv_all_nth)
    fix i
    assume "i < length ws"
    with len have i: "i < length fs" by simp
    obtain k v where kv: "fs ! i = (k, v)" by fastforce
    with i have mem: "(k, v) \<in> set fs" by (metis nth_mem)
    from ws i have "(\<lambda>(k, v). bindR (fact_json v) (\<lambda>w. Inr (k, w))) (es ! i) = Inr (ws ! i)"
      by (simp add: mapR_Inr_iff list_all2_conv_all_nth es)
    with i kv obtain u where u: "fact_json v = Inr u" "ws ! i = (VStr k, u)"
      by (auto simp: es bindR_Inr_iff)
    have "(VStr k, v) \<in> set es" using mem by (force simp: es)
    with Map.IH have "freeze_value f u = Inr v" using froz [OF mem] u(1) by fastforce
    with kv u(2) show "(\<lambda>(key, item). case key of VStr k \<Rightarrow> bindR (freeze_value f item) (\<lambda>v. Inr (k, v))
       | _ \<Rightarrow> Inl (ValueError (f @ '' keys must be strings''))) (ws ! i) = Inr (fs ! i)" by simp
  qed
  then show ?case by (simp add: w es sort_key_sorted [OF sorted])
qed (auto simp: fact_json_num freeze_num not_json_def)

lemma fact_enums [simp]:
  "interaction_status_of (interaction_status_value s) = Inr s"
  "authority_level_of (authority_level_value l) = Inr l"
  "modality_of (modality_value m) = Inr m"
  "semantic_relation_of (relation_value r) = Inr r"
  "precision_of (precision_value p) = Inr p"
  "daypart_of (daypart_value d) = Inr d"
  "window_kind_of (window_kind_value k) = Inr k"
  unfolding interaction_status_of_def authority_level_of_def modality_of_def semantic_relation_of_def
    precision_of_def daypart_of_def window_kind_of_def enum_of_def
  by ((cases s; simp), (cases l; simp), (cases m; simp), (cases r; simp), (cases p; simp), (cases d; simp), (cases k; simp))

lemma interaction_round_trip: "interaction_valid i \<Longrightarrow> interaction_from_row (interaction_to_row i) = Inr i"
  by (cases i) (simp add: interaction_from_row_def interaction_to_row_def interaction_valid_def
      scope_round_trip mk_interaction_def guarded_clear)

lemma evidence_round_trip:
  assumes "evidence_valid e" and "evidence_to_row e ia = Inr r"
  shows "evidence_from_row r = Inr (e, ia)"
proof -
  from assms(2) obtain v where v: "fact_json (ev_payload e) = Inr v"
    by (auto simp: evidence_to_row_def bindR_Inr_iff)
  from assms(1) have scope: "scope_valid (ev_scope e)" and head: "all_clear (evidence_head_checks e)"
    and tail: "all_clear (evidence_tail_checks e)" and froz: "frozen (ev_payload e)"
    and auth: "all_clear (authority_checks (ev_authority e))"
    by (simp_all add: evidence_valid_def)
  have sync: "mk_sync (ev_scope e) (ev_origin_runtime_id e) (ev_id e) (sf_version (ev_sync e))
      (sf_idempotency_key (ev_sync e)) = ev_sync e"
    using tail by (simp add: evidence_tail_checks_def sync_eq_mk)
  have authority: "\<lparr>au_scope = ev_scope e, au_level = ev_authority_level e,
       au_source_id = if ev_authority_level e = NONE then None else Some (ev_source_id e)\<rparr> = ev_authority e"
    using head by (cases "ev_authority e") (auto simp: evidence_head_checks_def split: if_splits)
  have checks: "evidence_head_checks (e\<lparr>ev_payload := u\<rparr>) = evidence_head_checks e"
    "evidence_tail_checks (e\<lparr>ev_payload := u\<rparr>) = evidence_tail_checks e" for u
    by (simp_all add: evidence_head_checks_def evidence_tail_checks_def)
  have read: "mk_evidence (e\<lparr>ev_payload := v\<rparr>) = Inr e"
    using head tail by (simp add: mk_evidence_def guarded_clear checks thaw_fact [OF froz v])
  have whole: "\<lparr>ev_id = ev_id e, ev_source_type = ev_source_type e, ev_source_id = ev_source_id e,
        ev_authority_level = ev_authority_level e, ev_occurred_at = ev_occurred_at e,
        ev_received_at = ev_received_at e, ev_payload = v, ev_scope = ev_scope e,
        ev_origin_runtime_id = ev_origin_runtime_id e, ev_authority = ev_authority e, ev_sync = ev_sync e\<rparr> =
      e\<lparr>ev_payload := v\<rparr>" by simp
  from v assms(2) have r: "evr_scope r = scope_values (ev_scope e)" "evr_id r = ev_id e"
    "evr_origin_runtime_id r = ev_origin_runtime_id e" "evr_source_type r = ev_source_type e"
    "evr_source_id r = ev_source_id e" "evr_authority_level r = authority_level_value (ev_authority_level e)"
    "evr_occurred_at r = ev_occurred_at e" "evr_received_at r = ev_received_at e" "evr_payload r = v"
    "evr_interaction_id r = ia" "evr_sync_version r = sf_version (ev_sync e)"
    "evr_sync_idem_key r = sf_idempotency_key (ev_sync e)"
    by (auto simp: evidence_to_row_def)
  show ?thesis
    by (simp only: evidence_from_row_def Let_def r scope_round_trip [OF scope] bindR_simps fact_enums authority
        guarded_clear [OF auth] sync whole read)
qed

definition observation_whole :: "observation \<Rightarrow> bool" where
  "observation_whole ob \<longleftrightarrow> observation_valid ob \<and> all_clear (semantic_time_checks (ob_semantic_time ob)) \<and>
     (\<forall>w. ob_effective_window ob = Some w \<longrightarrow> all_clear (effective_window_checks w))"

lemma observation_round_trip:
  assumes "observation_whole ob" and "observation_to_row ob = Inr r"
  shows "observation_from_row r = Inr ob"
proof -
  from assms(2) obtain v where v: "fact_json (ob_value ob) = Inr v"
    by (auto simp: observation_to_row_def bindR_Inr_iff)
  with assms(2) have r: "r =
     \<lparr>obr_scope = scope_values (ob_scope ob), obr_id = ob_id ob, obr_interaction_id = ob_interaction_id ob,
      obr_origin_runtime_id = ob_origin_runtime_id ob, obr_type = ob_type ob, obr_key = ob_key ob,
      obr_value = v, obr_confidence = ob_confidence ob, obr_observed_at = ob_observed_at ob,
      obr_evidence_refs = refs_to_text (ob_evidence_refs ob), obr_sync_version = sf_version (ob_sync ob),
      obr_sync_idem_key = sf_idempotency_key (ob_sync ob), obr_modality = modality_value (ob_modality ob),
      obr_semantic_relation = relation_value (sm_relation (ob_semantic_time ob)),
      obr_semantic_precision = precision_value (sm_precision (ob_semantic_time ob)),
      obr_semantic_daypart = (case sm_daypart (ob_semantic_time ob) of None \<Rightarrow> '''' | Some d \<Rightarrow> daypart_value d),
      obr_window_kind = (case ob_effective_window ob of None \<Rightarrow> ''unresolved'' | Some w \<Rightarrow> window_kind_value (ew_kind w)),
      obr_start_at = map_option ew_start_at (ob_effective_window ob),
      obr_end_at = Option.bind (ob_effective_window ob) ew_end_at\<rparr>"
    by (simp add: observation_to_row_def)
  from assms(1) have scope: "scope_valid (ob_scope ob)" and head: "all_clear (observation_head_checks ob)"
    and tail: "all_clear (observation_tail_checks ob)" and froz: "frozen (ob_value ob)"
    by (simp_all add: observation_whole_def observation_valid_def)
  have sync: "mk_sync (ob_scope ob) (ob_origin_runtime_id ob) (ob_id ob) (sf_version (ob_sync ob))
      (sf_idempotency_key (ob_sync ob)) = ob_sync ob"
    using tail by (simp add: observation_tail_checks_def sync_eq_mk)
  have time: "read_semantic_time r = Inr (ob_semantic_time ob)"
  proof (cases "sm_daypart (ob_semantic_time ob)")
    case None
    with assms(1) show ?thesis
      by (cases "ob_semantic_time ob") (simp add: r read_semantic_time_def observation_whole_def mk_semantic_time_def guarded_clear)
  next
    case (Some d)
    moreover have "daypart_value d \<noteq> ''''" by (cases d) simp_all
    ultimately show ?thesis using assms(1)
      by (cases "ob_semantic_time ob") (simp add: r read_semantic_time_def observation_whole_def mk_semantic_time_def guarded_clear)
  qed
  have window: "read_effective_window r = Inr (ob_effective_window ob)"
  proof (cases "ob_effective_window ob")
    case None
    then show ?thesis by (simp add: r read_effective_window_def)
  next
    case (Some w)
    moreover have "window_kind_value (ew_kind w) \<noteq> ''unresolved'' \<and> window_kind_value (ew_kind w) \<noteq> ''''"
      by (cases "ew_kind w") simp_all
    ultimately show ?thesis using assms(1)
      by (cases w) (simp add: r read_effective_window_def observation_whole_def mk_effective_window_def guarded_clear)
  qed
  have checks: "observation_head_checks (ob\<lparr>ob_value := u\<rparr>) = observation_head_checks ob"
    "observation_tail_checks (ob\<lparr>ob_value := u\<rparr>) = observation_tail_checks ob" for u
    by (simp_all add: observation_head_checks_def observation_tail_checks_def)
  have read: "mk_observation (ob\<lparr>ob_value := v\<rparr>) = Inr ob"
    using head tail by (simp add: mk_observation_def guarded_clear checks thaw_fact [OF froz v])
  have fields: "obr_scope r = scope_values (ob_scope ob)" "obr_id r = ob_id ob"
    "obr_interaction_id r = ob_interaction_id ob" "obr_type r = ob_type ob" "obr_key r = ob_key ob"
    "obr_value r = v" "obr_confidence r = ob_confidence ob" "obr_observed_at r = ob_observed_at ob"
    "obr_evidence_refs r = refs_to_text (ob_evidence_refs ob)" "obr_origin_runtime_id r = ob_origin_runtime_id ob"
    "obr_sync_version r = sf_version (ob_sync ob)" "obr_sync_idem_key r = sf_idempotency_key (ob_sync ob)"
    "obr_modality r = modality_value (ob_modality ob)"
    by (simp_all add: r)
  have whole: "\<lparr>ob_id = ob_id ob, ob_interaction_id = ob_interaction_id ob, ob_scope = ob_scope ob, ob_type = ob_type ob,
        ob_key = ob_key ob, ob_value = v, ob_confidence = ob_confidence ob, ob_observed_at = ob_observed_at ob,
        ob_evidence_refs = ob_evidence_refs ob, ob_origin_runtime_id = ob_origin_runtime_id ob,
        ob_sync = ob_sync ob, ob_modality = ob_modality ob, ob_semantic_time = ob_semantic_time ob,
        ob_effective_window = ob_effective_window ob\<rparr> = ob\<lparr>ob_value := v\<rparr>" by simp
  show ?thesis
    by (simp add: observation_from_row_def fields scope_round_trip [OF scope] time window sync whole read)
qed

end
