(* ===== verification/Fact_Store.thy ===== *)
theory Fact_Store
  imports Fact_Contracts
begin

text \<open>
  The durable store of facts (\<^verbatim>\<open>SqliteFactBackend\<close> and \<^verbatim>\<open>SqliteFactReader\<close> of \<^verbatim>\<open>facts/persistence.py\<close>):
  three tables in row order. Every write is one \<^verbatim>\<open>with self._conn:\<close> block, so no transaction is open
  between two calls and a state of the file is a state of its tables.
\<close>

section \<open>Tables and blocks\<close>

record fact_tables =
  ft_interactions :: "interaction_row list"
  ft_evidence :: "evidence_row list"
  ft_observations :: "observation_row list"

definition no_facts :: fact_tables where
  "no_facts = \<lparr>ft_interactions = [], ft_evidence = [], ft_observations = []\<rparr>"

text \<open>A block commits at its end and is rolled back when it raises.\<close>

definition fact_block :: "(fact_tables, 'a) prog \<Rightarrow> (fact_tables, 'a) prog" where
  "fact_block m = (\<lambda>t. case m t of (Inl e, t') \<Rightarrow> (Inl e, t) | (Inr x, t') \<Rightarrow> (Inr x, t'))"

text \<open>\<^verbatim>\<open>return True\<close> at the end, \<^verbatim>\<open>False\<close> for a key that exists.\<close>

definition unless_duplicate :: "(fact_tables, unit) prog \<Rightarrow> (fact_tables, bool) prog" where
  "unless_duplicate m = (\<lambda>t. case m t of
     (Inl (IntegrityError msg), t') \<Rightarrow> (Inr False, t')
   | (Inl e, t') \<Rightarrow> (Inl e, t')
   | (Inr _, t') \<Rightarrow> (Inr True, t'))"

definition fact_int64 :: "int \<Rightarrow> (fact_tables, unit) prog" where
  "fact_int64 i = (if - (2 ^ 63) \<le> i \<and> i < 2 ^ 63 then returnP ()
     else raiseP (OverflowError ''Python int too large to convert to SQLite INTEGER''))"

section \<open>Interactions\<close>

definition load_interactions :: "fact_tables \<Rightarrow> interaction list result" where
  "load_interactions t = mapR interaction_from_row
     (sort_key (\<lambda>r. (dt_instant (iar_started_at r), iar_interaction_id r)) (ft_interactions t))"

definition save_interaction :: "interaction \<Rightarrow> (fact_tables, unit) prog" where
  "save_interaction i = fact_block (writeP (\<lambda>t. t\<lparr>ft_interactions :=
     filter (\<lambda>r. iar_interaction_id r \<noteq> ia_interaction_id i) (ft_interactions t) @ [interaction_to_row i]\<rparr>))"

section \<open>Evidence and observations\<close>

definition evidence_row_key :: "evidence_row \<Rightarrow> scope_columns \<times> string" where
  "evidence_row_key r = (evr_scope r, evr_id r)"

definition observation_row_key :: "observation_row \<Rightarrow> scope_columns \<times> string" where
  "observation_row_key r = (obr_scope r, obr_id r)"

definition insert_evidence :: "evidence \<Rightarrow> string \<Rightarrow> (fact_tables, unit) prog" where
  "insert_evidence e interaction_id = bindP (liftP (evidence_to_row e interaction_id)) (\<lambda>r.
     bindP (fact_int64 (evr_sync_version r)) (\<lambda>_.
     bindP (readP (\<lambda>t. Inr (evidence_row_key r \<in> set (map evidence_row_key (ft_evidence t))))) (\<lambda>taken.
     if taken then raiseP (IntegrityError ''UNIQUE constraint failed: evidence'')
     else writeP (\<lambda>t. t\<lparr>ft_evidence := ft_evidence t @ [r]\<rparr>))))"

definition insert_observation :: "observation \<Rightarrow> (fact_tables, unit) prog" where
  "insert_observation ob = bindP (liftP (observation_to_row ob)) (\<lambda>r.
     bindP (fact_int64 (obr_sync_version r)) (\<lambda>_.
     bindP (readP (\<lambda>t. Inr (observation_row_key r \<in> set (map observation_row_key (ft_observations t))))) (\<lambda>taken.
     if taken then raiseP (IntegrityError ''UNIQUE constraint failed: observations'')
     else writeP (\<lambda>t. t\<lparr>ft_observations := ft_observations t @ [r]\<rparr>))))"

definition load_evidence :: "fact_tables \<Rightarrow> (evidence \<times> string) list result" where
  "load_evidence t = mapR evidence_from_row
     (sort_key (\<lambda>r. (dt_instant (evr_received_at r), evr_id r)) (ft_evidence t))"

definition save_evidence :: "evidence \<Rightarrow> string \<Rightarrow> (fact_tables, bool) prog" where
  "save_evidence e interaction_id = unless_duplicate (fact_block (insert_evidence e interaction_id))"

definition load_observations :: "fact_tables \<Rightarrow> observation list result" where
  "load_observations t = mapR observation_from_row
     (sort_key (\<lambda>r. (dt_instant (obr_observed_at r), obr_id r)) (ft_observations t))"

definition save_observation :: "observation \<Rightarrow> (fact_tables, bool) prog" where
  "save_observation ob = unless_duplicate (fact_block (insert_observation ob))"

definition find_evidence :: "scope \<Rightarrow> string \<Rightarrow> fact_tables \<Rightarrow> (evidence \<times> string) option result" where
  "find_evidence sc evidence_id t =
     (case find (\<lambda>r. evidence_row_key r = (scope_values sc, evidence_id)) (ft_evidence t) of
       None \<Rightarrow> Inr None | Some r \<Rightarrow> bindR (evidence_from_row r) (\<lambda>p. Inr (Some p)))"

definition find_observation :: "scope \<Rightarrow> string \<Rightarrow> fact_tables \<Rightarrow> observation option result" where
  "find_observation sc observation_id t =
     (case find (\<lambda>r. observation_row_key r = (scope_values sc, observation_id)) (ft_observations t) of
       None \<Rightarrow> Inr None | Some r \<Rightarrow> bindR (observation_from_row r) (\<lambda>ob. Inr (Some ob)))"

definition save_admission :: "evidence \<Rightarrow> string \<Rightarrow> observation \<Rightarrow> (fact_tables, bool) prog" where
  "save_admission e interaction_id ob =
     unless_duplicate (fact_block (thenP (insert_evidence e interaction_id) (insert_observation ob)))"

section \<open>What is loaded\<close>

text \<open>What is loaded from sound rows has their keys, so a lookup in it finds what the row reads as.\<close>

lemma distinct_sort_key: "distinct (map key (sort_key f rows)) = distinct (map key rows)"
  by (metis distinct_map distinct_sort set_sort)

lemma loaded_distinct:
  assumes "mapR f (sort_key ord rows) = Inr xs" and "distinct (map key rows)"
    and key: "\<And>r x. r \<in> set rows \<Longrightarrow> f r = Inr x \<Longrightarrow> h (g x) = key r"
  shows "distinct (map g xs)"
proof -
  have all: "list_all2 (\<lambda>r x. f r = Inr x) (sort_key ord rows) xs" using assms(1) by (simp add: mapR_Inr_iff)
  have same: "map (\<lambda>x. h (g x)) xs = map key rs" if "list_all2 (\<lambda>r x. f r = Inr x) rs xs" "set rs \<subseteq> set rows" for rs xs
    using that by (induction rs xs rule: list_all2_induct) (auto simp: key)
  from same [OF all] have "map h (map g xs) = map key (sort_key ord rows)" by (simp add: comp_def)
  moreover have "distinct (map key (sort_key ord rows))" using assms(2) by (simp add: distinct_sort_key)
  ultimately show ?thesis by (metis distinct_map)
qed

lemma loaded_lookup:
  assumes "mapR f (sort_key ord rows) = Inr xs" and "distinct (map key rows)"
    and key: "\<And>r x. r \<in> set rows \<Longrightarrow> f r = Inr x \<Longrightarrow> h (g x) = key r"
  shows "map_of (map (\<lambda>x. (g x, v x)) xs) j = Some y \<longleftrightarrow> (\<exists>r \<in> set rows. \<exists>x. f r = Inr x \<and> g x = j \<and> v x = y)"
proof -
  have all: "list_all2 (\<lambda>r x. f r = Inr x) (sort_key ord rows) xs" using assms(1) by (simp add: mapR_Inr_iff)
  have sources: "(\<exists>x \<in> set xs. P x) \<longleftrightarrow> (\<exists>r \<in> set rs. \<exists>x. f r = Inr x \<and> P x)"
    if "list_all2 (\<lambda>r x. f r = Inr x) rs xs" for rs xs P
    using that by (induction rs xs rule: list_all2_induct) auto
  have "distinct (map g xs)"
    by (rule loaded_distinct [where h = h and key = key, OF assms(1,2) key])
  then have "map_of (map (\<lambda>x. (g x, v x)) xs) j = Some y \<longleftrightarrow> (\<exists>x \<in> set xs. g x = j \<and> v x = y)"
    by (subst map_of_eq_Some_iff) (auto simp: comp_def)
  also have "\<dots> \<longleftrightarrow> (\<exists>r \<in> set (sort_key ord rows). \<exists>x. f r = Inr x \<and> g x = j \<and> v x = y)"
    using sources [OF all] by simp
  finally show ?thesis by simp
qed

lemma option_eqI: "(\<And>y. a = Some y \<longleftrightarrow> b = Some y) \<Longrightarrow> a = b"
  by (cases a; cases b) auto

lemma mapR_Inl: "mapR f xs = Inl e \<Longrightarrow> \<exists>x \<in> set xs. f x = Inl e"
proof (induction xs)
  case (Cons x xs)
  then show ?case by (cases "f x"; cases "mapR f xs") auto
qed simp

end
