(* ===== verification/Fact_Service.thy ===== *)
theory Fact_Service
  imports Fact_Store
begin

text \<open>
  The admission of facts (\<^verbatim>\<open>facts/service.py\<close> with the stores, the provenance log and the validators it
  uses). A service has its append-only caches in memory and, if it is durable, the tables of the file,
  which other services may change between two calls. The clock is the argument \<open>now\<close>, its answer.
  Logging and the observer called after an admission, whose failures are swallowed, are left out.
\<close>

section \<open>Errors and results\<close>

definition AuthorityError :: "string \<Rightarrow> py_error" where
  "AuthorityError msg = RuntimeError (''AuthorityError: '' @ msg)"

definition OwnershipError :: "string \<Rightarrow> py_error" where
  "OwnershipError msg = RuntimeError (''OwnershipError: '' @ msg)"

definition ConflictError :: "string \<Rightarrow> py_error" where
  "ConflictError msg = RuntimeError (''FactAdmissionConflictError: '' @ msg)"

datatype admission_disposition = NEW | REPAIRED | REPLAY

record admission_result =
  ar_observation :: observation
  ar_disposition :: admission_disposition

section \<open>Validators\<close>

definition authority_capable_source_types :: "string list" where
  "authority_capable_source_types = [''user_message'', ''user_profile'', ''typed_event'']"

definition internally_derived_source_types :: "string list" where
  "internally_derived_source_types = [''assistant'', ''assistant_message'', ''assistant_output'',
     ''assistant_expression'', ''model_output'', ''derived_context'', ''internal_projection'']"

definition is_user_fact :: "evidence \<Rightarrow> bool" where
  "is_user_fact e \<longleftrightarrow> ev_source_type e \<in> set authority_capable_source_types \<and> ev_authority_level e \<noteq> NONE"

definition require_user_fact :: "evidence \<Rightarrow> (bool \<times> py_error) list" where
  "require_user_fact e =
     [(ev_source_type e \<notin> set authority_capable_source_types,
       AuthorityError ((if ev_source_type e \<in> set internally_derived_source_types
         then ''internally derived'' else ''unregistered'') @
         '' source type cannot become a user fact: '' @ ev_source_type e)),
      (ev_authority_level e = NONE,
       AuthorityError (''evidence with NONE authority cannot become a user fact: '' @ ev_id e))]"

definition require_owner :: "evidence \<Rightarrow> string \<Rightarrow> string option \<Rightarrow> (bool \<times> py_error) list" where
  "require_owner e writing_runtime writing_persona_id =
     (if sc_domain (ev_scope e) = AGENT
      then [(sc_agent_id (ev_scope e) \<noteq> Some writing_runtime,
             OwnershipError ''runtime cannot write agent scope owned by another''),
            (sc_persona_id (ev_scope e) \<noteq> writing_persona_id,
             OwnershipError ''writing persona cannot write persona scope owned by another'')]
      else if sc_domain (ev_scope e) = RELATIONSHIP
      then [(sc_persona_id (ev_scope e) \<noteq> writing_persona_id,
             OwnershipError ''writing persona cannot write relationship scope owned by another'')]
      else [(writing_persona_id \<noteq> None,
             OwnershipError (scope_domain_value (sc_domain (ev_scope e)) @
               '' scope forbids writing persona authority''))])"

section \<open>The state of a service\<close>

record provenance_entry =
  pe_interaction_id :: string
  pe_evidence_id :: string
  pe_scope :: scope
  pe_source_ref :: string
  pe_occurred_at :: datetime
  pe_received_at :: datetime

record fact_service =
  fs_evidence :: "((scope \<times> string) \<times> evidence) list"
  fs_observations :: "((scope \<times> string) \<times> observation) list"
  fs_provenance :: "provenance_entry list"
  fs_backend :: "fact_tables option"

text \<open>\<^verbatim>\<open>_AppendOnlyStore.append\<close>; the returned flag is \<^verbatim>\<open>get\<close> before the call being \<^verbatim>\<open>None\<close>.\<close>

definition store_append :: "'k \<Rightarrow> 'v \<Rightarrow> ('k \<times> 'v) list \<Rightarrow> ('k \<times> 'v) list" where
  "store_append k v entries = (if map_of entries k = None then entries @ [(k, v)] else entries)"

definition provenance_of :: "evidence \<Rightarrow> string \<Rightarrow> provenance_entry" where
  "provenance_of e interaction_id =
     \<lparr>pe_interaction_id = interaction_id, pe_evidence_id = ev_id e, pe_scope = ev_scope e,
      pe_source_ref = ev_source_id e, pe_occurred_at = ev_occurred_at e, pe_received_at = ev_received_at e\<rparr>"

definition provenance_record :: "evidence \<Rightarrow> string \<Rightarrow> provenance_entry list \<Rightarrow> provenance_entry list" where
  "provenance_record e interaction_id entries =
     (if (ev_scope e, ev_id e) \<in> set (map (\<lambda>p. (pe_scope p, pe_evidence_id p)) entries) then entries
      else entries @ [provenance_of e interaction_id])"

definition provenance_entries :: "string \<Rightarrow> provenance_entry list \<Rightarrow> provenance_entry list" where
  "provenance_entries interaction_id entries = filter (\<lambda>p. pe_interaction_id p = interaction_id) entries"

definition original_interaction :: "evidence \<Rightarrow> provenance_entry list \<Rightarrow> string option" where
  "original_interaction e entries = map_option pe_interaction_id
     (find (\<lambda>p. pe_scope p = ev_scope e \<and> pe_evidence_id p = ev_id e) entries)"

definition remember_evidence :: "evidence \<Rightarrow> string \<Rightarrow> fact_service \<Rightarrow> fact_service" where
  "remember_evidence e interaction_id s =
     s\<lparr>fs_evidence := store_append (ev_scope e, ev_id e) e (fs_evidence s),
       fs_provenance := provenance_record e interaction_id (fs_provenance s)\<rparr>"

definition remember_observation :: "observation \<Rightarrow> fact_service \<Rightarrow> fact_service" where
  "remember_observation ob s = s\<lparr>fs_observations := store_append (ob_scope ob, ob_id ob) ob (fs_observations s)\<rparr>"

text \<open>The constructor: the caches are seeded from the file.\<close>

definition seeded :: "(evidence \<times> string) list \<Rightarrow> observation list \<Rightarrow> fact_service \<Rightarrow> fact_service" where
  "seeded es obs s =
     fold remember_observation obs (fold (\<lambda>(e, i). remember_evidence e i) es s)"

definition new_fact_service :: "fact_tables option \<Rightarrow> fact_service result" where
  "new_fact_service backend =
     (let empty = \<lparr>fs_evidence = [], fs_observations = [], fs_provenance = [], fs_backend = backend\<rparr> in
      case backend of None \<Rightarrow> Inr empty
      | Some t \<Rightarrow> bindR (load_evidence t) (\<lambda>es. bindR (load_observations t) (\<lambda>obs. Inr (seeded es obs empty))))"

section \<open>Calls on the backend\<close>

definition on_facts :: "(fact_tables, 'a) prog \<Rightarrow> (fact_service, 'a) prog" where
  "on_facts m = (\<lambda>s. case fs_backend s of
     None \<Rightarrow> (Inl (AssertionError ''backend''), s)
   | Some t \<Rightarrow> (case m t of (r, t') \<Rightarrow> (r, s\<lparr>fs_backend := Some t'\<rparr>)))"

definition durable :: "fact_service \<Rightarrow> bool" where
  "durable s \<longleftrightarrow> fs_backend s \<noteq> None"

text \<open>\<^verbatim>\<open>self._backend is not None and not self._backend.save(...)\<close>: the write lost against another one.\<close>

definition lost_write :: "(fact_tables, bool) prog \<Rightarrow> (fact_service, bool) prog" where
  "lost_write m = (\<lambda>s. if durable s then bindP (on_facts m) (\<lambda>ok. returnP (\<not> ok)) s else (Inr False, s))"

definition find_stored_evidence :: "scope \<Rightarrow> string \<Rightarrow> (fact_service, (evidence \<times> string) option) prog" where
  "find_stored_evidence sc i = on_facts (readP (find_evidence sc i))"

definition find_stored_observation :: "scope \<Rightarrow> string \<Rightarrow> (fact_service, observation option) prog" where
  "find_stored_observation sc i = on_facts (readP (find_observation sc i))"

section \<open>Admission of evidence\<close>

definition build_observation :: "evidence \<Rightarrow> string \<Rightarrow> datetime \<Rightarrow> observation result" where
  "build_observation e interaction_id observed_at = mk_observation
     \<lparr>ob_id = ''observation-'' @ ev_id e, ob_interaction_id = interaction_id, ob_scope = ev_scope e,
      ob_type = ''factual'', ob_key = ev_source_type e @ ''.observed'', ob_value = ev_payload e,
      ob_confidence = 1, ob_observed_at = observed_at, ob_evidence_refs = [ev_id e],
      ob_origin_runtime_id = ev_origin_runtime_id e,
      ob_sync = mk_sync (ev_scope e) (ev_origin_runtime_id e) (''observation-'' @ ev_id e) 1 (''idem-obs-'' @ ev_id e),
      ob_modality = ASSERTED, ob_semantic_time = default_semantic_time, ob_effective_window = None\<rparr>"

definition admitted :: "admission_disposition \<Rightarrow> observation \<Rightarrow> (fact_service, admission_result) prog" where
  "admitted d ob = bindP (writeP (remember_observation ob)) (\<lambda>_.
     returnP \<lparr>ar_observation = ob, ar_disposition = d\<rparr>)"

definition arbitrate :: "evidence \<Rightarrow> (fact_service, admission_result) prog" where
  "arbitrate e =
     bindP (find_stored_evidence (ev_scope e) (ev_id e)) (\<lambda>stored.
     bindP (find_stored_observation (ev_scope e) (''observation-'' @ ev_id e)) (\<lambda>stored_observation.
     case stored of
       None \<Rightarrow> raiseP (ConflictError ''observation exists without its evidence row'')
     | Some (stored_evidence, stored_interaction) \<Rightarrow>
         if \<not> evidence_eq stored_evidence e
         then raiseP (ConflictError ''evidence reuses (scope, id) with different immutable bytes'')
         else (case stored_observation of
           Some ob \<Rightarrow> admitted REPLAY ob
         | None \<Rightarrow>
             bindP (liftP (build_observation stored_evidence stored_interaction (ev_received_at stored_evidence)))
               (\<lambda>repair. bindP (on_facts (save_observation repair)) (\<lambda>won.
             if won then admitted REPAIRED repair
             else bindP (find_stored_observation (ev_scope e) (''observation-'' @ ev_id e)) (\<lambda>winner. case winner of
                 None \<Rightarrow> raiseP (ConflictError ''observation still missing after arbitration'')
               | Some ob \<Rightarrow> admitted REPLAY ob))))))"

definition different_bytes :: "evidence \<Rightarrow> evidence option \<Rightarrow> (fact_service, bool) prog" where
  "different_bytes e cached = (\<lambda>s. case cached of
     None \<Rightarrow> (Inr False, s)
   | Some stored \<Rightarrow> if evidence_eq stored e then (Inr False, s)
       else if \<not> durable s then (Inr True, s)
       else bindP (find_stored_evidence (ev_scope e) (ev_id e)) (\<lambda>pair. returnP (case pair of
           None \<Rightarrow> True | Some (b, _) \<Rightarrow> \<not> evidence_eq b e)) s)"

definition admit_new :: "evidence \<Rightarrow> string \<Rightarrow> datetime \<Rightarrow> (fact_service, admission_result) prog" where
  "admit_new e interaction_id now =
     bindP (liftP (build_observation e interaction_id now)) (\<lambda>ob.
     bindP (lost_write (save_admission e interaction_id ob)) (\<lambda>lost.
     if lost then arbitrate e else admitted NEW ob))"

text \<open>The crash window: the evidence is there, its observation is not.\<close>

definition repair_interaction :: "evidence \<Rightarrow> string option \<Rightarrow> (fact_service, string option) prog" where
  "repair_interaction e original = (\<lambda>s. if durable s
     then bindP (find_stored_evidence (ev_scope e) (ev_id e)) (\<lambda>pair. case pair of
         None \<Rightarrow> raiseP (ConflictError ''evidence row is missing from the durable store'')
       | Some (b, i) \<Rightarrow> returnP (Some i)) s
     else (Inr original, s))"

definition repair :: "evidence \<Rightarrow> string option \<Rightarrow> (fact_service, admission_result) prog" where
  "repair e original = bindP (repair_interaction e original) (\<lambda>found. case found of
     None \<Rightarrow> raiseP (ConflictError ''evidence has no original provenance interaction'')
   | Some i \<Rightarrow> bindP (liftP (build_observation e i (ev_received_at e))) (\<lambda>ob.
       bindP (lost_write (save_observation ob)) (\<lambda>lost.
       if lost then arbitrate e else admitted REPAIRED ob)))"

definition reject :: "evidence \<Rightarrow> string \<Rightarrow> bool \<Rightarrow> py_error \<Rightarrow> (fact_service, admission_result) prog" where
  "reject e interaction_id is_new_evidence err =
     bindP (if is_new_evidence then lost_write (save_evidence e interaction_id) else returnP False) (\<lambda>_. raiseP err)"

definition admit_fact :: "evidence \<Rightarrow> string \<Rightarrow> string \<Rightarrow> string option \<Rightarrow> datetime \<Rightarrow> (fact_service, admission_result) prog" where
  "admit_fact e interaction_id writing_runtime writing_persona_id now = (\<lambda>s.
     let stored_evidence = map_of (fs_evidence s) (ev_scope e, ev_id e);
         stored_observation = map_of (fs_observations s) (ev_scope e, ''observation-'' @ ev_id e);
         original = original_interaction e (fs_provenance s)
     in if stored_observation \<noteq> None \<and> stored_evidence = None
       then (Inl (ConflictError ''observation exists without its evidence row''), s)
       else bindP (different_bytes e stored_evidence) (\<lambda>different.
         if different then raiseP (ConflictError ''evidence reuses (scope, id) with different immutable bytes'')
         else case guarded (require_user_fact e @ require_owner e writing_runtime writing_persona_id) () of
           Inl err \<Rightarrow> reject e interaction_id (stored_evidence = None) err
         | Inr _ \<Rightarrow> (case stored_observation of
             Some ob \<Rightarrow> returnP \<lparr>ar_observation = ob, ar_disposition = REPLAY\<rparr>
           | None \<Rightarrow> if stored_evidence = None then admit_new e interaction_id now else repair e original))
         (remember_evidence e interaction_id s))"

section \<open>Reality interpretations\<close>

definition allowed_reality_prefixes :: "string list" where
  "allowed_reality_prefixes = [''user.health.'', ''user.activity.'', ''user.plan.'']"

definition allowed_reality_suffixes :: "string list" where
  "allowed_reality_suffixes = [''observed'', ''cancelled'', ''completed'', ''resolved'']"

text \<open>\<^verbatim>\<open>key.split(".")\<close>: the last part, if there are two, with what stands before its dot.\<close>

definition last_part :: "string \<Rightarrow> string" where
  "last_part key = rev (takeWhile (\<lambda>c. c \<noteq> CHR ''.'') (rev key))"

definition before_last_part :: "string \<Rightarrow> string" where
  "before_last_part key = take (length key - length (last_part key) - 1) key"

definition reality_base :: "string \<Rightarrow> string" where
  "reality_base key = (if CHR ''.'' \<in> set key \<and> last_part key \<in> set allowed_reality_suffixes
     then before_last_part key else key)"

definition starts_with :: "string \<Rightarrow> string \<Rightarrow> bool" where
  "starts_with p s \<longleftrightarrow> take (length p) s = p"

definition reality_allowed :: "string \<Rightarrow> bool" where
  "reality_allowed key \<longleftrightarrow> reality_base key = ''user.sleep.phase'' \<or>
     list_ex (\<lambda>p. starts_with p (reality_base key) \<and> length p < length (reality_base key)) allowed_reality_prefixes"

definition validate_reality_namespace :: "string \<Rightarrow> (bool \<times> py_error) list" where
  "validate_reality_namespace key =
     [(strip key = '''', AuthorityError ''Reality namespace is invalid''),
      (\<not> reality_allowed key, AuthorityError ''Reality namespace is not permitted for reality admission'')]"

record reality_request =
  rr_source_evidence :: evidence
  rr_interaction_id :: string
  rr_writing_runtime :: string
  rr_writing_persona_id :: "string option"
  rr_observation_id :: string
  rr_key :: string
  rr_value :: py_value
  rr_confidence :: rat
  rr_modality :: observation_modality
  rr_semantic_time :: semantic_time
  rr_effective_window :: "effective_window option"

definition reality_gate :: "reality_request \<Rightarrow> (bool \<times> py_error) list" where
  "reality_gate q =
     [(ev_source_type (rr_source_evidence q) \<noteq> ''user_message'',
       AuthorityError ''typed reality requires user_message evidence'')] @
     validate_reality_namespace (rr_key q) @ require_user_fact (rr_source_evidence q) @
     require_owner (rr_source_evidence q) (rr_writing_runtime q) (rr_writing_persona_id q)"

text \<open>\<^verbatim>\<open>original_interaction_id or request.interaction_id\<close>.\<close>

definition or_else :: "string option \<Rightarrow> string \<Rightarrow> string" where
  "or_else a b = (case a of Some x \<Rightarrow> if x = '''' then b else x | None \<Rightarrow> b)"

text \<open>The observation has the parts the request asks for, compared as the code compares them.\<close>

definition reality_matches :: "observation \<Rightarrow> reality_request \<Rightarrow> string \<Rightarrow> bool" where
  "reality_matches ob q causal \<longleftrightarrow> ob_key ob = rr_key q \<and> py_eq (ob_value ob) (rr_value q) \<and>
     ob_confidence ob = rr_confidence q \<and> ob_modality ob = rr_modality q \<and>
     ob_semantic_time ob = rr_semantic_time q \<and> ob_effective_window ob = rr_effective_window q \<and>
     ob_evidence_refs ob = [ev_id (rr_source_evidence q)] \<and>
     ob_observed_at ob = ev_received_at (rr_source_evidence q) \<and> ob_interaction_id ob = causal"

definition same_reality :: "observation \<Rightarrow> observation \<Rightarrow> bool" where
  "same_reality a b \<longleftrightarrow> ob_key a = ob_key b \<and> py_eq (ob_value a) (ob_value b) \<and>
     ob_confidence a = ob_confidence b \<and> ob_modality a = ob_modality b \<and>
     ob_semantic_time a = ob_semantic_time b \<and> ob_effective_window a = ob_effective_window b \<and>
     ob_evidence_refs a = ob_evidence_refs b \<and> ob_observed_at a = ob_observed_at b \<and>
     ob_interaction_id a = ob_interaction_id b"

definition reality_observation :: "reality_request \<Rightarrow> string \<Rightarrow> observation result" where
  "reality_observation q causal = (let e = rr_source_evidence q in mk_observation
     \<lparr>ob_id = rr_observation_id q, ob_interaction_id = causal, ob_scope = ev_scope e, ob_type = ''factual'',
      ob_key = rr_key q, ob_value = rr_value q, ob_confidence = rr_confidence q,
      ob_observed_at = ev_received_at e, ob_evidence_refs = [ev_id e],
      ob_origin_runtime_id = ev_origin_runtime_id e,
      ob_sync = mk_sync (ev_scope e) (ev_origin_runtime_id e) (rr_observation_id q) 1 (''idem-'' @ rr_observation_id q),
      ob_modality = rr_modality q, ob_semantic_time = rr_semantic_time q,
      ob_effective_window = rr_effective_window q\<rparr>)"

text \<open>What the cache does not have is looked up in the file.\<close>

definition cached_or_stored :: "'a option \<Rightarrow> (fact_service, 'a option) prog \<Rightarrow> (fact_service, 'a option) prog" where
  "cached_or_stored cached lookup = (\<lambda>s. if cached = None \<and> durable s then lookup s else (Inr cached, s))"

definition causal_interaction :: "reality_request \<Rightarrow> (fact_service, string) prog" where
  "causal_interaction q = (\<lambda>s. let e = rr_source_evidence q; original = original_interaction e (fs_provenance s) in
     if durable s
     then bindP (find_stored_evidence (ev_scope e) (ev_id e)) (\<lambda>pair.
         returnP (or_else (case pair of None \<Rightarrow> original | Some (b, i) \<Rightarrow> Some i) (rr_interaction_id q))) s
     else (Inr (or_else original (rr_interaction_id q)), s))"

definition arbitrate_reality :: "observation \<Rightarrow> (fact_service, admission_result) prog" where
  "arbitrate_reality ob = bindP (find_stored_observation (ob_scope ob) (ob_id ob)) (\<lambda>winner. case winner of
     None \<Rightarrow> raiseP (ConflictError ''reality observation lost durable arbitration'')
   | Some w \<Rightarrow> if same_reality w ob then admitted REPLAY w
       else raiseP (ConflictError ''reality observation conflicts after arbitration''))"

definition admit_reality :: "reality_request \<Rightarrow> (fact_service, admission_result) prog" where
  "admit_reality q = (let e = rr_source_evidence q in
     bindP (liftP (guarded (reality_gate q) ())) (\<lambda>_ s.
     bindP (cached_or_stored (map_of (fs_evidence s) (ev_scope e, ev_id e))
         (bindP (find_stored_evidence (ev_scope e) (ev_id e)) (\<lambda>pair. returnP (map_option fst pair)))) (\<lambda>stored.
     if \<not> (case stored of None \<Rightarrow> False | Some b \<Rightarrow> evidence_eq b e)
     then raiseP (ConflictError ''typed reality source evidence was not admitted'')
     else bindP (causal_interaction q) (\<lambda>causal.
     bindP (cached_or_stored (map_of (fs_observations s) (ev_scope e, rr_observation_id q))
         (find_stored_observation (ev_scope e) (rr_observation_id q))) (\<lambda>existing.
     case existing of
       Some ob \<Rightarrow> if reality_matches ob q causal then returnP \<lparr>ar_observation = ob, ar_disposition = REPLAY\<rparr>
         else raiseP (ConflictError ''reality observation conflicts with stored bytes'')
     | None \<Rightarrow> bindP (liftP (reality_observation q causal)) (\<lambda>ob.
         bindP (lost_write (save_observation ob)) (\<lambda>lost.
         if lost then arbitrate_reality ob else admitted NEW ob))))) s))"

definition admit_typed_reality ::
  "evidence \<Rightarrow> string \<Rightarrow> string \<Rightarrow> string option \<Rightarrow> string \<Rightarrow> string \<Rightarrow> py_value \<Rightarrow> rat \<Rightarrow> (fact_service, admission_result) prog" where
  "admit_typed_reality e interaction_id writing_runtime writing_persona_id observation_id key val confidence =
     admit_reality \<lparr>rr_source_evidence = e, rr_interaction_id = interaction_id, rr_writing_runtime = writing_runtime,
       rr_writing_persona_id = writing_persona_id, rr_observation_id = observation_id, rr_key = key, rr_value = val,
       rr_confidence = confidence, rr_modality = ASSERTED, rr_semantic_time = default_semantic_time,
       rr_effective_window = None\<rparr>"

section \<open>Operational facts\<close>

definition allowed_operational_keys :: "string list" where
  "allowed_operational_keys = [''counter.last_proactive_at'', ''counter.proactive_prompts_since_photo'']"

definition operational_source_type :: string where
  "operational_source_type = ''settled_action_projection''"

definition validate_operational_key :: "string \<Rightarrow> (bool \<times> py_error) list" where
  "validate_operational_key key = [require_non_empty key ''key'',
     (key \<notin> set allowed_operational_keys, ValueError ''unknown operational key'')]"

definition validate_action_type :: "delivery_request \<Rightarrow> (bool \<times> py_error) list" where
  "validate_action_type q = [(rq_action_type q = '''', ValueError ''request.action_type is required (non-empty) for a settled-action projection'')]"

definition validate_settled_at :: "datetime \<Rightarrow> (bool \<times> py_error) list" where
  "validate_settled_at t = [(\<not> is_aware_utc t, ValueError ''settled_at must be timezone-aware UTC'')]"

definition is_known_action_type :: "string \<Rightarrow> bool" where
  "is_known_action_type action_type \<longleftrightarrow> action_type \<in> {''proactive_message'', ''send_photo''}"

definition validate_operational_authority :: "evidence \<Rightarrow> delivery_request \<Rightarrow> delivery_receipt \<Rightarrow> (bool \<times> py_error) list" where
  "validate_operational_authority e q r =
     [require_non_empty (ev_source_type e) ''source_type'',
      (ev_source_type e \<noteq> operational_source_type, ValueError ''operational facts require another source_type''),
      (ev_authority_level e \<noteq> SYSTEM, ValueError ''operational facts require SYSTEM authority''),
      (dr_receipt_id r = '''', ValueError ''receipt.receipt_id is required''),
      (ev_source_id e \<noteq> dr_receipt_id r, ValueError ''operational fact evidence.source_id must equal receipt.receipt_id''),
      (ev_scope e \<noteq> rq_scope q \<or> ev_scope e \<noteq> dr_scope r,
       ValueError ''operational fact scope must match request and receipt scope''),
      (dr_delivery_status r \<noteq> SENT, ValueError ''settled-action projection requires receipt delivery_status=SENT'')] @
     validate_action_type q @
     (case dr_delivered_at r of
        None \<Rightarrow> [(True, ValueError ''settled-action projection requires receipt.delivered_at'')]
      | Some t \<Rightarrow> validate_settled_at t) @
     validate_sync_fields (ev_sync e) (ev_scope e) (ev_origin_runtime_id e) (ev_id e) None"

definition operational_evidence :: "string \<Rightarrow> string \<Rightarrow> delivery_receipt \<Rightarrow> datetime \<Rightarrow> evidence result" where
  "operational_evidence key val r observed_at =
     (let i = ''op-evidence-'' @ dr_receipt_id r @ ''-'' @ key;
          authority = \<lparr>au_scope = dr_scope r, au_level = SYSTEM, au_source_id = Some (dr_receipt_id r)\<rparr>
      in bindR (guarded (authority_checks authority) ()) (\<lambda>_. mk_evidence
       \<lparr>ev_id = i, ev_source_type = operational_source_type, ev_source_id = dr_receipt_id r,
        ev_authority_level = SYSTEM, ev_occurred_at = observed_at, ev_received_at = observed_at,
        ev_payload = VMap [(VStr ''key'', VStr key), (VStr ''value'', VStr val)],
        ev_scope = dr_scope r, ev_origin_runtime_id = dr_origin_runtime_id r, ev_authority = authority,
        ev_sync = mk_sync (dr_scope r) (dr_origin_runtime_id r) i 1
          (''idem-op-evidence-'' @ dr_receipt_id r @ ''-'' @ key)\<rparr>))"

definition operational_observation :: "string \<Rightarrow> string \<Rightarrow> delivery_receipt \<Rightarrow> datetime \<Rightarrow> observation result" where
  "operational_observation key val r observed_at =
     (let i = ''op-'' @ dr_receipt_id r @ ''-'' @ key in mk_observation
       \<lparr>ob_id = i, ob_interaction_id = ''operational-'' @ dr_receipt_id r @ ''-'' @ key, ob_scope = dr_scope r,
        ob_type = ''operational'', ob_key = key, ob_value = VStr val, ob_confidence = 1,
        ob_observed_at = observed_at, ob_evidence_refs = [dr_receipt_id r],
        ob_origin_runtime_id = dr_origin_runtime_id r,
        ob_sync = mk_sync (dr_scope r) (dr_origin_runtime_id r) i 1 (''idem-'' @ i),
        ob_modality = ASSERTED, ob_semantic_time = default_semantic_time, ob_effective_window = None\<rparr>)"

text \<open>
  The outer \<^verbatim>\<open>with self._backend._conn:\<close> adds nothing: each save is a block of its own, which commits.
  Their results are ignored.
\<close>

definition store_operational :: "evidence \<Rightarrow> observation \<Rightarrow> (fact_service, unit) prog" where
  "store_operational e ob = (\<lambda>s. if durable s
     then thenP (on_facts (save_evidence e (ob_interaction_id ob)))
       (bindP (on_facts (save_observation ob)) (\<lambda>_. returnP ())) s
     else (Inr (), s))"

definition settled_time :: "delivery_receipt \<Rightarrow> datetime option \<Rightarrow> datetime result" where
  "settled_time r observed_at = (case observed_at of Some t \<Rightarrow> Inr t
   | None \<Rightarrow> (case dr_delivered_at r of Some t \<Rightarrow> Inr t
     | None \<Rightarrow> Inl (ValueError ''settled-action projection requires receipt.delivered_at; refuse to fabricate observed_at'')))"

definition admit_operational_fact ::
  "string \<Rightarrow> string \<Rightarrow> delivery_request \<Rightarrow> delivery_receipt \<Rightarrow> datetime option \<Rightarrow> (fact_service, observation) prog" where
  "admit_operational_fact key val q r observed_at =
     bindP (liftP (guarded (validate_operational_key key @ [require_non_empty val ''value''] @ validate_action_type q) ())) (\<lambda>_.
     bindP (liftP (settled_time r observed_at)) (\<lambda>t.
     bindP (liftP (guarded (validate_settled_at t) ())) (\<lambda>_.
     bindP (liftP (operational_evidence key val r t)) (\<lambda>e.
     bindP (liftP (guarded (validate_operational_authority e q r) ())) (\<lambda>_ s.
     case map_of (fs_observations s) (dr_scope r, ''op-'' @ dr_receipt_id r @ ''-'' @ key) of
       Some ob \<Rightarrow> (Inr ob, s)
     | None \<Rightarrow> bindP (liftP (operational_observation key val r t)) (\<lambda>ob.
         bindP (store_operational e ob) (\<lambda>_. bindP (writeP (remember_observation ob)) (\<lambda>_. returnP ob))) s)))))"

end
