(* ===== verification/Fact_Durable.thy ===== *)
theory Fact_Durable
  imports Fact_Service
begin

text \<open>
  The file of facts: which states of its tables are sound, how they grow, and what every write and every
  lookup does on a sound file.
\<close>

section \<open>Sound files\<close>

definition evidence_row_sound :: "evidence_row \<Rightarrow> bool" where
  "evidence_row_sound r \<longleftrightarrow> (\<exists>e i. evidence_valid e \<and> evidence_to_row e i = Inr r)"

definition observation_row_sound :: "observation_row \<Rightarrow> bool" where
  "observation_row_sound r \<longleftrightarrow> (\<exists>ob. observation_whole ob \<and> observation_to_row ob = Inr r)"

definition facts_sound :: "fact_tables \<Rightarrow> bool" where
  "facts_sound t \<longleftrightarrow> distinct (map evidence_row_key (ft_evidence t)) \<and>
     distinct (map observation_row_key (ft_observations t)) \<and>
     list_all evidence_row_sound (ft_evidence t) \<and> list_all observation_row_sound (ft_observations t)"

definition facts_grow :: "fact_tables \<Rightarrow> fact_tables \<Rightarrow> bool" where
  "facts_grow t t' \<longleftrightarrow> (\<exists>es obs. ft_evidence t' = ft_evidence t @ es \<and> ft_observations t' = ft_observations t @ obs)"

lemma facts_grow_refl [simp]: "facts_grow t t"
  by (simp add: facts_grow_def)

lemma facts_grow_trans: "facts_grow t u \<Longrightarrow> facts_grow u v \<Longrightarrow> facts_grow t v"
  by (auto simp: facts_grow_def)

definition has_evidence_key :: "fact_tables \<Rightarrow> scope \<Rightarrow> string \<Rightarrow> bool" where
  "has_evidence_key t sc i \<longleftrightarrow> (scope_values sc, i) \<in> set (map evidence_row_key (ft_evidence t))"

definition has_observation_key :: "fact_tables \<Rightarrow> scope \<Rightarrow> string \<Rightarrow> bool" where
  "has_observation_key t sc i \<longleftrightarrow> (scope_values sc, i) \<in> set (map observation_row_key (ft_observations t))"

lemma key_grows:
  "facts_grow t t' \<Longrightarrow> has_evidence_key t sc i \<Longrightarrow> has_evidence_key t' sc i"
  "facts_grow t t' \<Longrightarrow> has_observation_key t sc i \<Longrightarrow> has_observation_key t' sc i"
  by (auto simp: facts_grow_def has_evidence_key_def has_observation_key_def)

text \<open>What the file holds under a key.\<close>

definition holds_evidence :: "fact_tables \<Rightarrow> evidence \<Rightarrow> string \<Rightarrow> bool" where
  "holds_evidence t e i \<longleftrightarrow> find_evidence (ev_scope e) (ev_id e) t = Inr (Some (e, i))"

definition holds_observation :: "fact_tables \<Rightarrow> observation \<Rightarrow> bool" where
  "holds_observation t ob \<longleftrightarrow> find_observation (ob_scope ob) (ob_id ob) t = Inr (Some ob)"

lemma evidence_row_fields: "evidence_to_row e i = Inr r \<Longrightarrow> evidence_row_key r = (scope_values (ev_scope e), ev_id e)"
  by (auto simp: evidence_to_row_def evidence_row_key_def bindR_Inr_iff)

lemma observation_row_fields: "observation_to_row ob = Inr r \<Longrightarrow> observation_row_key r = (scope_values (ob_scope ob), ob_id ob)"
  by (auto simp: observation_to_row_def observation_row_key_def bindR_Inr_iff)

lemma observation_whole_scope: "observation_whole ob \<Longrightarrow> scope_valid (ob_scope ob)"
  by (simp add: observation_whole_def observation_valid_def)

lemma evidence_valid_scope: "evidence_valid e \<Longrightarrow> scope_valid (ev_scope e)"
  by (simp add: evidence_valid_def)

lemma find_observation_cases:
  assumes "facts_sound t" and "scope_valid sc"
  obtains "find_observation sc i t = Inr None" and "\<not> has_observation_key t sc i"
  | ob where "find_observation sc i t = Inr (Some ob)" and "has_observation_key t sc i"
    and "ob_scope ob = sc" and "ob_id ob = i" and "observation_whole ob" and "holds_observation t ob"
proof (cases "find (\<lambda>r. observation_row_key r = (scope_values sc, i)) (ft_observations t)")
  case None
  then have "\<not> has_observation_key t sc i" by (auto simp: has_observation_key_def find_None_iff)
  with None that(1) show thesis by (simp add: find_observation_def)
next
  case (Some r)
  then have r: "r \<in> set (ft_observations t)" "observation_row_key r = (scope_values sc, i)"
    by (auto dest: find_key_Some)
  with assms(1) obtain ob where ob: "observation_whole ob" "observation_to_row ob = Inr r"
    by (auto simp: facts_sound_def observation_row_sound_def list_all_iff)
  from observation_row_fields [OF ob(2)] r(2) have key: "scope_values (ob_scope ob) = scope_values sc" "ob_id ob = i"
    by auto
  with scope_values_inject [OF observation_whole_scope [OF ob(1)] assms(2)] have same: "ob_scope ob = sc" by simp
  have found: "find_observation sc i t = Inr (Some ob)"
    using Some observation_round_trip [OF ob] by (simp add: find_observation_def)
  show thesis
  proof (rule that(2) [OF found _ same key(2) ob(1)])
    show "has_observation_key t sc i" using r by (force simp: has_observation_key_def)
    show "holds_observation t ob" using found same key(2) by (simp add: holds_observation_def)
  qed
qed

lemma find_evidence_cases:
  assumes "facts_sound t" and "scope_valid sc"
  obtains "find_evidence sc k t = Inr None" and "\<not> has_evidence_key t sc k"
  | e i where "find_evidence sc k t = Inr (Some (e, i))" and "has_evidence_key t sc k"
    and "ev_scope e = sc" and "ev_id e = k" and "evidence_valid e" and "holds_evidence t e i"
proof (cases "find (\<lambda>r. evidence_row_key r = (scope_values sc, k)) (ft_evidence t)")
  case None
  then have "\<not> has_evidence_key t sc k" by (auto simp: has_evidence_key_def find_None_iff)
  with None that(1) show thesis by (simp add: find_evidence_def)
next
  case (Some r)
  then have r: "r \<in> set (ft_evidence t)" "evidence_row_key r = (scope_values sc, k)"
    by (auto dest: find_key_Some)
  with assms(1) obtain e i where e: "evidence_valid e" "evidence_to_row e i = Inr r"
    by (auto simp: facts_sound_def evidence_row_sound_def list_all_iff)
  from evidence_row_fields [OF e(2)] r(2) have key: "scope_values (ev_scope e) = scope_values sc" "ev_id e = k"
    by auto
  with scope_values_inject [OF evidence_valid_scope [OF e(1)] assms(2)] have same: "ev_scope e = sc" by simp
  have found: "find_evidence sc k t = Inr (Some (e, i))"
    using Some evidence_round_trip [OF e] by (simp add: find_evidence_def)
  show thesis
  proof (rule that(2) [OF found _ same key(2) e(1)])
    show "has_evidence_key t sc k" using r by (force simp: has_evidence_key_def)
    show "holds_evidence t e i" using found same key(2) by (simp add: holds_evidence_def)
  qed
qed

lemma holds_grows:
  assumes "facts_grow t t'"
  shows "holds_observation t ob \<Longrightarrow> holds_observation t' ob"
    and "holds_evidence t e i \<Longrightarrow> holds_evidence t' e i"
  using assms by (auto simp: facts_grow_def holds_observation_def find_observation_def holds_evidence_def
      find_evidence_def find_append split: option.splits)

lemma holds_key:
  "holds_observation t ob \<Longrightarrow> has_observation_key t (ob_scope ob) (ob_id ob)"
  "holds_evidence t e i \<Longrightarrow> has_evidence_key t (ev_scope e) (ev_id e)"
  by (auto simp: holds_observation_def find_observation_def has_observation_key_def holds_evidence_def
      find_evidence_def has_evidence_key_def split: option.splits dest!: find_key_Some intro: rev_image_eqI)

section \<open>Writes\<close>

text \<open>A write raises and changes nothing, finds its key taken and changes nothing, or adds its rows.\<close>

lemma fact_json_error: "fact_json v = Inl e \<Longrightarrow> e = not_json"
proof (induction v rule: py_value_induct)
  case (Map es)
  then obtain p where p: "p \<in> set es" and "(\<lambda>(k, v). bindR (fact_json v) (\<lambda>w. Inr (k, w))) p = Inl e"
    by (auto simp: bindR_def split: sum.splits dest!: mapR_Inl)
  then have "fact_json (snd p) = Inl e" by (auto simp: bindR_def split: sum.splits prod.splits)
  with Map.IH [OF p] show ?case by blast
qed (auto simp: fact_json_num bindR_def split: sum.splits dest!: mapR_Inl)

lemma insert_observation_run:
  "insert_observation ob t = (case observation_to_row ob of
     Inl e \<Rightarrow> (Inl e, t)
   | Inr r \<Rightarrow> if \<not> (- (2 ^ 63) \<le> obr_sync_version r \<and> obr_sync_version r < 2 ^ 63)
       then (Inl (OverflowError ''Python int too large to convert to SQLite INTEGER''), t)
       else if has_observation_key t (ob_scope ob) (ob_id ob)
       then (Inl (IntegrityError ''UNIQUE constraint failed: observations''), t)
       else (Inr (), t\<lparr>ft_observations := ft_observations t @ [r]\<rparr>))"
proof (cases "observation_to_row ob")
  case (Inr r)
  then show ?thesis
    using observation_row_fields [OF Inr]
    by (simp add: insert_observation_def bindP_def fact_int64_def has_observation_key_def)
qed (simp add: insert_observation_def bindP_def)

lemma insert_evidence_run:
  "insert_evidence e i t = (case evidence_to_row e i of
     Inl err \<Rightarrow> (Inl err, t)
   | Inr r \<Rightarrow> if \<not> (- (2 ^ 63) \<le> evr_sync_version r \<and> evr_sync_version r < 2 ^ 63)
       then (Inl (OverflowError ''Python int too large to convert to SQLite INTEGER''), t)
       else if has_evidence_key t (ev_scope e) (ev_id e)
       then (Inl (IntegrityError ''UNIQUE constraint failed: evidence''), t)
       else (Inr (), t\<lparr>ft_evidence := ft_evidence t @ [r]\<rparr>))"
proof (cases "evidence_to_row e i")
  case (Inr r)
  then show ?thesis
    using evidence_row_fields [OF Inr]
    by (simp add: insert_evidence_def bindP_def fact_int64_def has_evidence_key_def)
qed (simp add: insert_evidence_def bindP_def)

lemma row_errors:
  "observation_to_row ob = Inl e \<Longrightarrow> e = not_json"
  "evidence_to_row ev i = Inl e \<Longrightarrow> e = not_json"
  by (auto simp: observation_to_row_def evidence_to_row_def bindR_def split: sum.splits dest: fact_json_error)

lemma sound_new_observation:
  assumes "facts_sound t" and "observation_whole ob" and "observation_to_row ob = Inr r"
    and "\<not> has_observation_key t (ob_scope ob) (ob_id ob)"
  shows "facts_sound (t\<lparr>ft_observations := ft_observations t @ [r]\<rparr>)"
    and "holds_observation (t\<lparr>ft_observations := ft_observations t @ [r]\<rparr>) ob"
proof -
  note key = observation_row_fields [OF assms(3)]
  show "facts_sound (t\<lparr>ft_observations := ft_observations t @ [r]\<rparr>)"
    using assms key by (auto simp: facts_sound_def observation_row_sound_def has_observation_key_def)
  have "find (\<lambda>r. observation_row_key r = (scope_values (ob_scope ob), ob_id ob)) (ft_observations t) = None"
    using assms(4) by (force simp: has_observation_key_def find_None_iff)
  then show "holds_observation (t\<lparr>ft_observations := ft_observations t @ [r]\<rparr>) ob"
    using key observation_round_trip [OF assms(2,3)]
    by (simp add: holds_observation_def find_observation_def find_append)
qed

lemma sound_new_evidence:
  assumes "facts_sound t" and "evidence_valid e" and "evidence_to_row e i = Inr r"
    and "\<not> has_evidence_key t (ev_scope e) (ev_id e)"
  shows "facts_sound (t\<lparr>ft_evidence := ft_evidence t @ [r]\<rparr>)"
    and "holds_evidence (t\<lparr>ft_evidence := ft_evidence t @ [r]\<rparr>) e i"
proof -
  note key = evidence_row_fields [OF assms(3)]
  show "facts_sound (t\<lparr>ft_evidence := ft_evidence t @ [r]\<rparr>)"
    using assms key by (auto simp: facts_sound_def evidence_row_sound_def has_evidence_key_def)
  have "find (\<lambda>r. evidence_row_key r = (scope_values (ev_scope e), ev_id e)) (ft_evidence t) = None"
    using assms(4) by (force simp: has_evidence_key_def find_None_iff)
  then show "holds_evidence (t\<lparr>ft_evidence := ft_evidence t @ [r]\<rparr>) e i"
    using key evidence_round_trip [OF assms(2,3)]
    by (simp add: holds_evidence_def find_evidence_def find_append)
qed

lemma save_observation_run:
  "save_observation ob t = (case observation_to_row ob of
     Inl e \<Rightarrow> (Inl e, t)
   | Inr r \<Rightarrow> if \<not> (- (2 ^ 63) \<le> obr_sync_version r \<and> obr_sync_version r < 2 ^ 63)
       then (Inl (OverflowError ''Python int too large to convert to SQLite INTEGER''), t)
       else if has_observation_key t (ob_scope ob) (ob_id ob) then (Inr False, t)
       else (Inr True, t\<lparr>ft_observations := ft_observations t @ [r]\<rparr>))"
proof (cases "observation_to_row ob")
  case (Inl e)
  then show ?thesis using row_errors(1) [OF Inl]
    by (simp add: save_observation_def unless_duplicate_def fact_block_def insert_observation_run not_json_def)
next
  case (Inr r)
  then show ?thesis
    by (simp add: save_observation_def unless_duplicate_def fact_block_def insert_observation_run)
qed

lemma save_evidence_run:
  "save_evidence e i t = (case evidence_to_row e i of
     Inl err \<Rightarrow> (Inl err, t)
   | Inr r \<Rightarrow> if \<not> (- (2 ^ 63) \<le> evr_sync_version r \<and> evr_sync_version r < 2 ^ 63)
       then (Inl (OverflowError ''Python int too large to convert to SQLite INTEGER''), t)
       else if has_evidence_key t (ev_scope e) (ev_id e) then (Inr False, t)
       else (Inr True, t\<lparr>ft_evidence := ft_evidence t @ [r]\<rparr>))"
proof (cases "evidence_to_row e i")
  case (Inl err)
  then show ?thesis using row_errors(2) [OF Inl]
    by (simp add: save_evidence_def unless_duplicate_def fact_block_def insert_evidence_run not_json_def)
next
  case (Inr r)
  then show ?thesis
    by (simp add: save_evidence_def unless_duplicate_def fact_block_def insert_evidence_run)
qed

text \<open>\<^verbatim>\<open>save_admission\<close>: both rows or none.\<close>

lemma save_admission_cases:
  assumes "facts_sound t" and "evidence_valid e" and "observation_whole ob"
  obtains err where "save_admission e i ob t = (Inl err, t)"
  | "save_admission e i ob t = (Inr False, t)"
    and "has_evidence_key t (ev_scope e) (ev_id e) \<or> has_observation_key t (ob_scope ob) (ob_id ob)"
  | t' where "save_admission e i ob t = (Inr True, t')" and "facts_sound t'" and "facts_grow t t'"
    and "holds_evidence t' e i" and "holds_observation t' ob"
    and "\<not> has_evidence_key t (ev_scope e) (ev_id e)" and "\<not> has_observation_key t (ob_scope ob) (ob_id ob)"
proof (cases "insert_evidence e i t")
  case (Pair r1 t1)
  note first = this
  show thesis
  proof (cases r1)
    case (Inl err)
    with first have run: "save_admission e i ob t = (if err = IntegrityError ''UNIQUE constraint failed: evidence''
        then Inr False else Inl err, t)"
      using row_errors(2) [of e i]
      by (auto simp: save_admission_def unless_duplicate_def fact_block_def thenP_def bindP_def insert_evidence_run
          not_json_def split: sum.splits if_splits)
    with first Inl that(1) that(2) show thesis
      by (cases "err = IntegrityError ''UNIQUE constraint failed: evidence''")
        (auto simp: insert_evidence_run dest: row_errors simp: not_json_def split: sum.splits if_splits)
  next
    case (Inr u)
    with first obtain r where r: "evidence_to_row e i = Inr r" "t1 = t\<lparr>ft_evidence := ft_evidence t @ [r]\<rparr>"
      and new: "\<not> has_evidence_key t (ev_scope e) (ev_id e)"
      by (auto simp: insert_evidence_run split: sum.splits if_splits)
    note t1 = sound_new_evidence [OF assms(1,2) r(1) new, folded r(2)]
    have key: "has_observation_key t1 sc k = has_observation_key t sc k" for sc k
      by (simp add: r(2) has_observation_key_def)
    have grow: "facts_grow t t1" by (simp add: r(2) facts_grow_def)
    have run: "save_admission e i ob t = unless_duplicate (\<lambda>_. case insert_observation ob t1 of
        (Inl err, t') \<Rightarrow> (Inl err, t) | (Inr x, t') \<Rightarrow> (Inr x, t')) t"
      using first Inr by (simp add: save_admission_def unless_duplicate_def fact_block_def thenP_def bindP_def)
    show thesis
    proof (cases "insert_observation ob t1")
      case (Pair r2 t2)
      show thesis
      proof (cases r2)
        case (Inl err)
        with Pair run have "save_admission e i ob t = (if err = IntegrityError ''UNIQUE constraint failed: observations''
            then Inr False else Inl err, t)"
          using row_errors(1) [of ob]
          by (auto simp: unless_duplicate_def insert_observation_run not_json_def split: sum.splits if_splits)
        with Pair Inl that(1) that(2) show thesis
          by (cases "err = IntegrityError ''UNIQUE constraint failed: observations''")
            (auto simp: insert_observation_run key dest: row_errors simp: not_json_def split: sum.splits if_splits)
      next
        case (Inr x)
        with Pair obtain q where q: "observation_to_row ob = Inr q" "t2 = t1\<lparr>ft_observations := ft_observations t1 @ [q]\<rparr>"
          and new2: "\<not> has_observation_key t1 (ob_scope ob) (ob_id ob)"
          by (auto simp: insert_observation_run split: sum.splits if_splits)
        note t2 = sound_new_observation [OF t1(1) assms(3) q(1) new2, folded q(2)]
        have grow2: "facts_grow t1 t2" by (simp add: q(2) facts_grow_def)
        from run Pair Inr have "save_admission e i ob t = (Inr True, t2)" by (simp add: unless_duplicate_def)
        from that(3) [OF this t2(1) facts_grow_trans [OF grow grow2] holds_grows(2) [OF grow2 t1(2)] t2(2) new]
        show thesis using new2 key by blast
      qed
    qed
  qed
qed

end
