(* ===== verification/Fact_History.thy ===== *)
theory Fact_History
  imports Fact_Durable
begin

text \<open>
  Any number of services on one file, in every interleaving of their calls, with restarts and with processes
  that end between two writes: what an admission returns is what the file holds, and is admitted once.
\<close>

section \<open>Programs of a service on a sound file\<close>

text \<open>
  A cached observation is the one in the file, or an operational fact, which a service remembers also when
  the file already holds another one under its key.
\<close>

definition operational :: "observation \<Rightarrow> bool" where
  "operational ob \<longleftrightarrow> ob_key ob \<in> set allowed_operational_keys \<and> (\<exists>x. ob_id ob = ''op-'' @ x)"

definition caches_sound :: "fact_service \<Rightarrow> fact_tables \<Rightarrow> bool" where
  "caches_sound s t \<longleftrightarrow> list_all (\<lambda>(k, ob). k = (ob_scope ob, ob_id ob) \<and>
     (holds_observation t ob \<or> operational ob)) (fs_observations s)"

definition service_sound :: "fact_service \<Rightarrow> fact_tables \<Rightarrow> bool" where
  "service_sound s t \<longleftrightarrow> fs_backend s = Some t \<and> facts_sound t \<and> caches_sound s t"

definition fact_triple :: "(fact_tables \<Rightarrow> bool) \<Rightarrow> (fact_service, 'a) prog \<Rightarrow> ('a \<Rightarrow> fact_tables \<Rightarrow> bool) \<Rightarrow> bool" where
  "fact_triple P m Q \<longleftrightarrow> (\<forall>s t. service_sound s t \<and> P t \<longrightarrow>
     (\<exists>t'. service_sound (snd (m s)) t' \<and> facts_grow t t' \<and> (\<forall>x. fst (m s) = Inr x \<longrightarrow> Q x t')))"

lemma fact_tripleI:
  assumes "\<And>s t. service_sound s t \<Longrightarrow> P t \<Longrightarrow>
    \<exists>t'. service_sound (snd (m s)) t' \<and> facts_grow t t' \<and> (\<forall>x. fst (m s) = Inr x \<longrightarrow> Q x t')"
  shows "fact_triple P m Q"
  using assms by (simp add: fact_triple_def)

lemma triple_bind:
  assumes "fact_triple P m R" and "\<And>x. fact_triple (R x) (f x) Q"
  shows "fact_triple P (bindP m f) Q"
proof (rule fact_tripleI)
  fix s t
  assume "service_sound s t" "P t"
  with assms(1) obtain t1 where t1: "service_sound (snd (m s)) t1" "facts_grow t t1"
    and post: "\<And>x. fst (m s) = Inr x \<Longrightarrow> R x t1"
    unfolding fact_triple_def by blast
  show "\<exists>t'. service_sound (snd (bindP m f s)) t' \<and> facts_grow t t' \<and> (\<forall>x. fst (bindP m f s) = Inr x \<longrightarrow> Q x t')"
  proof (cases "fst (m s)")
    case (Inl e)
    then have "bindP m f s = (Inl e, snd (m s))" by (metis bindP_raise prod.collapse)
    with t1 show ?thesis by auto
  next
    case (Inr x)
    then have run: "bindP m f s = f x (snd (m s))" by (metis bindP_return prod.collapse)
    from assms(2) [of x] t1(1) post [OF Inr] obtain t2 where "service_sound (snd (f x (snd (m s)))) t2"
      and "facts_grow t1 t2" and "\<forall>y. fst (f x (snd (m s))) = Inr y \<longrightarrow> Q y t2"
      unfolding fact_triple_def by blast
    with t1(2) show ?thesis by (auto simp: run intro: facts_grow_trans)
  qed
qed

lemma triple_weaken: "fact_triple P' m Q' \<Longrightarrow> (\<And>t. P t \<Longrightarrow> P' t) \<Longrightarrow> (\<And>x t. Q' x t \<Longrightarrow> Q x t) \<Longrightarrow> fact_triple P m Q"
  unfolding fact_triple_def by meson

lemma triple_return: "(\<And>t. facts_sound t \<Longrightarrow> P t \<Longrightarrow> Q x t) \<Longrightarrow> fact_triple P (returnP x) Q"
  by (auto simp: fact_triple_def service_sound_def)

lemma triple_raise: "fact_triple P (raiseP e) Q"
  by (auto simp: fact_triple_def)

lemma triple_lift: "(\<And>t x. facts_sound t \<Longrightarrow> P t \<Longrightarrow> r = Inr x \<Longrightarrow> Q x t) \<Longrightarrow> fact_triple P (liftP r) Q"
  by (auto simp: fact_triple_def service_sound_def)

lemma triple_pure: "(\<phi> \<Longrightarrow> fact_triple P m Q) \<Longrightarrow> fact_triple (\<lambda>t. P t \<and> \<phi>) m Q"
  by (cases \<phi>) (simp_all add: fact_triple_def)

lemma triple_frame: "fact_triple P m Q \<Longrightarrow> fact_triple (\<lambda>t. P t \<and> \<phi>) m (\<lambda>x t. Q x t \<and> \<phi>)"
  by (cases \<phi>) (simp_all add: fact_triple_def)

text \<open>A call on the file is a program on its tables that keeps them sound and lets them grow.\<close>

lemma caches_grow: "facts_grow t t' \<Longrightarrow> caches_sound s t \<Longrightarrow> caches_sound s t'"
  by (auto simp: caches_sound_def list_all_iff dest: holds_grows(1))

lemma caches_backend: "caches_sound (s\<lparr>fs_backend := b\<rparr>) t = caches_sound s t"
  by (simp add: caches_sound_def)

lemma triple_on_facts:
  assumes "\<And>t. facts_sound t \<Longrightarrow> P t \<Longrightarrow> facts_sound (snd (m t)) \<and> facts_grow t (snd (m t)) \<and>
    (\<forall>x. fst (m t) = Inr x \<longrightarrow> Q x (snd (m t)))"
  shows "fact_triple P (on_facts m) Q"
proof (rule fact_tripleI)
  fix s t
  assume s: "service_sound s t" and "P t"
  with assms [of t] have m: "facts_sound (snd (m t))" "facts_grow t (snd (m t))"
    "\<forall>x. fst (m t) = Inr x \<longrightarrow> Q x (snd (m t))"
    by (simp_all add: service_sound_def)
  have run: "on_facts m s = (fst (m t), s\<lparr>fs_backend := Some (snd (m t))\<rparr>)"
    using s by (simp add: on_facts_def service_sound_def split: prod.splits)
  show "\<exists>t'. service_sound (snd (on_facts m s)) t' \<and> facts_grow t t' \<and> (\<forall>x. fst (on_facts m s) = Inr x \<longrightarrow> Q x t')"
    using m s by (intro exI [of _ "snd (m t)"])
      (simp add: run service_sound_def caches_backend caches_grow [OF m(2)])
qed

definition new_key :: "fact_tables \<Rightarrow> observation \<Rightarrow> bool" where
  "new_key t ob \<longleftrightarrow> \<not> has_observation_key t (ob_scope ob) (ob_id ob)"

lemma triple_save_observation:
  assumes "observation_whole ob"
  shows "fact_triple (facts_grow t0) (on_facts (save_observation ob))
    (\<lambda>won t. facts_grow t0 t \<and> (won \<longrightarrow> holds_observation t ob \<and> new_key t0 ob))"
proof (rule triple_on_facts)
  fix t
  assume t: "facts_sound t" "facts_grow t0 t"
  show "facts_sound (snd (save_observation ob t)) \<and> facts_grow t (snd (save_observation ob t)) \<and>
    (\<forall>x. fst (save_observation ob t) = Inr x \<longrightarrow> facts_grow t0 (snd (save_observation ob t)) \<and>
      (x \<longrightarrow> holds_observation (snd (save_observation ob t)) ob \<and> new_key t0 ob))"
    using t sound_new_observation [OF t(1) assms] key_grows(2) [OF t(2)]
    by (auto simp: save_observation_run new_key_def facts_grow_def split: sum.splits)
qed

lemma triple_save_evidence:
  assumes "evidence_valid e"
  shows "fact_triple (facts_grow t0) (on_facts (save_evidence e i)) (\<lambda>_. facts_grow t0)"
proof (rule triple_on_facts)
  fix t
  assume t: "facts_sound t" "facts_grow t0 t"
  show "facts_sound (snd (save_evidence e i t)) \<and> facts_grow t (snd (save_evidence e i t)) \<and>
    (\<forall>x. fst (save_evidence e i t) = Inr x \<longrightarrow> facts_grow t0 (snd (save_evidence e i t)))"
    using t sound_new_evidence(1) [OF t(1) assms]
    by (auto simp: save_evidence_run facts_grow_def split: sum.splits)
qed

lemma triple_save_admission:
  assumes "evidence_valid e" and "observation_whole ob"
  shows "fact_triple (facts_grow t0) (on_facts (save_admission e i ob))
    (\<lambda>won t. facts_grow t0 t \<and> (won \<longrightarrow> holds_observation t ob \<and> new_key t0 ob))"
proof (rule triple_on_facts)
  fix t
  assume t: "facts_sound t" "facts_grow t0 t"
  show "facts_sound (snd (save_admission e i ob t)) \<and> facts_grow t (snd (save_admission e i ob t)) \<and>
    (\<forall>x. fst (save_admission e i ob t) = Inr x \<longrightarrow> facts_grow t0 (snd (save_admission e i ob t)) \<and>
      (x \<longrightarrow> holds_observation (snd (save_admission e i ob t)) ob \<and> new_key t0 ob))"
    using t key_grows(2) [OF t(2)]
    by (cases rule: save_admission_cases [OF t(1) assms, of i]) (auto simp: new_key_def intro: facts_grow_trans)
qed

lemma triple_find_observation:
  assumes "scope_valid sc"
  shows "fact_triple (facts_grow t0) (find_stored_observation sc k)
    (\<lambda>found t. facts_grow t0 t \<and> (\<forall>ob. found = Some ob \<longrightarrow> holds_observation t ob \<and> ob_scope ob = sc \<and> ob_id ob = k))"
  unfolding find_stored_observation_def
proof (rule triple_on_facts)
  fix t
  assume "facts_sound t" "facts_grow t0 t"
  then show "facts_sound (snd (readP (find_observation sc k) t)) \<and> facts_grow t (snd (readP (find_observation sc k) t)) \<and>
    (\<forall>x. fst (readP (find_observation sc k) t) = Inr x \<longrightarrow> facts_grow t0 (snd (readP (find_observation sc k) t)) \<and>
      (\<forall>ob. x = Some ob \<longrightarrow> holds_observation (snd (readP (find_observation sc k) t)) ob \<and> ob_scope ob = sc \<and> ob_id ob = k))"
    by (cases rule: find_observation_cases [OF _ assms, of t k]) auto
qed

lemma triple_find_evidence:
  assumes "scope_valid sc"
  shows "fact_triple (facts_grow t0) (find_stored_evidence sc k)
    (\<lambda>found t. facts_grow t0 t \<and> (\<forall>p. found = Some p \<longrightarrow> evidence_valid (fst p)))"
  unfolding find_stored_evidence_def
proof (rule triple_on_facts)
  fix t
  assume "facts_sound t" "facts_grow t0 t"
  then show "facts_sound (snd (readP (find_evidence sc k) t)) \<and> facts_grow t (snd (readP (find_evidence sc k) t)) \<and>
    (\<forall>x. fst (readP (find_evidence sc k) t) = Inr x \<longrightarrow> facts_grow t0 (snd (readP (find_evidence sc k) t)) \<and>
      (\<forall>p. x = Some p \<longrightarrow> evidence_valid (fst p)))"
    by (cases rule: find_evidence_cases [OF _ assms, of t k]) auto
qed

section \<open>Admissions\<close>

definition admission_post :: "fact_tables \<Rightarrow> admission_result \<Rightarrow> fact_tables \<Rightarrow> bool" where
  "admission_post t0 a t \<longleftrightarrow> holds_observation t (ar_observation a) \<and>
     (ar_disposition a \<noteq> REPLAY \<longrightarrow> new_key t0 (ar_observation a))"

lemma triple_admitted:
  "fact_triple (\<lambda>t. holds_observation t ob \<and> (d \<noteq> REPLAY \<longrightarrow> new_key t0 ob)) (admitted d ob) (admission_post t0)"
proof (rule fact_tripleI)
  fix s t
  assume "service_sound s t" "holds_observation t ob \<and> (d \<noteq> REPLAY \<longrightarrow> new_key t0 ob)"
  then show "\<exists>t'. service_sound (snd (admitted d ob s)) t' \<and> facts_grow t t' \<and>
      (\<forall>x. fst (admitted d ob s) = Inr x \<longrightarrow> admission_post t0 x t')"
    by (intro exI [of _ t]) (auto simp: admitted_def bindP_def service_sound_def caches_sound_def
        remember_observation_def store_append_def admission_post_def)
qed

lemma mk_observation_whole:
  assumes "mk_observation ob = Inr ob'" and "scope_valid (ob_scope ob)"
    and "all_clear (semantic_time_checks (ob_semantic_time ob))"
    and "\<And>w. ob_effective_window ob = Some w \<Longrightarrow> all_clear (effective_window_checks w)"
  shows "observation_whole ob'" and "ob_scope ob' = ob_scope ob" and "ob_id ob' = ob_id ob" and "ob_key ob' = ob_key ob"
proof -
  from assms(1) obtain v where v: "freeze_value ''value'' (ob_value ob) = Inr v"
    and ob': "ob' = ob\<lparr>ob_value := v\<rparr>" and head: "all_clear (observation_head_checks ob)"
    and tail: "all_clear (observation_tail_checks (ob\<lparr>ob_value := v\<rparr>))"
    by (fastforce simp: mk_observation_def bindR_Inr_iff guarded_Inr_iff observation_tail_checks_def)
  have "observation_head_checks (ob\<lparr>ob_value := v\<rparr>) = observation_head_checks ob"
    by (simp add: observation_head_checks_def)
  with head tail assms(2-4) freeze_value_frozen [OF v] show "observation_whole ob'"
    by (simp add: ob' observation_whole_def observation_valid_def)
  show "ob_scope ob' = ob_scope ob" "ob_id ob' = ob_id ob" "ob_key ob' = ob_key ob" by (simp_all add: ob')
qed

lemma default_time_clear [simp]: "all_clear (semantic_time_checks default_semantic_time)"
  by (simp add: semantic_time_checks_def default_semantic_time_def)

lemma build_observation_whole:
  assumes "build_observation e i now = Inr ob" and "scope_valid (ev_scope e)"
  shows "observation_whole ob" and "ob_scope ob = ev_scope e" and "ob_id ob = ''observation-'' @ ev_id e"
  using mk_observation_whole [OF assms(1) [unfolded build_observation_def]] assms(2) by simp_all

text \<open>What was found in the file is returned as a replay.\<close>

lemma triple_replay:
  assumes "scope_valid sc"
  shows "fact_triple (facts_grow t0) (bindP (find_stored_observation sc k) (\<lambda>winner. case winner of
      None \<Rightarrow> raiseP err | Some ob \<Rightarrow> if c ob then admitted REPLAY ob else raiseP err')) (admission_post t0)"
proof (rule triple_bind [OF triple_find_observation [OF assms]])
  fix winner
  show "fact_triple (\<lambda>t. facts_grow t0 t \<and> (\<forall>ob. winner = Some ob \<longrightarrow> holds_observation t ob \<and> ob_scope ob = sc \<and> ob_id ob = k))
      (case winner of None \<Rightarrow> raiseP err | Some ob \<Rightarrow> if c ob then admitted REPLAY ob else raiseP err') (admission_post t0)"
    by (cases winner) (auto simp: triple_raise intro: triple_weaken [OF triple_admitted])
qed

lemma triple_won:
  assumes "\<And>t. P t \<Longrightarrow> holds_observation t ob \<and> new_key t0 ob"
  shows "fact_triple P (admitted d ob) (admission_post t0)"
  using assms by (auto intro: triple_weaken [OF triple_admitted])

lemma triple_repair:
  assumes "evidence_valid b" and "scope_valid sc"
  shows "fact_triple (facts_grow t0) (bindP (liftP (build_observation b i (ev_received_at b)))
      (\<lambda>repair. bindP (on_facts (save_observation repair)) (\<lambda>won. if won then admitted REPAIRED repair
        else bindP (find_stored_observation sc k) (\<lambda>winner. case winner of
            None \<Rightarrow> raiseP err | Some ob \<Rightarrow> admitted REPLAY ob)))) (admission_post t0)"
proof (rule triple_bind [where R = "\<lambda>ob t. facts_grow t0 t \<and> observation_whole ob"])
  show "fact_triple (facts_grow t0) (liftP (build_observation b i (ev_received_at b)))
      (\<lambda>ob t. facts_grow t0 t \<and> observation_whole ob)"
    using build_observation_whole(1) evidence_valid_scope [OF assms(1)] by (auto intro!: triple_lift)
  fix repair
  show "fact_triple (\<lambda>t. facts_grow t0 t \<and> observation_whole repair)
      (bindP (on_facts (save_observation repair)) (\<lambda>won. if won then admitted REPAIRED repair
        else bindP (find_stored_observation sc k) (\<lambda>winner. case winner of
            None \<Rightarrow> raiseP err | Some ob \<Rightarrow> admitted REPLAY ob))) (admission_post t0)"
  proof (rule triple_pure, rule triple_bind [OF triple_save_observation])
    fix won
    show "fact_triple (\<lambda>t. facts_grow t0 t \<and> (won \<longrightarrow> holds_observation t repair \<and> new_key t0 repair))
        (if won then admitted REPAIRED repair
         else bindP (find_stored_observation sc k) (\<lambda>winner. case winner of
            None \<Rightarrow> raiseP err | Some ob \<Rightarrow> admitted REPLAY ob)) (admission_post t0)"
      using triple_replay [OF assms(2), of t0 k err "\<lambda>_. True" err, unfolded if_True]
      by (cases won) (auto intro: triple_won)
  qed
qed

lemma triple_arbitrate:
  assumes "evidence_valid e"
  shows "fact_triple (facts_grow t0) (arbitrate e) (admission_post t0)"
proof -
  note sc = evidence_valid_scope [OF assms]
  let ?oid = "''observation-'' @ ev_id e"
  show ?thesis
    unfolding arbitrate_def
  proof (rule triple_bind [OF triple_find_evidence [OF sc]], rule triple_pure, rule triple_bind [OF triple_find_observation [OF sc]])
    fix stored :: "(evidence \<times> string) option" and stored_observation
    assume valid: "\<forall>p. stored = Some p \<longrightarrow> evidence_valid (fst p)"
    have replay: "fact_triple (\<lambda>t. facts_grow t0 t \<and> (\<forall>ob. stored_observation = Some ob \<longrightarrow>
          holds_observation t ob \<and> ob_scope ob = ev_scope e \<and> ob_id ob = ?oid)) (admitted REPLAY ob) (admission_post t0)"
      if "stored_observation = Some ob" for ob
      using that by (auto intro: triple_weaken [OF triple_admitted])
    show "fact_triple (\<lambda>t. facts_grow t0 t \<and> (\<forall>ob. stored_observation = Some ob \<longrightarrow>
          holds_observation t ob \<and> ob_scope ob = ev_scope e \<and> ob_id ob = ?oid))
       (case stored of None \<Rightarrow> raiseP (ConflictError ''observation exists without its evidence row'')
        | Some (stored_evidence, stored_interaction) \<Rightarrow>
         if \<not> evidence_eq stored_evidence e
         then raiseP (ConflictError ''evidence reuses (scope, id) with different immutable bytes'')
         else (case stored_observation of
           Some ob \<Rightarrow> admitted REPLAY ob
         | None \<Rightarrow>
             bindP (liftP (build_observation stored_evidence stored_interaction (ev_received_at stored_evidence)))
               (\<lambda>repair. bindP (on_facts (save_observation repair)) (\<lambda>won.
             if won then admitted REPAIRED repair
             else bindP (find_stored_observation (ev_scope e) ?oid) (\<lambda>winner. case winner of
                 None \<Rightarrow> raiseP (ConflictError ''observation still missing after arbitration'')
               | Some ob \<Rightarrow> admitted REPLAY ob)))))
       (admission_post t0)"
      using valid replay
      by (auto split: option.split prod.split simp: triple_raise intro: triple_weaken [OF triple_repair [OF _ sc]])
  qed
qed

section \<open>The calls of a service\<close>

lemma triple_durable: "fact_triple P m Q \<Longrightarrow> fact_triple P (\<lambda>s. if durable s then m s else k s) Q"
  unfolding fact_triple_def by (auto simp: service_sound_def durable_def)

lemma triple_lost_write:
  assumes "fact_triple P (on_facts m) Q"
  shows "fact_triple P (lost_write m) (\<lambda>lost. Q (\<not> lost))"
  unfolding lost_write_def
  by (rule triple_durable, rule triple_bind [OF assms]) (simp add: triple_return)

lemma triple_different_bytes:
  assumes "evidence_valid e"
  shows "fact_triple (facts_grow t0) (different_bytes e c) (\<lambda>_. facts_grow t0)"
proof (cases "\<exists>stored. c = Some stored \<and> \<not> evidence_eq stored e")
  case True
  then obtain stored where c: "c = Some stored" "\<not> evidence_eq stored e" by blast
  have body: "different_bytes e c = (\<lambda>s. if durable s
      then bindP (find_stored_evidence (ev_scope e) (ev_id e)) (\<lambda>pair. returnP (case pair of
           None \<Rightarrow> True | Some (b, _) \<Rightarrow> \<not> evidence_eq b e)) s else (Inr True, s))"
    using c by (auto simp: different_bytes_def)
  show ?thesis
    unfolding body
    by (rule triple_durable, rule triple_bind [OF triple_find_evidence [OF evidence_valid_scope [OF assms]]])
      (rule triple_return, simp)
next
  case False
  then have "different_bytes e c = returnP False"
    by (auto simp: different_bytes_def returnP_def split: option.split)
  then show ?thesis by (simp add: triple_return)
qed

lemma triple_admit_new:
  assumes "evidence_valid e"
  shows "fact_triple (facts_grow t0) (admit_new e i now) (admission_post t0)"
  unfolding admit_new_def
proof (rule triple_bind [where R = "\<lambda>ob t. facts_grow t0 t \<and> observation_whole ob"])
  show "fact_triple (facts_grow t0) (liftP (build_observation e i now)) (\<lambda>ob t. facts_grow t0 t \<and> observation_whole ob)"
    using build_observation_whole(1) evidence_valid_scope [OF assms] by (auto intro!: triple_lift)
  fix ob
  show "fact_triple (\<lambda>t. facts_grow t0 t \<and> observation_whole ob)
      (bindP (lost_write (save_admission e i ob)) (\<lambda>lost. if lost then arbitrate e else admitted NEW ob)) (admission_post t0)"
  proof (rule triple_pure, rule triple_bind [OF triple_lost_write [OF triple_save_admission [OF assms]]])
    fix lost
    show "fact_triple (\<lambda>t. facts_grow t0 t \<and> (\<not> lost \<longrightarrow> holds_observation t ob \<and> new_key t0 ob))
        (if lost then arbitrate e else admitted NEW ob) (admission_post t0)"
      using triple_arbitrate [OF assms, of t0] by (auto intro: triple_won)
  qed
qed

lemma triple_repair_interaction:
  assumes "evidence_valid e"
  shows "fact_triple (facts_grow t0) (repair_interaction e original) (\<lambda>_. facts_grow t0)"
  unfolding repair_interaction_def
  by (rule triple_durable, rule triple_bind [OF triple_find_evidence [OF evidence_valid_scope [OF assms]]])
    (auto split: option.split intro: triple_raise triple_return)

lemma triple_repair_fact:
  assumes "evidence_valid e"
  shows "fact_triple (facts_grow t0) (repair e original) (admission_post t0)"
  unfolding repair_def
proof (rule triple_bind [OF triple_repair_interaction [OF assms]])
  fix found
  have build: "fact_triple (facts_grow t0) (liftP (build_observation e i (ev_received_at e)))
      (\<lambda>ob t. facts_grow t0 t \<and> observation_whole ob)" for i
    using build_observation_whole(1) evidence_valid_scope [OF assms] by (auto intro!: triple_lift)
  have rest: "fact_triple (\<lambda>t. facts_grow t0 t \<and> observation_whole ob)
      (bindP (lost_write (save_observation ob)) (\<lambda>lost. if lost then arbitrate e else admitted REPAIRED ob)) (admission_post t0)" for ob
  proof (rule triple_pure, rule triple_bind [OF triple_lost_write [OF triple_save_observation]])
    fix lost
    show "fact_triple (\<lambda>t. facts_grow t0 t \<and> (\<not> lost \<longrightarrow> holds_observation t ob \<and> new_key t0 ob))
        (if lost then arbitrate e else admitted REPAIRED ob) (admission_post t0)"
      using triple_arbitrate [OF assms, of t0] by (auto intro: triple_won)
  qed
  show "fact_triple (facts_grow t0) (case found of
       None \<Rightarrow> raiseP (ConflictError ''evidence has no original provenance interaction'')
     | Some i \<Rightarrow> bindP (liftP (build_observation e i (ev_received_at e))) (\<lambda>ob.
         bindP (lost_write (save_observation ob)) (\<lambda>lost. if lost then arbitrate e else admitted REPAIRED ob))) (admission_post t0)"
    by (cases found) (auto intro: triple_raise triple_bind [OF build rest])
qed

lemma triple_reject:
  assumes "evidence_valid e"
  shows "fact_triple (facts_grow t0) (reject e i is_new err) Q"
proof -
  have saved: "fact_triple (facts_grow t0) (lost_write (save_evidence e i)) (\<lambda>_. facts_grow t0)"
    by (rule triple_lost_write [OF triple_save_evidence [OF assms]])
  have "fact_triple (facts_grow t0) (if is_new then lost_write (save_evidence e i) else returnP False) (\<lambda>_. facts_grow t0)"
    using saved by (auto intro: triple_return)
  then show ?thesis unfolding reject_def by (rule triple_bind) (rule triple_raise)
qed

lemma remember_evidence_sound: "service_sound s t \<Longrightarrow> service_sound (remember_evidence e i s) t"
  by (simp add: service_sound_def caches_sound_def remember_evidence_def)

lemma cached_observation:
  assumes "service_sound s t" and "map_of (fs_observations s) (sc, i) = Some ob"
  shows "ob_scope ob = sc \<and> ob_id ob = i \<and> (holds_observation t ob \<or> operational ob)"
  using map_of_SomeD [OF assms(2)] assms(1) by (force simp: service_sound_def caches_sound_def list_all_iff)

lemma tripleD:
  assumes "fact_triple P m Q" and "service_sound s t" and "P t"
  shows "\<exists>t'. service_sound (snd (m s)) t' \<and> facts_grow t t' \<and> (\<forall>x. fst (m s) = Inr x \<longrightarrow> Q x t')"
  using assms by (simp add: fact_triple_def)

lemma admit_fact_sound:
  assumes s: "service_sound s t" and e: "evidence_valid e"
  shows "\<exists>t'. service_sound (snd (admit_fact e i rt ps now s)) t' \<and> facts_grow t t' \<and>
    (\<forall>a. fst (admit_fact e i rt ps now s) = Inr a \<longrightarrow> admission_post t a t')"
proof -
  let ?cached = "map_of (fs_evidence s) (ev_scope e, ev_id e)"
  let ?ob = "map_of (fs_observations s) (ev_scope e, ''observation-'' @ ev_id e)"
  have held: "holds_observation t ob" if "?ob = Some ob" for ob
    using cached_observation [OF s that] by (auto simp: operational_def)
  have rest: "fact_triple (facts_grow t) (case guarded (require_user_fact e @ require_owner e rt ps) () of
           Inl err \<Rightarrow> reject e i (?cached = None) err
         | Inr _ \<Rightarrow> (case ?ob of
             Some ob \<Rightarrow> returnP \<lparr>ar_observation = ob, ar_disposition = REPLAY\<rparr>
           | None \<Rightarrow> if ?cached = None then admit_new e i now else repair e (original_interaction e (fs_provenance s))))
      (admission_post t)"
    using held by (auto split: sum.split option.split intro: triple_reject [OF e] triple_admit_new [OF e]
        triple_repair_fact [OF e] intro!: triple_return simp: admission_post_def dest: holds_grows(1))
  let ?m = "bindP (different_bytes e ?cached) (\<lambda>different.
         if different then raiseP (ConflictError ''evidence reuses (scope, id) with different immutable bytes'')
         else case guarded (require_user_fact e @ require_owner e rt ps) () of
           Inl err \<Rightarrow> reject e i (?cached = None) err
         | Inr _ \<Rightarrow> (case ?ob of
             Some ob \<Rightarrow> returnP \<lparr>ar_observation = ob, ar_disposition = REPLAY\<rparr>
           | None \<Rightarrow> if ?cached = None then admit_new e i now else repair e (original_interaction e (fs_provenance s))))"
  have "fact_triple (facts_grow t) ?m (admission_post t)"
    by (rule triple_bind [OF triple_different_bytes [OF e]]) (use rest in \<open>auto intro: triple_raise\<close>)
  from tripleD [OF this remember_evidence_sound [OF s, of e i] facts_grow_refl]
  have ran: "\<exists>t'. service_sound (snd (?m (remember_evidence e i s))) t' \<and> facts_grow t t' \<and>
      (\<forall>a. fst (?m (remember_evidence e i s)) = Inr a \<longrightarrow> admission_post t a t')" .
  show ?thesis
  proof (cases "?ob \<noteq> None \<and> ?cached = None")
    case True
    then have "admit_fact e i rt ps now s = (Inl (ConflictError ''observation exists without its evidence row''), s)"
      by (simp add: admit_fact_def Let_def)
    with s show ?thesis by auto
  next
    case False
    then have "admit_fact e i rt ps now s = ?m (remember_evidence e i s)"
      by (simp only: admit_fact_def Let_def if_False)
    with ran show ?thesis by (simp only:)
  qed
qed

definition reality_request_valid :: "reality_request \<Rightarrow> bool" where
  "reality_request_valid q \<longleftrightarrow> evidence_valid (rr_source_evidence q) \<and>
     all_clear (semantic_time_checks (rr_semantic_time q)) \<and>
     (\<forall>w. rr_effective_window q = Some w \<longrightarrow> all_clear (effective_window_checks w))"

lemma reality_observation_whole:
  assumes "reality_observation q causal = Inr ob" and "reality_request_valid q"
  shows "observation_whole ob" and "ob_scope ob = ev_scope (rr_source_evidence q)" and "ob_id ob = rr_observation_id q"
  using mk_observation_whole [OF assms(1) [unfolded reality_observation_def Let_def]] assms(2)
  by (simp_all add: reality_request_valid_def evidence_valid_scope)

lemma operational_not_reality: "operational ob \<Longrightarrow> \<not> reality_allowed (ob_key ob)"
proof -
  have "list_all (\<lambda>k. \<not> reality_allowed k) allowed_operational_keys" by code_simp
  then show "operational ob \<Longrightarrow> \<not> reality_allowed (ob_key ob)" by (auto simp: operational_def list_all_iff)
qed

lemma triple_cached_or_stored:
  assumes "fact_triple (facts_grow t0) m Q" and "\<And>t x. facts_sound t \<Longrightarrow> facts_grow t0 t \<Longrightarrow> c = Some x \<Longrightarrow> Q (Some x) t"
    and "\<And>t. facts_sound t \<Longrightarrow> facts_grow t0 t \<Longrightarrow> Q None t"
  shows "fact_triple (facts_grow t0) (cached_or_stored c m) Q"
proof (cases c)
  case None
  then have "cached_or_stored c m = (\<lambda>s. if durable s then m s else (Inr None, s))"
    by (simp add: cached_or_stored_def)
  with triple_durable [OF assms(1)] show ?thesis by simp
next
  case (Some x)
  then have "cached_or_stored c m = returnP (Some x)"
    by (simp add: cached_or_stored_def returnP_def)
  with assms(2) Some show ?thesis by (auto intro: triple_return)
qed

lemma triple_causal:
  assumes "scope_valid (ev_scope (rr_source_evidence q))"
  shows "fact_triple (facts_grow t0) (causal_interaction q) (\<lambda>_. facts_grow t0)"
proof (rule fact_tripleI)
  fix s t
  assume s: "service_sound s t" "facts_grow t0 t"
  let ?e = "rr_source_evidence q"
  have "fact_triple (facts_grow t0) (bindP (find_stored_evidence (ev_scope ?e) (ev_id ?e)) (\<lambda>pair.
       returnP (or_else (case pair of None \<Rightarrow> original_interaction ?e (fs_provenance s) | Some (b, i) \<Rightarrow> Some i) (rr_interaction_id q))))
     (\<lambda>_. facts_grow t0)"
    by (rule triple_bind [OF triple_find_evidence [OF assms]]) (rule triple_return, simp)
  from tripleD [OF this s] s(1)
  show "\<exists>t'. service_sound (snd (causal_interaction q s)) t' \<and> facts_grow t t' \<and>
      (\<forall>x. fst (causal_interaction q s) = Inr x \<longrightarrow> facts_grow t0 t')"
    by (simp add: causal_interaction_def Let_def service_sound_def durable_def)
qed

lemma bind_lift: "bindP (liftP (Inr x)) f s = f x s"
  by simp

lemma triple_arbitrate_reality:
  assumes "scope_valid (ob_scope ob)"
  shows "fact_triple (facts_grow t0) (arbitrate_reality ob) (admission_post t0)"
  unfolding arbitrate_reality_def by (rule triple_replay [OF assms])

lemma triple_new_reality:
  assumes "reality_request_valid q"
  shows "fact_triple (facts_grow t0) (bindP (liftP (reality_observation q causal)) (\<lambda>ob.
         bindP (lost_write (save_observation ob)) (\<lambda>lost.
         if lost then arbitrate_reality ob else admitted NEW ob))) (admission_post t0)"
proof (rule triple_bind [where R = "\<lambda>ob t. facts_grow t0 t \<and> observation_whole ob"])
  show "fact_triple (facts_grow t0) (liftP (reality_observation q causal)) (\<lambda>ob t. facts_grow t0 t \<and> observation_whole ob)"
    using reality_observation_whole(1) [OF _ assms] by (auto intro!: triple_lift)
  fix ob
  show "fact_triple (\<lambda>t. facts_grow t0 t \<and> observation_whole ob)
      (bindP (lost_write (save_observation ob)) (\<lambda>lost. if lost then arbitrate_reality ob else admitted NEW ob)) (admission_post t0)"
  proof (rule triple_pure, rule triple_bind [OF triple_lost_write [OF triple_save_observation]])
    fix lost
    assume "observation_whole ob"
    then show "fact_triple (\<lambda>t. facts_grow t0 t \<and> (\<not> lost \<longrightarrow> holds_observation t ob \<and> new_key t0 ob))
        (if lost then arbitrate_reality ob else admitted NEW ob) (admission_post t0)"
      using triple_arbitrate_reality [OF observation_whole_scope, of ob t0] by (auto intro: triple_won)
  qed
qed

lemma admit_reality_sound:
  assumes s: "service_sound s t" and q: "reality_request_valid q"
  shows "\<exists>t'. service_sound (snd (admit_reality q s)) t' \<and> facts_grow t t' \<and>
    (\<forall>a. fst (admit_reality q s) = Inr a \<longrightarrow> admission_post t a t')"
proof (cases "all_clear (reality_gate q)")
  case False
  then have "\<exists>e. guarded (reality_gate q) () = Inl e" by (metis guarded_ok_iff isl_def)
  then obtain e where "guarded (reality_gate q) () = Inl e" by blast
  then have "admit_reality q s = (Inl e, s)" by (simp add: admit_reality_def Let_def bindP_def)
  with s show ?thesis by auto
next
  case True
  let ?e = "rr_source_evidence q"
  let ?known = "\<lambda>ob t. holds_observation t ob \<or> operational ob"
  have sc: "scope_valid (ev_scope ?e)" using q by (simp add: reality_request_valid_def evidence_valid_scope)
  have allowed: "reality_allowed (rr_key q)" using True by (simp add: reality_gate_def validate_reality_namespace_def)
  let ?rest = "\<lambda>causal existing. case existing of
       Some ob \<Rightarrow> if reality_matches ob q causal then returnP \<lparr>ar_observation = ob, ar_disposition = REPLAY\<rparr>
         else raiseP (ConflictError ''reality observation conflicts with stored bytes'')
     | None \<Rightarrow> bindP (liftP (reality_observation q causal)) (\<lambda>ob.
         bindP (lost_write (save_observation ob)) (\<lambda>lost.
         if lost then arbitrate_reality ob else admitted NEW ob))"
  let ?m = "bindP (cached_or_stored (map_of (fs_evidence s) (ev_scope ?e, ev_id ?e))
         (bindP (find_stored_evidence (ev_scope ?e) (ev_id ?e)) (\<lambda>pair. returnP (map_option fst pair)))) (\<lambda>stored.
     if \<not> (case stored of None \<Rightarrow> False | Some b \<Rightarrow> evidence_eq b ?e)
     then raiseP (ConflictError ''typed reality source evidence was not admitted'')
     else bindP (causal_interaction q) (\<lambda>causal.
     bindP (cached_or_stored (map_of (fs_observations s) (ev_scope ?e, rr_observation_id q))
         (find_stored_observation (ev_scope ?e) (rr_observation_id q))) (?rest causal)))"
  have run: "admit_reality q s = ?m s"
    unfolding admit_reality_def Let_def guarded_clear [OF True] bind_lift by (rule refl)
  have looked: "fact_triple (facts_grow t) (bindP (find_stored_evidence (ev_scope ?e) (ev_id ?e)) (\<lambda>pair. returnP (map_option fst pair)))
      (\<lambda>_. facts_grow t)"
    by (rule triple_bind [OF triple_find_evidence [OF sc]]) (rule triple_return, simp)
  have first: "fact_triple (facts_grow t) (cached_or_stored (map_of (fs_evidence s) (ev_scope ?e, ev_id ?e))
         (bindP (find_stored_evidence (ev_scope ?e) (ev_id ?e)) (\<lambda>pair. returnP (map_option fst pair)))) (\<lambda>_. facts_grow t)"
    by (rule triple_cached_or_stored [OF looked]) simp_all
  have known: "?known ob u"
    if "map_of (fs_observations s) (ev_scope ?e, rr_observation_id q) = Some ob" "facts_grow t u" for ob u
    using cached_observation [OF s that(1)] holds_grows(1) [OF that(2)] by blast
  have second: "fact_triple (facts_grow t) (cached_or_stored (map_of (fs_observations s) (ev_scope ?e, rr_observation_id q))
         (find_stored_observation (ev_scope ?e) (rr_observation_id q)))
      (\<lambda>found u. facts_grow t u \<and> (\<forall>ob. found = Some ob \<longrightarrow> ?known ob u))"
    using known by (intro triple_cached_or_stored triple_weaken [OF triple_find_observation [OF sc]]) auto
  have rest: "fact_triple (\<lambda>u. facts_grow t u \<and> (\<forall>ob. existing = Some ob \<longrightarrow> ?known ob u)) (?rest causal existing) (admission_post t)"
    for causal existing
  proof (cases existing)
    case None
    then show ?thesis using triple_new_reality [OF q, of t causal] by simp
  next
    case (Some ob)
    show ?thesis
    proof (cases "reality_matches ob q causal")
      case True
      then have "reality_allowed (ob_key ob)" using allowed by (simp add: reality_matches_def)
      then have "\<not> operational ob" using operational_not_reality by blast
      with Some True show ?thesis by (auto intro!: triple_return simp: admission_post_def)
    qed (simp add: Some triple_raise)
  qed
  have "fact_triple (facts_grow t) ?m (admission_post t)"
    by (rule triple_bind [OF first])
      (auto intro: triple_raise triple_bind [OF triple_causal [OF sc] triple_bind [OF second rest]])
  from tripleD [OF this s] show ?thesis unfolding run by simp
qed

lemma mk_evidence_valid:
  assumes "mk_evidence e = Inr e'" and "scope_valid (ev_scope e)" and "all_clear (authority_checks (ev_authority e))"
  shows "evidence_valid e'" and "ev_scope e' = ev_scope e" and "ev_id e' = ev_id e"
proof -
  from assms(1) obtain v where v: "freeze_value ''payload'' (ev_payload e) = Inr v"
    and e': "e' = e\<lparr>ev_payload := v\<rparr>" and head: "all_clear (evidence_head_checks e)"
    and tail: "all_clear (evidence_tail_checks e)"
    by (fastforce simp: mk_evidence_def bindR_Inr_iff guarded_Inr_iff evidence_tail_checks_def)
  have "evidence_head_checks (e\<lparr>ev_payload := v\<rparr>) = evidence_head_checks e"
    "evidence_tail_checks (e\<lparr>ev_payload := v\<rparr>) = evidence_tail_checks e"
    by (simp_all add: evidence_head_checks_def evidence_tail_checks_def)
  with head tail assms(2,3) freeze_value_frozen [OF v] show "evidence_valid e'"
    by (simp add: e' evidence_valid_def)
  show "ev_scope e' = ev_scope e" "ev_id e' = ev_id e" by (simp_all add: e')
qed

lemma operational_evidence_valid:
  "operational_evidence key val r t = Inr e \<Longrightarrow> scope_valid (dr_scope r) \<Longrightarrow> evidence_valid e"
  by (auto simp: operational_evidence_def Let_def bindR_Inr_iff guarded_Inr_iff dest!: mk_evidence_valid(1))

lemma operational_observation_whole:
  assumes "operational_observation key val r t = Inr ob" and "scope_valid (dr_scope r)"
  shows "observation_whole ob" and "ob_scope ob = dr_scope r" and "ob_id ob = ''op-'' @ dr_receipt_id r @ ''-'' @ key"
    and "ob_key ob = key"
  using mk_observation_whole [OF assms(1) [unfolded operational_observation_def Let_def]] assms(2) by simp_all

lemma triple_store_operational:
  assumes "evidence_valid e" and "observation_whole ob"
  shows "fact_triple (facts_grow t0) (store_operational e ob) (\<lambda>_. facts_grow t0)"
  unfolding store_operational_def thenP_def
  by (rule triple_durable, rule triple_bind [OF triple_save_evidence [OF assms(1)]],
      rule triple_bind [OF triple_save_observation [OF assms(2)]]) (rule triple_return, simp)

lemma triple_remember_operational:
  assumes "operational ob"
  shows "fact_triple (facts_grow t0) (bindP (writeP (remember_observation ob)) (\<lambda>_. returnP ob)) (\<lambda>_. facts_grow t0)"
proof (rule fact_tripleI)
  fix s t
  assume "service_sound s t" "facts_grow t0 t"
  with assms show "\<exists>t'. service_sound (snd (bindP (writeP (remember_observation ob)) (\<lambda>_. returnP ob) s)) t' \<and> facts_grow t t' \<and>
      (\<forall>x. fst (bindP (writeP (remember_observation ob)) (\<lambda>_. returnP ob) s) = Inr x \<longrightarrow> facts_grow t0 t')"
    by (intro exI [of _ t]) (auto simp: bindP_def service_sound_def caches_sound_def remember_observation_def store_append_def)
qed

lemma bind_lift_cases: "bindP (liftP r) f s = (case r of Inl e \<Rightarrow> (Inl e, s) | Inr x \<Rightarrow> f x s)"
  by (simp add: bindP_def)

lemma admit_operational_sound:
  assumes s: "service_sound s t" and r: "delivery_receipt_valid r"
  shows "\<exists>t'. service_sound (snd (admit_operational_fact key val q r when s)) t' \<and> facts_grow t t'"
proof -
  have sc: "scope_valid (dr_scope r)" using r by (simp add: delivery_receipt_valid_iff)
  have stored: "\<exists>t'. service_sound (snd (bindP (store_operational e ob) (\<lambda>_. bindP (writeP (remember_observation ob))
      (\<lambda>_. returnP ob)) s)) t' \<and> facts_grow t t'"
    if "key \<in> set allowed_operational_keys" and "operational_evidence key val r tm = Inr e"
      and ob: "operational_observation key val r tm = Inr ob" for e tm ob
  proof -
    have "operational ob" using operational_observation_whole [OF ob sc] that(1) by (simp add: operational_def)
    then have "fact_triple (facts_grow t) (bindP (store_operational e ob) (\<lambda>_. bindP (writeP (remember_observation ob))
        (\<lambda>_. returnP ob))) (\<lambda>_. facts_grow t)"
      by (rule triple_bind [OF triple_store_operational [OF operational_evidence_valid [OF that(2) sc]
          operational_observation_whole(1) [OF ob sc]] triple_remember_operational])
    from tripleD [OF this s] show ?thesis by auto
  qed
  have stay: "\<exists>t'. service_sound s t' \<and> facts_grow t t'" using s facts_grow_refl by blast
  have gate: "key \<in> set allowed_operational_keys"
    if "guarded (validate_operational_key key @ [require_non_empty val ''value''] @ validate_action_type q) () = Inr u" for u
    using that by (simp add: guarded_Inr_iff validate_operational_key_def)
  show ?thesis
    unfolding admit_operational_fact_def bind_lift_cases
    using stay stored gate by (auto split: sum.split option.split)
qed

section \<open>Histories of services on one file\<close>

record fact_world =
  fw_file :: fact_tables
  fw_services :: "fact_service list"
  fw_admissions :: "admission_result list"

definition new_fact_world :: fact_world where
  "new_fact_world = \<lparr>fw_file = no_facts, fw_services = [], fw_admissions = []\<rparr>"

text \<open>A process that ends inside \<^verbatim>\<open>admit_operational_fact\<close> leaves the evidence without its observation.\<close>

datatype fact_step =
    StartService
  | AdmitEvidence nat evidence string string "string option" datetime
  | AdmitReality nat reality_request
  | AdmitOperational nat string string delivery_request delivery_receipt "datetime option"
  | LostAfterEvidence evidence string

definition call_service :: "nat \<Rightarrow> (fact_service, 'a) prog \<Rightarrow> ('a \<Rightarrow> admission_result list) \<Rightarrow> fact_world \<Rightarrow> fact_world" where
  "call_service i m entry w = (if i < length (fw_services w)
     then case m ((fw_services w ! i)\<lparr>fs_backend := Some (fw_file w)\<rparr>) of (r, s) \<Rightarrow>
       \<lparr>fw_file = the (fs_backend s), fw_services = (fw_services w)[i := s],
        fw_admissions = fw_admissions w @ (case r of Inr x \<Rightarrow> entry x | Inl e \<Rightarrow> [])\<rparr>
     else w)"

fun fact_world_step :: "fact_step \<Rightarrow> fact_world \<Rightarrow> fact_world" where
  "fact_world_step StartService w = (case new_fact_service (Some (fw_file w)) of
     Inl e \<Rightarrow> w | Inr s \<Rightarrow> w\<lparr>fw_services := fw_services w @ [s]\<rparr>)"
| "fact_world_step (AdmitEvidence i e ia rt ps now) w = call_service i (admit_fact e ia rt ps now) (\<lambda>a. [a]) w"
| "fact_world_step (AdmitReality i q) w = call_service i (admit_reality q) (\<lambda>a. [a]) w"
| "fact_world_step (AdmitOperational i key val q r tm) w =
     call_service i (admit_operational_fact key val q r tm) (\<lambda>ob. []) w"
| "fact_world_step (LostAfterEvidence e ia) w = w\<lparr>fw_file := snd (save_evidence e ia (fw_file w))\<rparr>"

fun fact_step_valid :: "fact_step \<Rightarrow> bool" where
  "fact_step_valid StartService = True"
| "fact_step_valid (AdmitEvidence i e ia rt ps now) = evidence_valid e"
| "fact_step_valid (AdmitReality i q) = reality_request_valid q"
| "fact_step_valid (AdmitOperational i key val q r tm) = delivery_receipt_valid r"
| "fact_step_valid (LostAfterEvidence e ia) = evidence_valid e"

definition fact_run :: "fact_step list \<Rightarrow> fact_world \<Rightarrow> fact_world" where
  "fact_run = fold fact_world_step"

definition admission_key :: "admission_result \<Rightarrow> scope \<times> string" where
  "admission_key a = (ob_scope (ar_observation a), ob_id (ar_observation a))"

definition causal_admissions :: "admission_result list \<Rightarrow> admission_result list" where
  "causal_admissions = filter (\<lambda>a. ar_disposition a \<noteq> REPLAY)"

definition world_sound :: "fact_world \<Rightarrow> bool" where
  "world_sound w \<longleftrightarrow> facts_sound (fw_file w) \<and> list_all (\<lambda>s. caches_sound s (fw_file w)) (fw_services w) \<and>
     list_all (\<lambda>a. holds_observation (fw_file w) (ar_observation a)) (fw_admissions w) \<and>
     distinct (map admission_key (causal_admissions (fw_admissions w)))"

lemma loaded_observations_held:
  assumes "load_observations t = Inr obs" and "facts_sound t" and "ob \<in> set obs"
  shows "holds_observation t ob"
proof -
  from assms(1,3) obtain r where r: "r \<in> set (ft_observations t)" "observation_from_row r = Inr ob"
    by (auto simp: load_observations_def dest: mapR_source)
  with assms(2) obtain ob' where ob': "observation_whole ob'" "observation_to_row ob' = Inr r"
    by (auto simp: facts_sound_def observation_row_sound_def list_all_iff)
  with observation_round_trip r(2) have "ob' = ob" by fastforce
  moreover have "find (\<lambda>x. observation_row_key x = observation_row_key r) (ft_observations t) = Some r"
    using find_distinct_key r(1) assms(2) by (auto simp: facts_sound_def)
  ultimately show ?thesis
    using r(2) observation_row_fields [OF ob'(2)] by (simp add: holds_observation_def find_observation_def)
qed

lemma fold_remember_evidence:
  "fs_observations (fold (\<lambda>(e, i). remember_evidence e i) es s) = fs_observations s \<and>
   fs_backend (fold (\<lambda>(e, i). remember_evidence e i) es s) = fs_backend s"
  by (induction es arbitrary: s) (auto simp: remember_evidence_def)

lemma fold_remember_observations:
  assumes "caches_sound s t" and "\<And>ob. ob \<in> set obs \<Longrightarrow> holds_observation t ob"
  shows "caches_sound (fold remember_observation obs s) t"
  using assms
proof (induction obs arbitrary: s)
  case (Cons ob obs)
  have "caches_sound (remember_observation ob s) t"
    using Cons.prems by (auto simp: caches_sound_def remember_observation_def store_append_def)
  with Cons show ?case by simp
qed simp

lemma new_service_sound:
  assumes "new_fact_service (Some t) = Inr s" and "facts_sound t"
  shows "caches_sound s t"
proof -
  from assms(1) obtain es obs where es: "load_evidence t = Inr es" and obs: "load_observations t = Inr obs"
    and s: "s = seeded es obs \<lparr>fs_evidence = [], fs_observations = [], fs_provenance = [], fs_backend = Some t\<rparr>"
    by (auto simp: new_fact_service_def Let_def bindR_Inr_iff)
  show ?thesis
    unfolding s seeded_def
    by (rule fold_remember_observations)
      (use loaded_observations_held [OF obs assms(2)] in \<open>simp_all add: caches_sound_def fold_remember_evidence\<close>)
qed

lemma call_service_sound:
  assumes w: "world_sound w"
    and m: "\<And>s. service_sound s (fw_file w) \<Longrightarrow> \<exists>t'. service_sound (snd (m s)) t' \<and> facts_grow (fw_file w) t' \<and>
      (\<forall>x. fst (m s) = Inr x \<longrightarrow> (entry x = [] \<or> (\<exists>a. entry x = [a] \<and> admission_post (fw_file w) a t')))"
  shows "world_sound (call_service i m entry w) \<and> facts_grow (fw_file w) (fw_file (call_service i m entry w))"
proof (cases "i < length (fw_services w)")
  case True
  let ?s = "(fw_services w ! i)\<lparr>fs_backend := Some (fw_file w)\<rparr>"
  have "service_sound ?s (fw_file w)"
    using w True by (simp add: world_sound_def service_sound_def caches_backend list_all_length)
  from m [OF this] obtain t' where t': "service_sound (snd (m ?s)) t'" and grow: "facts_grow (fw_file w) t'"
    and post: "\<And>x. fst (m ?s) = Inr x \<Longrightarrow> entry x = [] \<or> (\<exists>a. entry x = [a] \<and> admission_post (fw_file w) a t')"
    by blast
  let ?new = "case fst (m ?s) of Inr x \<Rightarrow> entry x | Inl e \<Rightarrow> []"
  have run: "call_service i m entry w = \<lparr>fw_file = t', fw_services = (fw_services w)[i := snd (m ?s)],
      fw_admissions = fw_admissions w @ ?new\<rparr>"
    using True t' by (cases "m ?s") (simp add: call_service_def service_sound_def split: sum.split)
  have kept: "facts_sound t'" "caches_sound (snd (m ?s)) t'" using t' by (simp_all add: service_sound_def)
  have services: "list_all (\<lambda>s. caches_sound s t') ((fw_services w)[i := snd (m ?s)])"
    using w kept(2) caches_grow [OF grow]
    by (auto simp: world_sound_def list_all_iff dest!: set_update_subset_insert [THEN subsetD])
  have old: "list_all (\<lambda>a. holds_observation t' (ar_observation a)) (fw_admissions w)"
    using w holds_grows(1) [OF grow] by (auto simp: world_sound_def list_all_iff)
  have new: "?new = [] \<or> (\<exists>a. ?new = [a] \<and> admission_post (fw_file w) a t')"
    using post by (auto split: sum.split)
  have fresh: "admission_key a \<notin> admission_key ` set (causal_admissions (fw_admissions w))"
    if "admission_post (fw_file w) a t'" "ar_disposition a \<noteq> REPLAY" for a
  proof
    assume "admission_key a \<in> admission_key ` set (causal_admissions (fw_admissions w))"
    then obtain b where b: "b \<in> set (fw_admissions w)" "admission_key b = admission_key a"
      by (auto simp: causal_admissions_def)
    with w have "has_observation_key (fw_file w) (ob_scope (ar_observation b)) (ob_id (ar_observation b))"
      by (auto simp: world_sound_def list_all_iff intro: holds_key(1))
    with b(2) that show False by (simp add: admission_key_def admission_post_def new_key_def)
  qed
  have logged: "distinct (map admission_key (causal_admissions (fw_admissions w @ xs))) \<and>
      list_all (\<lambda>a. holds_observation t' (ar_observation a)) (fw_admissions w @ xs)"
    if xs: "xs = [] \<or> (\<exists>a. xs = [a] \<and> admission_post (fw_file w) a t')" for xs
  proof (cases xs)
    case Nil
    with w old show ?thesis by (simp add: world_sound_def)
  next
    case (Cons a ys)
    with xs have a: "xs = [a]" "admission_post (fw_file w) a t'" by auto
    have "distinct (map admission_key (causal_admissions (fw_admissions w) @ causal_admissions [a]))"
    proof (cases "ar_disposition a = REPLAY")
      case True
      with w show ?thesis by (simp add: world_sound_def causal_admissions_def)
    next
      case False
      with w fresh [OF a(2) False] show ?thesis by (simp add: world_sound_def causal_admissions_def)
    qed
    then show ?thesis using old a by (simp add: causal_admissions_def admission_post_def)
  qed
  show ?thesis using logged [OF new] kept services grow by (simp add: run world_sound_def)
next
  case False
  with w show ?thesis by (simp add: call_service_def)
qed

lemma fact_world_step_sound:
  assumes "world_sound w" and "fact_step_valid step"
  shows "world_sound (fact_world_step step w) \<and> facts_grow (fw_file w) (fw_file (fact_world_step step w))"
proof (cases step)
  case StartService
  with assms show ?thesis
    by (auto simp: world_sound_def split: sum.split intro: new_service_sound)
next
  case (AdmitEvidence i e ia rt ps now)
  with assms(2) show ?thesis unfolding AdmitEvidence fact_world_step.simps
    by (intro call_service_sound [OF assms(1)]) (simp add: admit_fact_sound)
next
  case (AdmitReality i q)
  with assms(2) show ?thesis unfolding AdmitReality fact_world_step.simps
    by (intro call_service_sound [OF assms(1)]) (simp add: admit_reality_sound)
next
  case (AdmitOperational i key val q r tm)
  with assms(2) show ?thesis unfolding AdmitOperational fact_world_step.simps
    by (intro call_service_sound [OF assms(1)]) (simp add: admit_operational_sound)
next
  case (LostAfterEvidence e ia)
  have "facts_sound (snd (save_evidence e ia (fw_file w))) \<and> facts_grow (fw_file w) (snd (save_evidence e ia (fw_file w)))"
    using assms LostAfterEvidence sound_new_evidence(1) [of "fw_file w" e ia]
    by (auto simp: world_sound_def save_evidence_run facts_grow_def split: sum.splits)
  with assms(1) LostAfterEvidence show ?thesis
    by (auto simp: world_sound_def list_all_iff dest: caches_grow holds_grows(1))
qed

lemma fact_run_sound:
  assumes "list_all fact_step_valid steps" and "world_sound w"
  shows "world_sound (fact_run steps w) \<and> facts_grow (fw_file w) (fw_file (fact_run steps w))"
  using assms
proof (induction steps arbitrary: w)
  case (Cons step steps)
  from fact_world_step_sound [of w step] Cons.prems
  have first: "world_sound (fact_world_step step w)" "facts_grow (fw_file w) (fw_file (fact_world_step step w))" by auto
  with Cons.IH [of "fact_world_step step w"] Cons.prems show ?case
    by (auto simp: fact_run_def intro: facts_grow_trans)
qed (simp add: fact_run_def)

lemma new_world_sound: "world_sound new_fact_world"
  by (simp add: world_sound_def new_fact_world_def facts_sound_def no_facts_def causal_admissions_def)

lemma fact_run_append: "fact_run (xs @ ys) w = fact_run ys (fact_run xs w)"
  by (simp add: fact_run_def)

text \<open>
  C10. Admitted once. However the calls of any number of services on one file interleave, with restarts,
  stale caches and processes that end between two writes: every observation that \<^verbatim>\<open>admit\<close> or \<^verbatim>\<open>admit_reality\<close>
  ever returned is the one the file holds under its key, now and after any further calls, and neither admits a
  key as new or repaired twice, so that no observation is consumed by two turns. The calls of
  \<^verbatim>\<open>admit_operational_fact\<close> are among those that interleave, but nothing is claimed of what they return: it need
  not be what the file holds (Lemma \<open>operational_facts_are_not_arbitrated\<close> of \<open>Fact_Admission\<close>).
\<close>

theorem facts_admitted_once:
  assumes "list_all fact_step_valid (before @ later)"
  shows "(\<forall>a \<in> set (fw_admissions (fact_run before new_fact_world)).
       holds_observation (fw_file (fact_run (before @ later) new_fact_world)) (ar_observation a)) \<and>
     distinct (map admission_key (causal_admissions (fw_admissions (fact_run (before @ later) new_fact_world)))) \<and>
     facts_grow (fw_file (fact_run before new_fact_world)) (fw_file (fact_run (before @ later) new_fact_world))"
proof -
  from fact_run_sound [OF _ new_world_sound, of before] assms
  have first: "world_sound (fact_run before new_fact_world)" by simp
  from fact_run_sound [OF _ this, of later] assms
  have both: "world_sound (fact_run (before @ later) new_fact_world)"
    "facts_grow (fw_file (fact_run before new_fact_world)) (fw_file (fact_run (before @ later) new_fact_world))"
    by (simp_all add: fact_run_append)
  show ?thesis
  proof (intro conjI ballI)
    fix a
    assume "a \<in> set (fw_admissions (fact_run before new_fact_world))"
    with first have "holds_observation (fw_file (fact_run before new_fact_world)) (ar_observation a)"
      by (simp add: world_sound_def list_all_iff)
    then show "holds_observation (fw_file (fact_run (before @ later) new_fact_world)) (ar_observation a)"
      by (rule holds_grows(1) [OF both(2)])
  qed (use both in \<open>simp_all add: world_sound_def\<close>)
qed

section \<open>A concrete history\<close>

definition hello :: "string \<Rightarrow> evidence" where
  "hello txt = (let sc = user_scope ''u'' in
     \<lparr>ev_id = ''e1'', ev_source_type = ''user_message'', ev_source_id = ''m1'', ev_authority_level = VERIFIED,
      ev_occurred_at = utc 5, ev_received_at = utc 6, ev_payload = VMap [(VStr ''text'', VStr txt)], ev_scope = sc,
      ev_origin_runtime_id = ''r'',
      ev_authority = \<lparr>au_scope = sc, au_level = VERIFIED, au_source_id = Some ''m1''\<rparr>,
      ev_sync = mk_sync sc ''r'' ''e1'' 1 ''k1''\<rparr>)"

lemma hello_valid: "evidence_valid (hello ''hi'')"
  by code_simp

text \<open>
  Two services open an empty file. The first one is called with a foreign persona, which is rejected, then
  properly, which repairs; the second one, whose cache knows nothing of it, replays what the file holds.
\<close>

definition hello_steps :: "fact_step list" where
  "hello_steps = [StartService, StartService,
     AdmitEvidence 0 (hello ''hi'') ''i1'' ''r'' (Some ''p'') (utc 7),
     AdmitEvidence 0 (hello ''hi'') ''i2'' ''r'' None (utc 8),
     AdmitEvidence 1 (hello ''hi'') ''i3'' ''r'' None (utc 9)]"

lemma facts_admitted_once_witness:
  "map ar_disposition (fw_admissions (fact_run hello_steps new_fact_world)) = [REPAIRED, REPLAY] \<and>
   list_all (\<lambda>a. holds_observation (fw_file (fact_run (hello_steps @ [StartService]) new_fact_world)) (ar_observation a))
     (fw_admissions (fact_run hello_steps new_fact_world))"
proof
  show "map ar_disposition (fw_admissions (fact_run hello_steps new_fact_world)) = [REPAIRED, REPLAY]"
    by code_simp
  have "list_all fact_step_valid (hello_steps @ [StartService])"
    by (simp add: hello_steps_def hello_valid)
  from facts_admitted_once [OF this]
  show "list_all (\<lambda>a. holds_observation (fw_file (fact_run (hello_steps @ [StartService]) new_fact_world)) (ar_observation a))
     (fw_admissions (fact_run hello_steps new_fact_world))"
    unfolding list_all_iff by blast
qed

end
