(* ===== verification/Fact_Admission.thy ===== *)
theory Fact_Admission
  imports Fact_History
begin

text \<open>
  What one admission does, exactly: a service whose caches agree with its file implements the specification
  of an admission on the abstract ledger, the evidence with its first interaction and the observation under
  each key. The last section shows what a stale cache can do.
\<close>

section \<open>The abstract ledger\<close>

type_synonym fact_ledger =
  "(scope \<times> string \<Rightarrow> (evidence \<times> string) option) \<times> (scope \<times> string \<Rightarrow> observation option)"

definition ledger_evidence :: "fact_tables \<Rightarrow> scope \<times> string \<Rightarrow> (evidence \<times> string) option" where
  "ledger_evidence t = (\<lambda>(sc, k). if scope_valid sc then case find_evidence sc k t of Inr x \<Rightarrow> x | Inl e \<Rightarrow> None else None)"

definition ledger_observations :: "fact_tables \<Rightarrow> scope \<times> string \<Rightarrow> observation option" where
  "ledger_observations t = (\<lambda>(sc, k). if scope_valid sc then case find_observation sc k t of Inr x \<Rightarrow> x | Inl e \<Rightarrow> None else None)"

definition fact_ledger_of :: "fact_tables \<Rightarrow> fact_ledger" where
  "fact_ledger_of t = (ledger_evidence t, ledger_observations t)"

text \<open>
  Evidence is kept whatever becomes of its admission, with the interaction of its first admission; a
  repaired observation is bound to that interaction and to the time the evidence was received.
\<close>

definition admission_spec ::
  "evidence \<Rightarrow> string \<Rightarrow> string \<Rightarrow> string option \<Rightarrow> datetime \<Rightarrow> fact_ledger \<Rightarrow> admission_result result \<times> fact_ledger" where
  "admission_spec e i rt ps now = (\<lambda>(E, B).
     let k = (ev_scope e, ev_id e); ok = (ev_scope e, ''observation-'' @ ev_id e);
         E' = (if E k = None then E(k \<mapsto> (e, i)) else E)
     in if E k = None \<and> B ok \<noteq> None
       then (Inl (ConflictError ''observation exists without its evidence row''), (E, B))
     else if (case E k of None \<Rightarrow> False | Some (b, j) \<Rightarrow> \<not> evidence_eq b e)
       then (Inl (ConflictError ''evidence reuses (scope, id) with different immutable bytes''), (E, B))
     else case guarded (require_user_fact e @ require_owner e rt ps) () of
       Inl err \<Rightarrow> (Inl err, (E', B))
     | Inr _ \<Rightarrow> (case B ok of
         Some ob \<Rightarrow> (Inr \<lparr>ar_observation = ob, ar_disposition = REPLAY\<rparr>, (E, B))
       | None \<Rightarrow> (case (case E k of None \<Rightarrow> build_observation e i now
                         | Some (b, j) \<Rightarrow> build_observation e j (ev_received_at e)) of
           Inl err \<Rightarrow> (Inl err, (E, B))
         | Inr ob \<Rightarrow> (Inr \<lparr>ar_observation = ob, ar_disposition = if E k = None then NEW else REPAIRED\<rparr>,
             (E', B(ok \<mapsto> ob))))))"

definition in_step :: "fact_service \<Rightarrow> fact_tables \<Rightarrow> bool" where
  "in_step s t \<longleftrightarrow> fs_backend s = Some t \<and> facts_sound t \<and>
     map_of (fs_evidence s) = (\<lambda>k. map_option fst (ledger_evidence t k)) \<and>
     map_of (fs_observations s) = ledger_observations t"

definition fact_storable :: "evidence \<Rightarrow> bool" where
  "fact_storable e \<longleftrightarrow> \<not> isl (fact_json (ev_payload e)) \<and> sf_version (ev_sync e) < 2 ^ 63"

lemma map_of_store_append: "map_of (store_append k v m) = (if map_of m k = None then (map_of m)(k \<mapsto> v) else map_of m)"
  by (auto simp: store_append_def map_add_def split: option.split)

lemma ledger_evidence_append:
  assumes "facts_sound t" and "evidence_valid e" and "evidence_to_row e i = Inr r"
    and "\<not> has_evidence_key t (ev_scope e) (ev_id e)"
  shows "ledger_evidence (t\<lparr>ft_evidence := ft_evidence t @ [r]\<rparr>) = (ledger_evidence t)(((ev_scope e, ev_id e)) \<mapsto> (e, i))"
proof
  fix k :: "scope \<times> string"
  obtain sc x where k: "k = (sc, x)" by (cases k)
  note key = evidence_row_fields [OF assms(3)]
  have held: "find_evidence (ev_scope e) (ev_id e) (t\<lparr>ft_evidence := ft_evidence t @ [r]\<rparr>) = Inr (Some (e, i))"
    using sound_new_evidence(2) [OF assms] by (simp add: holds_evidence_def)
  show "ledger_evidence (t\<lparr>ft_evidence := ft_evidence t @ [r]\<rparr>) k = ((ledger_evidence t)((ev_scope e, ev_id e) \<mapsto> (e, i))) k"
  proof (cases "k = (ev_scope e, ev_id e)")
    case True
    with held evidence_valid_scope [OF assms(2)] show ?thesis by (simp add: ledger_evidence_def)
  next
    case False
    then have "scope_valid sc \<Longrightarrow> evidence_row_key r \<noteq> (scope_values sc, x)"
      using scope_values_inject evidence_valid_scope [OF assms(2)] by (auto simp: key k)
    with False show ?thesis
      by (auto simp: ledger_evidence_def k find_evidence_def find_append split: option.split)
  qed
qed

lemma ledger_observations_append:
  assumes "facts_sound t" and "observation_whole ob" and "observation_to_row ob = Inr r"
    and "\<not> has_observation_key t (ob_scope ob) (ob_id ob)"
  shows "ledger_observations (t\<lparr>ft_observations := ft_observations t @ [r]\<rparr>) = (ledger_observations t)((ob_scope ob, ob_id ob) \<mapsto> ob)"
proof
  fix k :: "scope \<times> string"
  obtain sc x where k: "k = (sc, x)" by (cases k)
  note key = observation_row_fields [OF assms(3)]
  have held: "find_observation (ob_scope ob) (ob_id ob) (t\<lparr>ft_observations := ft_observations t @ [r]\<rparr>) = Inr (Some ob)"
    using sound_new_observation(2) [OF assms] by (simp add: holds_observation_def)
  show "ledger_observations (t\<lparr>ft_observations := ft_observations t @ [r]\<rparr>) k = ((ledger_observations t)((ob_scope ob, ob_id ob) \<mapsto> ob)) k"
  proof (cases "k = (ob_scope ob, ob_id ob)")
    case True
    with held observation_whole_scope [OF assms(2)] show ?thesis by (simp add: ledger_observations_def)
  next
    case False
    then have "scope_valid sc \<Longrightarrow> observation_row_key r \<noteq> (scope_values sc, x)"
      using scope_values_inject observation_whole_scope [OF assms(2)] by (auto simp: key k)
    with False show ?thesis
      by (auto simp: ledger_observations_def k find_observation_def find_append split: option.split)
  qed
qed

lemma ledger_other_table [simp]:
  "ledger_evidence (t\<lparr>ft_observations := x\<rparr>) = ledger_evidence t"
  "ledger_observations (t\<lparr>ft_evidence := y\<rparr>) = ledger_observations t"
  by (rule ext, auto simp: ledger_evidence_def ledger_observations_def find_evidence_def find_observation_def)+

lemma ledger_find:
  assumes "facts_sound t" and "scope_valid sc"
  shows "find_evidence sc k t = Inr (ledger_evidence t (sc, k))"
    and "find_observation sc k t = Inr (ledger_observations t (sc, k))"
    and "has_evidence_key t sc k \<longleftrightarrow> ledger_evidence t (sc, k) \<noteq> None"
    and "has_observation_key t sc k \<longleftrightarrow> ledger_observations t (sc, k) \<noteq> None"
proof -
  have E: "ledger_evidence t (sc, k) = x" if "find_evidence sc k t = Inr x" for x
    using assms(2) that by (simp add: ledger_evidence_def)
  have B: "ledger_observations t (sc, k) = x" if "find_observation sc k t = Inr x" for x
    using assms(2) that by (simp add: ledger_observations_def)
  from find_evidence_cases [OF assms, of k] E
  show "find_evidence sc k t = Inr (ledger_evidence t (sc, k))" by metis
  from find_observation_cases [OF assms, of k] B
  show "find_observation sc k t = Inr (ledger_observations t (sc, k))" by metis
  from find_evidence_cases [OF assms, of k] E
  show "has_evidence_key t sc k \<longleftrightarrow> ledger_evidence t (sc, k) \<noteq> None" by (metis option.distinct(1))
  from find_observation_cases [OF assms, of k] B
  show "has_observation_key t sc k \<longleftrightarrow> ledger_observations t (sc, k) \<noteq> None" by (metis option.distinct(1))
qed

section \<open>One admission\<close>

lemma storable_row: "fact_storable e \<Longrightarrow> evidence_valid e \<Longrightarrow> \<exists>r. evidence_to_row e i = Inr r \<and> - (2 ^ 63) \<le> evr_sync_version r \<and> evr_sync_version r < 2 ^ 63"
  by (cases "fact_json (ev_payload e)")
    (auto simp: fact_storable_def evidence_to_row_def evidence_valid_def evidence_tail_checks_def)

lemma built_row:
  assumes "build_observation e i now = Inr ob" and "fact_storable e" and "evidence_valid e"
  shows "\<exists>r. observation_to_row ob = Inr r \<and> - (2 ^ 63) \<le> obr_sync_version r \<and> obr_sync_version r < 2 ^ 63"
proof -
  have "freeze_value ''value'' (ev_payload e) = Inr (ev_payload e)"
    using assms(3) by (simp add: evidence_valid_def freeze_frozen)
  with assms(1) have "ob_value ob = ev_payload e" "sf_version (ob_sync ob) = 1"
    by (auto simp: build_observation_def mk_observation_def bindR_Inr_iff guarded_Inr_iff)
  with assms(2) show ?thesis
    by (cases "fact_json (ev_payload e)") (auto simp: fact_storable_def observation_to_row_def)
qed

lemma build_succeeds:
  assumes "evidence_valid e" and "non_empty i" and "is_aware_utc now"
  shows "\<exists>ob. build_observation e i now = Inr ob"
proof -
  have froz: "freeze_value ''value'' (ev_payload e) = Inr (ev_payload e)"
    using assms(1) by (simp add: evidence_valid_def freeze_frozen)
  from assms(1) have "non_empty (ev_id e)" "non_empty (ev_origin_runtime_id e)" "non_empty (ev_source_type e)"
    by (simp_all add: evidence_valid_def evidence_head_checks_def)
  then have made: "\<exists>ob'. mk_observation ob = Inr ob'"
    if "ob_id ob = ''observation-'' @ ev_id e" "ob_interaction_id ob = i" "ob_origin_runtime_id ob = ev_origin_runtime_id e"
      "ob_type ob = ''factual''" "ob_key ob = ev_source_type e @ ''.observed''" "ob_confidence ob = 1"
      "ob_observed_at ob = now" "ob_evidence_refs ob = [ev_id e]" "ob_effective_window ob = None" "ob_scope ob = ev_scope e"
      "ob_sync ob = mk_sync (ev_scope e) (ev_origin_runtime_id e) (''observation-'' @ ev_id e) 1 (''idem-obs-'' @ ev_id e)"
      "ob_value ob = ev_payload e" for ob
  proof -
    have "all_clear (observation_head_checks ob)"
      using that assms(2,3) \<open>non_empty (ev_id e)\<close> \<open>non_empty (ev_origin_runtime_id e)\<close> \<open>non_empty (ev_source_type e)\<close>
      by (simp add: observation_head_checks_def non_empty_eval)
    moreover have "all_clear (observation_tail_checks (ob\<lparr>ob_value := v\<rparr>))" for v
      using that \<open>non_empty (ev_id e)\<close> \<open>non_empty (ev_origin_runtime_id e)\<close>
      by (simp add: observation_tail_checks_def non_empty_eval)
    moreover have "all_clear (observation_tail_checks ob)"
      using that \<open>non_empty (ev_id e)\<close> \<open>non_empty (ev_origin_runtime_id e)\<close>
      by (simp add: observation_tail_checks_def non_empty_eval)
    ultimately show ?thesis using froz that(12) by (simp add: mk_observation_def guarded_clear)
  qed
  show ?thesis unfolding build_observation_def by (rule made) simp_all
qed

lemma save_evidence_new:
  assumes "facts_sound t" and "evidence_valid e" and "fact_storable e" and "ledger_evidence t (ev_scope e, ev_id e) = None"
  shows "\<exists>t'. save_evidence e i t = (Inr True, t') \<and> facts_sound t' \<and>
    ledger_evidence t' = (ledger_evidence t)((ev_scope e, ev_id e) \<mapsto> (e, i)) \<and> ledger_observations t' = ledger_observations t"
proof -
  from storable_row [OF assms(3,2), of i] obtain r where r: "evidence_to_row e i = Inr r"
    and "- (2 ^ 63) \<le> evr_sync_version r \<and> evr_sync_version r < 2 ^ 63" by blast
  moreover have new: "\<not> has_evidence_key t (ev_scope e) (ev_id e)"
    using assms(4) ledger_find(3) [OF assms(1) evidence_valid_scope [OF assms(2)]] by simp
  ultimately have "save_evidence e i t = (Inr True, t\<lparr>ft_evidence := ft_evidence t @ [r]\<rparr>)"
    by (simp add: save_evidence_run)
  with sound_new_evidence(1) [OF assms(1,2) r new] ledger_evidence_append [OF assms(1,2) r new] show ?thesis by simp
qed

lemma save_observation_new:
  assumes "facts_sound t" and "observation_whole ob" and "observation_to_row ob = Inr r"
    and "- (2 ^ 63) \<le> obr_sync_version r \<and> obr_sync_version r < 2 ^ 63"
    and "ledger_observations t (ob_scope ob, ob_id ob) = None"
  shows "\<exists>t'. save_observation ob t = (Inr True, t') \<and> facts_sound t' \<and>
    ledger_observations t' = (ledger_observations t)((ob_scope ob, ob_id ob) \<mapsto> ob) \<and> ledger_evidence t' = ledger_evidence t"
proof -
  have new: "\<not> has_observation_key t (ob_scope ob) (ob_id ob)"
    using assms(5) ledger_find(4) [OF assms(1) observation_whole_scope [OF assms(2)]] by simp
  with assms(3,4) have "save_observation ob t = (Inr True, t\<lparr>ft_observations := ft_observations t @ [r]\<rparr>)"
    by (simp add: save_observation_run)
  with sound_new_observation(1) [OF assms(1-3) new] ledger_observations_append [OF assms(1-3) new] show ?thesis by simp
qed

lemma save_admission_new:
  assumes "facts_sound t" and "evidence_valid e" and "fact_storable e" and "ledger_evidence t (ev_scope e, ev_id e) = None"
    and "observation_whole ob" and row: "observation_to_row ob = Inr r"
    and int: "- (2 ^ 63) \<le> obr_sync_version r \<and> obr_sync_version r < 2 ^ 63"
    and none: "ledger_observations t (ob_scope ob, ob_id ob) = None"
  shows "\<exists>t'. save_admission e i ob t = (Inr True, t') \<and> facts_sound t' \<and>
    ledger_evidence t' = (ledger_evidence t)((ev_scope e, ev_id e) \<mapsto> (e, i)) \<and>
    ledger_observations t' = (ledger_observations t)((ob_scope ob, ob_id ob) \<mapsto> ob)"
proof -
  from save_evidence_new [OF assms(1-4), of i] obtain t1 where t1: "save_evidence e i t = (Inr True, t1)" "facts_sound t1"
    and led: "ledger_evidence t1 = (ledger_evidence t)((ev_scope e, ev_id e) \<mapsto> (e, i))" "ledger_observations t1 = ledger_observations t"
    by blast
  from save_observation_new [OF t1(2) assms(5) row int] none led obtain t2 where t2: "save_observation ob t1 = (Inr True, t2)" "facts_sound t2"
    "ledger_observations t2 = (ledger_observations t)((ob_scope ob, ob_id ob) \<mapsto> ob)" "ledger_evidence t2 = ledger_evidence t1"
    by auto
  have first: "insert_evidence e i t = (Inr (), t1)"
    using t1(1) by (auto simp: save_evidence_run insert_evidence_run split: sum.splits if_splits)
  have "insert_observation ob t1 = (Inr (), t2)"
    using t2(1) by (auto simp: save_observation_run insert_observation_run split: sum.splits if_splits)
  with first have "save_admission e i ob t = (Inr True, t2)"
    by (simp add: save_admission_def unless_duplicate_def fact_block_def)
  with t2 led show ?thesis by simp
qed

text \<open>The steps of an admission when the caches agree with the file.\<close>

lemma on_facts_run: "fs_backend s = Some t \<Longrightarrow> m t = (r, t') \<Longrightarrow> on_facts m s = (r, s\<lparr>fs_backend := Some t'\<rparr>)"
  by (simp add: on_facts_def)

lemma lost_write_run:
  "fs_backend s = Some t \<Longrightarrow> m t = (Inr ok, t') \<Longrightarrow> lost_write m s = (Inr (\<not> ok), s\<lparr>fs_backend := Some t'\<rparr>)"
  by (simp add: lost_write_def durable_def on_facts_run bindP_return [where m = "on_facts m"])

lemma backend_again: "fs_backend s = Some t \<Longrightarrow> s\<lparr>fs_backend := Some t\<rparr> = s"
  by simp

lemma find_stored_run:
  assumes "fs_backend s = Some t" and "facts_sound t" and "scope_valid sc"
  shows "find_stored_evidence sc k s = (Inr (ledger_evidence t (sc, k)), s)"
  using assms ledger_find(1) [OF assms(2,3)]
  by (simp add: find_stored_evidence_def on_facts_def)

lemma different_bytes_run:
  assumes "fs_backend s = Some t" and "facts_sound t" and "scope_valid (ev_scope e)"
    and "c = map_option fst (ledger_evidence t (ev_scope e, ev_id e))"
  shows "different_bytes e c s = (Inr (case ledger_evidence t (ev_scope e, ev_id e) of None \<Rightarrow> False | Some (b, j) \<Rightarrow> \<not> evidence_eq b e), s)"
proof (cases "ledger_evidence t (ev_scope e, ev_id e)")
  case None
  with assms(4) show ?thesis by (simp add: different_bytes_def)
next
  case (Some p)
  obtain b j where p: "p = (b, j)" by (cases p)
  show ?thesis
    using Some p assms(4) assms(1)
    by (simp add: different_bytes_def durable_def
        bindP_return [where m = "find_stored_evidence (ev_scope e) (ev_id e)", OF find_stored_run [OF assms(1-3)]])
qed

lemma in_step_parts:
  assumes "in_step s t"
  shows "fs_backend s = Some t" and "facts_sound t"
    and "map_of (fs_evidence s) k = map_option fst (ledger_evidence t k)"
    and "map_of (fs_observations s) k = ledger_observations t k"
  using assms by (simp_all add: in_step_def)

lemma remember_known:
  "in_step s t \<Longrightarrow> ledger_evidence t (ev_scope e, ev_id e) \<noteq> None \<Longrightarrow> in_step (remember_evidence e i s) t"
  by (auto simp: in_step_def remember_evidence_def map_of_store_append)

lemma remember_new_evidence:
  assumes "in_step s t" and "ledger_evidence t (ev_scope e, ev_id e) = None" and "facts_sound t'"
    and "ledger_evidence t' = (ledger_evidence t)((ev_scope e, ev_id e) \<mapsto> (e, i))" and "ledger_observations t' = ledger_observations t"
  shows "in_step ((remember_evidence e i s)\<lparr>fs_backend := Some t'\<rparr>) t'"
  using assms by (auto simp: in_step_def remember_evidence_def map_of_store_append)

lemma remember_new_observation:
  assumes "in_step s t" and "ledger_observations t (ob_scope ob, ob_id ob) = None" and "facts_sound t'"
    and "ledger_evidence t' = ledger_evidence t" and "ledger_observations t' = (ledger_observations t)((ob_scope ob, ob_id ob) \<mapsto> ob)"
  shows "in_step (remember_observation ob (s\<lparr>fs_backend := Some t'\<rparr>)) t'"
  using assms by (auto simp: in_step_def remember_observation_def map_of_store_append)

lemma reject_new:
  assumes s: "in_step s t" and e: "evidence_valid e" "fact_storable e" and none: "ledger_evidence t (ev_scope e, ev_id e) = None"
  shows "\<exists>t'. reject e i True err (remember_evidence e i s) = (Inl err, (remember_evidence e i s)\<lparr>fs_backend := Some t'\<rparr>) \<and>
    in_step ((remember_evidence e i s)\<lparr>fs_backend := Some t'\<rparr>) t' \<and>
    fact_ledger_of t' = ((ledger_evidence t)((ev_scope e, ev_id e) \<mapsto> (e, i)), ledger_observations t)"
proof -
  from save_evidence_new [OF in_step_parts(2) [OF s] e none, of i] obtain t' where t': "save_evidence e i t = (Inr True, t')"
    "facts_sound t'" "ledger_evidence t' = (ledger_evidence t)((ev_scope e, ev_id e) \<mapsto> (e, i))"
    "ledger_observations t' = ledger_observations t" by blast
  have "fs_backend (remember_evidence e i s) = Some t"
    using in_step_parts(1) [OF s] by (simp add: remember_evidence_def)
  from lost_write_run [where m = "save_evidence e i", OF this t'(1)]
  have "reject e i True err (remember_evidence e i s) = (Inl err, (remember_evidence e i s)\<lparr>fs_backend := Some t'\<rparr>)"
    by (simp add: reject_def bindP_def)
  with remember_new_evidence [OF s none t'(2-4)] t'(3,4) show ?thesis by (auto simp: fact_ledger_of_def)
qed

lemma admit_new_run:
  assumes s: "in_step s t" and e: "evidence_valid e" "fact_storable e" and none: "ledger_evidence t (ev_scope e, ev_id e) = None"
    and ob: "build_observation e i now = Inr ob" and no_ob: "ledger_observations t (ob_scope ob, ob_id ob) = None"
  shows "\<exists>s' t'. admit_new e i now (remember_evidence e i s) = (Inr \<lparr>ar_observation = ob, ar_disposition = NEW\<rparr>, s') \<and>
    in_step s' t' \<and> fact_ledger_of t' =
      ((ledger_evidence t)((ev_scope e, ev_id e) \<mapsto> (e, i)), (ledger_observations t)((ob_scope ob, ob_id ob) \<mapsto> ob))"
proof -
  note whole = build_observation_whole(1) [OF ob evidence_valid_scope [OF e(1)]]
  from built_row [OF ob e(2,1)] obtain r where r: "observation_to_row ob = Inr r"
    "- (2 ^ 63) \<le> obr_sync_version r \<and> obr_sync_version r < 2 ^ 63" by blast
  from save_admission_new [OF in_step_parts(2) [OF s] e none whole r no_ob, of i] obtain t'
    where t': "save_admission e i ob t = (Inr True, t')" "facts_sound t'"
      "ledger_evidence t' = (ledger_evidence t)((ev_scope e, ev_id e) \<mapsto> (e, i))"
      "ledger_observations t' = (ledger_observations t)((ob_scope ob, ob_id ob) \<mapsto> ob)" by blast
  have "fs_backend (remember_evidence e i s) = Some t"
    using in_step_parts(1) [OF s] by (simp add: remember_evidence_def)
  from lost_write_run [where m = "save_admission e i ob", OF this t'(1)]
  have run: "admit_new e i now (remember_evidence e i s) = (Inr \<lparr>ar_observation = ob, ar_disposition = NEW\<rparr>,
      remember_observation ob ((remember_evidence e i s)\<lparr>fs_backend := Some t'\<rparr>))"
    by (simp add: admit_new_def ob admitted_def bindP_def)
  have "in_step (remember_observation ob ((remember_evidence e i s)\<lparr>fs_backend := Some t'\<rparr>)) t'"
    using s t' none no_ob by (auto simp: in_step_def remember_evidence_def remember_observation_def map_of_store_append)
  with run t' show ?thesis by (auto simp: fact_ledger_of_def)
qed

lemma repair_run:
  assumes s: "in_step s t" and e: "evidence_valid e" "fact_storable e" and stored: "ledger_evidence t (ev_scope e, ev_id e) = Some (b, j)"
    and ob: "build_observation e j (ev_received_at e) = Inr ob" and no_ob: "ledger_observations t (ob_scope ob, ob_id ob) = None"
  shows "\<exists>s' t'. repair e original s = (Inr \<lparr>ar_observation = ob, ar_disposition = REPAIRED\<rparr>, s') \<and>
    in_step s' t' \<and> fact_ledger_of t' = (ledger_evidence t, (ledger_observations t)((ob_scope ob, ob_id ob) \<mapsto> ob))"
proof -
  note whole = build_observation_whole(1) [OF ob evidence_valid_scope [OF e(1)]]
  note backend = in_step_parts(1) [OF s] and sound = in_step_parts(2) [OF s]
  from built_row [OF ob e(2,1)] obtain r where r: "observation_to_row ob = Inr r"
    "- (2 ^ 63) \<le> obr_sync_version r \<and> obr_sync_version r < 2 ^ 63" by blast
  from save_observation_new [OF sound whole r no_ob] obtain t'
    where t': "save_observation ob t = (Inr True, t')" "facts_sound t'"
      "ledger_observations t' = (ledger_observations t)((ob_scope ob, ob_id ob) \<mapsto> ob)" "ledger_evidence t' = ledger_evidence t"
    by blast
  have found: "repair_interaction e original s = (Inr (Some j), s)"
    using backend stored find_stored_run [OF backend sound evidence_valid_scope [OF e(1)], of "ev_id e"]
    by (simp add: repair_interaction_def durable_def bindP_def)
  from lost_write_run [where m = "save_observation ob", OF backend t'(1)]
  have run: "repair e original s = (Inr \<lparr>ar_observation = ob, ar_disposition = REPAIRED\<rparr>,
      remember_observation ob (s\<lparr>fs_backend := Some t'\<rparr>))"
    by (simp add: repair_def bindP_def found ob admitted_def)
  from remember_new_observation [OF s no_ob t'(2,4,3)] run t'(3,4) show ?thesis by (auto simp: fact_ledger_of_def)
qed

lemma repair_refused:
  assumes s: "in_step s t" and e: "evidence_valid e" and stored: "ledger_evidence t (ev_scope e, ev_id e) = Some (b, j)"
    and ob: "build_observation e j (ev_received_at e) = Inl err"
  shows "repair e original s = (Inl err, s)"
proof -
  note backend = in_step_parts(1) [OF s] and sound = in_step_parts(2) [OF s]
  have found: "repair_interaction e original s = (Inr (Some j), s)"
    using backend stored find_stored_run [OF backend sound evidence_valid_scope [OF e], of "ev_id e"]
    by (simp add: repair_interaction_def durable_def bindP_def)
  show ?thesis by (simp add: repair_def bindP_def found ob)
qed

lemma map_of_remembered:
  "map_of (fs_observations (remember_observation ob s)) k = (case map_of (fs_observations s) k of
     Some v \<Rightarrow> Some v | None \<Rightarrow> if k = (ob_scope ob, ob_id ob) then Some ob else None)"
  "map_of (fs_evidence (remember_evidence e i s)) k = (case map_of (fs_evidence s) k of
     Some v \<Rightarrow> Some v | None \<Rightarrow> if k = (ev_scope e, ev_id e) then Some e else None)"
  by (auto simp: remember_observation_def remember_evidence_def map_of_store_append split: option.split)

lemma map_of_fold_remember:
  "map_of (fs_observations (fold remember_observation obs s)) k = (case map_of (fs_observations s) k of
     Some v \<Rightarrow> Some v | None \<Rightarrow> map_of (map (\<lambda>ob. ((ob_scope ob, ob_id ob), ob)) obs) k)"
proof (induction obs arbitrary: s)
  case (Cons ob obs)
  then show ?case by (simp add: map_of_remembered split: option.split)
qed (simp split: option.split)

lemma map_of_fold_evidence:
  "map_of (fs_evidence (fold (\<lambda>(e, i). remember_evidence e i) es s)) k = (case map_of (fs_evidence s) k of
     Some v \<Rightarrow> Some v | None \<Rightarrow> map_of (map (\<lambda>p. ((ev_scope (fst p), ev_id (fst p)), fst p)) es) k)"
proof (induction es arbitrary: s)
  case (Cons p es)
  then show ?case by (cases p) (simp add: map_of_remembered split: option.split)
qed (simp split: option.split)

lemma fold_observations_rest:
  "fs_evidence (fold remember_observation obs s) = fs_evidence s \<and> fs_backend (fold remember_observation obs s) = fs_backend s"
  by (induction obs arbitrary: s) (auto simp: remember_observation_def)

lemma observation_row_back:
  assumes "observation_row_sound r" and "observation_from_row r = Inr ob"
  shows "observation_whole ob" and "(scope_values (ob_scope ob), ob_id ob) = observation_row_key r"
proof -
  from assms(1) obtain ob' where ob': "observation_whole ob'" "observation_to_row ob' = Inr r"
    by (auto simp: observation_row_sound_def)
  with observation_round_trip [OF ob'] assms(2) have "ob' = ob" by simp
  with ob' observation_row_fields [OF ob'(2)]
  show "observation_whole ob" "(scope_values (ob_scope ob), ob_id ob) = observation_row_key r" by simp_all
qed

lemma evidence_row_back:
  assumes "evidence_row_sound r" and "evidence_from_row r = Inr (e, i)"
  shows "evidence_valid e" and "(scope_values (ev_scope e), ev_id e) = evidence_row_key r"
proof -
  from assms(1) obtain e' i' where e': "evidence_valid e'" "evidence_to_row e' i' = Inr r"
    by (auto simp: evidence_row_sound_def)
  with evidence_round_trip [OF e'] assms(2) have "e' = e" by simp
  with e' evidence_row_fields [OF e'(2)]
  show "evidence_valid e" "(scope_values (ev_scope e), ev_id e) = evidence_row_key r" by simp_all
qed

lemma loaded_observation_keys:
  assumes t: "facts_sound t" and obs: "load_observations t = Inr obs"
  shows "map_of (map (\<lambda>ob. ((ob_scope ob, ob_id ob), ob)) obs) = ledger_observations t"
proof
  fix k
  have sound: "observation_row_sound r" if "r \<in> set (ft_observations t)" for r
    using t that by (simp add: facts_sound_def list_all_iff)
  have key: "(\<lambda>(sc, i). (scope_values sc, i)) (ob_scope ob, ob_id ob) = observation_row_key r"
    if "r \<in> set (ft_observations t)" "observation_from_row r = Inr ob" for r ob
    using observation_row_back(2) [OF sound [OF that(1)] that(2)] by simp
  have lookup: "map_of (map (\<lambda>ob. ((ob_scope ob, ob_id ob), ob)) obs) k = Some ob \<longleftrightarrow>
      (\<exists>r \<in> set (ft_observations t). \<exists>x. observation_from_row r = Inr x \<and> (ob_scope x, ob_id x) = k \<and> x = ob)" for ob
    by (rule loaded_lookup [where g = "\<lambda>ob. (ob_scope ob, ob_id ob)" and v = "\<lambda>x. x"
        and h = "\<lambda>(sc, i). (scope_values sc, i)" and key = observation_row_key, OF obs [unfolded load_observations_def] _ key]) (use t in \<open>simp add: facts_sound_def\<close>)
  have "(\<exists>r \<in> set (ft_observations t). \<exists>x. observation_from_row r = Inr x \<and> (ob_scope x, ob_id x) = k \<and> x = ob) \<longleftrightarrow>
      ledger_observations t k = Some ob" for ob
  proof
    assume "\<exists>r \<in> set (ft_observations t). \<exists>x. observation_from_row r = Inr x \<and> (ob_scope x, ob_id x) = k \<and> x = ob"
    then obtain r where r: "r \<in> set (ft_observations t)" "observation_from_row r = Inr ob" and k: "k = (ob_scope ob, ob_id ob)"
      by blast
    note read = observation_row_back [OF sound [OF r(1)] r(2)]
    have "find (\<lambda>x. observation_row_key x = observation_row_key r) (ft_observations t) = Some r"
      using find_distinct_key r(1) t by (auto simp: facts_sound_def)
    with read r(2) show "ledger_observations t k = Some ob"
      by (simp add: k ledger_observations_def find_observation_def observation_whole_scope)
  next
    assume "ledger_observations t k = Some ob"
    then obtain sc i where k: "k = (sc, i)" "scope_valid sc" "find_observation sc i t = Inr (Some ob)"
      by (cases k) (auto simp: ledger_observations_def split: if_splits sum.splits)
    then obtain r where "r \<in> set (ft_observations t)" "observation_from_row r = Inr ob"
      by (auto simp: find_observation_def bindR_Inr_iff dest: find_SomeD split: option.splits)
    moreover have "(ob_scope ob, ob_id ob) = k"
      using find_observation_cases [OF t k(2), of i] k by fastforce
    ultimately show "\<exists>r \<in> set (ft_observations t). \<exists>x. observation_from_row r = Inr x \<and> (ob_scope x, ob_id x) = k \<and> x = ob"
      by blast
  qed
  with lookup show "map_of (map (\<lambda>ob. ((ob_scope ob, ob_id ob), ob)) obs) k = ledger_observations t k"
    by (intro option_eqI) simp
qed

lemma loaded_evidence_keys:
  assumes t: "facts_sound t" and es: "load_evidence t = Inr es"
  shows "map_of (map (\<lambda>p. ((ev_scope (fst p), ev_id (fst p)), fst p)) es) = (\<lambda>k. map_option fst (ledger_evidence t k))"
proof
  fix k
  have sound: "evidence_row_sound r" if "r \<in> set (ft_evidence t)" for r
    using t that by (simp add: facts_sound_def list_all_iff)
  have key: "(\<lambda>(sc, i). (scope_values sc, i)) (ev_scope (fst p), ev_id (fst p)) = evidence_row_key r"
    if "r \<in> set (ft_evidence t)" "evidence_from_row r = Inr p" for r p
    using evidence_row_back(2) [OF sound [OF that(1)], of "fst p" "snd p"] that(2) by simp
  have lookup: "map_of (map (\<lambda>p. ((ev_scope (fst p), ev_id (fst p)), fst p)) es) k = Some e \<longleftrightarrow>
      (\<exists>r \<in> set (ft_evidence t). \<exists>x. evidence_from_row r = Inr x \<and> (ev_scope (fst x), ev_id (fst x)) = k \<and> fst x = e)" for e
    by (rule loaded_lookup [where g = "\<lambda>p. (ev_scope (fst p), ev_id (fst p))" and v = fst
        and h = "\<lambda>(sc, i). (scope_values sc, i)" and key = evidence_row_key, OF es [unfolded load_evidence_def] _ key]) (use t in \<open>simp add: facts_sound_def\<close>)
  have "(\<exists>r \<in> set (ft_evidence t). \<exists>x. evidence_from_row r = Inr x \<and> (ev_scope (fst x), ev_id (fst x)) = k \<and> fst x = e) \<longleftrightarrow>
      map_option fst (ledger_evidence t k) = Some e" for e
  proof
    assume "\<exists>r \<in> set (ft_evidence t). \<exists>x. evidence_from_row r = Inr x \<and> (ev_scope (fst x), ev_id (fst x)) = k \<and> fst x = e"
    then obtain r i where r: "r \<in> set (ft_evidence t)" "evidence_from_row r = Inr (e, i)" and k: "k = (ev_scope e, ev_id e)"
      by auto
    note read = evidence_row_back [OF sound [OF r(1)] r(2)]
    have "find (\<lambda>x. evidence_row_key x = evidence_row_key r) (ft_evidence t) = Some r"
      using find_distinct_key r(1) t by (auto simp: facts_sound_def)
    with read r(2) show "map_option fst (ledger_evidence t k) = Some e"
      by (simp add: k ledger_evidence_def find_evidence_def evidence_valid_scope)
  next
    assume "map_option fst (ledger_evidence t k) = Some e"
    then obtain sc j i where k: "k = (sc, j)" "scope_valid sc" "find_evidence sc j t = Inr (Some (e, i))"
      by (cases k) (auto simp: ledger_evidence_def split: if_splits sum.splits)
    then obtain r where "r \<in> set (ft_evidence t)" "evidence_from_row r = Inr (e, i)"
      by (auto simp: find_evidence_def bindR_Inr_iff dest: find_SomeD split: option.splits)
    moreover have "(ev_scope e, ev_id e) = k"
      using find_evidence_cases [OF t k(2), of j] k by fastforce
    ultimately show "\<exists>r \<in> set (ft_evidence t). \<exists>x. evidence_from_row r = Inr x \<and> (ev_scope (fst x), ev_id (fst x)) = k \<and> fst x = e"
      by force
  qed
  with lookup show "map_of (map (\<lambda>p. ((ev_scope (fst p), ev_id (fst p)), fst p)) es) k = map_option fst (ledger_evidence t k)"
    by (intro option_eqI) simp
qed

lemma new_service_in_step:
  assumes "new_fact_service (Some t) = Inr s" and "facts_sound t"
  shows "in_step s t"
proof -
  from assms(1) obtain es obs where es: "load_evidence t = Inr es" and obs: "load_observations t = Inr obs"
    and s: "s = seeded es obs \<lparr>fs_evidence = [], fs_observations = [], fs_provenance = [], fs_backend = Some t\<rparr>"
    by (auto simp: new_fact_service_def Let_def bindR_Inr_iff)
  show ?thesis
    using loaded_observation_keys [OF assms(2) obs] loaded_evidence_keys [OF assms(2) es] assms(2)
    by (simp add: in_step_def s seeded_def fun_eq_iff map_of_fold_remember map_of_fold_evidence
        fold_remember_evidence fold_observations_rest)
qed

text \<open>
  C11. An admission does what its specification says. When the caches of a service agree with its file, as
  they do after every start, admitting evidence gives exactly the specified result and the specified new
  ledger, on every branch: new evidence is admitted with its observation in one write; the same evidence
  with an observation is replayed without a write; without one it is repaired, bound to the interaction of
  its first admission and to the time it was received; other bytes under a known key and an observation
  without evidence are refused without a write; rejected evidence is kept and gets no observation. The
  caches agree with the file afterwards.
\<close>

theorem admission_implements_spec:
  assumes "in_step s t" and "evidence_valid e" and "fact_storable e" and "non_empty i" and "is_aware_utc now"
  shows "fst (admit_fact e i rt ps now s) = fst (admission_spec e i rt ps now (fact_ledger_of t)) \<and>
     (\<exists>t'. in_step (snd (admit_fact e i rt ps now s)) t' \<and>
       fact_ledger_of t' = snd (admission_spec e i rt ps now (fact_ledger_of t)))"
proof -
  let ?k = "(ev_scope e, ev_id e)" and ?ok = "(ev_scope e, ''observation-'' @ ev_id e)"
  let ?gate = "guarded (require_user_fact e @ require_owner e rt ps) ()"
  let ?s = "remember_evidence e i s"
  note parts = in_step_parts [OF assms(1)] and sc = evidence_valid_scope [OF assms(2)]
  have backend: "fs_backend ?s = Some t" using parts(1) by (simp add: remember_evidence_def)
  note bytes = different_bytes_run [where s = ?s, OF backend parts(2) sc refl]
  have same: "fact_ledger_of t = (ledger_evidence t, ledger_observations t)" by (simp add: fact_ledger_of_def)
  have built: "(ob_scope ob, ob_id ob) = ?ok" if "build_observation e j u = Inr ob" for j u ob
    using build_observation_whole(2,3) [OF that sc] by simp
  show ?thesis
  proof (cases "ledger_evidence t ?k")
    case new: None
    show ?thesis
    proof (cases "ledger_observations t ?ok")
      case (Some ob)
      with new assms(1) show ?thesis
        by (auto simp: admit_fact_def Let_def parts(3,4) same admission_spec_def)
    next
      case None
      have run: "admit_fact e i rt ps now s = (case ?gate of
          Inl err \<Rightarrow> reject e i True err | Inr _ \<Rightarrow> admit_new e i now) ?s"
        using new None bytes by (simp add: admit_fact_def Let_def parts(3,4) bindP_def split: sum.split)
      show ?thesis
      proof (cases ?gate)
        case (Inl err)
        from reject_new [OF assms(1-3) new, of i err] new None Inl show ?thesis
          by (auto simp: run same admission_spec_def Let_def)
      next
        case (Inr u)
        from build_succeeds [OF assms(2,4,5)] obtain ob where ob: "build_observation e i now = Inr ob" by blast
        from admit_new_run [OF assms(1-3) new ob] None built [OF ob] new Inr ob show ?thesis
          by (auto simp: run same admission_spec_def Let_def)
      qed
    qed
  next
    case (Some p)
    obtain b j where p: "p = (b, j)" by (cases p)
    have stored: "ledger_evidence t ?k = Some (b, j)" using Some p by simp
    have step: "in_step ?s t" using remember_known [OF assms(1)] stored by simp
    show ?thesis
    proof (cases "evidence_eq b e")
      case False
      with stored bytes step show ?thesis
        by (auto simp: admit_fact_def Let_def parts(3,4) bindP_def same admission_spec_def)
    next
      case True
      have run: "admit_fact e i rt ps now s = (case ?gate of
          Inl err \<Rightarrow> raiseP err | Inr _ \<Rightarrow> (case ledger_observations t ?ok of
             Some ob \<Rightarrow> returnP \<lparr>ar_observation = ob, ar_disposition = REPLAY\<rparr>
           | None \<Rightarrow> repair e (original_interaction e (fs_provenance s)))) ?s"
        using stored True bytes
        by (auto simp: admit_fact_def Let_def parts(3,4) bindP_def reject_def split: sum.split option.split)
      show ?thesis
      proof (cases "isl ?gate \<or> ledger_observations t ?ok \<noteq> None")
        case True
        with stored \<open>evidence_eq b e\<close> step show ?thesis
          by (auto simp: run same admission_spec_def Let_def split: sum.split option.split)
      next
        case False
        then have clear: "?gate = Inr ()" "ledger_observations t ?ok = None" by (cases ?gate; simp)+
        show ?thesis
        proof (cases "build_observation e j (ev_received_at e)")
          case (Inl err)
          from repair_refused [OF step assms(2) stored Inl] stored True clear step Inl show ?thesis
            by (auto simp: run same admission_spec_def Let_def)
        next
          case (Inr ob)
          from repair_run [OF step assms(2,3) stored Inr, of "original_interaction e (fs_provenance s)"] built [OF Inr] stored True clear Inr show ?thesis
            by (auto simp: run same admission_spec_def Let_def)
        qed
      qed
    qed
  qed
qed

definition rejected_file :: fact_tables where
  "rejected_file = fw_file (fact_run (take 3 hello_steps) new_fact_world)"

definition restarted :: fact_service where
  "restarted = (case new_fact_service (Some rejected_file) of Inr s \<Rightarrow> s)"

lemma admission_implements_spec_witness:
  "fst (admit_fact (hello ''hi'') ''i2'' ''r'' None (utc 8) restarted) =
     fst (admission_spec (hello ''hi'') ''i2'' ''r'' None (utc 8) (fact_ledger_of rejected_file)) \<and>
   (case fst (admit_fact (hello ''hi'') ''i2'' ''r'' None (utc 8) restarted) of Inl err \<Rightarrow> False
     | Inr a \<Rightarrow> ar_disposition a = REPAIRED \<and> ob_interaction_id (ar_observation a) = ''i1'' \<and>
         ob_observed_at (ar_observation a) = utc 6)"
proof
  have "list_all fact_step_valid (take 3 hello_steps)" by (simp add: hello_steps_def hello_valid)
  from fact_run_sound [OF this new_world_sound] have sound: "facts_sound rejected_file"
    by (simp add: rejected_file_def world_sound_def)
  have "\<not> isl (new_fact_service (Some rejected_file))" by code_simp
  then have "new_fact_service (Some rejected_file) = Inr restarted"
    by (cases "new_fact_service (Some rejected_file)") (simp_all add: restarted_def)
  from new_service_in_step [OF this sound] have step: "in_step restarted rejected_file" .
  have "fact_storable (hello ''hi'')" "non_empty ''i2''" "is_aware_utc (utc 8)" by code_simp+
  from admission_implements_spec [OF step hello_valid this]
  show "fst (admit_fact (hello ''hi'') ''i2'' ''r'' None (utc 8) restarted) =
     fst (admission_spec (hello ''hi'') ''i2'' ''r'' None (utc 8) (fact_ledger_of rejected_file))" by blast
qed code_simp

section \<open>What a stale cache can do\<close>

text \<open>
  A refused admission leaves its evidence in the cache of the service. Asked again, the service compares the
  evidence with the cache only: other bytes under the key of rejected evidence are refused once, and at the
  next attempt admitted as a repair.
\<close>

lemma conflict_is_admitted_on_retry:
  "let w = fact_run [StartService, StartService,
       AdmitEvidence 0 (hello ''hi'') ''i1'' ''r'' (Some ''p'') (utc 7),
       AdmitEvidence 1 (hello ''bye'') ''i2'' ''r'' None (utc 8),
       AdmitEvidence 1 (hello ''bye'') ''i3'' ''r'' None (utc 9)] new_fact_world
   in map ar_disposition (fw_admissions w) = [REPAIRED] \<and>
     map (\<lambda>a. ob_value (ar_observation a)) (fw_admissions w) = [VMap [(VStr ''text'', VStr ''bye'')]] \<and>
     map evr_payload (ft_evidence (fw_file w)) = [VMap [(VStr ''text'', VStr ''hi'')]]"
  by code_simp

text \<open>
  Evidence that cannot be written stays in the cache, which is enough for an interpretation of it: the file
  then holds an observation of evidence it does not hold.
\<close>

definition photo :: evidence where
  "photo = (hello ''hi'')\<lparr>ev_payload := VBytes ''jpeg''\<rparr>"

definition photo_reading :: "py_value \<Rightarrow> reality_request" where
  "photo_reading v = \<lparr>rr_source_evidence = photo, rr_interaction_id = ''i1'', rr_writing_runtime = ''r'',
     rr_writing_persona_id = None, rr_observation_id = ''o1'', rr_key = ''user.activity.sport'', rr_value = v,
     rr_confidence = 1, rr_modality = ASSERTED, rr_semantic_time = default_semantic_time, rr_effective_window = None\<rparr>"

lemma observation_without_evidence:
  "let w = fact_run [StartService, AdmitEvidence 0 photo ''i1'' ''r'' None (utc 7),
       AdmitReality 0 (photo_reading (VStr ''run''))] new_fact_world
   in map ar_disposition (fw_admissions w) = [NEW] \<and> ft_evidence (fw_file w) = [] \<and> length (ft_observations (fw_file w)) = 1"
  by code_simp

text \<open>
  An interpretation with a list as its value is stored with a tuple, which is not equal to the list when the
  same request comes again: the replay is refused as a conflict.
\<close>

lemma list_value_never_replays:
  "let w = fact_run [StartService, AdmitEvidence 0 (hello ''hi'') ''i1'' ''r'' None (utc 7)] new_fact_world;
       q = (photo_reading (VList [VStr ''run'']))\<lparr>rr_source_evidence := hello ''hi''\<rparr>;
       w' = fact_run [AdmitReality 0 q, AdmitReality 0 q] w
   in map ar_disposition (fw_admissions w') = [NEW, NEW]"
  by code_simp

text \<open>
  Two services settle one receipt with different values: both return their own, the file holds the first.
  The action type is only checked to be non-empty.
\<close>

definition settled_receipt :: delivery_receipt where
  "settled_receipt = \<lparr>dr_receipt_id = ''rc'', dr_scope = user_scope ''u'', dr_origin_runtime_id = ''r'',
     dr_message_id = ''m'', dr_delivery_status = SENT, dr_delivered_at = Some (utc 5),
     dr_sync = mk_sync (user_scope ''u'') ''r'' ''rc'' 1 ''k''\<rparr>"

definition settled_request :: delivery_request where
  "settled_request = \<lparr>rq_request_id = ''q'', rq_message_id = ''m'', rq_scope = user_scope ''u'', rq_origin_runtime_id = ''r'',
     rq_channel = ''c'', rq_target = ''t'', rq_action_type = ''no_such_action'', rq_payload_bytes = '''', rq_created_at = utc 1,
     rq_sync = mk_sync (user_scope ''u'') ''r'' ''q'' 1 ''k2'', rq_surface_handoff = None\<rparr>"

lemma operational_facts_are_not_arbitrated:
  "let key = ''counter.proactive_prompts_since_photo'';
       w = fact_run [StartService, StartService, AdmitOperational 0 key ''1'' settled_request settled_receipt None,
         AdmitOperational 1 key ''2'' settled_request settled_receipt None] new_fact_world
   in map (\<lambda>s. map (\<lambda>(k, ob). ob_value ob) (fs_observations s)) (fw_services w) = [[VStr ''1''], [VStr ''2'']] \<and>
     map obr_value (ft_observations (fw_file w)) = [VStr ''1'']"
  by code_simp

end
