(* ===== verification/Fact_Interactions.thy ===== *)
theory Fact_Interactions
  imports Fact_Store
begin

text \<open>
  The lifecycle of interactions (\<^verbatim>\<open>facts/coordinator.py\<close>): begun once, then committed or aborted, in memory
  and in the table of the file. The clock is the argument \<open>now\<close>, its answer; a dict is an association list
  and the set of interactions in processing a list of ids.
\<close>

section \<open>The coordinator\<close>

record coordinator =
  co_known :: "(string \<times> interaction) list"
  co_processing :: "string list"
  co_backend :: "fact_tables option"

definition new_coordinator :: "fact_tables option \<Rightarrow> coordinator result" where
  "new_coordinator backend = (case backend of
     None \<Rightarrow> Inr \<lparr>co_known = [], co_processing = [], co_backend = None\<rparr>
   | Some t \<Rightarrow> bindR (load_interactions t) (\<lambda>xs. Inr
       \<lparr>co_known = fold (\<lambda>i. AList.update (ia_interaction_id i) i) xs [], co_processing = [], co_backend = Some t\<rparr>))"

definition get_interaction :: "string \<Rightarrow> coordinator \<Rightarrow> interaction option" where
  "get_interaction i c = map_of (co_known c) i"

definition store_interaction :: "interaction \<Rightarrow> (coordinator, unit) prog" where
  "store_interaction i = (\<lambda>c. case co_backend c of None \<Rightarrow> (Inr (), c)
     | Some t \<Rightarrow> (case save_interaction i t of (r, t') \<Rightarrow> (r, c\<lparr>co_backend := Some t'\<rparr>)))"

definition learn :: "interaction \<Rightarrow> (coordinator, unit) prog" where
  "learn i = writeP (\<lambda>c. c\<lparr>co_known := AList.update (ia_interaction_id i) i (co_known c)\<rparr>)"

definition begin_interaction ::
  "string \<Rightarrow> scope \<Rightarrow> string \<Rightarrow> string \<Rightarrow> string \<Rightarrow> datetime \<Rightarrow> (coordinator, interaction) prog" where
  "begin_interaction interaction_id sc channel session_id turn_id now = (\<lambda>c.
     if map_of (co_known c) interaction_id \<noteq> None
     then (Inl (ValueError (''interaction already exists: '' @ interaction_id)), c)
     else bindP (liftP (mk_interaction \<lparr>ia_interaction_id = interaction_id, ia_scope = sc, ia_channel = channel,
         ia_session_id = session_id, ia_turn_id = turn_id, ia_started_at = now, ia_committed_at = None,
         ia_status = OPEN\<rparr>)) (\<lambda>i. thenP (learn i) (thenP (store_interaction i) (returnP i))) c)"

definition require_active :: "interaction \<Rightarrow> (coordinator, unit) prog" where
  "require_active i = (\<lambda>c. case map_of (co_known c) (ia_interaction_id i) of
     None \<Rightarrow> (Inl (ValueError (''unknown interaction: '' @ ia_interaction_id i)), c)
   | Some current \<Rightarrow> if ia_status current \<noteq> OPEN
       then (Inl (ValueError (''interaction already '' @ interaction_status_value (ia_status current) @ '': '' @
         ia_interaction_id i)), c)
       else (Inr (), c))"

definition processing :: "interaction \<Rightarrow> (coordinator, unit) prog" where
  "processing i = thenP (require_active i)
     (writeP (\<lambda>c. c\<lparr>co_processing := List.insert (ia_interaction_id i) (co_processing c)\<rparr>))"

definition is_processing :: "string \<Rightarrow> coordinator \<Rightarrow> bool" where
  "is_processing i c \<longleftrightarrow> i \<in> set (co_processing c)"

text \<open>The end of an interaction is built from the object of the caller, not from the known one.\<close>

definition finish_interaction :: "interaction \<Rightarrow> (coordinator, interaction) prog" where
  "finish_interaction i = bindP (liftP (mk_interaction i)) (\<lambda>i. thenP (learn i)
     (thenP (writeP (\<lambda>c. c\<lparr>co_processing := removeAll (ia_interaction_id i) (co_processing c)\<rparr>))
     (thenP (store_interaction i) (returnP i))))"

definition commit_interaction :: "interaction \<Rightarrow> datetime \<Rightarrow> (coordinator, interaction) prog" where
  "commit_interaction i now = thenP (require_active i)
     (finish_interaction (i\<lparr>ia_committed_at := Some now, ia_status := COMMITTED\<rparr>))"

definition abort_interaction :: "interaction \<Rightarrow> (coordinator, interaction) prog" where
  "abort_interaction i = thenP (require_active i)
     (finish_interaction (i\<lparr>ia_committed_at := None, ia_status := ABORTED\<rparr>))"

section \<open>Histories\<close>

datatype coordinator_call =
    Begin string scope string string string datetime
  | Processing interaction
  | Commit interaction datetime
  | Abort interaction
  | Restart

fun coordinator_step :: "coordinator_call \<Rightarrow> coordinator \<Rightarrow> coordinator" where
  "coordinator_step (Begin i sc ch se tu now) c = snd (begin_interaction i sc ch se tu now c)"
| "coordinator_step (Processing i) c = snd (processing i c)"
| "coordinator_step (Commit i now) c = snd (commit_interaction i now c)"
| "coordinator_step (Abort i) c = snd (abort_interaction i c)"
| "coordinator_step Restart c = (case new_coordinator (co_backend c) of Inl e \<Rightarrow> c | Inr c' \<Rightarrow> c')"

fun coordinator_call_valid :: "coordinator_call \<Rightarrow> bool" where
  "coordinator_call_valid (Begin i sc ch se tu now) = scope_valid sc"
| "coordinator_call_valid (Processing i) = True"
| "coordinator_call_valid (Commit i now) = scope_valid (ia_scope i)"
| "coordinator_call_valid (Abort i) = scope_valid (ia_scope i)"
| "coordinator_call_valid Restart = True"

definition coordinator_run :: "coordinator_call list \<Rightarrow> coordinator \<Rightarrow> coordinator" where
  "coordinator_run = fold coordinator_step"

definition fresh_coordinator :: coordinator where
  "fresh_coordinator = \<lparr>co_known = [], co_processing = [], co_backend = Some no_facts\<rparr>"

text \<open>The known interactions are those of the table.\<close>

definition interaction_row_sound :: "interaction_row \<Rightarrow> bool" where
  "interaction_row_sound r \<longleftrightarrow> (\<exists>i. interaction_valid i \<and> r = interaction_to_row i)"

definition table_lookup :: "fact_tables \<Rightarrow> string \<Rightarrow> interaction option" where
  "table_lookup t k = (case find (\<lambda>r. iar_interaction_id r = k) (ft_interactions t) of None \<Rightarrow> None
     | Some r \<Rightarrow> (case interaction_from_row r of Inr i \<Rightarrow> Some i | Inl e \<Rightarrow> None))"

definition coordinator_sound :: "coordinator \<Rightarrow> bool" where
  "coordinator_sound c \<longleftrightarrow> (\<exists>t. co_backend c = Some t \<and>
     distinct (map iar_interaction_id (ft_interactions t)) \<and> list_all interaction_row_sound (ft_interactions t) \<and>
     map_of (co_known c) = table_lookup t)"

definition known_grows :: "coordinator \<Rightarrow> coordinator \<Rightarrow> bool" where
  "known_grows c c' \<longleftrightarrow> (\<forall>k i. get_interaction k c = Some i \<longrightarrow>
     (if ia_status i = OPEN then get_interaction k c' \<noteq> None else get_interaction k c' = Some i))"

lemma known_grows_refl [simp]: "known_grows c c"
  by (simp add: known_grows_def)

lemma known_grows_trans: "known_grows a b \<Longrightarrow> known_grows b c \<Longrightarrow> known_grows a c"
  unfolding known_grows_def by (metis (full_types) not_None_eq)

lemma stored_lookup:
  assumes "interaction_valid i"
  shows "table_lookup (t\<lparr>ft_interactions :=
      filter (\<lambda>r. iar_interaction_id r \<noteq> ia_interaction_id i) (ft_interactions t) @ [interaction_to_row i]\<rparr>) =
    (table_lookup t)(ia_interaction_id i \<mapsto> i)"
proof
  fix k
  have "find (\<lambda>r. iar_interaction_id r = k) (filter (\<lambda>r. iar_interaction_id r \<noteq> ia_interaction_id i) rows) =
      (if k = ia_interaction_id i then None else find (\<lambda>r. iar_interaction_id r = k) rows)" for rows :: "interaction_row list"
    by (induction rows) auto
  moreover have "iar_interaction_id (interaction_to_row i) = ia_interaction_id i" by (simp add: interaction_to_row_def)
  ultimately show "table_lookup (t\<lparr>ft_interactions :=
      filter (\<lambda>r. iar_interaction_id r \<noteq> ia_interaction_id i) (ft_interactions t) @ [interaction_to_row i]\<rparr>) k =
    ((table_lookup t)(ia_interaction_id i \<mapsto> i)) k"
    using interaction_round_trip [OF assms] by (auto simp: table_lookup_def find_append split: option.split)
qed

text \<open>Learning and storing an interaction whose key is new or open.\<close>

lemma stored_sound:
  assumes c: "coordinator_sound c" and i: "interaction_valid i"
    and free: "\<And>x. get_interaction (ia_interaction_id i) c = Some x \<Longrightarrow> ia_status x = OPEN"
    and known: "map_of (co_known c') = (map_of (co_known c))(ia_interaction_id i \<mapsto> i)"
    and backend: "co_backend c' = Some (snd (save_interaction i (the (co_backend c))))"
  shows "coordinator_sound c' \<and> known_grows c c'"
proof -
  from c obtain t where t: "co_backend c = Some t" "distinct (map iar_interaction_id (ft_interactions t))"
    "list_all interaction_row_sound (ft_interactions t)" "map_of (co_known c) = table_lookup t"
    by (auto simp: coordinator_sound_def)
  let ?t = "t\<lparr>ft_interactions := filter (\<lambda>r. iar_interaction_id r \<noteq> ia_interaction_id i) (ft_interactions t) @ [interaction_to_row i]\<rparr>"
  have saved: "co_backend c' = Some ?t" using backend t(1) by (simp add: save_interaction_def fact_block_def)
  have id: "iar_interaction_id (interaction_to_row i) = ia_interaction_id i" by (simp add: interaction_to_row_def)
  have "distinct (map iar_interaction_id (ft_interactions ?t))"
    using t(2) by (auto simp: id distinct_map_filter)
  moreover have "list_all interaction_row_sound (ft_interactions ?t)"
    using t(3) i by (auto simp: interaction_row_sound_def list_all_iff)
  moreover have "map_of (co_known c') = table_lookup ?t"
    unfolding stored_lookup [OF i] known t(4) ..
  ultimately have "coordinator_sound c'" using saved by (auto simp: coordinator_sound_def)
  moreover have "known_grows c c'"
    using free by (auto simp: known_grows_def get_interaction_def known)
  ultimately show ?thesis by blast
qed

lemma finish_run:
  assumes c: "coordinator_sound c" and sc: "scope_valid (ia_scope i)"
    and free: "\<And>x. get_interaction (ia_interaction_id i) c = Some x \<Longrightarrow> ia_status x = OPEN"
  shows "coordinator_sound (snd (finish_interaction i c)) \<and> known_grows c (snd (finish_interaction i c))"
proof (cases "all_clear (interaction_checks i)")
  case False
  then have "\<exists>e. mk_interaction i = Inl e" by (metis guarded_ok_iff isl_def mk_interaction_def)
  with c show ?thesis by (auto simp: finish_interaction_def bindP_def)
next
  case True
  from c obtain t where t: "co_backend c = Some t" by (auto simp: coordinator_sound_def)
  have valid: "interaction_valid i" using True sc by (simp add: interaction_valid_def)
  have "map_of (co_known (snd (finish_interaction i c))) = (map_of (co_known c))(ia_interaction_id i \<mapsto> i)"
    and "co_backend (snd (finish_interaction i c)) = Some (snd (save_interaction i (the (co_backend c))))"
    using True t by (simp_all add: finish_interaction_def mk_interaction_def guarded_clear bindP_def thenP_def learn_def
        store_interaction_def save_interaction_def fact_block_def fun_eq_iff)
  from stored_sound [OF c valid free this] show ?thesis .
qed

lemma begin_run:
  assumes c: "coordinator_sound c" and sc: "scope_valid sc"
  shows "coordinator_sound (snd (begin_interaction k sc ch se tu now c)) \<and> known_grows c (snd (begin_interaction k sc ch se tu now c))"
proof -
  let ?i = "\<lparr>ia_interaction_id = k, ia_scope = sc, ia_channel = ch, ia_session_id = se, ia_turn_id = tu,
     ia_started_at = now, ia_committed_at = None, ia_status = OPEN\<rparr>"
  show ?thesis
  proof (cases "map_of (co_known c) k \<noteq> None \<or> \<not> all_clear (interaction_checks ?i)")
    case True
    then have "map_of (co_known c) k \<noteq> None \<or> (\<exists>e. mk_interaction ?i = Inl e)"
      by (metis guarded_ok_iff isl_def mk_interaction_def)
    with c show ?thesis by (auto simp: begin_interaction_def bindP_def)
  next
    case False
    then have new: "map_of (co_known c) k = None" and clear: "all_clear (interaction_checks ?i)" by auto
    from c obtain t where t: "co_backend c = Some t" by (auto simp: coordinator_sound_def)
    have valid: "interaction_valid ?i" using clear sc by (simp add: interaction_valid_def)
    have made: "mk_interaction ?i = Inr ?i" using clear by (simp add: mk_interaction_def guarded_clear)
    have "map_of (co_known (snd (begin_interaction k sc ch se tu now c))) = (map_of (co_known c))(ia_interaction_id ?i \<mapsto> ?i)"
      and "co_backend (snd (begin_interaction k sc ch se tu now c)) = Some (snd (save_interaction ?i (the (co_backend c))))"
      using new made t by (simp_all add: begin_interaction_def bindP_def thenP_def learn_def
          store_interaction_def save_interaction_def fact_block_def fun_eq_iff)
    moreover have "ia_status x = OPEN" if "get_interaction (ia_interaction_id ?i) c = Some x" for x
      using that new by (simp add: get_interaction_def)
    ultimately show ?thesis by (intro stored_sound [OF c valid])
  qed
qed

lemma active_run:
  assumes c: "coordinator_sound c"
    and m: "(\<And>x. get_interaction (ia_interaction_id i) c = Some x \<Longrightarrow> ia_status x = OPEN) \<Longrightarrow>
      coordinator_sound (snd (m c)) \<and> known_grows c (snd (m c))"
  shows "coordinator_sound (snd (thenP (require_active i) m c)) \<and> known_grows c (snd (thenP (require_active i) m c))"
  using c m by (auto simp: thenP_def bindP_def require_active_def get_interaction_def split: option.split)

lemma fold_update_interactions:
  assumes "distinct (map ia_interaction_id xs)"
  shows "map_of (fold (\<lambda>i. AList.update (ia_interaction_id i) i) xs m) k =
    (case map_of (map (\<lambda>i. (ia_interaction_id i, i)) xs) k of Some i \<Rightarrow> Some i | None \<Rightarrow> map_of m k)"
  using assms
proof (induction xs arbitrary: m)
  case (Cons i xs)
  then have "ia_interaction_id i \<notin> ia_interaction_id ` set xs" by simp
  then have "map_of (map (\<lambda>i. (ia_interaction_id i, i)) xs) (ia_interaction_id i) = None"
    by (auto simp: map_of_eq_None_iff)
  with Cons show ?case by (auto split: option.split)
qed simp

lemma interaction_row_back:
  "interaction_row_sound r \<Longrightarrow> interaction_from_row r = Inr i \<Longrightarrow> ia_interaction_id i = iar_interaction_id r"
proof -
  assume "interaction_row_sound r" and read: "interaction_from_row r = Inr i"
  then obtain j where "interaction_valid j" "r = interaction_to_row j" by (auto simp: interaction_row_sound_def)
  with interaction_round_trip [of j] read show ?thesis by (simp add: interaction_to_row_def)
qed

lemma restart_run:
  assumes "coordinator_sound c"
  shows "\<exists>c'. new_coordinator (co_backend c) = Inr c' \<and> coordinator_sound c' \<and> map_of (co_known c') = map_of (co_known c)"
proof -
  from assms obtain t where t: "co_backend c = Some t" "distinct (map iar_interaction_id (ft_interactions t))"
    "list_all interaction_row_sound (ft_interactions t)" "map_of (co_known c) = table_lookup t"
    by (auto simp: coordinator_sound_def)
  have sound: "interaction_row_sound r" if "r \<in> set (ft_interactions t)" for r
    using t(3) that by (simp add: list_all_iff)
  show ?thesis
  proof (cases "load_interactions t")
    case (Inl e)
    from mapR_Inl [OF Inl [unfolded load_interactions_def]] obtain r
      where "r \<in> set (ft_interactions t)" "interaction_from_row r = Inl e" by auto
    with sound show ?thesis by (fastforce simp: interaction_row_sound_def interaction_round_trip)
  next
    case (Inr xs)
    note key = interaction_row_back [OF sound]
    note loaded = Inr [unfolded load_interactions_def]
    have lookup: "map_of (map (\<lambda>i. (ia_interaction_id i, i)) xs) k = Some i \<longleftrightarrow>
        (\<exists>r \<in> set (ft_interactions t). \<exists>x. interaction_from_row r = Inr x \<and> ia_interaction_id x = k \<and> x = i)" for k i
      by (rule loaded_lookup [where g = ia_interaction_id and v = "\<lambda>x. x" and h = "\<lambda>x. x"
          and key = iar_interaction_id, OF loaded t(2) key])
    have rows: "(\<exists>r \<in> set (ft_interactions t). \<exists>x. interaction_from_row r = Inr x \<and> ia_interaction_id x = k \<and> x = i) \<longleftrightarrow>
        table_lookup t k = Some i" for k i
    proof
      assume "\<exists>r \<in> set (ft_interactions t). \<exists>x. interaction_from_row r = Inr x \<and> ia_interaction_id x = k \<and> x = i"
      then obtain r where r: "r \<in> set (ft_interactions t)" "interaction_from_row r = Inr i" "ia_interaction_id i = k" by blast
      with key have "iar_interaction_id r = k" by metis
      with find_distinct_key [OF t(2) r(1)] r(2) show "table_lookup t k = Some i" by (simp add: table_lookup_def)
    next
      assume "table_lookup t k = Some i"
      then obtain r where "find (\<lambda>r. iar_interaction_id r = k) (ft_interactions t) = Some r" "interaction_from_row r = Inr i"
        by (auto simp: table_lookup_def split: option.splits sum.splits)
      with key show "\<exists>r \<in> set (ft_interactions t). \<exists>x. interaction_from_row r = Inr x \<and> ia_interaction_id x = k \<and> x = i"
        by (metis find_key_Some)
    qed
    have "distinct (map ia_interaction_id xs)"
      by (rule loaded_distinct [where h = "\<lambda>x. x" and key = iar_interaction_id, OF loaded t(2) key])
    from fold_update_interactions [OF this, of "[]"]
    have "map_of (fold (\<lambda>i. AList.update (ia_interaction_id i) i) xs []) k = map_of (map (\<lambda>i. (ia_interaction_id i, i)) xs) k" for k
      by (simp split: option.split)
    then have "map_of (fold (\<lambda>i. AList.update (ia_interaction_id i) i) xs []) = table_lookup t"
      by (intro ext option_eqI) (simp only: lookup rows)
    with Inr t show ?thesis by (simp add: new_coordinator_def coordinator_sound_def)
  qed
qed

lemma coordinator_step_sound:
  assumes "coordinator_sound c" and "coordinator_call_valid call"
  shows "coordinator_sound (coordinator_step call c) \<and> known_grows c (coordinator_step call c)"
proof (cases call)
  case (Begin i sc ch se tu now)
  with assms begin_run show ?thesis by simp
next
  case (Processing i)
  have "coordinator_sound (snd (thenP (require_active i) (writeP (\<lambda>c. c\<lparr>co_processing :=
      List.insert (ia_interaction_id i) (co_processing c)\<rparr>)) c)) \<and>
    known_grows c (snd (thenP (require_active i) (writeP (\<lambda>c. c\<lparr>co_processing :=
      List.insert (ia_interaction_id i) (co_processing c)\<rparr>)) c))"
    by (rule active_run [OF assms(1)])
      (use assms(1) in \<open>simp add: coordinator_sound_def known_grows_def get_interaction_def\<close>)
  with Processing show ?thesis by (simp add: processing_def)
next
  case (Commit i now)
  have "coordinator_sound (snd (commit_interaction i now c)) \<and> known_grows c (snd (commit_interaction i now c))"
    unfolding commit_interaction_def
    by (rule active_run [OF assms(1)], rule finish_run [OF assms(1)]) (use assms(2) Commit in simp_all)
  with Commit show ?thesis by simp
next
  case (Abort i)
  have "coordinator_sound (snd (abort_interaction i c)) \<and> known_grows c (snd (abort_interaction i c))"
    unfolding abort_interaction_def
    by (rule active_run [OF assms(1)], rule finish_run [OF assms(1)]) (use assms(2) Abort in simp_all)
  with Abort show ?thesis by simp
next
  case Restart
  with restart_run [OF assms(1)] show ?thesis by (auto simp: known_grows_def get_interaction_def)
qed

lemma coordinator_run_sound:
  assumes "list_all coordinator_call_valid calls" and "coordinator_sound c"
  shows "coordinator_sound (coordinator_run calls c) \<and> known_grows c (coordinator_run calls c)"
  using assms
proof (induction calls arbitrary: c)
  case (Cons call calls)
  from coordinator_step_sound [of c call] Cons.prems
  have first: "coordinator_sound (coordinator_step call c)" "known_grows c (coordinator_step call c)" by auto
  with Cons.IH [of "coordinator_step call c"] Cons.prems show ?case
    by (auto simp: coordinator_run_def intro: known_grows_trans)
qed (simp add: coordinator_run_def)

lemma fresh_coordinator_sound: "coordinator_sound fresh_coordinator"
  by (auto simp: coordinator_sound_def fresh_coordinator_def no_facts_def table_lookup_def)

text \<open>
  C36. Interactions end once. Over every history of calls on a durable coordinator, refused ones and restarts
  included: a committed or aborted interaction never changes again, an interaction that was begun is never
  forgotten, and at every moment a restart succeeds and knows exactly the interactions that are known now.
\<close>

theorem interactions_end_once:
  assumes "list_all coordinator_call_valid (before @ later)"
  shows "(\<forall>k i. get_interaction k (coordinator_run before fresh_coordinator) = Some i \<longrightarrow>
       (if ia_status i = OPEN then get_interaction k (coordinator_run (before @ later) fresh_coordinator) \<noteq> None
        else get_interaction k (coordinator_run (before @ later) fresh_coordinator) = Some i)) \<and>
     (\<exists>c. new_coordinator (co_backend (coordinator_run (before @ later) fresh_coordinator)) = Inr c \<and>
       (\<forall>k. get_interaction k c = get_interaction k (coordinator_run (before @ later) fresh_coordinator)))"
proof -
  have split: "coordinator_run (before @ later) fresh_coordinator = coordinator_run later (coordinator_run before fresh_coordinator)"
    by (simp add: coordinator_run_def)
  from coordinator_run_sound [OF _ fresh_coordinator_sound, of before] assms
  have "coordinator_sound (coordinator_run before fresh_coordinator)" by simp
  from coordinator_run_sound [OF _ this, of later] assms
  have "coordinator_sound (coordinator_run (before @ later) fresh_coordinator)"
    and "known_grows (coordinator_run before fresh_coordinator) (coordinator_run (before @ later) fresh_coordinator)"
    by (simp_all add: split)
  with restart_run show ?thesis by (fastforce simp: known_grows_def get_interaction_def)
qed

lemma interactions_end_once_witness:
  "get_interaction ''i'' (coordinator_run [Begin ''i'' (user_scope ''u'') ''c'' ''s'' ''t'' (utc 1),
      Commit \<lparr>ia_interaction_id = ''i'', ia_scope = user_scope ''u'', ia_channel = ''c'', ia_session_id = ''s'',
        ia_turn_id = ''t'', ia_started_at = utc 1, ia_committed_at = None, ia_status = OPEN\<rparr> (utc 2),
      Restart] fresh_coordinator) \<noteq> None"
proof -
  let ?before = "[Begin ''i'' (user_scope ''u'') ''c'' ''s'' ''t'' (utc 1)]"
  let ?later = "[Commit \<lparr>ia_interaction_id = ''i'', ia_scope = user_scope ''u'', ia_channel = ''c'', ia_session_id = ''s'',
        ia_turn_id = ''t'', ia_started_at = utc 1, ia_committed_at = None, ia_status = OPEN\<rparr> (utc 2), Restart]"
  have "list_all coordinator_call_valid (?before @ ?later)" by code_simp
  note end_once = interactions_end_once [OF this]
  have "get_interaction ''i'' (coordinator_run ?before fresh_coordinator) \<noteq> None" by code_simp
  with end_once show ?thesis by (auto split: if_splits)
qed

end
