(* ===== verification/Py_Text.thy ===== *)
theory Py_Text
  imports MR_Contracts
begin

text \<open>
  Text that the code computes with: \<^verbatim>\<open>int(text)\<close> and \<^verbatim>\<open>datetime.isoformat()\<close>. The limit on the number of
  digits of an integer (4300) is left out.
\<close>

section \<open>Integers\<close>

definition is_digit :: "char \<Rightarrow> bool" where
  "is_digit c \<longleftrightarrow> c \<in> set ''0123456789''"

text \<open>Digits, with single underscores between them.\<close>

fun underscored :: "string \<Rightarrow> bool" where
  "underscored [] = False"
| "underscored [c] = is_digit c"
| "underscored (c # d # s) = (is_digit c \<and> (if d = CHR ''_'' then underscored s else underscored (d # s)))"

definition py_nat :: "string \<Rightarrow> int option" where
  "py_nat s = (if underscored s then Some (int (read_nat (filter is_digit s))) else None)"

text \<open>An ASCII text is only stripped of the ASCII white space.\<close>

definition int_space :: "string \<Rightarrow> char \<Rightarrow> bool" where
  "int_space s c \<longleftrightarrow> (if list_all (\<lambda>d. of_char d < (128::nat)) s
     then c \<in> set [CHR 0x09, CHR 0x0A, CHR 0x0B, CHR 0x0C, CHR 0x0D, CHR 0x20] else is_space c)"

definition int_text :: "string \<Rightarrow> string" where
  "int_text s = rev (dropWhile (int_space s) (rev (dropWhile (int_space s) s)))"

text \<open>\<open>None\<close> is \<^verbatim>\<open>ValueError\<close>.\<close>

definition py_int :: "string \<Rightarrow> int option" where
  "py_int s = (case int_text s of [] \<Rightarrow> None
     | c # t \<Rightarrow> if c = CHR ''-'' then map_option uminus (py_nat t)
         else if c = CHR ''+'' then py_nat t else py_nat (c # t))"

lemma digit_is_digit: "n < 10 \<Longrightarrow> is_digit (digit n)"
  by (elim less_10_cases) (simp_all add: digit_def is_digit_def)

lemma show_nat_digits: "c \<in> set (show_nat n) \<Longrightarrow> is_digit c"
proof (induction n rule: show_nat.induct)
  case (1 n)
  then show ?case
    by (cases "n < 10") (auto simp: show_nat.simps [of n] digit_is_digit)
qed

lemma underscored_digits: "s \<noteq> [] \<Longrightarrow> list_all is_digit s \<Longrightarrow> underscored s"
  by (induction s rule: underscored.induct) (auto simp: is_digit_def)

lemma digit_no_space: "is_digit c \<Longrightarrow> \<not> int_space s c \<and> c \<noteq> CHR ''-'' \<and> c \<noteq> CHR ''+''"
  by (auto simp: is_digit_def int_space_def is_space_def)

lemma py_nat_show [simp]: "py_nat (show_nat n) = Some (int n)"
proof -
  have digits: "list_all is_digit (show_nat n)" by (simp add: list_all_iff show_nat_digits)
  then have "filter is_digit (show_nat n) = show_nat n" by (simp add: filter_id_conv list_all_iff)
  with underscored_digits [OF show_nat_nonempty digits] show ?thesis by (simp add: py_nat_def read_show_nat)
qed

lemma int_text_id: "s \<noteq> [] \<Longrightarrow> \<not> int_space s (hd s) \<Longrightarrow> \<not> int_space s (last s) \<Longrightarrow> int_text s = s"
  by (simp add: int_text_def dropWhile_eq_self_iff [THEN iffD2] hd_rev)

lemma py_int_show [simp]: "py_int (show_int i) = Some i"
proof (cases "i < 0")
  case True
  let ?t = "show_nat (nat (- i))"
  have "\<not> int_space s (CHR ''-'')" for s by (simp add: int_space_def is_space_def)
  moreover have "\<not> int_space s (last ?t)" for s
    using show_nat_digits [OF last_in_set [OF show_nat_nonempty]] by (simp add: digit_no_space)
  ultimately have "int_text (CHR ''-'' # ?t) = CHR ''-'' # ?t" by (intro int_text_id) simp_all
  with True show ?thesis by (simp add: py_int_def show_int_def)
next
  case False
  let ?t = "show_nat (nat i)"
  obtain c u where t: "?t = c # u" by (meson show_nat_nonempty neq_Nil_conv)
  have c: "is_digit c" using show_nat_digits [of c "nat i"] t by simp
  have "int_text ?t = ?t"
    using show_nat_digits [of "last ?t" "nat i"] digit_no_space c t by (intro int_text_id) auto
  with t have shown: "int_text (c # u) = c # u" by simp
  from py_nat_show [of "nat i"] False digit_no_space [OF c] shown show ?thesis
    by (simp add: py_int_def show_int_def t)
qed

section \<open>Timestamps\<close>

text \<open>The calendar of \<^verbatim>\<open>datetime\<close>: the date of a day, counted from 1 January of year 1.\<close>

definition leap_year :: "int \<Rightarrow> bool" where
  "leap_year y \<longleftrightarrow> 4 dvd y \<and> (\<not> 100 dvd y \<or> 400 dvd y)"

definition days_before_month :: "bool \<Rightarrow> int \<Rightarrow> int" where
  "days_before_month leap m = [0, 31, 59, 90, 120, 151, 181, 212, 243, 273, 304, 334] ! nat (m - 1) +
     (if leap \<and> 2 < m then 1 else 0)"

definition date_of_day :: "int \<Rightarrow> int \<times> int \<times> int" where
  "date_of_day d =
     (let n400 = d div 146097; d = d mod 146097;
          n100 = d div 36524; d = d mod 36524;
          n4 = d div 1461; d = d mod 1461;
          n1 = d div 365; d = d mod 365;
          year = n400 * 400 + 1 + n100 * 100 + n4 * 4 + n1
      in if n1 = 4 \<or> n100 = 4 then (year - 1, 12, 31)
         else let m = (d + 50) div 32; before = days_before_month (leap_year year) m;
                m' = (if d < before then m - 1 else m)
           in (year, m', d - days_before_month (leap_year year) m' + 1))"

text \<open>\<^verbatim>\<open>%04d\<close> and its like, for the numbers that fit.\<close>

fun padded :: "nat \<Rightarrow> int \<Rightarrow> string" where
  "padded 0 i = []"
| "padded (Suc width) i = padded width (i div 10) @ [digit (nat (i mod 10))]"

definition clock_text :: "int \<Rightarrow> string" where
  "clock_text us = padded 2 (us div 3600000000) @ '':'' @ padded 2 (us div 60000000 mod 60)"

definition seconds_text :: "int \<Rightarrow> string" where
  "seconds_text us = '':'' @ padded 2 (us div 1000000 mod 60) @
     (if us mod 1000000 = 0 then [] else ''.'' @ padded 6 (us mod 1000000))"

definition offset_text :: "int \<Rightarrow> string" where
  "offset_text off = (if off < 0 then ''-'' else ''+'') @ clock_text \<bar>off\<bar> @
     (if \<bar>off\<bar> mod 60000000 = 0 then [] else seconds_text \<bar>off\<bar>)"

text \<open>719162 days lie between 1 January of year 1 and 1 January 1970.\<close>

definition local_text :: "int \<Rightarrow> string" where
  "local_text us = (case date_of_day (us div 86400000000 + 719162) of (y, m, d) \<Rightarrow>
     padded 4 y @ ''-'' @ padded 2 m @ ''-'' @ padded 2 d @ ''T'' @
     clock_text (us mod 86400000000) @ seconds_text (us mod 86400000000))"

fun isoformat :: "datetime \<Rightarrow> string" where
  "isoformat (Naive us) = local_text us"
| "isoformat (Aware us off) = local_text (us + off) @ offset_text off"

lemma isoformat_examples:
  "isoformat (utc 0) = ''1970-01-01T00:00:00+00:00''"
  "isoformat (utc 1709210096000007) = ''2024-02-29T12:34:56.000007+00:00''"
  "isoformat (utc 978307199000000) = ''2000-12-31T23:59:59+00:00''"
  "isoformat (Naive datetime_min) = ''0001-01-01T00:00:00''"
  "isoformat (Aware datetime_max 0) = ''9999-12-31T23:59:59.999999+00:00''"
  "isoformat (Aware 1767225600000000 (- 19800000000)) = ''2025-12-31T18:30:00-05:30''"
  by code_simp+

lemma isoformat_non_empty [simp]: "non_empty (isoformat t)"
  by (cases t) (simp_all add: local_text_def non_empty_append non_empty_Cons is_space_def split: prod.split)

lemma show_int_non_empty [simp]: "non_empty (show_int i)"
  by (simp add: non_empty_def)

end
