(* ===== verification/Projection_Store.thy ===== *)
theory Projection_Store
  imports Fact_Service Py_Text
begin

text \<open>
  The durable log of settled-action projections (\<^verbatim>\<open>projection/store.py\<close>): one row per receipt that has been
  projected, and one per receipt for the facts it was decided to write before the first of them was. In the
  column of the facts every string is a \<open>JStr\<close>, timestamps included. Each write is a block of its own.
\<close>

section \<open>Records and plans\<close>

record projection_record =
  pr_receipt_id :: string
  pr_request_id :: string
  pr_message_id :: string
  pr_scope :: scope
  pr_origin_runtime_id :: string
  pr_counter_key :: string
  pr_counter_value :: string
  pr_settled_at :: datetime
  pr_projected_at :: datetime
  pr_sync_version :: int

definition projection_record_checks :: "projection_record \<Rightarrow> (bool \<times> py_error) list" where
  "projection_record_checks r =
     [require_non_empty (pr_receipt_id r) ''receipt_id'',
      require_non_empty (pr_request_id r) ''request_id'',
      require_non_empty (pr_message_id r) ''message_id'',
      require_non_empty (pr_origin_runtime_id r) ''origin_runtime_id'',
      require_non_empty (pr_counter_key r) ''derived_counter_key'',
      require_non_empty (pr_counter_value r) ''derived_counter_value'',
      require_aware_utc (pr_settled_at r) ''derived_settled_at'',
      require_aware_utc (pr_projected_at r) ''projected_at'']"

definition mk_projection_record :: "projection_record \<Rightarrow> projection_record result" where
  "mk_projection_record r = guarded (projection_record_checks r) r"

record frozen_plan =
  fp_receipt_id :: string
  fp_request_id :: string
  fp_action_type :: string
  fp_settled_at :: datetime
  fp_facts :: "(string \<times> string) list"
  fp_completed :: bool

definition frozen_plan_checks :: "frozen_plan \<Rightarrow> (bool \<times> py_error) list" where
  "frozen_plan_checks p =
     [require_non_empty (fp_receipt_id p) ''receipt_id'',
      require_non_empty (fp_request_id p) ''request_id'',
      require_non_empty (fp_action_type p) ''action_type'',
      require_aware_utc (fp_settled_at p) ''settled_at''] @
     map (\<lambda>(k, v). (k = '''' \<or> v = '''', ValueError ''frozen plan fact pair must be (str, str) of non-empty values''))
       (fp_facts p)"

definition mk_frozen_plan :: "frozen_plan \<Rightarrow> frozen_plan result" where
  "mk_frozen_plan p = guarded (frozen_plan_checks p) p"

definition frozen_plan_equivalent :: "frozen_plan \<Rightarrow> frozen_plan \<Rightarrow> bool" where
  "frozen_plan_equivalent a b \<longleftrightarrow> fp_receipt_id a = fp_receipt_id b \<and> fp_request_id a = fp_request_id b \<and>
     fp_action_type a = fp_action_type b \<and> fp_settled_at a = fp_settled_at b \<and> fp_facts a = fp_facts b"

section \<open>Rows\<close>

record projection_row =
  prr_receipt_id :: string
  prr_request_id :: string
  prr_message_id :: string
  prr_scope :: scope_columns
  prr_origin_runtime_id :: string
  prr_counter_key :: string
  prr_counter_value :: string
  prr_settled_at :: datetime
  prr_projected_at :: datetime
  prr_sync_version :: int

record plan_row =
  plr_receipt_id :: string
  plr_request_id :: string
  plr_action_type :: string
  plr_settled_at :: datetime
  plr_plan_json :: json_text
  plr_completed :: int

record projection_tables =
  pt_records :: "projection_row list"
  pt_plans :: "plan_row list"

definition no_projections :: projection_tables where
  "no_projections = \<lparr>pt_records = [], pt_plans = []\<rparr>"

text \<open>\<^verbatim>\<open>_format_dt\<close>: a naive timestamp is refused, also when a row is read.\<close>

definition check_dt :: "datetime \<Rightarrow> datetime result" where
  "check_dt t = guarded [require_aware_utc t ''datetime''] t"

definition record_to_row :: "projection_record \<Rightarrow> projection_row result" where
  "record_to_row r = bindR (check_dt (pr_settled_at r)) (\<lambda>settled. bindR (check_dt (pr_projected_at r)) (\<lambda>projected. Inr
     \<lparr>prr_receipt_id = pr_receipt_id r, prr_request_id = pr_request_id r, prr_message_id = pr_message_id r,
      prr_scope = scope_values (pr_scope r), prr_origin_runtime_id = pr_origin_runtime_id r,
      prr_counter_key = pr_counter_key r, prr_counter_value = pr_counter_value r,
      prr_settled_at = settled, prr_projected_at = projected, prr_sync_version = pr_sync_version r\<rparr>))"

definition row_to_record :: "projection_row \<Rightarrow> projection_record result" where
  "row_to_record r = bindR (scope_from_columns (prr_scope r)) (\<lambda>sc.
     bindR (check_dt (prr_settled_at r)) (\<lambda>settled. bindR (check_dt (prr_projected_at r)) (\<lambda>projected.
     mk_projection_record
       \<lparr>pr_receipt_id = prr_receipt_id r, pr_request_id = prr_request_id r, pr_message_id = prr_message_id r,
        pr_scope = sc, pr_origin_runtime_id = prr_origin_runtime_id r, pr_counter_key = prr_counter_key r,
        pr_counter_value = prr_counter_value r, pr_settled_at = settled, pr_projected_at = projected,
        pr_sync_version = prr_sync_version r\<rparr>)))"

definition facts_to_json :: "(string \<times> string) list \<Rightarrow> json_text" where
  "facts_to_json fs = Some (JList (map (\<lambda>(k, v). JList [JStr k, JStr v]) fs))"

fun fact_pair :: "json \<Rightarrow> (string \<times> string) result" where
  "fact_pair (JList [JStr k, JStr v]) = Inr (k, v)"
| "fact_pair _ = Inl (ValueError ''frozen plan fact entry must be [str, str]'')"

definition row_to_frozen_plan :: "plan_row \<Rightarrow> frozen_plan result" where
  "row_to_frozen_plan r = bindR (json_loads (plr_plan_json r)) (\<lambda>decoded.
     bindR (case as_list decoded of Some js \<Rightarrow> Inr js
       | None \<Rightarrow> Inl (ValueError ''frozen plan fact list must be a list of [key, value] pairs'')) (\<lambda>items.
     bindR (mapR fact_pair items) (\<lambda>facts.
     bindR (check_dt (plr_settled_at r)) (\<lambda>settled. mk_frozen_plan
       \<lparr>fp_receipt_id = plr_receipt_id r, fp_request_id = plr_request_id r, fp_action_type = plr_action_type r,
        fp_settled_at = settled, fp_facts = facts, fp_completed = (plr_completed r \<noteq> 0)\<rparr>))))"

definition plan_to_row :: "frozen_plan \<Rightarrow> plan_row result" where
  "plan_to_row p = bindR (check_dt (fp_settled_at p)) (\<lambda>settled. Inr
     \<lparr>plr_receipt_id = fp_receipt_id p, plr_request_id = fp_request_id p, plr_action_type = fp_action_type p,
      plr_settled_at = settled, plr_plan_json = facts_to_json (fp_facts p),
      plr_completed = (if fp_completed p then 1 else 0)\<rparr>)"

section \<open>The store\<close>

text \<open>Opening it: a row with an empty text column is refused.\<close>

definition reopen_checks :: "projection_row \<Rightarrow> (bool \<times> py_error) list" where
  "reopen_checks r = map (\<lambda>v. (v = '''', ValueError ''settled_action_projections row has an empty field''))
     [prr_receipt_id r, prr_counter_key r, prr_counter_value r, prr_origin_runtime_id r, prr_request_id r,
      prr_message_id r]"

definition open_projections :: "projection_tables \<Rightarrow> unit result" where
  "open_projections t = guarded (concat (map reopen_checks (pt_records t))) ()"

definition has_projection :: "string \<Rightarrow> projection_tables \<Rightarrow> bool" where
  "has_projection i t \<longleftrightarrow> i \<in> set (map prr_receipt_id (pt_records t))"

definition get_projection :: "string \<Rightarrow> projection_tables \<Rightarrow> projection_record option result" where
  "get_projection i t = (case find (\<lambda>r. prr_receipt_id r = i) (pt_records t) of
     None \<Rightarrow> Inr None | Some r \<Rightarrow> bindR (row_to_record r) (\<lambda>x. Inr (Some x)))"

definition record_projection :: "projection_record \<Rightarrow> (projection_tables, unit) prog" where
  "record_projection r = bindP (readP (\<lambda>t. Inr (has_projection (pr_receipt_id r) t))) (\<lambda>taken.
     if taken then raiseP (ValueError ''projection record already exists for receipt_id'')
     else bindP (liftP (record_to_row r)) (\<lambda>row.
       if \<not> (- (2 ^ 63) \<le> prr_sync_version row \<and> prr_sync_version row < 2 ^ 63)
       then raiseP (OverflowError ''Python int too large to convert to SQLite INTEGER'')
       else writeP (\<lambda>t. t\<lparr>pt_records := pt_records t @ [row]\<rparr>)))"

definition incomplete_row :: "string \<Rightarrow> plan_row \<Rightarrow> bool" where
  "incomplete_row i r \<longleftrightarrow> plr_receipt_id r = i \<and> plr_completed r = 0"

definition read_plan :: "plan_row option \<Rightarrow> frozen_plan option result" where
  "read_plan row = (case row of None \<Rightarrow> Inr None | Some r \<Rightarrow> bindR (row_to_frozen_plan r) (\<lambda>p. Inr (Some p)))"

definition has_frozen_plan :: "string \<Rightarrow> projection_tables \<Rightarrow> bool result" where
  "has_frozen_plan i t = guarded [require_non_empty i ''receipt_id''] (list_ex (incomplete_row i) (pt_plans t))"

definition get_frozen_plan :: "string \<Rightarrow> projection_tables \<Rightarrow> frozen_plan option result" where
  "get_frozen_plan i t = bindR (guarded [require_non_empty i ''receipt_id''] ()) (\<lambda>_.
     read_plan (find (incomplete_row i) (pt_plans t)))"

definition get_frozen_plan_any :: "string \<Rightarrow> projection_tables \<Rightarrow> frozen_plan option result" where
  "get_frozen_plan_any i t = bindR (guarded [require_non_empty i ''receipt_id''] ()) (\<lambda>_.
     read_plan (find (\<lambda>r. plr_receipt_id r = i) (pt_plans t)))"

definition record_frozen_plan :: "frozen_plan \<Rightarrow> (projection_tables, unit) prog" where
  "record_frozen_plan p = bindP (readP (get_frozen_plan_any (fp_receipt_id p))) (\<lambda>existing. case existing of
     Some q \<Rightarrow> if frozen_plan_equivalent q p then returnP ()
       else raiseP (ValueError ''frozen plan conflict for receipt_id'')
   | None \<Rightarrow> bindP (liftP (plan_to_row p)) (\<lambda>row. writeP (\<lambda>t. t\<lparr>pt_plans := pt_plans t @ [row]\<rparr>)))"

definition mark_plan_completed :: "string \<Rightarrow> (projection_tables, unit) prog" where
  "mark_plan_completed i = bindP (liftP (guarded [require_non_empty i ''receipt_id''] ())) (\<lambda>_.
     writeP (\<lambda>t. t\<lparr>pt_plans := map (\<lambda>r. if plr_receipt_id r = i then r\<lparr>plr_completed := 1\<rparr> else r) (pt_plans t)\<rparr>))"

section \<open>Round trips\<close>

lemma check_dt_Inr [simp]: "check_dt t = Inr u \<longleftrightarrow> is_aware_utc t \<and> u = t"
  by (auto simp: check_dt_def guarded_Inr_iff)

lemma check_dt_utc [simp]: "is_aware_utc t \<Longrightarrow> check_dt t = Inr t"
  by simp

lemma record_round_trip:
  assumes "scope_valid (pr_scope r)" and "all_clear (projection_record_checks r)"
  shows "\<exists>row. record_to_row r = Inr row \<and> row_to_record row = Inr r"
proof -
  from assms(2) have utc: "check_dt (pr_settled_at r) = Inr (pr_settled_at r)" "check_dt (pr_projected_at r) = Inr (pr_projected_at r)"
    by (simp_all add: projection_record_checks_def)
  with assms show ?thesis
    by (cases r) (simp add: record_to_row_def row_to_record_def scope_round_trip mk_projection_record_def guarded_clear)
qed

lemma facts_json_round_trip: "mapR fact_pair (map (\<lambda>(k, v). JList [JStr k, JStr v]) fs) = Inr fs"
  by (induction fs) auto

lemma plan_round_trip:
  assumes "all_clear (frozen_plan_checks p)" and "plan_to_row p = Inr row"
  shows "row_to_frozen_plan row = Inr p"
proof -
  from assms(2) have utc: "check_dt (fp_settled_at p) = Inr (fp_settled_at p)"
    and row: "row = \<lparr>plr_receipt_id = fp_receipt_id p, plr_request_id = fp_request_id p, plr_action_type = fp_action_type p,
      plr_settled_at = fp_settled_at p, plr_plan_json = facts_to_json (fp_facts p),
      plr_completed = (if fp_completed p then 1 else 0)\<rparr>"
    by (auto simp: plan_to_row_def bindR_Inr_iff)
  with assms(1) show ?thesis
    by (cases p) (auto simp: row_to_frozen_plan_def facts_to_json_def facts_json_round_trip mk_frozen_plan_def guarded_clear)
qed

lemma row_plan_fields:
  "row_to_frozen_plan r = Inr p \<Longrightarrow> fp_receipt_id p = plr_receipt_id r \<and> all_clear (frozen_plan_checks p) \<and>
     fp_completed p = (plr_completed r \<noteq> 0)"
  by (auto simp: row_to_frozen_plan_def bindR_Inr_iff mk_frozen_plan_def guarded_Inr_iff)

end
