(* ===== verification/Settled_Projector.thy ===== *)
theory Settled_Projector
  imports Projection_Store
begin

text \<open>
  The settled-action projector (\<^verbatim>\<open>projection/projector.py\<close>): it turns the receipt of an accepted delivery
  into counter facts, deciding and storing what it will write before the first write and marking the receipt
  after the last one. The clock is the argument \<open>now\<close>, its answer. So that a process can be ended between
  any two writes, a projector has the number of writes it still gets to make; \<open>None\<close> is a process that is
  not ended.
\<close>

section \<open>State\<close>

record projection_outcome =
  po_applied :: bool
  po_already_applied :: bool
  po_counter_key :: string
  po_settled_at :: "datetime option"
  po_skip_reason :: "string option"
  po_counter_value :: string

record projector =
  pj_facts :: fact_service
  pj_store :: projection_tables
  pj_fault :: "(delivery_receipt \<Rightarrow> delivery_request \<Rightarrow> py_error option) option"
  pj_writes_left :: "nat option"

definition new_projector :: "string \<Rightarrow> datetime \<Rightarrow> fact_service \<Rightarrow> projection_tables \<Rightarrow> projector result" where
  "new_projector runtime_id now facts store = guarded
     [(strip runtime_id = '''', ValueError ''runtime_id must be a non-empty string''),
      require_aware_utc now ''clock.now()'']
     \<lparr>pj_facts = facts, pj_store = store, pj_fault = None, pj_writes_left = None\<rparr>"

definition set_fault_after_plan ::
  "(delivery_receipt \<Rightarrow> delivery_request \<Rightarrow> py_error option) option \<Rightarrow> (projector, unit) prog" where
  "set_fault_after_plan hook = writeP (\<lambda>w. w\<lparr>pj_fault := hook\<rparr>)"

section \<open>Writes\<close>

definition process_ended :: py_error where
  "process_ended = RuntimeError ''process ended''"

definition store_write :: "(projection_tables, unit) prog \<Rightarrow> (projector, unit) prog" where
  "store_write m = (\<lambda>w. case pj_writes_left w of
     Some 0 \<Rightarrow> (Inl process_ended, w)
   | left \<Rightarrow> (case m (pj_store w) of (r, t) \<Rightarrow> (r, w\<lparr>pj_store := t, pj_writes_left := map_option (\<lambda>n. n - 1) left\<rparr>)))"

text \<open>An admission writes its evidence and then its observation; between them the file has the evidence only.\<close>

definition evidence_only :: "fact_service \<Rightarrow> fact_service \<Rightarrow> fact_service" where
  "evidence_only s s' = s\<lparr>fs_backend := (case (fs_backend s, fs_backend s') of
     (Some t, Some t') \<Rightarrow> Some (t\<lparr>ft_evidence := ft_evidence t'\<rparr>) | _ \<Rightarrow> fs_backend s)\<rparr>"

definition fact_write :: "(fact_service, 'a) prog \<Rightarrow> (projector, unit) prog" where
  "fact_write m = (\<lambda>w. case pj_writes_left w of
     Some 0 \<Rightarrow> (Inl process_ended, w)
   | left \<Rightarrow> (case m (pj_facts w) of
       (Inl e, s) \<Rightarrow> (Inl e, w\<lparr>pj_facts := s\<rparr>)
     | (Inr x, s) \<Rightarrow> if left = Some 1
         then (Inl process_ended, w\<lparr>pj_facts := evidence_only (pj_facts w) s, pj_writes_left := Some 0\<rparr>)
         else (Inr (), w\<lparr>pj_facts := s, pj_writes_left := map_option (\<lambda>n. n - 2) left\<rparr>)))"

section \<open>Derivation\<close>

definition cadence_counter_key :: string where
  "cadence_counter_key = ''counter.proactive_prompts_since_photo''"

definition cooldown_fact_key :: string where
  "cooldown_fact_key = ''counter.last_proactive_at''"

text \<open>The latest text value of a key in a scope; of equal times the one remembered last.\<close>

definition later :: "string \<Rightarrow> scope \<Rightarrow> (string \<times> datetime) option \<Rightarrow> observation \<Rightarrow> (string \<times> datetime) option" where
  "later key sc best ob = (if ob_scope ob \<noteq> sc \<or> ob_key ob \<noteq> key then best
     else case ob_value ob of
       VStr v \<Rightarrow> (case best of
           None \<Rightarrow> Some (v, ob_observed_at ob)
         | Some (_, best_at) \<Rightarrow> if dt_le best_at (ob_observed_at ob) then Some (v, ob_observed_at ob) else best)
     | _ \<Rightarrow> best)"

definition latest_observation_value :: "string \<Rightarrow> scope \<Rightarrow> fact_service \<Rightarrow> string option" where
  "latest_observation_value key sc s = map_option fst (foldl (later key sc) None (map snd (fs_observations s)))"

definition parse_int_or_zero :: "string option \<Rightarrow> int" where
  "parse_int_or_zero v = (case v of None \<Rightarrow> 0 | Some t \<Rightarrow> (case py_int t of None \<Rightarrow> 0 | Some n \<Rightarrow> max n 0))"

definition derive_new_counter_facts :: "delivery_request \<Rightarrow> datetime \<Rightarrow> fact_service \<Rightarrow> (string \<times> string) list" where
  "derive_new_counter_facts q settled_at s =
     (let current = latest_observation_value cadence_counter_key (rq_scope q) s in
      if rq_action_type q = ''send_photo'' then [(cadence_counter_key, show_int 0)]
      else if rq_action_type q = ''proactive_message''
      then [(cadence_counter_key, show_int (parse_int_or_zero current + 1)), (cooldown_fact_key, isoformat settled_at)]
      else [])"

definition admit_counter_fact ::
  "string \<Rightarrow> string \<Rightarrow> delivery_receipt \<Rightarrow> delivery_request \<Rightarrow> datetime \<Rightarrow> (projector, unit) prog" where
  "admit_counter_fact key val r q settled_at = (if key = '''' \<or> val = '''' then returnP ()
     else fact_write (admit_operational_fact key val q r (Some settled_at)))"

section \<open>Projection\<close>

definition skipped :: "string \<Rightarrow> datetime option \<Rightarrow> projection_outcome" where
  "skipped reason settled_at = \<lparr>po_applied = False, po_already_applied = False, po_counter_key = '''',
     po_settled_at = settled_at, po_skip_reason = Some reason, po_counter_value = ''''\<rparr>"

definition already_applied_outcome :: "delivery_receipt \<Rightarrow> projection_tables \<Rightarrow> projection_outcome result" where
  "already_applied_outcome r t = bindR (get_projection (dr_receipt_id r) t) (\<lambda>found. Inr (case found of
     None \<Rightarrow> \<lparr>po_applied = False, po_already_applied = True, po_counter_key = '''', po_settled_at = None,
       po_skip_reason = None, po_counter_value = ''''\<rparr>
   | Some x \<Rightarrow> \<lparr>po_applied = False, po_already_applied = True, po_counter_key = pr_counter_key x,
       po_settled_at = Some (pr_settled_at x), po_skip_reason = None, po_counter_value = pr_counter_value x\<rparr>))"

text \<open>The marker and then the completion of the plan.\<close>

definition finish_projection ::
  "datetime \<Rightarrow> delivery_receipt \<Rightarrow> delivery_request \<Rightarrow> datetime \<Rightarrow> (string \<times> string) list \<Rightarrow> bool \<Rightarrow> (projector, projection_outcome) prog" where
  "finish_projection now r q settled_at facts fresh =
     bindP (liftP (case facts of [] \<Rightarrow> Inl (RuntimeError ''IndexError: tuple index out of range'') | p # ps \<Rightarrow> Inr p)) (\<lambda>(key, val).
     bindP (liftP (guarded [require_aware_utc now ''clock.now()''] ())) (\<lambda>_.
     bindP (liftP (mk_projection_record
       \<lparr>pr_receipt_id = dr_receipt_id r, pr_request_id = rq_request_id q, pr_message_id = rq_message_id q,
        pr_scope = rq_scope q, pr_origin_runtime_id = rq_origin_runtime_id q, pr_counter_key = key,
        pr_counter_value = val, pr_settled_at = settled_at, pr_projected_at = now, pr_sync_version = 1\<rparr>)) (\<lambda>x.
     bindP (store_write (record_projection x)) (\<lambda>_.
     bindP (store_write (mark_plan_completed (dr_receipt_id r))) (\<lambda>_.
     returnP \<lparr>po_applied = fresh, po_already_applied = \<not> fresh, po_counter_key = key,
       po_settled_at = Some settled_at, po_skip_reason = None, po_counter_value = val\<rparr>)))))"

definition write_facts ::
  "datetime \<Rightarrow> delivery_receipt \<Rightarrow> delivery_request \<Rightarrow> datetime \<Rightarrow> (string \<times> string) list \<Rightarrow> bool \<Rightarrow> (projector, projection_outcome) prog" where
  "write_facts now r q settled_at facts fresh =
     bindP (eachP (\<lambda>(k, v). admit_counter_fact k v r q settled_at) facts) (\<lambda>_.
     finish_projection now r q settled_at facts fresh)"

text \<open>The time of the settlement, and the checks before anything is derived.\<close>

definition settlement_time :: "delivery_receipt \<Rightarrow> delivery_request \<Rightarrow> datetime" where
  "settlement_time r q = (case dr_delivered_at r of Some t \<Rightarrow> t | None \<Rightarrow> rq_created_at q)"

definition action_checks :: "delivery_receipt \<Rightarrow> delivery_request \<Rightarrow> (bool \<times> py_error) list" where
  "action_checks r q =
     [require_aware_utc (settlement_time r q) ''settled_at'',
      (rq_action_type q = '''', ValueError ''settled-action projection refused: request.action_type is empty (legacy unknown)''),
      (\<not> is_known_action_type (rq_action_type q), ValueError ''settled-action projection refused: not a known typed action'')]"

definition fault_after_plan :: "delivery_receipt \<Rightarrow> delivery_request \<Rightarrow> (projector, unit) prog" where
  "fault_after_plan r q = readP (\<lambda>w. case pj_fault w of None \<Rightarrow> Inr ()
     | Some hook \<Rightarrow> (case hook r q of None \<Rightarrow> Inr () | Some e \<Rightarrow> Inl e))"

definition project_new :: "datetime \<Rightarrow> delivery_receipt \<Rightarrow> delivery_request \<Rightarrow> (projector, projection_outcome) prog" where
  "project_new now r q =
     bindP (liftP (guarded (action_checks r q) (settlement_time r q))) (\<lambda>settled_at.
     bindP (readP (\<lambda>w. Inr (derive_new_counter_facts q settled_at (pj_facts w)))) (\<lambda>facts.
     if facts = [] then returnP (skipped ''no_facts_for_action'' (Some settled_at))
     else bindP (liftP (mk_frozen_plan
         \<lparr>fp_receipt_id = dr_receipt_id r, fp_request_id = rq_request_id q, fp_action_type = rq_action_type q,
          fp_settled_at = settled_at, fp_facts = facts, fp_completed = False\<rparr>)) (\<lambda>plan.
       bindP (store_write (record_frozen_plan plan)) (\<lambda>_.
       bindP (fault_after_plan r q) (\<lambda>_.
       write_facts now r q settled_at facts True)))))"

definition project :: "datetime \<Rightarrow> delivery_receipt \<Rightarrow> delivery_request \<Rightarrow> (projector, projection_outcome) prog" where
  "project now r q = (if dr_delivery_status r \<noteq> SENT then returnP (skipped ''not_accepted'' None)
     else bindP (readP (\<lambda>w. Inr (has_projection (dr_receipt_id r) (pj_store w)))) (\<lambda>marked.
       if marked then readP (\<lambda>w. already_applied_outcome r (pj_store w))
       else bindP (readP (\<lambda>w. get_frozen_plan (dr_receipt_id r) (pj_store w))) (\<lambda>plan. case plan of
           Some p \<Rightarrow> write_facts now r q (fp_settled_at p) (fp_facts p) False
         | None \<Rightarrow> bindP (readP (\<lambda>w. get_frozen_plan_any (dr_receipt_id r) (pj_store w))) (\<lambda>any_plan.
             if (case any_plan of Some p \<Rightarrow> fp_completed p | None \<Rightarrow> False)
             then raiseP (ValueError ''projection inconsistent for receipt_id: the frozen plan is completed=True but the idempotency marker is absent'')
             else project_new now r q))))"

section \<open>Histories\<close>

text \<open>
  One projector at a time on two files, with restarts; the receipt and the request of a delivery are those
  \<open>book\<close> has under the receipt's id. The other facts of the service come through its other calls.
\<close>

datatype projection_step =
    StartProjector
  | ProjectReceipt string "nat option" "py_error option" datetime
  | AdmitOther evidence string string "string option" datetime
  | AdmitOtherReality reality_request

record projection_world =
  pw_projector :: projector
  pw_alive :: bool
  pw_outcomes :: "projection_outcome result list"

definition new_projection_world :: projection_world where
  "new_projection_world = \<lparr>pw_projector = \<lparr>pj_facts = \<lparr>fs_evidence = [], fs_observations = [], fs_provenance = [],
     fs_backend = Some no_facts\<rparr>, pj_store = no_projections, pj_fault = None, pj_writes_left = None\<rparr>,
     pw_alive = False, pw_outcomes = []\<rparr>"

definition start_projector :: "projector \<Rightarrow> projector result" where
  "start_projector p = bindR (open_projections (pj_store p)) (\<lambda>_.
     bindR (new_fact_service (fs_backend (pj_facts p))) (\<lambda>s.
     Inr \<lparr>pj_facts = s, pj_store = pj_store p, pj_fault = None, pj_writes_left = None\<rparr>))"

definition other_call :: "(fact_service, 'a) prog \<Rightarrow> projection_world \<Rightarrow> projection_world" where
  "other_call m w = w\<lparr>pw_projector := (pw_projector w)\<lparr>pj_facts := snd (m (pj_facts (pw_projector w)))\<rparr>\<rparr>"

fun take_step :: "(string \<Rightarrow> delivery_receipt \<times> delivery_request) \<Rightarrow> projection_step \<Rightarrow> projection_world \<Rightarrow> projection_world" where
  "take_step book StartProjector w = (case start_projector (pw_projector w) of
     Inl e \<Rightarrow> w\<lparr>pw_alive := False\<rparr> | Inr p \<Rightarrow> w\<lparr>pw_projector := p, pw_alive := True\<rparr>)"
| "take_step book (ProjectReceipt i allowed fault now) w = (if \<not> pw_alive w then w
     else case project now (fst (book i)) (snd (book i)) ((pw_projector w)
         \<lparr>pj_fault := map_option (\<lambda>e r q. Some e) fault, pj_writes_left := allowed\<rparr>) of
       (res, p) \<Rightarrow> w\<lparr>pw_projector := p, pw_alive := (res \<noteq> Inl process_ended), pw_outcomes := pw_outcomes w @ [res]\<rparr>)"
| "take_step book (AdmitOther e i rt ps now) w = (if \<not> pw_alive w then w else other_call (admit_fact e i rt ps now) w)"
| "take_step book (AdmitOtherReality q) w = (if \<not> pw_alive w then w else other_call (admit_reality q) w)"

definition projection_run ::
  "(string \<Rightarrow> delivery_receipt \<times> delivery_request) \<Rightarrow> projection_step list \<Rightarrow> projection_world \<Rightarrow> projection_world" where
  "projection_run book steps w = fold (take_step book) steps w"

end
