(* ===== verification/Projection_Frame.thy ===== *)
theory Projection_Frame
  imports Settled_Projector Fact_Admission
begin

text \<open>
  The counter facts in a service and its file, and that no other call of the service touches them: its ids
  and keys are others. What an admission of a counter fact does is worked out here too.
\<close>

section \<open>Counter facts are left alone\<close>

definition op_id :: "string \<Rightarrow> bool" where
  "op_id i \<longleftrightarrow> starts_with ''op-'' i"

definition counter_row :: "observation_row \<Rightarrow> bool" where
  "counter_row r \<longleftrightarrow> op_id (obr_id r) \<or> obr_key r \<in> set allowed_operational_keys"

definition counter_fact :: "observation \<Rightarrow> bool" where
  "counter_fact ob \<longleftrightarrow> op_id (ob_id ob) \<or> ob_key ob \<in> set allowed_operational_keys"

definition counter_rows :: "fact_tables \<Rightarrow> observation_row list" where
  "counter_rows t = filter counter_row (ft_observations t)"

definition counter_cache :: "fact_service \<Rightarrow> ((scope \<times> string) \<times> observation) list" where
  "counter_cache s = filter (\<lambda>(k, ob). counter_fact ob) (fs_observations s)"

definition counter_frame :: "observation_row list \<Rightarrow> ((scope \<times> string) \<times> observation) list \<Rightarrow> fact_service \<Rightarrow> bool" where
  "counter_frame F C s \<longleftrightarrow> (\<exists>t. fs_backend s = Some t \<and> counter_rows t = F) \<and> counter_cache s = C"

lemma frame_lift:
  assumes "\<And>x. r = Inr x \<Longrightarrow> preserves I (f x)"
  shows "preserves I (bindP (liftP r) f)"
  using assms by (cases r) (auto simp: preserves_def)

lemma frame_on_facts:
  "(\<And>t. counter_rows (snd (m t)) = counter_rows t) \<Longrightarrow> preserves (counter_frame F C) (on_facts m)"
  by (rule preservesI) (auto simp: counter_frame_def on_facts_def counter_cache_def split: prod.splits, metis snd_conv)

lemma counter_row_of: "observation_to_row ob = Inr r \<Longrightarrow> counter_row r = counter_fact ob"
  by (auto simp: observation_to_row_def bindR_Inr_iff counter_row_def counter_fact_def)

lemma frame_saves:
  "\<not> counter_fact ob \<Longrightarrow> preserves (counter_frame F C) (on_facts (save_observation ob))"
  "preserves (counter_frame F C) (on_facts (save_evidence e i))"
  by (rule frame_on_facts, auto simp: save_observation_run save_evidence_run counter_rows_def
      dest: counter_row_of split: sum.splits)+

lemma frame_admission: "\<not> counter_fact ob \<Longrightarrow> preserves (counter_frame F C) (on_facts (save_admission e i ob))"
  by (rule frame_on_facts)
    (auto simp: save_admission_def unless_duplicate_def fact_block_def thenP_def bindP_def insert_evidence_run
      insert_observation_run counter_rows_def dest: counter_row_of split: sum.splits py_error.splits)

lemma frame_find: "preserves (counter_frame F C) (find_stored_evidence sc k)"
  "preserves (counter_frame F C) (find_stored_observation sc k)"
  unfolding find_stored_evidence_def find_stored_observation_def by (rule frame_on_facts, simp)+

lemma frame_lost: "preserves (counter_frame F C) (on_facts m) \<Longrightarrow> preserves (counter_frame F C) (lost_write m)"
  unfolding lost_write_def
  by (rule preservesI) (auto simp: bindP_def dest: preservesD' split: prod.splits sum.splits)

lemma frame_remember: "\<not> counter_fact ob \<Longrightarrow> counter_frame F C s \<Longrightarrow> counter_frame F C (remember_observation ob s)"
  by (auto simp: counter_frame_def remember_observation_def store_append_def counter_cache_def)

lemma frame_admitted: "\<not> counter_fact ob \<Longrightarrow> preserves (counter_frame F C) (admitted d ob)"
  unfolding admitted_def by (intro preserve_rules preserves_writeP frame_remember)

lemma find_observation_row:
  assumes "find_observation sc k t = Inr (Some ob)"
  obtains r where "r \<in> set (ft_observations t)" and "obr_id r = k" and "ob_id ob = k" and "ob_key ob = obr_key r"
proof -
  from assms obtain r where r: "r \<in> set (ft_observations t)" "obr_id r = k" "observation_from_row r = Inr ob"
    by (auto simp: find_observation_def observation_row_key_def bindR_Inr_iff dest!: find_SomeD split: option.splits)
  then show thesis
    by (intro that [of r]) (auto simp: observation_from_row_def mk_observation_def bindR_Inr_iff guarded_Inr_iff Let_def)
qed

lemma frame_found:
  assumes "list_all (\<lambda>r. op_id (obr_id r)) F" and "\<not> op_id k"
    and f: "\<And>found. (\<And>ob. found = Some ob \<Longrightarrow> \<not> counter_fact ob) \<Longrightarrow> preserves (counter_frame F C) (f found)"
  shows "preserves (counter_frame F C) (bindP (find_stored_observation sc k) f)"
proof (rule preservesI)
  fix s
  assume s: "counter_frame F C s"
  then obtain t where t: "fs_backend s = Some t" "counter_rows t = F" by (auto simp: counter_frame_def)
  then have run: "find_stored_observation sc k s = (find_observation sc k t, s)"
    by (simp add: find_stored_observation_def on_facts_def)
  show "counter_frame F C (snd (bindP (find_stored_observation sc k) f s))"
  proof (cases "find_observation sc k t")
    case (Inl e)
    with run s show ?thesis by (simp add: bindP_def)
  next
    case (Inr found)
    have "\<not> counter_fact ob" if "found = Some ob" for ob
    proof
      assume c: "counter_fact ob"
      from Inr that obtain r where r: "r \<in> set (ft_observations t)" "obr_id r = k" "ob_id ob = k" "ob_key ob = obr_key r"
        by (auto elim: find_observation_row)
      with c have "r \<in> set (counter_rows t)" by (auto simp: counter_rows_def counter_row_def counter_fact_def)
      with assms(1,2) t(2) r(2) show False by (auto simp: list_all_iff)
    qed
    from preservesD [OF f [OF this] s] Inr run show ?thesis by (simp add: bindP_def)
  qed
qed

lemma built_no_counter: "build_observation e i now = Inr ob \<Longrightarrow> \<not> counter_fact ob"
proof -
  assume built: "build_observation e i now = Inr ob"
  then have "ob_id ob = ''observation-'' @ ev_id e" and key: "ob_key ob = ev_source_type e @ ''.observed''"
    by (auto simp: build_observation_def mk_observation_def bindR_Inr_iff guarded_Inr_iff)
  moreover have "k \<noteq> a @ ''.observed''" if "k \<in> set allowed_operational_keys" for a k
  proof
    assume "k = a @ ''.observed''"
    then have "rev k = rev ''.observed'' @ rev a" by simp
    with that show False by (auto simp: allowed_operational_keys_def)
  qed
  ultimately show ?thesis by (auto simp: counter_fact_def op_id_def starts_with_def)
qed

lemma observation_id_plain: "\<not> op_id (''observation-'' @ x)"
  by (simp add: op_id_def starts_with_def)

lemma frame_option: "preserves I m \<Longrightarrow> (\<And>x. v = Some x \<Longrightarrow> preserves I (f x)) \<Longrightarrow> preserves I (case v of None \<Rightarrow> m | Some x \<Rightarrow> f x)"
  by (cases v) simp_all

lemma frame_pair: "(\<And>a b. p = (a, b) \<Longrightarrow> preserves I (f a b)) \<Longrightarrow> preserves I (case p of (a, b) \<Rightarrow> f a b)"
  by (cases p) simp

lemmas frame_steps = preserve_rules frame_option frame_pair frame_find frame_saves(2) frame_lost

lemma frame_repaired:
  assumes "list_all (\<lambda>r. op_id (obr_id r)) F"
  shows "preserves (counter_frame F C) (bindP (liftP (build_observation b i u)) (\<lambda>repair.
      bindP (on_facts (save_observation repair)) (\<lambda>won. if won then admitted REPAIRED repair
        else bindP (find_stored_observation sc (''observation-'' @ x)) (\<lambda>winner. case winner of
            None \<Rightarrow> raiseP err | Some ob \<Rightarrow> admitted REPLAY ob))))"
proof (rule frame_lift)
  fix repair
  assume "build_observation b i u = Inr repair"
  then have plain: "\<not> counter_fact repair" by (rule built_no_counter)
  have "preserves (counter_frame F C) (bindP (find_stored_observation sc (''observation-'' @ x)) (\<lambda>winner. case winner of
            None \<Rightarrow> raiseP err | Some ob \<Rightarrow> admitted REPLAY ob))"
    by (rule frame_found [OF assms observation_id_plain]) (auto split: option.split intro: preserve_rules frame_admitted)
  with plain show "preserves (counter_frame F C) (bindP (on_facts (save_observation repair)) (\<lambda>won.
      if won then admitted REPAIRED repair
      else bindP (find_stored_observation sc (''observation-'' @ x)) (\<lambda>winner. case winner of
            None \<Rightarrow> raiseP err | Some ob \<Rightarrow> admitted REPLAY ob)))"
    by (intro preserves_bindP [OF frame_saves(1)] preserves_if frame_admitted)
qed

lemma frame_arbitrate:
  assumes "list_all (\<lambda>r. op_id (obr_id r)) F"
  shows "preserves (counter_frame F C) (arbitrate e)"
  unfolding arbitrate_def
proof (rule preserves_bindP [OF frame_find(1)], rule frame_found [OF assms observation_id_plain])
  fix stored :: "(evidence \<times> string) option" and stored_observation
  assume plain: "\<And>ob. stored_observation = Some ob \<Longrightarrow> \<not> counter_fact ob"
  show "preserves (counter_frame F C) (case stored of
       None \<Rightarrow> raiseP (ConflictError ''observation exists without its evidence row'')
     | Some (stored_evidence, stored_interaction) \<Rightarrow>
         if \<not> evidence_eq stored_evidence e
         then raiseP (ConflictError ''evidence reuses (scope, id) with different immutable bytes'')
         else (case stored_observation of
           Some ob \<Rightarrow> admitted REPLAY ob
         | None \<Rightarrow>
             bindP (liftP (build_observation stored_evidence stored_interaction (ev_received_at stored_evidence)))
               (\<lambda>repair. bindP (on_facts (save_observation repair)) (\<lambda>won.
             if won then admitted REPAIRED repair
             else bindP (find_stored_observation (ev_scope e) (''observation-'' @ ev_id e)) (\<lambda>winner. case winner of
                 None \<Rightarrow> raiseP (ConflictError ''observation still missing after arbitration'')
               | Some ob \<Rightarrow> admitted REPLAY ob)))))"
    using plain frame_repaired [OF assms] by (auto split: option.split prod.split intro: preserve_rules frame_admitted)
qed

lemma frame_durable: "preserves I m \<Longrightarrow> preserves I k \<Longrightarrow> preserves I (\<lambda>s. if durable s then m s else k s)"
  by (simp add: preserves_def)

lemma frame_different: "preserves (counter_frame F C) (different_bytes e c)"
proof (rule preservesI)
  fix s
  assume s: "counter_frame F C s"
  have "preserves (counter_frame F C) (bindP (find_stored_evidence (ev_scope e) (ev_id e)) (\<lambda>pair. returnP (g pair)))"
    for g :: "(evidence \<times> string) option \<Rightarrow> bool" by (intro frame_steps)
  from preservesD [OF this s] s show "counter_frame F C (snd (different_bytes e c s))"
    by (auto simp: different_bytes_def split: option.splits)
qed

lemma frame_admit_new:
  assumes "list_all (\<lambda>r. op_id (obr_id r)) F"
  shows "preserves (counter_frame F C) (admit_new e i now)"
  unfolding admit_new_def
  by (intro frame_lift frame_steps frame_admission frame_arbitrate [OF assms] frame_admitted built_no_counter)

lemma frame_repair:
  assumes "list_all (\<lambda>r. op_id (obr_id r)) F"
  shows "preserves (counter_frame F C) (repair e original)"
proof -
  have "preserves (counter_frame F C) (repair_interaction e original)"
  proof (rule preservesI)
    fix s
    assume s: "counter_frame F C s"
    have "preserves (counter_frame F C) (bindP (find_stored_evidence (ev_scope e) (ev_id e)) (\<lambda>pair. case pair of
         None \<Rightarrow> raiseP (ConflictError ''evidence row is missing from the durable store'')
       | Some (b, i) \<Rightarrow> returnP (Some i)))" by (intro frame_steps)
    from preservesD [OF this s] s show "counter_frame F C (snd (repair_interaction e original s))"
      by (simp add: repair_interaction_def)
  qed
  moreover have "preserves (counter_frame F C) (bindP (liftP (build_observation e i u)) (\<lambda>ob.
       bindP (lost_write (save_observation ob)) (\<lambda>lost.
       if lost then arbitrate e else admitted REPAIRED ob)))" for i u
    by (rule frame_lift, intro preserves_bindP frame_lost frame_saves(1) preserves_if frame_arbitrate [OF assms]
        frame_admitted built_no_counter)
  ultimately show ?thesis
    unfolding repair_def by (intro preserves_bindP [where m = "repair_interaction e original"] frame_option preserves_pure)
qed

lemma frame_reject: "preserves (counter_frame F C) (reject e i b err)"
  unfolding reject_def by (intro frame_steps)

lemma frame_admit_fact:
  assumes "list_all (\<lambda>r. op_id (obr_id r)) F" and s: "counter_frame F C s"
  shows "counter_frame F C (snd (admit_fact e i rt ps now s))"
proof -
  let ?s = "remember_evidence e i s"
  have step: "counter_frame F C ?s" using s by (simp add: counter_frame_def remember_evidence_def counter_cache_def)
  have rest: "preserves (counter_frame F C) (case guarded (require_user_fact e @ require_owner e rt ps) () of
           Inl err \<Rightarrow> reject e i b err
         | Inr _ \<Rightarrow> (case so of
             Some ob \<Rightarrow> returnP \<lparr>ar_observation = ob, ar_disposition = REPLAY\<rparr>
           | None \<Rightarrow> if c then admit_new e i now else repair e oi))" for b so c oi
    by (auto split: sum.split option.split intro: frame_reject frame_admit_new [OF assms(1)] frame_repair [OF assms(1)] preserve_rules)
  have "preserves (counter_frame F C) (bindP (different_bytes e c) (\<lambda>different.
         if different then raiseP (ConflictError ''evidence reuses (scope, id) with different immutable bytes'')
         else case guarded (require_user_fact e @ require_owner e rt ps) () of
           Inl err \<Rightarrow> reject e i b err
         | Inr _ \<Rightarrow> (case so of
             Some ob \<Rightarrow> returnP \<lparr>ar_observation = ob, ar_disposition = REPLAY\<rparr>
           | None \<Rightarrow> if d then admit_new e i now else repair e oi)))" for c b so d oi
    by (intro preserves_bindP frame_different preserves_if preserve_rules(2) rest)
  from preservesD [OF this step] s show ?thesis by (simp add: admit_fact_def Let_def)
qed

lemma frame_cached: "preserves I m \<Longrightarrow> preserves I (cached_or_stored c m)"
  by (auto simp: cached_or_stored_def preserves_def)

lemma frame_causal: "preserves (counter_frame F C) (causal_interaction q)"
proof (rule preservesI)
  fix s
  assume s: "counter_frame F C s"
  have "preserves (counter_frame F C) (bindP (find_stored_evidence sc k) (\<lambda>pair. returnP (g pair)))"
    for sc k and g :: "(evidence \<times> string) option \<Rightarrow> string" by (intro frame_steps)
  from preservesD [OF this s] s show "counter_frame F C (snd (causal_interaction q s))"
    by (simp add: causal_interaction_def Let_def)
qed

lemma reality_no_counter:
  assumes "all_clear (reality_gate q)" and "\<not> op_id (rr_observation_id q)" and "reality_observation q causal = Inr ob"
  shows "\<not> counter_fact ob" and "ob_id ob = rr_observation_id q"
proof -
  from assms(3) have ob: "ob_id ob = rr_observation_id q" "ob_key ob = rr_key q"
    by (auto simp: reality_observation_def Let_def mk_observation_def bindR_Inr_iff guarded_Inr_iff)
  have "list_all (\<lambda>k. \<not> reality_allowed k) allowed_operational_keys" by code_simp
  moreover have "reality_allowed (rr_key q)" using assms(1) by (simp add: reality_gate_def validate_reality_namespace_def)
  ultimately have "rr_key q \<notin> set allowed_operational_keys" by (auto simp: list_all_iff)
  with ob assms(2) show "\<not> counter_fact ob" "ob_id ob = rr_observation_id q" by (simp_all add: counter_fact_def)
qed

lemma frame_arbitrate_reality:
  assumes "list_all (\<lambda>r. op_id (obr_id r)) F" and "\<not> op_id (ob_id ob)"
  shows "preserves (counter_frame F C) (arbitrate_reality ob)"
  unfolding arbitrate_reality_def
  by (rule frame_found [OF assms]) (auto split: option.split intro: preserve_rules frame_admitted)

lemma frame_admit_reality:
  assumes "list_all (\<lambda>r. op_id (obr_id r)) F" and "\<not> op_id (rr_observation_id q)"
  shows "preserves (counter_frame F C) (admit_reality q)"
proof (cases "all_clear (reality_gate q)")
  case gate: True
  have new: "preserves (counter_frame F C) (bindP (liftP (reality_observation q causal)) (\<lambda>ob.
         bindP (lost_write (save_observation ob)) (\<lambda>lost. if lost then arbitrate_reality ob else admitted NEW ob)))" for causal
  proof (rule frame_lift)
    fix ob
    assume ob: "reality_observation q causal = Inr ob"
    note plain = reality_no_counter [OF gate assms(2) ob]
    show "preserves (counter_frame F C) (bindP (lost_write (save_observation ob)) (\<lambda>lost. if lost then arbitrate_reality ob else admitted NEW ob))"
      using plain assms by (intro preserves_bindP [OF frame_lost [OF frame_saves(1)]] preserves_if frame_arbitrate_reality frame_admitted) simp_all
  qed
  have body: "preserves (counter_frame F C)
     (bindP (cached_or_stored (map_of (fs_evidence a) (ev_scope (rr_source_evidence q), ev_id (rr_source_evidence q)))
         (bindP (find_stored_evidence (ev_scope (rr_source_evidence q)) (ev_id (rr_source_evidence q))) (\<lambda>pair. returnP (map_option fst pair)))) (\<lambda>stored.
     if \<not> (case stored of None \<Rightarrow> False | Some b \<Rightarrow> evidence_eq b (rr_source_evidence q))
     then raiseP (ConflictError ''typed reality source evidence was not admitted'')
     else bindP (causal_interaction q) (\<lambda>causal.
     bindP (cached_or_stored (map_of (fs_observations a) (ev_scope (rr_source_evidence q), rr_observation_id q))
         (find_stored_observation (ev_scope (rr_source_evidence q)) (rr_observation_id q))) (\<lambda>existing.
     case existing of
       Some ob \<Rightarrow> if reality_matches ob q causal then returnP \<lparr>ar_observation = ob, ar_disposition = REPLAY\<rparr>
         else raiseP (ConflictError ''reality observation conflicts with stored bytes'')
     | None \<Rightarrow> bindP (liftP (reality_observation q causal)) (\<lambda>ob.
         bindP (lost_write (save_observation ob)) (\<lambda>lost.
         if lost then arbitrate_reality ob else admitted NEW ob))))))" for a
    by (intro preserves_bindP [OF frame_cached] preserves_bindP [OF frame_find(1)] preserves_bindP [OF frame_causal] preserves_if
        frame_option preserves_pure frame_find new)
  show ?thesis
    by (rule preservesI, use preservesD [OF body] gate in \<open>simp add: admit_reality_def Let_def guarded_clear\<close>)
next
  case False
  then obtain e where "guarded (reality_gate q) () = Inl e"
    by (cases "guarded (reality_gate q) ()") (auto simp: guarded_Inr_iff)
  then show ?thesis by (simp add: admit_reality_def Let_def preserves_def)
qed


section \<open>Admitting a counter fact\<close>

lemma payload_frozen:
  "freeze_value f (VMap [(VStr ''key'', VStr k), (VStr ''value'', VStr v)]) = Inr (VMap [(VStr ''key'', VStr k), (VStr ''value'', VStr v)])"
  by simp

lemma operational_evidence_row:
  assumes "operational_evidence key val r at_time = Inr e" and "scope_valid (dr_scope r)"
  shows "evidence_valid e" and "\<exists>row. evidence_to_row e i = Inr row \<and> evr_sync_version row = 1"
proof -
  have "frozen (VMap [(VStr ''key'', VStr key), (VStr ''value'', VStr val)])"
    using freeze_value_frozen [OF payload_frozen] .
  then show "evidence_valid e"
    using assms by (auto simp: operational_evidence_def Let_def mk_evidence_def bindR_Inr_iff guarded_Inr_iff payload_frozen
        evidence_valid_def evidence_head_checks_def evidence_tail_checks_def)
  show "\<exists>row. evidence_to_row e i = Inr row \<and> evr_sync_version row = 1"
    using assms(1) by (auto simp: operational_evidence_def Let_def mk_evidence_def bindR_Inr_iff guarded_Inr_iff payload_frozen
        evidence_to_row_def mk_sync_def)
qed

lemma operational_observation_row:
  assumes "operational_observation key val r at_time = Inr ob" and "scope_valid (dr_scope r)"
  shows "observation_whole ob" and "\<exists>row. observation_to_row ob = Inr row \<and> obr_sync_version row = 1"
    and "ob_scope ob = dr_scope r" and "ob_id ob = ''op-'' @ dr_receipt_id r @ ''-'' @ key" and "ob_key ob = key"
    and "ob_value ob = VStr val" and "ob_observed_at ob = at_time"
proof -
  from mk_observation_whole(1) [OF assms(1) [unfolded operational_observation_def Let_def]] assms(2)
  show "observation_whole ob" by simp
  from assms(1) show "\<exists>row. observation_to_row ob = Inr row \<and> obr_sync_version row = 1"
    "ob_scope ob = dr_scope r" "ob_id ob = ''op-'' @ dr_receipt_id r @ ''-'' @ key" "ob_key ob = key"
    "ob_value ob = VStr val" "ob_observed_at ob = at_time"
    by (auto simp: operational_observation_def Let_def mk_observation_def bindR_Inr_iff guarded_Inr_iff
        observation_to_row_def mk_sync_def)
qed


text \<open>
  The receipts a counter fact can be admitted for: the checks of the admission pass. Otherwise the call
  raises and changes nothing.
\<close>

definition settled_ok :: "delivery_receipt \<Rightarrow> delivery_request \<Rightarrow> bool" where
  "settled_ok r q \<longleftrightarrow> dr_delivery_status r = SENT \<and> rq_scope q = dr_scope r \<and> dr_delivered_at r \<noteq> None \<and>
     is_known_action_type (rq_action_type q) \<and> non_empty (rq_request_id q) \<and> non_empty (rq_message_id q) \<and>
     non_empty (rq_origin_runtime_id q)"

definition counter_gate :: "string \<Rightarrow> string \<Rightarrow> delivery_request \<Rightarrow> delivery_receipt \<Rightarrow> datetime \<Rightarrow> evidence result" where
  "counter_gate key val q r t =
     bindR (guarded (validate_operational_key key @ [require_non_empty val ''value''] @ validate_action_type q) ()) (\<lambda>_.
     bindR (guarded (validate_settled_at t) ()) (\<lambda>_.
     bindR (operational_evidence key val r t) (\<lambda>e.
     bindR (guarded (validate_operational_authority e q r) ()) (\<lambda>_. Inr e))))"

lemma admit_operational_gate:
  "admit_operational_fact key val q r (Some t) s = (case counter_gate key val q r t of
     Inl err \<Rightarrow> (Inl err, s)
   | Inr e \<Rightarrow> (case map_of (fs_observations s) (dr_scope r, ''op-'' @ dr_receipt_id r @ ''-'' @ key) of
       Some ob \<Rightarrow> (Inr ob, s)
     | None \<Rightarrow> bindP (liftP (operational_observation key val r t)) (\<lambda>ob.
         bindP (store_operational e ob) (\<lambda>_. bindP (writeP (remember_observation ob)) (\<lambda>_. returnP ob))) s))"
  by (auto simp: admit_operational_fact_def counter_gate_def settled_time_def bindP_def bindR_def liftP_def split: sum.split)

lemma gate_clear:
  assumes "delivery_receipt_valid r" and "settled_ok r q" and "key \<in> set allowed_operational_keys" and "non_empty val" and "is_aware_utc t"
  shows "\<exists>e. counter_gate key val q r t = Inr e" and "\<exists>ob. operational_observation key val r t = Inr ob"
proof -
  note valid = assms(1) [unfolded delivery_receipt_valid_iff]
  have sc: "scope_valid (dr_scope r)" and rid: "non_empty (dr_receipt_id r)" and og: "non_empty (dr_origin_runtime_id r)"
    using valid by simp_all
  have key: "non_empty key" using assms(3) by (auto simp: allowed_operational_keys_def non_empty_eval)
  obtain d where d: "dr_delivered_at r = Some d" "is_aware_utc d" using valid assms(2) by (auto simp: settled_ok_def)
  have rid': "is_non_empty (Some (dr_receipt_id r))" "dr_receipt_id r \<noteq> ''''"
    using rid by (auto simp: is_non_empty_def non_empty_def)
  have act: "rq_action_type q \<noteq> ''''" using assms(2) by (auto simp: settled_ok_def is_known_action_type_def)
  show "\<exists>ob. operational_observation key val r t = Inr ob"
    using rid og key assms(5)
    by (simp add: operational_observation_def Let_def mk_observation_def guarded_clear observation_head_checks_def
        observation_tail_checks_def non_empty_eval mk_sync_def)
  have "\<exists>e. operational_evidence key val r t = Inr e"
    using rid og rid' key assms(5)
    by (simp add: operational_evidence_def Let_def mk_evidence_def guarded_clear authority_checks_def evidence_head_checks_def
        evidence_tail_checks_def non_empty_eval mk_sync_def payload_frozen operational_source_type_def)
  then obtain e where e: "operational_evidence key val r t = Inr e" by blast
  then have fields: "ev_source_type e = operational_source_type" "ev_authority_level e = SYSTEM" "ev_source_id e = dr_receipt_id r"
    "ev_scope e = dr_scope r" "all_clear (validate_sync_fields (ev_sync e) (ev_scope e) (ev_origin_runtime_id e) (ev_id e) None)"
    by (auto simp: operational_evidence_def Let_def mk_evidence_def bindR_Inr_iff guarded_Inr_iff payload_frozen evidence_tail_checks_def)
  have "all_clear (validate_operational_authority e q r)"
    using fields d rid' act assms(2)
    by (auto simp: validate_operational_authority_def settled_ok_def validate_action_type_def validate_settled_at_def
        operational_source_type_def non_empty_eval simp del: validate_sync_clear)
  with e key assms(3-5) act show "\<exists>e. counter_gate key val q r t = Inr e"
    by (simp add: counter_gate_def guarded_clear validate_operational_key_def validate_action_type_def validate_settled_at_def)
qed

lemma counter_gate_key:
  "counter_gate key val q r t = Inr e \<Longrightarrow> operational_evidence key val r t = Inr e \<and> key \<in> set allowed_operational_keys"
  by (auto simp: counter_gate_def bindR_Inr_iff guarded_Inr_iff validate_operational_key_def)

text \<open>The file after an admission: the evidence if its key is new, and the observation if its key is new.\<close>

lemma store_operational_cases:
  assumes t: "fs_backend s = Some t" "facts_sound t" and sc: "scope_valid (dr_scope r)"
    and e: "operational_evidence key val r u = Inr e" and ob: "operational_observation key val r u = Inr ob"
    and new: "\<not> has_observation_key t (ob_scope ob) (ob_id ob)"
  obtains t1 t2 row where "store_operational e ob s = (Inr (), s\<lparr>fs_backend := Some t2\<rparr>)"
    and "facts_sound t1" and "facts_grow t t1" and "ft_observations t1 = ft_observations t"
    and "observation_to_row ob = Inr row" and "t2 = t1\<lparr>ft_observations := ft_observations t1 @ [row]\<rparr>"
    and "facts_sound t2" and "facts_grow t t2" and "holds_observation t2 ob" and "ft_evidence t2 = ft_evidence t1"
    and "ft_interactions t1 = ft_interactions t"
proof -
  from operational_evidence_row [OF e sc] obtain erow where erow: "evidence_to_row e (ob_interaction_id ob) = Inr erow"
    "evr_sync_version erow = 1" and valid: "evidence_valid e" by blast
  from operational_observation_row [OF ob sc] obtain row where row: "observation_to_row ob = Inr row" "obr_sync_version row = 1"
    and whole: "observation_whole ob" by blast
  define t1 where "t1 = (if has_evidence_key t (ev_scope e) (ev_id e) then t else t\<lparr>ft_evidence := ft_evidence t @ [erow]\<rparr>)"
  have first: "save_evidence e (ob_interaction_id ob) t = (Inr (\<not> has_evidence_key t (ev_scope e) (ev_id e)), t1)"
    by (simp add: save_evidence_run erow t1_def)
  have s1: "facts_sound t1" "facts_grow t t1" "ft_observations t1 = ft_observations t" "ft_interactions t1 = ft_interactions t"
    using t(2) sound_new_evidence(1) [OF t(2) valid erow(1)] by (auto simp: t1_def facts_grow_def)
  have new1: "\<not> has_observation_key t1 (ob_scope ob) (ob_id ob)" using new s1(3) by (simp add: has_observation_key_def)
  define t2 where "t2 = t1\<lparr>ft_observations := ft_observations t1 @ [row]\<rparr>"
  have second: "save_observation ob t1 = (Inr True, t2)" by (simp add: save_observation_run row new1 t2_def)
  have run: "store_operational e ob s = (Inr (), s\<lparr>fs_backend := Some t2\<rparr>)"
    using t(1) by (simp add: store_operational_def durable_def thenP_def bindP_def on_facts_def first second)
  note s2 = sound_new_observation [OF s1(1) whole row(1) new1, folded t2_def]
  have "facts_grow t1 t2" by (simp add: t2_def facts_grow_def)
  with s1(2) have "facts_grow t t2" by (rule facts_grow_trans)
  then show thesis by (intro that [OF run s1(1-3) row(1) t2_def s2(1) _ s2(2)]) (simp_all add: t2_def s1(4))
qed

end
