(* ===== verification/Projection_History.thy ===== *)
theory Projection_History
  imports Projection_Frame
begin

text \<open>
  Every history of a projector: runs cut short between any two writes, restarts, the same receipt again and
  again, other facts in between. A receipt has one plan, written before its facts and never changed; the
  counter facts in the file are facts of plans; and a marked receipt has all of its facts.
\<close>

section \<open>What the files hold\<close>

definition planned_facts :: "string \<Rightarrow> int \<Rightarrow> datetime \<Rightarrow> (string \<times> string) list" where
  "planned_facts action n t = (if action = ''send_photo'' then [(cadence_counter_key, show_int 0)]
     else [(cadence_counter_key, show_int n), (cooldown_fact_key, isoformat t)])"

definition plan_for :: "(string \<Rightarrow> delivery_receipt \<times> delivery_request) \<Rightarrow> frozen_plan \<Rightarrow> bool" where
  "plan_for book p \<longleftrightarrow> (case book (fp_receipt_id p) of (r, q) \<Rightarrow> dr_delivery_status r = SENT \<and>
     fp_settled_at p = settlement_time r q \<and> fp_request_id p = rq_request_id q \<and>
     fp_action_type p = rq_action_type q \<and> is_known_action_type (rq_action_type q) \<and>
     (\<exists>n. fp_facts p = planned_facts (rq_action_type q) n (fp_settled_at p)))"

definition plan_of_row :: "(string \<Rightarrow> delivery_receipt \<times> delivery_request) \<Rightarrow> plan_row \<Rightarrow> frozen_plan \<Rightarrow> bool" where
  "plan_of_row book row p \<longleftrightarrow> row_to_frozen_plan row = Inr p \<and> plan_for book p"

definition fact_of_plan :: "(string \<Rightarrow> delivery_receipt \<times> delivery_request) \<Rightarrow> frozen_plan \<Rightarrow> string \<times> string \<Rightarrow> observation \<Rightarrow> bool" where
  "fact_of_plan book p kv ob \<longleftrightarrow> kv \<in> set (fp_facts p) \<and>
     operational_observation (fst kv) (snd kv) (fst (book (fp_receipt_id p))) (fp_settled_at p) = Inr ob"

definition counted :: "(string \<Rightarrow> delivery_receipt \<times> delivery_request) \<Rightarrow> fact_tables \<Rightarrow> frozen_plan \<Rightarrow> string \<times> string \<Rightarrow> bool" where
  "counted book t p kv \<longleftrightarrow> (\<exists>ob. fact_of_plan book p kv ob \<and> holds_observation t ob)"

definition plans_sound :: "(string \<Rightarrow> delivery_receipt \<times> delivery_request) \<Rightarrow> projection_tables \<Rightarrow> bool" where
  "plans_sound book p \<longleftrightarrow> distinct (map plr_receipt_id (pt_plans p)) \<and>
     (\<forall>row \<in> set (pt_plans p). (\<exists>pl. plan_of_row book row pl) \<and>
       (plr_completed row \<noteq> 0 \<longrightarrow> has_projection (plr_receipt_id row) p))"

definition facts_planned :: "(string \<Rightarrow> delivery_receipt \<times> delivery_request) \<Rightarrow> fact_tables \<Rightarrow> projection_tables \<Rightarrow> bool" where
  "facts_planned book t p \<longleftrightarrow> (\<forall>x \<in> set (counter_rows t). \<exists>row \<in> set (pt_plans p). \<exists>pl kv ob.
     plan_of_row book row pl \<and> fact_of_plan book pl kv ob \<and> observation_to_row ob = Inr x)"

definition markers_earned :: "(string \<Rightarrow> delivery_receipt \<times> delivery_request) \<Rightarrow> fact_tables \<Rightarrow> projection_tables \<Rightarrow> bool" where
  "markers_earned book t p \<longleftrightarrow> distinct (map prr_receipt_id (pt_records p)) \<and>
     (\<forall>x \<in> set (pt_records p). all_clear (reopen_checks x) \<and> (\<exists>rec. row_to_record x = Inr rec) \<and>
       (\<exists>row \<in> set (pt_plans p). \<exists>pl. plan_of_row book row pl \<and> fp_receipt_id pl = prr_receipt_id x \<and>
         (\<forall>kv \<in> set (fp_facts pl). counted book t pl kv)))"

definition files_sound :: "(string \<Rightarrow> delivery_receipt \<times> delivery_request) \<Rightarrow> fact_tables \<Rightarrow> projection_tables \<Rightarrow> bool" where
  "files_sound book t p \<longleftrightarrow> facts_sound t \<and> plans_sound book p \<and> facts_planned book t p \<and> markers_earned book t p"

text \<open>The cache of a running service has the counter facts of the file and no others.\<close>

definition counters_cached :: "fact_service \<Rightarrow> fact_tables \<Rightarrow> bool" where
  "counters_cached s t \<longleftrightarrow> (\<forall>ob. counter_fact ob \<longrightarrow>
     ((ob_scope ob, ob_id ob), ob) \<in> set (fs_observations s) \<longleftrightarrow> holds_observation t ob)"

definition projector_sound :: "(string \<Rightarrow> delivery_receipt \<times> delivery_request) \<Rightarrow> projector \<Rightarrow> fact_tables \<Rightarrow> bool" where
  "projector_sound book w t \<longleftrightarrow> service_sound (pj_facts w) t \<and> files_sound book t (pj_store w) \<and>
     counters_cached (pj_facts w) t"

definition book_ok :: "(string \<Rightarrow> delivery_receipt \<times> delivery_request) \<Rightarrow> bool" where
  "book_ok book \<longleftrightarrow> (\<forall>i. dr_receipt_id (fst (book i)) = i \<and> scope_valid (dr_scope (fst (book i))) \<and>
     scope_valid (rq_scope (snd (book i))))"

section \<open>Growth\<close>

definition holds_plan :: "projection_tables \<Rightarrow> frozen_plan \<Rightarrow> bool" where
  "holds_plan p pl \<longleftrightarrow> (\<exists>row \<in> set (pt_plans p). \<exists>pl'. row_to_frozen_plan row = Inr pl' \<and> frozen_plan_equivalent pl' pl)"

definition store_grows :: "projection_tables \<Rightarrow> projection_tables \<Rightarrow> bool" where
  "store_grows p p' \<longleftrightarrow> (\<forall>pl. holds_plan p pl \<longrightarrow> holds_plan p' pl) \<and> set (pt_records p) \<subseteq> set (pt_records p')"

lemma store_grows_refl [simp]: "store_grows p p"
  by (simp add: store_grows_def)

lemma store_grows_trans: "store_grows p p' \<Longrightarrow> store_grows p' p'' \<Longrightarrow> store_grows p p''"
  by (auto simp: store_grows_def)

lemma counted_grows: "facts_grow t t' \<Longrightarrow> counted book t pl kv \<Longrightarrow> counted book t' pl kv"
  by (auto simp: counted_def dest: holds_grows(1))

lemma planned_keys:
  assumes "plan_for book p"
  shows "fp_facts p \<noteq> []" and "distinct (map fst (fp_facts p))"
    and "\<And>k v. (k, v) \<in> set (fp_facts p) \<Longrightarrow> k \<in> set allowed_operational_keys \<and> non_empty v"
  using assms by (auto simp: plan_for_def planned_facts_def cadence_counter_key_def cooldown_fact_key_def
      allowed_operational_keys_def split: if_splits)

text \<open>The id of a counter fact tells the receipt and the key.\<close>

lemma operational_id_inject:
  assumes "''op-'' @ i @ ''-'' @ k = ''op-'' @ j @ ''-'' @ l" and "k \<in> set allowed_operational_keys" and "l \<in> set allowed_operational_keys"
  shows "i = j \<and> k = l"
proof -
  have "k = l"
  proof (rule ccontr)
    assume "k \<noteq> l"
    with assms(2,3) have "last k \<noteq> last l" "k \<noteq> []" "l \<noteq> []" by (auto simp: allowed_operational_keys_def)
    with assms(1) show False by (metis append_is_Nil_conv last_append)
  qed
  with assms(1) show ?thesis by simp
qed

text \<open>A counter fact of a receipt that the file holds is the one its plan has.\<close>

lemma counter_unique:
  assumes files: "files_sound book t p" and bk: "book_ok book"
    and row: "row \<in> set (pt_plans p)" "plan_of_row book row pl" and kv: "(k, v) \<in> set (fp_facts pl)"
    and held: "holds_observation t ob" "ob_id ob = ''op-'' @ fp_receipt_id pl @ ''-'' @ k"
  shows "fact_of_plan book pl (k, v) ob"
proof -
  from held(1) obtain x where x: "x \<in> set (ft_observations t)" "obr_id x = ob_id ob" "observation_from_row x = Inr ob"
    by (auto simp: holds_observation_def find_observation_def observation_row_key_def bindR_Inr_iff
        dest!: find_SomeD split: option.splits)
  have "op_id (ob_id ob)" using held(2) by (simp add: op_id_def starts_with_def)
  with x have "x \<in> set (counter_rows t)" by (simp add: counter_rows_def counter_row_def)
  with files obtain row' pl' k' v' ob' where row': "row' \<in> set (pt_plans p)" "plan_of_row book row' pl'"
    and fact: "fact_of_plan book pl' (k', v') ob'" "observation_to_row ob' = Inr x"
    by (fastforce simp: files_sound_def facts_planned_def)
  have sc: "scope_valid (dr_scope (fst (book (fp_receipt_id pl'))))" using bk by (simp add: book_ok_def)
  note made = operational_observation_row [OF fact(1) [unfolded fact_of_plan_def fst_conv snd_conv, THEN conjunct2] sc]
  from observation_round_trip [OF made(1) fact(2)] x(3) have same: "ob' = ob" by simp
  have id': "ob_id ob = ''op-'' @ fp_receipt_id pl' @ ''-'' @ k'"
    using made(4) same bk by (simp add: book_ok_def)
  have keys: "k \<in> set allowed_operational_keys" "k' \<in> set allowed_operational_keys"
    using planned_keys(3) kv fact(1) row(2) row'(2) by (auto simp: fact_of_plan_def plan_of_row_def)
  have "''op-'' @ fp_receipt_id pl @ ''-'' @ k = ''op-'' @ fp_receipt_id pl' @ ''-'' @ k'" using held(2) id' by (simp only:)
  from operational_id_inject [OF this keys] have eq: "fp_receipt_id pl = fp_receipt_id pl'" "k = k'" by simp_all
  have "plr_receipt_id row = plr_receipt_id row'"
    using eq(1) row(2) row'(2) by (auto simp: plan_of_row_def dest!: row_plan_fields)
  with row(1) row'(1) files have "row = row'"
    by (auto simp: files_sound_def plans_sound_def distinct_map dest: inj_onD)
  with row(2) row'(2) have "pl = pl'" by (simp add: plan_of_row_def)
  with fact(1) same eq kv planned_keys(2) [of book pl] row(2) show ?thesis
    by (auto simp: fact_of_plan_def plan_of_row_def dest: eq_key_imp_eq_value)
qed

section \<open>Runs that may be cut short\<close>

text \<open>
  A run keeps the state sound and only adds to it. It returns what is claimed of it, unless the process is
  ended, the fault hook raises or the receipt is one the admission refuses (\<open>g\<close> says it is not).
\<close>

definition undisturbed :: "projector \<Rightarrow> bool" where
  "undisturbed w \<longleftrightarrow> pj_writes_left w = None \<and> pj_fault w = None"

definition evolves :: "fact_tables \<Rightarrow> projector \<Rightarrow> fact_tables \<Rightarrow> projector \<Rightarrow> bool" where
  "evolves t w t' w' \<longleftrightarrow> facts_grow t t' \<and> store_grows (pj_store w) (pj_store w') \<and> (undisturbed w' = undisturbed w)"

definition runs :: "(string \<Rightarrow> delivery_receipt \<times> delivery_request) \<Rightarrow> bool \<Rightarrow> (fact_tables \<Rightarrow> projector \<Rightarrow> bool) \<Rightarrow>
    (projector, 'a) prog \<Rightarrow> ('a \<Rightarrow> fact_tables \<Rightarrow> projector \<Rightarrow> bool) \<Rightarrow> bool" where
  "runs book g P m Q \<longleftrightarrow> (\<forall>w t. projector_sound book w t \<and> P t w \<longrightarrow>
     (\<exists>t'. projector_sound book (snd (m w)) t' \<and> evolves t w t' (snd (m w)) \<and>
       (case fst (m w) of Inl e \<Rightarrow> g \<longrightarrow> \<not> undisturbed w | Inr x \<Rightarrow> Q x t' (snd (m w)))))"

lemma runsI:
  assumes "\<And>w t. projector_sound book w t \<Longrightarrow> P t w \<Longrightarrow>
     \<exists>t'. projector_sound book (snd (m w)) t' \<and> evolves t w t' (snd (m w)) \<and>
       (case fst (m w) of Inl e \<Rightarrow> g \<longrightarrow> \<not> undisturbed w | Inr x \<Rightarrow> Q x t' (snd (m w)))"
  shows "runs book g P m Q"
  using assms by (simp add: runs_def)

lemma runsD:
  assumes "runs book g P m Q" and "projector_sound book w t" and "P t w"
  obtains t' where "projector_sound book (snd (m w)) t'" and "evolves t w t' (snd (m w))"
    and "case fst (m w) of Inl e \<Rightarrow> g \<longrightarrow> \<not> undisturbed w | Inr x \<Rightarrow> Q x t' (snd (m w))"
  using assms unfolding runs_def by blast

lemma evolves_refl [simp]: "evolves t w t w"
  by (simp add: evolves_def)

lemma evolves_trans: "evolves t w t' w' \<Longrightarrow> evolves t' w' t'' w'' \<Longrightarrow> evolves t w t'' w''"
  by (auto simp: evolves_def intro: facts_grow_trans store_grows_trans)

lemma runs_bind:
  assumes "runs book g P m R" and "\<And>x. runs book g (R x) (f x) Q"
  shows "runs book g P (bindP m f) Q"
proof (rule runsI)
  fix w t
  assume w: "projector_sound book w t" "P t w"
  from runsD [OF assms(1) w] obtain t1 where t1: "projector_sound book (snd (m w)) t1" "evolves t w t1 (snd (m w))"
    and res: "case fst (m w) of Inl e \<Rightarrow> g \<longrightarrow> \<not> undisturbed w | Inr x \<Rightarrow> R x t1 (snd (m w))" .
  show "\<exists>t'. projector_sound book (snd (bindP m f w)) t' \<and> evolves t w t' (snd (bindP m f w)) \<and>
       (case fst (bindP m f w) of Inl e \<Rightarrow> g \<longrightarrow> \<not> undisturbed w | Inr x \<Rightarrow> Q x t' (snd (bindP m f w)))"
  proof (cases "fst (m w)")
    case (Inl e)
    then have run: "bindP m f w = (Inl e, snd (m w))" by (metis bindP_raise prod.collapse)
    with t1 res Inl show ?thesis by auto
  next
    case (Inr x)
    then have run: "bindP m f w = f x (snd (m w))" by (metis bindP_return prod.collapse)
    from res Inr have "R x t1 (snd (m w))" by simp
    from runsD [OF assms(2) t1(1) this] obtain t2 where t2: "projector_sound book (snd (f x (snd (m w)))) t2"
      "evolves t1 (snd (m w)) t2 (snd (f x (snd (m w))))"
      "case fst (f x (snd (m w))) of Inl e \<Rightarrow> g \<longrightarrow> \<not> undisturbed (snd (m w)) | Inr y \<Rightarrow> Q y t2 (snd (f x (snd (m w))))" .
    moreover have "undisturbed (snd (m w)) = undisturbed w" using t1(2) by (simp add: evolves_def)
    ultimately show ?thesis unfolding run using evolves_trans [OF t1(2) t2(2)] by (intro exI [of _ t2]) (auto split: sum.splits)
  qed
qed

lemma runs_weaken:
  assumes "runs book g P' m Q'" and "\<And>t w. P t w \<Longrightarrow> P' t w" and "\<And>x t w. Q' x t w \<Longrightarrow> Q x t w"
  shows "runs book g P m Q"
proof (rule runsI)
  fix w t
  assume w: "projector_sound book w t" "P t w"
  from runsD [OF assms(1) w(1) assms(2) [OF w(2)]] obtain t' where "projector_sound book (snd (m w)) t'"
    "evolves t w t' (snd (m w))" "case fst (m w) of Inl e \<Rightarrow> g \<longrightarrow> \<not> undisturbed w | Inr x \<Rightarrow> Q' x t' (snd (m w))" .
  then show "\<exists>t'. projector_sound book (snd (m w)) t' \<and> evolves t w t' (snd (m w)) \<and>
       (case fst (m w) of Inl e \<Rightarrow> g \<longrightarrow> \<not> undisturbed w | Inr x \<Rightarrow> Q x t' (snd (m w)))"
    by (intro exI [of _ t']) (auto split: sum.splits intro: assms(3))
qed

lemma runs_return: "(\<And>t w. P t w \<Longrightarrow> Q x t w) \<Longrightarrow> runs book g P (returnP x) Q"
  unfolding runs_def by auto

lemma runs_read:
  assumes "\<And>t w x. projector_sound book w t \<Longrightarrow> P t w \<Longrightarrow> f w = Inr x \<Longrightarrow> Q x t w"
    and "\<And>t w e. projector_sound book w t \<Longrightarrow> P t w \<Longrightarrow> f w = Inl e \<Longrightarrow> g \<Longrightarrow> \<not> undisturbed w"
  shows "runs book g P (readP f) Q"
proof (rule runsI)
  fix w t
  assume w: "projector_sound book w t" "P t w"
  then show "\<exists>t'. projector_sound book (snd (readP f w)) t' \<and> evolves t w t' (snd (readP f w)) \<and>
       (case fst (readP f w) of Inl e \<Rightarrow> g \<longrightarrow> \<not> undisturbed w | Inr x \<Rightarrow> Q x t' (snd (readP f w)))"
    using assms by (intro exI [of _ t]) (simp split: sum.split)
qed

lemma runs_lift: "(\<And>t w x. P t w \<Longrightarrow> r = Inr x \<Longrightarrow> Q x t w) \<Longrightarrow> (\<And>e. r = Inl e \<Longrightarrow> \<not> g) \<Longrightarrow> runs book g P (liftP r) Q"
  by (rule runsI, rule exI, rule conjI) (auto split: sum.split)

lemma runs_raise: "\<not> g \<Longrightarrow> runs book g P (raiseP e) Q"
  unfolding runs_def by auto

lemma runs_pure: "(\<phi> \<Longrightarrow> runs book g P m Q) \<Longrightarrow> runs book g (\<lambda>t w. P t w \<and> \<phi>) m Q"
  by (cases \<phi>) (simp_all add: runs_def)


section \<open>The writes\<close>

definition open_plan :: "(string \<Rightarrow> delivery_receipt \<times> delivery_request) \<Rightarrow> frozen_plan \<Rightarrow> projector \<Rightarrow> bool" where
  "open_plan book pl w \<longleftrightarrow> (\<exists>row \<in> set (pt_plans (pj_store w)). plan_of_row book row pl) \<and>
     \<not> has_projection (fp_receipt_id pl) (pj_store w)"

lemma holds_same: "ft_observations t' = ft_observations t \<Longrightarrow> holds_observation t' ob = holds_observation t ob"
  by (simp add: holds_observation_def find_observation_def)

lemma counted_same:
  assumes "ft_observations t' = ft_observations t"
  shows "counted book t' p kv = counted book t p kv"
  by (simp add: counted_def holds_same [OF assms])

lemma holds_appended:
  assumes "observation_to_row ob = Inr row" and "observation_whole ob" and "ft_observations t' = ft_observations t @ [row]"
    and "\<not> has_observation_key t (ob_scope ob) (ob_id ob)"
  shows "holds_observation t' x \<longleftrightarrow> holds_observation t x \<or> x = ob"
proof -
  note key = observation_row_fields [OF assms(1)] and reads = observation_round_trip [OF assms(2,1)]
  have none: "find (\<lambda>r. observation_row_key r = (scope_values (ob_scope ob), ob_id ob)) (ft_observations t) = None"
    using assms(4) by (force simp: has_observation_key_def find_None_iff)
  have "holds_observation t' x \<longleftrightarrow> holds_observation t x \<or>
      (find (\<lambda>r. observation_row_key r = (scope_values (ob_scope x), ob_id x)) (ft_observations t) = None \<and>
       observation_row_key row = (scope_values (ob_scope x), ob_id x) \<and> observation_from_row row = Inr x)"
    by (auto simp: holds_observation_def find_observation_def assms(3) find_append bindR_Inr_iff split: option.splits)
  then show ?thesis using key reads none by auto
qed

text \<open>An evidence alone does not matter to the counters.\<close>

lemma sound_evidence_only:
  assumes w: "projector_sound book w t" and t1: "facts_sound t1" "facts_grow t t1" "ft_observations t1 = ft_observations t"
  shows "projector_sound book (w\<lparr>pj_facts := (pj_facts w)\<lparr>fs_backend := Some t1\<rparr>, pj_writes_left := left\<rparr>) t1"
proof -
  have rows: "counter_rows t1 = counter_rows t" by (simp add: counter_rows_def t1(3))
  from w have s: "caches_sound (pj_facts w) t" "facts_planned book t (pj_store w)" "markers_earned book t (pj_store w)"
    "plans_sound book (pj_store w)" "counters_cached (pj_facts w) t"
    by (simp_all add: projector_sound_def service_sound_def files_sound_def)
  have "caches_sound ((pj_facts w)\<lparr>fs_backend := Some t1\<rparr>) t1"
    using s(1) by (simp add: caches_backend caches_grow [OF t1(2)])
  moreover have "facts_planned book t1 (pj_store w)" using s(2) by (simp add: facts_planned_def rows)
  moreover have "markers_earned book t1 (pj_store w)" using s(3) by (simp add: markers_earned_def counted_same [OF t1(3)])
  moreover have "counters_cached ((pj_facts w)\<lparr>fs_backend := Some t1\<rparr>) t1"
    using s(5) by (simp add: counters_cached_def holds_same [OF t1(3)])
  ultimately show ?thesis using s t1(1) by (simp add: projector_sound_def service_sound_def files_sound_def)
qed

lemma sound_new_counter:
  assumes w: "projector_sound book w t" and bk: "book_ok book" and plan: "open_plan book pl w" and fact: "fact_of_plan book pl (k, v) ob"
    and new: "\<not> has_observation_key t (ob_scope ob) (ob_id ob)" and row: "observation_to_row ob = Inr row"
    and t2: "facts_sound t2" "facts_grow t t2" "ft_observations t2 = ft_observations t @ [row]" "holds_observation t2 ob"
  shows "projector_sound book (w\<lparr>pj_facts := remember_observation ob ((pj_facts w)\<lparr>fs_backend := Some t2\<rparr>), pj_writes_left := left\<rparr>) t2"
proof -
  have sc: "scope_valid (dr_scope (fst (book (fp_receipt_id pl))))" using bk by (simp add: book_ok_def)
  note made = operational_observation_row [OF fact [unfolded fact_of_plan_def fst_conv snd_conv, THEN conjunct2] sc]
  have counter: "counter_fact ob" by (simp add: counter_fact_def made(4) op_id_def starts_with_def)
  have rows: "counter_rows t2 = counter_rows t @ [row]"
    using counter counter_row_of [OF row] by (simp add: counter_rows_def t2(3))
  from w have s: "caches_sound (pj_facts w) t" "facts_planned book t (pj_store w)" "markers_earned book t (pj_store w)"
    "plans_sound book (pj_store w)" "counters_cached (pj_facts w) t"
    by (simp_all add: projector_sound_def service_sound_def files_sound_def)
  have uncached: "(ob_scope ob, ob_id ob) \<notin> set (map fst (fs_observations (pj_facts w)))"
  proof
    assume "(ob_scope ob, ob_id ob) \<in> set (map fst (fs_observations (pj_facts w)))"
    then obtain x where x: "((ob_scope ob, ob_id ob), x) \<in> set (fs_observations (pj_facts w))" by force
    with s(1) have same: "ob_scope x = ob_scope ob" "ob_id x = ob_id ob" by (auto simp: caches_sound_def list_all_iff)
    then have "counter_fact x" by (simp add: counter_fact_def made(4) op_id_def starts_with_def)
    moreover have "((ob_scope x, ob_id x), x) \<in> set (fs_observations (pj_facts w))" using x same by simp
    ultimately have "holds_observation t x" using s(5) by (auto simp: counters_cached_def)
    from holds_key(1) [OF this] new same show False by simp
  qed
  then have obs: "fs_observations (remember_observation ob ((pj_facts w)\<lparr>fs_backend := Some t2\<rparr>)) =
      fs_observations (pj_facts w) @ [((ob_scope ob, ob_id ob), ob)]"
    by (simp add: remember_observation_def store_append_def map_of_eq_None_iff)
  have file_is: "fs_backend (remember_observation ob ((pj_facts w)\<lparr>fs_backend := Some t2\<rparr>)) = Some t2"
    by (simp add: remember_observation_def)
  have "caches_sound (remember_observation ob ((pj_facts w)\<lparr>fs_backend := Some t2\<rparr>)) t2"
    using caches_grow [OF t2(2) s(1)] t2(4) by (simp add: caches_sound_def obs)
  moreover have "facts_planned book t2 (pj_store w)"
    using s(2) plan fact row unfolding facts_planned_def rows open_plan_def set_append list.set by blast
  moreover have "markers_earned book t2 (pj_store w)"
    using s(3) counted_grows [OF t2(2)] unfolding markers_earned_def by blast
  moreover have "counters_cached (remember_observation ob ((pj_facts w)\<lparr>fs_backend := Some t2\<rparr>)) t2"
    using s(5) by (auto simp: counters_cached_def obs holds_appended [OF row made(1) t2(3) new])
  ultimately show ?thesis using s t2(1) uncached
    by (simp add: projector_sound_def service_sound_def files_sound_def obs file_is)
qed

lemma admit_counter_cases:
  assumes w: "projector_sound book w t" and bk: "book_ok book" and plan: "open_plan book pl w" and kv: "(k, v) \<in> set (fp_facts pl)"
    and r: "r = fst (book (fp_receipt_id pl))"
  obtains (refused) e where "admit_operational_fact k v q r (Some (fp_settled_at pl)) (pj_facts w) = (Inl e, pj_facts w)"
      and "\<not> (delivery_receipt_valid r \<and> settled_ok r q)"
  | (cached) ob where "admit_operational_fact k v q r (Some (fp_settled_at pl)) (pj_facts w) = (Inr ob, pj_facts w)"
      and "counted book t pl (k, v)"
  | (added) ob t1 t2 row where "admit_operational_fact k v q r (Some (fp_settled_at pl)) (pj_facts w) =
        (Inr ob, remember_observation ob ((pj_facts w)\<lparr>fs_backend := Some t2\<rparr>))"
      and "fact_of_plan book pl (k, v) ob" and "\<not> has_observation_key t (ob_scope ob) (ob_id ob)" and "observation_to_row ob = Inr row"
      and "facts_sound t2" and "facts_grow t t2" and "ft_observations t2 = ft_observations t @ [row]" and "holds_observation t2 ob"
      and "facts_sound t1" and "facts_grow t t1" and "ft_observations t1 = ft_observations t" and "t1 = t\<lparr>ft_evidence := ft_evidence t2\<rparr>"
proof -
  let ?s = "pj_facts w"
  from plan obtain prow where prow: "prow \<in> set (pt_plans (pj_store w))" "plan_of_row book prow pl" by (auto simp: open_plan_def)
  have aware: "is_aware_utc (fp_settled_at pl)"
    using prow(2) by (auto simp: plan_of_row_def frozen_plan_checks_def dest!: row_plan_fields)
  have kv': "k \<in> set allowed_operational_keys" "non_empty v" using planned_keys(3) kv prow(2) by (auto simp: plan_of_row_def)
  have sc: "scope_valid (dr_scope r)" and rid: "dr_receipt_id r = fp_receipt_id pl" using bk by (simp_all add: book_ok_def r)
  from w have s: "fs_backend ?s = Some t" "facts_sound t" "caches_sound ?s t" "counters_cached ?s t" "files_sound book t (pj_store w)"
    by (simp_all add: projector_sound_def service_sound_def)
  let ?good = "delivery_receipt_valid r \<and> settled_ok r q"
  have good: "\<exists>e. counter_gate k v q r (fp_settled_at pl) = Inr e" "\<exists>ob. operational_observation k v r (fp_settled_at pl) = Inr ob" if ?good
    using gate_clear [OF _ _ kv' aware] that by blast+
  show thesis
  proof (cases "counter_gate k v q r (fp_settled_at pl)")
    case (Inl e)
    then show thesis using good by (intro refused [of e]) (auto simp: admit_operational_gate)
  next
    case gate: (Inr e)
    note e = counter_gate_key [OF gate]
    show thesis
    proof (cases "map_of (fs_observations ?s) (dr_scope r, ''op-'' @ dr_receipt_id r @ ''-'' @ k)")
      case (Some ob)
      from map_of_SomeD [OF this] s(3) have ob: "((ob_scope ob, ob_id ob), ob) \<in> set (fs_observations ?s)"
        "ob_id ob = ''op-'' @ fp_receipt_id pl @ ''-'' @ k" by (auto simp: caches_sound_def list_all_iff rid)
      then have "counter_fact ob" by (simp add: counter_fact_def op_id_def starts_with_def)
      with s(4) ob(1) have held: "holds_observation t ob" by (simp add: counters_cached_def)
      from counter_unique [OF s(5) bk prow kv held ob(2)] held have "counted book t pl (k, v)" by (auto simp: counted_def)
      with Some gate show thesis by (intro cached [of ob]) (simp_all add: admit_operational_gate)
    next
      case None
      show thesis
      proof (cases "operational_observation k v r (fp_settled_at pl)")
        case (Inl err)
        with None gate good show thesis by (intro refused [of err]) (auto simp: admit_operational_gate bindP_def)
      next
        case (Inr ob)
        note made = operational_observation_row [OF Inr sc]
        have new: "\<not> has_observation_key t (ob_scope ob) (ob_id ob)"
        proof
          assume taken: "has_observation_key t (ob_scope ob) (ob_id ob)"
          have "scope_valid (ob_scope ob)" by (simp add: made(3) sc)
          from find_observation_cases [OF s(2) this, of "ob_id ob"] taken obtain x where x: "ob_scope x = ob_scope ob"
            "ob_id x = ob_id ob" "holds_observation t x" by blast
          then have "counter_fact x" by (simp add: counter_fact_def made(4) op_id_def starts_with_def)
          with s(4) x(3) have "((ob_scope x, ob_id x), x) \<in> set (fs_observations ?s)" by (simp add: counters_cached_def)
          then have "map_of (fs_observations ?s) (ob_scope x, ob_id x) \<noteq> None"
            by (auto simp: map_of_eq_None_iff intro: rev_image_eqI)
          with None x made(3,4) show False by simp
        qed
        obtain t1 t2 row where st: "store_operational e ob ?s = (Inr (), ?s\<lparr>fs_backend := Some t2\<rparr>)"
          "facts_sound t1" "facts_grow t t1" "ft_observations t1 = ft_observations t" "observation_to_row ob = Inr row"
          "t2 = t1\<lparr>ft_observations := ft_observations t1 @ [row]\<rparr>" "facts_sound t2" "facts_grow t t2" "holds_observation t2 ob"
          "ft_evidence t2 = ft_evidence t1" "ft_interactions t1 = ft_interactions t"
          using store_operational_cases [OF s(1,2) sc e [THEN conjunct1] Inr new] by blast
        have run: "admit_operational_fact k v q r (Some (fp_settled_at pl)) ?s = (Inr ob, remember_observation ob (?s\<lparr>fs_backend := Some t2\<rparr>))"
          using None by (simp add: admit_operational_gate gate Inr bindP_def st(1))
        have whole: "t1 = t\<lparr>ft_evidence := ft_evidence t2\<rparr>" using st(4,10,11) by (cases t; cases t1) simp
        have fact: "fact_of_plan book pl (k, v) ob" using Inr kv by (simp add: fact_of_plan_def r)
        have obs: "ft_observations t2 = ft_observations t @ [row]" by (simp add: st(4,6))
        from added [OF run fact new st(5,7,8) obs st(9,2,3,4) whole] show thesis .
      qed
    qed
  qed
qed


lemma runs_fact:
  assumes bk: "book_ok book" and kv: "(k, v) \<in> set (fp_facts pl)" and r: "r = fst (book (fp_receipt_id pl))"
  shows "runs book (delivery_receipt_valid r \<and> settled_ok r q)
     (\<lambda>t w. open_plan book pl w \<and> (\<forall>kv \<in> K. counted book t pl kv))
     (fact_write (admit_operational_fact k v q r (Some (fp_settled_at pl))))
     (\<lambda>_ t w. open_plan book pl w \<and> (\<forall>kv \<in> insert (k, v) K. counted book t pl kv))"
proof (rule runsI)
  fix w t
  assume w: "projector_sound book w t" and pre: "open_plan book pl w \<and> (\<forall>kv \<in> K. counted book t pl kv)"
  let ?m = "fact_write (admit_operational_fact k v q r (Some (fp_settled_at pl)))"
  let ?goal = "\<lambda>res. \<exists>t'. projector_sound book (snd res) t' \<and> evolves t w t' (snd res) \<and>
      (case fst res of Inl e \<Rightarrow> delivery_receipt_valid r \<and> settled_ok r q \<longrightarrow> \<not> undisturbed w
       | Inr _ \<Rightarrow> open_plan book pl (snd res) \<and> (\<forall>kv \<in> insert (k, v) K. counted book t' pl kv))"
  have open_any: "open_plan book pl (w\<lparr>pj_facts := s, pj_writes_left := left\<rparr>)" for s left
    using pre by (simp add: open_plan_def)
  have unchanged: "projector_sound book (w\<lparr>pj_facts := pj_facts w, pj_writes_left := left\<rparr>) t" for left
    using w by (simp add: projector_sound_def)
  have steady: "evolves t w t' (w\<lparr>pj_facts := s, pj_writes_left := map_option f (pj_writes_left w)\<rparr>)" if "facts_grow t t'" for t' s and f :: "nat \<Rightarrow> nat"
    using that by (simp add: evolves_def undisturbed_def)
  have ended: "evolves t w t' (w\<lparr>pj_facts := s, pj_writes_left := Some n\<rparr>)" if "facts_grow t t'" "pj_writes_left w \<noteq> None" for t' s n
    using that by (simp add: evolves_def undisturbed_def)
  have same: "w\<lparr>pj_facts := pj_facts w\<rparr> = w" by simp
  show "?goal (?m w)"
  proof (cases "pj_writes_left w = Some 0")
    case True
    then have "?m w = (Inl process_ended, w)" by (simp add: fact_write_def)
    with w True show ?thesis by (auto simp: undisturbed_def)
  next
    case alive: False
    from w bk pre[THEN conjunct1] kv r show ?thesis
    proof (cases rule: admit_counter_cases [where q = q])
      case (refused e)
      with alive have "?m w = (Inl e, w)" by (auto simp: fact_write_def split: option.split nat.split)
      with refused(2) w show ?thesis by auto
    next
      case (cached ob)
      show ?thesis
      proof (cases "pj_writes_left w = Some 1")
        case True
        obtain t0 where "fs_backend (pj_facts w) = Some t0" using w by (simp add: projector_sound_def service_sound_def)
        then have "evidence_only (pj_facts w) (pj_facts w) = pj_facts w" by (simp add: evidence_only_def)
        with True cached(1) have "?m w = (Inl process_ended, w\<lparr>pj_facts := pj_facts w, pj_writes_left := Some 0\<rparr>)"
          by (simp add: fact_write_def)
        with unchanged [of "Some 0"] ended [OF facts_grow_refl, of 0 "pj_facts w"] True show ?thesis
          by (intro exI [of _ t]) (simp add: undisturbed_def)
      next
        case False
        with cached(1) alive have "?m w = (Inr (), w\<lparr>pj_facts := pj_facts w, pj_writes_left := map_option (\<lambda>n. n - 2) (pj_writes_left w)\<rparr>)"
          by (auto simp: fact_write_def split: option.split nat.split)
        moreover have "evolves t w t (w\<lparr>pj_facts := pj_facts w, pj_writes_left := map_option (\<lambda>n. n - 2) (pj_writes_left w)\<rparr>)"
          by (rule steady [OF facts_grow_refl])
        moreover have "open_plan book pl (w\<lparr>pj_facts := pj_facts w, pj_writes_left := map_option (\<lambda>n. n - 2) (pj_writes_left w)\<rparr>)"
          by (rule open_any)
        ultimately show ?thesis
          using unchanged pre cached(2) by (intro exI [of _ t]) simp
      qed
    next
      case (added ob t1 t2 row)
      have t: "fs_backend (pj_facts w) = Some t" using w by (simp add: projector_sound_def service_sound_def)
      show ?thesis
      proof (cases "pj_writes_left w = Some 1")
        case True
        have "evidence_only (pj_facts w) (remember_observation ob ((pj_facts w)\<lparr>fs_backend := Some t2\<rparr>)) = (pj_facts w)\<lparr>fs_backend := Some t1\<rparr>"
          using added(12) by (simp add: evidence_only_def t remember_observation_def)
        with True added(1) have "?m w = (Inl process_ended, w\<lparr>pj_facts := (pj_facts w)\<lparr>fs_backend := Some t1\<rparr>, pj_writes_left := Some 0\<rparr>)"
          by (simp add: fact_write_def)
        with sound_evidence_only [OF w added(9-11)] ended [OF added(10)] True show ?thesis
          by (intro exI [of _ t1]) (simp add: undisturbed_def)
      next
        case False
        with added(1) alive have "?m w = (Inr (), w\<lparr>pj_facts := remember_observation ob ((pj_facts w)\<lparr>fs_backend := Some t2\<rparr>),
            pj_writes_left := map_option (\<lambda>n. n - 2) (pj_writes_left w)\<rparr>)"
          by (auto simp: fact_write_def split: option.split nat.split)
        moreover have "counted book t2 pl (k, v)" using added(2,8) by (auto simp: counted_def)
        moreover have "\<forall>kv \<in> K. counted book t2 pl kv" using pre counted_grows [OF added(6)] by blast
        ultimately show ?thesis
          using sound_new_counter [OF w bk pre[THEN conjunct1] added(2-8)] steady [OF added(6)] open_any by (intro exI [of _ t2]) simp
      qed
    qed
  qed
qed

lemma runs_facts:
  assumes bk: "book_ok book" and r: "r = fst (book (fp_receipt_id pl))" and pl: "plan_for book pl" and "set fs \<subseteq> set (fp_facts pl)"
  shows "runs book (delivery_receipt_valid r \<and> settled_ok r q)
     (\<lambda>t w. open_plan book pl w \<and> (\<forall>kv \<in> K. counted book t pl kv))
     (eachP (\<lambda>(k, v). admit_counter_fact k v r q (fp_settled_at pl)) fs)
     (\<lambda>_ t w. open_plan book pl w \<and> (\<forall>kv \<in> K \<union> set fs. counted book t pl kv))"
  using assms(4)
proof (induction fs arbitrary: K)
  case Nil
  show ?case unfolding eachP.simps by (rule runs_return) simp
next
  case (Cons kv fs)
  obtain k v where kv: "kv = (k, v)" by (cases kv)
  with Cons.prems have mem: "(k, v) \<in> set (fp_facts pl)" by simp
  from planned_keys(3) [OF pl mem] have "k \<noteq> ''''" "v \<noteq> ''''" by (auto simp: allowed_operational_keys_def)
  then have head: "(case kv of (k, v) \<Rightarrow> admit_counter_fact k v r q (fp_settled_at pl)) =
      fact_write (admit_operational_fact k v q r (Some (fp_settled_at pl)))" by (simp add: kv admit_counter_fact_def)
  have tail: "runs book (delivery_receipt_valid r \<and> settled_ok r q)
     (\<lambda>t w. open_plan book pl w \<and> (\<forall>kv \<in> insert (k, v) K. counted book t pl kv))
     (eachP (\<lambda>(k, v). admit_counter_fact k v r q (fp_settled_at pl)) fs)
     (\<lambda>_ t w. open_plan book pl w \<and> (\<forall>kv \<in> insert (k, v) K \<union> set fs. counted book t pl kv))"
    using Cons.IH [of "insert (k, v) K"] Cons.prems by simp
  show ?case
    unfolding eachP.simps head
    by (rule runs_bind [OF runs_fact [OF bk mem r]], rule runs_bind [OF tail], rule runs_return) (simp add: kv)
qed


lemma runs_store:
  assumes "\<And>w t. projector_sound book w t \<Longrightarrow> P t w \<Longrightarrow> \<exists>p'. m (pj_store w) = (Inr (), p') \<and> files_sound book t p' \<and>
      store_grows (pj_store w) p' \<and> (\<forall>left. Q t (w\<lparr>pj_store := p', pj_writes_left := left\<rparr>))"
  shows "runs book g P (store_write m) (\<lambda>_. Q)"
proof (rule runsI)
  fix w t
  assume w: "projector_sound book w t" "P t w"
  from assms [OF this] obtain p' where p': "m (pj_store w) = (Inr (), p')" "files_sound book t p'" "store_grows (pj_store w) p'"
    "\<And>left. Q t (w\<lparr>pj_store := p', pj_writes_left := left\<rparr>)" by blast
  show "\<exists>t'. projector_sound book (snd (store_write m w)) t' \<and> evolves t w t' (snd (store_write m w)) \<and>
       (case fst (store_write m w) of Inl e \<Rightarrow> g \<longrightarrow> \<not> undisturbed w | Inr _ \<Rightarrow> Q t' (snd (store_write m w)))"
  proof (cases "pj_writes_left w = Some 0")
    case True
    with w show ?thesis by (intro exI [of _ t]) (simp add: store_write_def undisturbed_def)
  next
    case False
    with p'(1) have "store_write m w = (Inr (), w\<lparr>pj_store := p', pj_writes_left := map_option (\<lambda>n. n - 1) (pj_writes_left w)\<rparr>)"
      by (auto simp: store_write_def split: option.split nat.split)
    with w p' show ?thesis
      by (intro exI [of _ t]) (simp add: projector_sound_def evolves_def undisturbed_def)
  qed
qed

text \<open>A new marker.\<close>

definition marked :: "frozen_plan \<Rightarrow> projector \<Rightarrow> bool" where
  "marked pl w \<longleftrightarrow> has_projection (fp_receipt_id pl) (pj_store w)"

lemma runs_record:
  assumes x: "all_clear (projection_record_checks x)" "scope_valid (pr_scope x)" "pr_sync_version x = 1" "pr_receipt_id x = fp_receipt_id pl"
  shows "runs book g (\<lambda>t w. open_plan book pl w \<and> (\<forall>kv \<in> set (fp_facts pl). counted book t pl kv))
     (store_write (record_projection x)) (\<lambda>_ t w. marked pl w)"
proof (rule runs_store)
  fix w t
  assume w: "projector_sound book w t" and pre: "open_plan book pl w \<and> (\<forall>kv \<in> set (fp_facts pl). counted book t pl kv)"
  from record_round_trip [OF x(2,1)] obtain row where row: "record_to_row x = Inr row" "row_to_record row = Inr x" by blast
  then have fields: "prr_receipt_id row = fp_receipt_id pl" "prr_sync_version row = 1"
    using x(3,4) by (auto simp: record_to_row_def bindR_Inr_iff)
  have reopen: "all_clear (reopen_checks row)"
    using x(1) row(1) by (auto simp: reopen_checks_def record_to_row_def bindR_Inr_iff projection_record_checks_def)
  let ?p = "pj_store w" and ?p' = "(pj_store w)\<lparr>pt_records := pt_records (pj_store w) @ [row]\<rparr>"
  have unmarked: "\<not> has_projection (fp_receipt_id pl) ?p" using pre by (simp add: open_plan_def)
  have run: "record_projection x ?p = (Inr (), ?p')"
    using unmarked by (simp add: record_projection_def bindP_def row(1) fields x(4))
  have has: "has_projection i ?p \<Longrightarrow> has_projection i ?p'" for i by (simp add: has_projection_def)
  from w have files: "facts_sound t" "plans_sound book ?p" "facts_planned book t ?p" "markers_earned book t ?p"
    by (simp_all add: projector_sound_def files_sound_def)
  have "plans_sound book ?p'" using files(2) has by (simp add: plans_sound_def)
  moreover have "facts_planned book t ?p'" using files(3) by (simp add: facts_planned_def)
  moreover have "markers_earned book t ?p'"
  proof -
    from pre obtain prow where "prow \<in> set (pt_plans ?p)" "plan_of_row book prow pl" by (auto simp: open_plan_def)
    then show ?thesis
      using files(4) unmarked reopen row(2) pre fields by (auto simp: markers_earned_def has_projection_def)
  qed
  ultimately have "files_sound book t ?p'" using files(1) by (simp add: files_sound_def)
  moreover have "store_grows ?p ?p'" by (auto simp: store_grows_def holds_plan_def)
  moreover have "marked pl (w\<lparr>pj_store := ?p', pj_writes_left := left\<rparr>)" for left
    by (simp add: marked_def has_projection_def fields)
  ultimately show "\<exists>p'. record_projection x ?p = (Inr (), p') \<and> files_sound book t p' \<and> store_grows ?p p' \<and>
      (\<forall>left. marked pl (w\<lparr>pj_store := p', pj_writes_left := left\<rparr>))"
    using run by blast
qed

text \<open>Completing a plan changes none of its immutable fields.\<close>

lemma completed_row: "row_to_frozen_plan row = Inr pl \<Longrightarrow> row_to_frozen_plan (row\<lparr>plr_completed := 1\<rparr>) = Inr (pl\<lparr>fp_completed := True\<rparr>)"
  by (auto simp: row_to_frozen_plan_def bindR_Inr_iff mk_frozen_plan_def guarded_Inr_iff frozen_plan_checks_def)

lemma completed_plan [simp]:
  "plan_for book (pl\<lparr>fp_completed := c\<rparr>) = plan_for book pl"
  "fact_of_plan book (pl\<lparr>fp_completed := c\<rparr>) kv ob = fact_of_plan book pl kv ob"
  "counted book t (pl\<lparr>fp_completed := c\<rparr>) kv = counted book t pl kv"
  by (simp_all add: plan_for_def fact_of_plan_def counted_def)

definition complete_row :: "string \<Rightarrow> plan_row \<Rightarrow> plan_row" where
  "complete_row i r = (if plr_receipt_id r = i then r\<lparr>plr_completed := 1\<rparr> else r)"

lemma complete_row_plan: "plan_of_row book row pl \<Longrightarrow>
    \<exists>c. plan_of_row book (complete_row i row) (pl\<lparr>fp_completed := c\<rparr>)"
  by (cases "plr_receipt_id row = i")
    (auto simp: complete_row_def plan_of_row_def dest: completed_row intro: exI [of _ "fp_completed pl"])

lemma runs_complete:
  assumes "non_empty (fp_receipt_id pl)"
  shows "runs book g (\<lambda>t w. marked pl w) (store_write (mark_plan_completed (fp_receipt_id pl))) (\<lambda>_ t w. marked pl w)"
proof (rule runs_store)
  fix w t
  assume w: "projector_sound book w t" and pre: "marked pl w"
  let ?i = "fp_receipt_id pl" and ?p = "pj_store w"
  let ?p' = "(pj_store w)\<lparr>pt_plans := map (complete_row ?i) (pt_plans (pj_store w))\<rparr>"
  have run: "mark_plan_completed ?i ?p = (Inr (), ?p')"
    using assms by (simp add: mark_plan_completed_def bindP_def guarded_clear complete_row_def [abs_def])
  from w have files: "facts_sound t" "plans_sound book ?p" "facts_planned book t ?p" "markers_earned book t ?p"
    by (simp_all add: projector_sound_def files_sound_def)
  have ids: "plr_receipt_id (complete_row ?i row) = plr_receipt_id row" for row by (simp add: complete_row_def)
  have has: "has_projection i ?p' = has_projection i ?p" for i by (simp add: has_projection_def)
  have "plans_sound book ?p'"
  proof -
    have "distinct (map plr_receipt_id (pt_plans ?p'))" using files(2) by (simp add: plans_sound_def comp_def ids)
    moreover have "(\<exists>pl. plan_of_row book (complete_row ?i row) pl) \<and>
        (plr_completed (complete_row ?i row) \<noteq> 0 \<longrightarrow> has_projection (plr_receipt_id row) ?p)" if "row \<in> set (pt_plans ?p)" for row
    proof
      from files(2) that obtain pl' where pl': "plan_of_row book row pl'"
        and fin: "plr_completed row \<noteq> 0 \<Longrightarrow> has_projection (plr_receipt_id row) ?p" by (auto simp: plans_sound_def)
      from complete_row_plan [OF pl'] show "\<exists>pl. plan_of_row book (complete_row ?i row) pl" by blast
      show "plr_completed (complete_row ?i row) \<noteq> 0 \<longrightarrow> has_projection (plr_receipt_id row) ?p"
        using fin pre by (auto simp: complete_row_def marked_def)
    qed
    ultimately show ?thesis by (simp add: plans_sound_def has ids)
  qed
  moreover have "facts_planned book t ?p'"
    unfolding facts_planned_def
  proof
    fix x
    assume "x \<in> set (counter_rows t)"
    with files(3) obtain row pl' kv ob where row: "row \<in> set (pt_plans ?p)" "plan_of_row book row pl'"
      and fact: "fact_of_plan book pl' kv ob" "observation_to_row ob = Inr x" unfolding facts_planned_def by blast
    from complete_row_plan [OF row(2)] obtain c where "plan_of_row book (complete_row ?i row) (pl'\<lparr>fp_completed := c\<rparr>)" by blast
    moreover have "complete_row ?i row \<in> set (pt_plans ?p')" "fact_of_plan book (pl'\<lparr>fp_completed := c\<rparr>) kv ob"
      using row(1) fact(1) by simp_all
    ultimately show "\<exists>row \<in> set (pt_plans ?p'). \<exists>pl kv ob.
       plan_of_row book row pl \<and> fact_of_plan book pl kv ob \<and> observation_to_row ob = Inr x"
      using fact(2) by blast
  qed
  moreover have "markers_earned book t ?p'"
  proof -
    have "\<exists>row \<in> set (pt_plans ?p'). \<exists>pl. plan_of_row book row pl \<and> fp_receipt_id pl = prr_receipt_id x \<and>
         (\<forall>kv \<in> set (fp_facts pl). counted book t pl kv)" if x: "x \<in> set (pt_records ?p)" for x
    proof -
      from files(4) x obtain row pl' where row: "row \<in> set (pt_plans ?p)" "plan_of_row book row pl'" "fp_receipt_id pl' = prr_receipt_id x"
         "\<forall>kv \<in> set (fp_facts pl'). counted book t pl' kv" unfolding markers_earned_def by blast
      from complete_row_plan [OF row(2)] obtain c where "plan_of_row book (complete_row ?i row) (pl'\<lparr>fp_completed := c\<rparr>)" by blast
      with row show ?thesis
        by (intro bexI [of _ "complete_row ?i row"] exI [of _ "pl'\<lparr>fp_completed := c\<rparr>"]) auto
    qed
    with files(4) show ?thesis by (simp add: markers_earned_def)
  qed
  ultimately have "files_sound book t ?p'" using files(1) by (simp add: files_sound_def)
  moreover have "store_grows ?p ?p'"
  proof -
    have "holds_plan ?p' q" if "holds_plan ?p q" for q
    proof -
      from that obtain row pl' where row: "row \<in> set (pt_plans ?p)" "row_to_frozen_plan row = Inr pl'" "frozen_plan_equivalent pl' q"
        by (auto simp: holds_plan_def)
      have "\<exists>pl''. row_to_frozen_plan (complete_row ?i row) = Inr pl'' \<and> frozen_plan_equivalent pl'' q"
        using completed_row [OF row(2)] row(2,3) by (cases "plr_receipt_id row = ?i") (simp_all add: complete_row_def frozen_plan_equivalent_def)
      moreover have "complete_row ?i row \<in> set (pt_plans ?p')" using row(1) by simp
      ultimately show ?thesis unfolding holds_plan_def by blast
    qed
    then show ?thesis by (simp add: store_grows_def)
  qed
  moreover have "marked pl (w\<lparr>pj_store := ?p', pj_writes_left := left\<rparr>)" for left
    using pre by (simp add: marked_def has)
  ultimately show "\<exists>p'. mark_plan_completed ?i ?p = (Inr (), p') \<and> files_sound book t p' \<and> store_grows ?p p' \<and>
      (\<forall>left. marked pl (w\<lparr>pj_store := p', pj_writes_left := left\<rparr>))"
    using run by blast
qed


text \<open>A new plan.\<close>

definition unplanned :: "string \<Rightarrow> projector \<Rightarrow> bool" where
  "unplanned i w \<longleftrightarrow> i \<notin> set (map plr_receipt_id (pt_plans (pj_store w))) \<and> \<not> has_projection i (pj_store w)"

lemma facts_planned_mono:
  assumes "facts_planned book t p" and "set (pt_plans p) \<subseteq> set (pt_plans p')"
  shows "facts_planned book t p'"
  using assms unfolding facts_planned_def by blast

lemma markers_earned_mono:
  assumes m: "markers_earned book t p" and "set (pt_plans p) \<subseteq> set (pt_plans p')" and "pt_records p' = pt_records p"
  shows "markers_earned book t p'"
proof -
  have "\<exists>row \<in> set (pt_plans p'). \<exists>pl. plan_of_row book row pl \<and> fp_receipt_id pl = prr_receipt_id x \<and>
      (\<forall>kv \<in> set (fp_facts pl). counted book t pl kv)" if "x \<in> set (pt_records p)" for x
    using m that assms(2) unfolding markers_earned_def by blast
  with m show ?thesis by (simp add: markers_earned_def assms(3))
qed

lemma runs_plan:
  assumes pl: "plan_for book pl" "all_clear (frozen_plan_checks pl)" "\<not> fp_completed pl"
  shows "runs book g (\<lambda>t w. unplanned (fp_receipt_id pl) w) (store_write (record_frozen_plan pl)) (\<lambda>_ t w. open_plan book pl w)"
proof (rule runs_store)
  fix w t
  assume w: "projector_sound book w t" and pre: "unplanned (fp_receipt_id pl) w"
  have "is_aware_utc (fp_settled_at pl)" using pl(2) by (simp add: frozen_plan_checks_def)
  then obtain row where row: "plan_to_row pl = Inr row" by (simp add: plan_to_row_def)
  from plan_round_trip [OF pl(2) row] have reads: "row_to_frozen_plan row = Inr pl" .
  note fields = row_plan_fields [OF reads]
  let ?p = "pj_store w" and ?p' = "(pj_store w)\<lparr>pt_plans := pt_plans (pj_store w) @ [row]\<rparr>"
  have "find (\<lambda>r. plr_receipt_id r = fp_receipt_id pl) (pt_plans ?p) = None"
    using pre by (force simp: unplanned_def find_None_iff)
  then have run: "record_frozen_plan pl ?p = (Inr (), ?p')"
    using pl(2) by (simp add: record_frozen_plan_def get_frozen_plan_any_def frozen_plan_checks_def guarded_clear read_plan_def bindP_def row)
  from w have files: "facts_sound t" "plans_sound book ?p" "facts_planned book t ?p" "markers_earned book t ?p"
    by (simp_all add: projector_sound_def files_sound_def)
  have has: "has_projection i ?p' = has_projection i ?p" for i by (simp add: has_projection_def)
  have mine: "plan_of_row book row pl" using reads pl(1) by (simp add: plan_of_row_def)
  have "plans_sound book ?p'"
    using files(2) pre fields pl(3) mine by (auto simp: plans_sound_def has unplanned_def)
  moreover have "set (pt_plans ?p) \<subseteq> set (pt_plans ?p')" "pt_records ?p' = pt_records ?p" by auto
  then have "facts_planned book t ?p'" "markers_earned book t ?p'"
    using files(3,4) by (auto intro: facts_planned_mono markers_earned_mono)
  ultimately have "files_sound book t ?p'" using files(1) by (simp add: files_sound_def)
  moreover have "store_grows ?p ?p'" by (auto simp: store_grows_def holds_plan_def)
  moreover have "open_plan book pl (w\<lparr>pj_store := ?p', pj_writes_left := left\<rparr>)" for left
    using mine pre by (simp add: open_plan_def has unplanned_def)
  ultimately show "\<exists>p'. record_frozen_plan pl ?p = (Inr (), p') \<and> files_sound book t p' \<and> store_grows ?p p' \<and>
      (\<forall>left. open_plan book pl (w\<lparr>pj_store := p', pj_writes_left := left\<rparr>))"
    using run by blast
qed

section \<open>A projection\<close>

definition good_receipt :: "datetime \<Rightarrow> delivery_receipt \<Rightarrow> delivery_request \<Rightarrow> bool" where
  "good_receipt now r q \<longleftrightarrow> delivery_receipt_valid r \<and> settled_ok r q \<and> is_aware_utc now"

lemma runs_good:
  assumes "runs book g' P m Q" and "g \<Longrightarrow> g'"
  shows "runs book g P m Q"
proof (rule runsI)
  fix w t
  assume w: "projector_sound book w t" "P t w"
  from runsD [OF assms(1) w] obtain t' where "projector_sound book (snd (m w)) t'"
    "evolves t w t' (snd (m w))" "case fst (m w) of Inl e \<Rightarrow> g' \<longrightarrow> \<not> undisturbed w | Inr x \<Rightarrow> Q x t' (snd (m w))" .
  with assms(2) show "\<exists>t'. projector_sound book (snd (m w)) t' \<and> evolves t w t' (snd (m w)) \<and>
       (case fst (m w) of Inl e \<Rightarrow> g \<longrightarrow> \<not> undisturbed w | Inr x \<Rightarrow> Q x t' (snd (m w)))"
    by (intro exI [of _ t']) (auto split: sum.splits)
qed

lemma runs_finish:
  assumes bk: "book_ok book" and pl: "plan_for book pl" "all_clear (frozen_plan_checks pl)"
    and rq: "book (fp_receipt_id pl) = (r, q)"
  shows "runs book (good_receipt now r q) (\<lambda>t w. open_plan book pl w \<and> (\<forall>kv \<in> set (fp_facts pl). counted book t pl kv))
     (finish_projection now r q (fp_settled_at pl) (fp_facts pl) fresh)
     (\<lambda>out t w. marked pl w \<and> (po_applied out \<or> po_already_applied out))"
proof -
  have rid: "dr_receipt_id r = fp_receipt_id pl" and sc: "scope_valid (rq_scope q)"
    using bk rq unfolding book_ok_def by (metis fst_conv, metis snd_conv)
  obtain k v kvs where kv: "fp_facts pl = (k, v) # kvs" using planned_keys(1) [OF pl(1)] by (cases "fp_facts pl") auto
  from planned_keys(3) [OF pl(1), of k v] kv have k: "non_empty k" "non_empty v"
    by (auto simp: allowed_operational_keys_def non_empty_eval)
  let ?x = "\<lparr>pr_receipt_id = dr_receipt_id r, pr_request_id = rq_request_id q, pr_message_id = rq_message_id q,
        pr_scope = rq_scope q, pr_origin_runtime_id = rq_origin_runtime_id q, pr_counter_key = k,
        pr_counter_value = v, pr_settled_at = fp_settled_at pl, pr_projected_at = now, pr_sync_version = 1\<rparr>"
  have clear: "all_clear (projection_record_checks ?x)" if "good_receipt now r q"
    using that k pl(2) by (auto simp: good_receipt_def settled_ok_def delivery_receipt_valid_iff projection_record_checks_def frozen_plan_checks_def)
  have err: "guarded cs z = Inl e \<Longrightarrow> \<not> all_clear cs" for cs z e by (auto simp: guarded_clear)
  let ?P = "\<lambda>t w. open_plan book pl w \<and> (\<forall>kv \<in> set (fp_facts pl). counted book t pl kv)"
  have first: "runs book (good_receipt now r q) ?P
     (liftP (case fp_facts pl of [] \<Rightarrow> Inl (RuntimeError ''IndexError: tuple index out of range'') | p # ps \<Rightarrow> Inr p))
     (\<lambda>kv t w. ?P t w \<and> kv = (k, v))"
    by (rule runs_lift) (auto simp: kv)
  have second: "runs book (good_receipt now r q) ?P (liftP (guarded [require_aware_utc now ''clock.now()''] ())) (\<lambda>_. ?P)"
    by (rule runs_lift) (auto dest!: err simp: good_receipt_def)
  have third: "runs book (good_receipt now r q) ?P (liftP (mk_projection_record ?x)) (\<lambda>x t w. ?P t w \<and> (x = ?x \<and> all_clear (projection_record_checks ?x)))"
    by (rule runs_lift) (auto dest!: err clear simp: mk_projection_record_def guarded_Inr_iff)
  have stored: "runs book (good_receipt now r q) ?P (store_write (record_projection ?x)) (\<lambda>_ t w. marked pl w)"
    if "all_clear (projection_record_checks ?x)"
    using that sc by (intro runs_record) (simp_all add: rid)
  have complete: "runs book (good_receipt now r q) (\<lambda>t w. marked pl w) (store_write (mark_plan_completed (dr_receipt_id r))) (\<lambda>_ t w. marked pl w)"
    unfolding rid using pl(2) by (intro runs_complete) (simp add: frozen_plan_checks_def)
  show ?thesis
    unfolding finish_projection_def
    by (rule runs_bind [OF first], clarify, rule runs_pure, clarify, rule runs_bind [OF second], rule runs_bind [OF third],
        rule runs_pure, clarify, rule runs_bind [OF stored], assumption, rule runs_bind [OF complete], rule runs_return, simp)
qed

lemma runs_write_facts:
  assumes bk: "book_ok book" and pl: "plan_for book pl" "all_clear (frozen_plan_checks pl)"
    and rq: "book (fp_receipt_id pl) = (r, q)"
  shows "runs book (good_receipt now r q) (\<lambda>t w. open_plan book pl w)
     (write_facts now r q (fp_settled_at pl) (fp_facts pl) fresh)
     (\<lambda>out t w. marked pl w \<and> (po_applied out \<or> po_already_applied out))"
proof -
  have r: "r = fst (book (fp_receipt_id pl))" by (simp add: rq)
  have "runs book (delivery_receipt_valid r \<and> settled_ok r q) (\<lambda>t w. open_plan book pl w)
     (eachP (\<lambda>(k, v). admit_counter_fact k v r q (fp_settled_at pl)) (fp_facts pl))
     (\<lambda>_ t w. open_plan book pl w \<and> (\<forall>kv \<in> set (fp_facts pl). counted book t pl kv))"
    using runs_facts [OF bk r pl(1) order_refl, of q "{}"] by simp
  then have "runs book (good_receipt now r q) (\<lambda>t w. open_plan book pl w)
     (eachP (\<lambda>(k, v). admit_counter_fact k v r q (fp_settled_at pl)) (fp_facts pl))
     (\<lambda>_ t w. open_plan book pl w \<and> (\<forall>kv \<in> set (fp_facts pl). counted book t pl kv))"
    by (rule runs_good) (simp add: good_receipt_def)
  then show ?thesis
    unfolding write_facts_def by (rule runs_bind) (rule runs_finish [OF assms])
qed

lemma get_plan_sound:
  assumes p: "plans_sound book p" and i: "non_empty i"
  obtains (none) "get_frozen_plan i p = Inr None" and "get_frozen_plan_any i p = Inr None" and "i \<notin> set (map plr_receipt_id (pt_plans p))"
  | (pending) pl row where "get_frozen_plan i p = Inr (Some pl)" and "row \<in> set (pt_plans p)" and "plan_of_row book row pl" and "fp_receipt_id pl = i"
  | (finished) "get_frozen_plan i p = Inr None" and "has_projection i p"
proof (cases "find (incomplete_row i) (pt_plans p)")
  case (Some row)
  then have row: "row \<in> set (pt_plans p)" "incomplete_row i row" by (auto dest: find_SomeD)
  with p obtain pl where pl: "plan_of_row book row pl" unfolding plans_sound_def by blast
  with row(2) have "row_to_frozen_plan row = Inr pl" "fp_receipt_id pl = i"
    by (auto simp: plan_of_row_def incomplete_row_def dest: row_plan_fields)
  with Some row pl i show thesis by (intro pending) (simp_all add: get_frozen_plan_def read_plan_def guarded_clear)
next
  case None
  then have open_none: "get_frozen_plan i p = Inr None" using i by (simp add: get_frozen_plan_def read_plan_def guarded_clear)
  show thesis
  proof (cases "find (\<lambda>r. plr_receipt_id r = i) (pt_plans p)")
    case None
    then have "i \<notin> set (map plr_receipt_id (pt_plans p))" by (auto simp: find_None_iff)
    with None open_none i show thesis by (intro none) (simp_all add: get_frozen_plan_any_def read_plan_def guarded_clear)
  next
    case (Some row)
    then have row: "row \<in> set (pt_plans p)" "plr_receipt_id row = i" by (auto dest: find_SomeD)
    with \<open>find (incomplete_row i) (pt_plans p) = None\<close> have "plr_completed row \<noteq> 0"
      by (auto simp: find_None_iff incomplete_row_def)
    with p row have "has_projection i p" by (auto simp: plans_sound_def)
    with open_none show thesis by (rule finished)
  qed
qed


lemma derived_facts:
  "is_known_action_type (rq_action_type q) \<Longrightarrow> \<exists>n. derive_new_counter_facts q t s = planned_facts (rq_action_type q) n t"
  by (auto simp: derive_new_counter_facts_def planned_facts_def is_known_action_type_def Let_def)

lemma planned_facts_nonempty [simp]: "planned_facts a n t \<noteq> []"
  by (simp add: planned_facts_def)

text \<open>A plan in the store stays there.\<close>

lemma runs_keep_plan:
  assumes "runs book g P m Q"
  shows "runs book g (\<lambda>t w. P t w \<and> holds_plan (pj_store w) pl) m (\<lambda>x t w. Q x t w \<and> holds_plan (pj_store w) pl)"
proof (rule runsI)
  fix w t
  assume w: "projector_sound book w t" "P t w \<and> holds_plan (pj_store w) pl"
  from runsD [OF assms w(1)] w(2) obtain t' where t': "projector_sound book (snd (m w)) t'" "evolves t w t' (snd (m w))"
    "case fst (m w) of Inl e \<Rightarrow> g \<longrightarrow> \<not> undisturbed w | Inr x \<Rightarrow> Q x t' (snd (m w))" by blast
  moreover have "holds_plan (pj_store (snd (m w))) pl" using t'(2) w(2) by (simp add: evolves_def store_grows_def)
  ultimately show "\<exists>t'. projector_sound book (snd (m w)) t' \<and> evolves t w t' (snd (m w)) \<and>
      (case fst (m w) of Inl e \<Rightarrow> g \<longrightarrow> \<not> undisturbed w | Inr x \<Rightarrow> Q x t' (snd (m w)) \<and> holds_plan (pj_store (snd (m w))) pl)"
    by (intro exI [of _ t']) (auto split: sum.splits)
qed

lemma runs_whatever: "(\<And>F. runs book g (\<lambda>t w. P t w \<and> f w = F) m Q) \<Longrightarrow> runs book g P m Q"
  unfolding runs_def by blast

lemma runs_project_new_facts:
  assumes bk: "book_ok book" and rq: "book i = (r, q)" and sent: "dr_delivery_status r = SENT"
  shows "runs book (good_receipt now r q)
     (\<lambda>t w. unplanned i w \<and> derive_new_counter_facts q (settlement_time r q) (pj_facts w) = F) (project_new now r q)
     (\<lambda>out t w. has_projection i (pj_store w) \<and> (po_applied out \<or> po_already_applied out) \<and>
       (\<exists>pl. holds_plan (pj_store w) pl \<and> fp_receipt_id pl = i \<and> fp_facts pl = F))"
proof -
  have rid: "dr_receipt_id r = i" using bk rq unfolding book_ok_def by (metis fst_conv)
  have err: "guarded cs z = Inl e \<Longrightarrow> \<not> all_clear cs" for cs z e by (auto simp: guarded_clear)
  let ?s = "settlement_time r q"
  let ?plan = "\<lambda>facts. \<lparr>fp_receipt_id = dr_receipt_id r, fp_request_id = rq_request_id q, fp_action_type = rq_action_type q,
          fp_settled_at = ?s, fp_facts = facts, fp_completed = False\<rparr>"
  let ?P = "\<lambda>t w. unplanned i w \<and> derive_new_counter_facts q ?s (pj_facts w) = F"
  have checks: "all_clear (action_checks r q)" if "good_receipt now r q"
    using that by (auto simp: good_receipt_def settled_ok_def delivery_receipt_valid_iff action_checks_def settlement_time_def
        is_known_action_type_def)
  have first: "runs book (good_receipt now r q) ?P (liftP (guarded (action_checks r q) ?s))
     (\<lambda>u t w. ?P t w \<and> (u = ?s \<and> is_known_action_type (rq_action_type q)))"
    by (rule runs_lift) (auto dest!: err simp: guarded_Inr_iff checks, simp add: action_checks_def)
  have second: "runs book (good_receipt now r q) ?P
      (readP (\<lambda>w. Inr (derive_new_counter_facts q ?s (pj_facts w))))
      (\<lambda>facts t w. unplanned i w \<and> (facts = F \<and> (\<exists>n. facts = planned_facts (rq_action_type q) n ?s)))" if "is_known_action_type (rq_action_type q)"
    using derived_facts [OF that] by (intro runs_read) auto
  have third: "runs book (good_receipt now r q) (\<lambda>t w. unplanned i w) (liftP (mk_frozen_plan (?plan facts)))
      (\<lambda>pl t w. unplanned i w \<and> (pl = ?plan facts \<and> all_clear (frozen_plan_checks pl)))"
    if known: "is_known_action_type (rq_action_type q)" and facts: "facts = planned_facts (rq_action_type q) n ?s" for facts n
  proof (rule runs_lift)
    fix e
    assume "mk_frozen_plan (?plan facts) = Inl e"
    then have bad: "\<not> all_clear (frozen_plan_checks (?plan facts))" by (auto simp: mk_frozen_plan_def dest: err)
    show "\<not> good_receipt now r q"
    proof
      assume good: "good_receipt now r q"
      have "all_clear (map (\<lambda>(k, v). (k = [] \<or> v = [], ValueError ''frozen plan fact pair must be (str, str) of non-empty values'')) facts)"
        using non_empty_not_Nil [OF isoformat_non_empty] by (simp add: facts planned_facts_def cadence_counter_key_def cooldown_fact_key_def)
      moreover have "non_empty (rq_action_type q)" using known by (auto simp: is_known_action_type_def non_empty_eval)
      ultimately show False using good bad checks [OF good]
        by (simp add: good_receipt_def settled_ok_def delivery_receipt_valid_iff frozen_plan_checks_def action_checks_def)
    qed
  qed (auto simp: mk_frozen_plan_def guarded_Inr_iff)
  have rest: "runs book (good_receipt now r q) (\<lambda>t w. unplanned i w)
      (bindP (store_write (record_frozen_plan pl)) (\<lambda>_. bindP (fault_after_plan r q) (\<lambda>_. write_facts now r q ?s facts True)))
      (\<lambda>out t w. has_projection i (pj_store w) \<and> (po_applied out \<or> po_already_applied out) \<and>
       (\<exists>pl. holds_plan (pj_store w) pl \<and> fp_receipt_id pl = i \<and> fp_facts pl = facts))"
    if known: "is_known_action_type (rq_action_type q)" and facts: "facts = planned_facts (rq_action_type q) n ?s"
      and pl: "pl = ?plan facts" "all_clear (frozen_plan_checks pl)" for facts n pl
  proof -
    have mine: "plan_for book pl" "\<not> fp_completed pl" and id_is: "fp_receipt_id pl = i" and at_is: "fp_settled_at pl = ?s"
      and facts_are: "fp_facts pl = facts"
      using known facts sent rq by (auto simp: pl(1) plan_for_def rid)
    have hook: "runs book (good_receipt now r q) (\<lambda>t w. open_plan book pl w) (fault_after_plan r q) (\<lambda>_ t w. open_plan book pl w)"
      unfolding fault_after_plan_def by (rule runs_read) (auto simp: undisturbed_def split: option.splits)
    have "runs book (good_receipt now r q) (\<lambda>t w. open_plan book pl w) (write_facts now r q ?s facts True)
        (\<lambda>out t w. has_projection i (pj_store w) \<and> (po_applied out \<or> po_already_applied out))"
      using runs_write_facts [OF bk mine(1) pl(2), of r q now True] rq by (simp add: id_is at_is facts_are marked_def)
    from runs_keep_plan [OF runs_bind [OF hook this], of pl] have after: "runs book (good_receipt now r q) (\<lambda>t w. open_plan book pl w)
       (bindP (fault_after_plan r q) (\<lambda>_. write_facts now r q ?s facts True)) (\<lambda>out t w. has_projection i (pj_store w) \<and> (po_applied out \<or> po_already_applied out) \<and>
                (\<exists>pl. holds_plan (pj_store w) pl \<and> fp_receipt_id pl = i \<and> fp_facts pl = facts))"
    proof (rule runs_weaken)
      fix t w
      assume "open_plan book pl w"
      then show "open_plan book pl w \<and> holds_plan (pj_store w) pl"
        by (auto simp: open_plan_def holds_plan_def plan_of_row_def frozen_plan_equivalent_def)
    qed (use id_is facts_are in blast)
    from runs_bind [OF runs_plan [OF mine(1) pl(2) mine(2), unfolded id_is] after] show ?thesis .
  qed
  show ?thesis
    unfolding project_new_def
    by (rule runs_bind [OF first], rule runs_pure, clarify, rule runs_bind [OF second], assumption, rule runs_pure, clarify,
        simp only: planned_facts_nonempty if_False, rule runs_bind [OF third [OF _ refl]], assumption, rule runs_pure, clarify,
        rule rest [OF _ refl refl], assumption+)
qed

lemma runs_project_new:
  assumes "book_ok book" and "book i = (r, q)" and "dr_delivery_status r = SENT"
  shows "runs book (good_receipt now r q) (\<lambda>t w. unplanned i w) (project_new now r q)
     (\<lambda>out t w. has_projection i (pj_store w) \<and> (po_applied out \<or> po_already_applied out))"
  by (rule runs_whatever, rule runs_weaken [OF runs_project_new_facts [OF assms]]) auto

lemma runs_project:
  assumes bk: "book_ok book" and rq: "book i = (r, q)"
  shows "runs book (good_receipt now r q) (\<lambda>t w. True) (project now r q)
     (\<lambda>out t w. dr_delivery_status r = SENT \<longrightarrow> has_projection i (pj_store w) \<and> (po_applied out \<or> po_already_applied out))"
proof (cases "dr_delivery_status r = SENT")
  case False
  then show ?thesis by (simp add: project_def runs_return)
next
  case sent: True
  have rid: "dr_receipt_id r = i" using bk rq unfolding book_ok_def by (metis fst_conv)
  have ne: "non_empty i" if "good_receipt now r q" using that rid by (auto simp: good_receipt_def delivery_receipt_valid_iff)
  let ?g = "good_receipt now r q" and ?Q = "\<lambda>out t w. has_projection i (pj_store w) \<and> (po_applied out \<or> po_already_applied out)"
  have read: "runs book ?g (\<lambda>t w. True) (readP (\<lambda>w. Inr (has_projection i (pj_store w)))) (\<lambda>m t w. m = has_projection i (pj_store w))"
    by (rule runs_read) auto
  have applied: "runs book ?g (\<lambda>t w. has_projection i (pj_store w)) (readP (\<lambda>w. already_applied_outcome r (pj_store w))) ?Q"
  proof (rule runs_read)
    fix t w x
    assume w: "projector_sound book w t" "has_projection i (pj_store w)" "already_applied_outcome r (pj_store w) = Inr x"
    then show "?Q x t w" by (auto simp: already_applied_outcome_def bindR_Inr_iff split: option.splits)
  next
    fix t w e
    assume w: "projector_sound book w t" "has_projection i (pj_store w)" "already_applied_outcome r (pj_store w) = Inl e"
    then obtain row where row: "find (\<lambda>r. prr_receipt_id r = i) (pt_records (pj_store w)) = Some row" "row \<in> set (pt_records (pj_store w))"
      by (cases "find (\<lambda>r. prr_receipt_id r = i) (pt_records (pj_store w))") (auto simp: has_projection_def find_None_iff dest: find_SomeD)
    with w(1) obtain rec where "row_to_record row = Inr rec" unfolding projector_sound_def files_sound_def markers_earned_def by blast
    with row(1) w(3) show "\<not> undisturbed w" by (simp add: already_applied_outcome_def get_projection_def rid)
  qed
  have fresh: "runs book ?g (\<lambda>t w. unplanned i w) (project_new now r q) ?Q" by (rule runs_project_new [OF assms sent])
  have inner: "runs book ?g (\<lambda>t w. \<not> has_projection i (pj_store w))
     (bindP (readP (\<lambda>w. get_frozen_plan i (pj_store w))) (\<lambda>plan. case plan of
           Some p \<Rightarrow> write_facts now r q (fp_settled_at p) (fp_facts p) False
         | None \<Rightarrow> bindP (readP (\<lambda>w. get_frozen_plan_any i (pj_store w))) (\<lambda>any_plan.
             if (case any_plan of Some p \<Rightarrow> fp_completed p | None \<Rightarrow> False)
             then raiseP (ValueError ''projection inconsistent for receipt_id: the frozen plan is completed=True but the idempotency marker is absent'')
             else project_new now r q))) ?Q"
  proof (cases "non_empty i")
    case False
    then have fail: "\<exists>e. get_frozen_plan i p = Inl e" for p
      by (cases "guarded [require_non_empty i ''receipt_id''] ()") (auto simp: get_frozen_plan_def guarded_Inr_iff)
    have "runs book ?g (\<lambda>t w. \<not> has_projection i (pj_store w)) (readP (\<lambda>w. get_frozen_plan i (pj_store w))) (\<lambda>_ _ _. False)"
    proof (rule runs_read)
      fix t w x
      assume "get_frozen_plan i (pj_store w) = Inr x"
      with fail [of "pj_store w"] show False by auto
    next
      fix t w e
      assume "?g"
      with ne False show "\<not> undisturbed w" by simp
    qed
    then show ?thesis by (rule runs_bind) (simp add: runs_def)
  next
    case True
    let ?R = "\<lambda>plan t w. case plan of
        Some p \<Rightarrow> open_plan book p w \<and> (plan_for book p \<and> all_clear (frozen_plan_checks p) \<and> fp_receipt_id p = i)
      | None \<Rightarrow> unplanned i w \<and> get_frozen_plan_any i (pj_store w) = Inr None"
    have get: "runs book ?g (\<lambda>t w. \<not> has_projection i (pj_store w)) (readP (\<lambda>w. get_frozen_plan i (pj_store w))) ?R"
    proof (rule runs_read)
      fix t w x
      assume w: "projector_sound book w t" "\<not> has_projection i (pj_store w)" "get_frozen_plan i (pj_store w) = Inr x"
      then have "plans_sound book (pj_store w)" by (simp add: projector_sound_def files_sound_def)
      from this True show "?R x t w"
        by (cases rule: get_plan_sound)
          (use w in \<open>auto simp: unplanned_def open_plan_def plan_of_row_def dest: row_plan_fields\<close>)
    next
      fix t w e
      assume w: "projector_sound book w t" "\<not> has_projection i (pj_store w)" "get_frozen_plan i (pj_store w) = Inl e"
      then have "plans_sound book (pj_store w)" by (simp add: projector_sound_def files_sound_def)
      from this True show "\<not> undisturbed w" by (cases rule: get_plan_sound) (use w in auto)
    qed
    show ?thesis
    proof (rule runs_bind [OF get])
      fix plan
      show "runs book ?g (?R plan) (case plan of
           Some p \<Rightarrow> write_facts now r q (fp_settled_at p) (fp_facts p) False
         | None \<Rightarrow> bindP (readP (\<lambda>w. get_frozen_plan_any i (pj_store w))) (\<lambda>any_plan.
             if (case any_plan of Some p \<Rightarrow> fp_completed p | None \<Rightarrow> False)
             then raiseP (ValueError ''projection inconsistent for receipt_id: the frozen plan is completed=True but the idempotency marker is absent'')
             else project_new now r q)) ?Q"
      proof (cases plan)
        case (Some p)
        have "runs book ?g (\<lambda>t w. open_plan book p w) (write_facts now r q (fp_settled_at p) (fp_facts p) False) ?Q"
          if "plan_for book p \<and> all_clear (frozen_plan_checks p) \<and> fp_receipt_id p = i"
          using runs_write_facts [OF bk, of p r q now False] that rq by (simp add: marked_def)
        then show ?thesis unfolding Some option.case by (intro runs_pure)
      next
        case None
        have again: "runs book ?g (\<lambda>t w. unplanned i w \<and> get_frozen_plan_any i (pj_store w) = Inr None)
            (readP (\<lambda>w. get_frozen_plan_any i (pj_store w))) (\<lambda>any_plan t w. unplanned i w \<and> any_plan = None)"
          by (rule runs_read) auto
        show ?thesis
          unfolding None option.case by (rule runs_bind [OF again], rule runs_pure) (simp add: fresh)
      qed
    qed
  qed
  have whole: "project now r q = bindP (readP (\<lambda>w. Inr (has_projection i (pj_store w)))) (\<lambda>m.
      if m then readP (\<lambda>w. already_applied_outcome r (pj_store w)) else (bindP (readP (\<lambda>w. get_frozen_plan i (pj_store w))) (\<lambda>plan. case plan of
           Some p \<Rightarrow> write_facts now r q (fp_settled_at p) (fp_facts p) False
         | None \<Rightarrow> bindP (readP (\<lambda>w. get_frozen_plan_any i (pj_store w))) (\<lambda>any_plan.
             if (case any_plan of Some p \<Rightarrow> fp_completed p | None \<Rightarrow> False)
             then raiseP (ValueError ''projection inconsistent for receipt_id: the frozen plan is completed=True but the idempotency marker is absent'')
             else project_new now r q))))"
    by (simp only: project_def sent rid simp_thms if_False not_True_eq_False)
  have "runs book ?g (\<lambda>t w. m = has_projection i (pj_store w)) (if m then readP (\<lambda>w. already_applied_outcome r (pj_store w)) else (bindP (readP (\<lambda>w. get_frozen_plan i (pj_store w))) (\<lambda>plan. case plan of
           Some p \<Rightarrow> write_facts now r q (fp_settled_at p) (fp_facts p) False
         | None \<Rightarrow> bindP (readP (\<lambda>w. get_frozen_plan_any i (pj_store w))) (\<lambda>any_plan.
             if (case any_plan of Some p \<Rightarrow> fp_completed p | None \<Rightarrow> False)
             then raiseP (ValueError ''projection inconsistent for receipt_id: the frozen plan is completed=True but the idempotency marker is absent'')
             else project_new now r q)))) ?Q" for m
  proof (cases m)
    case True
    with applied show ?thesis by simp
  next
    case False
    with inner show ?thesis by simp
  qed
  from runs_bind [OF read this] show ?thesis unfolding whole by (rule runs_weaken) simp_all
qed

end
