(* ===== verification/Projection_Safety.thy ===== *)
theory Projection_Safety
  imports Projection_History
begin

text \<open>
  The histories of a projector: what every one of them keeps, that a receipt can always be completed, and
  what goes wrong when receipts are interleaved or come out of order.
\<close>

section \<open>What a row of the file says\<close>

lemma holds_row:
  assumes "facts_sound t"
  shows "holds_observation t ob \<longleftrightarrow> (\<exists>r \<in> set (ft_observations t). observation_from_row r = Inr ob)"
proof
  assume "holds_observation t ob"
  then show "\<exists>r \<in> set (ft_observations t). observation_from_row r = Inr ob"
    by (auto simp: holds_observation_def find_observation_def bindR_Inr_iff dest!: find_SomeD split: option.splits)
next
  assume "\<exists>r \<in> set (ft_observations t). observation_from_row r = Inr ob"
  then obtain r where r: "r \<in> set (ft_observations t)" "observation_from_row r = Inr ob" by blast
  with assms obtain ob' where ob': "observation_whole ob'" "observation_to_row ob' = Inr r"
    by (auto simp: facts_sound_def observation_row_sound_def list_all_iff)
  with observation_round_trip r(2) have "ob' = ob" by fastforce
  moreover have "find (\<lambda>x. observation_row_key x = observation_row_key r) (ft_observations t) = Some r"
    using find_distinct_key r(1) assms by (auto simp: facts_sound_def)
  ultimately show "holds_observation t ob"
    using r(2) observation_row_fields [OF ob'(2)] by (simp add: holds_observation_def find_observation_def)
qed

lemma held_whole: "facts_sound t \<Longrightarrow> holds_observation t ob \<Longrightarrow> observation_whole ob"
  using observation_row_back(1) by (auto simp: holds_row facts_sound_def list_all_iff)

lemma holds_counter:
  assumes "facts_sound t" and "counter_fact ob"
  shows "holds_observation t ob \<longleftrightarrow> (\<exists>r \<in> set (counter_rows t). observation_from_row r = Inr ob)"
proof -
  have "counter_row r" if "observation_from_row r = Inr ob" "observation_row_sound r" for r
  proof -
    from that(2) obtain ob' where "observation_whole ob'" "observation_to_row ob' = Inr r" by (auto simp: observation_row_sound_def)
    with observation_round_trip that(1) counter_row_of assms(2) show ?thesis by fastforce
  qed
  with assms(1) show ?thesis
    unfolding holds_row [OF assms(1)] by (auto simp: counter_rows_def facts_sound_def list_all_iff)
qed

section \<open>Other calls and restarts\<close>

lemma sound_other_call:
  assumes w: "projector_sound book w t" and op: "list_all (\<lambda>r. op_id (obr_id r)) (counter_rows t)"
    and s': "service_sound s' t'" "facts_grow t t'" and frame: "counter_frame (counter_rows t) (counter_cache (pj_facts w)) s'"
  shows "projector_sound book (w\<lparr>pj_facts := s'\<rparr>) t'"
proof -
  from w have s: "facts_sound t" "facts_planned book t (pj_store w)" "markers_earned book t (pj_store w)"
    "plans_sound book (pj_store w)" "counters_cached (pj_facts w) t"
    by (simp_all add: projector_sound_def service_sound_def files_sound_def)
  have rows: "counter_rows t' = counter_rows t" and cache: "counter_cache s' = counter_cache (pj_facts w)"
    using frame s'(1) by (auto simp: counter_frame_def service_sound_def)
  have t': "facts_sound t'" using s'(1) by (simp add: service_sound_def)
  have "counters_cached s' t'"
    unfolding counters_cached_def
  proof (intro allI impI)
    fix ob
    assume c: "counter_fact ob"
    have "((ob_scope ob, ob_id ob), ob) \<in> set (fs_observations s') \<longleftrightarrow> ((ob_scope ob, ob_id ob), ob) \<in> set (counter_cache s')"
      using c by (auto simp: counter_cache_def)
    also have "\<dots> \<longleftrightarrow> ((ob_scope ob, ob_id ob), ob) \<in> set (fs_observations (pj_facts w))"
      unfolding cache using c by (auto simp: counter_cache_def)
    also have "\<dots> \<longleftrightarrow> holds_observation t ob" using s(5) c by (auto simp: counters_cached_def)
    also have "\<dots> \<longleftrightarrow> holds_observation t' ob" by (simp add: holds_counter c s(1) t' rows)
    finally show "((ob_scope ob, ob_id ob), ob) \<in> set (fs_observations s') \<longleftrightarrow> holds_observation t' ob" .
  qed
  moreover have "facts_planned book t' (pj_store w)" using s(2) by (simp add: facts_planned_def rows)
  moreover have "markers_earned book t' (pj_store w)"
    using s(3) counted_grows [OF s'(2)] unfolding markers_earned_def by blast
  ultimately show ?thesis using s(4) s'(1) t' by (simp add: projector_sound_def files_sound_def)
qed

lemma counter_rows_op:
  assumes bk: "book_ok book" and f: "facts_planned book t p"
  shows "list_all (\<lambda>r. op_id (obr_id r)) (counter_rows t)"
  unfolding list_all_iff
proof
  fix x
  assume "x \<in> set (counter_rows t)"
  with f obtain pl kv ob where fact: "fact_of_plan book pl kv ob" "observation_to_row ob = Inr x" unfolding facts_planned_def by blast
  have sc: "scope_valid (dr_scope (fst (book (fp_receipt_id pl))))" using bk by (simp add: book_ok_def)
  have "ob_id ob = ''op-'' @ dr_receipt_id (fst (book (fp_receipt_id pl))) @ ''-'' @ fst kv"
    using operational_observation_row(4) [OF _ sc] fact(1) unfolding fact_of_plan_def by blast
  moreover have "obr_id x = ob_id ob" using fact(2) by (auto simp: observation_to_row_def bindR_Inr_iff)
  ultimately show "op_id (obr_id x)" by (simp add: op_id_def starts_with_def)
qed

lemma load_succeeds:
  assumes "facts_sound t"
  shows "\<exists>s. new_fact_service (Some t) = Inr s"
proof -
  have ok: "\<exists>xs. mapR f rs = Inr xs" if "\<And>r. r \<in> set rs \<Longrightarrow> \<exists>x. f r = Inr x" for f :: "'a \<Rightarrow> 'b result" and rs
    using that mapR_Inl [of f rs] by (cases "mapR f rs") fastforce+
  have "\<exists>xs. load_evidence t = Inr xs"
    unfolding load_evidence_def
    by (rule ok) (use assms evidence_round_trip in \<open>fastforce simp: facts_sound_def evidence_row_sound_def list_all_iff\<close>)
  moreover have "\<exists>xs. load_observations t = Inr xs"
    unfolding load_observations_def
    by (rule ok) (use assms observation_round_trip in \<open>fastforce simp: facts_sound_def observation_row_sound_def list_all_iff\<close>)
  ultimately show ?thesis by (auto simp: new_fact_service_def Let_def)
qed

lemma new_service_held:
  assumes "new_fact_service (Some t) = Inr s" and "facts_sound t" and "(k, ob) \<in> set (fs_observations s)"
  shows "holds_observation t ob"
proof -
  from assms(1) obtain es obs where obs: "load_observations t = Inr obs"
    and s: "s = seeded es obs \<lparr>fs_evidence = [], fs_observations = [], fs_provenance = [], fs_backend = Some t\<rparr>"
    by (auto simp: new_fact_service_def Let_def bindR_Inr_iff)
  have only: "ob \<in> set obs \<or> (k, ob) \<in> set (fs_observations r)" if "(k, ob) \<in> set (fs_observations (fold remember_observation obs r))" for obs r
    using that
  proof (induction obs arbitrary: r)
    case (Cons x obs)
    then have "ob \<in> set obs \<or> (k, ob) \<in> set (fs_observations (remember_observation x r))" by simp
    then show ?case by (auto simp: remember_observation_def store_append_def split: if_splits)
  qed simp
  from only [of obs "fold (\<lambda>(e, i). remember_evidence e i) es \<lparr>fs_evidence = [], fs_observations = [], fs_provenance = [], fs_backend = Some t\<rparr>"]
    assms(3) have "ob \<in> set obs" by (simp add: s seeded_def fold_remember_evidence)
  with loaded_observations_held [OF obs assms(2)] show ?thesis by blast
qed

lemma started_sound:
  assumes t: "fs_backend (pj_facts p) = Some t" and files: "files_sound book t (pj_store p)"
  obtains s where "start_projector p = Inr \<lparr>pj_facts = s, pj_store = pj_store p, pj_fault = None, pj_writes_left = None\<rparr>"
    and "projector_sound book \<lparr>pj_facts = s, pj_store = pj_store p, pj_fault = None, pj_writes_left = None\<rparr> t"
proof -
  have sound: "facts_sound t" using files by (simp add: files_sound_def)
  from load_succeeds [OF sound] obtain s where s: "new_fact_service (Some t) = Inr s" by blast
  have "all_clear (concat (map reopen_checks xs))" if "\<forall>x \<in> set xs. all_clear (reopen_checks x)" for xs
    using that by (induction xs) auto
  then have "open_projections (pj_store p) = Inr ()"
    using files by (simp add: open_projections_def files_sound_def markers_earned_def guarded_clear)
  then have start: "start_projector p = Inr \<lparr>pj_facts = s, pj_store = pj_store p, pj_fault = None, pj_writes_left = None\<rparr>"
    by (simp add: start_projector_def t s)
  note step = new_service_in_step [OF s sound] and cached = new_service_sound [OF s sound]
  note parts = in_step_parts [OF step]
  have "counters_cached s t"
    unfolding counters_cached_def
  proof (intro allI impI iffI)
    fix ob
    assume c: "counter_fact ob" and "((ob_scope ob, ob_id ob), ob) \<in> set (fs_observations s)"
    then show "holds_observation t ob" using new_service_held [OF s sound] by blast
  next
    fix ob
    assume c: "counter_fact ob" and h: "holds_observation t ob"
    have "scope_valid (ob_scope ob)" using held_whole [OF sound h] by (rule observation_whole_scope)
    with h have "ledger_observations t (ob_scope ob, ob_id ob) = Some ob"
      by (simp add: ledger_observations_def holds_observation_def)
    with parts(4) have "map_of (fs_observations s) (ob_scope ob, ob_id ob) = Some ob" by simp
    then show "((ob_scope ob, ob_id ob), ob) \<in> set (fs_observations s)" by (rule map_of_SomeD)
  qed
  with files cached parts(1) sound show thesis
    by (intro that [OF start]) (simp add: projector_sound_def service_sound_def)
qed


section \<open>Steps\<close>

fun projection_step_valid :: "projection_step \<Rightarrow> bool" where
  "projection_step_valid (AdmitOther e i rt ps now) = evidence_valid e"
| "projection_step_valid (AdmitOtherReality q) = (reality_request_valid q \<and> \<not> op_id (rr_observation_id q))"
| "projection_step_valid _ = True"

definition world_ok :: "(string \<Rightarrow> delivery_receipt \<times> delivery_request) \<Rightarrow> projection_world \<Rightarrow> fact_tables \<Rightarrow> bool" where
  "world_ok book w t \<longleftrightarrow> fs_backend (pj_facts (pw_projector w)) = Some t \<and> files_sound book t (pj_store (pw_projector w)) \<and>
     (pw_alive w \<longrightarrow> projector_sound book (pw_projector w) t)"

lemma projector_sound_parts:
  "projector_sound book p t \<Longrightarrow> fs_backend (pj_facts p) = Some t \<and> files_sound book t (pj_store p)"
  by (simp add: projector_sound_def service_sound_def)

lemma world_okI: "projector_sound book (pw_projector w) t \<Longrightarrow> world_ok book w t"
  by (simp add: world_ok_def projector_sound_parts)

lemma sound_settings [simp]:
  "projector_sound book (p\<lparr>pj_fault := f, pj_writes_left := n\<rparr>) t = projector_sound book p t"
  by (simp add: projector_sound_def)

lemma other_call_ok:
  assumes bk: "book_ok book" and w: "world_ok book w t" and "pw_alive w"
    and s': "service_sound (snd (m (pj_facts (pw_projector w)))) t'" "facts_grow t t'"
    and frame: "\<And>F C. list_all (\<lambda>r. op_id (obr_id r)) F \<Longrightarrow> counter_frame F C (pj_facts (pw_projector w)) \<Longrightarrow>
      counter_frame F C (snd (m (pj_facts (pw_projector w))))"
  shows "world_ok book (other_call m w) t'"
proof -
  let ?p = "pw_projector w"
  have p: "projector_sound book ?p t" using w assms(3) by (simp add: world_ok_def)
  then have files: "facts_planned book t (pj_store ?p)" and fb: "fs_backend (pj_facts ?p) = Some t"
    by (simp_all add: projector_sound_def files_sound_def service_sound_def)
  note op = counter_rows_op [OF bk files]
  have "counter_frame (counter_rows t) (counter_cache (pj_facts ?p)) (pj_facts ?p)" by (simp add: counter_frame_def fb)
  from sound_other_call [OF p op s' frame [OF op this]] show ?thesis by (intro world_okI) (simp add: other_call_def)
qed

lemma step_ok:
  assumes bk: "book_ok book" and w: "world_ok book w t" and valid: "projection_step_valid step"
  shows "\<exists>t'. world_ok book (take_step book step w) t' \<and> facts_grow t t' \<and>
    store_grows (pj_store (pw_projector w)) (pj_store (pw_projector (take_step book step w)))"
proof (cases step)
  case StartProjector
  from w obtain s where "start_projector (pw_projector w) = Inr \<lparr>pj_facts = s, pj_store = pj_store (pw_projector w), pj_fault = None, pj_writes_left = None\<rparr>"
    and "projector_sound book \<lparr>pj_facts = s, pj_store = pj_store (pw_projector w), pj_fault = None, pj_writes_left = None\<rparr> t"
    by (auto simp: world_ok_def intro: started_sound)
  then show ?thesis by (intro exI [of _ t]) (simp add: StartProjector world_okI)
next
  case (ProjectReceipt i allowed fault now)
  show ?thesis
  proof (cases "pw_alive w")
    case False
    with w show ?thesis by (intro exI [of _ t]) (simp add: ProjectReceipt)
  next
    case True
    obtain r q where rq: "book i = (r, q)" by (cases "book i")
    let ?p = "(pw_projector w)\<lparr>pj_fault := map_option (\<lambda>e r q. Some e) fault, pj_writes_left := allowed\<rparr>"
    have "projector_sound book ?p t" using w True by (simp add: world_ok_def)
    from runsD [OF runs_project [OF bk rq, of now] this TrueI] obtain t' where
      t': "projector_sound book (snd (project now r q ?p)) t'" "evolves t ?p t' (snd (project now r q ?p))" by blast
    have "take_step book step w = w\<lparr>pw_projector := snd (project now r q ?p), pw_alive := (fst (project now r q ?p) \<noteq> Inl process_ended),
        pw_outcomes := pw_outcomes w @ [fst (project now r q ?p)]\<rparr>"
      using True by (simp add: ProjectReceipt rq split: prod.split)
    with t' show ?thesis by (intro exI [of _ t']) (simp add: world_okI evolves_def)
  qed
next
  case (AdmitOther e i rt ps now)
  show ?thesis
  proof (cases "pw_alive w")
    case False
    with w show ?thesis by (intro exI [of _ t]) (simp add: AdmitOther)
  next
    case True
    have "service_sound (pj_facts (pw_projector w)) t" using w True by (simp add: world_ok_def projector_sound_def)
    from admit_fact_sound [OF this, of e i rt ps now] valid obtain t' where
      "service_sound (snd (admit_fact e i rt ps now (pj_facts (pw_projector w)))) t'" "facts_grow t t'" by (auto simp: AdmitOther)
    from other_call_ok [where m = "admit_fact e i rt ps now", OF bk w True this] frame_admit_fact this(2) show ?thesis
      by (intro exI [of _ t']) (simp add: AdmitOther True other_call_def)
  qed
next
  case (AdmitOtherReality q)
  show ?thesis
  proof (cases "pw_alive w")
    case False
    with w show ?thesis by (intro exI [of _ t]) (simp add: AdmitOtherReality)
  next
    case True
    have "service_sound (pj_facts (pw_projector w)) t" using w True by (simp add: world_ok_def projector_sound_def)
    from admit_reality_sound [OF this, of q] valid obtain t' where
      "service_sound (snd (admit_reality q (pj_facts (pw_projector w)))) t'" "facts_grow t t'" by (auto simp: AdmitOtherReality)
    from other_call_ok [where m = "admit_reality q", OF bk w True this] preservesD [OF frame_admit_reality] valid this(2) show ?thesis
      by (intro exI [of _ t']) (simp add: AdmitOtherReality True other_call_def)
  qed
qed

lemma run_ok:
  assumes bk: "book_ok book" and "world_ok book w t" and "list_all projection_step_valid steps"
  shows "\<exists>t'. world_ok book (projection_run book steps w) t' \<and> facts_grow t t' \<and>
    store_grows (pj_store (pw_projector w)) (pj_store (pw_projector (projection_run book steps w)))"
  using assms(2,3)
proof (induction steps arbitrary: w t)
  case Nil
  then show ?case by (auto simp: projection_run_def)
next
  case (Cons step steps)
  from Cons.prems(2) have valid: "projection_step_valid step" "list_all projection_step_valid steps" by simp_all
  from step_ok [OF bk Cons.prems(1) valid(1)] obtain t1 where t1: "world_ok book (take_step book step w) t1" "facts_grow t t1"
    "store_grows (pj_store (pw_projector w)) (pj_store (pw_projector (take_step book step w)))" by blast
  from Cons.IH [OF t1(1) valid(2)] t1(2,3) show ?case
    by (auto simp: projection_run_def intro: facts_grow_trans store_grows_trans)
qed

lemma new_world_ok: "world_ok book new_projection_world no_facts"
  by (simp add: world_ok_def new_projection_world_def files_sound_def facts_sound_def plans_sound_def facts_planned_def
      markers_earned_def no_facts_def no_projections_def counter_rows_def)

section \<open>What every history keeps\<close>

definition facts_file :: "projection_world \<Rightarrow> fact_tables" where
  "facts_file w = the (fs_backend (pj_facts (pw_projector w)))"

definition projections_file :: "projection_world \<Rightarrow> projection_tables" where
  "projections_file w = pj_store (pw_projector w)"

definition counted_once :: "(string \<Rightarrow> delivery_receipt \<times> delivery_request) \<Rightarrow> fact_tables \<Rightarrow> projection_tables \<Rightarrow> bool" where
  "counted_once book t p \<longleftrightarrow>
     (\<forall>i. has_projection i p \<longrightarrow> (\<exists>pl. get_frozen_plan_any i p = Inr (Some pl) \<and>
       (\<forall>kv \<in> set (fp_facts pl). counted book t pl kv))) \<and>
     (\<forall>ob. counter_fact ob \<and> holds_observation t ob \<longrightarrow> (\<exists>pl kv.
       get_frozen_plan_any (fp_receipt_id pl) p = Inr (Some pl) \<and> fact_of_plan book pl kv ob))"

lemma plan_lookup:
  assumes p: "plans_sound book p" and row: "row \<in> set (pt_plans p)" "plan_of_row book row pl"
  shows "get_frozen_plan_any (fp_receipt_id pl) p = Inr (Some pl)"
proof -
  from row(2) have pl: "row_to_frozen_plan row = Inr pl" by (simp add: plan_of_row_def)
  with row_plan_fields have f: "plr_receipt_id row = fp_receipt_id pl" "non_empty (fp_receipt_id pl)"
    by (force simp: frozen_plan_checks_def)+
  have "find (\<lambda>r. plr_receipt_id r = plr_receipt_id row) (pt_plans p) = Some row"
    using find_distinct_key row(1) p by (auto simp: plans_sound_def)
  with f pl show ?thesis by (simp add: get_frozen_plan_any_def read_plan_def guarded_clear)
qed

lemma files_counted_once:
  assumes bk: "book_ok book" and files: "files_sound book t p"
  shows "counted_once book t p"
  unfolding counted_once_def
proof (intro conjI allI impI)
  have ps: "plans_sound book p" using files by (simp add: files_sound_def)
  fix i
  assume "has_projection i p"
  then obtain x where "x \<in> set (pt_records p)" "prr_receipt_id x = i" by (auto simp: has_projection_def)
  with files obtain row pl where "row \<in> set (pt_plans p)" "plan_of_row book row pl" "fp_receipt_id pl = i"
    "\<forall>kv \<in> set (fp_facts pl). counted book t pl kv" unfolding files_sound_def markers_earned_def by blast
  with plan_lookup [OF ps] show "\<exists>pl. get_frozen_plan_any i p = Inr (Some pl) \<and> (\<forall>kv \<in> set (fp_facts pl). counted book t pl kv)"
    by blast
next
  have ps: "plans_sound book p" and ts: "facts_sound t" using files by (simp_all add: files_sound_def)
  fix ob
  assume "counter_fact ob \<and> holds_observation t ob"
  then obtain r where r: "r \<in> set (counter_rows t)" "observation_from_row r = Inr ob" using holds_counter [OF ts] by blast
  with files obtain row pl kv ob' where row: "row \<in> set (pt_plans p)" "plan_of_row book row pl"
    and fact: "fact_of_plan book pl kv ob'" "observation_to_row ob' = Inr r" unfolding files_sound_def facts_planned_def by blast
  have sc: "scope_valid (dr_scope (fst (book (fp_receipt_id pl))))" using bk by (simp add: book_ok_def)
  have "observation_whole ob'" using operational_observation_row(1) [OF _ sc] fact(1) unfolding fact_of_plan_def by blast
  from observation_round_trip [OF this fact(2)] r(2) have "ob' = ob" by simp
  with fact(1) plan_lookup [OF ps row]
  show "\<exists>pl kv. get_frozen_plan_any (fp_receipt_id pl) p = Inr (Some pl) \<and> fact_of_plan book pl kv ob" by blast
qed

lemma plan_kept:
  assumes p': "plans_sound book p'" and g: "store_grows p p'" and got: "get_frozen_plan_any i p = Inr (Some pl)"
  shows "\<exists>pl'. get_frozen_plan_any i p' = Inr (Some pl') \<and> frozen_plan_equivalent pl' pl"
proof -
  from got obtain row where row: "row \<in> set (pt_plans p)" "plr_receipt_id row = i" "row_to_frozen_plan row = Inr pl"
    by (auto simp: get_frozen_plan_any_def read_plan_def bindR_Inr_iff dest!: find_SomeD split: option.splits)
  then have "holds_plan p pl" by (auto simp: holds_plan_def frozen_plan_equivalent_def)
  with g obtain row' pl' where row': "row' \<in> set (pt_plans p')" "row_to_frozen_plan row' = Inr pl'" "frozen_plan_equivalent pl' pl"
    unfolding store_grows_def holds_plan_def by blast
  with p' have "plan_of_row book row' pl'" unfolding plans_sound_def plan_of_row_def by fastforce
  from plan_lookup [OF p' row'(1) this] row'(3) row_plan_fields [OF row(3)] row(2) show ?thesis
    by (auto simp: frozen_plan_equivalent_def)
qed


text \<open>
  C3. Every receipt is counted once. In every history of a projector, with runs that end between any two of
  their writes, restarts, receipts that come again, and other facts admitted in between: the counter facts of
  the file are exactly facts of plans, and a receipt that is marked as projected has all the facts of its
  plan. A plan, once there, keeps its facts and their time for ever, and no fact is ever taken back.
\<close>

theorem receipts_counted_once:
  assumes "book_ok book" and "list_all projection_step_valid (steps @ rest)"
  shows "let w = projection_run book steps new_projection_world; w' = projection_run book rest w in
    counted_once book (facts_file w) (projections_file w) \<and>
    (\<forall>i pl. get_frozen_plan_any i (projections_file w) = Inr (Some pl) \<longrightarrow>
      (\<exists>pl'. get_frozen_plan_any i (projections_file w') = Inr (Some pl') \<and> frozen_plan_equivalent pl' pl)) \<and>
    (\<forall>ob. holds_observation (facts_file w) ob \<longrightarrow> holds_observation (facts_file w') ob)"
proof -
  let ?w = "projection_run book steps new_projection_world" and ?w' = "projection_run book rest (projection_run book steps new_projection_world)"
  from assms(2) have valid: "list_all projection_step_valid steps" "list_all projection_step_valid rest" by simp_all
  from run_ok [OF assms(1) new_world_ok valid(1)] obtain t where t: "world_ok book ?w t" by blast
  from run_ok [OF assms(1) t valid(2)] obtain t' where t': "world_ok book ?w' t'" "facts_grow t t'"
    "store_grows (pj_store (pw_projector ?w)) (pj_store (pw_projector ?w'))" by blast
  from t t'(1) have files: "facts_file ?w = t" "files_sound book t (projections_file ?w)" "facts_file ?w' = t'"
    "plans_sound book (projections_file ?w')"
    by (simp_all add: world_ok_def facts_file_def projections_file_def files_sound_def)
  from files_counted_once [OF assms(1) files(2)] plan_kept [OF files(4) t'(3) [folded projections_file_def]] holds_grows(1) [OF t'(2)]
  show ?thesis by (simp add: Let_def files(1,3))
qed

section \<open>Every receipt can be completed\<close>

text \<open>
  C4. No end of a process leaves a receipt behind. Whatever history went before, and wherever the last run
  was cut off, after a restart a projection of a delivered receipt returns, says that the receipt is applied,
  and leaves it marked, so with all the facts of its plan.
\<close>

theorem projection_completes:
  assumes "book_ok book" and "list_all projection_step_valid steps" and "good_receipt now (fst (book i)) (snd (book i))"
  shows "let w = projection_run book (steps @ [StartProjector, ProjectReceipt i None None now]) new_projection_world in
    pw_alive w \<and> has_projection i (projections_file w) \<and>
    (\<exists>out. last (pw_outcomes w) = Inr out \<and> (po_applied out \<or> po_already_applied out))"
proof -
  let ?w = "projection_run book steps new_projection_world"
  obtain r q where rq: "book i = (r, q)" by (cases "book i")
  from run_ok [OF assms(1) new_world_ok assms(2)] obtain t where t: "world_ok book ?w t" by blast
  then obtain s where s: "start_projector (pw_projector ?w) = Inr \<lparr>pj_facts = s, pj_store = pj_store (pw_projector ?w), pj_fault = None, pj_writes_left = None\<rparr>"
    and sound: "projector_sound book \<lparr>pj_facts = s, pj_store = pj_store (pw_projector ?w), pj_fault = None, pj_writes_left = None\<rparr> t"
    by (auto simp: world_ok_def intro: started_sound)
  let ?p = "\<lparr>pj_facts = s, pj_store = pj_store (pw_projector ?w), pj_fault = None, pj_writes_left = None\<rparr>"
  have calm: "undisturbed ?p" by (simp add: undisturbed_def)
  from assms(3) rq have good: "good_receipt now r q" "dr_delivery_status r = SENT" by (auto simp: good_receipt_def settled_ok_def)
  from runsD [OF runs_project [OF assms(1) rq, of now] sound TrueI] obtain t' where
    res: "case fst (project now r q ?p) of Inl e \<Rightarrow> good_receipt now r q \<longrightarrow> \<not> undisturbed ?p
     | Inr out \<Rightarrow> dr_delivery_status r = SENT \<longrightarrow> has_projection i (pj_store (snd (project now r q ?p))) \<and> (po_applied out \<or> po_already_applied out)"
    by blast
  with calm good obtain out where out: "fst (project now r q ?p) = Inr out" "has_projection i (pj_store (snd (project now r q ?p)))"
    "po_applied out \<or> po_already_applied out" by (cases "fst (project now r q ?p)") simp_all
  have run: "projection_run book (steps @ [StartProjector, ProjectReceipt i None None now]) new_projection_world =
      ?w\<lparr>pw_projector := snd (project now r q ?p), pw_alive := True, pw_outcomes := pw_outcomes ?w @ [Inr out]\<rparr>"
    using out(1) by (cases "project now r q ?p") (simp add: projection_run_def s [unfolded projection_run_def] rq)
  show ?thesis using out(2,3) by (simp add: run projections_file_def)
qed

section \<open>A marked receipt changes nothing\<close>

lemma marked_receipt_changes_nothing:
  "has_projection (dr_receipt_id r) (pj_store w) \<Longrightarrow> snd (project now r q w) = w"
  by (simp add: project_def bindP_def)

lemma undelivered_receipt_changes_nothing:
  "dr_delivery_status r \<noteq> SENT \<Longrightarrow> project now r q w = (Inr (skipped ''not_accepted'' None), w)"
  by (simp add: project_def)

section \<open>Examples\<close>

definition settled :: "string \<Rightarrow> datetime option \<Rightarrow> string \<Rightarrow> delivery_receipt \<times> delivery_request" where
  "settled i at_time action =
     (\<lparr>dr_receipt_id = i, dr_scope = user_scope ''u'', dr_origin_runtime_id = ''r'', dr_message_id = ''m'' @ i,
       dr_delivery_status = SENT, dr_delivered_at = at_time, dr_sync = mk_sync (user_scope ''u'') ''r'' i 1 ''k''\<rparr>,
      \<lparr>rq_request_id = ''q'' @ i, rq_message_id = ''m'' @ i, rq_scope = user_scope ''u'', rq_origin_runtime_id = ''r'',
       rq_channel = ''c'', rq_target = ''t'', rq_action_type = action, rq_payload_bytes = '''', rq_created_at = utc 1,
       rq_sync = mk_sync (user_scope ''u'') ''r'' (''q'' @ i) 1 ''k2'', rq_surface_handoff = None\<rparr>)"

definition small_book :: "string \<Rightarrow> delivery_receipt \<times> delivery_request" where
  "small_book i = (if i = ''photo'' then settled i (Some (utc 7)) ''send_photo''
     else if i = ''early'' then settled i (Some (utc 3)) ''proactive_message''
     else if i = ''undated'' then settled i None ''proactive_message''
     else settled i (Some (utc 5)) ''proactive_message'')"

lemma small_book_ok: "book_ok small_book"
  by (simp add: book_ok_def small_book_def settled_def strip_eq_Nil_iff is_space_def)

lemma receipts_counted_once_witness:
  "counted_once small_book (facts_file (projection_run small_book
      [StartProjector, ProjectReceipt ''a'' (Some 2) None (utc 9), StartProjector, ProjectReceipt ''a'' None None (utc 9)] new_projection_world))
     (projections_file (projection_run small_book
      [StartProjector, ProjectReceipt ''a'' (Some 2) None (utc 9), StartProjector, ProjectReceipt ''a'' None None (utc 9)] new_projection_world)) \<and>
   map obr_value (ft_observations (facts_file (projection_run small_book
      [StartProjector, ProjectReceipt ''a'' (Some 2) None (utc 9), StartProjector, ProjectReceipt ''a'' None None (utc 9)] new_projection_world))) =
     [VStr ''1'', VStr ''1970-01-01T00:00:00.000005+00:00'']"
proof
  have "list_all projection_step_valid ([StartProjector, ProjectReceipt ''a'' (Some 2) None (utc 9), StartProjector,
      ProjectReceipt ''a'' None None (utc 9)] @ [])" by simp
  from receipts_counted_once [OF small_book_ok this]
  show "counted_once small_book (facts_file (projection_run small_book
      [StartProjector, ProjectReceipt ''a'' (Some 2) None (utc 9), StartProjector, ProjectReceipt ''a'' None None (utc 9)] new_projection_world))
     (projections_file (projection_run small_book
      [StartProjector, ProjectReceipt ''a'' (Some 2) None (utc 9), StartProjector, ProjectReceipt ''a'' None None (utc 9)] new_projection_world))"
    by (simp add: Let_def)
qed code_simp

lemma projection_completes_witness:
  "let w = projection_run small_book ([StartProjector, ProjectReceipt ''a'' (Some 2) None (utc 9)] @
      [StartProjector, ProjectReceipt ''a'' None None (utc 9)]) new_projection_world in
    pw_alive w \<and> has_projection ''a'' (projections_file w) \<and>
    (\<exists>out. last (pw_outcomes w) = Inr out \<and> (po_applied out \<or> po_already_applied out))"
proof (rule projection_completes [OF small_book_ok])
  show "list_all projection_step_valid [StartProjector, ProjectReceipt ''a'' (Some 2) None (utc 9)]" by simp
  show "good_receipt (utc 9) (fst (small_book ''a'')) (snd (small_book ''a''))" by code_simp
qed

section \<open>What goes wrong between receipts\<close>

definition counter_in :: "projection_world \<Rightarrow> string option" where
  "counter_in w = latest_observation_value cadence_counter_key (user_scope ''u'') (pj_facts (pw_projector w))"

text \<open>
  The count is fixed before it is written. A receipt whose run was cut off after that has a count that does
  not know of the receipts projected before it is completed: two messages, and the counter is at one.
\<close>

lemma interrupted_receipt_loses_a_count:
  "counter_in (projection_run small_book [StartProjector, ProjectReceipt ''a'' (Some 1) None (utc 9), StartProjector,
     ProjectReceipt ''b'' None None (utc 9), ProjectReceipt ''a'' None None (utc 9)] new_projection_world) = Some ''1''"
  by code_simp

text \<open>
  The counter is the latest value by the time of delivery: a receipt that was delivered earlier and comes
  later does not count.
\<close>

lemma late_receipt_is_not_counted:
  "counter_in (projection_run small_book [StartProjector, ProjectReceipt ''b'' None None (utc 9),
     ProjectReceipt ''early'' None None (utc 9)] new_projection_world) = Some ''1''"
  by code_simp

text \<open>
  Of two facts with the same time a running projector takes the one it remembered last, after a restart the
  one with the greater id: the counter goes back.
\<close>

lemma restart_changes_the_counter:
  "let w = projection_run small_book [StartProjector, ProjectReceipt ''b'' None None (utc 9),
       ProjectReceipt ''a'' None None (utc 9)] new_projection_world
   in counter_in w = Some ''2'' \<and> counter_in (take_step small_book StartProjector w) = Some ''1''"
  by code_simp

text \<open>
  A receipt without a time of delivery falls back to the creation of the request, but the admission refuses it
  then, after the plan was written: it is left with a plan for ever and can never be projected.
\<close>

lemma undated_receipt_is_stuck:
  "let w = projection_run small_book [StartProjector, ProjectReceipt ''undated'' None None (utc 9),
       ProjectReceipt ''undated'' None None (utc 9)] new_projection_world
   in pw_outcomes w = replicate 2 (Inl (ValueError ''settled-action projection requires receipt.delivered_at'')) \<and>
     map plr_completed (pt_plans (projections_file w)) = [0] \<and> pt_records (projections_file w) = []"
  by code_simp

end
