(* ===== verification/Projection_Cadence.thy ===== *)
theory Projection_Cadence
  imports Projection_Safety
begin

text \<open>
  What the counter counts: with receipts projected in the order of their delivery and no run cut off, the
  counter of a scope is the number of messages since its last photo, whatever is projected twice, restarted
  or admitted in between.
\<close>

section \<open>The latest value\<close>

definition counts_as :: "string \<Rightarrow> scope \<Rightarrow> observation \<Rightarrow> bool" where
  "counts_as key sc ob \<longleftrightarrow> ob_scope ob = sc \<and> ob_key ob = key"

lemma latest_fold:
  assumes "\<And>ob. ob \<in> set xs \<Longrightarrow> counts_as key sc ob \<Longrightarrow> \<exists>v. ob_value ob = VStr v"
  shows "(foldl (later key sc) None xs = None \<longleftrightarrow> (\<forall>ob \<in> set xs. \<not> counts_as key sc ob)) \<and>
    (\<forall>v at_time. foldl (later key sc) None xs = Some (v, at_time) \<longrightarrow>
      (\<exists>ob \<in> set xs. counts_as key sc ob \<and> ob_value ob = VStr v \<and> ob_observed_at ob = at_time) \<and>
      (\<forall>ob \<in> set xs. counts_as key sc ob \<longrightarrow> dt_le (ob_observed_at ob) at_time))"
  using assms
proof (induction xs rule: rev_induct)
  case (snoc x xs)
  then have IH: "(foldl (later key sc) None xs = None \<longleftrightarrow> (\<forall>ob \<in> set xs. \<not> counts_as key sc ob)) \<and>
    (\<forall>v at_time. foldl (later key sc) None xs = Some (v, at_time) \<longrightarrow>
      (\<exists>ob \<in> set xs. counts_as key sc ob \<and> ob_value ob = VStr v \<and> ob_observed_at ob = at_time) \<and>
      (\<forall>ob \<in> set xs. counts_as key sc ob \<longrightarrow> dt_le (ob_observed_at ob) at_time))" by simp
  show ?case
  proof (cases "counts_as key sc x")
    case False
    then have "foldl (later key sc) None (xs @ [x]) = foldl (later key sc) None xs" by (simp add: later_def counts_as_def)
    with IH False show ?thesis by auto
  next
    case True
    with snoc.prems obtain v where v: "ob_value x = VStr v" by auto
    show ?thesis
    proof (cases "foldl (later key sc) None xs")
      case None
      with True v have "foldl (later key sc) None (xs @ [x]) = Some (v, ob_observed_at x)" by (simp add: later_def counts_as_def)
      with IH None True v show ?thesis by (auto simp: dt_le_def)
    next
      case (Some p)
      obtain u at_time where p: "p = (u, at_time)" by (cases p)
      show ?thesis
      proof (cases "dt_le at_time (ob_observed_at x)")
        case le: True
        with True v Some p have "foldl (later key sc) None (xs @ [x]) = Some (v, ob_observed_at x)" by (simp add: later_def counts_as_def)
        moreover have "dt_le (ob_observed_at ob) (ob_observed_at x)" if "ob \<in> set xs" "counts_as key sc ob" for ob
          using IH Some p that le by (force simp: dt_le_def)
        ultimately show ?thesis using True v by (auto simp: dt_le_def)
      next
        case False
        with True v Some p have "foldl (later key sc) None (xs @ [x]) = Some (u, at_time)" by (simp add: later_def counts_as_def)
        with IH Some p True False show ?thesis by (auto simp: dt_le_def)
      qed
    qed
  qed
qed simp

text \<open>A value later than all others is the latest, in whatever order the facts are remembered.\<close>

lemma latest_unique:
  assumes str: "\<And>ob. ob \<in> snd ` set (fs_observations s) \<Longrightarrow> counts_as key sc ob \<Longrightarrow> \<exists>v. ob_value ob = VStr v"
    and last: "x \<in> snd ` set (fs_observations s)" "counts_as key sc x" "ob_value x = VStr v"
    and before: "\<And>ob. ob \<in> snd ` set (fs_observations s) \<Longrightarrow> counts_as key sc ob \<Longrightarrow> ob \<noteq> x \<Longrightarrow>
      dt_less (ob_observed_at ob) (ob_observed_at x)"
  shows "latest_observation_value key sc s = Some v"
proof -
  let ?xs = "map snd (fs_observations s)"
  have mem: "ob \<in> set ?xs \<longleftrightarrow> ob \<in> snd ` set (fs_observations s)" for ob by simp
  from latest_fold [of ?xs key sc] str have facts: "(foldl (later key sc) None ?xs = None \<longleftrightarrow> (\<forall>ob \<in> set ?xs. \<not> counts_as key sc ob)) \<and>
    (\<forall>v at_time. foldl (later key sc) None ?xs = Some (v, at_time) \<longrightarrow>
      (\<exists>ob \<in> set ?xs. counts_as key sc ob \<and> ob_value ob = VStr v \<and> ob_observed_at ob = at_time) \<and>
      (\<forall>ob \<in> set ?xs. counts_as key sc ob \<longrightarrow> dt_le (ob_observed_at ob) at_time))" unfolding mem by blast
  with last(1,2) mem obtain u at_time where fold: "foldl (later key sc) None ?xs = Some (u, at_time)"
    by (cases "foldl (later key sc) None ?xs") auto
  with facts obtain ob where ob: "ob \<in> set ?xs" "counts_as key sc ob" "ob_value ob = VStr u" "ob_observed_at ob = at_time"
    and max: "\<And>ob. ob \<in> set ?xs \<Longrightarrow> counts_as key sc ob \<Longrightarrow> dt_le (ob_observed_at ob) at_time" by blast
  have "ob = x"
  proof (rule ccontr)
    assume "ob \<noteq> x"
    with before ob mem have "dt_less (ob_observed_at ob) (ob_observed_at x)" by blast
    moreover have "dt_le (ob_observed_at x) at_time" using max last mem by blast
    ultimately show False using ob(4) by (simp add: dt_le_def dt_less_def)
  qed
  with ob(3) last(3) fold show ?thesis by (simp add: latest_observation_value_def)
qed

lemma latest_none:
  assumes "\<And>ob. ob \<in> snd ` set (fs_observations s) \<Longrightarrow> \<not> counts_as key sc ob"
  shows "latest_observation_value key sc s = None"
proof -
  have "foldl (later key sc) None (map snd (fs_observations s)) = None"
    using latest_fold [of "map snd (fs_observations s)" key sc] assms by (auto simp: image_iff)
  then show ?thesis by (simp add: latest_observation_value_def)
qed

section \<open>The receipts of a history\<close>

definition since_photo :: "string list \<Rightarrow> nat" where
  "since_photo actions = length (takeWhile (\<lambda>a. a \<noteq> ''send_photo'') (rev actions))"

definition scope_of :: "(string \<Rightarrow> delivery_receipt \<times> delivery_request) \<Rightarrow> string \<Rightarrow> scope" where
  "scope_of book i = dr_scope (fst (book i))"

definition action_of :: "(string \<Rightarrow> delivery_receipt \<times> delivery_request) \<Rightarrow> string \<Rightarrow> string" where
  "action_of book i = rq_action_type (snd (book i))"

definition time_of :: "(string \<Rightarrow> delivery_receipt \<times> delivery_request) \<Rightarrow> string \<Rightarrow> datetime" where
  "time_of book i = settlement_time (fst (book i)) (snd (book i))"

fun projected_ids :: "projection_step list \<Rightarrow> string list" where
  "projected_ids [] = []"
| "projected_ids (ProjectReceipt i allowed fault now # steps) = i # projected_ids steps"
| "projected_ids (step # steps) = projected_ids steps"

definition firsts :: "string list \<Rightarrow> string list" where
  "firsts xs = foldl (\<lambda>done x. if x \<in> set done then done else done @ [x]) [] xs"

definition in_order :: "(string \<Rightarrow> delivery_receipt \<times> delivery_request) \<Rightarrow> string list \<Rightarrow> bool" where
  "in_order book is \<longleftrightarrow> sorted_wrt (\<lambda>i j. scope_of book i = scope_of book j \<longrightarrow> dt_less (time_of book i) (time_of book j)) is"

fun calm_step :: "(string \<Rightarrow> delivery_receipt \<times> delivery_request) \<Rightarrow> projection_step \<Rightarrow> bool" where
  "calm_step book (ProjectReceipt i allowed fault now) =
     (allowed = None \<and> fault = None \<and> good_receipt now (fst (book i)) (snd (book i)))"
| "calm_step book _ = True"

definition in_scope :: "(string \<Rightarrow> delivery_receipt \<times> delivery_request) \<Rightarrow> scope \<Rightarrow> string list \<Rightarrow> string list" where
  "in_scope book sc is = filter (\<lambda>i. scope_of book i = sc) is"

definition count_in :: "(string \<Rightarrow> delivery_receipt \<times> delivery_request) \<Rightarrow> scope \<Rightarrow> string list \<Rightarrow> nat" where
  "count_in book sc is = since_photo (map (action_of book) (in_scope book sc is))"

lemma firsts_snoc: "firsts (xs @ [x]) = (if x \<in> set (firsts xs) then firsts xs else firsts xs @ [x])"
  by (simp add: firsts_def)

lemma projected_ids_append: "projected_ids (xs @ ys) = projected_ids xs @ projected_ids ys"
  by (induction xs rule: projected_ids.induct) auto

lemma count_snoc:
  "count_in book sc (is @ [i]) = (if scope_of book i \<noteq> sc then count_in book sc is
     else if action_of book i = ''send_photo'' then 0 else Suc (count_in book sc is))"
  by (simp add: count_in_def in_scope_def since_photo_def)


section \<open>A projection adds no other plan\<close>

definition plan_ids :: "projector \<Rightarrow> string set" where
  "plan_ids w = set (map plr_receipt_id (pt_plans (pj_store w)))"

lemma ids_store:
  "(\<And>p. set (map plr_receipt_id (pt_plans (snd (m p)))) \<subseteq> set (map plr_receipt_id (pt_plans p)) \<union> X) \<Longrightarrow>
    preserves (\<lambda>w. plan_ids w \<subseteq> X) (store_write m)"
proof (rule preservesI)
  fix w
  assume m: "\<And>p. set (map plr_receipt_id (pt_plans (snd (m p)))) \<subseteq> set (map plr_receipt_id (pt_plans p)) \<union> X" and w: "plan_ids w \<subseteq> X"
  obtain res p' where run: "m (pj_store w) = (res, p')" by (cases "m (pj_store w)")
  with m [of "pj_store w"] w have "set (map plr_receipt_id (pt_plans p')) \<subseteq> X" by (auto simp: plan_ids_def)
  with w run show "plan_ids (snd (store_write m w)) \<subseteq> X"
    by (cases "pj_writes_left w = Some 0") (auto simp: store_write_def plan_ids_def split: option.split nat.split)
qed

lemma ids_fact: "preserves (\<lambda>w. plan_ids w \<subseteq> X) (fact_write m)"
  by (rule preservesI) (auto simp: fact_write_def plan_ids_def split: option.split nat.split prod.split sum.split)

lemma ids_writes:
  "preserves (\<lambda>w. plan_ids w \<subseteq> X) (store_write (record_projection x))"
  "preserves (\<lambda>w. plan_ids w \<subseteq> X) (store_write (mark_plan_completed i))"
  by (rule ids_store, auto simp: record_projection_def mark_plan_completed_def bindP_def split: sum.split)+

lemma ids_plan:
  assumes "fp_receipt_id pl \<in> X"
  shows "preserves (\<lambda>w. plan_ids w \<subseteq> X) (store_write (record_frozen_plan pl))"
proof (rule ids_store)
  fix p
  have "plr_receipt_id row = fp_receipt_id pl" if "plan_to_row pl = Inr row" for row
    using that by (auto simp: plan_to_row_def bindR_Inr_iff)
  with assms show "set (map plr_receipt_id (pt_plans (snd (record_frozen_plan pl p)))) \<subseteq> set (map plr_receipt_id (pt_plans p)) \<union> X"
    by (auto simp: record_frozen_plan_def bindP_def split: sum.split option.split)
qed

lemma ids_write_facts: "preserves (\<lambda>w. plan_ids w \<subseteq> X) (write_facts now r q u fs fresh)"
proof -
  have "preserves (\<lambda>w. plan_ids w \<subseteq> X) ((\<lambda>(k, v). admit_counter_fact k v r q u) kv)" for kv
    by (cases kv) (auto simp: admit_counter_fact_def intro: preserve_rules ids_fact)
  then show ?thesis
    unfolding write_facts_def finish_projection_def
    by (auto intro!: preserves_bindP [of _ "eachP f xs" for f xs] preserves_eachP preserves_bindP ids_writes preserve_rules split: prod.split)
qed

lemma ids_project:
  assumes "dr_receipt_id r \<in> X"
  shows "preserves (\<lambda>w. plan_ids w \<subseteq> X) (project now r q)"
proof -
  have plan: "preserves (\<lambda>w. plan_ids w \<subseteq> X) (bindP (liftP (mk_frozen_plan
         \<lparr>fp_receipt_id = dr_receipt_id r, fp_request_id = rq_request_id q, fp_action_type = rq_action_type q,
          fp_settled_at = u, fp_facts = facts, fp_completed = False\<rparr>)) (\<lambda>plan.
       bindP (store_write (record_frozen_plan plan)) (\<lambda>_. bindP (fault_after_plan r q) (\<lambda>_. write_facts now r q u facts True))))" for u facts
  proof (rule frame_lift)
    fix pl
    assume "mk_frozen_plan \<lparr>fp_receipt_id = dr_receipt_id r, fp_request_id = rq_request_id q, fp_action_type = rq_action_type q,
          fp_settled_at = u, fp_facts = facts, fp_completed = False\<rparr> = Inr pl"
    then have "fp_receipt_id pl \<in> X" using assms by (auto simp: mk_frozen_plan_def guarded_Inr_iff)
    then show "preserves (\<lambda>w. plan_ids w \<subseteq> X) (bindP (store_write (record_frozen_plan pl)) (\<lambda>_.
        bindP (fault_after_plan r q) (\<lambda>_. write_facts now r q u facts True)))"
      unfolding fault_after_plan_def by (intro preserves_bindP ids_plan ids_write_facts preserves_pure)
  qed
  have "preserves (\<lambda>w. plan_ids w \<subseteq> X) (project_new now r q)"
    unfolding project_new_def by (intro preserves_bindP [of _ "liftP (guarded c z)" for c z] preserves_bindP [of _ "readP f" for f] preserves_if preserves_pure plan)
  then show ?thesis
    unfolding project_def
    by (intro preserves_if preserves_bindP [of _ "readP f" for f] preserves_pure frame_option ids_write_facts)
qed

lemma project_unplanned:
  assumes "unplanned (dr_receipt_id r) w" and "dr_delivery_status r = SENT" and "non_empty (dr_receipt_id r)"
  shows "project now r q w = project_new now r q w"
proof -
  let ?i = "dr_receipt_id r"
  have none: "find (incomplete_row ?i) (pt_plans (pj_store w)) = None" "find (\<lambda>r. plr_receipt_id r = ?i) (pt_plans (pj_store w)) = None"
    using assms(1) by (force simp: unplanned_def find_None_iff incomplete_row_def)+
  with assms show ?thesis
    by (simp add: project_def bindP_def unplanned_def get_frozen_plan_def get_frozen_plan_any_def read_plan_def guarded_clear)
qed


section \<open>The counter\<close>

definition cadence_inv :: "(string \<Rightarrow> delivery_receipt \<times> delivery_request) \<Rightarrow> string list \<Rightarrow> projector \<Rightarrow> fact_tables \<Rightarrow> bool" where
  "cadence_inv book ids w t \<longleftrightarrow> projector_sound book w t \<and> plan_ids w \<subseteq> set ids \<and>
     (\<forall>pre i post. ids = pre @ i # post \<longrightarrow> has_projection i (pj_store w) \<and>
       (\<exists>pl. holds_plan (pj_store w) pl \<and> fp_receipt_id pl = i \<and>
         (cadence_counter_key, show_int (int (count_in book (scope_of book i) (pre @ [i])))) \<in> set (fp_facts pl)))"

lemma cadence_counts: "counts_as cadence_counter_key sc ob \<Longrightarrow> counter_fact ob"
  by (simp add: counts_as_def counter_fact_def allowed_operational_keys_def cadence_counter_key_def)

lemma planned_counter:
  assumes bk: "book_ok book" and inv: "cadence_inv book ids w t"
    and ob: "ob \<in> snd ` set (fs_observations (pj_facts w))" "counts_as cadence_counter_key sc ob"
  obtains i pl v where "i \<in> set ids" and "scope_of book i = sc" and "ob_observed_at ob = time_of book i" and "ob_value ob = VStr v"
    and "get_frozen_plan_any i (pj_store w) = Inr (Some pl)" and "fp_receipt_id pl = i" and "plan_for book pl"
    and "fact_of_plan book pl (cadence_counter_key, v) ob"
proof -
  from inv have w: "projector_sound book w t" and ids: "plan_ids w \<subseteq> set ids" by (simp_all add: cadence_inv_def)
  then have files: "files_sound book t (pj_store w)" and cached: "counters_cached (pj_facts w) t" and keys: "caches_sound (pj_facts w) t"
    by (simp_all add: projector_sound_def service_sound_def)
  from ob(1) obtain k where "(k, ob) \<in> set (fs_observations (pj_facts w))" by force
  with keys have "((ob_scope ob, ob_id ob), ob) \<in> set (fs_observations (pj_facts w))" by (auto simp: caches_sound_def list_all_iff)
  with cached cadence_counts [OF ob(2)] have "holds_observation t ob" by (simp add: counters_cached_def)
  with files_counted_once [OF bk files] cadence_counts [OF ob(2)] obtain pl kv where
    pl: "get_frozen_plan_any (fp_receipt_id pl) (pj_store w) = Inr (Some pl)" and fact: "fact_of_plan book pl kv ob"
    unfolding counted_once_def by blast
  from pl obtain row where row: "row \<in> set (pt_plans (pj_store w))" "row_to_frozen_plan row = Inr pl"
    by (auto simp: get_frozen_plan_any_def read_plan_def bindR_Inr_iff dest!: find_SomeD split: option.splits)
  with files obtain pl' where "plan_of_row book row pl'" unfolding files_sound_def plans_sound_def by blast
  with row(2) have plan: "plan_for book pl" by (auto simp: plan_of_row_def)
  have mem: "fp_receipt_id pl \<in> set ids" using ids row row_plan_fields [OF row(2)] by (auto simp: plan_ids_def)
  have sc: "scope_valid (dr_scope (fst (book (fp_receipt_id pl))))" using bk by (simp add: book_ok_def)
  have "operational_observation (fst kv) (snd kv) (fst (book (fp_receipt_id pl))) (fp_settled_at pl) = Inr ob"
    using fact by (simp add: fact_of_plan_def)
  note made = operational_observation_row [OF this sc]
  have key: "fst kv = cadence_counter_key" using made(5) ob(2) by (simp add: counts_as_def)
  have settled: "fp_settled_at pl = time_of book (fp_receipt_id pl)"
    using plan by (auto simp: plan_for_def time_of_def split: prod.splits)
  show thesis
  proof (rule that [OF mem _ _ made(6) pl refl plan])
    show "scope_of book (fp_receipt_id pl) = sc" using made(3) ob(2) by (simp add: scope_of_def counts_as_def)
    show "ob_observed_at ob = time_of book (fp_receipt_id pl)" using made(7) settled by simp
    show "fact_of_plan book pl (cadence_counter_key, snd kv) ob" using fact key by (cases kv) simp
  qed
qed

lemma counter_value:
  assumes bk: "book_ok book" and inv: "cadence_inv book ids w t" and order: "in_order book ids"
  shows "latest_observation_value cadence_counter_key sc (pj_facts w) =
    (if in_scope book sc ids = [] then None else Some (show_int (int (count_in book sc ids))))"
proof (cases "in_scope book sc ids = []")
  case True
  have "\<not> counts_as cadence_counter_key sc ob" if "ob \<in> snd ` set (fs_observations (pj_facts w))" for ob
  proof
    assume "counts_as cadence_counter_key sc ob"
    with bk inv that obtain i where "i \<in> set ids" "scope_of book i = sc" by (rule planned_counter)
    with True show False by (auto simp: in_scope_def filter_empty_conv)
  qed
  with latest_none [of "pj_facts w" cadence_counter_key sc] True show ?thesis by simp
next
  case False
  then have "\<exists>i \<in> set ids. scope_of book i = sc" by (auto simp: in_scope_def filter_empty_conv)
  then obtain pre i post where split: "ids = pre @ i # post" "scope_of book i = sc" "\<forall>j \<in> set post. scope_of book j \<noteq> sc"
    using split_list_last_prop [of ids "\<lambda>i. scope_of book i = sc"] by blast
  have count: "count_in book sc ids = count_in book sc (pre @ [i])"
    using split by (simp add: count_in_def in_scope_def)
  from inv have w: "projector_sound book w t" by (simp add: cadence_inv_def)
  then have files: "files_sound book t (pj_store w)" and cached: "counters_cached (pj_facts w) t"
    by (simp_all add: projector_sound_def)
  then have ps: "plans_sound book (pj_store w)" by (simp add: files_sound_def)
  let ?v = "show_int (int (count_in book sc ids))"
  from inv split obtain pl where has: "has_projection i (pj_store w)" and pl: "holds_plan (pj_store w) pl" "fp_receipt_id pl = i"
    "(cadence_counter_key, ?v) \<in> set (fp_facts pl)" unfolding cadence_inv_def count by blast
  from files_counted_once [OF bk files] has obtain pl' where pl': "get_frozen_plan_any i (pj_store w) = Inr (Some pl')"
    "\<forall>kv \<in> set (fp_facts pl'). counted book t pl' kv" unfolding counted_once_def by blast
  from pl(1) obtain row q where row: "row \<in> set (pt_plans (pj_store w))" "row_to_frozen_plan row = Inr q" "frozen_plan_equivalent q pl"
    by (auto simp: holds_plan_def)
  with ps have plan: "plan_of_row book row q" unfolding plans_sound_def plan_of_row_def by fastforce
  from plan_lookup [OF ps row(1) plan] row(3) pl(2) pl'(1) have "q = pl'" by (simp add: frozen_plan_equivalent_def)
  with row(3) pl(2,3) plan have q: "fp_receipt_id pl' = i" "(cadence_counter_key, ?v) \<in> set (fp_facts pl')" "plan_for book pl'"
    by (simp_all add: frozen_plan_equivalent_def plan_of_row_def)
  with pl'(2) obtain x where x: "fact_of_plan book pl' (cadence_counter_key, ?v) x" "holds_observation t x" by (auto simp: counted_def)
  have sc: "scope_valid (dr_scope (fst (book i)))" using bk by (simp add: book_ok_def)
  have "operational_observation cadence_counter_key ?v (fst (book i)) (fp_settled_at pl') = Inr x"
    using x(1) q(1) by (simp add: fact_of_plan_def)
  note made = operational_observation_row [OF this sc]
  have counts: "counts_as cadence_counter_key sc x" using made(3,5) split(2) by (simp add: counts_as_def scope_of_def)
  have x_in: "x \<in> snd ` set (fs_observations (pj_facts w))"
  proof -
    have "((ob_scope x, ob_id x), x) \<in> set (fs_observations (pj_facts w))"
      using cached cadence_counts [OF counts] x(2) by (simp add: counters_cached_def)
    then show ?thesis by (rule image_eqI [rotated]) simp
  qed
  have at_x: "ob_observed_at x = time_of book i"
    using made(7) q(1,3) by (auto simp: plan_for_def time_of_def split: prod.splits)
  have "latest_observation_value cadence_counter_key sc (pj_facts w) = Some ?v"
  proof (rule latest_unique [OF _ x_in counts made(6)])
    fix ob
    assume ob: "ob \<in> snd ` set (fs_observations (pj_facts w))" "counts_as cadence_counter_key sc ob"
    from planned_counter [OF bk inv ob] show "\<exists>v. ob_value ob = VStr v" by metis
    assume "ob \<noteq> x"
    from bk inv ob show "dt_less (ob_observed_at ob) (ob_observed_at x)"
    proof (rule planned_counter)
      fix j pj v
      assume j: "j \<in> set ids" "scope_of book j = sc" "ob_observed_at ob = time_of book j" "get_frozen_plan_any j (pj_store w) = Inr (Some pj)"
        "fp_receipt_id pj = j" "fact_of_plan book pj (cadence_counter_key, v) ob"
      have "j \<noteq> i"
      proof
        assume "j = i"
        with j(4) pl'(1) have same: "pj = pl'" by simp
        with j(6) q(2) planned_keys(2) [OF q(3)] have "v = ?v" by (auto simp: fact_of_plan_def dest: eq_key_imp_eq_value)
        with same j(6) x(1) \<open>ob \<noteq> x\<close> show False by (simp add: fact_of_plan_def)
      qed
      with j(1,2) split have "j \<in> set pre" by auto
      with order split(1,2) j(2) have "dt_less (time_of book j) (time_of book i)" by (auto simp: in_order_def sorted_wrt_append)
      then show ?thesis by (simp add: j(3) at_x)
    qed
  qed
  with False show ?thesis by simp
qed

section \<open>The steps of a history\<close>

lemma cadence_step:
  assumes bk: "book_ok book" and valid: "projection_step_valid step" and calm: "calm_step book step"
    and w: "pw_alive w" "cadence_inv book ids (pw_projector w) t" and order: "in_order book ids"
  shows "\<exists>t'. pw_alive (take_step book step w) \<and>
    cadence_inv book (foldl (\<lambda>ids x. if x \<in> set ids then ids else ids @ [x]) ids (projected_ids [step])) (pw_projector (take_step book step w)) t'"
proof -
  have sound: "projector_sound book (pw_projector w) t" using w(2) by (simp add: cadence_inv_def)
  from step_ok [OF bk world_okI [OF sound] valid] obtain t' where next_ok: "world_ok book (take_step book step w) t'"
    "store_grows (pj_store (pw_projector w)) (pj_store (pw_projector (take_step book step w)))" by blast
  have same_store: ?thesis if alive: "pw_alive (take_step book step w)"
    and store: "pj_store (pw_projector (take_step book step w)) = pj_store (pw_projector w)" and none: "projected_ids [step] = []"
  proof -
    have "cadence_inv book ids (pw_projector (take_step book step w)) t'"
      using w(2) next_ok(1) alive by (simp add: cadence_inv_def world_ok_def plan_ids_def store)
    with alive none show ?thesis by auto
  qed
  show ?thesis
  proof (cases step)
    case StartProjector
    from sound have "fs_backend (pj_facts (pw_projector w)) = Some t" "files_sound book t (pj_store (pw_projector w))"
      by (simp_all add: projector_sound_parts)
    then obtain s where "start_projector (pw_projector w) = Inr \<lparr>pj_facts = s, pj_store = pj_store (pw_projector w), pj_fault = None, pj_writes_left = None\<rparr>"
      by (rule started_sound)
    then show ?thesis by (intro same_store) (simp_all add: StartProjector)
  next
    case (AdmitOther e i rt ps now)
    then show ?thesis using w(1) by (intro same_store) (simp_all add: other_call_def)
  next
    case (AdmitOtherReality q)
    then show ?thesis using w(1) by (intro same_store) (simp_all add: other_call_def)
  next
    case (ProjectReceipt i allowed fault now)
    obtain r q where rq: "book i = (r, q)" by (cases "book i")
    with calm have quiet: "allowed = None" "fault = None" and good: "good_receipt now r q" by (simp_all add: ProjectReceipt)
    have rid: "dr_receipt_id r = i" using bk rq unfolding book_ok_def by (metis fst_conv)
    from good rid have sent: "dr_delivery_status r = SENT" and ne: "non_empty (dr_receipt_id r)" and known: "is_known_action_type (rq_action_type q)"
      by (auto simp: good_receipt_def settled_ok_def delivery_receipt_valid_iff)
    let ?p = "(pw_projector w)\<lparr>pj_fault := None, pj_writes_left := None\<rparr>"
    have p: "projector_sound book ?p t" using sound by simp
    have step: "take_step book step w = w\<lparr>pw_projector := snd (project now r q ?p), pw_alive := (fst (project now r q ?p) \<noteq> Inl process_ended),
        pw_outcomes := pw_outcomes w @ [fst (project now r q ?p)]\<rparr>"
      using w(1) by (simp add: ProjectReceipt rq quiet split: prod.split)
    have ids_are: "projected_ids [step] = [i]" by (simp add: ProjectReceipt)
    have calm_p: "undisturbed ?p" by (simp add: undisturbed_def)
    have ids_step: "plan_ids (snd (project now r q ?p)) \<subseteq> set (if i \<in> set ids then ids else ids @ [i])"
    proof (rule preservesD [OF ids_project])
      show "dr_receipt_id r \<in> set (if i \<in> set ids then ids else ids @ [i])" by (simp add: rid)
      show "plan_ids ?p \<subseteq> set (if i \<in> set ids then ids else ids @ [i])" using w(2) by (auto simp: cadence_inv_def plan_ids_def)
    qed
    from runsD [OF runs_project [OF bk rq, of now] p TrueI] obtain t1 where t1: "projector_sound book (snd (project now r q ?p)) t1"
      and res: "case fst (project now r q ?p) of Inl e \<Rightarrow> good_receipt now r q \<longrightarrow> \<not> undisturbed ?p
       | Inr out \<Rightarrow> dr_delivery_status r = SENT \<longrightarrow> has_projection i (pj_store (snd (project now r q ?p))) \<and> (po_applied out \<or> po_already_applied out)"
      by blast
    then obtain out where alive: "fst (project now r q ?p) = Inr out" using calm_p good by (cases "fst (project now r q ?p)") auto
    from next_ok(2) step have grows: "store_grows (pj_store (pw_projector w)) (pj_store (snd (project now r q ?p)))" by simp
    show ?thesis
    proof (cases "i \<in> set ids")
      case True
      then obtain pre post where "ids = pre @ i # post" by (meson split_list)
      with w(2) have "has_projection i (pj_store (pw_projector w))" unfolding cadence_inv_def by blast
      then have unchanged: "snd (project now r q ?p) = ?p" by (simp add: marked_receipt_changes_nothing rid)
      have "cadence_inv book ids ?p t" using w(2) by (simp add: cadence_inv_def plan_ids_def)
      with True alive show ?thesis unfolding step ids_are unchanged by (intro exI [of _ t]) simp
    next
      case False
      let ?F = "derive_new_counter_facts q (settlement_time r q) (pj_facts ?p)" and ?v = "show_int (int (count_in book (scope_of book i) (ids @ [i])))"
      have fresh: "unplanned i ?p"
      proof -
        have "i \<notin> plan_ids ?p" using w(2) False by (auto simp: cadence_inv_def plan_ids_def)
        moreover have "\<not> has_projection i (pj_store ?p)"
        proof
          assume "has_projection i (pj_store ?p)"
          then obtain x where "x \<in> set (pt_records (pj_store ?p))" "prr_receipt_id x = i" by (auto simp: has_projection_def)
          with sound obtain row pl where "row \<in> set (pt_plans (pj_store ?p))" "plan_of_row book row pl" "fp_receipt_id pl = i"
            unfolding projector_sound_def files_sound_def markers_earned_def by fastforce
          then have "i \<in> plan_ids ?p" by (auto simp: plan_ids_def plan_of_row_def dest!: row_plan_fields)
          with \<open>i \<notin> plan_ids ?p\<close> show False ..
        qed
        ultimately show ?thesis by (simp add: unplanned_def plan_ids_def)
      qed
      have run: "project now r q ?p = project_new now r q ?p" using project_unplanned [of r ?p now q] fresh sent ne by (simp add: rid)
      have fresh': "unplanned i ?p \<and> derive_new_counter_facts q (settlement_time r q) (pj_facts ?p) = ?F" using fresh by simp
      from runsD [OF runs_project_new_facts [OF bk rq sent] p fresh', of now] have "case fst (project_new now r q ?p) of
          Inl e \<Rightarrow> good_receipt now r q \<longrightarrow> \<not> undisturbed ?p
        | Inr out \<Rightarrow> has_projection i (pj_store (snd (project_new now r q ?p))) \<and> (po_applied out \<or> po_already_applied out) \<and>
            (\<exists>pl. holds_plan (pj_store (snd (project_new now r q ?p))) pl \<and> fp_receipt_id pl = i \<and> fp_facts pl = ?F)" by blast
      with alive run obtain pl where has: "has_projection i (pj_store (snd (project now r q ?p)))" and
        pl: "holds_plan (pj_store (snd (project now r q ?p))) pl" "fp_receipt_id pl = i" "fp_facts pl = ?F"
        by auto
      have latest: "latest_observation_value cadence_counter_key (scope_of book i) (pj_facts ?p) =
          (if in_scope book (scope_of book i) ids = [] then None else Some (show_int (int (count_in book (scope_of book i) ids))))"
        using counter_value [OF bk w(2) order, of "scope_of book i"] by simp
      have sc: "rq_scope q = scope_of book i" using good rq by (simp add: good_receipt_def settled_ok_def scope_of_def)
      have old: "parse_int_or_zero (latest_observation_value cadence_counter_key (rq_scope q) (pj_facts ?p)) = int (count_in book (scope_of book i) ids)"
        unfolding sc latest by (simp add: parse_int_or_zero_def count_in_def since_photo_def)
      have "(cadence_counter_key, ?v) \<in> set ?F"
        using known old rq by (auto simp: derive_new_counter_facts_def Let_def is_known_action_type_def count_snoc action_of_def add.commute)
      with pl have mine: "\<exists>pl. holds_plan (pj_store (snd (project now r q ?p))) pl \<and> fp_receipt_id pl = i \<and> (cadence_counter_key, ?v) \<in> set (fp_facts pl)"
        by metis
      have "cadence_inv book (ids @ [i]) (snd (project now r q ?p)) t1"
        unfolding cadence_inv_def
      proof (intro conjI allI impI t1)
        show "plan_ids (snd (project now r q ?p)) \<subseteq> set (ids @ [i])" using ids_step False by simp
        fix pre j post
        assume split: "ids @ [i] = pre @ j # post"
        have "has_projection j (pj_store (snd (project now r q ?p))) \<and> (\<exists>pl. holds_plan (pj_store (snd (project now r q ?p))) pl \<and>
            fp_receipt_id pl = j \<and> (cadence_counter_key, show_int (int (count_in book (scope_of book j) (pre @ [j])))) \<in> set (fp_facts pl))"
        proof (cases post rule: rev_cases)
          case Nil
          with split have "pre = ids" "j = i" by simp_all
          with has mine show ?thesis by simp
        next
          case (snoc post' l)
          with split have "ids = pre @ j # post'" by (metis append.assoc append_Cons butlast_snoc)
          with w(2) have old: "has_projection j (pj_store (pw_projector w))" "\<exists>pl. holds_plan (pj_store (pw_projector w)) pl \<and>
              fp_receipt_id pl = j \<and> (cadence_counter_key, show_int (int (count_in book (scope_of book j) (pre @ [j])))) \<in> set (fp_facts pl)"
            unfolding cadence_inv_def by blast+
          from old(1) grows have "has_projection j (pj_store (snd (project now r q ?p)))"
            unfolding store_grows_def has_projection_def by auto
          with old(2) grows show ?thesis unfolding store_grows_def by blast
        qed
        then show "has_projection j (pj_store (snd (project now r q ?p)))" "\<exists>pl. holds_plan (pj_store (snd (project now r q ?p))) pl \<and>
            fp_receipt_id pl = j \<and> (cadence_counter_key, show_int (int (count_in book (scope_of book j) (pre @ [j])))) \<in> set (fp_facts pl)"
          by simp_all
      qed
      with False alive show ?thesis unfolding step ids_are by (intro exI [of _ t1]) simp
    qed
  qed
qed


lemma cadence_run:
  assumes bk: "book_ok book" and "list_all projection_step_valid steps" and "list_all (calm_step book) steps"
    and w: "pw_alive w" "cadence_inv book [] (pw_projector w) t" and "in_order book (firsts (projected_ids steps))"
  shows "\<exists>t'. pw_alive (projection_run book steps w) \<and>
    cadence_inv book (firsts (projected_ids steps)) (pw_projector (projection_run book steps w)) t'"
  using assms(2,3,6)
proof (induction steps rule: rev_induct)
  case Nil
  with w show ?case by (auto simp: projection_run_def firsts_def)
next
  case (snoc step steps)
  have firsts: "firsts (projected_ids (steps @ [step])) =
      foldl (\<lambda>ids x. if x \<in> set ids then ids else ids @ [x]) (firsts (projected_ids steps)) (projected_ids [step])"
    by (simp add: projected_ids_append firsts_def)
  have order: "in_order book (firsts (projected_ids steps))"
  proof (cases "projected_ids [step]")
    case Nil
    with snoc.prems(3) firsts show ?thesis by simp
  next
    case (Cons i js)
    then have "js = []" by (cases step) auto
    with Cons snoc.prems(3) firsts show ?thesis by (auto simp: in_order_def sorted_wrt_append split: if_splits)
  qed
  with snoc obtain t' where t': "pw_alive (projection_run book steps w)"
    "cadence_inv book (firsts (projected_ids steps)) (pw_projector (projection_run book steps w)) t'" by auto
  from snoc.prems have "projection_step_valid step" "calm_step book step" by simp_all
  from cadence_step [OF bk this t' order] show ?case unfolding firsts by (simp add: projection_run_def)
qed

text \<open>
  C5. The counter counts the messages since the last photo. In a history without cut runs whose receipts were
  first projected in the order of their delivery, with receipts projected again, restarts and other facts in
  between, the latest value of the cadence counter in a scope is the number of messages delivered in it since
  its last photo, and there is none before the first receipt.
\<close>

theorem counter_counts_since_photo:
  assumes "book_ok book" and "list_all projection_step_valid steps" and "list_all (calm_step book) steps"
    and "in_order book (firsts (projected_ids steps))"
  shows "latest_observation_value cadence_counter_key sc
       (pj_facts (pw_projector (projection_run book (StartProjector # steps) new_projection_world))) =
     (let ids = filter (\<lambda>i. scope_of book i = sc) (firsts (projected_ids steps))
      in if ids = [] then None else Some (show_int (int (since_photo (map (action_of book) ids)))))"
proof -
  let ?w = "take_step book StartProjector new_projection_world"
  from new_world_ok [of book] have "fs_backend (pj_facts (pw_projector new_projection_world)) = Some no_facts"
    "files_sound book no_facts (pj_store (pw_projector new_projection_world))" by (simp_all add: world_ok_def)
  then obtain s where "start_projector (pw_projector new_projection_world) =
      Inr \<lparr>pj_facts = s, pj_store = pj_store (pw_projector new_projection_world), pj_fault = None, pj_writes_left = None\<rparr>"
    "projector_sound book \<lparr>pj_facts = s, pj_store = pj_store (pw_projector new_projection_world), pj_fault = None, pj_writes_left = None\<rparr> no_facts"
    by (rule started_sound)
  then have "pw_alive ?w" "cadence_inv book [] (pw_projector ?w) no_facts"
    by (simp_all add: cadence_inv_def plan_ids_def new_projection_world_def no_projections_def)
  from cadence_run [OF assms(1-3) this assms(4)] obtain t where
    inv: "cadence_inv book (firsts (projected_ids steps)) (pw_projector (projection_run book steps ?w)) t" by blast
  have "projection_run book (StartProjector # steps) new_projection_world = projection_run book steps ?w"
    by (simp add: projection_run_def del: take_step.simps)
  with counter_value [OF assms(1) inv assms(4), of sc] show ?thesis
    by (simp add: Let_def in_scope_def count_in_def)
qed

definition two_messages_and_a_photo :: "projection_step list" where
  "two_messages_and_a_photo = [ProjectReceipt ''early'' None None (utc 9), ProjectReceipt ''a'' None None (utc 9),
     StartProjector, ProjectReceipt ''early'' None None (utc 9), ProjectReceipt ''photo'' None None (utc 9)]"

lemma counter_counts_since_photo_witness:
  "counter_in (projection_run small_book (StartProjector # two_messages_and_a_photo) new_projection_world) = Some ''0'' \<and>
   counter_in (projection_run small_book (StartProjector # butlast two_messages_and_a_photo) new_projection_world) = Some ''2''"
proof
  have valid: "list_all projection_step_valid two_messages_and_a_photo" by (simp add: two_messages_and_a_photo_def)
  have "list_all (calm_step small_book) two_messages_and_a_photo"
    "in_order small_book (firsts (projected_ids two_messages_and_a_photo))" by code_simp+
  from counter_counts_since_photo [OF small_book_ok valid this, of "user_scope ''u''"]
  have "counter_in (projection_run small_book (StartProjector # two_messages_and_a_photo) new_projection_world) =
     (let ids = filter (\<lambda>i. scope_of small_book i = user_scope ''u'') (firsts (projected_ids two_messages_and_a_photo))
      in if ids = [] then None else Some (show_int (int (since_photo (map (action_of small_book) ids)))))"
    by (simp only: counter_in_def)
  also have "\<dots> = Some ''0''" by code_simp
  finally show "counter_in (projection_run small_book (StartProjector # two_messages_and_a_photo) new_projection_world) = Some ''0''" .
qed code_simp

end
