(* ===== verification/Spec2Isabelle.thy ===== *)
theory Spec2Isabelle
  imports Delivery_Switch Intent_Lifecycle State_Resolver State_Ingest Slow_History Turn_Liveness
    Fact_Admission Fact_Interactions Projection_Cadence
begin

text \<open>
  A verification library for \<^verbatim>\<open>mind_runtime\<close>, the Python package under \<^verbatim>\<open>src/src/mind_runtime\<close>. All file
  names below are relative to that directory.

  The program. A runtime keeps the mind of an agent between the turns of a conversation. Evidence is admitted
  to a file of facts together with the observation of it; a reconciler turns observations into records of
  state with a lifecycle and a validity; a resolver hands the effective ones to a turn. The orchestrator runs
  a turn: the cognitive steps make an uncommitted projection, and the commit writes states, transitions, slow
  contributions and a marker in one transaction, publishes them to the canonical memory and removes the
  checkpoint. Intents are proposals for later with a lifecycle of their own, woken and expired by a scheduler.
  What the agent says leaves through the delivery plane: a request is recorded durably, handed to a carrier,
  and a recovery daemon settles after a restart what was in flight. The receipt of an accepted delivery is then
  projected into facts that count the messages since the last photo, each receipt once. Every plane has its own
  SQLite file and is append-only where the code says so.

  The theories, in the order of the import graph.

  \<^item> \<^theory_text>\<open>MR_Prelude\<close>: exceptions as values (\<open>result\<close>), validators (\<open>guarded\<close>), operations on
    mutable state that may raise after some of their writes (\<open>prog\<close>), strings, instants, and the rules the
    components share. \<^theory_text>\<open>MR_Contracts\<close>: \<^verbatim>\<open>contracts/scope.py\<close> and \<^verbatim>\<open>contracts/common.py\<close>.
    \<^theory_text>\<open>Json_Value\<close>, \<^theory_text>\<open>Frozen_Value\<close>: what a JSON column holds and the value algebra of
    \<^verbatim>\<open>freeze_value\<close>.
  \<^item> Delivery (\<^verbatim>\<open>delivery/\<close>): \<^theory_text>\<open>Delivery_State\<close> (lifecycle table, retry policy),
    \<^theory_text>\<open>Delivery_Contracts\<close> (requests, receipts, in-memory stores, carrier), \<^theory_text>\<open>Kill_Switch\<close>,
    \<^theory_text>\<open>Delivery_Rows\<close> and \<^theory_text>\<open>Delivery_Backend\<close> (\<^verbatim>\<open>persistence.py\<close>: rows, round trips, the
    operations on the file, histories of it), \<^theory_text>\<open>Delivery_Daemon\<close> (\<^verbatim>\<open>reconcile.py\<close>,
    \<^verbatim>\<open>daemon.py\<close>: one recovery pass over any carrier), \<^theory_text>\<open>Delivery_Switch\<close> (a pass does not
    depend on the kill switch).
  \<^item> Intents (\<^verbatim>\<open>contracts/intent.py\<close>, \<^verbatim>\<open>intents/\<close>): \<^theory_text>\<open>Intent_Contracts\<close>,
    \<^theory_text>\<open>Intent_Ledger\<close> (the backend protocol as a locale), \<^theory_text>\<open>Intent_Memory\<close> and
    \<^theory_text>\<open>Intent_Sqlite\<close> (the two backends, each an interpretation of it), \<^theory_text>\<open>Intent_Lifecycle\<close>
    (service and scheduler, and what holds for both backends).
  \<^item> State (\<^verbatim>\<open>contracts/state.py\<close>, \<^verbatim>\<open>contracts/transition.py\<close>, \<^verbatim>\<open>contracts/reality.py\<close>,
    \<^verbatim>\<open>contracts/observation.py\<close>, \<^verbatim>\<open>state/\<close>): \<^theory_text>\<open>State_Contracts\<close>,
    \<^theory_text>\<open>Observation_Contracts\<close>, \<^theory_text>\<open>State_Lifecycle\<close>, \<^theory_text>\<open>State_Definitions\<close>,
    \<^theory_text>\<open>State_Reconciler\<close> and \<^theory_text>\<open>State_Reconciliation\<close> (a pass, and what it guarantees),
    \<^theory_text>\<open>State_Resolver\<close> (the read gate), \<^theory_text>\<open>State_Ingest\<close>; and the durable plane
    \<^theory_text>\<open>State_Rows\<close>, \<^theory_text>\<open>State_Store\<close>, \<^theory_text>\<open>State_Plane\<close> (\<^verbatim>\<open>state/persistence.py\<close>).
  \<^item> Slow plasticity: \<^theory_text>\<open>Homeostasis\<close> (\<^verbatim>\<open>homeostasis/\<close>, \<^verbatim>\<open>state/longitudinal.py\<close>),
    \<^theory_text>\<open>Slow_Writer\<close>, \<^theory_text>\<open>Slow_Window\<close>, \<^theory_text>\<open>Slow_History\<close>
    (\<^verbatim>\<open>slow_plasticity/writer.py\<close>: the operations, one flush, all histories).
  \<^item> Turns (\<^verbatim>\<open>pipeline/\<close>): \<^theory_text>\<open>Turn_Checkpoint\<close> (\<^verbatim>\<open>checkpoints.py\<close>,
    \<^verbatim>\<open>receipts.py\<close>; the two stores interpret one locale), \<^theory_text>\<open>Application_Receipts\<close>,
    \<^theory_text>\<open>Turn_Projection\<close>, \<^theory_text>\<open>Turn_Commit\<close> (\<^verbatim>\<open>orchestrator.py\<close>: ingest, commit, abort,
    refresh), \<^theory_text>\<open>Turn_History\<close> and \<^theory_text>\<open>Turn_Liveness\<close> (what a commit guarantees).

  \<^item> Facts (\<^verbatim>\<open>contracts/evidence.py\<close>, \<^verbatim>\<open>contracts/interaction.py\<close>, \<^verbatim>\<open>facts/\<close>): \<^theory_text>\<open>Fact_Contracts\<close>,
    \<^theory_text>\<open>Fact_Store\<close> (\<^verbatim>\<open>persistence.py\<close>), \<^theory_text>\<open>Fact_Service\<close> (\<^verbatim>\<open>service.py\<close> with the stores,
    validators and the provenance log), \<^theory_text>\<open>Fact_Durable\<close> and \<^theory_text>\<open>Fact_History\<close> (any number of services
    on one file), \<^theory_text>\<open>Fact_Admission\<close> (one admission against its specification),
    \<^theory_text>\<open>Fact_Interactions\<close> (\<^verbatim>\<open>coordinator.py\<close>).
  \<^item> Projection of settled actions (\<^verbatim>\<open>projection/\<close>): \<^theory_text>\<open>Py_Text\<close> (\<^verbatim>\<open>int(text)\<close>,
    \<^verbatim>\<open>isoformat\<close>), \<^theory_text>\<open>Projection_Store\<close> (\<^verbatim>\<open>store.py\<close>), \<^theory_text>\<open>Settled_Projector\<close>
    (\<^verbatim>\<open>projector.py\<close>, over the fact service above), \<^theory_text>\<open>Projection_Frame\<close> (which calls touch counter
    facts), \<^theory_text>\<open>Projection_History\<close> (runs that end between any two writes, restarts, repeated receipts),
    \<^theory_text>\<open>Projection_Safety\<close> (each receipt counted once and never left behind), \<^theory_text>\<open>Projection_Cadence\<close>
    (what the counter counts).

  How code becomes HOL. A dataclass is a \<open>record\<close>, its \<^verbatim>\<open>__post_init__\<close> the list of checks
  \<open>x_checks\<close>, and \<open>mk_x\<close> is the constructor that may raise. A dict is an association list in insertion
  order. A SQL table is a list of rows in row order; a primary key or index is a check at the insertion that
  returns \<open>IntegrityError\<close>. An operation on a store is a \<open>prog\<close>: it returns the result together with
  the state it leaves, so that an exception after a write shows. A transaction restores the tables when its
  body raises. Instants are integers of microseconds with the time zone kept where the code looks at it.

  What the lemmas show. For each row format: a valid record is read back from its row. For each store: an
  invariant over every history of calls, failures, crashes and reopenings, and the exact result and effect of
  the operations on every branch. For the reconciler, the resolver and the lifecycle services: the exact
  outcome of every input, and what a whole pass does to the history of each dimension. For pairs of
  implementations (the Intent backends, the checkpoint stores): both answer every sequence of calls alike. For
  the turn: a commit is all or nothing, also when the publication in memory fails after it; it must succeed on
  new records; and where the ids of the records are distinct it leaves in memory what a restart loads.
  For the projector: over all histories a receipt has one plan and its facts are written once, a run that was
  cut off can be finished by running it again, and with receipts in order the counter is the number of messages
  since the last photo.
  The properties proper are the numbered theorems, each after a text that states it; the manifest lists them.

  Parameters. Code that is not under \<^verbatim>\<open>src/\<close> and the outside world are arguments of the definitions:
  the hash \<open>digest\<close> (SHA-256 of a canonical text), the carrier and the reconciler of the delivery daemon
  (any functions with a state of their own), clocks (the sequence of their answers), the arithmetic of floats
  in the slow writer (\<open>float_arith\<close>: sum and quotient are arbitrary functions, and the one property that
  speaks of values is stated for exact arithmetic), the receipts of accepted appraisals in a commit, and
  the place where an exception cuts the publication of a committed turn, if one does. A projector is given the number of writes its process still makes before it ends (\<open>pj_writes_left\<close>; \<open>None\<close>
  when it does not end), and its histories the \<open>book\<close> of receipts and requests that the delivery plane hands
  it. Floats that are only stored and compared are rationals. No definition uses fuel: every loop of the modelled code
  runs over a list.

  Not modelled. Logging, opening and closing files, schema migration by \<^verbatim>\<open>ALTER TABLE\<close>, threads and
  locks (every operation is one step; interleavings are sequences of operations). Of the orchestrator: the
  wiring of ports, the cognitive steps between begin and commit, dispatch, telemetry and thread updates. Not reached: reality
  extraction, situation, the intent engine, Surface, the journal of late appraisal projections, runtime
  admission. The limit of 4300 digits in \<^verbatim>\<open>int(text)\<close> is left out.
  Left out by nature: dynamics and emotional transition compute with exponentials on floats; cognition,
  decision, expression, memory and the providers call language models and vector databases; shadow,
  validation, replication, host and observation window are harnesses, adapters and views.
\<close>

end
